(* ===== verification/Prelude.thy ===== *)
theory Prelude
  imports "HOL-Library.Word" "HOL-Library.Sublist"
begin

text \<open>
  Shared vocabulary of the development.

  The C program works on machine integers, on byte buffers of a fixed size, on null-terminated
  strings, and reports errors by THROWing a 16-bit status word.  This theory fixes how each of
  these is written in HOL:

  \<^item> an unsigned C integer of width w is a \<open>w word\<close>; a length that the code
    keeps in a \<open>uint8_t\<close> or a \<open>size_t\<close> is a \<open>nat\<close>, with the
    wrap-around of \<open>uint8_t\<close> subtraction written out (\<open>sub8\<close>);
  \<^item> a buffer is a list of bytes of the buffer's length.  A write or read that leaves the
    buffer is the value \<open>Oob\<close> (\<open>Fault\<close> in stateful code), never an
    unspecified list;
  \<^item> a THROW is the value \<open>Err sw\<close>, and in stateful code \<open>Throw sw s\<close> with
    the state in which it was thrown.

  The predicates \<open>rwp\<close> and \<open>wp\<close> are the weakest preconditions of the two result
  types, with one postcondition for a normal return and one for a THROW; both demand the
  absence of faults.
\<close>

subsection \<open>Types\<close>

type_synonym u8 = "8 word"
type_synonym u16 = "16 word"
type_synonym u32 = "32 word"
type_synonym u64 = "64 word"
type_synonym bytes = "u8 list"

named_theorems wp_rules \<open>weakest-precondition equations\<close>
named_theorems len_rules \<open>lengths of buffers after an operation\<close>

datatype 'a result = Ok 'a | Err u16 | Oob

primrec rbind :: "'a result \<Rightarrow> ('a \<Rightarrow> 'b result) \<Rightarrow> 'b result" where
  "rbind (Ok a) f = f a"
| "rbind (Err e) f = Err e"
| "rbind Oob f = Oob"

primrec rwp :: "'a result \<Rightarrow> ('a \<Rightarrow> bool) \<Rightarrow> (u16 \<Rightarrow> bool) \<Rightarrow> bool" where
  "rwp (Ok a) Q E = Q a"
| "rwp (Err e) Q E = E e"
| "rwp Oob Q E = False"

datatype ('s, 'a) outcome = Ret 'a 's | Throw u16 's | Fault

primrec bind :: "('s, 'a) outcome \<Rightarrow> ('a \<Rightarrow> 's \<Rightarrow> ('s, 'b) outcome) \<Rightarrow> ('s, 'b) outcome" where
  "bind (Ret a s) f = f a s"
| "bind (Throw e s) f = Throw e s"
| "bind Fault f = Fault"

primrec wp :: "('s, 'a) outcome \<Rightarrow> ('a \<Rightarrow> 's \<Rightarrow> bool) \<Rightarrow> (u16 \<Rightarrow> 's \<Rightarrow> bool) \<Rightarrow> bool" where
  "wp (Ret a s) Q E = Q a s"
| "wp (Throw e s) Q E = E e s"
| "wp Fault Q E = False"

text \<open>A pure helper called from stateful code: its error is thrown in the state of the call.\<close>

primrec call :: "'a result \<Rightarrow> 's \<Rightarrow> ('a \<Rightarrow> ('s, 'b) outcome) \<Rightarrow> ('s, 'b) outcome" where
  "call (Ok a) s f = f a"
| "call (Err e) s f = Throw e s"
| "call Oob s f = Fault"

lemma rwp_bind [simp, wp_rules]:
  "rwp (rbind r f) Q E = rwp r (\<lambda>a. rwp (f a) Q E) E"
  by (cases r) simp_all

lemma wp_bind [simp, wp_rules]:
  "wp (bind r f) Q E = wp r (\<lambda>a s. wp (f a s) Q E) E"
  by (cases r) simp_all

lemma wp_call [simp, wp_rules]:
  "wp (call r s f) Q E = rwp r (\<lambda>a. wp (f a) Q E) (\<lambda>e. E e s)"
  by (cases r) simp_all

lemma rwp_if [simp, wp_rules]:
  "rwp (if b then x else y) Q E = (if b then rwp x Q E else rwp y Q E)"
  by simp

lemma wp_if [simp, wp_rules]:
  "wp (if b then x else y) Q E = (if b then wp x Q E else wp y Q E)"
  by simp

lemma rwp_mono:
  assumes "rwp r Q E" "\<And>a. Q a \<Longrightarrow> Q' a" "\<And>e. E e \<Longrightarrow> E' e"
  shows "rwp r Q' E'"
  using assms by (cases r) simp_all

lemma wp_mono:
  assumes "wp r Q E" "\<And>a s. Q a s \<Longrightarrow> Q' a s" "\<And>e s. E e s \<Longrightarrow> E' e s"
  shows "wp r Q' E'"
  using assms by (cases r) simp_all

lemma rwp_conj:
  assumes "rwp r Q E" "rwp r Q' E'"
  shows "rwp r (\<lambda>a. Q a \<and> Q' a) (\<lambda>e. E e \<and> E' e)"
  using assms by (cases r) simp_all

lemma rwp_OkD: "rwp r Q E \<Longrightarrow> r = Ok a \<Longrightarrow> Q a"
  by simp

lemma wp_RetD: "wp r Q E \<Longrightarrow> r = Ret a s \<Longrightarrow> Q a s"
  by simp

lemma rbind_Ok_iff: "rbind r f = Ok b \<longleftrightarrow> (\<exists>a. r = Ok a \<and> f a = Ok b)"
  by (cases r) auto

lemma bind_Ret_iff: "bind r f = Ret b t \<longleftrightarrow> (\<exists>a s. r = Ret a s \<and> f a s = Ret b t)"
  by (cases r) auto

lemma call_Ret_iff: "call r s f = Ret b t \<longleftrightarrow> (\<exists>a. r = Ok a \<and> f a = Ret b t)"
  by (cases r) auto

lemma if_Throw_Ret_iff [simp]:
  "((if b then Throw e s else r) = Ret a t) \<longleftrightarrow> \<not> b \<and> r = Ret a t"
  by simp

lemma if_Err_Ok_iff [simp]:
  "((if b then Err e else r) = Ok a) \<longleftrightarrow> \<not> b \<and> r = Ok a"
  by simp

lemma if_Fault_Ret_iff [simp]:
  "((if b then r else Fault) = Ret a t) \<longleftrightarrow> b \<and> r = Ret a t"
  by simp

subsection \<open>Buffers\<close>

text \<open>
  \<open>put dst off src\<close> is \<open>memmove(dst + off, src, length src)\<close>;
  \<open>slice src off n\<close> is the n bytes at \<open>src + off\<close>.
\<close>

definition put :: "bytes \<Rightarrow> nat \<Rightarrow> bytes \<Rightarrow> bytes result" where
  "put dst off src =
     (if off + length src \<le> length dst
      then Ok (take off dst @ src @ drop (off + length src) dst) else Oob)"

definition slice :: "bytes \<Rightarrow> nat \<Rightarrow> nat \<Rightarrow> bytes result" where
  "slice src off n =
     (if off + n \<le> length src then Ok (take n (drop off src)) else Oob)"

definition byte_at :: "bytes \<Rightarrow> nat \<Rightarrow> u8 result" where
  "byte_at src i = (if i < length src then Ok (src ! i) else Oob)"

text \<open>The C string held by a buffer: its bytes up to the first NUL.\<close>

definition cstr :: "bytes \<Rightarrow> bytes" where
  "cstr buf = takeWhile (\<lambda>b. b \<noteq> 0) buf"

definition ascii :: "string \<Rightarrow> bytes" where
  "ascii = map of_char"

definition zeros :: "nat \<Rightarrow> bytes" where
  "zeros n = replicate n 0"

lemma length_zeros [simp, len_rules]: "length (zeros n) = n"
  by (simp add: zeros_def)

lemma length_ascii [simp, len_rules]: "length (ascii s) = length s"
  by (simp add: ascii_def)

lemma rwp_put [simp, wp_rules]:
  "rwp (put dst off src) Q E \<longleftrightarrow> off + length src \<le> length dst \<and>
     Q (take off dst @ src @ drop (off + length src) dst)"
  by (simp add: put_def)

lemma put_Ok: "off + length src \<le> length dst \<Longrightarrow>
  put dst off src = Ok (take off dst @ src @ drop (off + length src) dst)"
  by (simp add: put_def)

lemma rwp_slice [simp, wp_rules]:
  "rwp (slice src off n) Q E \<longleftrightarrow> off + n \<le> length src \<and> Q (take n (drop off src))"
  by (simp add: slice_def)

lemma slice_Ok: "off + n \<le> length src \<Longrightarrow> slice src off n = Ok (take n (drop off src))"
  by (simp add: slice_def)

lemma rwp_byte_at [simp, wp_rules]:
  "rwp (byte_at src i) Q E \<longleftrightarrow> i < length src \<and> Q (src ! i)"
  by (simp add: byte_at_def)

lemma byte_at_Ok: "i < length src \<Longrightarrow> byte_at src i = Ok (src ! i)"
  by (simp add: byte_at_def)

lemma put_Ok_length: "put dst off src = Ok dst' \<Longrightarrow> length dst' = length dst"
  by (auto simp: put_def split: if_splits)

lemma cstr_NUL [simp]: "0 \<notin> set s \<Longrightarrow> cstr (s @ 0 # rest) = s"
  by (induction s) (auto simp: cstr_def)

lemma cstr_no_NUL: "0 \<notin> set s \<Longrightarrow> cstr s = s"
  by (induction s) (auto simp: cstr_def)

lemma cstr_zeros [simp]: "0 \<notin> set s \<Longrightarrow> cstr (s @ zeros n) = s"
  by (cases n) (simp_all add: zeros_def cstr_no_NUL)

lemma zero_notin_cstr [simp]: "0 \<notin> set (cstr b)"
  by (auto simp: cstr_def dest: set_takeWhileD)

lemma notin_set_tl: "x \<notin> set xs \<Longrightarrow> x \<notin> set (tl xs)"
  by (cases xs) auto

lemma sep_append_inj:
  assumes "a @ c # r = b @ c # t" "c \<notin> set a" "c \<notin> set b"
  shows "a = b \<and> r = t"
  using assms by (induction a arbitrary: b) (case_tac b; auto)+

lemma length_cstr_le: "length (cstr b) \<le> length b"
  by (simp add: cstr_def length_takeWhile_le)

subsection \<open>Integers\<close>

lemma unat_bounds:
  "unat (a :: u8) < 256" "unat (b :: u16) < 65536"
  "unat (c :: u32) < 4294967296" "unat (d :: u64) < 18446744073709551616"
  using unsigned_less [of a] unsigned_less [of b] unsigned_less [of c] unsigned_less [of d]
  by simp_all

lemma unat_ucast_up [simp]:
  "unat (ucast (a :: u8) :: u16) = unat a" "unat (ucast (a :: u8) :: u32) = unat a"
  "unat (ucast (a :: u8) :: u64) = unat a" "unat (ucast (b :: u16) :: u32) = unat b"
  "unat (ucast (b :: u16) :: u64) = unat b" "unat (ucast (c :: u32) :: u64) = unat c"
  using unat_bounds(1) [of a] unat_bounds(2) [of b] unat_bounds(3) [of c]
  by (simp_all add: unsigned_ucast_eq take_bit_nat_eq_self)

text \<open>\<open>uint8_t\<close> subtraction of lengths wraps modulo 256.\<close>

definition sub8 :: "nat \<Rightarrow> nat \<Rightarrow> nat" where
  "sub8 a b = nat ((int a - int b) mod 256)"

lemma sub8_le [simp]: "b \<le> a \<Longrightarrow> a < 256 \<Longrightarrow> sub8 a b = a - b"
  by (simp add: sub8_def nat_mod_distrib flip: of_nat_diff)

lemma sub8_less [simp]: "sub8 a b < 256"
  by (simp add: sub8_def nat_less_iff)

text \<open>Big-endian reads (\<open>U2BE\<close>, \<open>U4BE\<close>, \<open>U8BE\<close> of the SDK's parser.h).\<close>

definition be_nat :: "bytes \<Rightarrow> nat" where
  "be_nat bs = foldl (\<lambda>n b. n * 256 + unat b) 0 bs"

fun to_be :: "nat \<Rightarrow> nat \<Rightarrow> bytes" where
  "to_be 0 n = []"
| "to_be (Suc k) n = to_be k (n div 256) @ [of_nat n]"

definition U2BE :: "bytes \<Rightarrow> nat \<Rightarrow> u16 result" where
  "U2BE bs off = rbind (slice bs off 2) (\<lambda>x. Ok (of_nat (be_nat x)))"

definition U4BE :: "bytes \<Rightarrow> nat \<Rightarrow> u32 result" where
  "U4BE bs off = rbind (slice bs off 4) (\<lambda>x. Ok (of_nat (be_nat x)))"

definition U8BE :: "bytes \<Rightarrow> nat \<Rightarrow> u64 result" where
  "U8BE bs off = rbind (slice bs off 8) (\<lambda>x. Ok (of_nat (be_nat x)))"

lemma rwp_UBE [simp, wp_rules]:
  "rwp (U2BE bs off) Q2 E \<longleftrightarrow> off + 2 \<le> length bs \<and> Q2 (of_nat (be_nat (take 2 (drop off bs))))"
  "rwp (U4BE bs off) Q4 E \<longleftrightarrow> off + 4 \<le> length bs \<and> Q4 (of_nat (be_nat (take 4 (drop off bs))))"
  "rwp (U8BE bs off) Q8 E \<longleftrightarrow> off + 8 \<le> length bs \<and> Q8 (of_nat (be_nat (take 8 (drop off bs))))"
  by (simp_all add: U2BE_def U4BE_def U8BE_def)

lemma be_nat_Nil [simp]: "be_nat [] = 0"
  by (simp add: be_nat_def)

lemma be_nat_snoc [simp]: "be_nat (bs @ [b]) = be_nat bs * 256 + unat b"
  by (simp add: be_nat_def)

lemma be_nat_append: "be_nat (xs @ ys) = be_nat xs * 256 ^ length ys + be_nat ys"
  by (induction ys rule: rev_induct) (simp_all add: algebra_simps flip: append_assoc)

lemma length_to_be [simp, len_rules]: "length (to_be k n) = k"
  by (induction k arbitrary: n) simp_all

lemma be_nat_to_be: "be_nat (to_be k n) = n mod 256 ^ k"
proof (induction k arbitrary: n)
  case (Suc k)
  have "be_nat (to_be (Suc k) n) = (n div 256) mod 256 ^ k * 256 + n mod 256"
    by (simp add: Suc unat_of_nat)
  also have "\<dots> = n mod (256 * 256 ^ k)"
    by (simp add: mod_mult2_eq)
  finally show ?case by simp
qed simp

lemma be_nat_bound: "be_nat bs < 256 ^ length bs"
proof (induction bs rule: rev_induct)
  case (snoc b bs)
  have "unat b < 256" by (rule unat_bounds)
  moreover have "be_nat bs + 1 \<le> 256 ^ length bs" using snoc by simp
  then have "(be_nat bs + 1) * 256 \<le> 256 ^ length bs * 256" by (rule mult_right_mono) simp
  ultimately show ?case by simp
qed simp

lemma word_of_nat_256: "(of_nat (k * 256 + unat b) :: u8) = b"
proof -
  have "(256 :: u8) = 0" by simp
  then show ?thesis by (simp only: of_nat_add of_nat_mult of_nat_numeral mult_zero_right) simp
qed

lemma to_be_be_nat: "to_be (length bs) (be_nat bs) = bs"
proof (induction bs rule: rev_induct)
  case (snoc b bs)
  have "unat b < 256" by (rule unat_bounds)
  then have "(be_nat bs * 256 + unat b) div 256 = be_nat bs" by simp
  moreover have "(of_nat (be_nat bs * 256 + unat b) :: u8) = b"
    by (rule word_of_nat_256)
  ultimately show ?case using snoc by simp
qed simp

lemma be_nat_inj: "length xs = length ys \<Longrightarrow> be_nat xs = be_nat ys \<Longrightarrow> xs = ys"
  by (metis to_be_be_nat)

subsection \<open>Decimal numerals\<close>

definition digit :: "nat \<Rightarrow> u8" where
  "digit d = 48 + of_nat d"

fun dec :: "nat \<Rightarrow> bytes" where
  "dec n = (if n < 10 then [digit n] else dec (n div 10) @ [digit (n mod 10)])"

declare dec.simps [simp del]

definition undec :: "bytes \<Rightarrow> nat" where
  "undec bs = foldl (\<lambda>n b. n * 10 + (unat b - 48)) 0 bs"

definition is_digit :: "u8 \<Rightarrow> bool" where
  "is_digit b \<longleftrightarrow> 48 \<le> b \<and> b \<le> 57"

lemma unat_digit [simp]: "d < 10 \<Longrightarrow> unat (digit d) = 48 + d"
  by (simp add: digit_def unat_word_ariths unsigned_of_nat take_bit_eq_mod)

lemma is_digit_digit [simp]: "d < 10 \<Longrightarrow> is_digit (digit d)"
  by (simp add: is_digit_def word_le_nat_alt)

lemma dec_digits: "b \<in> set (dec n) \<Longrightarrow> is_digit b"
  by (induction n rule: dec.induct) (subst (asm) (2) dec.simps, auto split: if_splits)

lemma undec_dec [simp]: "undec (dec n) = n"
proof (induction n rule: dec.induct)
  case (1 n)
  then show ?case
    by (subst dec.simps) (simp add: undec_def)
qed

lemma dec_inj [simp]: "dec m = dec n \<longleftrightarrow> m = n"
  by (metis undec_dec)

lemma dec_not_Nil [simp]: "dec n \<noteq> []"
  by (subst dec.simps) simp

lemma not_digit_0 [simp]: "\<not> is_digit 0"
  by (simp add: is_digit_def)

lemma zero_notin_dec [simp]: "0 \<notin> set (dec n)"
  using dec_digits not_digit_0 by blast

lemma length_dec_le: "n < 10 ^ k \<Longrightarrow> 0 < k \<Longrightarrow> length (dec n) \<le> k"
proof (induction k arbitrary: n)
  case (Suc k)
  show ?case
  proof (cases "n < 10")
    case True
    then show ?thesis by (subst dec.simps) simp
  next
    case False
    then have "0 < k" using Suc.prems by (cases k) auto
    moreover have "n div 10 < 10 ^ k" using Suc.prems by (simp add: less_mult_imp_div_less)
    ultimately have "length (dec (n div 10)) \<le> k" using Suc.IH by blast
    then show ?thesis using False by (subst dec.simps) simp
  qed
qed simp

lemma dec_single: "n < 10 \<Longrightarrow> dec n = [digit n]"
  by (subst dec.simps) simp

lemma length_dec_ge: "10 ^ k \<le> n \<Longrightarrow> k < length (dec n)"
proof (induction k arbitrary: n)
  case (Suc k)
  then have "10 ^ k \<le> n div 10" by (simp add: less_eq_div_iff_mult_less_eq mult.commute)
  moreover have "\<not> n < 10" using Suc.prems order_trans [of 10 "10 * 10 ^ k" n] by simp
  ultimately show ?case using Suc.IH by (subst dec.simps) simp
qed simp

lemma length_dec_u64: "length (dec (unat (x :: u64))) \<le> 20"
  by (rule length_dec_le) (simp_all add: less_le_trans [OF unat_bounds(4)] less_le_trans [OF unat_bounds(3)] less_le_trans [OF unat_bounds(2)] less_le_trans [OF unat_bounds(1)])

lemma length_dec_u32: "length (dec (unat (x :: u32))) \<le> 10"
  by (rule length_dec_le) (simp_all add: less_le_trans [OF unat_bounds(4)] less_le_trans [OF unat_bounds(3)] less_le_trans [OF unat_bounds(2)] less_le_trans [OF unat_bounds(1)])

lemma length_dec_u16: "length (dec (unat (x :: u16))) \<le> 5"
  by (rule length_dec_le) (simp_all add: less_le_trans [OF unat_bounds(4)] less_le_trans [OF unat_bounds(3)] less_le_trans [OF unat_bounds(2)] less_le_trans [OF unat_bounds(1)])

lemma length_dec_u8: "length (dec (unat (x :: u8))) \<le> 3"
  by (rule length_dec_le) (simp_all add: less_le_trans [OF unat_bounds(4)] less_le_trans [OF unat_bounds(3)] less_le_trans [OF unat_bounds(2)] less_le_trans [OF unat_bounds(1)])

end
