(* ===== verification/Sdk.thy ===== *)
theory Sdk
  imports Prelude
begin

text \<open>
  The code that is not part of the repository, as one parameter of the model.

  The application calls the Ledger SDK for number formatting, hashing, key derivation,
  signatures, randomness, certificate checks and APDU parsing.  None of that code is under src/,
  so each function the application calls is a field of the record \<open>sdk\<close>, and every
  operation of the model that reaches the SDK takes such a record \<open>E\<close>.  What the
  application relies on is stated by the named predicates at the end of this theory; each is the
  documented behaviour of one group of functions.  \<open>demo_sdk\<close> is a concrete record that
  satisfies all of them; the witnesses of the properties use it.

  A function that can report a failure returns an option, None being the failure.
\<close>

unbundle bit_operations_syntax

subsection \<open>Status words\<close>

text \<open>The SDK's status_words.h, and the application's own codes of globals.h.\<close>

abbreviation SWO_SUCCESS :: u16 where "SWO_SUCCESS \<equiv> 0x9000"
abbreviation SWO_CONDITIONS_NOT_SATISFIED :: u16 where "SWO_CONDITIONS_NOT_SATISFIED \<equiv> 0x6985"
abbreviation SWO_INCORRECT_DATA :: u16 where "SWO_INCORRECT_DATA \<equiv> 0x6A80"
abbreviation SWO_INCORRECT_P1_P2 :: u16 where "SWO_INCORRECT_P1_P2 \<equiv> 0x6A86"
abbreviation SWO_WRONG_DATA_LENGTH :: u16 where "SWO_WRONG_DATA_LENGTH \<equiv> 0x6A87"
abbreviation SWO_WRONG_P1_P2 :: u16 where "SWO_WRONG_P1_P2 \<equiv> 0x6B00"
abbreviation SWO_INVALID_INS :: u16 where "SWO_INVALID_INS \<equiv> 0x6D00"
abbreviation SWO_INVALID_CLA :: u16 where "SWO_INVALID_CLA \<equiv> 0x6E00"

abbreviation ERROR_INVALID_STATE :: u16 where "ERROR_INVALID_STATE \<equiv> 0x6B01"
abbreviation ERROR_INVALID_PATH :: u16 where "ERROR_INVALID_PATH \<equiv> 0x6B02"
abbreviation ERROR_INVALID_PARAM :: u16 where "ERROR_INVALID_PARAM \<equiv> 0x6B03"
abbreviation ERROR_INVALID_TRANSACTION :: u16 where "ERROR_INVALID_TRANSACTION \<equiv> 0x6B04"
abbreviation ERROR_UNSUPPORTED_CBOR :: u16 where "ERROR_UNSUPPORTED_CBOR \<equiv> 0x6B05"
abbreviation ERROR_BUFFER_OVERFLOW :: u16 where "ERROR_BUFFER_OVERFLOW \<equiv> 0x6B06"
abbreviation ERROR_FAILED_CX_OPERATION :: u16 where "ERROR_FAILED_CX_OPERATION \<equiv> 0x6B07"
abbreviation ERROR_INVALID_SOURCE_LENGTH :: u16 where "ERROR_INVALID_SOURCE_LENGTH \<equiv> 0x6B08"
abbreviation ERROR_INVALID_MODULE_REF :: u16 where "ERROR_INVALID_MODULE_REF \<equiv> 0x6B09"
abbreviation ERROR_INVALID_NAME_LENGTH :: u16 where "ERROR_INVALID_NAME_LENGTH \<equiv> 0x6B0A"
abbreviation ERROR_INVALID_PARAMS_LENGTH :: u16 where "ERROR_INVALID_PARAMS_LENGTH \<equiv> 0x6B0B"
abbreviation ERROR_TRUSTED_NAME_MISMATCH :: u16 where "ERROR_TRUSTED_NAME_MISMATCH \<equiv> 0x6B0C"
abbreviation ERROR_PLT_CBOR_ERROR :: u16 where "ERROR_PLT_CBOR_ERROR \<equiv> 0x6B0D"
abbreviation ERROR_PLT_BUFFER_ERROR :: u16 where "ERROR_PLT_BUFFER_ERROR \<equiv> 0x6B0E"
abbreviation ERROR_PLT_DATA_ERROR :: u16 where "ERROR_PLT_DATA_ERROR \<equiv> 0x6B0F"
abbreviation ERROR_PLT_MULTI_OP :: u16 where "ERROR_PLT_MULTI_OP \<equiv> 0x6B10"
abbreviation ERROR_PLT_UNSUPPORTED_DECIMALS :: u16 where "ERROR_PLT_UNSUPPORTED_DECIMALS \<equiv> 0x6B11"
abbreviation ERROR_PLT_UNSUPPORTED_MEMO :: u16 where "ERROR_PLT_UNSUPPORTED_MEMO \<equiv> 0x6B12"
abbreviation ERROR_DEVICE_LOCKED :: u16 where "ERROR_DEVICE_LOCKED \<equiv> 0x530C"

text \<open>
  A status word is told from a BOLOS system exception by its magnitude
  (\<open>MAX_SYSTEM_EXCEPTION\<close> of globals.h).
\<close>

definition status_word :: "u16 \<Rightarrow> bool" where
  "status_word e \<longleftrightarrow> 0x00FF < e"

lemma status_words [simp]:
  "status_word SWO_CONDITIONS_NOT_SATISFIED" "status_word SWO_INCORRECT_DATA"
  "status_word SWO_INCORRECT_P1_P2" "status_word SWO_WRONG_DATA_LENGTH"
  "status_word SWO_WRONG_P1_P2" "status_word SWO_INVALID_INS" "status_word SWO_INVALID_CLA"
  "status_word ERROR_INVALID_STATE" "status_word ERROR_INVALID_PATH"
  "status_word ERROR_INVALID_PARAM" "status_word ERROR_INVALID_TRANSACTION"
  "status_word ERROR_UNSUPPORTED_CBOR" "status_word ERROR_BUFFER_OVERFLOW"
  "status_word ERROR_FAILED_CX_OPERATION" "status_word ERROR_INVALID_SOURCE_LENGTH"
  "status_word ERROR_INVALID_MODULE_REF" "status_word ERROR_INVALID_NAME_LENGTH"
  "status_word ERROR_INVALID_PARAMS_LENGTH" "status_word ERROR_TRUSTED_NAME_MISMATCH"
  "status_word ERROR_PLT_CBOR_ERROR" "status_word ERROR_PLT_BUFFER_ERROR"
  "status_word ERROR_PLT_DATA_ERROR" "status_word ERROR_PLT_MULTI_OP"
  "status_word ERROR_PLT_UNSUPPORTED_DECIMALS" "status_word ERROR_PLT_UNSUPPORTED_MEMO"
  "status_word ERROR_DEVICE_LOCKED"
  by (simp_all add: status_word_def)

subsection \<open>tinycbor\<close>

text \<open>
  The CBOR library: a \<open>CborValue\<close> is a cursor, the buffer it was opened on and an
  offset into it.  None is any error code other than CborNoError.
\<close>

type_synonym cbor_value = "bytes \<times> nat"

record tinycbor =
  cbor_parser_init :: "bytes \<Rightarrow> cbor_value option"
  cbor_value_is_unsigned_integer :: "cbor_value \<Rightarrow> bool"
  cbor_value_get_uint64 :: "cbor_value \<Rightarrow> u64 option"
  cbor_value_is_negative_integer :: "cbor_value \<Rightarrow> bool"
  cbor_value_get_raw_integer :: "cbor_value \<Rightarrow> u64 option"
  cbor_value_advance_fixed :: "cbor_value \<Rightarrow> cbor_value option"
  cbor_value_get_next_byte :: "cbor_value \<Rightarrow> nat"
  cbor_value_is_text_string :: "cbor_value \<Rightarrow> bool"
  cbor_value_is_length_known :: "cbor_value \<Rightarrow> bool"
  cbor_value_begin_string_iteration :: "cbor_value \<Rightarrow> cbor_value option"
  cbor_value_get_text_string_chunk :: "cbor_value \<Rightarrow> (nat \<times> nat \<times> cbor_value) option"

subsection \<open>The SDK's functions\<close>

record sdk =
  \<comment> \<open>format.h: buffer size, value (and decimals): the text written, without its NUL\<close>
  sdk_format_u64 :: "nat \<Rightarrow> u64 \<Rightarrow> bytes option"
  sdk_format_fpu64_trimmed :: "nat \<Rightarrow> u64 \<Rightarrow> nat \<Rightarrow> bytes option"
  sdk_format_hex :: "bytes \<Rightarrow> nat \<Rightarrow> bytes option"
  \<comment> \<open>base58.h: the characters written into a buffer of the given size\<close>
  sdk_base58_encode :: "bytes \<Rightarrow> nat \<Rightarrow> bytes option"
  \<comment> \<open>cx: whether initialising and updating a SHA-256 context succeeds, and the digest\<close>
  sdk_sha256_init :: bool
  sdk_hash_update :: "bytes \<Rightarrow> bytes \<Rightarrow> bool"
  sdk_hash_final :: "bytes \<Rightarrow> bytes option"
  sdk_hash_sha256 :: "bytes \<Rightarrow> bytes option"
  \<comment> \<open>SLIP-10 derivation: private key data and chain code of a path\<close>
  sdk_derive_bip32 :: "u32 list \<Rightarrow> (bytes \<times> bytes) option"
  sdk_ecfp_init_private_key :: "bytes \<Rightarrow> bytes option"
  sdk_ecfp_generate_pair :: "bytes \<Rightarrow> bytes option"
  sdk_eddsa_sign :: "bytes \<Rightarrow> bytes \<Rightarrow> bytes option"
  \<comment> \<open>HKDF: ikm, salt; prk, info, output length; and the reduction of a big-endian number\<close>
  sdk_hkdf_extract :: "bytes \<Rightarrow> bytes \<Rightarrow> bytes"
  sdk_hkdf_expand :: "bytes \<Rightarrow> bytes \<Rightarrow> nat \<Rightarrow> bytes"
  sdk_math_modm :: "bytes \<Rightarrow> bytes \<Rightarrow> bytes option"
  sdk_cbor :: tinycbor

subsection \<open>Reference text of a decimal amount\<close>

text \<open>
  \<open>fpu_text v d\<close> is v / 10^d in decimal notation without trailing zeros, the text that
  \<open>format_fpu64_trimmed\<close> is documented to produce.
\<close>

fun fixed_digits :: "nat \<Rightarrow> nat \<Rightarrow> bytes" where
  "fixed_digits 0 n = []"
| "fixed_digits (Suc k) n = fixed_digits k (n div 10) @ [digit (n mod 10)]"

definition trim_zeros :: "bytes \<Rightarrow> bytes" where
  "trim_zeros s = rev (dropWhile (\<lambda>b. b = 48) (rev s))"

definition fpu_text :: "nat \<Rightarrow> nat \<Rightarrow> bytes" where
  "fpu_text v d =
     dec (v div 10 ^ d) @
     (if v mod 10 ^ d = 0 then [] else 46 # trim_zeros (fixed_digits d (v mod 10 ^ d)))"

lemma length_fixed_digits [simp, len_rules]: "length (fixed_digits k n) = k"
  by (induction k arbitrary: n) simp_all

lemma fixed_digits_digits: "b \<in> set (fixed_digits k n) \<Longrightarrow> is_digit b"
  by (induction k arbitrary: n) auto

lemma fixed_digits_inj:
  "fixed_digits k m = fixed_digits k n \<Longrightarrow> m < 10 ^ k \<Longrightarrow> n < 10 ^ k \<Longrightarrow> m = n"
proof (induction k arbitrary: m n)
  case (Suc k)
  have "fixed_digits k (m div 10) = fixed_digits k (n div 10)"
    and d: "digit (m mod 10) = digit (n mod 10)"
    using Suc.prems(1) by simp_all
  then have "m div 10 = n div 10"
    using Suc by (simp add: less_mult_imp_div_less)
  moreover have "m mod 10 = n mod 10"
    using arg_cong [OF d, of unat] by simp
  ultimately show ?case by (metis div_mult_mod_eq)
qed simp

lemma trim_zeros_decomp: "\<exists>k. s = trim_zeros s @ replicate k 48"
proof -
  have "rev s = takeWhile (\<lambda>b. b = 48) (rev s) @ dropWhile (\<lambda>b. b = 48) (rev s)"
    by simp
  moreover have "takeWhile (\<lambda>b. b = 48) (rev s) = replicate (length (takeWhile (\<lambda>b. b = 48) (rev s))) 48"
    by (rule replicate_length_same [symmetric]) (auto dest: set_takeWhileD)
  ultimately have "s = trim_zeros s @ rev (replicate (length (takeWhile (\<lambda>b. b = 48) (rev s))) 48)"
    unfolding trim_zeros_def by (metis rev_append rev_rev_ident)
  then show ?thesis by (metis rev_replicate)
qed

lemma trim_zeros_inj:
  assumes "trim_zeros s = trim_zeros t" "length s = length t"
  shows "s = t"
proof -
  obtain j k where "s = trim_zeros s @ replicate j 48" "t = trim_zeros t @ replicate k 48"
    using trim_zeros_decomp by blast
  moreover from this assms have "j = k"
    by (metis add_left_cancel length_append length_replicate)
  ultimately show ?thesis using assms by metis
qed

lemma set_trim_zeros: "set (trim_zeros s) \<subseteq> set s"
  by (auto simp: trim_zeros_def dest: set_dropWhileD)

lemma length_trim_zeros: "length (trim_zeros s) \<le> length s"
  by (simp add: trim_zeros_def) (metis length_dropWhile_le length_rev)

lemma not_digit_46 [simp]: "\<not> is_digit 46"
  by (simp add: is_digit_def)

lemma dot_notin_dec [simp]: "46 \<notin> set (dec n)"
  using dec_digits not_digit_46 by blast

lemma fpu_text_chars: "b \<in> set (fpu_text v d) \<Longrightarrow> is_digit b \<or> b = 46"
  by (auto simp: fpu_text_def split: if_splits
      dest: dec_digits fixed_digits_digits subsetD [OF set_trim_zeros])

lemma zero_notin_fpu_text [simp]: "0 \<notin> set (fpu_text v d)"
  using fpu_text_chars [of 0] by auto

lemma takeWhile_dot: "46 \<notin> set xs \<Longrightarrow> takeWhile (\<lambda>b. b \<noteq> 46) (xs @ 46 # ys) = xs"
  by (induction xs) auto

lemma takeWhile_no_dot: "46 \<notin> set xs \<Longrightarrow> takeWhile (\<lambda>b. b \<noteq> 46) xs = xs"
  by (induction xs) auto

lemma fpu_text_int: "takeWhile (\<lambda>b. b \<noteq> 46) (fpu_text v d) = dec (v div 10 ^ d)"
  by (simp add: fpu_text_def takeWhile_dot takeWhile_no_dot)

theorem fpu_text_inj: "fpu_text v d = fpu_text w d \<longleftrightarrow> v = w"
proof
  assume eq: "fpu_text v d = fpu_text w d"
  then have int: "v div 10 ^ d = w div 10 ^ d"
    using fpu_text_int [of v d] fpu_text_int [of w d] by simp
  have "v mod 10 ^ d = w mod 10 ^ d"
  proof (cases "v mod 10 ^ d = 0 \<or> w mod 10 ^ d = 0")
    case True
    then show ?thesis using eq int by (auto simp: fpu_text_def split: if_splits)
  next
    case False
    then have "trim_zeros (fixed_digits d (v mod 10 ^ d)) = trim_zeros (fixed_digits d (w mod 10 ^ d))"
      using eq int by (simp add: fpu_text_def)
    then have "fixed_digits d (v mod 10 ^ d) = fixed_digits d (w mod 10 ^ d)"
      by (rule trim_zeros_inj) simp
    then show ?thesis by (rule fixed_digits_inj) simp_all
  qed
  with int show "v = w" by (metis div_mult_mod_eq)
qed simp

lemma length_fpu_text_le:
  assumes "v < 10 ^ (k + d)" "0 < k"
  shows "length (fpu_text v d) \<le> k + 1 + d"
proof -
  have "v div 10 ^ d < 10 ^ k"
    using assms by (simp add: less_mult_imp_div_less power_add)
  then have "length (dec (v div 10 ^ d)) \<le> k"
    using assms by (intro length_dec_le)
  moreover have "length (trim_zeros (fixed_digits d n)) \<le> d" for n
    using length_trim_zeros [of "fixed_digits d n"] by simp
  ultimately show ?thesis
    by (simp add: fpu_text_def) (meson add_mono le_SucI le_trans)
qed

subsection \<open>Documented behaviour\<close>

text \<open>
  format.c: \<open>format_u64\<close> writes the decimal numeral when it fits the buffer (22 bytes hold
  any), \<open>format_fpu64_trimmed\<close> the decimal fraction without trailing zeros (40 bytes hold
  20 digits, a point and up to 18 decimals), \<open>format_hex\<close> two characters per byte when
  these and a NUL fit.
\<close>

definition formats_numbers :: "sdk \<Rightarrow> bool" where
  "formats_numbers E \<longleftrightarrow>
     (\<forall>v. sdk_format_u64 E 22 v = Some (dec (unat v))) \<and>
     (\<forall>v d. d \<le> 18 \<longrightarrow> sdk_format_fpu64_trimmed E 40 v d = Some (fpu_text (unat v) d)) \<and>
     (\<forall>n v d s. sdk_format_fpu64_trimmed E n v d = Some s \<longrightarrow> length s < n \<and> 0 \<notin> set s)"

definition hex_char :: "u8 \<Rightarrow> u8" where
  "hex_char n = (if n < 10 then 48 + n else 55 + n)"

definition upper_hex :: "bytes \<Rightarrow> bytes" where
  "upper_hex bs = concat (map (\<lambda>b. [hex_char (drop_bit 4 b), hex_char (b AND 15)]) bs)"

definition formats_hex :: "sdk \<Rightarrow> bool" where
  "formats_hex E \<longleftrightarrow>
     (\<forall>bs n. sdk_format_hex E bs n = (if 2 * length bs < n then Some (upper_hex bs) else None))"

text \<open>cx: a SHA-256 digest has 32 bytes.\<close>

definition digests :: "sdk \<Rightarrow> bool" where
  "digests E \<longleftrightarrow>
     (\<forall>x h. sdk_hash_final E x = Some h \<longrightarrow> length h = 32) \<and>
     (\<forall>x h. sdk_hash_sha256 E x = Some h \<longrightarrow> length h = 32)"

text \<open>
  base58.c: a 37-byte string that begins with the version byte 1 lies between 256^36 and
  2 * 256^36, so its base-58 numeral has exactly 50 digits; they are written when they fit, and
  different strings have different numerals.
\<close>

definition encodes_base58 :: "sdk \<Rightarrow> bool" where
  "encodes_base58 E \<longleftrightarrow>
     (\<forall>bs n. length bs = 36 \<and> 50 \<le> n \<longrightarrow>
        (\<exists>s. sdk_base58_encode E (1 # bs) n = Some s \<and> length s = 50 \<and> 0 \<notin> set s)) \<and>
     (\<forall>bs bs' n. length bs = 36 \<and> length bs' = 36 \<and> 50 \<le> n \<and>
        sdk_base58_encode E (1 # bs) n = sdk_base58_encode E (1 # bs') n \<longrightarrow> bs = bs')"

text \<open>
  Keys: SLIP-10 derivation gives a 32-byte key and a 32-byte chain code, a public point has 65
  bytes and an Ed25519 signature 64.
\<close>

definition derives_keys :: "sdk \<Rightarrow> bool" where
  "derives_keys E \<longleftrightarrow>
     (\<forall>p k c. sdk_derive_bip32 E p = Some (k, c) \<longrightarrow> length k = 32 \<and> length c = 32) \<and>
     (\<forall>k d. sdk_ecfp_init_private_key E k = Some d \<longrightarrow> length d = 32) \<and>
     (\<forall>d w. sdk_ecfp_generate_pair E d = Some w \<longrightarrow> length w = 65) \<and>
     (\<forall>d m sg. sdk_eddsa_sign E d m = Some sg \<longrightarrow> length sg = 64)"

text \<open>
  HKDF-Expand gives the requested number of bytes; \<open>cx_math_modm\<close> reduces a big-endian
  number in place.
\<close>

definition reduces_modulo :: "sdk \<Rightarrow> bool" where
  "reduces_modulo E \<longleftrightarrow>
     (\<forall>prk info n. length (sdk_hkdf_expand E prk info n) = n) \<and>
     (\<forall>x m r. sdk_math_modm E x m = Some r \<longrightarrow>
        length r = length x \<and> be_nat r = be_nat x mod be_nat m)"

text \<open>
  RFC 8949, section 3: the initial byte holds the major type and the short count, which is the
  argument itself below 24, or announces one, two, four or eight bytes of it; 31 is an indefinite
  length.  The result is the major type, the argument (None when indefinite) and the length of
  the head.
\<close>

definition cbor_head :: "bytes \<Rightarrow> (nat \<times> nat option \<times> nat) option" where
  "cbor_head buf =
     (if buf = [] then None
      else let ib = unat (hd buf); major = ib div 32; ai = ib mod 32;
               arg = (\<lambda>k. if k < length buf
                           then Some (major, Some (be_nat (take k (tl buf))), k + 1) else None) in
        if ai < 24 then Some (major, Some ai, 1)
        else if ai = 24 then arg 1
        else if ai = 25 then arg 2
        else if ai = 26 then arg 4
        else if ai = 27 then arg 8
        else if ai = 31 \<and> 2 \<le> major \<and> major \<le> 5 then Some (major, None, 1)
        else None)"

text \<open>
  tinycbor on a single top-level item: integers and text strings are recognised by their major
  type, their argument is the one of the head, and the cursor after an integer (after a string
  chunk) is behind the head (behind the string's bytes).
\<close>

definition decodes_cbor :: "sdk \<Rightarrow> bool" where
  "decodes_cbor E \<longleftrightarrow> (let T = sdk_cbor E in
     \<forall>buf v. cbor_parser_init T buf = Some v \<longrightarrow>
       (\<exists>major arg n. cbor_head buf = Some (major, arg, n) \<and>
          cbor_value_is_unsigned_integer T v = (major = 0) \<and>
          cbor_value_is_negative_integer T v = (major = 1) \<and>
          cbor_value_is_text_string T v = (major = 3) \<and>
          cbor_value_is_length_known T v = (arg \<noteq> None) \<and>
          (major = 0 \<longrightarrow> cbor_value_get_uint64 T v = map_option of_nat arg) \<and>
          (major = 1 \<longrightarrow> cbor_value_get_raw_integer T v = map_option of_nat arg) \<and>
          (major \<le> 1 \<longrightarrow> (\<forall>w. cbor_value_advance_fixed T v = Some w \<longrightarrow>
             cbor_value_get_next_byte T w = n)) \<and>
          (major = 3 \<longrightarrow> (\<forall>w ptr len next. cbor_value_begin_string_iteration T v = Some w \<longrightarrow>
             cbor_value_get_text_string_chunk T w = Some (ptr, len, next) \<longrightarrow> arg \<noteq> None \<longrightarrow>
             arg = Some len \<and> ptr = n \<and> n + len \<le> length buf \<and>
             cbor_value_get_next_byte T next = n + len))))"

subsection \<open>A concrete SDK\<close>

definition demo_cbor :: tinycbor where
  "demo_cbor = \<lparr>
     cbor_parser_init = (\<lambda>buf. if cbor_head buf = None then None else Some (buf, 0)),
     cbor_value_is_unsigned_integer = (\<lambda>(buf, _). fst (the (cbor_head buf)) = 0),
     cbor_value_get_uint64 = (\<lambda>(buf, _). map_option of_nat (fst (snd (the (cbor_head buf))))),
     cbor_value_is_negative_integer = (\<lambda>(buf, _). fst (the (cbor_head buf)) = 1),
     cbor_value_get_raw_integer = (\<lambda>(buf, _). map_option of_nat (fst (snd (the (cbor_head buf))))),
     cbor_value_advance_fixed = (\<lambda>(buf, _). Some (buf, snd (snd (the (cbor_head buf))))),
     cbor_value_get_next_byte = (\<lambda>(_, off). off),
     cbor_value_is_text_string = (\<lambda>(buf, _). fst (the (cbor_head buf)) = 3),
     cbor_value_is_length_known = (\<lambda>(buf, _). fst (snd (the (cbor_head buf))) \<noteq> None),
     cbor_value_begin_string_iteration = (\<lambda>v. Some v),
     cbor_value_get_text_string_chunk = (\<lambda>(buf, _). case the (cbor_head buf) of
        (_, Some len, n) \<Rightarrow> if n + len \<le> length buf then Some (n, len, (buf, n + len)) else None
      | _ \<Rightarrow> None) \<rparr>"

definition demo_digest :: "bytes \<Rightarrow> bytes" where
  "demo_digest x = take 32 (x @ zeros 32)"

fun digits_58 :: "nat \<Rightarrow> nat \<Rightarrow> nat list" where
  "digits_58 0 n = []"
| "digits_58 (Suc k) n = digits_58 k (n div 58) @ [n mod 58]"

definition base58_alphabet :: bytes where
  "base58_alphabet = ascii ''123456789ABCDEFGHJKLMNPQRSTUVWXYZabcdefghijkmnopqrstuvwxyz''"

definition demo_base58 :: "bytes \<Rightarrow> bytes" where
  "demo_base58 bs = map (\<lambda>d. base58_alphabet ! d) (digits_58 50 (be_nat bs))"

definition demo_sdk :: sdk where
  "demo_sdk = \<lparr>
     sdk_format_u64 = (\<lambda>n v. if length (dec (unat v)) < n then Some (dec (unat v)) else None),
     sdk_format_fpu64_trimmed = (\<lambda>n v d. if length (fpu_text (unat v) d) < n
        then Some (fpu_text (unat v) d) else None),
     sdk_format_hex = (\<lambda>bs n. if 2 * length bs < n then Some (upper_hex bs) else None),
     sdk_base58_encode = (\<lambda>bs n. if length bs = 37 \<and> 50 \<le> n then Some (demo_base58 bs) else None),
     sdk_sha256_init = True,
     sdk_hash_update = (\<lambda>_ _. True),
     sdk_hash_final = (\<lambda>x. Some (demo_digest x)),
     sdk_hash_sha256 = (\<lambda>x. Some (demo_digest x)),
     sdk_derive_bip32 = (\<lambda>p. Some (demo_digest (concat (map (\<lambda>w. to_be 4 (unat w)) p)), zeros 32)),
     sdk_ecfp_init_private_key = (\<lambda>k. Some (demo_digest k)),
     sdk_ecfp_generate_pair = (\<lambda>d. Some (4 # demo_digest d @ zeros 32)),
     sdk_eddsa_sign = (\<lambda>d m. Some (demo_digest d @ demo_digest m)),
     sdk_hkdf_extract = (\<lambda>ikm salt. demo_digest ikm),
     sdk_hkdf_expand = (\<lambda>prk info n. replicate n 1),
     sdk_math_modm = (\<lambda>x m. if length m = 0 then None
        else Some (to_be (length x) (be_nat x mod be_nat m))),
     sdk_cbor = demo_cbor \<rparr>"

lemma length_demo_digest [simp]: "length (demo_digest x) = 32"
  by (simp add: demo_digest_def)

lemma length_fpu_text_u64: "d \<le> 18 \<Longrightarrow> length (fpu_text (unat (v :: u64)) d) < 40"
proof -
  assume d: "d \<le> 18"
  have "length (fpu_text (unat v) d) \<le> 20 + 1 + d"
  proof (rule length_fpu_text_le)
    have "unat v < 10 ^ 20" using unat_bounds(4) [of v] by simp
    also have "\<dots> \<le> (10 :: nat) ^ (20 + d)" by (rule power_increasing) simp_all
    finally show "unat v < 10 ^ (20 + d)" .
  qed simp
  then show ?thesis using d by simp
qed

lemma demo_formats_numbers: "formats_numbers demo_sdk"
  by (auto simp: formats_numbers_def demo_sdk_def length_fpu_text_u64 le_less_trans [OF length_dec_u64])

lemma demo_formats_hex: "formats_hex demo_sdk"
  by (simp add: formats_hex_def demo_sdk_def)

lemma demo_digests: "digests demo_sdk"
  by (auto simp: digests_def demo_sdk_def)

lemma length_digits_58 [simp]: "length (digits_58 k n) = k"
  by (induction k arbitrary: n) simp_all

lemma digits_58_less: "d \<in> set (digits_58 k n) \<Longrightarrow> d < 58"
  by (induction k arbitrary: n) auto

lemma digits_58_inj: "digits_58 k m = digits_58 k n \<Longrightarrow> m < 58 ^ k \<Longrightarrow> n < 58 ^ k \<Longrightarrow> m = n"
proof (induction k arbitrary: m n)
  case (Suc k)
  then have "m div 58 = n div 58" by (simp add: less_mult_imp_div_less)
  moreover have "m mod 58 = n mod 58" using Suc.prems by simp
  ultimately show ?case by (metis div_mult_mod_eq)
qed simp

lemma base58_alphabet_props:
  "length base58_alphabet = 58" "distinct base58_alphabet" "0 \<notin> set base58_alphabet"
  by (simp_all add: base58_alphabet_def ascii_def)

lemma demo_base58_inj:
  assumes "length bs = 36" "length bs' = 36" "demo_base58 (1 # bs) = demo_base58 (1 # bs')"
  shows "bs = bs'"
proof -
  have small: "be_nat (1 # xs) < 58 ^ 50" if "length xs = 36" for xs :: bytes
  proof -
    have "be_nat (1 # xs) = 256 ^ 36 + be_nat xs"
      using that be_nat_append [of "[1]" xs] by (simp add: be_nat_def)
    also have "\<dots> < 2 * 256 ^ 36" using be_nat_bound [of xs] that by simp
    also have "\<dots> < 58 ^ 50" by simp
    finally show ?thesis .
  qed
  have "inj_on (\<lambda>d. base58_alphabet ! d) {..<58}"
    using base58_alphabet_props by (auto simp: inj_on_def nth_eq_iff_index_eq)
  moreover have "set (digits_58 50 n) \<subseteq> {..<58}" for n using digits_58_less by auto
  ultimately have "digits_58 50 (be_nat (1 # bs)) = digits_58 50 (be_nat (1 # bs'))"
    using assms(3) unfolding demo_base58_def
    by (meson inj_on_map_eq_map inj_on_subset le_sup_iff)
  then have "be_nat (1 # bs) = be_nat (1 # bs')"
    using small assms(1,2) digits_58_inj by blast
  then have "1 # bs = 1 # bs'" using assms(1,2) by (intro be_nat_inj) simp_all
  then show ?thesis by simp
qed

lemma demo_base58_no_NUL: "0 \<notin> set (demo_base58 bs)"
proof
  assume "0 \<in> set (demo_base58 bs)"
  then obtain d where "d \<in> set (digits_58 50 (be_nat bs))" "base58_alphabet ! d = 0"
    by (auto simp: demo_base58_def)
  then show False using digits_58_less base58_alphabet_props by (metis nth_mem)
qed

lemma demo_encodes_base58: "encodes_base58 demo_sdk"
  using demo_base58_inj demo_base58_no_NUL
  by (auto simp: encodes_base58_def demo_sdk_def) (simp add: demo_base58_def)

lemma demo_derives_keys: "derives_keys demo_sdk"
  by (auto simp: derives_keys_def demo_sdk_def)

lemma demo_reduces_modulo: "reduces_modulo demo_sdk"
proof -
  have "be_nat x mod be_nat m < 256 ^ length x" for x m
    using le_less_trans [OF mod_less_eq_dividend be_nat_bound] .
  then show ?thesis
    by (auto simp: reduces_modulo_def demo_sdk_def be_nat_to_be)
qed

lemma demo_decodes_cbor: "decodes_cbor demo_sdk"
  by (auto simp: decodes_cbor_def demo_sdk_def demo_cbor_def Let_def split: if_splits option.splits)

lemmas demo_specs [simp] = demo_decodes_cbor demo_formats_numbers demo_formats_hex demo_digests demo_encodes_base58
  demo_derives_keys demo_reduces_modulo

end
