(* ===== verification/NumberText.thy ===== *)
theory NumberText
  imports Sdk
begin

text \<open>
  Numbers, amounts and byte strings as text: src/src/helpers/numberHelpers.c, display_text.c and
  fee_display.c.

  The destination \<open>dst\<close>/\<open>dstLength\<close> of the C functions is one byte list whose length is
  dstLength; a function returns the buffer after its writes together with the value the C
  function returns.  The lemmas show, for every buffer that passes a function's size check, the
  exact text the buffer then holds, and that two amounts (two byte strings) never share a text.
\<close>

unbundle bit_operations_syntax

subsection \<open>numberHelpers.c\<close>

definition u64_to_digits_no_nul :: "sdk \<Rightarrow> bytes \<Rightarrow> u64 \<Rightarrow> (bytes \<times> nat) result" where
  "u64_to_digits_no_nul E dst number =
     (case sdk_format_u64 E 22 number of
        None \<Rightarrow> Err ERROR_BUFFER_OVERFLOW
      | Some tmp \<Rightarrow>
          (if length dst < length tmp then Err ERROR_BUFFER_OVERFLOW
           else rbind (put dst 0 tmp) (\<lambda>dst. Ok (dst, length tmp))))"

definition number_to_text :: "sdk \<Rightarrow> bytes \<Rightarrow> u64 \<Rightarrow> (bytes \<times> nat) result" where
  "number_to_text E dst number = u64_to_digits_no_nul E dst number"

definition number_to_text_with_unit ::
    "sdk \<Rightarrow> bytes \<Rightarrow> u64 \<Rightarrow> bytes \<Rightarrow> (bytes \<times> nat) result" where
  "number_to_text_with_unit E dst number unit =
     rbind (u64_to_digits_no_nul E dst number) (\<lambda>(dst, len).
       if length dst - len < length unit + 2 then Err ERROR_BUFFER_OVERFLOW
       else rbind (put dst len [32]) (\<lambda>dst.
            rbind (put dst (len + 1) unit) (\<lambda>dst.
            rbind (put dst (len + 1 + length unit) [0]) (\<lambda>dst.
            Ok (dst, len + length unit + 2)))))"

definition bin_to_dec :: "sdk \<Rightarrow> bytes \<Rightarrow> u64 \<Rightarrow> (bytes \<times> nat) result" where
  "bin_to_dec E dst number =
     rbind (u64_to_digits_no_nul E dst number) (\<lambda>(dst, len).
       if length dst < len + 1 then Err ERROR_BUFFER_OVERFLOW
       else rbind (put dst len [0]) (\<lambda>dst. Ok (dst, len + 1)))"

definition fraction_to_percentage_display ::
    "sdk \<Rightarrow> bytes \<Rightarrow> u32 \<Rightarrow> (bytes \<times> nat) result" where
  "fraction_to_percentage_display E dst number =
     (if 100000 < number then Err ERROR_INVALID_TRANSACTION
      else case sdk_format_fpu64_trimmed E 40 (ucast number) 3 of
        None \<Rightarrow> Err ERROR_BUFFER_OVERFLOW
      | Some tmp \<Rightarrow>
          let offset = length tmp in
          if length dst < offset + 2 then Err ERROR_BUFFER_OVERFLOW
          else rbind (put dst 0 tmp) (\<lambda>dst.
               rbind (put dst offset [37]) (\<lambda>dst.
               rbind (put dst (offset + 1) [0]) (\<lambda>dst.
               Ok (dst, offset + 2)))))"

definition amount_to_ccd_display :: "sdk \<Rightarrow> bytes \<Rightarrow> u64 \<Rightarrow> (bytes \<times> nat) result" where
  "amount_to_ccd_display E dst microCcdAmount =
     (case sdk_format_fpu64_trimmed E 40 microCcdAmount 6 of
        None \<Rightarrow> Err ERROR_BUFFER_OVERFLOW
      | Some tmp \<Rightarrow>
          let offset = length tmp in
          if length dst < offset + 5 then Err ERROR_BUFFER_OVERFLOW
          else rbind (put dst 0 tmp) (\<lambda>dst.
               rbind (if 14 \<le> offset \<and> offset < 18
                      then put dst offset (10 # ascii ''CCD'' @ [0])
                      else put dst offset (32 # ascii ''CCD'' @ [0])) (\<lambda>dst.
               Ok (dst, offset + 4))))"

text \<open>The exponent is an \<open>int8_t\<close>; the token id comes with its length.\<close>

definition plt_decimals :: "u8 \<Rightarrow> nat" where
  "plt_decimals exponent = (if sint exponent < 0 then unat (- exponent) else 0)"

definition plt_amount_to_display ::
    "sdk \<Rightarrow> bytes \<Rightarrow> u64 \<Rightarrow> u8 \<Rightarrow> bytes \<Rightarrow> bytes result" where
  "plt_amount_to_display E dst significand exponent tokenId =
     (case sdk_format_fpu64_trimmed E 40 significand (plt_decimals exponent) of
        None \<Rightarrow> Err ERROR_BUFFER_OVERFLOW
      | Some tmp \<Rightarrow>
          let numLen = length tmp in
          if length dst < numLen + 1 + length tokenId + 1 then Err ERROR_BUFFER_OVERFLOW
          else rbind (put dst 0 tmp) (\<lambda>dst.
               rbind (put dst numLen [32]) (\<lambda>dst.
               rbind (put dst (numLen + 1) tokenId) (\<lambda>dst.
               put dst (numLen + 1 + length tokenId) [0]))))"

definition hex_nibble :: "u8 \<Rightarrow> u8" where
  "hex_nibble n = ascii ''0123456789abcdef'' ! unat (n AND 0x0F)"

text \<open>
  The loop of \<open>to_paginated_hex\<close>: \<open>i\<close> counts the bytes done, \<open>offset\<close> (a uint8_t) the
  newlines written.
\<close>

fun paginated_hex_loop :: "bytes \<Rightarrow> nat \<Rightarrow> nat \<Rightarrow> nat \<Rightarrow> bytes \<Rightarrow> (bytes \<times> nat) result" where
  "paginated_hex_loop [] i len offset asHex = Ok (asHex, offset)"
| "paginated_hex_loop (b # bs) i len offset asHex =
     rbind (put asHex (2 * i + offset) [hex_nibble (drop_bit 4 b)]) (\<lambda>asHex.
     rbind (put asHex (2 * i + (offset + 1)) [hex_nibble b]) (\<lambda>asHex.
     if (2 * (i + 1)) mod 16 = 0 \<and> i \<noteq> len - 1
     then rbind (put asHex (2 * i + (offset + 2)) [10]) (\<lambda>asHex.
          paginated_hex_loop bs (i + 1) len ((offset + 1) mod 256) asHex)
     else paginated_hex_loop bs (i + 1) len offset asHex))"

definition to_paginated_hex :: "bytes \<Rightarrow> bytes \<Rightarrow> bytes result" where
  "to_paginated_hex byteArray asHex =
     (let len = length byteArray in
      if 0 < len \<and> length asHex < len * 2 + (2 * len - 1) div 16 + 1
      then Err ERROR_BUFFER_OVERFLOW
      else rbind (paginated_hex_loop byteArray 0 len 0 asHex) (\<lambda>(asHex, offset).
           put asHex (2 * len + offset) [0]))"

subsection \<open>display_text.c\<close>

primrec is_displayable_text :: "bytes \<Rightarrow> bool" where
  "is_displayable_text [] = True"
| "is_displayable_text (b # text) =
     (if b < 0x20 \<or> b = 0x7F then False else is_displayable_text text)"

subsection \<open>fee_display.c\<close>

text \<open>The eight bytes of \<open>fee_be\<close>; \<open>FEE_DISPLAY_VALUE_OMIT\<close> is the all-ones word.\<close>

definition fee_display_apply_u64 :: "sdk \<Rightarrow> bytes \<Rightarrow> bytes \<Rightarrow> (bytes \<times> bool) result" where
  "fee_display_apply_u64 E dst_str fee_be =
     rbind (U8BE fee_be 0) (\<lambda>v.
       let dst_str = zeros (length dst_str) in
       if v = 0xFFFFFFFFFFFFFFFF then Ok (dst_str, False)
       else rbind (amount_to_ccd_display E dst_str v) (\<lambda>(dst_str, _). Ok (dst_str, True)))"

subsection \<open>The texts produced\<close>

definition ccd_text :: "nat \<Rightarrow> bytes" where
  "ccd_text v =
     (let t = fpu_text v 6 in
      t @ (if 14 \<le> length t \<and> length t < 18 then 10 else 32) # ascii ''CCD'')"

definition lower_hex :: "bytes \<Rightarrow> bytes" where
  "lower_hex bs = concat (map (\<lambda>b. [hex_nibble (drop_bit 4 b), hex_nibble b]) bs)"

text \<open>Pages of eight bytes (sixteen characters), a newline between two pages.\<close>

function hex_pages :: "bytes \<Rightarrow> bytes" where
  "hex_pages bs = (if length bs \<le> 8 then lower_hex bs
                   else lower_hex (take 8 bs) @ 10 # hex_pages (drop 8 bs))"
  by auto
termination by (relation "measure length") auto

declare hex_pages.simps [simp del]

lemma digits_Ok:
  assumes "formats_numbers E" "20 \<le> length dst"
  shows "u64_to_digits_no_nul E dst v =
    Ok (dec (unat v) @ drop (length (dec (unat v))) dst, length (dec (unat v)))"
  using assms length_dec_u64 [of v]
  by (simp add: u64_to_digits_no_nul_def formats_numbers_def put_def)

lemma number_to_text_wp:
  assumes "formats_numbers E"
  shows "rwp (number_to_text E dst v)
    (\<lambda>(dst', n). n = length (dec (unat v)) \<and> n \<le> length dst \<and>
       dst' = dec (unat v) @ drop (length (dec (unat v))) dst)
    (\<lambda>e. e = ERROR_BUFFER_OVERFLOW \<and> length dst < length (dec (unat v)))"
  using assms by (simp add: number_to_text_def u64_to_digits_no_nul_def formats_numbers_def)

lemma bin_to_dec_wp:
  assumes "formats_numbers E"
  shows "rwp (bin_to_dec E dst v)
    (\<lambda>(dst', n). n = length (dec (unat v)) + 1 \<and>
       dst' = dec (unat v) @ 0 # drop (length (dec (unat v)) + 1) dst \<and> length dst' = length dst)
    (\<lambda>e. e = ERROR_BUFFER_OVERFLOW \<and> length dst \<le> length (dec (unat v)))"
  using assms by (auto simp: bin_to_dec_def u64_to_digits_no_nul_def formats_numbers_def)

lemma bin_to_dec_Ok:
  assumes "formats_numbers E" "21 \<le> length dst"
  shows "bin_to_dec E dst v =
    Ok (dec (unat v) @ 0 # drop (length (dec (unat v)) + 1) dst, length (dec (unat v)) + 1)"
  using assms length_dec_u64 [of v]
  by (simp add: bin_to_dec_def digits_Ok put_def)

lemma length_fpu_text_6: "length (fpu_text (unat (v :: u64)) 6) \<le> 21"
  using length_fpu_text_le [of "unat v" 14 6] unat_bounds(4) [of v] by simp

lemma length_ccd_text: "length (ccd_text (unat (v :: u64))) \<le> 25"
  using length_fpu_text_6 [of v] by (simp add: ccd_text_def Let_def)

lemma zero_notin_ccd_text [simp]: "0 \<notin> set (ccd_text v)"
  by (simp add: ccd_text_def Let_def ascii_def)

lemma Suc5: "Suc (Suc (Suc (Suc (Suc n)))) = 5 + n"
  by simp

lemma amount_to_ccd_display_Ok:
  assumes "formats_numbers E" "26 \<le> length dst"
  shows "amount_to_ccd_display E dst v =
    Ok (ccd_text (unat v) @ 0 # drop (length (ccd_text (unat v)) + 1) dst,
        length (ccd_text (unat v)))"
  using assms length_fpu_text_6 [of v]
  by (simp add: amount_to_ccd_display_def formats_numbers_def ccd_text_def Let_def put_def Suc5)

lemma amount_to_ccd_display_wp [wp_rules]:
  assumes "formats_numbers E" "26 \<le> length dst"
  shows "rwp (amount_to_ccd_display E dst v) Q X \<longleftrightarrow>
    Q (ccd_text (unat v) @ 0 # drop (length (ccd_text (unat v)) + 1) dst,
        length (ccd_text (unat v)))"
  using assms by (simp add: amount_to_ccd_display_Ok)

lemma ccd_text_inj: "ccd_text v = ccd_text w \<longleftrightarrow> v = w"
proof
  assume "ccd_text v = ccd_text w"
  then have "fpu_text v 6 = fpu_text w 6"
    unfolding ccd_text_def Let_def
    by (metis append_eq_append_conv length_Cons)
  then show "v = w" by (simp add: fpu_text_inj)
qed simp

lemma length_fpu_text_3:
  assumes "x \<le> 100000"
  shows "length (fpu_text (unat (x :: u32)) 3) \<le> 6"
proof (cases "x = 100000")
  case True
  have "length (dec 100) \<le> 3" by (intro length_dec_le) simp_all
  then show ?thesis using True by (simp add: fpu_text_def)
next
  case False
  then have "unat x < 10 ^ (2 + 3)" using assms by (simp add: word_le_nat_alt word_unat_eq_iff)
  then show ?thesis using length_fpu_text_le [of "unat x" 2 3] by simp
qed

lemma fraction_to_percentage_display_wp:
  assumes "formats_numbers E" "8 \<le> length dst"
  shows "rwp (fraction_to_percentage_display E dst x)
    (\<lambda>(dst', n). x \<le> 100000 \<and> length dst' = length dst \<and>
       cstr dst' = fpu_text (unat x) 3 @ [37])
    (\<lambda>e. e = ERROR_INVALID_TRANSACTION \<and> 100000 < x)"
proof (cases "x \<le> 100000")
  case True
  let ?t = "fpu_text (unat x) 3"
  have f: "sdk_format_fpu64_trimmed E 40 (ucast x) 3 = Some ?t"
    using assms by (simp add: formats_numbers_def)
  have c: "cstr (?t @ 37 # 0 # r) = ?t @ [37]" for r
    using cstr_NUL [of "?t @ [37]" r] by simp
  show ?thesis
    using assms True length_fpu_text_3 [OF True]
    by (auto simp: fraction_to_percentage_display_def f Let_def c not_less)
qed (simp add: fraction_to_percentage_display_def not_le)

lemma plt_amount_to_display_wp:
  assumes "formats_numbers E" "plt_decimals ex \<le> 18" "length tok \<le> 128" "170 \<le> length dst"
  shows "plt_amount_to_display E dst v ex tok =
    Ok (fpu_text (unat v) (plt_decimals ex) @ 32 # tok @
        0 # drop (length (fpu_text (unat v) (plt_decimals ex)) + length tok + 2) dst)"
  using assms length_fpu_text_u64 [OF assms(2), of v]
  by (auto simp: plt_amount_to_display_def formats_numbers_def put_def Let_def ac_simps)

lemma plt_amount_to_display_safe:
  assumes "formats_numbers E"
  shows "rwp (plt_amount_to_display E dst v ex tok) (\<lambda>dst'. length dst' = length dst)
    (\<lambda>e. e = ERROR_BUFFER_OVERFLOW)"
  by (auto simp: plt_amount_to_display_def Let_def split: option.split)

subsection \<open>Paginated hexadecimal\<close>

fun hex_from :: "nat \<Rightarrow> bytes \<Rightarrow> bytes" where
  "hex_from i [] = []"
| "hex_from i (b # bs) = hex_nibble (drop_bit 4 b) # hex_nibble b #
     (if (i + 1) mod 8 = 0 \<and> bs \<noteq> [] then 10 # hex_from (i + 1) bs else hex_from (i + 1) bs)"

lemma hex_from_page:
  "i mod 8 + length xs = 8 \<Longrightarrow> xs \<noteq> [] \<Longrightarrow> ys \<noteq> [] \<Longrightarrow>
   hex_from i (xs @ ys) = lower_hex xs @ 10 # hex_from (i + length xs) ys"
proof (induction xs arbitrary: i)
  case (Cons x xs)
  show ?case
  proof (cases "xs = []")
    case True
    then have "(i + 1) mod 8 = 0" using Cons.prems(1) by simp presburger
    then show ?thesis using True Cons.prems by (simp add: lower_hex_def)
  next
    case False
    then have "(i + 1) mod 8 = i mod 8 + 1"
      using Cons.prems(1) by (cases xs) (simp_all add: mod_Suc)
    then show ?thesis
      using Cons.IH [of "i + 1"] Cons.prems False by (simp add: lower_hex_def)
  qed
qed simp

lemma hex_from_last:
  "i mod 8 + length xs \<le> 8 \<Longrightarrow> hex_from i xs = lower_hex xs"
proof (induction xs arbitrary: i)
  case (Cons x xs)
  show ?case
  proof (cases "xs = []")
    case False
    then have "(i + 1) mod 8 = i mod 8 + 1"
      using Cons.prems by (cases xs) (simp_all add: mod_Suc)
    then show ?thesis using Cons.IH [of "i + 1"] Cons.prems by (simp add: lower_hex_def)
  qed (simp add: lower_hex_def)
qed (simp add: lower_hex_def)

lemma hex_from_pages: "i mod 8 = 0 \<Longrightarrow> hex_from i bs = hex_pages bs"
proof (induction bs arbitrary: i rule: hex_pages.induct)
  case (1 bs)
  show ?case
  proof (cases "length bs \<le> 8")
    case True
    then show ?thesis using 1 by (subst hex_pages.simps) (simp add: hex_from_last)
  next
    case False
    have "hex_from i (take 8 bs @ drop 8 bs) =
      lower_hex (take 8 bs) @ 10 # hex_from (i + length (take 8 bs)) (drop 8 bs)"
      using False 1 by (intro hex_from_page) auto
    moreover have "hex_from (i + 8) (drop 8 bs) = hex_pages (drop 8 bs)"
      using False 1 by simp
    ultimately show ?thesis using False by (subst hex_pages.simps) simp
  qed
qed

lemma length_hex_from: "bs \<noteq> [] \<Longrightarrow>
  length (hex_from i bs) = 2 * length bs + (i + length bs - 1) div 8 - i div 8"
proof (induction bs arbitrary: i)
  case (Cons b bs)
  show ?case
  proof (cases "bs = []")
    case False
    then have IH: "length (hex_from (i + 1) bs) = 2 * length bs + (i + length bs) div 8 - (i + 1) div 8"
      using Cons.IH [of "i + 1"] by simp
    have "(i + 1) div 8 = (if (i + 1) mod 8 = 0 then i div 8 + 1 else i div 8)"
      using div_Suc [of i 8] by simp
    moreover have "(i + 1) div 8 \<le> (i + length bs) div 8"
      using False by (intro div_le_mono) (simp add: Suc_le_eq)
    ultimately show ?thesis using IH False by (auto split: if_splits) linarith+
  qed simp
qed simp

lemma mod_16: "(2 * (i + 1)) mod 16 = 0 \<longleftrightarrow> (i + 1) mod 8 = (0 :: nat)"
  by presburger

lemma paginated_hex_loop_Ok:
  assumes "bs \<noteq> []" "len = i + length bs" "offset = i div 8" "len \<le> 2048"
    "length pre = 2 * i + offset" "length (hex_from i bs) \<le> length rest"
  shows "paginated_hex_loop bs i len offset (pre @ rest) =
    Ok (pre @ hex_from i bs @ drop (length (hex_from i bs)) rest,
        length (pre @ hex_from i bs) - 2 * len)"
  using assms
proof (induction bs arbitrary: i offset pre rest)
  case (Cons b bs)
  let ?h = "[hex_nibble (drop_bit 4 b), hex_nibble b]"
  have rest: "2 \<le> length rest" using Cons.prems(6) by auto
  then obtain r1 r2 rs where rs: "rest = r1 # r2 # rs"
    by (cases rest; cases "tl rest") auto
  have p1: "put (pre @ r1 # r2 # rs) (2 * i + offset) [hex_nibble (drop_bit 4 b)] =
      Ok (pre @ hex_nibble (drop_bit 4 b) # r2 # rs)"
    using Cons.prems(5) by (simp add: put_def)
  have p2: "put (pre @ hex_nibble (drop_bit 4 b) # r2 # rs) (2 * i + (offset + 1)) [hex_nibble b] =
      Ok (pre @ ?h @ rs)"
    using Cons.prems(5) by (simp add: put_def Suc_diff_le)
  show ?case
  proof (cases "(i + 1) mod 8 = 0 \<and> bs \<noteq> []")
    case True
    then have c: "(2 * (i + 1)) mod 16 = 0 \<and> i \<noteq> len - 1"
      using Cons.prems(2) mod_16 [of i] by (cases bs) auto
    have r3: "rs \<noteq> []" using Cons.prems(6) rs True by auto
    then obtain r3 rs' where rs': "rs = r3 # rs'" by (cases rs) auto
    have p3: "put (pre @ hex_nibble (drop_bit 4 b) # hex_nibble b # rs) (2 * i + (offset + 2)) [10] =
        Ok (pre @ ?h @ 10 # rs')"
      using Cons.prems(5) rs' by (simp add: put_def)
    have off: "(offset + 1) mod 256 = (i + 1) div 8"
      using True Cons.prems(2,3,4) div_le_mono [of "i + 1" 2047 8]
      by (cases bs) (auto simp: div_Suc)
    have "paginated_hex_loop bs (i + 1) len ((i + 1) div 8) ((pre @ ?h @ [10]) @ rs') =
      Ok ((pre @ ?h @ [10]) @ hex_from (i + 1) bs @ drop (length (hex_from (i + 1) bs)) rs',
        length ((pre @ ?h @ [10]) @ hex_from (i + 1) bs) - 2 * len)"
      using Cons.prems True rs rs' off by (intro Cons.IH) (auto simp: div_Suc)
    moreover have "paginated_hex_loop (b # bs) i len offset (pre @ rest) =
      paginated_hex_loop bs (i + 1) len ((i + 1) div 8) ((pre @ ?h @ [10]) @ rs')"
      by (simp only: paginated_hex_loop.simps if_P [OF c] rs p1 p2 p3 rbind.simps off
          append_assoc append_Cons append_Nil)
    ultimately show ?thesis using True rs rs' by simp
  next
    case False
    then have c: "\<not> ((2 * (i + 1)) mod 16 = 0 \<and> i \<noteq> len - 1)"
      using Cons.prems(2) mod_16 [of i] by auto
    show ?thesis
    proof (cases "bs = []")
      case True
      then show ?thesis using rs c p1 p2 Cons.prems by simp
    next
      case ne: False
      then have off: "offset = (i + 1) div 8"
        using False Cons.prems(3) by (auto simp: div_Suc)
      have "paginated_hex_loop bs (i + 1) len offset ((pre @ ?h) @ rs) =
        Ok ((pre @ ?h) @ hex_from (i + 1) bs @ drop (length (hex_from (i + 1) bs)) rs,
          length ((pre @ ?h) @ hex_from (i + 1) bs) - 2 * len)"
        using Cons.prems False ne rs off by (intro Cons.IH) auto
      moreover have "paginated_hex_loop (b # bs) i len offset (pre @ rest) =
        paginated_hex_loop bs (i + 1) len offset ((pre @ ?h) @ rs)"
        by (simp only: paginated_hex_loop.simps if_not_P [OF c] rs p1 p2 rbind.simps
            append_assoc append_Cons append_Nil)
      moreover have "hex_from i (b # bs) = ?h @ hex_from (i + 1) bs"
        using False by (simp only: hex_from.simps if_False append_Cons append_Nil)
      ultimately show ?thesis using rs by simp
    qed
  qed
qed simp

text \<open>
  For an input of at most 2048 bytes the size check is exact: a buffer that passes it receives the
  paginated text and its NUL, and no write leaves it.
\<close>

lemma pages_div: "(2 * n - 1) div 16 = (n - 1 :: nat) div 8"
proof (cases n)
  case (Suc m)
  have "(2 * m + 1) div (2 * 8) = (2 * m + 1) div 2 div 8" by (rule div_mult2_eq)
  then show ?thesis using Suc by simp
qed simp

lemma to_paginated_hex_Ok:
  assumes "bs \<noteq> []" "length bs \<le> 2048"
    "length bs * 2 + (2 * length bs - 1) div 16 + 1 \<le> length dst"
  shows "to_paginated_hex bs dst =
    Ok (hex_pages bs @ 0 # drop (length (hex_pages bs) + 1) dst)"
proof -
  let ?h = "hex_from 0 bs"
  have len: "length ?h + 1 \<le> length dst"
    using assms length_hex_from [OF assms(1), of 0] by (simp only: pages_div) simp
  have "2 * length bs \<le> length ?h"
    using length_hex_from [OF assms(1), of 0] by simp
  moreover have "paginated_hex_loop bs 0 (length bs) 0 ([] @ dst) =
      Ok ([] @ ?h @ drop (length ?h) dst, length ([] @ ?h) - 2 * length bs)"
    using assms len by (intro paginated_hex_loop_Ok) auto
  moreover have "\<not> (0 < length bs \<and>
      length dst < length bs * 2 + (2 * length bs - 1) div 16 + 1)"
    using assms(3) by simp
  ultimately show ?thesis
    using len by (simp only: to_paginated_hex_def Let_def if_False append_Nil rbind.simps
        prod.case put_def) (simp add: hex_from_pages)
qed

lemma hex_nibble_values: "hex_nibble n \<in> set (ascii ''0123456789abcdef'')"
proof -
  have "unat (n AND 0x0F) < 16"
    using word_and_le1 [of n 15] by (simp add: word_le_nat_alt)
  then show ?thesis unfolding hex_nibble_def by (intro nth_mem) (simp add: ascii_def)
qed

lemma zero_notin_lower_hex: "b \<in> set (lower_hex bs) \<Longrightarrow> b \<in> set (ascii ''0123456789abcdef'')"
  using hex_nibble_values by (induction bs) (auto simp: lower_hex_def)

lemma hex_pages_chars:
  "b \<in> set (hex_pages bs) \<Longrightarrow> b = 10 \<or> b \<in> set (ascii ''0123456789abcdef'')"
proof (induction bs rule: hex_pages.induct)
  case (1 bs)
  then show ?case
    by (subst (asm) (2) hex_pages.simps) (auto split: if_splits dest: zero_notin_lower_hex)
qed

lemma hex_pages_no_NUL [simp]: "0 \<notin> set (hex_pages bs)"
proof
  assume "0 \<in> set (hex_pages bs)"
  then have "(0 :: u8) \<in> set (ascii ''0123456789abcdef'')" using hex_pages_chars by fastforce
  then show False by (simp add: ascii_def)
qed

lemma hex_pages_unpaginate: "filter (\<lambda>b. b \<noteq> 10) (hex_pages bs) = lower_hex bs"
proof (induction bs rule: hex_pages.induct)
  case (1 bs)
  have f: "filter (\<lambda>b. b \<noteq> 10) (lower_hex xs) = lower_hex xs" for xs
  proof (rule filter_True, rule ballI)
    fix b assume "b \<in> set (lower_hex xs)"
    then have "b \<in> set (ascii ''0123456789abcdef'')" by (rule zero_notin_lower_hex)
    then show "b \<noteq> 10" by (auto simp: ascii_def)
  qed
  have app: "lower_hex (take 8 bs) @ lower_hex (drop 8 bs) = lower_hex bs"
    by (simp add: lower_hex_def flip: map_append concat_append)
  show ?case
    using 1 app by (subst hex_pages.simps) (simp add: f)
qed

lemma hex_nibble_inj:
  assumes "hex_nibble a = hex_nibble b"
  shows "a AND 15 = b AND 15"
proof -
  have bound: "unat (n AND 15) < 16" for n :: u8
    using word_and_le1 [of n 15] by (simp add: word_le_nat_alt)
  have "distinct (ascii ''0123456789abcdef'')" by (simp add: ascii_def)
  then have "unat (a AND 15) = unat (b AND 15)"
    using assms bound [of a] bound [of b]
    by (simp add: hex_nibble_def nth_eq_iff_index_eq)
  then show ?thesis by (simp add: word_unat_eq_iff)
qed

lemma byte_from_nibbles:
  assumes "hex_nibble (drop_bit 4 a) = hex_nibble (drop_bit 4 b)" "hex_nibble a = hex_nibble b"
  shows "a = (b :: u8)"
proof -
  have m: "(15 :: u8) = mask 4" by (simp add: mask_eq_exp_minus_1)
  have hi: "take_bit 4 (drop_bit 4 c) = drop_bit 4 c" for c :: u8
    by (rule bit_word_eqI) (auto simp: bit_simps dest: bit_imp_le_length)
  have "drop_bit 4 a = drop_bit 4 b"
    using hex_nibble_inj [OF assms(1)] hi [of a] hi [of b] by (simp add: m take_bit_eq_mask)
  moreover have "take_bit 4 a = take_bit 4 b"
    using hex_nibble_inj [OF assms(2)] by (simp add: m take_bit_eq_mask)
  ultimately show ?thesis by (metis bits_ident)
qed

lemma lower_hex_inj: "lower_hex xs = lower_hex ys \<longleftrightarrow> xs = ys"
proof
  assume "lower_hex xs = lower_hex ys"
  then show "xs = ys"
  proof (induction xs arbitrary: ys)
    case Nil
    then show ?case by (cases ys) (simp_all add: lower_hex_def)
  next
    case (Cons x xs)
    then obtain y ys' where "ys = y # ys'" by (cases ys) (auto simp: lower_hex_def)
    with Cons show ?case using byte_from_nibbles [of x y] by (auto simp: lower_hex_def)
  qed
qed simp

lemma hex_pages_inj: "hex_pages xs = hex_pages ys \<longleftrightarrow> xs = ys"
  by (metis hex_pages_unpaginate lower_hex_inj)

subsection \<open>Displayable text and fees\<close>

lemma is_displayable_text_iff:
  "is_displayable_text t \<longleftrightarrow> (\<forall>b \<in> set t. 0x20 \<le> b \<and> b \<noteq> 0x7F)"
  by (induction t) auto

lemma displayable_no_NUL: "is_displayable_text t \<Longrightarrow> 0 \<notin> set t"
  by (auto simp: is_displayable_text_iff)

lemma fee_display_wp:
  assumes "formats_numbers E" "26 \<le> length dst" "length fee = 8"
  shows "rwp (fee_display_apply_u64 E dst fee)
    (\<lambda>(dst', shown). length dst' = length dst \<and>
       shown = (be_nat fee \<noteq> 2 ^ 64 - 1) \<and>
       cstr dst' = (if shown then ccd_text (be_nat fee) else []))
    (\<lambda>_. False)"
proof -
  have b: "be_nat fee < 2 ^ 64" using be_nat_bound [of fee] assms by simp
  then have u: "unat (of_nat (be_nat fee) :: u64) = be_nat fee"
    by (simp add: unsigned_of_nat take_bit_nat_eq_self)
  have "(of_nat (be_nat fee) :: u64) = 0xFFFFFFFFFFFFFFFF \<longleftrightarrow> be_nat fee = 2 ^ 64 - 1"
    by (simp add: word_unat_eq_iff u)
  then show ?thesis
    using assms length_ccd_text [of "of_nat (be_nat fee)"]
    by (auto simp: fee_display_apply_u64_def Let_def amount_to_ccd_display_wp u
        cstr_zeros [of "[]", simplified])
qed

subsection \<open>Properties\<close>

text \<open>C32: An amount written into a display buffer of any review (30 bytes) always fits, is the
  exact decimal amount in CCD, and two amounts have the same text only when they are equal.\<close>

theorem amount_display_exact:
  assumes "formats_numbers E" "length dst = 30" "length dst' = 30"
  shows "rwp (amount_to_ccd_display E dst v) (\<lambda>(d, n).
    rwp (amount_to_ccd_display E dst' w) (\<lambda>(d', _). length d = 30 \<and> n \<le> 25 \<and>
      cstr d = ccd_text (unat v) \<and> (cstr d = cstr d' \<longleftrightarrow> v = w)) (\<lambda>_. False)) (\<lambda>_. False)"
proof -
  have "ccd_text (unat v) = ccd_text (unat w) \<longleftrightarrow> v = w"
    by (simp add: ccd_text_inj word_unat_eq_iff)
  then show ?thesis
    using assms length_ccd_text [of v] by (simp add: amount_to_ccd_display_wp)
qed

lemma amount_display_exact_witness:
  "rwp (amount_to_ccd_display demo_sdk (zeros 30) 1500000) (\<lambda>(d, n).
    rwp (amount_to_ccd_display demo_sdk (zeros 30) 1500001) (\<lambda>(d', _). length d = 30 \<and> n \<le> 25 \<and>
      cstr d = ccd_text (unat (1500000 :: u64)) \<and>
      (cstr d = cstr d' \<longleftrightarrow> (1500000 :: u64) = 1500001)) (\<lambda>_. False)) (\<lambda>_. False)"
  by (rule amount_display_exact) simp_all

text \<open>C35: A byte string shown in pages of sixteen hex digits fits the buffer the code demands and
  reads back: the text without its newlines is the lower-case hex of exactly these bytes.\<close>

theorem paginated_hex_exact:
  assumes "bs \<noteq> []" "length bs \<le> 2048"
    "length bs * 2 + (2 * length bs - 1) div 16 + 1 \<le> length dst"
  shows "rwp (to_paginated_hex bs dst) (\<lambda>d. length d = length dst \<and>
      filter (\<lambda>b. b \<noteq> 10) (cstr d) = lower_hex bs \<and>
      (\<forall>bs'. filter (\<lambda>b. b \<noteq> 10) (cstr d) = lower_hex bs' \<longleftrightarrow> bs' = bs)) (\<lambda>_. False)"
proof -
  have "length (hex_pages bs) + 1 \<le> length dst"
    using assms length_hex_from [OF assms(1), of 0] hex_from_pages [of 0 bs]
    by (simp only: pages_div) simp
  then show ?thesis
    by (auto simp: to_paginated_hex_Ok [OF assms] hex_pages_unpaginate lower_hex_inj)
qed

lemma paginated_hex_exact_witness:
  "rwp (to_paginated_hex [1, 171] (zeros 68)) (\<lambda>d. length d = length (zeros 68) \<and>
      filter (\<lambda>b. b \<noteq> 10) (cstr d) = lower_hex [1, 171] \<and>
      (\<forall>bs'. filter (\<lambda>b. b \<noteq> 10) (cstr d) = lower_hex bs' \<longleftrightarrow> bs' = [1, 171])) (\<lambda>_. False)"
  by (rule paginated_hex_exact) simp_all

end
