(* ===== verification/DerivationPath.thy ===== *)
theory DerivationPath
  imports NumberText
begin

text \<open>
  Derivation paths: src/src/helpers/derivation_path.c and derivation_path.h.

  The lemmas show what each parser accepts, that a parsed signing path is hardened in every node
  and never has the shape whose raw key the new-path export releases, and that the text of a path
  determines its nodes.
\<close>

unbundle bit_operations_syntax

subsection \<open>Data\<close>

datatype derivation_path_variant =
    DERIVATION_PATH_VARIANT_LEGACY
  | DERIVATION_PATH_VARIANT_NEW
  | DERIVATION_PATH_VARIANT_FULL
  | DERIVATION_PATH_VARIANT_INVALID

datatype derivation_path_network_t =
    DERIVATION_PATH_NETWORK_MAINNET
  | DERIVATION_PATH_NETWORK_TESTNET
  | DERIVATION_PATH_NETWORK_LEGACY
  | DERIVATION_PATH_NETWORK_UNKNOWN

text \<open>\<open>nodes\<close> has DERIVATION_PATH_NODES_MAX = 8 entries, of which the first \<open>len\<close> are used.\<close>

record derivation_path =
  nodes :: "u32 list"
  path_len :: nat
  variant :: derivation_path_variant

abbreviation HARDENED_BIT :: u32 where "HARDENED_BIT \<equiv> 0x80000000"
abbreviation LEGACY_PURPOSE :: u32 where "LEGACY_PURPOSE \<equiv> 1105"
abbreviation NEW_PURPOSE :: u32 where "NEW_PURPOSE \<equiv> 44"
abbreviation NEW_MAINNET_COIN_TYPE :: u32 where "NEW_MAINNET_COIN_TYPE \<equiv> 919"
abbreviation NEW_TESTNET_COIN_TYPE :: u32 where "NEW_TESTNET_COIN_TYPE \<equiv> 1"
abbreviation LEGACY_ID_CRED_SEC :: u32 where "LEGACY_ID_CRED_SEC \<equiv> 0"
abbreviation LEGACY_PRF_KEY :: u32 where "LEGACY_PRF_KEY \<equiv> 1"
abbreviation NEW_ID_CRED_SEC :: u32 where "NEW_ID_CRED_SEC \<equiv> 2"
abbreviation NEW_PRF_KEY :: u32 where "NEW_PRF_KEY \<equiv> 3"
abbreviation NEW_SIGNATURE_BLINDING_RANDOMNESS :: u32 where
  "NEW_SIGNATURE_BLINDING_RANDOMNESS \<equiv> 4"
abbreviation NEW_COMMITMENT_RANDOMNESS :: u32 where "NEW_COMMITMENT_RANDOMNESS \<equiv> 5"

definition used_nodes :: "derivation_path \<Rightarrow> u32 list" where
  "used_nodes dp = take (path_len dp) (nodes dp)"

definition wf_path :: "derivation_path \<Rightarrow> bool" where
  "wf_path dp \<longleftrightarrow> length (nodes dp) = 8 \<and> path_len dp \<le> 8"

definition hardened :: "u32 \<Rightarrow> u32" where
  "hardened x = x OR HARDENED_BIT"

definition unhardened :: "u32 \<Rightarrow> u32" where
  "unhardened x = x AND NOT HARDENED_BIT"

subsection \<open>derivation_path.h\<close>

definition init_derivation_path :: derivation_path where
  "init_derivation_path = \<lparr> nodes = replicate 8 0, path_len = 0,
     variant = DERIVATION_PATH_VARIANT_INVALID \<rparr>"

definition trim_last_node :: "derivation_path \<Rightarrow> derivation_path" where
  "trim_last_node dp = dp\<lparr> path_len := sub8 (path_len dp) 1 \<rparr>"

definition harden_derivation_path :: "derivation_path \<Rightarrow> derivation_path" where
  "harden_derivation_path dp =
     dp\<lparr> nodes := map hardened (used_nodes dp) @ drop (path_len dp) (nodes dp) \<rparr>"

definition unharden_derivation_path :: "derivation_path \<Rightarrow> derivation_path" where
  "unharden_derivation_path dp =
     dp\<lparr> nodes := map unhardened (used_nodes dp) @ drop (path_len dp) (nodes dp) \<rparr>"

subsection \<open>Parsers\<close>

text \<open>apdu/helpers.h\<close>

definition read_u8 :: "bytes \<Rightarrow> nat \<Rightarrow> (nat \<times> u8) result" where
  "read_u8 data offset = rbind (byte_at data offset) (\<lambda>b. Ok (offset + 1, b))"

definition read_u32_be :: "bytes \<Rightarrow> nat \<Rightarrow> (nat \<times> u32) result" where
  "read_u32_be data offset = rbind (U4BE data offset) (\<lambda>w. Ok (offset + 4, w))"

definition check_lc :: "nat \<Rightarrow> nat \<Rightarrow> unit result" where
  "check_lc lc expected = (if lc \<noteq> expected then Err SWO_WRONG_DATA_LENGTH else Ok ())"

text \<open>The loop over the nodes: k nodes remain, i is the index of the next one.\<close>

fun read_nodes :: "bytes \<Rightarrow> nat \<Rightarrow> nat \<Rightarrow> nat \<Rightarrow> u32 list \<Rightarrow> (nat \<times> u32 list) result" where
  "read_nodes cdata offset i 0 ns = Ok (offset, ns)"
| "read_nodes cdata offset i (Suc k) ns =
     rbind (read_u32_be cdata offset) (\<lambda>(offset, w).
       if i < length ns then read_nodes cdata offset (i + 1) k (ns[i := w]) else Oob)"

text \<open>\<open>max_len\<close> is the number of bytes at \<open>cdata\<close>.\<close>

definition parse_derivation_path_from_buffer ::
    "bytes \<Rightarrow> derivation_path \<Rightarrow> (nat \<times> derivation_path) result" where
  "parse_derivation_path_from_buffer cdata out =
     (let max_len = length cdata in
      if max_len < 1 then Err ERROR_INVALID_PATH
      else rbind (byte_at cdata 0) (\<lambda>depth.
        if 8 < depth then Err ERROR_INVALID_PATH
        else if max_len < 1 + unat depth * 4 then Err ERROR_INVALID_PATH
        else rbind (read_u8 cdata 0) (\<lambda>(offset, len).
             rbind (read_nodes cdata offset 0 (unat len) (nodes out)) (\<lambda>(offset, ns).
             Ok (offset, \<lparr> nodes = ns, path_len = unat len,
                           variant = DERIVATION_PATH_VARIANT_FULL \<rparr>)))))"

definition parse_derivation_path_full :: "bytes \<Rightarrow> derivation_path \<Rightarrow> derivation_path result" where
  "parse_derivation_path_full cdata out =
     rbind (parse_derivation_path_from_buffer cdata out) (\<lambda>(consumed, dp).
     rbind (check_lc (length cdata) (consumed mod 256)) (\<lambda>_. Ok dp))"

definition parse_derivation_path_new ::
    "bytes \<Rightarrow> bool \<Rightarrow> derivation_path \<Rightarrow> (derivation_path \<times> u32) result" where
  "parse_derivation_path_new cdata mainnet out =
     (if length cdata < 12 then Err SWO_INCORRECT_DATA
      else rbind (read_u32_be cdata 0) (\<lambda>(offset, identity_provider).
        if identity_provider AND HARDENED_BIT \<noteq> 0 then Err ERROR_INVALID_PATH
        else rbind (read_u32_be cdata offset) (\<lambda>(offset, identity).
          if identity AND HARDENED_BIT \<noteq> 0 then Err ERROR_INVALID_PATH
          else rbind (read_u32_be cdata offset) (\<lambda>(offset, cred_counter).
            rbind (check_lc (length cdata) offset) (\<lambda>_.
            Ok (\<lparr> nodes = [NEW_PURPOSE,
                   if mainnet then NEW_MAINNET_COIN_TYPE else NEW_TESTNET_COIN_TYPE,
                   identity_provider, identity, NEW_PRF_KEY] @ drop 5 (nodes out),
                  path_len = 5, variant = DERIVATION_PATH_VARIANT_NEW \<rparr>, cred_counter))))))"

definition parse_derivation_path_legacy ::
    "bytes \<Rightarrow> derivation_path \<Rightarrow> (derivation_path \<times> u32) result" where
  "parse_derivation_path_legacy cdata out =
     (if length cdata < 8 then Err SWO_INCORRECT_DATA
      else rbind (read_u32_be cdata 0) (\<lambda>(offset, identity).
        if identity AND HARDENED_BIT \<noteq> 0 then Err ERROR_INVALID_PATH
        else rbind (read_u32_be cdata offset) (\<lambda>(offset, cred_counter).
          rbind (check_lc (length cdata) offset) (\<lambda>_.
          Ok (\<lparr> nodes = [LEGACY_PURPOSE, 0, 0, 0, identity, LEGACY_PRF_KEY] @ drop 6 (nodes out),
                path_len = 6, variant = DERIVATION_PATH_VARIANT_LEGACY \<rparr>, cred_counter)))))"

definition detect_derivation_path_variant :: "derivation_path \<Rightarrow> derivation_path" where
  "detect_derivation_path_variant dp =
     (if path_len dp = 0 then dp\<lparr> variant := DERIVATION_PATH_VARIANT_INVALID \<rparr>
      else let purpose = unhardened (nodes dp ! 0) in
        if purpose = LEGACY_PURPOSE then dp\<lparr> variant := DERIVATION_PATH_VARIANT_LEGACY \<rparr>
        else if purpose = NEW_PURPOSE then dp\<lparr> variant := DERIVATION_PATH_VARIANT_NEW \<rparr>
        else dp\<lparr> variant := DERIVATION_PATH_VARIANT_FULL \<rparr>)"

definition derivation_path_network :: "derivation_path \<Rightarrow> derivation_path_network_t" where
  "derivation_path_network dp =
     (if path_len dp = 0 then DERIVATION_PATH_NETWORK_UNKNOWN
      else let purpose = unhardened (nodes dp ! 0) in
        if purpose = LEGACY_PURPOSE then DERIVATION_PATH_NETWORK_LEGACY
        else if purpose \<noteq> NEW_PURPOSE \<or> path_len dp < 2 then DERIVATION_PATH_NETWORK_UNKNOWN
        else if unhardened (nodes dp ! 1) = NEW_MAINNET_COIN_TYPE
             then DERIVATION_PATH_NETWORK_MAINNET
        else if unhardened (nodes dp ! 1) = NEW_TESTNET_COIN_TYPE
             then DERIVATION_PATH_NETWORK_TESTNET
        else DERIVATION_PATH_NETWORK_UNKNOWN)"

primrec network_label :: "derivation_path_network_t \<Rightarrow> bytes" where
  "network_label DERIVATION_PATH_NETWORK_MAINNET = ascii ''Mainnet''"
| "network_label DERIVATION_PATH_NETWORK_TESTNET = ascii ''Testnet''"
| "network_label DERIVATION_PATH_NETWORK_LEGACY = ascii ''Legacy (any network)''"
| "network_label DERIVATION_PATH_NETWORK_UNKNOWN = ascii ''Unknown network''"

definition path_display_network :: "bytes \<Rightarrow> derivation_path \<Rightarrow> bytes result" where
  "path_display_network dst dp =
     (if length dst = 0 then Ok dst
      else let label = network_label (derivation_path_network dp);
               len = (if length dst \<le> length label then length dst - 1 else length label) in
           rbind (put (zeros (length dst)) 0 (take len label)) (\<lambda>dst. put dst len [0]))"

text \<open>The path shape whose raw Ed25519 key the new-path export hands out.\<close>

definition reject_exportable_signing_path :: "derivation_path \<Rightarrow> unit result" where
  "reject_exportable_signing_path dp =
     (if variant dp \<noteq> DERIVATION_PATH_VARIANT_NEW \<or> path_len dp \<noteq> 6 then Ok ()
      else if unhardened (nodes dp ! 4) = NEW_COMMITMENT_RANDOMNESS then Err ERROR_INVALID_PATH
      else Ok ())"

text \<open>
  \<open>parse_derivation_path\<close> writes the global path as it goes: the first component of the result is
  what the global path holds afterwards, whether the call returns or throws.
\<close>

definition parse_derivation_path :: "bytes \<Rightarrow> derivation_path \<times> nat result" where
  "parse_derivation_path cdata =
     (let dp = init_derivation_path in
      case parse_derivation_path_from_buffer cdata dp of
        Err e \<Rightarrow> (dp, Err e)
      | Oob \<Rightarrow> (dp, Oob)
      | Ok (consumed, dp) \<Rightarrow>
          let dp = harden_derivation_path (detect_derivation_path_variant dp) in
          (dp, rbind (reject_exportable_signing_path dp) (\<lambda>_. Ok consumed)))"

subsection \<open>Display\<close>

text \<open>A call on the sub-buffer \<open>dst + offset\<close> of length \<open>dstLength - offset\<close>.\<close>

definition at_offset :: "bytes \<Rightarrow> nat \<Rightarrow> (bytes \<Rightarrow> (bytes \<times> nat) result) \<Rightarrow> (bytes \<times> nat) result" where
  "at_offset dst offset f =
     (if offset \<le> length dst
      then rbind (f (drop offset dst)) (\<lambda>(tl, n). Ok (take offset dst @ tl, n)) else Oob)"

definition path_display_legacy :: "sdk \<Rightarrow> bytes \<Rightarrow> u32 \<Rightarrow> u32 \<Rightarrow> bytes result" where
  "path_display_legacy E dst identityIndex accountIndex =
     rbind (number_to_text E dst (ucast identityIndex)) (\<lambda>(dst, offset).
       if length dst \<le> offset then Err ERROR_BUFFER_OVERFLOW
       else rbind (put dst offset [47]) (\<lambda>dst.
            rbind (at_offset dst (offset + 1) (\<lambda>d. bin_to_dec E d (ucast accountIndex)))
              (\<lambda>(dst, _). Ok dst)))"

definition path_display_new :: "sdk \<Rightarrow> bytes \<Rightarrow> u32 \<Rightarrow> u32 \<Rightarrow> u32 \<Rightarrow> bytes result" where
  "path_display_new E dst identityProviderIndex identityIndex accountIndex =
     rbind (number_to_text E dst (ucast identityProviderIndex)) (\<lambda>(dst, offset).
       if length dst \<le> offset then Err ERROR_BUFFER_OVERFLOW
       else rbind (put dst offset [47]) (\<lambda>dst. let offset = offset + 1 in
            rbind (at_offset dst offset (\<lambda>d. number_to_text E d (ucast identityIndex)))
              (\<lambda>(dst, n). let offset = offset + n in
       if length dst \<le> offset then Err ERROR_BUFFER_OVERFLOW
       else rbind (put dst offset [47]) (\<lambda>dst. let offset = offset + 1 in
            rbind (at_offset dst offset (\<lambda>d. bin_to_dec E d (ucast accountIndex)))
              (\<lambda>(dst, _). Ok dst)))))"

text \<open>The loop of \<open>path_display_full\<close>; None is its early return.\<close>

fun display_nodes :: "sdk \<Rightarrow> u32 list \<Rightarrow> nat \<Rightarrow> nat \<Rightarrow> bytes \<Rightarrow> (bytes \<times> nat option) result" where
  "display_nodes E [] i offset dst = Ok (dst, Some offset)"
| "display_nodes E (n # ns) i offset dst =
     (if 0 < i \<and> length dst \<le> offset + 1 then Ok (dst, None)
      else rbind (if 0 < i then put dst offset [47] else Ok dst) (\<lambda>dst.
        let offset = (if 0 < i then offset + 1 else offset) in
        rbind (at_offset dst offset (\<lambda>d. number_to_text E d (ucast (unhardened n))))
          (\<lambda>(dst, k). let offset = offset + k in
            if length dst \<le> offset + 1 then Ok (dst, None)
            else rbind (put dst offset [39]) (\<lambda>dst.
                 display_nodes E ns (i + 1) (offset + 1) dst))))"

definition path_display_full :: "sdk \<Rightarrow> bytes \<Rightarrow> derivation_path \<Rightarrow> bytes result" where
  "path_display_full E dst dp =
     (if length dst = 0 then Ok dst
      else rbind (display_nodes E (used_nodes dp) 0 0 (zeros (length dst))) (\<lambda>(dst, r).
        case r of None \<Rightarrow> Ok dst | Some offset \<Rightarrow> put dst offset [0]))"

subsection \<open>What the parsers accept\<close>

definition node_at :: "bytes \<Rightarrow> nat \<Rightarrow> u32" where
  "node_at cdata off = of_nat (be_nat (take 4 (drop off cdata)))"

text \<open>The wire format: the depth, then each node in four bytes.\<close>

definition path_bytes :: "u32 list \<Rightarrow> bytes" where
  "path_bytes ns = of_nat (length ns) # concat (map (\<lambda>n. to_be 4 (unat n)) ns)"

lemma length_path_bytes [simp]: "length (path_bytes ns) = 1 + 4 * length ns"
  by (induction ns) (simp_all add: path_bytes_def)

lemma to_be_node: "length xs = 4 \<Longrightarrow> to_be 4 (unat (of_nat (be_nat xs) :: u32)) = xs"
  using be_nat_bound [of xs] to_be_be_nat [of xs]
  by (simp add: unsigned_of_nat take_bit_nat_eq_self)

lemma read_nodes_Ok:
  "offset + 4 * k \<le> length cdata \<Longrightarrow> i + k \<le> length ns \<Longrightarrow>
   read_nodes cdata offset i k ns = Ok (offset + 4 * k,
     take i ns @ map (\<lambda>j. node_at cdata (offset + 4 * j)) [0..<k] @ drop (i + k) ns)"
proof (induction k arbitrary: offset i ns)
  case (Suc k)
  have r: "read_u32_be cdata offset = Ok (offset + 4, node_at cdata offset)"
    using Suc.prems by (simp add: read_u32_be_def U4BE_def slice_Ok node_at_def)
  have m: "map (\<lambda>j. node_at cdata (offset + 4 * j)) [0..<Suc k] =
      node_at cdata offset # map (\<lambda>j. node_at cdata (offset + 4 + 4 * j)) [0..<k]"
    by (simp add: upt_conv_Cons add.assoc flip: map_Suc_upt del: upt_Suc)
  have "take (i + 1) (ns[i := x]) = take i ns @ [x]" for x
    using Suc.prems by (simp add: take_Suc_conv_app_nth)
  then show ?case
    using Suc.prems Suc.IH [of "offset + 4" "i + 1" "ns[i := node_at cdata offset]"]
    by (simp add: r m drop_update_cancel del: upt_Suc)
qed simp

lemma nodes_bytes:
  "offset + 4 * k \<le> length cdata \<Longrightarrow>
   concat (map (\<lambda>n. to_be 4 (unat n)) (map (\<lambda>j. node_at cdata (offset + 4 * j)) [0..<k])) =
   take (4 * k) (drop offset cdata)"
proof (induction k)
  case (Suc k)
  have "to_be 4 (unat (node_at cdata (offset + 4 * k))) = take 4 (drop (offset + 4 * k) cdata)"
    using Suc.prems unfolding node_at_def by (intro to_be_node) simp
  moreover have "take (4 * Suc k) (drop offset cdata) =
      take (4 * k) (drop offset cdata) @ take 4 (drop (offset + 4 * k) cdata)"
    using take_add [of "4 * k" 4 "drop offset cdata"] by (simp add: add.commute)
  ultimately show ?case using Suc by simp
qed simp

lemma wf_init [simp]: "wf_path init_derivation_path"
  by (simp add: wf_path_def init_derivation_path_def)

lemma length_used_nodes [simp]: "wf_path dp \<Longrightarrow> length (used_nodes dp) = path_len dp"
  by (simp add: wf_path_def used_nodes_def)

lemma from_buffer_wp:
  assumes "length (nodes out) = 8"
  shows "rwp (parse_derivation_path_from_buffer cdata out)
    (\<lambda>(consumed, dp). wf_path dp \<and> consumed = 1 + 4 * path_len dp \<and> consumed \<le> length cdata \<and>
       variant dp = DERIVATION_PATH_VARIANT_FULL \<and>
       take consumed cdata = path_bytes (used_nodes dp))
    (\<lambda>e. e = ERROR_INVALID_PATH)"
proof (cases "cdata = [] \<or> 8 < cdata ! 0 \<or> length cdata < 1 + unat (cdata ! 0) * 4")
  case True
  then show ?thesis
    by (auto simp: parse_derivation_path_from_buffer_def Let_def Suc_le_eq)
next
  case False
  let ?k = "unat (cdata ! 0)"
  obtain b rest where c: "cdata = b # rest" using False by (cases cdata) auto
  have k: "?k \<le> 8" "1 + 4 * ?k \<le> length cdata"
    using False by (auto simp: word_less_nat_alt not_less)
  let ?ns = "map (\<lambda>j. node_at cdata (1 + 4 * j)) [0..<?k]"
  have r: "read_nodes cdata 1 0 ?k (nodes out) = Ok (1 + 4 * ?k, ?ns @ drop ?k (nodes out))"
    using read_nodes_Ok [of 1 ?k cdata 0 "nodes out"] k assms by simp
  have "take (1 + 4 * ?k) cdata = path_bytes ?ns"
    using nodes_bytes [of 1 ?k cdata] k c by (simp add: path_bytes_def)
  moreover have "parse_derivation_path_from_buffer cdata out = Ok (1 + 4 * ?k,
      \<lparr> nodes = ?ns @ drop ?k (nodes out), path_len = ?k,
        variant = DERIVATION_PATH_VARIANT_FULL \<rparr>)"
    using False r c by (simp add: parse_derivation_path_from_buffer_def Let_def byte_at_def read_u8_def)
  ultimately show ?thesis using k assms by (simp add: wf_path_def used_nodes_def)
qed

lemma path_bytes_inj: "path_bytes xs = path_bytes ys \<Longrightarrow> length xs = length ys \<Longrightarrow> xs = ys"
proof (induction xs arbitrary: ys)
  case (Cons x xs)
  then obtain y ys' where ys: "ys = y # ys'" by (cases ys) auto
  with Cons.prems have "to_be 4 (unat x) = to_be 4 (unat y)" and
    "path_bytes xs = path_bytes ys'" by (simp_all add: path_bytes_def)
  moreover from this(1) have "unat x mod 256 ^ 4 = unat y mod 256 ^ 4" by (metis be_nat_to_be)
  then have "x = y"
    using unat_bounds(3) [of x] unat_bounds(3) [of y] by (simp add: word_unat_eq_iff)
  ultimately show ?case using Cons ys by simp
qed simp

lemma from_buffer_roundtrip:
  assumes "length ns \<le> 8" "length (nodes out) = 8"
  shows "\<exists>dp. parse_derivation_path_from_buffer (path_bytes ns @ rest) out =
           Ok (1 + 4 * length ns, dp) \<and> used_nodes dp = ns"
proof -
  let ?c = "path_bytes ns @ rest"
  have d: "?c ! 0 = of_nat (length ns)" "?c \<noteq> []" by (simp_all add: path_bytes_def)
  have u: "unat (of_nat (length ns) :: u8) = length ns"
    using assms by (simp add: unsigned_of_nat take_bit_nat_eq_self)
  have "\<not> 8 < ?c ! 0" "\<not> length ?c < 1 + unat (?c ! 0) * 4"
    using assms by (simp_all add: d(1) u word_less_nat_alt del: append.simps)
  then have "\<exists>dp. parse_derivation_path_from_buffer ?c out = Ok (1 + 4 * length ns, dp)"
    using d u assms read_nodes_Ok [of 1 "length ns" ?c 0 "nodes out"]
    by (simp add: parse_derivation_path_from_buffer_def Let_def byte_at_def read_u8_def
        del: append.simps)
  then obtain dp where dp: "parse_derivation_path_from_buffer ?c out = Ok (1 + 4 * length ns, dp)"
    by blast
  with from_buffer_wp [OF assms(2), of ?c]
  have "path_len dp = length ns" "wf_path dp" "path_bytes ns = path_bytes (used_nodes dp)"
    by simp_all
  then show ?thesis using dp path_bytes_inj by auto
qed

subsection \<open>Signing paths\<close>

lemma hardened_idem [simp]: "hardened (hardened x) = hardened x"
  by (simp add: hardened_def or.assoc)

lemma unhardened_hardened [simp]: "unhardened (hardened x) = unhardened x"
  unfolding unhardened_def hardened_def
  by (rule bit_word_eqI) (auto simp: bit_simps)

lemma hardened_unhardened [simp]: "hardened (unhardened x) = hardened x"
  unfolding unhardened_def hardened_def
  by (rule bit_word_eqI) (auto simp: bit_simps)

lemma wf_harden [simp]: "wf_path dp \<Longrightarrow> wf_path (harden_derivation_path dp)"
  by (auto simp: wf_path_def harden_derivation_path_def used_nodes_def)

lemma wf_detect [simp]: "wf_path (detect_derivation_path_variant dp) = wf_path dp"
  by (simp add: wf_path_def detect_derivation_path_variant_def Let_def)

lemma detect_fields [simp]:
  "nodes (detect_derivation_path_variant dp) = nodes dp"
  "path_len (detect_derivation_path_variant dp) = path_len dp"
  "used_nodes (detect_derivation_path_variant dp) = used_nodes dp"
  by (simp_all add: detect_derivation_path_variant_def Let_def used_nodes_def)

lemma harden_fields [simp]:
  "path_len (harden_derivation_path dp) = path_len dp"
  "variant (harden_derivation_path dp) = variant dp"
  "wf_path dp \<Longrightarrow> used_nodes (harden_derivation_path dp) = map hardened (used_nodes dp)"
  by (simp_all add: harden_derivation_path_def used_nodes_def wf_path_def)

text \<open>A path that may reach a signing or public-key operation.\<close>

definition signing_path :: "derivation_path \<Rightarrow> bool" where
  "signing_path dp \<longleftrightarrow> wf_path dp \<and> (\<forall>n \<in> set (used_nodes dp). hardened n = n) \<and>
     \<not> (path_len dp = 6 \<and> unhardened (nodes dp ! 0) = NEW_PURPOSE \<and>
        unhardened (nodes dp ! 4) = NEW_COMMITMENT_RANDOMNESS)"

lemma nodes_harden_nth:
  "wf_path dp \<Longrightarrow> i < path_len dp \<Longrightarrow> nodes (harden_derivation_path dp) ! i = hardened (nodes dp ! i)"
  by (simp add: harden_derivation_path_def used_nodes_def wf_path_def nth_append)

lemma parse_derivation_path_wp:
  "wf_path (fst (parse_derivation_path cdata)) \<and>
   rwp (snd (parse_derivation_path cdata))
     (\<lambda>consumed. 1 \<le> consumed \<and> consumed \<le> 33 \<and> consumed \<le> length cdata \<and>
        signing_path (fst (parse_derivation_path cdata)) \<and>
        (\<exists>ns. take consumed cdata = path_bytes ns \<and> length ns \<le> 8 \<and>
              used_nodes (fst (parse_derivation_path cdata)) = map hardened ns))
     (\<lambda>e. e = ERROR_INVALID_PATH)"
proof (cases "parse_derivation_path_from_buffer cdata init_derivation_path")
  case (Ok r)
  obtain consumed dp where r: "r = (consumed, dp)" by (cases r)
  have l: "length (nodes init_derivation_path) = 8" by (simp add: init_derivation_path_def)
  have w: "wf_path dp" "consumed = 1 + 4 * path_len dp" "consumed \<le> length cdata"
    "take consumed cdata = path_bytes (used_nodes dp)"
    using from_buffer_wp [OF l, of cdata] unfolding Ok r rwp.simps prod.case by blast+
  let ?d = "harden_derivation_path (detect_derivation_path_variant dp)"
  have p: "parse_derivation_path cdata =
      (?d, rbind (reject_exportable_signing_path ?d) (\<lambda>_. Ok consumed))"
    using Ok r by (simp add: parse_derivation_path_def Let_def)
  have n: "unhardened (nodes ?d ! i) = unhardened (nodes dp ! i)" if "i < path_len dp" for i
    using that w by (simp add: nodes_harden_nth)
  have v: "variant ?d = DERIVATION_PATH_VARIANT_NEW"
    if "path_len dp = 6" "unhardened (nodes dp ! 0) = NEW_PURPOSE"
    using that by (simp add: detect_derivation_path_variant_def Let_def)
  have "rwp (reject_exportable_signing_path ?d) (\<lambda>_. signing_path ?d) (\<lambda>e. e = ERROR_INVALID_PATH)"
  proof (cases "variant ?d = DERIVATION_PATH_VARIANT_NEW \<and> path_len dp = 6 \<and>
      unhardened (nodes dp ! 4) = NEW_COMMITMENT_RANDOMNESS")
    case False
    then have "signing_path ?d"
      using w v n unfolding signing_path_def by (auto simp del: detect_fields(1))
    then show ?thesis by (simp add: reject_exportable_signing_path_def)
  qed (simp add: reject_exportable_signing_path_def n)
  moreover have "wf_path ?d" using w by simp
  moreover have "path_len dp \<le> 8" "length (used_nodes dp) \<le> 8"
    using w by (simp_all add: wf_path_def used_nodes_def)
  ultimately show ?thesis
    using w unfolding p by (cases "reject_exportable_signing_path ?d")
      (auto intro!: exI [of _ "used_nodes dp"] simp del: One_nat_def)
next
  case (Err e)
  then show ?thesis
    using from_buffer_wp [of init_derivation_path cdata]
    by (simp add: parse_derivation_path_def Let_def init_derivation_path_def wf_path_def)
next
  case Oob
  then show ?thesis
    using from_buffer_wp [of init_derivation_path cdata] by (simp add: init_derivation_path_def)
qed

subsection \<open>Texts of paths\<close>

definition node_text :: "nat \<Rightarrow> bytes" where
  "node_text n = 47 # dec n @ [39]"

text \<open>Every node in decimal with a prime, slashes in between.\<close>

definition path_text :: "nat list \<Rightarrow> bytes" where
  "path_text ns = tl (concat (map node_text ns))"

definition shown_nodes :: "derivation_path \<Rightarrow> nat list" where
  "shown_nodes dp = map (\<lambda>n. unat (unhardened n)) (used_nodes dp)"

definition index_text :: "nat list \<Rightarrow> bytes" where
  "index_text ns = tl (concat (map (\<lambda>n. 47 # dec n) ns))"

lemma length_node_text: "length (node_text (unat (n :: u32))) \<le> 12"
  using length_dec_u32 [of n] by (simp add: node_text_def)

definition from_node :: "nat \<Rightarrow> u32 list \<Rightarrow> bytes" where
  "from_node i ns =
     (let t = concat (map (\<lambda>n. node_text (unat (unhardened n))) ns) in if i = 0 then tl t else t)"

lemma from_node_Nil [simp]: "from_node i [] = []"
  by (simp add: from_node_def)

lemma from_node_Cons: "from_node i (n # ns) =
  (if 0 < i then [47] else []) @ dec (unat (unhardened n)) @ 39 # from_node (i + 1) ns"
  by (simp add: from_node_def node_text_def Let_def)

lemma put_append: "length src \<le> length rest \<Longrightarrow>
  put (pre @ rest) (length pre) src = Ok (pre @ src @ drop (length src) rest)"
  by (simp add: put_def)

lemma number_at_offset:
  assumes "formats_numbers E" "length (dec (unat v)) \<le> length rest" "k = length pre"
  shows "at_offset (pre @ rest) k (\<lambda>d. number_to_text E d v) =
    Ok (pre @ dec (unat v) @ drop (length (dec (unat v))) rest, length (dec (unat v)))"
  using assms by (simp add: at_offset_def number_to_text_def u64_to_digits_no_nul_def
      formats_numbers_def put_def)

lemma decimal_at_offset:
  assumes "formats_numbers E" "length (dec (unat v)) < length rest" "k = length pre"
  shows "at_offset (pre @ rest) k (\<lambda>d. bin_to_dec E d v) =
    Ok (pre @ dec (unat v) @ 0 # drop (length (dec (unat v)) + 1) rest, length (dec (unat v)) + 1)"
  using assms by (simp add: at_offset_def bin_to_dec_def u64_to_digits_no_nul_def
      formats_numbers_def put_def)

lemma display_nodes_Ok:
  assumes "formats_numbers E"
  shows "12 * length ns + 1 \<le> length rest \<Longrightarrow>
    display_nodes E ns i (length pre) (pre @ rest) =
      Ok (pre @ from_node i ns @ drop (length (from_node i ns)) rest,
          Some (length pre + length (from_node i ns)))"
proof (induction ns arbitrary: i pre rest)
  case (Cons n ns)
  define sep where "sep = (if 0 < i then [47] else [] :: bytes)"
  let ?v = "ucast (unhardened n) :: u64"
  let ?pre = "pre @ sep"
  let ?rest = "drop (length sep) rest"
  let ?d = "dec (unat (unhardened n))"
  let ?rest' = "drop (length ?d) ?rest"
  have ld: "length ?d \<le> 10" by (rule length_dec_u32)
  have ls: "length sep \<le> 1" by (simp add: sep_def)
  have put_sep: "(if 0 < i then put (pre @ rest) (length pre) [47] else Ok (pre @ rest)) =
      Ok (?pre @ ?rest)"
    using Cons.prems by (auto simp: put_append sep_def)
  have off: "(if 0 < i then length pre + 1 else length pre) = length ?pre" by (simp add: sep_def)
  have num: "at_offset (?pre @ ?rest) (length ?pre) (\<lambda>d. number_to_text E d ?v) =
      Ok (?pre @ ?d @ ?rest', length ?d)"
  proof -
    have u: "unat ?v = unat (unhardened n)" by simp
    have "length (dec (unat ?v)) \<le> length ?rest" using Cons.prems ld ls by simp
    from number_at_offset [OF assms this refl] show ?thesis unfolding u .
  qed
  have len: "length (?pre @ ?d @ ?rest') = length pre + length rest"
    using Cons.prems ld ls by simp
  have prime: "put (?pre @ ?d @ ?rest') (length ?pre + length ?d) [39] =
      Ok ((?pre @ ?d @ [39]) @ drop 1 ?rest')"
    using put_append [of "[39]" ?rest' "?pre @ ?d"] Cons.prems ld ls by (simp add: add.assoc)
  have c1: "\<not> (0 < i \<and> length (pre @ rest) \<le> length pre + 1)"
    and c2: "\<not> length (?pre @ ?d @ ?rest') \<le> length ?pre + length ?d + 1"
    using Cons.prems ld ls len by simp_all
  have "display_nodes E (n # ns) i (length pre) (pre @ rest) =
      display_nodes E ns (i + 1) (length ?pre + length ?d + 1) ((?pre @ ?d @ [39]) @ drop 1 ?rest')"
    by (simp only: display_nodes.simps put_sep off num prime rbind.simps prod.case Let_def
        if_not_P [OF c1] if_not_P [OF c2])
  also have "length ?pre + length ?d + 1 = length (?pre @ ?d @ [39])" by simp
  also have "display_nodes E ns (i + 1) \<dots> ((?pre @ ?d @ [39]) @ drop 1 ?rest') =
      Ok ((?pre @ ?d @ [39]) @ from_node (i + 1) ns @
        drop (length (from_node (i + 1) ns)) (drop 1 ?rest'),
      Some (length (?pre @ ?d @ [39]) + length (from_node (i + 1) ns)))"
    using Cons.prems ld ls by (intro Cons.IH) auto
  also have "\<dots> = Ok (pre @ from_node i (n # ns) @ drop (length (from_node i (n # ns))) rest,
      Some (length pre + length (from_node i (n # ns))))"
    by (simp add: from_node_Cons sep_def ac_simps)
  finally show ?case .
qed simp

text \<open>
  Texts built from fields that each end in a character no field contains can be read back in only
  one way.
\<close>

locale terminated_fields =
  fixes render :: "'a \<Rightarrow> bytes"
    and stop :: u8
  assumes render_inj: "render x = render y \<Longrightarrow> x = y"
    and stop_free: "stop \<notin> set (render x)"
begin

definition field :: "'a \<Rightarrow> bytes" where
  "field x = render x @ [stop]"

lemma takeWhile_field: "takeWhile (\<lambda>b. b \<noteq> stop) (field x @ rest) = render x"
proof -
  have "\<And>b. b \<in> set (render x) \<Longrightarrow> b \<noteq> stop" using stop_free by blast
  then show ?thesis by (simp add: field_def takeWhile_append2)
qed

lemma field_append_inj: "field x @ xs = field y @ ys \<longleftrightarrow> x = y \<and> xs = ys"
  by (metis append_same_eq render_inj same_append_eq takeWhile_field)

lemma fields_inj: "concat (map field xs) = concat (map field ys) \<longleftrightarrow> xs = ys"
proof
  assume "concat (map field xs) = concat (map field ys)"
  then show "xs = ys"
  proof (induction xs arbitrary: ys)
    case Nil
    then show ?case by (cases ys) (simp_all add: field_def)
  next
    case (Cons x xs)
    then obtain y ys' where "ys = y # ys'" by (cases ys) (auto simp: field_def)
    with Cons show ?case by (simp add: field_append_inj)
  qed
qed simp

end

lemma dec_no_stop: "\<not> is_digit b \<Longrightarrow> b \<notin> set (dec n)"
  using dec_digits by blast

interpretation path_node: terminated_fields "\<lambda>n. 47 # dec n" 39
  by unfold_locales (simp_all add: dec_no_stop is_digit_def)

interpretation index_field: terminated_fields dec 47
  by unfold_locales (simp_all add: dec_no_stop is_digit_def)

lemma path_text_inj: "path_text xs = path_text ys \<longleftrightarrow> xs = ys"
proof
  assume eq: "path_text xs = path_text ys"
  have f: "node_text = path_node.field" by (rule ext) (simp add: node_text_def path_node.field_def)
  have "hd (concat (map node_text zs)) = 47" "concat (map node_text zs) \<noteq> []"
    if "zs \<noteq> []" for zs using that by (cases zs, simp_all add: node_text_def)+
  then have "concat (map node_text zs) = (if zs = [] then [] else 47 # path_text zs)" for zs
    by (metis concat.simps(1) list.exhaust_sel list.simps(8) path_text_def)
  moreover have "path_text zs = [] \<longleftrightarrow> zs = []" for zs
    by (cases zs) (simp_all add: path_text_def node_text_def)
  ultimately have "concat (map node_text xs) = concat (map node_text ys)"
    using eq by metis
  then show "xs = ys" by (simp add: f path_node.fields_inj)
qed simp

lemma length_from_node: "length (from_node i ns) \<le> 12 * length ns"
proof (induction ns arbitrary: i)
  case (Cons n ns)
  show ?case using Cons [of "i + 1"] length_dec_u32 [of "unhardened n"]
    by (auto simp: from_node_Cons)
qed simp

lemma from_node_0: "from_node 0 (used_nodes dp) = path_text (shown_nodes dp)"
  by (simp add: from_node_def path_text_def shown_nodes_def o_def)

lemma zero_notin_path_text [simp]: "0 \<notin> set (path_text ns)"
proof -
  have "0 \<notin> set (concat (map node_text ns))" by (auto simp: node_text_def)
  then show ?thesis unfolding path_text_def by (rule notin_set_tl)
qed

lemma path_display_full_Ok:
  assumes "formats_numbers E" "wf_path dp" "97 \<le> length dst"
  shows "path_display_full E dst dp =
    Ok (path_text (shown_nodes dp) @ zeros (length dst - length (path_text (shown_nodes dp))))"
proof -
  let ?t = "path_text (shown_nodes dp)"
  have l8: "length (used_nodes dp) \<le> 8" using assms by (simp add: wf_path_def used_nodes_def)
  have lt: "length ?t \<le> 96"
    using length_from_node [of 0 "used_nodes dp"] l8 by (simp add: from_node_0)
  have "display_nodes E (used_nodes dp) 0 0 (zeros (length dst)) =
      Ok (?t @ drop (length ?t) (zeros (length dst)), Some (length ?t))"
    using display_nodes_Ok [OF assms(1), of "used_nodes dp" "zeros (length dst)" 0 "[]"] assms l8
    by (simp add: from_node_0)
  moreover have "zeros (length dst - length ?t) = 0 # zeros (length dst - length ?t - 1)"
    using assms lt by (cases "length dst - length ?t") (simp_all add: zeros_def)
  ultimately show ?thesis
    using assms lt by (cases dst) (simp_all add: path_display_full_def put_def zeros_def)
qed

lemma hardened_unhardened_inj: "hardened m = m \<Longrightarrow> hardened n = n \<Longrightarrow>
  unhardened m = unhardened n \<Longrightarrow> m = n"
  by (metis hardened_unhardened)

lemma shown_nodes_inj:
  assumes "signing_path p" "signing_path q" "shown_nodes p = shown_nodes q"
  shows "used_nodes p = used_nodes q"
proof -
  have "map unhardened (used_nodes p) = map unhardened (used_nodes q)"
  proof -
    have "map unat (map unhardened (used_nodes p)) = map unat (map unhardened (used_nodes q))"
      using assms(3) by (simp add: shown_nodes_def o_def)
    moreover have "inj (unat :: u32 \<Rightarrow> nat)" by (simp add: inj_def word_unat_eq_iff)
    ultimately show ?thesis using inj_map_eq_map by blast
  qed
  then have e: "map hardened (map unhardened (used_nodes p)) =
      map hardened (map unhardened (used_nodes q))"
    by (rule arg_cong)
  have id: "map hardened (map unhardened (used_nodes r)) = used_nodes r" if "signing_path r" for r
    using that by (auto simp: signing_path_def intro: map_idI)
  show ?thesis
    using e unfolding id [OF assms(1)] id [OF assms(2)] .
qed

subsection \<open>Properties\<close>

lemma signing_path_parsed_nodes:
  "snd (parse_derivation_path [1, 0, 0, 0, b]) = Ok 5"
  by (simp add: parse_derivation_path_def parse_derivation_path_from_buffer_def
      init_derivation_path_def byte_at_def read_u8_def read_u32_be_def U4BE_def slice_def
      reject_exportable_signing_path_def Let_def)

definition exportable :: "u32 list \<Rightarrow> bool" where
  "exportable ns \<longleftrightarrow> length ns = 6 \<and> unhardened (ns ! 0) = NEW_PURPOSE \<and>
     unhardened (ns ! 4) = NEW_COMMITMENT_RANDOMNESS"

text \<open>The node list a packet starts with, in the wire format and of at most eight nodes.\<close>

definition encodes :: "bytes \<Rightarrow> u32 list \<Rightarrow> bool" where
  "encodes c ns \<longleftrightarrow> length ns \<le> 8 \<and> (\<exists>rest. c = path_bytes ns @ rest)"

lemma parse_encoded:
  assumes "length ns \<le> 8"
  shows "\<exists>dp. used_nodes dp = map hardened ns \<and> parse_derivation_path (path_bytes ns @ rest) =
    (dp, if exportable ns then Err ERROR_INVALID_PATH else Ok (1 + 4 * length ns))"
proof -
  have l: "length (nodes init_derivation_path) = 8" by (simp add: init_derivation_path_def)
  obtain dp where dp: "parse_derivation_path_from_buffer (path_bytes ns @ rest) init_derivation_path =
      Ok (1 + 4 * length ns, dp)" "used_nodes dp = ns"
    using from_buffer_roundtrip [OF assms l] by blast
  then have w: "wf_path dp" "path_len dp = length ns"
    using from_buffer_wp [OF l, of "path_bytes ns @ rest"] by simp_all
  have nth: "nodes dp ! i = ns ! i" if "i < length ns" for i
    using dp(2) w that by (metis nth_take used_nodes_def)
  let ?d = "harden_derivation_path (detect_derivation_path_variant dp)"
  have n: "unhardened (nodes ?d ! 4) = unhardened (ns ! 4)" if "length ns = 6"
    using that w nth [of 4] by (simp add: nodes_harden_nth)
  have v: "variant ?d = DERIVATION_PATH_VARIANT_NEW \<longleftrightarrow> unhardened (ns ! 0) = NEW_PURPOSE"
    if "length ns = 6"
    using that w nth [of 0] by (simp add: detect_derivation_path_variant_def Let_def)
  have "reject_exportable_signing_path ?d = (if exportable ns then Err ERROR_INVALID_PATH else Ok ())"
  proof (cases "length ns = 6")
    case True
    then show ?thesis
      using w n v by (simp add: reject_exportable_signing_path_def exportable_def)
  next
    case False
    then show ?thesis using w by (simp add: reject_exportable_signing_path_def exportable_def)
  qed
  then show ?thesis
    using dp w by (simp add: parse_derivation_path_def Let_def)
qed

lemma parse_not_encoded:
  assumes "\<nexists>ns. encodes c ns"
  shows "parse_derivation_path c = (init_derivation_path, Err ERROR_INVALID_PATH)"
proof -
  have "length (nodes init_derivation_path) = 8" by (simp add: init_derivation_path_def)
  note w = from_buffer_wp [OF this, of c]
  have "encodes c (used_nodes dp)" if "parse_derivation_path_from_buffer c init_derivation_path = Ok (n, dp)" for n dp
  proof -
    have d: "length (used_nodes dp) \<le> 8" "take n c = path_bytes (used_nodes dp)"
      using w unfolding that by (auto simp: wf_path_def)
    from d(2) have "c = path_bytes (used_nodes dp) @ drop n c" by (metis append_take_drop_id)
    with d(1) show ?thesis unfolding encodes_def by blast
  qed
  then show ?thesis
    using w assms by (cases "parse_derivation_path_from_buffer c init_derivation_path")
      (auto simp: parse_derivation_path_def)
qed

text \<open>C30: Parsing a signing path accepts exactly the packets that start with an encoded path of at
  most eight nodes, complete and not of the one shape whose raw key the new-path export releases, and
  consumes exactly that path; the global path then holds exactly the nodes received, each hardened.  Any
  other packet (too deep, truncated, empty, or of that shape) is refused with \<open>ERROR_INVALID_PATH\<close>.\<close>

theorem signing_path_parsed:
  "(case parse_derivation_path c of (dp, r) \<Rightarrow>
     if \<exists>ns. encodes c ns
     then \<exists>ns. encodes c ns \<and> used_nodes dp = map hardened ns \<and>
       r = (if exportable ns then Err ERROR_INVALID_PATH else Ok (1 + 4 * length ns))
     else dp = init_derivation_path \<and> r = Err ERROR_INVALID_PATH)"
proof (cases "\<exists>ns. encodes c ns")
  case True
  then obtain ns rest where "length ns \<le> 8" "c = path_bytes ns @ rest" by (auto simp: encodes_def)
  with parse_encoded [of ns rest] show ?thesis by (auto simp: encodes_def)
qed (use parse_not_encoded in simp)

text \<open>C31: The full path text fits its 104-byte buffer, and two signing paths with the same text
  are the same path: no node is hidden from the review.\<close>

theorem path_text_exact:
  assumes "formats_numbers E" "length dst = 104" "length dst' = 104"
    "parse_derivation_path c = (p, Ok m)" "parse_derivation_path c' = (q, Ok n)"
  shows "rwp (path_display_full E dst p) (\<lambda>d. rwp (path_display_full E dst' q) (\<lambda>d'.
    length d = 104 \<and> (cstr d = cstr d' \<longleftrightarrow> used_nodes p = used_nodes q)) (\<lambda>_. False)) (\<lambda>_. False)"
proof -
  have p: "signing_path p" and q: "signing_path q"
    using parse_derivation_path_wp [of c] parse_derivation_path_wp [of c'] assms(4,5) by simp_all
  then have w: "wf_path p" "wf_path q" by (simp_all add: signing_path_def)
  have "shown_nodes p = shown_nodes q \<longleftrightarrow> used_nodes p = used_nodes q"
    using shown_nodes_inj [OF p q] by (auto simp: shown_nodes_def)
  moreover have "length (path_text (shown_nodes p)) \<le> 104"
    using length_from_node [of 0 "used_nodes p"] w(1) by (simp add: from_node_0 wf_path_def)
  ultimately show ?thesis
    using assms w by (simp add: path_display_full_Ok path_text_inj)
qed

lemma path_text_exact_witness:
  "rwp (path_display_full demo_sdk (zeros 104) (fst (parse_derivation_path [1, 0, 0, 0, 44])))
    (\<lambda>d. rwp (path_display_full demo_sdk (zeros 104) (fst (parse_derivation_path [1, 0, 0, 0, 45])))
      (\<lambda>d'. length d = 104 \<and> (cstr d = cstr d' \<longleftrightarrow>
        used_nodes (fst (parse_derivation_path [1, 0, 0, 0, 44])) =
        used_nodes (fst (parse_derivation_path [1, 0, 0, 0, 45])))) (\<lambda>_. False)) (\<lambda>_. False)"
proof -
  have "parse_derivation_path [1, 0, 0, 0, b] = (fst (parse_derivation_path [1, 0, 0, 0, b]), Ok 5)"
    for b
    using signing_path_parsed_nodes [of b] by (metis surjective_pairing)
  then show ?thesis by (intro path_text_exact) simp_all
qed

end
