(* ===== verification/Calendar.thy ===== *)
theory Calendar
  imports DerivationPath "HOL-Library.Signed_Division"
begin

text \<open>
  Time stamps: src/src/helpers/time.c and time.h.

  \<open>secondsToTm\<close> computes a calendar date from seconds since 1970 with truncating divisions and
  their corrections.  The reference is \<open>day_number\<close>, the day count of a Gregorian date written
  from the leap-year rule; the lemmas show that the date computed is a valid one and has the day
  count it was computed from, so that equal dates mean equal seconds.  The C integers are written
  as \<open>int\<close>.  The program passes a 64-bit number of milliseconds divided by 1000, which is below
  2 ^ 55: there every intermediate value stays within its C type, and the year is below 600 million.
  At the far ends of the range that the first check admits, the sum for \<open>years\<close> can exceed an
  \<open>int\<close> before it is checked; no caller comes near them.  \<open>sdiv\<close> and \<open>smod\<close> are C's division and remainder.
\<close>

subsection \<open>secondsToTm\<close>

record tm =
  tm_sec :: int
  tm_min :: int
  tm_hour :: int
  tm_mday :: int
  tm_mon :: int
  tm_year :: int
  tm_wday :: int
  tm_yday :: int

definition days_in_month :: "int list" where
  "days_in_month = [31, 30, 31, 30, 31, 31, 30, 31, 30, 31, 31, 29]"

text \<open>The loop over \<open>days_in_month\<close>; reading past the table is a fault.\<close>

fun month_loop :: "int list \<Rightarrow> int \<Rightarrow> int \<Rightarrow> (int \<times> int) result" where
  "month_loop [] months remdays = Oob"
| "month_loop (d # ds) months remdays =
     (if d \<le> remdays then month_loop ds (months + 1) (remdays - d) else Ok (months, remdays))"

abbreviation LEAPOCH :: int where "LEAPOCH \<equiv> 946684800 + 86400 * (31 + 29)"
abbreviation DAYS_PER_400Y :: int where "DAYS_PER_400Y \<equiv> 365 * 400 + 97"
abbreviation DAYS_PER_100Y :: int where "DAYS_PER_100Y \<equiv> 365 * 100 + 24"
abbreviation DAYS_PER_4Y :: int where "DAYS_PER_4Y \<equiv> 365 * 4 + 1"
abbreviation INT_MAX :: int where "INT_MAX \<equiv> 2147483647"
abbreviation INT_MIN :: int where "INT_MIN \<equiv> - 2147483648"

text \<open>None is the return value -1, which leaves the output unwritten.\<close>

definition secondsToTm :: "int \<Rightarrow> tm option result" where
  "secondsToTm t =
     (if t < INT_MIN * 31622400 \<or> t > INT_MAX * 31622400 then Ok None
      else
        let secs = t - LEAPOCH;
            days = secs sdiv 86400;
            remsecs = secs smod 86400;
            (remsecs, days) = (if remsecs < 0 then (remsecs + 86400, days - 1) else (remsecs, days));
            wday = (3 + days) smod 7;
            wday = (if wday < 0 then wday + 7 else wday);
            qc_cycles = days sdiv DAYS_PER_400Y;
            remdays = days smod DAYS_PER_400Y;
            (remdays, qc_cycles) =
              (if remdays < 0 then (remdays + DAYS_PER_400Y, qc_cycles - 1)
               else (remdays, qc_cycles));
            c_cycles = remdays sdiv DAYS_PER_100Y;
            c_cycles = (if c_cycles = 4 then c_cycles - 1 else c_cycles);
            remdays = remdays - c_cycles * DAYS_PER_100Y;
            q_cycles = remdays sdiv DAYS_PER_4Y;
            q_cycles = (if q_cycles = 25 then q_cycles - 1 else q_cycles);
            remdays = remdays - q_cycles * DAYS_PER_4Y;
            remyears = remdays sdiv 365;
            remyears = (if remyears = 4 then remyears - 1 else remyears);
            remdays = remdays - remyears * 365;
            leap = (if remyears = 0 \<and> (q_cycles \<noteq> 0 \<or> c_cycles = 0) then 1 else 0);
            yday = remdays + 31 + 28 + leap;
            yday = (if 365 + leap \<le> yday then yday - (365 + leap) else yday);
            years = remyears + 4 * q_cycles + 100 * c_cycles + 400 * qc_cycles
        in rbind (month_loop days_in_month 0 remdays) (\<lambda>(months, remdays).
           if years > INT_MAX - 100 \<or> years < INT_MIN + 100 then Ok None
           else
             let year = years + 100; mon = months + 2;
                 (mon, year) = (if 12 \<le> mon then (mon - 12, year + 1) else (mon, year))
             in Ok (Some \<lparr> tm_sec = remsecs smod 60, tm_min = (remsecs sdiv 60) smod 60,
                           tm_hour = remsecs sdiv 3600, tm_mday = remdays + 1, tm_mon = mon,
                           tm_year = year, tm_wday = wday, tm_yday = yday \<rparr>)))"

subsection \<open>Display\<close>

definition prefixWithZero :: "bytes \<Rightarrow> int \<Rightarrow> (bytes \<times> nat) result" where
  "prefixWithZero dst v =
     (if v < 10 then
        if length dst < 1 then Err ERROR_BUFFER_OVERFLOW
        else rbind (put dst 0 [48]) (\<lambda>dst. Ok (dst, 1))
      else Ok (dst, 0))"

definition appendMilliseconds :: "bytes \<Rightarrow> u16 \<Rightarrow> bytes result" where
  "appendMilliseconds dst milliseconds =
     (if 999 < milliseconds then Err ERROR_INVALID_TRANSACTION
      else let offset = length (takeWhile (\<lambda>b. b \<noteq> 0) dst) in
        if length dst < offset + 5 then Err ERROR_BUFFER_OVERFLOW
        else put dst offset [46, ucast (48 + milliseconds div 100),
               ucast (48 + (milliseconds div 10) mod 10), ucast (48 + milliseconds mod 10), 0])"

text \<open>The separator writes of \<open>timeToDisplayText\<close>, and its pairs of calls for a two-digit field.\<close>

definition put_separator :: "bytes \<Rightarrow> nat \<Rightarrow> u8 \<Rightarrow> (bytes \<times> nat) result" where
  "put_separator dst offset c =
     (if length dst \<le> offset then Err ERROR_BUFFER_OVERFLOW
      else rbind (put dst offset [c]) (\<lambda>dst. Ok (dst, offset + 1)))"

definition put_field :: "sdk \<Rightarrow> bytes \<Rightarrow> nat \<Rightarrow> int \<Rightarrow> (bytes \<times> nat) result" where
  "put_field E dst offset v =
     rbind (at_offset dst offset (\<lambda>d. prefixWithZero d v)) (\<lambda>(dst, n). let offset = offset + n in
     rbind (at_offset dst offset (\<lambda>d. number_to_text E d (word_of_int v))) (\<lambda>(dst, n).
     Ok (dst, offset + n)))"

definition timeToDisplayText :: "sdk \<Rightarrow> tm \<Rightarrow> bytes \<Rightarrow> (bytes \<times> nat) result" where
  "timeToDisplayText E time dst =
     (if tm_year time \<le> 0 then Err ERROR_INVALID_TRANSACTION
      else if length dst < 20 then Err ERROR_BUFFER_OVERFLOW
      else
        rbind (number_to_text E dst (word_of_int (tm_year time + 1900))) (\<lambda>(dst, offset).
        rbind (put_separator dst offset 45) (\<lambda>(dst, offset).
        rbind (put_field E dst offset (tm_mon time + 1)) (\<lambda>(dst, offset).
        rbind (put_separator dst offset 45) (\<lambda>(dst, offset).
        rbind (put_field E dst offset (tm_mday time)) (\<lambda>(dst, offset).
        rbind (put_separator dst offset 32) (\<lambda>(dst, offset).
        rbind (put_field E dst offset (tm_hour time)) (\<lambda>(dst, offset).
        rbind (put_separator dst offset 58) (\<lambda>(dst, offset).
        rbind (put_field E dst offset (tm_min time)) (\<lambda>(dst, offset).
        rbind (put_separator dst offset 58) (\<lambda>(dst, offset).
        rbind (at_offset dst offset (\<lambda>d. prefixWithZero d (tm_sec time))) (\<lambda>(dst, n).
          let offset = offset + n in
        rbind (at_offset dst offset (\<lambda>d. bin_to_dec E d (word_of_int (tm_sec time)))) (\<lambda>(dst, n).
        Ok (dst, offset + n))))))))))))))"

subsection \<open>The Gregorian calendar\<close>

definition leap_year :: "int \<Rightarrow> bool" where
  "leap_year y \<longleftrightarrow> 4 dvd y \<and> (\<not> 100 dvd y \<or> 400 dvd y)"

definition month_lengths :: "int \<Rightarrow> int list" where
  "month_lengths y = [31, if leap_year y then 29 else 28, 31, 30, 31, 30, 31, 31, 30, 31, 30, 31]"

text \<open>Days from 1970-01-01 to the first of January of year y.\<close>

definition days_before_year :: "int \<Rightarrow> int" where
  "days_before_year y =
     365 * (y - 1970) + ((y - 1) div 4 - (y - 1) div 100 + (y - 1) div 400) - 477"

definition day_number :: "int \<Rightarrow> int \<Rightarrow> int \<Rightarrow> int" where
  "day_number y m d = days_before_year y + sum_list (take (nat m) (month_lengths y)) + (d - 1)"

definition valid_date :: "int \<Rightarrow> int \<Rightarrow> int \<Rightarrow> bool" where
  "valid_date y m d \<longleftrightarrow> 0 \<le> m \<and> m \<le> 11 \<and> 1 \<le> d \<and> d \<le> month_lengths y ! nat m"

definition tm_seconds :: "tm \<Rightarrow> int" where
  "tm_seconds x = day_number (tm_year x + 1900) (tm_mon x) (tm_mday x) * 86400 +
     tm_hour x * 3600 + tm_min x * 60 + tm_sec x"

definition valid_tm :: "tm \<Rightarrow> bool" where
  "valid_tm x \<longleftrightarrow> valid_date (tm_year x + 1900) (tm_mon x) (tm_mday x) \<and>
     0 \<le> tm_hour x \<and> tm_hour x < 24 \<and> 0 \<le> tm_min x \<and> tm_min x < 60 \<and>
     0 \<le> tm_sec x \<and> tm_sec x < 60 \<and> 0 \<le> tm_wday x \<and> tm_wday x < 7"

lemma days_before_next:
  "days_before_year (y + 1) = days_before_year y + (if leap_year y then 366 else 365)"
proof -
  have step: "y div n - (y - 1) div n = (if n dvd y then 1 else 0)" if "0 < n" for n :: int
  proof (cases "n dvd y")
    case True
    then obtain k where "y = n * k" by blast
    moreover have "(n * k - 1) div n = k - 1"
      using that by (intro int_div_pos_eq [where r = "n - 1"]) (simp_all add: algebra_simps)
    ultimately show ?thesis using that by simp
  next
    case False
    then have "0 < y mod n" using that by (simp add: dvd_eq_mod_eq_0 order_less_le)
    moreover have "y mod n - 1 < n" using that pos_mod_bound [of n y] by linarith
    ultimately have "(y - 1) div n = y div n"
      by (intro int_div_pos_eq [where r = "y mod n - 1"]) simp_all
    then show ?thesis using False by simp
  qed
  have "100 dvd y \<Longrightarrow> 4 dvd y" "400 dvd y \<Longrightarrow> 100 dvd y"
    using dvd_trans [of 100 400 y] dvd_trans [of 4 100 y] by simp_all
  then have "y div 4 - (y - 1) div 4 - (y div 100 - (y - 1) div 100) + (y div 400 - (y - 1) div 400) =
      (if leap_year y then 1 else 0)"
    unfolding step [OF zero_less_numeral] leap_year_def by (cases "100 dvd y") auto
  moreover have "365 * (y + 1 - 1970) + (a - b + c) - 477 =
      365 * (y - 1970) + (a' - b' + c') - 477 + (if leap_year y then 366 else 365)"
    if "a - a' - (b - b') + (c - c') = (if leap_year y then 1 else 0)" for a b c a' b' c' :: int
    using that by (simp split: if_splits)
  moreover have "y + 1 - 1 = y" by simp
  ultimately show ?thesis unfolding days_before_year_def by presburger
qed

lemma c_div_mod:
  fixes a b :: int
  assumes "0 < b"
  shows "(if a smod b < 0 then (a smod b + b, a sdiv b - 1) else (a smod b, a sdiv b)) =
    (a mod b, a div b)"
proof -
  have "0 \<le> a mod b" "a mod b < b" using assms by simp_all
  then show ?thesis
    using assms
    by (simp add: signed_divide_int_eq_divide_int signed_modulo_int_eq_modulo_int not_less not_le)
qed

lemma c_div_nonneg: "0 \<le> a \<Longrightarrow> 0 < b \<Longrightarrow> a sdiv b = a div (b :: int) \<and> a smod b = a mod b"
  by (cases "a = 0") (simp_all add: signed_divide_int_eq_divide_int signed_modulo_int_eq_modulo_int)

lemma less_12: "(n :: nat) < 12 \<Longrightarrow> n \<in> {0, 1, 2, 3, 4, 5, 6, 7, 8, 9, 10, 11}"
  unfolding insert_iff empty_iff by presburger

lemma month_loop_Ok:
  "0 \<le> r \<Longrightarrow> r < sum_list ds \<Longrightarrow>
   \<exists>j. j < length ds \<and> month_loop ds k r = Ok (k + int j, r - sum_list (take j ds)) \<and>
       0 \<le> r - sum_list (take j ds) \<and> r - sum_list (take j ds) < ds ! j"
proof (induction ds arbitrary: k r)
  case (Cons d ds)
  show ?case
  proof (cases "d \<le> r")
    case True
    then obtain j where "j < length ds"
      "month_loop ds (k + 1) (r - d) = Ok (k + 1 + int j, r - d - sum_list (take j ds))"
      "0 \<le> r - d - sum_list (take j ds)" "r - d - sum_list (take j ds) < ds ! j"
      using Cons.IH [of "r - d" "k + 1"] Cons.prems by auto
    then show ?thesis using True by (intro exI [of _ "Suc j"]) (simp add: algebra_simps)
  next
    case False
    then show ?thesis using Cons.prems by (intro exI [of _ 0]) simp
  qed
qed simp

text \<open>The years, four-year and hundred-year cycles of a day within 400 years.\<close>

lemma year_cycles:
  fixes rem c q y r2 r3 r4 :: int
  assumes "0 \<le> rem" "rem < DAYS_PER_400Y"
    "c = (if rem div DAYS_PER_100Y = 4 then 3 else rem div DAYS_PER_100Y)"
    "r2 = rem - c * DAYS_PER_100Y"
    "q = (if r2 div DAYS_PER_4Y = 25 then 24 else r2 div DAYS_PER_4Y)"
    "r3 = r2 - q * DAYS_PER_4Y"
    "y = (if r3 div 365 = 4 then 3 else r3 div 365)"
    "r4 = r3 - y * 365"
  shows "0 \<le> r2" "0 \<le> r3" "0 \<le> c" "c \<le> 3" "0 \<le> q" "q \<le> 24" "0 \<le> y" "y \<le> 3"
    "0 \<le> r4" "r4 \<le> 365" "r4 = 365 \<Longrightarrow> y = 3 \<and> (q < 24 \<or> c = 3)"
proof -
  have c: "0 \<le> c \<and> c \<le> 3 \<and> 0 \<le> r2 \<and> (r2 < 36524 \<or> c = 3 \<and> r2 = 36524)"
    using assms(1-4) by (auto split: if_splits)
  have q: "0 \<le> q \<and> q \<le> 24 \<and> 0 \<le> r3 \<and> r3 < 1461 \<and> (r3 = 1460 \<longrightarrow> q < 24 \<or> c = 3)"
    using c assms(5,6) by (auto split: if_splits)
  have y: "0 \<le> y \<and> y \<le> 3 \<and> 0 \<le> r4 \<and> r4 \<le> 365 \<and> (r4 = 365 \<longrightarrow> y = 3 \<and> r3 = 1460)"
    using q assms(7,8) by (auto split: if_splits)
  show "0 \<le> r2" "0 \<le> r3" "0 \<le> c" "c \<le> 3" "0 \<le> q" "q \<le> 24" "0 \<le> y" "y \<le> 3"
    "0 \<le> r4" "r4 \<le> 365" "r4 = 365 \<Longrightarrow> y = 3 \<and> (q < 24 \<or> c = 3)"
    using c q y by auto
qed

text \<open>The first of January that falls in the year beginning in March of 2000 + Y.\<close>

lemma days_before_march_year:
  assumes "0 \<le> y" "y \<le> 3" "0 \<le> q" "q \<le> 24" "0 \<le> c" "c \<le> (3 :: int)"
  shows "days_before_year (2001 + (y + 4 * q + 100 * c + 400 * qc)) =
    11323 + 365 * y + DAYS_PER_4Y * q + DAYS_PER_100Y * c + DAYS_PER_400Y * qc"
proof -
  let ?Y = "y + 4 * q + 100 * c + 400 * qc"
  have "(2000 + ?Y) div 4 = 500 + q + 25 * c + 100 * qc"
    using assms by (intro int_div_pos_eq [where r = y]) simp_all
  moreover have "(2000 + ?Y) div 100 = 20 + c + 4 * qc"
    using assms by (intro int_div_pos_eq [where r = "y + 4 * q"]) simp_all
  moreover have "(2000 + ?Y) div 400 = 5 + qc"
    using assms by (intro int_div_pos_eq [where r = "y + 4 * q + 100 * c"]) simp_all
  moreover have "2001 + ?Y - 1 = 2000 + ?Y" by simp
  ultimately show ?thesis
    by (simp only: days_before_year_def) simp
qed

lemma leap_march_year:
  assumes "q < 24 \<or> c = 3" "0 \<le> q" "q \<le> 24"
  shows "leap_year (2001 + (3 + 4 * q + 100 * c + 400 * qc))"
proof (cases "q < 24")
  case True
  let ?z = "c + 20 + 4 * qc"
  have e: "2001 + (3 + 4 * q + 100 * c + 400 * qc) = 4 * (q + 1) + 100 * ?z"
    by simp
  have "\<not> 100 dvd 4 * (q + 1)"
    using True assms by (auto dest: zdvd_imp_le)
  then have "\<not> 100 dvd 4 * (q + 1) + 100 * ?z"
    by (subst dvd_add_left_iff) simp_all
  moreover have "4 dvd 4 * (q + 1) + 100 * ?z"
    by (intro dvd_add dvd_mult2) simp_all
  ultimately show ?thesis unfolding e leap_year_def by blast
next
  case False
  then have e: "2001 + (3 + 4 * q + 100 * c + 400 * qc) = 400 * (6 + qc)"
    using assms by simp
  have "4 dvd 400 * (6 + qc)" by (intro dvd_mult2) simp
  moreover have "400 dvd 400 * (6 + qc)" by (rule dvd_triv_left)
  ultimately show ?thesis unfolding e leap_year_def by blast
qed

text \<open>The date reached from month index j (March = 0) and day d within it.\<close>

lemma march_date:
  assumes y: "0 \<le> y" "y \<le> 3" "0 \<le> q" "q \<le> 24" "0 \<le> c" "c \<le> (3 :: int)"
    and j: "j < length days_in_month" and d: "0 \<le> d" "d < days_in_month ! j"
    and leap: "sum_list (take j days_in_month) + d = 365 \<Longrightarrow> y = 3 \<and> (q < 24 \<or> c = 3)"
    and Y: "Y = y + 4 * q + 100 * c + 400 * qc"
    and mon: "mon = (if 10 \<le> j then int j - 10 else int j + 2)"
    and year: "year = (if 10 \<le> j then 2001 + Y else 2000 + Y)"
  shows "valid_date year mon (d + 1) \<and>
    day_number year mon (d + 1) = 11017 + DAYS_PER_400Y * qc + DAYS_PER_100Y * c +
      DAYS_PER_4Y * q + 365 * y + sum_list (take j days_in_month) + d"
proof -
  have jan: "days_before_year (2001 + Y) =
      11323 + 365 * y + DAYS_PER_4Y * q + DAYS_PER_100Y * c + DAYS_PER_400Y * qc"
    unfolding Y by (rule days_before_march_year [OF y])
  have prev: "days_before_year (2000 + Y) + (if leap_year (2000 + Y) then 366 else 365) =
      days_before_year (2001 + Y)"
    using days_before_next [of "2000 + Y"] by simp
  have feb: "leap_year (2001 + Y) \<or> d \<le> 27" if "j = 11"
  proof (cases "d = 28")
    case True
    then show ?thesis
      using leap that leap_march_year [of q c qc] y by (auto simp: days_in_month_def Y)
  next
    case False
    then show ?thesis using d that by (simp add: days_in_month_def)
  qed
  have "j \<in> {0, 1, 2, 3, 4, 5, 6, 7, 8, 9, 10, 11}"
    using j by (intro less_12) (simp add: days_in_month_def)
  then show ?thesis
    using d jan prev feb unfolding mon year
    by (auto simp: valid_date_def day_number_def month_lengths_def days_in_month_def
        split: if_splits)
qed

lemma secondsToTm_cases:
  assumes range: "\<not> (t < INT_MIN * 31622400 \<or> t > INT_MAX * 31622400)"
  obtains years x where "valid_tm x" "tm_seconds x = t"
    "tm_year x = years + 100 \<or> tm_year x = years + 101"
    "146097 * years \<le> 400 * ((t - LEAPOCH) div 86400) + 146097"
    "400 * ((t - LEAPOCH) div 86400) \<le> 146097 * years + 400 * 366"
    "secondsToTm t = (if years > INT_MAX - 100 \<or> years < INT_MIN + 100 then Ok None else Ok (Some x))"
proof -
  define days where "days = (t - LEAPOCH) div 86400"
  define remsecs where "remsecs = (t - LEAPOCH) mod 86400"
  define qc where "qc = days div DAYS_PER_400Y"
  define rem where "rem = days mod DAYS_PER_400Y"
  define c where "c = (if rem div DAYS_PER_100Y = 4 then 3 else rem div DAYS_PER_100Y)"
  define r2 where "r2 = rem - c * DAYS_PER_100Y"
  define q where "q = (if r2 div DAYS_PER_4Y = 25 then 24 else r2 div DAYS_PER_4Y)"
  define r3 where "r3 = r2 - q * DAYS_PER_4Y"
  define y where "y = (if r3 div 365 = 4 then 3 else r3 div 365)"
  define r4 where "r4 = r3 - y * 365"
  have rem: "0 \<le> rem" "rem < DAYS_PER_400Y" by (simp_all add: rem_def)
  note cyc = year_cycles [OF rem c_def r2_def q_def r3_def y_def r4_def]
  have secs: "0 \<le> remsecs" "remsecs < 86400" by (simp_all add: remsecs_def)
  have d1: "rem sdiv DAYS_PER_100Y = rem div DAYS_PER_100Y" using rem by (simp add: c_div_nonneg)
  have d2: "r2 sdiv DAYS_PER_4Y = r2 div DAYS_PER_4Y" using cyc by (simp add: c_div_nonneg)
  have d3: "r3 sdiv 365 = r3 div 365" using cyc by (simp add: c_div_nonneg)
  have c1: "(if rem div DAYS_PER_100Y = 4 then rem div DAYS_PER_100Y - 1 else rem div DAYS_PER_100Y) = c"
    and q1: "(if r2 div DAYS_PER_4Y = 25 then r2 div DAYS_PER_4Y - 1 else r2 div DAYS_PER_4Y) = q"
    and y1: "(if r3 div 365 = 4 then r3 div 365 - 1 else r3 div 365) = y"
    by (simp_all add: c_def q_def y_def)
  obtain j where j: "j < length days_in_month"
    "month_loop days_in_month 0 r4 = Ok (int j, r4 - sum_list (take j days_in_month))"
    "0 \<le> r4 - sum_list (take j days_in_month)"
    "r4 - sum_list (take j days_in_month) < days_in_month ! j"
    using month_loop_Ok [of r4 days_in_month 0] cyc by (auto simp: days_in_month_def)
  define d where "d = r4 - sum_list (take j days_in_month)"
  define years where "years = y + 4 * q + 100 * c + 400 * qc"
  define mon where "mon = (if 10 \<le> j then int j - 10 else int j + 2)"
  define year where "year = (if 10 \<le> j then years + 101 else years + 100)"
  define wday where "wday = (if (3 + days) smod 7 < 0 then (3 + days) smod 7 + 7 else (3 + days) smod 7)"
  define leap :: int where "leap = (if y = 0 \<and> (q \<noteq> 0 \<or> c = 0) then 1 else 0)"
  define yday where "yday = (if 365 + leap \<le> r4 + 31 + 28 + leap
    then r4 + 31 + 28 + leap - (365 + leap) else r4 + 31 + 28 + leap)"
  define x where "x = \<lparr> tm_sec = remsecs smod 60, tm_min = (remsecs sdiv 60) smod 60,
    tm_hour = remsecs sdiv 3600, tm_mday = d + 1, tm_mon = mon, tm_year = year,
    tm_wday = wday, tm_yday = yday \<rparr>"
  have p: "0 < (86400 :: int)" "0 < DAYS_PER_400Y" by simp_all
  have m: "(if 12 \<le> int j + 2 then (int j + 2 - 12, years + 100 + 1) else (int j + 2, years + 100)) =
    (mon, year)"
    by (simp add: mon_def year_def)
  have eq: "secondsToTm t = (if years > INT_MAX - 100 \<or> years < INT_MIN + 100 then Ok None else Ok (Some x))"
    unfolding secondsToTm_def if_not_P [OF range] Let_def c_div_mod [OF p(1)] prod.case
    unfolding days_def [symmetric] remsecs_def [symmetric]
    unfolding c_div_mod [OF p(2)] prod.case
    unfolding qc_def [symmetric] rem_def [symmetric]
    unfolding d1 c1 unfolding r2_def [symmetric] unfolding d2 q1 unfolding r3_def [symmetric]
    unfolding d3 y1 unfolding r4_def [symmetric] years_def [symmetric] j(2) rbind.simps prod.case
      d_def [symmetric] leap_def [symmetric]
    unfolding m yday_def [symmetric] wday_def [symmetric] prod.case x_def [symmetric] ..
  have date: "valid_date (year + 1900) mon (d + 1) \<and>
    day_number (year + 1900) mon (d + 1) = 11017 + DAYS_PER_400Y * qc + DAYS_PER_100Y * c +
      DAYS_PER_4Y * q + 365 * y + sum_list (take j days_in_month) + d"
  proof (rule march_date [OF cyc(7,8,5,6,3,4) j(1) _ _ _ years_def])
    show "0 \<le> d" "d < days_in_month ! j" using j by (simp_all add: d_def)
    show "sum_list (take j days_in_month) + d = 365 \<Longrightarrow> y = 3 \<and> (q < 24 \<or> c = 3)"
      using cyc(11) by (simp add: d_def)
  qed (simp_all add: mon_def year_def)
  have days: "days = DAYS_PER_400Y * qc + DAYS_PER_100Y * c + DAYS_PER_4Y * q + 365 * y + r4"
    by (simp add: r4_def r3_def r2_def) (simp add: qc_def rem_def)
  have t: "t = (days + 11017) * 86400 + remsecs"
    unfolding days_def remsecs_def using div_mult_mod_eq [of "t - LEAPOCH" 86400] by simp
  have hms: "tm_hour x = remsecs div 3600" "tm_min x = remsecs div 60 mod 60" "tm_sec x = remsecs mod 60"
    using secs by (simp_all add: x_def c_div_nonneg)
  have sum: "remsecs div 3600 * 3600 + remsecs div 60 mod 60 * 60 + remsecs mod 60 = remsecs"
  proof -
    have "remsecs div 3600 = remsecs div 60 div 60"
      by (simp add: zdiv_zmult2_eq [symmetric])
    moreover have "remsecs div 60 * 60 + remsecs mod 60 = remsecs" by (rule div_mult_mod_eq)
    moreover have "remsecs div 60 div 60 * 60 + remsecs div 60 mod 60 = remsecs div 60"
      by (rule div_mult_mod_eq)
    ultimately show ?thesis by linarith
  qed
  have hour: "0 \<le> remsecs div 3600 \<and> remsecs div 3600 < 24"
    using secs div_mult_mod_eq [of remsecs 3600] pos_mod_bound [of 3600 remsecs]
      pos_mod_sign [of 3600 remsecs] by linarith
  have wd: "0 \<le> wday \<and> wday < 7"
    unfolding wday_def by (auto simp: signed_modulo_int_def sgn_if)
  have "valid_tm x"
    using date hour wd unfolding valid_tm_def hms by (simp add: x_def)
  moreover have "tm_seconds x = t"
    unfolding tm_seconds_def hms t using date sum by (simp add: x_def days d_def)
  moreover have "tm_year x = years + 100 \<or> tm_year x = years + 101"
    by (simp add: x_def year_def)
  moreover have "146097 * years \<le> 400 * days + 146097" "400 * days \<le> 146097 * years + 400 * 366"
    using cyc unfolding days years_def by simp_all
  ultimately show thesis using eq unfolding days_def by (rule that)
qed

text \<open>Every second count that a 64-bit millisecond stamp can hold.\<close>

lemma secondsToTm_Ok:
  assumes "0 \<le> t" "t \<le> 18446744073709551"
  obtains x where "secondsToTm t = Ok (Some x)" "valid_tm x" "tm_seconds x = t"
    "0 < tm_year x" "tm_year x < 584554200"
proof -
  have r: "\<not> (t < INT_MIN * 31622400 \<or> t > INT_MAX * 31622400)" using assms by simp
  obtain years x where x: "valid_tm x" "tm_seconds x = t"
    "tm_year x = years + 100 \<or> tm_year x = years + 101"
    "146097 * years \<le> 400 * ((t - LEAPOCH) div 86400) + 146097"
    "400 * ((t - LEAPOCH) div 86400) \<le> 146097 * years + 400 * 366"
    "secondsToTm t = (if years > INT_MAX - 100 \<or> years < INT_MIN + 100 then Ok None else Ok (Some x))"
    by (rule secondsToTm_cases [OF r])
  have lo: "- 11017 \<le> (t - LEAPOCH) div 86400"
    using zdiv_mono1 [of "- LEAPOCH" "t - LEAPOCH" 86400] assms by simp
  have hi: "(t - LEAPOCH) div 86400 \<le> 213503971317"
    using zdiv_mono1 [of "t - LEAPOCH" "18446744073709551 - LEAPOCH" 86400] assms by simp
  have "- 32 < years" "years < 584554050"
    using x(4,5) lo hi by linarith+
  then show thesis using that [of x] x by auto
qed

lemma secondsToTm_total: "rwp (secondsToTm t) (\<lambda>r. \<forall>x. r = Some x \<longrightarrow> valid_tm x \<and> tm_seconds x = t)
    (\<lambda>_. False)"
proof (cases "t < INT_MIN * 31622400 \<or> t > INT_MAX * 31622400")
  case True
  then show ?thesis unfolding secondsToTm_def if_P [OF True] by simp
next
  case False
  then show ?thesis by (rule secondsToTm_cases) simp
qed

subsection \<open>The text of a time stamp\<close>

definition two :: "int \<Rightarrow> bytes" where
  "two v = (if v < 10 then [48] else []) @ dec (nat v)"

definition time_text :: "tm \<Rightarrow> bytes" where
  "time_text x = dec (nat (tm_year x + 1900)) @ 45 # two (tm_mon x + 1) @ 45 # two (tm_mday x) @
     32 # two (tm_hour x) @ 58 # two (tm_min x) @ 58 # two (tm_sec x)"

definition three :: "nat \<Rightarrow> bytes" where
  "three m = [digit (m div 100), digit (m div 10 mod 10), digit (m mod 10)]"

lemma put_field_Ok:
  assumes "formats_numbers E" "0 \<le> v" "v < 2 ^ 64" "length (two v) \<le> length rest" "k = length pre"
  shows "put_field E (pre @ rest) k v =
    Ok ((pre @ two v) @ drop (length (two v)) rest, k + length (two v))"
proof -
  have u: "unat (word_of_int v :: u64) = nat v"
    using assms by (simp add: unsigned_of_int take_bit_int_eq_self)
  define z where "z = (if v < 10 then [48] else [] :: bytes)"
  have two: "two v = z @ dec (nat v)" by (simp add: two_def z_def)
  have p: "at_offset (pre @ rest) k (\<lambda>d. prefixWithZero d v) =
      Ok ((pre @ z) @ drop (length z) rest, length z)"
    using assms by (cases rest) (auto simp: at_offset_def prefixWithZero_def z_def two put_def)
  have n: "at_offset ((pre @ z) @ drop (length z) rest) (k + length z)
      (\<lambda>d. number_to_text E d (word_of_int v)) =
      Ok ((pre @ z) @ dec (nat v) @ drop (length (dec (nat v))) (drop (length z) rest),
          length (dec (nat v)))"
    using number_at_offset [OF assms(1), of "word_of_int v" "drop (length z) rest" "k + length z" "pre @ z"]
      assms two by (simp add: u)
  show ?thesis
    unfolding put_field_def p rbind.simps prod.case Let_def n by (simp add: two ac_simps)
qed

lemma put_separator_Ok:
  "1 \<le> length rest \<Longrightarrow> k = length pre \<Longrightarrow>
   put_separator (pre @ rest) k c = Ok ((pre @ [c]) @ drop 1 rest, k + 1)"
  by (cases rest) (simp_all add: put_separator_def put_def)

lemma two_inj:
  assumes "0 \<le> v" "0 \<le> w" "two v = two w"
  shows "v = w"
proof -
  have "undec (48 # s) = undec s" for s
    by (simp add: undec_def)
  then have "undec (two u) = nat u" for u by (simp add: two_def)
  then show ?thesis using assms by (metis eq_nat_nat_iff)
qed

lemma length_two: "0 \<le> v \<Longrightarrow> v < 100 \<Longrightarrow> length (two v) = 2"
proof (cases "v < 10")
  case False
  moreover assume "0 \<le> v" "v < 100"
  ultimately have "\<not> v < 10" "nat v < 10 ^ 2" "10 ^ 1 \<le> nat v" by simp_all
  then show ?thesis
    using length_dec_le [of "nat v" 2] length_dec_ge [of 1 "nat v"] by (simp add: two_def)
qed (simp add: two_def dec_single)

lemma two_digits: "b \<in> set (two v) \<Longrightarrow> is_digit b"
  by (auto simp: two_def is_digit_def dest: dec_digits split: if_splits)

lemma three_digits: "m < 1000 \<Longrightarrow> b \<in> set (three m) \<Longrightarrow> is_digit b"
  by (auto simp: three_def)

lemma three_inj: "m < 1000 \<Longrightarrow> n < 1000 \<Longrightarrow> three m = three n \<Longrightarrow> m = n"
proof -
  assume m: "m < 1000" and n: "n < 1000" and eq: "three m = three n"
  have digit_inj: "digit a = digit b \<Longrightarrow> a < 10 \<Longrightarrow> b < 10 \<Longrightarrow> a = b" for a b
    by (metis unat_digit add_left_cancel)
  have "digit (m div 100) = digit (n div 100)" "digit (m div 10 mod 10) = digit (n div 10 mod 10)"
    "digit (m mod 10) = digit (n mod 10)"
    using eq by (simp_all only: three_def list.inject)
  moreover have "m div 100 < 10" "n div 100 < 10" using m n by simp_all
  ultimately have "m div 100 = n div 100" "m div 10 mod 10 = n div 10 mod 10" "m mod 10 = n mod 10"
    by (blast intro: digit_inj mod_less_divisor zero_less_numeral)+
  moreover have "k div 100 = k div 10 div 10" for k :: nat
    by (simp add: div_mult2_eq [symmetric])
  ultimately have d: "m div 10 div 10 = n div 10 div 10" "m div 10 mod 10 = n div 10 mod 10"
    "m mod 10 = n mod 10" by simp_all
  then have "m div 10 = n div 10" by (metis div_mult_mod_eq)
  with d(3) show ?thesis by (metis div_mult_mod_eq)
qed

lemma valid_tm_ranges:
  assumes "valid_tm x"
  shows "0 \<le> tm_mon x" "tm_mon x \<le> 11" "1 \<le> tm_mday x" "tm_mday x \<le> 31"
    "0 \<le> tm_hour x" "tm_hour x < 24" "0 \<le> tm_min x" "tm_min x < 60" "0 \<le> tm_sec x" "tm_sec x < 60"
proof -
  have m: "0 \<le> tm_mon x" "tm_mon x \<le> 11" using assms by (simp_all add: valid_tm_def valid_date_def)
  have "nat (tm_mon x) \<in> {0, 1, 2, 3, 4, 5, 6, 7, 8, 9, 10, 11}"
    using m by (intro less_12) simp
  then have "month_lengths (tm_year x + 1900) ! nat (tm_mon x) \<le> 31"
    by (auto simp: month_lengths_def)
  then show "0 \<le> tm_mon x" "tm_mon x \<le> 11" "1 \<le> tm_mday x" "tm_mday x \<le> 31"
    "0 \<le> tm_hour x" "tm_hour x < 24" "0 \<le> tm_min x" "tm_min x < 60" "0 \<le> tm_sec x" "tm_sec x < 60"
    using assms m by (auto simp: valid_tm_def valid_date_def)
qed

lemma length_time_text:
  assumes "valid_tm x"
  shows "length (time_text x) = length (dec (nat (tm_year x + 1900))) + 15"
  using valid_tm_ranges [OF assms] by (simp add: time_text_def length_two)

lemma timeToDisplayText_Ok:
  assumes "formats_numbers E" "valid_tm x" "0 < tm_year x" "tm_year x < 2 ^ 31"
    "length (time_text x) < length dst"
  shows "timeToDisplayText E x dst =
    Ok (time_text x @ 0 # drop (length (time_text x) + 1) dst, length (time_text x) + 1)"
proof -
  let ?Y = "dec (nat (tm_year x + 1900))"
  note rg = valid_tm_ranges [OF assms(2)]
  have u: "unat (word_of_int v :: u64) = nat v" if "0 \<le> v" "v < 2 ^ 64" for v
    using that by (simp add: unsigned_of_int take_bit_int_eq_self)
  have ly: "0 < length ?Y" by simp
  have len: "length dst \<ge> length ?Y + 16"
    using assms by (simp add: length_time_text)
  have l20: "4 \<le> length ?Y"
    using length_dec_ge [of 3 "nat (tm_year x + 1900)"] assms(3) by (simp add: le_nat_iff)
  have y: "number_to_text E dst (word_of_int (tm_year x + 1900)) =
      Ok (?Y @ drop (length ?Y) dst, length ?Y)"
  proof -
    have "20 \<le> length dst" using l20 len by simp
    moreover have "unat (word_of_int (tm_year x + 1900) :: u64) = nat (tm_year x + 1900)"
      using assms(3,4) by (intro u) simp_all
    ultimately show ?thesis
      using digits_Ok [OF assms(1), of dst "word_of_int (tm_year x + 1900)"]
      unfolding number_to_text_def by metis
  qed
  let ?n = "length ?Y"
  have sep: "put_separator (pre @ drop k dst) k c = Ok ((pre @ [c]) @ drop k' dst, k')"
    if "length pre = k" "k < ?n + 16" "k' = k + 1" for pre k k' c
  proof -
    have "1 \<le> length (drop k dst)" using that(2) len by simp
    from put_separator_Ok [OF this that(1) [symmetric], of c] that(3) show ?thesis by simp
  qed
  have fld: "put_field E (pre @ drop k dst) k v = Ok ((pre @ two v) @ drop k' dst, k')"
    if "length pre = k" "k + 1 < ?n + 16" "0 \<le> v" "v < 60" "k' = k + 2" for pre k k' v
  proof -
    have l: "length (two v) = 2" using that(3,4) by (intro length_two) simp_all
    then have "length (two v) \<le> length (drop k dst)" "v < 2 ^ 64" using that(2,4) len by simp_all
    from put_field_Ok [OF assms(1) that(3) this(2) this(1) that(1) [symmetric]]
    show ?thesis unfolding l using that(5) by simp
  qed
  define p1 where "p1 = ?Y @ [45]"
  define p2 where "p2 = p1 @ two (tm_mon x + 1)"
  define p3 where "p3 = p2 @ [45]"
  define p4 where "p4 = p3 @ two (tm_mday x)"
  define p5 where "p5 = p4 @ [32]"
  define p6 where "p6 = p5 @ two (tm_hour x)"
  define p7 where "p7 = p6 @ [58]"
  define p8 where "p8 = p7 @ two (tm_min x)"
  define p9 where "p9 = p8 @ [58]"
  have l2: "length (two (tm_mon x + 1)) = 2" "length (two (tm_mday x)) = 2"
    "length (two (tm_hour x)) = 2" "length (two (tm_min x)) = 2" "length (two (tm_sec x)) = 2"
    using rg by (intro length_two; linarith)+
  have lens: "length p1 = ?n + 1" "length p2 = ?n + 3" "length p3 = ?n + 4" "length p4 = ?n + 6"
    "length p5 = ?n + 7" "length p6 = ?n + 9" "length p7 = ?n + 10" "length p8 = ?n + 12"
    "length p9 = ?n + 13"
    by (simp_all add: p1_def p2_def p3_def p4_def p5_def p6_def p7_def p8_def p9_def l2)
  have whole: "time_text x = p9 @ two (tm_sec x)"
    by (simp add: time_text_def p1_def p2_def p3_def p4_def p5_def p6_def p7_def p8_def p9_def)
  define z where "z = (if tm_sec x < 10 then [48] else [] :: bytes)"
  have ts: "two (tm_sec x) = z @ dec (nat (tm_sec x))" by (simp add: two_def z_def)
  have lz: "length z + length (dec (nat (tm_sec x))) = 2"
    using l2(5) ts by simp
  have s1: "at_offset (p9 @ drop (?n + 13) dst) (?n + 13) (\<lambda>d. prefixWithZero d (tm_sec x)) =
      Ok ((p9 @ z) @ drop (?n + 13 + length z) dst, length z)"
  proof -
    obtain r rs where r: "drop (?n + 13) dst = r # rs" using len by (cases "drop (?n + 13) dst") auto
    then have "rs = drop (?n + 13 + 1) dst" using drop_drop [of 1 "?n + 13" dst] by simp
    then show ?thesis
      using lens(9) r by (auto simp: at_offset_def prefixWithZero_def z_def put_def)
  qed
  have us: "unat (word_of_int (tm_sec x) :: u64) = nat (tm_sec x)" using rg by (intro u) simp_all
  have s2: "at_offset ((p9 @ z) @ drop (?n + 13 + length z) dst) (?n + 13 + length z)
      (\<lambda>d. bin_to_dec E d (word_of_int (tm_sec x))) =
      Ok (((p9 @ z) @ dec (nat (tm_sec x))) @ 0 # drop (?n + 16) dst, length (dec (nat (tm_sec x))) + 1)"
  proof -
    let ?s = "dec (nat (tm_sec x))"
    have a: "length (dec (unat (word_of_int (tm_sec x) :: u64))) < length (drop (?n + 13 + length z) dst)"
      unfolding us using len lz by simp
    have b: "?n + 13 + length z = length (p9 @ z)" using lens(9) by simp
    have d: "drop (length ?s + 1) (drop (?n + 13 + length z) dst) = drop (?n + 16) dst"
      unfolding drop_drop using lz by (intro arg_cong2 [of _ _ _ _ drop]) simp_all
    show ?thesis
      using decimal_at_offset [OF assms(1) a b] unfolding us d by (simp only: append_assoc)
  qed
  have c: "\<not> tm_year x \<le> 0" "\<not> length dst < 20" using assms(3) l20 len by simp_all
  have st1: "put_separator (?Y @ drop ?n dst) ?n 45 = Ok (p1 @ drop (?n + 1) dst, ?n + 1)"
    unfolding p1_def by (rule sep) (simp_all add: lens)
  have st2: "put_field E (p1 @ drop (?n + 1) dst) (?n + 1) (tm_mon x + 1) =
      Ok (p2 @ drop (?n + 3) dst, ?n + 3)"
    unfolding p2_def by (rule fld) (use lens rg in simp_all)
  have st3: "put_separator (p2 @ drop (?n + 3) dst) (?n + 3) 45 = Ok (p3 @ drop (?n + 4) dst, ?n + 4)"
    unfolding p3_def by (rule sep) (simp_all add: lens)
  have st4: "put_field E (p3 @ drop (?n + 4) dst) (?n + 4) (tm_mday x) =
      Ok (p4 @ drop (?n + 6) dst, ?n + 6)"
    unfolding p4_def by (rule fld) (use lens rg in simp_all)
  have st5: "put_separator (p4 @ drop (?n + 6) dst) (?n + 6) 32 = Ok (p5 @ drop (?n + 7) dst, ?n + 7)"
    unfolding p5_def by (rule sep) (simp_all add: lens)
  have st6: "put_field E (p5 @ drop (?n + 7) dst) (?n + 7) (tm_hour x) =
      Ok (p6 @ drop (?n + 9) dst, ?n + 9)"
    unfolding p6_def by (rule fld) (use lens rg in simp_all)
  have st7: "put_separator (p6 @ drop (?n + 9) dst) (?n + 9) 58 = Ok (p7 @ drop (?n + 10) dst, ?n + 10)"
    unfolding p7_def by (rule sep) (simp_all add: lens)
  have st8: "put_field E (p7 @ drop (?n + 10) dst) (?n + 10) (tm_min x) =
      Ok (p8 @ drop (?n + 12) dst, ?n + 12)"
    unfolding p8_def by (rule fld) (use lens rg in simp_all)
  have st9: "put_separator (p8 @ drop (?n + 12) dst) (?n + 12) 58 = Ok (p9 @ drop (?n + 13) dst, ?n + 13)"
    unfolding p9_def by (rule sep) (simp_all add: lens)
  note steps = st1 st2 st3 st4 st5 st6 st7 st8 st9
  have total: "?n + 13 + length z + (length (dec (nat (tm_sec x))) + 1) = ?n + 16" using lz by simp
  show ?thesis
    unfolding timeToDisplayText_def if_not_P [OF c(1)] if_not_P [OF c(2)] y rbind.simps prod.case
      steps s1 Let_def s2 total whole ts
    using lens(9) lz by (simp add: ac_simps)
qed

lemma time_text_inj:
  assumes "valid_tm x" "valid_tm y" "0 < tm_year x" "0 < tm_year y" "time_text x = time_text y"
  shows "tm_seconds x = tm_seconds y"
proof -
  note rx = valid_tm_ranges [OF assms(1)] and ry = valid_tm_ranges [OF assms(2)]
  have no: "c \<notin> set (dec n)" "c \<notin> set (two v)" if "\<not> is_digit c" for c n v
    using that dec_digits two_digits by blast+
  have nd: "\<not> is_digit 45" "\<not> is_digit 32" "\<not> is_digit 58"
    by (simp_all add: is_digit_def)
  note s = sep_append_inj [OF _ no(1) no(1), of _ 45] sep_append_inj [OF _ no(2) no(2)]
  from assms(5) [unfolded time_text_def]
  have y: "dec (nat (tm_year x + 1900)) = dec (nat (tm_year y + 1900))" and
    1: "two (tm_mon x + 1) @ 45 # two (tm_mday x) @ 32 # two (tm_hour x) @ 58 # two (tm_min x) @ 58 # two (tm_sec x) =
     two (tm_mon y + 1) @ 45 # two (tm_mday y) @ 32 # two (tm_hour y) @ 58 # two (tm_min y) @ 58 # two (tm_sec y)"
    using sep_append_inj [OF _ no(1) [OF nd(1)] no(1) [OF nd(1)]] by blast+
  from 1 have mon: "two (tm_mon x + 1) = two (tm_mon y + 1)" and
    2: "two (tm_mday x) @ 32 # two (tm_hour x) @ 58 # two (tm_min x) @ 58 # two (tm_sec x) =
     two (tm_mday y) @ 32 # two (tm_hour y) @ 58 # two (tm_min y) @ 58 # two (tm_sec y)"
    using sep_append_inj [OF _ no(2) [OF nd(1)] no(2) [OF nd(1)]] by blast+
  from 2 have day: "two (tm_mday x) = two (tm_mday y)" and
    3: "two (tm_hour x) @ 58 # two (tm_min x) @ 58 # two (tm_sec x) =
     two (tm_hour y) @ 58 # two (tm_min y) @ 58 # two (tm_sec y)"
    using sep_append_inj [OF _ no(2) [OF nd(2)] no(2) [OF nd(2)]] by blast+
  from 3 have hour: "two (tm_hour x) = two (tm_hour y)" and
    4: "two (tm_min x) @ 58 # two (tm_sec x) = two (tm_min y) @ 58 # two (tm_sec y)"
    using sep_append_inj [OF _ no(2) [OF nd(3)] no(2) [OF nd(3)]] by blast+
  from 4 have min: "two (tm_min x) = two (tm_min y)" and sec: "two (tm_sec x) = two (tm_sec y)"
    using sep_append_inj [OF _ no(2) [OF nd(3)] no(2) [OF nd(3)]] by blast+
  have "tm_year x = tm_year y" using y assms(3,4) by simp
  moreover have "tm_mon x + 1 = tm_mon y + 1" by (rule two_inj [OF _ _ mon]) (use rx ry in simp_all)
  moreover have "tm_mday x = tm_mday y" by (rule two_inj [OF _ _ day]) (use rx ry in simp_all)
  moreover have "tm_hour x = tm_hour y" by (rule two_inj [OF _ _ hour]) (use rx ry in simp_all)
  moreover have "tm_min x = tm_min y" by (rule two_inj [OF _ _ min]) (use rx ry in simp_all)
  moreover have "tm_sec x = tm_sec y" by (rule two_inj [OF _ _ sec]) (use rx ry in simp_all)
  ultimately show ?thesis by (simp add: tm_seconds_def)
qed

lemma zero_notin_time_text [simp]: "0 \<notin> set (time_text x)"
  by (auto simp: time_text_def dest: two_digits)

lemma millisecond_digits:
  assumes "m < 1000"
  shows "[ucast (48 + m div 100), ucast (48 + (m div 10) mod 10), ucast (48 + m mod 10)] =
    three (unat (m :: u16))"
proof -
  have m: "unat m < 1000" using assms by (simp add: word_less_nat_alt)
  have "ucast w = digit d" if "unat w = 48 + d" "d < 10" for w :: u16 and d
    using that by (simp add: word_unat_eq_iff unsigned_ucast_eq take_bit_nat_eq_self)
  moreover have "unat (48 + k) = 48 + unat k" if "unat k < 10" for k :: u16
    using that by (simp add: unat_word_ariths)
  moreover have "unat (m div 100) = unat m div 100" "unat (m div 10 mod 10) = unat m div 10 mod 10"
    "unat (m mod 10) = unat m mod 10"
    by (simp_all add: unat_div unat_mod)
  ultimately show ?thesis using m by (simp add: three_def)
qed

lemma appendMilliseconds_Ok:
  assumes "0 \<notin> set t" "m < 1000" "4 \<le> length rest"
  shows "appendMilliseconds (t @ 0 # rest) m =
    Ok (t @ 46 # three (unat m) @ 0 # drop 4 rest)"
proof -
  have tw: "takeWhile (\<lambda>b. b \<noteq> 0) (t @ 0 # rest) = t"
    using assms(1) by (induction t) auto
  have "\<not> 999 < m" using assms(2) by (simp add: word_less_nat_alt not_less)
  then show ?thesis
    using assms(3) millisecond_digits [OF assms(2)]
    by (simp add: appendMilliseconds_def tw put_def three_def)
qed

lemma appendMilliseconds_wp:
  "rwp (appendMilliseconds dst m) (\<lambda>dst'. length dst' = length dst)
    (\<lambda>e. e = ERROR_INVALID_TRANSACTION \<or> e = ERROR_BUFFER_OVERFLOW)"
  using length_takeWhile_le [of "\<lambda>b. b \<noteq> 0" dst]
  by (auto simp: appendMilliseconds_def Let_def)

subsection \<open>Properties\<close>

text \<open>C34: The calendar conversion is total on every time a 64-bit millisecond stamp can hold, and
  its date and time of day are the proleptic Gregorian ones of that second.\<close>

theorem secondsToTm_correct:
  assumes "0 \<le> t" "t \<le> 18446744073709551"
  shows "\<exists>x. secondsToTm t = Ok (Some x) \<and> valid_tm x \<and> tm_seconds x = t \<and> 0 < tm_year x"
  by (rule secondsToTm_Ok [OF assms]) blast

lemma secondsToTm_correct_witness:
  "\<exists>x. secondsToTm 951782400 = Ok (Some x) \<and> valid_tm x \<and> tm_seconds x = 951782400 \<and> 0 < tm_year x"
  by (rule secondsToTm_correct) simp_all

end
