(* ===== verification/Context.thy ===== *)
theory Context
  imports Calendar
begin

text \<open>
  The instruction-scoped state of src/src/instruction_context.h and the state of
  src/src/helpers/tx_state.h.

  Each context struct of the header is a record with the struct's members; display buffers are
  byte lists of the declared size.  The union \<open>global\<close> is a record with one component per member:
  an instruction uses one member only, and the union is zeroed as a whole
  (\<open>wiped\<close> is the value of \<open>explicit_bzero(&global, sizeof(global))\<close>).  A state enum gets one
  more constructor, for the value 0 it holds after that.  A hash context is None while it is
  zeroed, and otherwise the bytes it has absorbed since its initialisation.  Members that no
  function of the program reads (the display buffer of the data registration, the module
  reference of the contract update) are left out.
\<close>

type_synonym hash_ctx = "bytes option"

subsection \<open>Transfers, data registration and CBOR blobs\<close>

datatype simpleTransferState =
    SIMPLE_TRANSFER_ZERO
  | TX_TRANSFER_INITIAL
  | TX_TRANSFER_MEMO_INITIAL
  | TX_TRANSFER_MEMO
  | TX_TRANSFER_AMOUNT

record signTransferContext =
  tr_displayStr :: bytes
  tr_displayAmount :: bytes
  tr_fee_display_str :: bytes
  tr_has_fee_display :: bool
  tr_state :: simpleTransferState

datatype registerDataState =
    REGISTER_DATA_ZERO
  | TX_REGISTER_DATA_INITIAL
  | TX_REGISTER_DATA_PAYLOAD_START
  | TX_REGISTER_DATA_PAYLOAD

record signRegisterData =
  rd_dataLength :: nat
  rd_state :: registerDataState

record cborContext =
  cb_cborLength :: nat
  cb_cborBuf :: bytes
  cb_cborBufLen :: nat
  cb_displayLen :: nat
  cb_display :: bytes
  cb_typeLabel :: bytes

datatype transferWithScheduleState =
    SCHEDULE_ZERO
  | TX_TRANSFER_WITH_SCHEDULE_INITIAL
  | TX_TRANSFER_WITH_SCHEDULE_AWAITING_INITIAL_CONFIRM
  | TX_TRANSFER_WITH_SCHEDULE_TRANSFER_PAIRS
  | TX_TRANSFER_WITH_SCHEDULE_MEMO_START
  | TX_TRANSFER_WITH_SCHEDULE_MEMO

record signTransferWithScheduleContext =
  sc_transactionType :: u8
  sc_state :: transferWithScheduleState
  sc_displayStr :: bytes
  sc_remainingNumberOfScheduledAmounts :: nat
  sc_scheduledAmountsInCurrentPacket :: nat
  sc_displayAmount :: bytes
  sc_fee_display_str :: bytes
  sc_has_fee_display :: bool
  sc_displayTimestamp :: bytes
  sc_time :: tm
  sc_buffer :: bytes
  sc_pos :: nat

record transactionWithDataBlob =
  signTransferContext :: signTransferContext
  signTransferWithScheduleContext :: signTransferWithScheduleContext
  signRegisterData :: signRegisterData
  cborContext :: cborContext

subsection \<open>Smart contracts\<close>

record deployModule =
  dm_version :: u32
  dm_sourceLength :: nat
  dm_remainingSourceLength :: nat
  dm_sourceHash :: bytes
  dm_sourceHashDisplay :: bytes
  dm_versionDisplay :: bytes
  dm_sourceHashCtx :: hash_ctx

text \<open>\<open>initContractState_t\<close> and \<open>updateContractState_t\<close> have the same values.\<close>

datatype contractState =
    CONTRACT_ZERO
  | CONTRACT_INITIAL
  | CONTRACT_NAME_FIRST
  | CONTRACT_NAME_NEXT
  | CONTRACT_PARAMS_FIRST
  | CONTRACT_PARAMS_NEXT
  | CONTRACT_END

text \<open>\<open>initContract_t\<close> and \<open>updateContract_t\<close> end in the same members; they are a record of their
  own, since the two handlers treat the name and the parameters alike.\<close>

record contractInput =
  ci_nameLength :: nat
  ci_remainingNameLength :: nat
  ci_paramsLength :: nat
  ci_remainingParamsLength :: nat
  ci_nameDisplay :: bytes
  ci_nameDisplayUsed :: nat
  ci_paramsHashDisplay :: bytes
  ci_paramsHashCtx :: hash_ctx
  ci_state :: contractState

record initContract =
  ic_amount :: u64
  ic_moduleRef :: bytes
  ic_amountDisplay :: bytes
  ic_moduleRefDisplay :: bytes
  ic_input :: contractInput

record updateContract =
  uc_amount :: u64
  uc_amountDisplay :: bytes
  uc_indexDisplay :: bytes
  uc_subIndexDisplay :: bytes
  uc_input :: contractInput

subsection \<open>Keys and addresses\<close>

record exportPublicKeyContext =
  pk_display :: bytes
  pk_publicKey :: bytes
  pk_signPublicKey :: bool

record exportPrivateKeyContext =
  ek_display_review_operation :: bytes
  ek_display_review_verb :: bytes
  ek_display_sign_verb :: bytes
  ek_display_credid_title :: bytes
  ek_display_credid :: bytes
  ek_display_sign :: bytes
  ek_display_detail_title :: bytes
  ek_display_detail :: bytes
  ek_display_key_types :: bytes
  ek_exportBoth :: bool
  ek_exportSeed :: bool
  ek_isNewPath :: bool
  ek_newPathPurpose :: u8
  ek_newPathNetwork :: u8
  ek_newPathIdentityProvider :: u32
  ek_newPathIdentity :: u32
  ek_newPathAccount :: u32
  ek_outputPrivateKeys :: bytes
  ek_privateKeysLength :: nat

subsection \<open>Unshielding and delegation\<close>

datatype transferToPublicState =
    TRANSFER_TO_PUBLIC_ZERO
  | TX_TRANSFER_TO_PUBLIC_INITIAL
  | TX_TRANSFER_TO_PUBLIC_REMAINING_AMOUNT
  | TX_TRANSFER_TO_PUBLIC_PROOF

record signTransferToPublic =
  tp_amount :: bytes
  tp_recipientAddress :: bytes
  tp_proofSize :: nat
  tp_state :: transferToPublicState

record signConfigureDelegationContext =
  dl_stopDelegation :: bool
  dl_displayCapital :: bytes
  dl_displayRestake :: bytes
  dl_displayDelegationTarget :: bytes
  dl_hasCapital :: bool
  dl_hasRestakeEarnings :: bool
  dl_hasDelegationTarget :: bool

subsection \<open>Validators\<close>

text \<open>The stage members of \<open>signConfigureBaker_t\<close> share a union; each stage writes its member before
  the screen that reads it, so they are separate records here.\<close>

datatype configureBakerState =
    CONFIGURE_BAKER_ZERO
  | CONFIGURE_BAKER_INITIAL
  | CONFIGURE_BAKER_FIRST
  | CONFIGURE_BAKER_AGGREGATION_KEY
  | CONFIGURE_BAKER_URL_LENGTH
  | CONFIGURE_BAKER_URL
  | CONFIGURE_BAKER_COMMISSION_RATES
  | CONFIGURE_BAKER_SUSPENDED
  | CONFIGURE_BAKER_END
  | CONFIGURE_BAKER_AWAITING_CONFIRM

record configureBakerCapitalRestakeOpenForDelegationBlob =
  bk_stopBaking :: bool
  bk_displayCapital :: bytes
  bk_displayRestake :: bytes
  bk_displayOpenForDelegation :: bytes

record configureBakerUrl =
  bk_urlLength :: nat
  bk_urlDisplay :: bytes

record configureBakerCommisionRates =
  bk_transactionFeeCommissionRate :: bytes
  bk_bakingRewardCommissionRate :: bytes
  bk_finalizationRewardCommissionRate :: bytes

record signConfigureBaker =
  bk_hasCapital :: bool
  bk_hasRestakeEarnings :: bool
  bk_hasOpenForDelegation :: bool
  bk_hasKeys :: bool
  bk_hasMetadataUrl :: bool
  bk_hasTransactionFeeCommission :: bool
  bk_hasBakingRewardCommission :: bool
  bk_hasFinalizationRewardCommission :: bool
  bk_hasSuspended :: bool
  bk_firstDisplay :: bool
  bk_capitalRestakeDelegation :: configureBakerCapitalRestakeOpenForDelegationBlob
  bk_url :: configureBakerUrl
  bk_commissionRates :: configureBakerCommisionRates
  bk_suspended :: bytes
  bk_keysHashDisplay :: bytes
  bk_keysHashCtx :: hash_ctx
  bk_state :: configureBakerState
  bk_pendingState :: configureBakerState

subsection \<open>Identities and credentials\<close>

datatype publicInfoForIpState =
    PUBLIC_INFO_FOR_IP_ZERO
  | TX_PUBLIC_INFO_FOR_IP_INITIAL
  | TX_PUBLIC_INFO_FOR_IP_VERIFICATION_KEY
  | TX_PUBLIC_INFO_FOR_IP_THRESHOLD

record signPublicInformationForIp =
  pi_showIntro :: bool
  pi_publicKeysLength :: nat
  pi_publicKey :: bytes
  pi_threshold :: bytes
  pi_idCredPub :: bytes
  pi_credId :: bytes
  pi_keyType :: bytes
  pi_state :: publicInfoForIpState

datatype protocolState =
    CREDENTIAL_DEPLOYMENT_ZERO
  | TX_CREDENTIAL_DEPLOYMENT_INITIAL
  | TX_CREDENTIAL_DEPLOYMENT_VERIFICATION_KEYS_LENGTH
  | TX_CREDENTIAL_DEPLOYMENT_VERIFICATION_KEY
  | TX_CREDENTIAL_DEPLOYMENT_SIGNATURE_THRESHOLD
  | TX_CREDENTIAL_DEPLOYMENT_AR_IDENTITY
  | TX_CREDENTIAL_DEPLOYMENT_CREDENTIAL_DATES
  | TX_CREDENTIAL_DEPLOYMENT_ATTRIBUTE_TAG
  | TX_CREDENTIAL_DEPLOYMENT_ATTRIBUTE_VALUE
  | TX_CREDENTIAL_DEPLOYMENT_LENGTH_OF_PROOFS
  | TX_CREDENTIAL_DEPLOYMENT_PROOFS
  | TX_CREDENTIAL_DEPLOYMENT_NEW_OR_EXISTING
  | TX_CREDENTIAL_DEPLOYMENT_AWAITING_VERIFICATION_KEY_CONFIRM

text \<open>\<open>TX_UPDATE_CREDENTIAL_INITIAL\<close> is 0, the value after a wipe.\<close>

datatype updateCredentialState =
    TX_UPDATE_CREDENTIAL_INITIAL
  | TX_UPDATE_CREDENTIAL_CREDENTIAL_INDEX
  | TX_UPDATE_CREDENTIAL_CREDENTIAL
  | TX_UPDATE_CREDENTIAL_ID_COUNT
  | TX_UPDATE_CREDENTIAL_ID
  | TX_UPDATE_CREDENTIAL_THRESHOLD

text \<open>The members type, validTo, createdAt and attributeHash, which no function uses, are left
  out.\<close>

record signCredentialDeploymentContext =
  cd_numberOfVerificationKeys :: nat
  cd_credentialDeploymentCount :: nat
  cd_credentialIdCount :: nat
  cd_credentialId :: bytes
  cd_threshold :: bytes
  cd_updateCredentialState :: updateCredentialState
  cd_accountVerificationKey :: bytes
  cd_signatureThreshold :: bytes
  cd_anonymityRevocationThreshold :: bytes
  cd_anonymityRevocationListLength :: nat
  cd_regIdCred :: bytes
  cd_identityProviderIndex :: bytes
  cd_arIdentity :: bytes
  cd_encIdCredPubShare :: bytes
  cd_arListHashDisplay :: bytes
  cd_arListHashCtx :: hash_ctx
  cd_attributeListLength :: nat
  cd_attributeValueLength :: nat
  cd_attributeName :: bytes
  cd_attributeValue :: bytes
  cd_proofLength :: nat
  cd_accountAddress :: bytes
  cd_state :: protocolState
  cd_showIntro :: bool

subsection \<open>The union\<close>

record instructionContext =
  exportPrivateKeyContext :: exportPrivateKeyContext
  exportPublicKeyContext :: exportPublicKeyContext
  signTransferToPublic :: signTransferToPublic
  signConfigureDelegation :: signConfigureDelegationContext
  signConfigureBaker :: signConfigureBaker
  signPublicInformationForIp :: signPublicInformationForIp
  signCredentialDeploymentContext :: signCredentialDeploymentContext
  deployModule :: deployModule
  initContract :: initContract
  updateContract :: updateContract
  withDataBlob :: transactionWithDataBlob

definition zero_tm :: tm where
  "zero_tm = \<lparr> tm_sec = 0, tm_min = 0, tm_hour = 0, tm_mday = 0, tm_mon = 0, tm_year = 0,
     tm_wday = 0, tm_yday = 0 \<rparr>"

definition wiped_transfer :: signTransferContext where
  "wiped_transfer = \<lparr> tr_displayStr = zeros 57, tr_displayAmount = zeros 30,
     tr_fee_display_str = zeros 30, tr_has_fee_display = False, tr_state = SIMPLE_TRANSFER_ZERO \<rparr>"

definition wiped_schedule :: signTransferWithScheduleContext where
  "wiped_schedule = \<lparr> sc_transactionType = 0, sc_state = SCHEDULE_ZERO, sc_displayStr = zeros 57,
     sc_remainingNumberOfScheduledAmounts = 0, sc_scheduledAmountsInCurrentPacket = 0,
     sc_displayAmount = zeros 30, sc_fee_display_str = zeros 30, sc_has_fee_display = False,
     sc_displayTimestamp = zeros 25, sc_time = zero_tm, sc_buffer = zeros 255, sc_pos = 0 \<rparr>"

definition wiped_cbor :: cborContext where
  "wiped_cbor = \<lparr> cb_cborLength = 0, cb_cborBuf = zeros 257, cb_cborBufLen = 0,
     cb_displayLen = 0, cb_display = zeros 256, cb_typeLabel = zeros 20 \<rparr>"

definition wiped_deploy :: deployModule where
  "wiped_deploy = \<lparr> dm_version = 0, dm_sourceLength = 0, dm_remainingSourceLength = 0,
     dm_sourceHash = zeros 32, dm_sourceHashDisplay = zeros 65, dm_versionDisplay = zeros 11,
     dm_sourceHashCtx = None \<rparr>"

definition wiped_input :: contractInput where
  "wiped_input = \<lparr> ci_nameLength = 0, ci_remainingNameLength = 0, ci_paramsLength = 0,
     ci_remainingParamsLength = 0, ci_nameDisplay = zeros 256, ci_nameDisplayUsed = 0,
     ci_paramsHashDisplay = zeros 65, ci_paramsHashCtx = None, ci_state = CONTRACT_ZERO \<rparr>"

definition wiped_init :: initContract where
  "wiped_init = \<lparr> ic_amount = 0, ic_moduleRef = zeros 32, ic_amountDisplay = zeros 30,
     ic_moduleRefDisplay = zeros 65, ic_input = wiped_input \<rparr>"

definition wiped_update :: updateContract where
  "wiped_update = \<lparr> uc_amount = 0, uc_amountDisplay = zeros 30, uc_indexDisplay = zeros 30,
     uc_subIndexDisplay = zeros 30, uc_input = wiped_input \<rparr>"

definition wiped_export :: exportPrivateKeyContext where
  "wiped_export = \<lparr> ek_display_review_operation = zeros 48, ek_display_review_verb = zeros 24,
     ek_display_sign_verb = zeros 26, ek_display_credid_title = zeros 15,
     ek_display_credid = zeros 22, ek_display_sign = zeros 48, ek_display_detail_title = zeros 16,
     ek_display_detail = zeros 24, ek_display_key_types = zeros 40, ek_exportBoth = False,
     ek_exportSeed = False, ek_isNewPath = False, ek_newPathPurpose = 0, ek_newPathNetwork = 0,
     ek_newPathIdentityProvider = 0, ek_newPathIdentity = 0, ek_newPathAccount = 0,
     ek_outputPrivateKeys = zeros 195, ek_privateKeysLength = 0 \<rparr>"

definition wiped_baker :: signConfigureBaker where
  "wiped_baker = \<lparr> bk_hasCapital = False, bk_hasRestakeEarnings = False,
     bk_hasOpenForDelegation = False, bk_hasKeys = False, bk_hasMetadataUrl = False,
     bk_hasTransactionFeeCommission = False, bk_hasBakingRewardCommission = False,
     bk_hasFinalizationRewardCommission = False, bk_hasSuspended = False, bk_firstDisplay = False,
     bk_capitalRestakeDelegation = \<lparr> bk_stopBaking = False, bk_displayCapital = zeros 30,
       bk_displayRestake = zeros 4, bk_displayOpenForDelegation = zeros 15 \<rparr>,
     bk_url = \<lparr> bk_urlLength = 0, bk_urlDisplay = zeros 256 \<rparr>,
     bk_commissionRates = \<lparr> bk_transactionFeeCommissionRate = zeros 8,
       bk_bakingRewardCommissionRate = zeros 8, bk_finalizationRewardCommissionRate = zeros 8 \<rparr>,
     bk_suspended = zeros 18, bk_keysHashDisplay = zeros 65, bk_keysHashCtx = None,
     bk_state = CONFIGURE_BAKER_ZERO, bk_pendingState = CONFIGURE_BAKER_ZERO \<rparr>"

definition wiped_public_info :: signPublicInformationForIp where
  "wiped_public_info = \<lparr> pi_showIntro = False, pi_publicKeysLength = 0, pi_publicKey = zeros 68,
     pi_threshold = zeros 4, pi_idCredPub = zeros 97, pi_credId = zeros 97, pi_keyType = zeros 3,
     pi_state = PUBLIC_INFO_FOR_IP_ZERO \<rparr>"

definition wiped_credential :: signCredentialDeploymentContext where
  "wiped_credential = \<lparr> cd_numberOfVerificationKeys = 0, cd_credentialDeploymentCount = 0,
     cd_credentialIdCount = 0, cd_credentialId = zeros 102, cd_threshold = zeros 4,
     cd_updateCredentialState = TX_UPDATE_CREDENTIAL_INITIAL,
     cd_accountVerificationKey = zeros 68, cd_signatureThreshold = zeros 4,
     cd_anonymityRevocationThreshold = zeros 17, cd_anonymityRevocationListLength = 0,
     cd_regIdCred = zeros 97, cd_identityProviderIndex = zeros 9, cd_arIdentity = zeros 9,
     cd_encIdCredPubShare = zeros 193, cd_arListHashDisplay = zeros 65, cd_arListHashCtx = None,
     cd_attributeListLength = 0, cd_attributeValueLength = 0, cd_attributeName = zeros 24,
     cd_attributeValue = zeros 256, cd_proofLength = 0, cd_accountAddress = zeros 57,
     cd_state = CREDENTIAL_DEPLOYMENT_ZERO, cd_showIntro = False \<rparr>"

definition wiped :: instructionContext where
  "wiped = \<lparr> exportPrivateKeyContext = wiped_export,
     exportPublicKeyContext = \<lparr> pk_display = zeros 21, pk_publicKey = zeros 68,
       pk_signPublicKey = False \<rparr>,
     signTransferToPublic = \<lparr> tp_amount = zeros 30, tp_recipientAddress = zeros 57,
       tp_proofSize = 0, tp_state = TRANSFER_TO_PUBLIC_ZERO \<rparr>,
     signConfigureDelegation = \<lparr> dl_stopDelegation = False, dl_displayCapital = zeros 30,
       dl_displayRestake = zeros 4, dl_displayDelegationTarget = zeros 30, dl_hasCapital = False,
       dl_hasRestakeEarnings = False, dl_hasDelegationTarget = False \<rparr>,
     signConfigureBaker = wiped_baker, signPublicInformationForIp = wiped_public_info,
     signCredentialDeploymentContext = wiped_credential,
     deployModule = wiped_deploy, initContract = wiped_init, updateContract = wiped_update,
     withDataBlob = \<lparr> signTransferContext = wiped_transfer,
       signTransferWithScheduleContext = wiped_schedule,
       signRegisterData = \<lparr> rd_dataLength = 0, rd_state = REGISTER_DATA_ZERO \<rparr>,
       cborContext = wiped_cbor \<rparr> \<rparr>"

subsection \<open>Sizes\<close>

text \<open>
  Every buffer has its declared size; no operation changes that.  A buffer that is drawn also holds
  a NUL (\<open>cbuf\<close>), so that drawing it never reads past its end.  The encoded addresses have 50
  characters, so the rest of an address buffer stays zero.
\<close>

definition cbuf :: "nat \<Rightarrow> bytes \<Rightarrow> bool" where
  "cbuf n b \<longleftrightarrow> length b = n \<and> 0 \<in> set b"

definition address_buffer :: "bytes \<Rightarrow> bool" where
  "address_buffer b \<longleftrightarrow> length b = 57 \<and> drop 50 b = zeros 7"

definition wf_transfer :: "signTransferContext \<Rightarrow> bool" where
  "wf_transfer c \<longleftrightarrow> address_buffer (tr_displayStr c) \<and> cbuf 30 (tr_displayAmount c) \<and>
     cbuf 30 (tr_fee_display_str c)"

definition wf_schedule :: "signTransferWithScheduleContext \<Rightarrow> bool" where
  "wf_schedule c \<longleftrightarrow> address_buffer (sc_displayStr c) \<and> cbuf 30 (sc_displayAmount c) \<and>
     cbuf 30 (sc_fee_display_str c) \<and> cbuf 25 (sc_displayTimestamp c) \<and>
     length (sc_buffer c) = 255"

definition wf_cbor :: "cborContext \<Rightarrow> bool" where
  "wf_cbor c \<longleftrightarrow> length (cb_cborBuf c) = 257 \<and> cbuf 256 (cb_display c) \<and>
     cbuf 20 (cb_typeLabel c) \<and> cb_cborBufLen c \<le> 257"

definition wf_deploy :: "deployModule \<Rightarrow> bool" where
  "wf_deploy c \<longleftrightarrow> length (dm_sourceHash c) = 32 \<and> cbuf 65 (dm_sourceHashDisplay c) \<and>
     cbuf 11 (dm_versionDisplay c)"

definition wf_input :: "contractInput \<Rightarrow> bool" where
  "wf_input c \<longleftrightarrow> cbuf 256 (ci_nameDisplay c) \<and> cbuf 65 (ci_paramsHashDisplay c)"

definition wf_init :: "initContract \<Rightarrow> bool" where
  "wf_init c \<longleftrightarrow> length (ic_moduleRef c) = 32 \<and> cbuf 30 (ic_amountDisplay c) \<and>
     cbuf 65 (ic_moduleRefDisplay c) \<and> wf_input (ic_input c)"

definition wf_update :: "updateContract \<Rightarrow> bool" where
  "wf_update c \<longleftrightarrow> cbuf 30 (uc_amountDisplay c) \<and> cbuf 30 (uc_indexDisplay c) \<and>
     cbuf 30 (uc_subIndexDisplay c) \<and> wf_input (uc_input c)"

definition wf_export :: "exportPrivateKeyContext \<Rightarrow> bool" where
  "wf_export c \<longleftrightarrow> cbuf 48 (ek_display_review_operation c) \<and>
     cbuf 24 (ek_display_review_verb c) \<and> cbuf 26 (ek_display_sign_verb c) \<and>
     cbuf 15 (ek_display_credid_title c) \<and> cbuf 22 (ek_display_credid c) \<and>
     cbuf 48 (ek_display_sign c) \<and> cbuf 16 (ek_display_detail_title c) \<and>
     cbuf 24 (ek_display_detail c) \<and> cbuf 40 (ek_display_key_types c) \<and>
     length (ek_outputPrivateKeys c) = 195 \<and> ek_privateKeysLength c \<le> 195"

definition wf_public_key :: "exportPublicKeyContext \<Rightarrow> bool" where
  "wf_public_key c \<longleftrightarrow> cbuf 21 (pk_display c) \<and> cbuf 68 (pk_publicKey c)"

definition wf_to_public :: "signTransferToPublic \<Rightarrow> bool" where
  "wf_to_public c \<longleftrightarrow> cbuf 30 (tp_amount c) \<and> address_buffer (tp_recipientAddress c)"

definition wf_delegation :: "signConfigureDelegationContext \<Rightarrow> bool" where
  "wf_delegation c \<longleftrightarrow> cbuf 30 (dl_displayCapital c) \<and> cbuf 4 (dl_displayRestake c) \<and>
     cbuf 30 (dl_displayDelegationTarget c)"

definition wf_baker :: "signConfigureBaker \<Rightarrow> bool" where
  "wf_baker c \<longleftrightarrow> cbuf 30 (bk_displayCapital (bk_capitalRestakeDelegation c)) \<and>
     cbuf 4 (bk_displayRestake (bk_capitalRestakeDelegation c)) \<and>
     cbuf 15 (bk_displayOpenForDelegation (bk_capitalRestakeDelegation c)) \<and>
     cbuf 256 (bk_urlDisplay (bk_url c)) \<and>
     cbuf 8 (bk_transactionFeeCommissionRate (bk_commissionRates c)) \<and>
     cbuf 8 (bk_bakingRewardCommissionRate (bk_commissionRates c)) \<and>
     cbuf 8 (bk_finalizationRewardCommissionRate (bk_commissionRates c)) \<and>
     cbuf 18 (bk_suspended c) \<and> cbuf 65 (bk_keysHashDisplay c)"

definition wf_public_info :: "signPublicInformationForIp \<Rightarrow> bool" where
  "wf_public_info c \<longleftrightarrow> cbuf 68 (pi_publicKey c) \<and> cbuf 4 (pi_threshold c) \<and>
     cbuf 97 (pi_idCredPub c) \<and> cbuf 97 (pi_credId c) \<and> cbuf 3 (pi_keyType c)"

definition wf_credential :: "signCredentialDeploymentContext \<Rightarrow> bool" where
  "wf_credential c \<longleftrightarrow> cbuf 102 (cd_credentialId c) \<and> cbuf 4 (cd_threshold c) \<and>
     cbuf 68 (cd_accountVerificationKey c) \<and> cbuf 4 (cd_signatureThreshold c) \<and>
     cbuf 17 (cd_anonymityRevocationThreshold c) \<and> cbuf 97 (cd_regIdCred c) \<and>
     length (cd_identityProviderIndex c) = 9 \<and> cbuf 9 (cd_arIdentity c) \<and>
     cbuf 193 (cd_encIdCredPubShare c) \<and> cbuf 65 (cd_arListHashDisplay c) \<and>
     cbuf 24 (cd_attributeName c) \<and> cbuf 256 (cd_attributeValue c) \<and>
     address_buffer (cd_accountAddress c)"

definition wf_context :: "instructionContext \<Rightarrow> bool" where
  "wf_context g \<longleftrightarrow> wf_export (exportPrivateKeyContext g) \<and>
     wf_public_key (exportPublicKeyContext g) \<and> wf_to_public (signTransferToPublic g) \<and>
     wf_delegation (signConfigureDelegation g) \<and> wf_baker (signConfigureBaker g) \<and>
     wf_public_info (signPublicInformationForIp g) \<and>
     wf_credential (signCredentialDeploymentContext g) \<and> wf_deploy (deployModule g) \<and>
     wf_init (initContract g) \<and> wf_update (updateContract g) \<and>
     wf_transfer (signTransferContext (withDataBlob g)) \<and>
     wf_schedule (signTransferWithScheduleContext (withDataBlob g)) \<and>
     wf_cbor (cborContext (withDataBlob g))"

lemma cbufD: "cbuf n b \<Longrightarrow> length b = n" "cbuf n b \<Longrightarrow> 0 \<in> set b"
  by (simp_all add: cbuf_def)

lemma cbuf_zeros [simp]: "cbuf n (zeros n) \<longleftrightarrow> 0 < n"
  by (auto simp: cbuf_def zeros_def)

lemma cbuf_NUL [simp]: "cbuf n (t @ 0 # r) \<longleftrightarrow> length t + length r + 1 = n"
  by (auto simp: cbuf_def)

lemma cbuf_append_zeros [simp]: "0 < k \<Longrightarrow> cbuf n (t @ zeros k) \<longleftrightarrow> length t + k = n"
  by (auto simp: cbuf_def zeros_def)

lemma cbuf_address [simp]: "address_buffer b \<Longrightarrow> cbuf 57 b"
  unfolding cbuf_def address_buffer_def
  by (metis append_take_drop_id in_set_conv_decomp length_zeros list.set_intros(1) zeros_def
      replicate_Suc Un_iff eval_nat_numeral(3) set_append)

lemma address_buffer_zeros [simp]: "address_buffer (zeros 57)"
  by (simp add: address_buffer_def zeros_def)

lemma address_buffer_text [simp]: "length t = 50 \<Longrightarrow> address_buffer (t @ zeros 7)"
  by (simp add: address_buffer_def)

lemma wf_wiped [simp]: "wf_context wiped"
  by (simp add: wf_context_def wiped_def wf_export_def wf_public_key_def wf_to_public_def
      wf_delegation_def wf_baker_def wf_public_info_def wf_credential_def wiped_baker_def
      wiped_public_info_def wiped_credential_def wf_deploy_def wf_init_def wf_input_def wiped_input_def wf_update_def wf_transfer_def wf_schedule_def
      wf_cbor_def wiped_export_def wiped_deploy_def wiped_init_def wiped_update_def
      wiped_transfer_def wiped_schedule_def wiped_cbor_def address_buffer_zeros)

subsection \<open>helpers/tx_state.h\<close>

record accountSender =
  as_sender :: bytes
  as_energyDisplay :: bytes
  as_network :: bytes

definition wf_sender :: "accountSender \<Rightarrow> bool" where
  "wf_sender a \<longleftrightarrow> address_buffer (as_sender a) \<and> cbuf 21 (as_energyDisplay a) \<and>
     cbuf 24 (as_network a)"

record comparePublicKey =
  ck_display :: bytes
  ck_publicKey :: bytes

end
