(* ===== verification/Machine.thy ===== *)
theory Machine
  imports Context
begin

text \<open>
  The state of the application between two APDUs, and the operations every handler shares:
  globals.h, apdu/apdu_response.c, helpers/concordium_crypto.c, helpers/base58check.c and
  \<open>ui_menu_main\<close> of ui/menu_nbgl.c.

  A reply to the host is appended to \<open>replies\<close> (payload and status word).  The screen holds the
  review on display, with the values it was drawn from and the callback its choice runs; None is
  the home screen.  \<open>status_page\<close> is set while a status page is up, whose end runs
  \<open>ui_menu_main\<close>.  A hash context that is updated before it was initialised is a fault.
\<close>

subsection \<open>Screens\<close>

datatype callback =
    review_choice
  | review_public_key_choice
  | review_verify_address
  | review_export_private_key
  | review_export_private_key_new_path
  | review_choice_sign
  | confirm_initial_scheduled_transfer_callback
  | sendSuccessNoIdleCallback
  | confirmConfigureBakerStageCallback
  | processNextVerificationKeyNoIdleCallback
  | review_added_credential
  | review_credential_attribute
  | processNextScheduledAmountWrapper

datatype review_kind = Review | ReviewLight | AddressReview

datatype operation_type = TYPE_OPERATION | TYPE_TRANSACTION

text \<open>\<open>rv_address\<close> is the address an address review shows, and empty for the other kinds; a
  subtitle NULL is the empty string.\<close>

record review =
  rv_kind :: review_kind
  rv_type :: operation_type
  rv_address :: bytes
  rv_pairs :: "(bytes \<times> bytes) list"
  rv_title :: bytes
  rv_subtitle :: bytes
  rv_finish :: bytes
  rv_callback :: callback

subsection \<open>State\<close>

record app =
  currentInstruction :: int
  tx_hash :: hash_ctx
  transactionHash :: bytes
  global_derivation_path :: derivation_path
  global_account_sender :: accountSender
  global_compare_public_key :: comparePublicKey
  global_reviewed_path :: derivation_path
  global_public_key_review_pending :: bool
  global :: instructionContext
  screen :: "review option"
  status_page :: bool
  replies :: "(bytes \<times> u16) list"
  async_reply :: bool

type_synonym 'a act = "(app, 'a) outcome"

abbreviation INSTRUCTION_NONE :: int where "INSTRUCTION_NONE \<equiv> - 1"

text \<open>The APDU as \<open>apdu_parser\<close> delivers it; lc is the length of
  \<open>cmd_data\<close>, and the data pointer is NULL exactly when that is 0.\<close>

record command =
  cmd_cla :: u8
  cmd_ins :: u8
  cmd_p1 :: u8
  cmd_p2 :: u8
  cmd_data :: bytes

subsection \<open>Replies\<close>

definition io_send_response :: "bytes \<Rightarrow> u16 \<Rightarrow> app \<Rightarrow> unit act" where
  "io_send_response payload sw s = Ret () (s\<lparr> replies := replies s @ [(payload, sw)] \<rparr>)"

definition io_send_sw :: "u16 \<Rightarrow> app \<Rightarrow> unit act" where
  "io_send_sw sw s = io_send_response [] sw s"

text \<open>\<open>ui_menu_main\<close> closes the instruction and the review and draws the home screen.\<close>

definition ui_menu_main :: "app \<Rightarrow> unit act" where
  "ui_menu_main s = Ret () (s\<lparr> currentInstruction := INSTRUCTION_NONE,
     global_public_key_review_pending := False, screen := None, status_page := False \<rparr>)"

definition send_user_rejection_no_idle :: "app \<Rightarrow> unit act" where
  "send_user_rejection_no_idle s = io_send_sw SWO_CONDITIONS_NOT_SATISFIED s"

definition send_user_rejection :: "app \<Rightarrow> unit act" where
  "send_user_rejection s = bind (send_user_rejection_no_idle s) (\<lambda>_ s. ui_menu_main s)"

text \<open>The payload is what the caller left at the start of the APDU buffer.\<close>

definition send_success :: "bytes \<Rightarrow> app \<Rightarrow> unit act" where
  "send_success payload s =
     bind (io_send_response payload SWO_SUCCESS s) (\<lambda>_ s. ui_menu_main s)"

definition send_success_result_no_idle :: "bytes \<Rightarrow> app \<Rightarrow> unit act" where
  "send_success_result_no_idle payload s = io_send_response payload SWO_SUCCESS s"

definition send_success_no_idle :: "app \<Rightarrow> unit act" where
  "send_success_no_idle s = send_success_result_no_idle [] s"

definition send_rejection :: "u16 \<Rightarrow> app \<Rightarrow> unit act" where
  "send_rejection sw s = io_send_sw sw (s\<lparr> currentInstruction := INSTRUCTION_NONE \<rparr>)"

subsection \<open>Hashing\<close>

text \<open>\<open>cx_sha256_init\<close> on the transaction hash, with the test its callers make.\<close>

definition init_tx_hash :: "sdk \<Rightarrow> app \<Rightarrow> unit act" where
  "init_tx_hash E s =
     (if \<not> sdk_sha256_init E then Throw ERROR_FAILED_CX_OPERATION s
      else Ret () (s\<lparr> tx_hash := Some [] \<rparr>))"

definition new_hash :: "sdk \<Rightarrow> hash_ctx result" where
  "new_hash E = (if \<not> sdk_sha256_init E then Err ERROR_FAILED_CX_OPERATION else Ok (Some []))"

text \<open>\<open>update_hash\<close> and \<open>hash\<close> with CX_LAST, on any context.\<close>

definition update_ctx :: "sdk \<Rightarrow> hash_ctx \<Rightarrow> bytes \<Rightarrow> hash_ctx result" where
  "update_ctx E c d =
     (case c of None \<Rightarrow> Oob
      | Some h \<Rightarrow> if sdk_hash_update E h d then Ok (Some (h @ d)) else Err ERROR_FAILED_CX_OPERATION)"

definition final_ctx :: "sdk \<Rightarrow> hash_ctx \<Rightarrow> bytes result" where
  "final_ctx E c =
     (case c of None \<Rightarrow> Oob
      | Some h \<Rightarrow> (case sdk_hash_final E h of
          None \<Rightarrow> Err ERROR_FAILED_CX_OPERATION | Some d \<Rightarrow> Ok d))"

definition update_hash :: "sdk \<Rightarrow> bytes \<Rightarrow> app \<Rightarrow> unit act" where
  "update_hash E d s = call (update_ctx E (tx_hash s) d) s (\<lambda>c. Ret () (s\<lparr> tx_hash := c \<rparr>))"

subsection \<open>Keys and signatures\<close>

definition get_private_key :: "sdk \<Rightarrow> derivation_path \<Rightarrow> bytes result" where
  "get_private_key E path =
     (case sdk_derive_bip32 E (used_nodes path) of
        None \<Rightarrow> Err ERROR_FAILED_CX_OPERATION
      | Some (privateKeyData, _) \<Rightarrow>
          (case sdk_ecfp_init_private_key E privateKeyData of
             None \<Rightarrow> Err ERROR_FAILED_CX_OPERATION | Some d \<Rightarrow> Ok d))"

text \<open>The two output buffers are given by their sizes.\<close>

definition get_extended_private_key ::
    "sdk \<Rightarrow> derivation_path \<Rightarrow> nat \<Rightarrow> nat \<Rightarrow> (bytes \<times> bytes) result" where
  "get_extended_private_key E path privateKeySize chainCodeSize =
     (if privateKeySize < 32 \<or> chainCodeSize < 32 then Err ERROR_BUFFER_OVERFLOW
      else case sdk_derive_bip32 E (used_nodes path) of
        None \<Rightarrow> Err ERROR_FAILED_CX_OPERATION
      | Some kc \<Rightarrow> Ok kc)"

text \<open>The 32 low bytes of the point reversed, the sign of x in the top bit.\<close>

definition get_public_key :: "sdk \<Rightarrow> derivation_path \<Rightarrow> bytes result" where
  "get_public_key E path =
     rbind (get_private_key E path) (\<lambda>privateKey.
     case sdk_ecfp_generate_pair E privateKey of
       None \<Rightarrow> Err ERROR_FAILED_CX_OPERATION
     | Some W \<Rightarrow>
         if length W \<noteq> 65 then Oob
         else let publicKeyArray = map (\<lambda>i. W ! (64 - i)) [0..<32] in
              Ok (if bit (W ! 32) 0
                  then publicKeyArray[31 := or (publicKeyArray ! 31) 0x80] else publicKeyArray))"

definition sign :: "sdk \<Rightarrow> derivation_path \<Rightarrow> bytes \<Rightarrow> bytes result" where
  "sign E path input =
     rbind (get_private_key E path) (\<lambda>privateKey.
     case sdk_eddsa_sign E privateKey input of
       None \<Rightarrow> Err ERROR_FAILED_CX_OPERATION | Some signature \<Rightarrow> Ok signature)"

definition BLS_G1_ORDER :: bytes where
  "BLS_G1_ORDER = [0x73, 0xed, 0xa7, 0x53, 0x29, 0x9d, 0x7d, 0x48, 0x33, 0x39, 0xd8, 0x08, 0x09,
     0xa1, 0xd8, 0x05, 0x53, 0xbd, 0xa4, 0x02, 0xff, 0xfe, 0x5b, 0xfe, 0xff, 0xff, 0xff, 0xff,
     0x00, 0x00, 0x00, 0x01]"

text \<open>
  The do-while loop of \<open>blsKeygen\<close> runs until the candidate is not zero.  Nothing in the code
  bounds it, so it is a partial function: None is a loop that does not end.
\<close>

partial_function (option) blsKeygen_loop :: "sdk \<Rightarrow> bytes \<Rightarrow> bytes \<Rightarrow> bytes result option" where
  "blsKeygen_loop E ikm salt =
     (case sdk_hash_sha256 E salt of
        None \<Rightarrow> Some (Err ERROR_FAILED_CX_OPERATION)
      | Some salt \<Rightarrow>
          (case sdk_math_modm E
                  (sdk_hkdf_expand E (sdk_hkdf_extract E ikm salt) [0, 48] 48) BLS_G1_ORDER of
             None \<Rightarrow> Some (Err ERROR_FAILED_CX_OPERATION)
           | Some sk \<Rightarrow>
               if (\<forall>b \<in> set sk. b = 0) then blsKeygen_loop E ikm salt
               else Some (Ok (drop (48 - 32) sk))))"

definition blsKeygen :: "sdk \<Rightarrow> bytes \<Rightarrow> nat \<Rightarrow> bytes result option" where
  "blsKeygen E seed dstLength =
     (if dstLength < 32 then Some (Err ERROR_BUFFER_OVERFLOW)
      else if length seed \<noteq> 32 then Some (Err ERROR_INVALID_TRANSACTION)
      else blsKeygen_loop E (seed @ [0]) (ascii ''BLS-SIG-KEYGEN-SALT-''))"

definition get_bls_private_key :: "sdk \<Rightarrow> derivation_path \<Rightarrow> nat \<Rightarrow> bytes result option" where
  "get_bls_private_key E path privateKeySize =
     (case get_private_key E path of
        Ok seed \<Rightarrow> blsKeygen E seed privateKeySize
      | Err e \<Rightarrow> Some (Err e)
      | Oob \<Rightarrow> Some Oob)"

subsection \<open>Addresses\<close>

text \<open>
  The result is the text base58 encoding writes (None is its return value -1); the input has
  \<open>length\<close> bytes.  Note the SDK convention: \<open>cx_hash_sha256\<close> returns 0 on failure.
\<close>

definition base58check_encode :: "sdk \<Rightarrow> bytes \<Rightarrow> nat \<Rightarrow> bytes option result" where
  "base58check_encode E inp outlen =
     (if length inp \<noteq> 32 then Err ERROR_INVALID_TRANSACTION
      else let buffer = 1 # inp in
        case sdk_hash_sha256 E buffer of
          None \<Rightarrow> Err ERROR_FAILED_CX_OPERATION
        | Some hash1 \<Rightarrow>
            (case sdk_hash_sha256 E hash1 of
               None \<Rightarrow> Err ERROR_FAILED_CX_OPERATION
             | Some hash2 \<Rightarrow>
                 rbind (slice hash2 0 4) (\<lambda>checksum.
                 Ok (sdk_base58_encode E (buffer @ checksum) outlen))))"

subsection \<open>Frame conditions and weakest preconditions\<close>

text \<open>
  \<open>same_ui s t\<close>: t has sent nothing more than s, shows the same screen and has the same
  instruction open.
\<close>

definition same_ui :: "app \<Rightarrow> app \<Rightarrow> bool" where
  "same_ui s t \<longleftrightarrow> replies t = replies s \<and> screen t = screen s \<and>
     currentInstruction t = currentInstruction s \<and>
     global_public_key_review_pending t = global_public_key_review_pending s \<and>
     status_page t = status_page s"

lemma same_ui_refl [simp]: "same_ui s s"
  by (simp add: same_ui_def)

lemma same_ui_trans: "same_ui s t \<Longrightarrow> same_ui t u \<Longrightarrow> same_ui s u"
  by (simp add: same_ui_def)

lemma same_ui_updates [simp]:
  "same_ui s (t\<lparr> tx_hash := h \<rparr>) = same_ui s t"
  "same_ui s (t\<lparr> transactionHash := th \<rparr>) = same_ui s t"
  "same_ui s (t\<lparr> global_derivation_path := p \<rparr>) = same_ui s t"
  "same_ui s (t\<lparr> global_account_sender := a \<rparr>) = same_ui s t"
  "same_ui s (t\<lparr> global_compare_public_key := k \<rparr>) = same_ui s t"
  "same_ui s (t\<lparr> global_reviewed_path := p \<rparr>) = same_ui s t"
  "same_ui s (t\<lparr> global := g \<rparr>) = same_ui s t"
  "same_ui s (t\<lparr> async_reply := b \<rparr>) = same_ui s t"
  by (simp_all add: same_ui_def)

lemma wp_replies [simp, wp_rules]:
  "wp (io_send_response payload sw s) Q E = Q () (s\<lparr> replies := replies s @ [(payload, sw)] \<rparr>)"
  "wp (io_send_sw sw s) Q E = Q () (s\<lparr> replies := replies s @ [([], sw)] \<rparr>)"
  "wp (ui_menu_main s) Q E = Q () (s\<lparr> currentInstruction := INSTRUCTION_NONE,
     global_public_key_review_pending := False, screen := None, status_page := False \<rparr>)"
  "wp (send_user_rejection_no_idle s) Q E =
     Q () (s\<lparr> replies := replies s @ [([], SWO_CONDITIONS_NOT_SATISFIED)] \<rparr>)"
  "wp (send_user_rejection s) Q E = Q () (s\<lparr> replies := replies s @ [([], SWO_CONDITIONS_NOT_SATISFIED)],
     currentInstruction := INSTRUCTION_NONE, global_public_key_review_pending := False,
     screen := None, status_page := False \<rparr>)"
  "wp (send_success payload s) Q E = Q () (s\<lparr> replies := replies s @ [(payload, SWO_SUCCESS)],
     currentInstruction := INSTRUCTION_NONE, global_public_key_review_pending := False,
     screen := None, status_page := False \<rparr>)"
  "wp (send_success_result_no_idle payload s) Q E =
     Q () (s\<lparr> replies := replies s @ [(payload, SWO_SUCCESS)] \<rparr>)"
  "wp (send_success_no_idle s) Q E = Q () (s\<lparr> replies := replies s @ [([], SWO_SUCCESS)] \<rparr>)"
  "wp (send_rejection sw s) Q E = Q () (s\<lparr> currentInstruction := INSTRUCTION_NONE,
     replies := replies s @ [([], sw)] \<rparr>)"
  by (simp_all add: io_send_response_def io_send_sw_def ui_menu_main_def
      send_user_rejection_no_idle_def send_user_rejection_def send_success_def
      send_success_result_no_idle_def send_success_no_idle_def send_rejection_def)

lemma wp_init_tx_hash [simp, wp_rules]:
  "wp (init_tx_hash E s) Q X \<longleftrightarrow>
    (if sdk_sha256_init E then Q () (s\<lparr> tx_hash := Some [] \<rparr>) else X ERROR_FAILED_CX_OPERATION s)"
  by (simp add: init_tx_hash_def)

lemma rwp_new_hash [simp, wp_rules]:
  "rwp (new_hash E) Q X \<longleftrightarrow>
    (if sdk_sha256_init E then Q (Some []) else X ERROR_FAILED_CX_OPERATION)"
  by (simp add: new_hash_def)

lemma rwp_update_ctx [simp, wp_rules]:
  "rwp (update_ctx E c d) Q X \<longleftrightarrow>
    (\<exists>h. c = Some h \<and> (if sdk_hash_update E h d then Q (Some (h @ d)) else X ERROR_FAILED_CX_OPERATION))"
  by (cases c) (simp_all add: update_ctx_def)

lemma wp_update_hash [simp, wp_rules]:
  "wp (update_hash E d s) Q X \<longleftrightarrow>
    (\<exists>h. tx_hash s = Some h \<and>
      (if sdk_hash_update E h d then Q () (s\<lparr> tx_hash := Some (h @ d) \<rparr>)
       else X ERROR_FAILED_CX_OPERATION s))"
  by (simp add: update_hash_def)

lemma rwp_final_ctx:
  assumes "digests E"
  shows "rwp (final_ctx E (Some h)) (\<lambda>d. length d = 32 \<and> sdk_hash_final E h = Some d)
    (\<lambda>e. e = ERROR_FAILED_CX_OPERATION)"
  using assms by (simp add: final_ctx_def digests_def split: option.split)

lemma rwp_get_private_key:
  assumes "derives_keys E"
  shows "rwp (get_private_key E p) (\<lambda>d. length d = 32) (\<lambda>e. e = ERROR_FAILED_CX_OPERATION)"
  using assms by (auto simp: get_private_key_def derives_keys_def split: option.split)

lemma rwp_get_public_key:
  assumes "derives_keys E"
  shows "rwp (get_public_key E p) (\<lambda>k. length k = 32) (\<lambda>e. e = ERROR_FAILED_CX_OPERATION)"
proof (cases "get_private_key E p")
  case (Ok d)
  then show ?thesis
    using assms by (auto simp: get_public_key_def derives_keys_def Let_def split: option.split)
qed (use rwp_get_private_key [OF assms, of p] in \<open>simp_all add: get_public_key_def\<close>)

lemma rwp_sign:
  assumes "derives_keys E"
  shows "rwp (sign E p m)
    (\<lambda>sg. length sg = 64 \<and> (\<exists>d. get_private_key E p = Ok d \<and> sdk_eddsa_sign E d m = Some sg))
    (\<lambda>e. e = ERROR_FAILED_CX_OPERATION)"
proof (cases "get_private_key E p")
  case (Ok d)
  then show ?thesis
    using assms by (auto simp: sign_def derives_keys_def split: option.split)
qed (use rwp_get_private_key [OF assms, of p] in \<open>simp_all add: sign_def\<close>)

text \<open>The text of a 32-byte account address; None when the hash library fails.\<close>

definition address_text :: "sdk \<Rightarrow> bytes \<Rightarrow> bytes option" where
  "address_text E addr =
     (case base58check_encode E addr 57 of Ok (Some t) \<Rightarrow> Some t | _ \<Rightarrow> None)"

lemma base58check_cases:
  assumes "digests E" "encodes_base58 E" "length addr = 32"
  obtains (fails) "base58check_encode E addr 57 = Err ERROR_FAILED_CX_OPERATION"
  | (encodes) t c where "base58check_encode E addr 57 = Ok (Some t)" "length t = 50" "0 \<notin> set t"
      "length c = 4" "sdk_base58_encode E (1 # addr @ c) 57 = Some t"
proof (cases "sdk_hash_sha256 E (1 # addr)")
  case None
  then show thesis using fails assms(3) by (simp add: base58check_encode_def Let_def)
next
  case (Some h1)
  show thesis
  proof (cases "sdk_hash_sha256 E h1")
    case None
    then show thesis using Some fails assms(3) by (simp add: base58check_encode_def Let_def)
  next
    case s2: (Some h2)
    then have h2: "length h2 = 32" using assms(1) by (simp add: digests_def)
    define bs where "bs = addr @ take 4 h2"
    have "length bs = 36" using assms(3) h2 by (simp add: bs_def)
    moreover have "(50 :: nat) \<le> 57" by simp
    ultimately obtain t where t: "sdk_base58_encode E (1 # bs) 57 = Some t" "length t = 50" "0 \<notin> set t"
      using assms(2) unfolding encodes_base58_def by blast
    have "base58check_encode E addr 57 = Ok (Some t)"
      using Some s2 t(1) h2 assms(3) by (simp add: base58check_encode_def Let_def slice_def bs_def)
    then show thesis using t h2 encodes [of t "take 4 h2"] by (simp add: bs_def)
  qed
qed

lemma base58check_encode_eq:
  assumes "digests E" "encodes_base58 E" "length addr = 32"
  shows "base58check_encode E addr 57 =
    (case address_text E addr of None \<Rightarrow> Err ERROR_FAILED_CX_OPERATION | Some t \<Rightarrow> Ok (Some t))"
  by (rule base58check_cases [OF assms]) (simp_all add: address_text_def)

lemma address_text_Some:
  assumes "digests E" "encodes_base58 E" "length addr = 32" "address_text E addr = Some t"
  shows "length t = 50 \<and> 0 \<notin> set t"
  by (rule base58check_cases [OF assms(1-3)]) (use assms(4) in \<open>simp_all add: address_text_def\<close>)

text \<open>Two accounts never share an address text.\<close>

lemma address_text_inj:
  assumes "digests E" "encodes_base58 E" "length a = 32" "length b = 32"
    "address_text E a = Some t" "address_text E b = Some t"
  shows "a = b"
proof -
  have "\<exists>c. length c = 4 \<and> sdk_base58_encode E (1 # addr @ c) 57 = Some t"
    if "length addr = 32" "address_text E addr = Some t" for addr
    by (rule base58check_cases [OF assms(1,2) that(1)])
      (use that(2) in \<open>auto simp: address_text_def\<close>)
  from this [OF assms(3,5)] this [OF assms(4,6)]
  obtain c c' where c: "length c = 4" "sdk_base58_encode E (1 # a @ c) 57 = Some t"
    "length c' = 4" "sdk_base58_encode E (1 # b @ c') 57 = Some t" by blast
  then have "length (a @ c) = 36" "length (b @ c') = 36" "(50 :: nat) \<le> 57"
    using assms(3,4) by simp_all
  then have "a @ c = b @ c'"
    using assms(2) c unfolding encodes_base58_def by metis
  then show ?thesis using assms(3,4) by simp
qed

subsection \<open>BLS key generation\<close>

text \<open>The candidate scalar of one round, and the salts of successive rounds.\<close>

definition bls_salt :: "sdk \<Rightarrow> bytes \<Rightarrow> bytes" where
  "bls_salt E salt = (case sdk_hash_sha256 E salt of None \<Rightarrow> [] | Some h \<Rightarrow> h)"

definition bls_candidate :: "sdk \<Rightarrow> bytes \<Rightarrow> bytes \<Rightarrow> bytes option" where
  "bls_candidate E ikm salt =
     sdk_math_modm E (sdk_hkdf_expand E (sdk_hkdf_extract E ikm salt) [0, 48] 48) BLS_G1_ORDER"

lemma be_nat_replicate_0: "be_nat (replicate n 0 @ xs) = be_nat xs"
proof -
  have "be_nat (replicate n 0) = 0"
  proof (induction n)
    case (Suc n)
    have "replicate (Suc n) 0 = replicate n 0 @ [0 :: u8]" by (simp add: replicate_append_same)
    then show ?case using Suc by (simp only: be_nat_snoc) simp
  qed simp
  then show ?thesis by (simp add: be_nat_def foldl_append)
qed

lemma be_nat_high_zero:
  assumes "length x = k + n" "be_nat x < 256 ^ n"
  shows "be_nat (drop k x) = be_nat x"
proof -
  have "x = to_be (k + n) (be_nat x)" using to_be_be_nat [of x] assms(1) by simp
  moreover have "to_be (k + n) v = replicate k 0 @ to_be n v" if "v < 256 ^ n" for v
    using that
  proof (induction n arbitrary: v)
    case 0
    then show ?case by (induction k) (simp_all add: replicate_append_same)
  next
    case (Suc n)
    then show ?case by (simp add: less_mult_imp_div_less mult.commute)
  qed
  ultimately have "drop k x = to_be n (be_nat x)"
    using assms by (metis append_eq_conv_conj length_replicate)
  then show ?thesis using assms by (simp add: be_nat_to_be)
qed

lemma be_nat_eq_0: "be_nat x = 0 \<longleftrightarrow> (\<forall>b \<in> set x. b = 0)"
proof (induction x rule: rev_induct)
  case (snoc b x)
  then show ?case by (auto simp: unat_eq_zero)
qed simp

lemma BLS_G1_ORDER_value:
  "be_nat BLS_G1_ORDER = 0x73eda753299d7d483339d80809a1d80553bda402fffe5bfeffffffff00000001"
  by (simp add: be_nat_def BLS_G1_ORDER_def)

lemma bls_loop_Ok:
  assumes "reduces_modulo E" "blsKeygen_loop E ikm salt = Some (Ok k)"
  shows "length k = 32 \<and> be_nat k \<noteq> 0 \<and> be_nat k < be_nat BLS_G1_ORDER"
proof -
  have "reduces_modulo E \<longrightarrow> (\<forall>k. r = Ok k \<longrightarrow>
      length k = 32 \<and> be_nat k \<noteq> 0 \<and> be_nat k < be_nat BLS_G1_ORDER)"
    if "blsKeygen_loop E ikm salt = Some r" for E ikm salt r
    using that
  proof (rule blsKeygen_loop.raw_induct [rotated])
    fix loop E ikm salt r
    assume IH: "\<And>E ikm salt r. loop E ikm salt = Some r \<Longrightarrow> reduces_modulo E \<longrightarrow> (\<forall>k. r = Ok k \<longrightarrow>
        length k = 32 \<and> be_nat k \<noteq> 0 \<and> be_nat k < be_nat BLS_G1_ORDER)"
      and step: "(case sdk_hash_sha256 E salt of
        None \<Rightarrow> Some (Err ERROR_FAILED_CX_OPERATION)
      | Some salt \<Rightarrow>
          (case sdk_math_modm E
                  (sdk_hkdf_expand E (sdk_hkdf_extract E ikm salt) [0, 48] 48) BLS_G1_ORDER of
             None \<Rightarrow> Some (Err ERROR_FAILED_CX_OPERATION)
           | Some sk \<Rightarrow>
               if (\<forall>b \<in> set sk. b = 0) then loop E ikm salt
               else Some (Ok (drop (48 - 32) sk)))) = Some r"
    show "reduces_modulo E \<longrightarrow> (\<forall>k. r = Ok k \<longrightarrow>
        length k = 32 \<and> be_nat k \<noteq> 0 \<and> be_nat k < be_nat BLS_G1_ORDER)"
    proof (intro impI allI)
      fix k assume E: "reduces_modulo E" and r: "r = Ok k"
      obtain salt' sk where s: "sdk_math_modm E
          (sdk_hkdf_expand E (sdk_hkdf_extract E ikm salt') [0, 48] 48) BLS_G1_ORDER = Some sk"
        and c: "(if (\<forall>b \<in> set sk. b = 0) then loop E ikm salt' else Some (Ok (drop (48 - 32) sk))) = Some r"
        using step r by (auto split: option.splits)
      have sk: "length sk = 48" "be_nat sk < be_nat BLS_G1_ORDER"
        using E s by (auto simp: reduces_modulo_def BLS_G1_ORDER_value)
      show "length k = 32 \<and> be_nat k \<noteq> 0 \<and> be_nat k < be_nat BLS_G1_ORDER"
      proof (cases "\<forall>b \<in> set sk. b = 0")
        case True
        then show ?thesis using c IH E r by simp
      next
        case False
        then have "be_nat sk \<noteq> 0" by (simp add: be_nat_eq_0)
        moreover have "be_nat (drop 16 sk) = be_nat sk"
          using sk by (intro be_nat_high_zero [where n = 32]) (simp_all add: BLS_G1_ORDER_value)
        moreover have "k = drop 16 sk" using c r unfolding if_not_P [OF False] by simp
        ultimately show ?thesis using sk by simp
      qed
    qed
  qed
  then show ?thesis using assms by blast
qed

text \<open>The loop ends as soon as one round has a candidate other than zero.\<close>

lemma bls_loop_ends:
  assumes "\<And>x. sdk_hash_sha256 E x \<noteq> None"
    "bls_candidate E ikm ((bls_salt E ^^ Suc n) salt) = Some sk" "be_nat sk \<noteq> 0"
  shows "\<exists>r. blsKeygen_loop E ikm salt = Some r"
  using assms(2)
proof (induction n arbitrary: salt)
  case 0
  obtain h where "sdk_hash_sha256 E salt = Some h" using assms(1) by fastforce
  then show ?case
    using 0 assms(3)
    by (subst blsKeygen_loop.simps) (auto simp: bls_candidate_def bls_salt_def be_nat_eq_0)
next
  case (Suc n)
  obtain h where h: "sdk_hash_sha256 E salt = Some h" using assms(1) by fastforce
  have "bls_salt E salt = h" using h by (simp add: bls_salt_def)
  then have "(bls_salt E ^^ Suc (Suc n)) salt = (bls_salt E ^^ Suc n) h"
    by (metis comp_apply funpow_Suc_right)
  then have "\<exists>r. blsKeygen_loop E ikm h = Some r"
    using Suc.IH [of h] Suc.prems by metis
  then show ?case
    using h by (subst blsKeygen_loop.simps) (auto split: option.split)
qed

subsection \<open>Properties\<close>

text \<open>C36: A BLS key handed out has 32 bytes and is a scalar between 1 and the group order, from
  a seed of 32 bytes only.\<close>

theorem bls_key_in_range:
  assumes "reduces_modulo E" "blsKeygen E seed n = Some (Ok k)"
  shows "length seed = 32 \<and> 32 \<le> n \<and> length k = 32 \<and> 0 < be_nat k \<and> be_nat k < be_nat BLS_G1_ORDER"
proof -
  have "blsKeygen_loop E (seed @ [0]) (ascii ''BLS-SIG-KEYGEN-SALT-'') = Some (Ok k)"
    "length seed = 32" "32 \<le> n"
    using assms(2) by (auto simp: blsKeygen_def split: if_splits)
  then show ?thesis using bls_loop_Ok [OF assms(1)] by fastforce
qed

text \<open>C37: Key generation returns as soon as one round has a candidate other than zero.\<close>

theorem bls_keygen_terminates:
  assumes "\<forall>x. sdk_hash_sha256 E x \<noteq> None"
    "bls_candidate E (seed @ [0]) ((bls_salt E ^^ Suc n) (ascii ''BLS-SIG-KEYGEN-SALT-'')) = Some sk"
    "be_nat sk \<noteq> 0"
  shows "\<exists>r. blsKeygen E seed dstLength = Some r"
  using bls_loop_ends [OF _ assms(2,3)] assms(1) by (simp add: blsKeygen_def)

text \<open>The candidate of the concrete SDK is the same in every round and not zero.\<close>

lemma be_nat_ones: "be_nat (replicate n 1) * 255 = 256 ^ n - 1"
proof (induction n)
  case (Suc n)
  have "replicate (Suc n) 1 = replicate n 1 @ [1 :: u8]" by (simp add: replicate_append_same)
  then have "be_nat (replicate (Suc n) 1) * 255 = be_nat (replicate n 1) * 255 * 256 + 255"
    by (simp only: be_nat_snoc) simp
  then show ?case using Suc by (simp add: diff_mult_distrib)
qed simp

lemma demo_candidate:
  "\<exists>sk. bls_candidate demo_sdk ikm salt = Some sk \<and> be_nat sk \<noteq> 0"
proof -
  have ones: "be_nat (replicate 48 1) =
      154517671358409722401094274902523975706195055962609594776267817271551850084302786711428495117195747611006384275713"
    using be_nat_ones [of 48] by simp
  have "be_nat (to_be 48 (be_nat (replicate 48 1) mod be_nat BLS_G1_ORDER)) \<noteq> 0"
    unfolding ones BLS_G1_ORDER_value be_nat_to_be by simp
  moreover have "bls_candidate demo_sdk ikm salt =
      Some (to_be 48 (be_nat (replicate 48 1) mod be_nat BLS_G1_ORDER))"
    by (simp add: bls_candidate_def demo_sdk_def BLS_G1_ORDER_def)
  ultimately show ?thesis by blast
qed

lemma bls_keygen_terminates_witness: "\<exists>r. blsKeygen demo_sdk (zeros 32) 32 = Some r"
proof -
  obtain sk where "bls_candidate demo_sdk (zeros 32 @ [0])
      ((bls_salt demo_sdk ^^ Suc 0) (ascii ''BLS-SIG-KEYGEN-SALT-'')) = Some sk" "be_nat sk \<noteq> 0"
    using demo_candidate by blast
  moreover have "\<forall>x. sdk_hash_sha256 demo_sdk x \<noteq> None" by (simp add: demo_sdk_def)
  ultimately show ?thesis using bls_keygen_terminates by blast
qed

text \<open>C33: The text of an account address determines the address: no two accounts share the
  text a review shows.\<close>

theorem address_display_exact:
  assumes "digests E" "encodes_base58 E" "length a = 32" "length b = 32"
    "base58check_encode E a 57 = Ok (Some t)" "base58check_encode E b 57 = Ok (Some u)"
  shows "length t = 50 \<and> (t = u \<longleftrightarrow> a = b)"
proof -
  have "address_text E a = Some t" "address_text E b = Some u"
    using assms(5,6) by (simp_all add: address_text_def)
  then show ?thesis
    using address_text_inj [OF assms(1-4)] address_text_Some [OF assms(1-3)] assms(5,6) by auto
qed

lemma demo_address: "\<exists>t. base58check_encode demo_sdk (zeros 32) 57 = Ok (Some t)"
proof (rule base58check_cases [of demo_sdk "zeros 32"], goal_cases)
  case 4
  then show ?case
    by (simp add: base58check_encode_def demo_sdk_def Let_def slice_def split: option.splits)
qed auto

lemma address_display_exact_witness:
  "\<exists>t. base58check_encode demo_sdk (zeros 32) 57 = Ok (Some t) \<and>
     length t = 50 \<and> (t = t \<longleftrightarrow> zeros 32 = zeros 32)"
proof -
  obtain t where "base58check_encode demo_sdk (zeros 32) 57 = Ok (Some t)" using demo_address by blast
  then show ?thesis using address_display_exact [of demo_sdk "zeros 32" "zeros 32" t t] by auto
qed

lemma bls_key_in_range_witness:
  "\<exists>k. blsKeygen demo_sdk (zeros 32) 32 = Some (Ok k) \<and> length (zeros 32) = 32 \<and> 32 \<le> (32 :: nat) \<and>
     length k = 32 \<and> 0 < be_nat k \<and> be_nat k < be_nat BLS_G1_ORDER"
proof -
  let ?salt = "demo_digest (ascii ''BLS-SIG-KEYGEN-SALT-'')"
  obtain sk where sk: "bls_candidate demo_sdk (zeros 32 @ [0]) ?salt = Some sk" "be_nat sk \<noteq> 0"
    using demo_candidate by blast
  have h: "sdk_hash_sha256 demo_sdk x = Some (demo_digest x)" for x by (simp add: demo_sdk_def)
  have "blsKeygen_loop demo_sdk (zeros 32 @ [0]) (ascii ''BLS-SIG-KEYGEN-SALT-'') =
      Some (Ok (drop (48 - 32) sk))"
    using sk h by (subst blsKeygen_loop.simps) (auto simp: bls_candidate_def be_nat_eq_0)
  then have "blsKeygen demo_sdk (zeros 32) 32 = Some (Ok (drop (48 - 32) sk))"
    by (simp add: blsKeygen_def)
  then show ?thesis using bls_key_in_range [of demo_sdk "zeros 32" 32 "drop (48 - 32) sk"] by auto
qed

end
