(* ===== verification/TxHash.thy ===== *)
theory TxHash
  imports Machine
begin

text \<open>
  The transaction header and the signature: src/src/helpers/tx_hash.c.

  The lemmas show which header the hash absorbs, what the review's header rows hold afterwards
  (the sender's address, the signed energy limit and the network of the path), and what
  \<open>buildAndSignTransactionHash\<close> signs.
\<close>

abbreviation DEPLOY_MODULE :: u8 where "DEPLOY_MODULE \<equiv> 0"
abbreviation INIT_CONTRACT :: u8 where "INIT_CONTRACT \<equiv> 1"
abbreviation UPDATE_CONTRACT :: u8 where "UPDATE_CONTRACT \<equiv> 2"
abbreviation TRANSFER :: u8 where "TRANSFER \<equiv> 3"
abbreviation UPDATE_CREDENTIAL_KEYS :: u8 where "UPDATE_CREDENTIAL_KEYS \<equiv> 13"
abbreviation TRANSFER_TO_PUBLIC :: u8 where "TRANSFER_TO_PUBLIC \<equiv> 18"
abbreviation TRANSFER_WITH_SCHEDULE :: u8 where "TRANSFER_WITH_SCHEDULE \<equiv> 19"
abbreviation UPDATE_CREDENTIALS :: u8 where "UPDATE_CREDENTIALS \<equiv> 20"
abbreviation REGISTER_DATA :: u8 where "REGISTER_DATA \<equiv> 21"
abbreviation TRANSFER_WITH_MEMO :: u8 where "TRANSFER_WITH_MEMO \<equiv> 22"
abbreviation TRANSFER_WITH_SCHEDULE_WITH_MEMO :: u8 where "TRANSFER_WITH_SCHEDULE_WITH_MEMO \<equiv> 24"
abbreviation CONFIGURE_BAKER :: u8 where "CONFIGURE_BAKER \<equiv> 25"
abbreviation CONFIGURE_DELEGATION :: u8 where "CONFIGURE_DELEGATION \<equiv> 26"
abbreviation PLT :: u8 where "PLT \<equiv> 27"

subsection \<open>Operations\<close>

text \<open>\<open>update_hash\<close> on n bytes at an offset of the command data.\<close>

definition hash_data :: "sdk \<Rightarrow> bytes \<Rightarrow> nat \<Rightarrow> nat \<Rightarrow> app \<Rightarrow> unit act" where
  "hash_data E cdata off n s = call (slice cdata off n) s (\<lambda>d. update_hash E d s)"

text \<open>\<open>parse_derivation_path\<close> writes \<open>global_derivation_path\<close>, also when it throws.\<close>

definition parse_path :: "bytes \<Rightarrow> app \<Rightarrow> nat act" where
  "parse_path cdata s =
     (let (dp, r) = parse_derivation_path cdata; s = s\<lparr> global_derivation_path := dp \<rparr>
      in call r s (\<lambda>consumed. Ret consumed s))"

definition hashHeaderAndType :: "sdk \<Rightarrow> bytes \<Rightarrow> nat \<Rightarrow> u8 \<Rightarrow> app \<Rightarrow> nat act" where
  "hashHeaderAndType E cdata headerLength validType s =
     (if length cdata < headerLength + 1 then Throw ERROR_INVALID_TRANSACTION s
      else bind (hash_data E cdata 0 headerLength s) (\<lambda>_ s.
           call (byte_at cdata headerLength) s (\<lambda>type.
           if type \<noteq> validType then Throw ERROR_INVALID_TRANSACTION s
           else bind (hash_data E cdata headerLength 1 s) (\<lambda>_ s.
                Ret (headerLength + 1) s))))"

text \<open>base58check into a 57-byte buffer, with the NUL the callers write at index 55.\<close>

definition encode_address :: "sdk \<Rightarrow> bytes \<Rightarrow> bytes \<Rightarrow> bytes result" where
  "encode_address E addr dst =
     rbind (base58check_encode E addr (length dst)) (\<lambda>r.
     case r of
       None \<Rightarrow> Err ERROR_INVALID_TRANSACTION
     | Some t \<Rightarrow> rbind (put dst 0 t) (\<lambda>dst. put dst 55 [0]))"

definition hashAccountTransactionHeaderAndKind ::
    "sdk \<Rightarrow> bytes \<Rightarrow> u8 \<Rightarrow> app \<Rightarrow> nat act" where
  "hashAccountTransactionHeaderAndKind E cdata validTransactionKind s =
     (if length cdata < 60 then Throw ERROR_INVALID_TRANSACTION s
      else
        call (slice cdata 0 32) s (\<lambda>addr.
        call (encode_address E addr (as_sender (global_account_sender s))) s (\<lambda>sender.
        let s = s\<lparr> global_account_sender := (global_account_sender s)\<lparr> as_sender := sender \<rparr> \<rparr> in
        call (U8BE cdata 40) s (\<lambda>energy.
        call (bin_to_dec E (zeros (length (as_energyDisplay (global_account_sender s)))) energy) s
          (\<lambda>(energyDisplay, _).
        let s = s\<lparr> global_account_sender :=
          (global_account_sender s)\<lparr> as_energyDisplay := energyDisplay \<rparr> \<rparr> in
        call (path_display_network (as_network (global_account_sender s)) (global_derivation_path s)) s
          (\<lambda>network.
        let s = s\<lparr> global_account_sender :=
          (global_account_sender s)\<lparr> as_network := network \<rparr> \<rparr> in
        hashHeaderAndType E cdata 60 validTransactionKind s))))))"

definition hashUpdateHeaderAndType :: "sdk \<Rightarrow> bytes \<Rightarrow> u8 \<Rightarrow> app \<Rightarrow> nat act" where
  "hashUpdateHeaderAndType E cdata validUpdateType s =
     hashHeaderAndType E cdata 28 validUpdateType s"

text \<open>
  The recipient buffer is returned to the caller, which owns it.  The result is the offset of
  the payload that follows the recipient.
\<close>

definition handleHeaderAndToAddress ::
    "sdk \<Rightarrow> bytes \<Rightarrow> u8 \<Rightarrow> bytes \<Rightarrow> app \<Rightarrow> (nat \<times> bytes) act" where
  "handleHeaderAndToAddress E cdata kind recipientDst s =
     bind (parse_path cdata s) (\<lambda>keyPathLength s.
     bind (init_tx_hash E s) (\<lambda>_ s.
     let cdata = drop keyPathLength cdata;
         remainingDataLength = sub8 (length cdata + keyPathLength) keyPathLength in
     bind (hashAccountTransactionHeaderAndKind E cdata kind s) (\<lambda>headerLength s.
     let cdata = drop headerLength cdata;
         remainingDataLength = sub8 remainingDataLength headerLength in
     if remainingDataLength < 32 then Throw ERROR_INVALID_TRANSACTION s
     else call (slice cdata 0 32) s (\<lambda>toAddress.
          bind (update_hash E toAddress s) (\<lambda>_ s.
          call (encode_address E toAddress recipientDst) s (\<lambda>recipientDst.
          Ret (keyPathLength + headerLength + 32, recipientDst) s))))))"

text \<open>\<open>buildAndSignTransactionHash\<close>; after CX_LAST the hash context is used up.\<close>

definition buildAndSignTransactionHash :: "sdk \<Rightarrow> app \<Rightarrow> unit act" where
  "buildAndSignTransactionHash E s =
     call (final_ctx E (tx_hash s)) s (\<lambda>h.
     let s = s\<lparr> tx_hash := None, transactionHash := h \<rparr> in
     call (sign E (global_derivation_path s) (transactionHash s)) s (\<lambda>signedHash.
     send_success signedHash s))"

subsection \<open>What the header leaves in the hash and on the screen\<close>

text \<open>The part of the SDK's behaviour that the signing flows rely on.\<close>

definition sdk_ok :: "sdk \<Rightarrow> bool" where
  "sdk_ok E \<longleftrightarrow> formats_numbers E \<and> formats_hex E \<and> digests E \<and> encodes_base58 E \<and> derives_keys E"

lemma sdk_okD:
  assumes "sdk_ok E"
  shows "formats_numbers E" "formats_hex E" "digests E" "encodes_base58 E" "derives_keys E"
  using assms by (simp_all add: sdk_ok_def)

lemma demo_sdk_ok [simp]: "sdk_ok demo_sdk"
  by (simp add: sdk_ok_def)

definition wf_app :: "app \<Rightarrow> bool" where
  "wf_app s \<longleftrightarrow> wf_path (global_derivation_path s) \<and> wf_sender (global_account_sender s) \<and>
     wf_context (global s)"

text \<open>Only the hash, the header rows and the path differ.\<close>

definition header_frame :: "app \<Rightarrow> app \<Rightarrow> bool" where
  "header_frame s t \<longleftrightarrow> t = s\<lparr> tx_hash := tx_hash t, global_account_sender := global_account_sender t,
     global_derivation_path := global_derivation_path t \<rparr>"

lemma header_frame_refl [simp]: "header_frame s s"
  by (simp add: header_frame_def)

lemma header_frame_trans: "header_frame s t \<Longrightarrow> header_frame t u \<Longrightarrow> header_frame s u"
  by (cases s; cases t; cases u) (simp add: header_frame_def)

lemma header_frame_updates [simp]:
  "header_frame s (s\<lparr> tx_hash := h \<rparr>)"
  "header_frame s (s\<lparr> global_account_sender := a \<rparr>)"
  "header_frame s (s\<lparr> global_account_sender := a, tx_hash := h \<rparr>)"
  "header_frame s (s\<lparr> global_derivation_path := p \<rparr>)"
  by (simp_all add: header_frame_def)

lemma header_frame_path:
  assumes "t = s\<lparr> global_derivation_path := p \<rparr>"
  shows "header_frame s t" "global_account_sender t = global_account_sender s"
    "global t = global s"
  unfolding assms by simp_all

lemma header_frame_same_ui: "header_frame s t \<Longrightarrow> same_ui s t"
  by (cases s; cases t) (simp add: header_frame_def same_ui_def)

lemma header_frame_global: "header_frame s t \<Longrightarrow> global t = global s"
  by (cases s; cases t) (simp add: header_frame_def)

text \<open>
  The header rows of a review show the 60-byte header \<open>hdr\<close>: the sender's address (bytes 0 to 31),
  the energy limit (bytes 40 to 47), and the network of the signing path.
\<close>

definition header_rows :: "sdk \<Rightarrow> bytes \<Rightarrow> derivation_path \<Rightarrow> accountSender \<Rightarrow> bool" where
  "header_rows E hdr path a \<longleftrightarrow>
     address_text E (take 32 hdr) = Some (cstr (as_sender a)) \<and>
     cstr (as_energyDisplay a) = dec (be_nat (take 8 (drop 40 hdr))) \<and>
     cstr (as_network a) = network_label (derivation_path_network path)"

lemma encode_address_eq:
  assumes "sdk_ok E" "length addr = 32" "address_buffer dst"
  shows "encode_address E addr dst =
    (case address_text E addr of None \<Rightarrow> Err ERROR_FAILED_CX_OPERATION
     | Some t \<Rightarrow> Ok (t @ zeros 7))"
proof (cases "address_text E addr")
  case None
  then show ?thesis
    using assms by (simp add: encode_address_def address_buffer_def base58check_encode_eq sdk_okD)
next
  case (Some t)
  then have t: "length t = 50" using address_text_Some assms sdk_okD by blast
  then have "put dst 0 t = Ok (t @ zeros 7)"
    using assms(3) by (simp add: put_def address_buffer_def)
  moreover have "put (t @ zeros 7) 55 [0] = Ok (t @ zeros 7)"
    using t by (simp add: put_def zeros_def eval_nat_numeral)
  ultimately show ?thesis
    using assms Some by (simp add: encode_address_def address_buffer_def base58check_encode_eq sdk_okD)
qed

lemma length_network_label: "length (network_label n) \<le> 20"
  by (cases n) simp_all

lemma zero_notin_network_label [simp]: "0 \<notin> set (network_label n)"
  by (cases n) (simp_all add: ascii_def)

lemma path_display_network_Ok:
  assumes "length dst = 24"
  shows "path_display_network dst dp =
    Ok (network_label (derivation_path_network dp) @
        zeros (24 - length (network_label (derivation_path_network dp))))"
proof -
  let ?l = "network_label (derivation_path_network dp)"
  have l: "length ?l \<le> 20" by (rule length_network_label)
  then have "zeros (24 - length ?l) = 0 # zeros (24 - length ?l - 1)"
    by (cases "24 - length ?l") (simp_all add: zeros_def)
  then show ?thesis
    using assms l by (simp add: path_display_network_def Let_def put_def zeros_def)
qed

lemma hash_data_wp:
  assumes "tx_hash s = Some h" "off + n \<le> length c"
  shows "wp (hash_data E c off n s) Q X \<longleftrightarrow>
    (if sdk_hash_update E h (take n (drop off c))
     then Q () (s\<lparr> tx_hash := Some (h @ take n (drop off c)) \<rparr>) else X ERROR_FAILED_CX_OPERATION s)"
  using assms by (simp add: hash_data_def)

lemma hashHeaderAndType_wp:
  assumes "tx_hash s = Some h"
  shows "wp (hashHeaderAndType E c n ty s)
    (\<lambda>r t. r = n + 1 \<and> n + 1 \<le> length c \<and> c ! n = ty \<and> t = s\<lparr> tx_hash := Some (h @ take (n + 1) c) \<rparr>)
    (\<lambda>e t. status_word e \<and> (\<exists>h. t = s\<lparr> tx_hash := h \<rparr>))"
proof -
  have same: "\<exists>h. s = s\<lparr> tx_hash := h \<rparr>" by (rule exI [of _ "tx_hash s"]) simp
  have same': "\<exists>h'. s\<lparr> tx_hash := h \<rparr> = s\<lparr> tx_hash := h' \<rparr>" for h by blast
  show ?thesis
  proof (cases "length c < n + 1")
    case False
    then have "take n c @ take 1 (drop n c) = take (n + 1) c" by (metis take_add)
    then show ?thesis
      using assms False same same'
      by (auto simp: hashHeaderAndType_def hash_data_wp not_less)
  qed (use same in \<open>simp add: hashHeaderAndType_def\<close>)
qed

lemma unat_be_nat_8: "length xs = 8 \<Longrightarrow> unat (of_nat (be_nat xs) :: u64) = be_nat xs"
  using be_nat_bound [of xs] by (simp add: unsigned_of_nat take_bit_nat_eq_self)

lemma unat_be_nat_4: "length xs = 4 \<Longrightarrow> unat (of_nat (be_nat xs) :: u32) = be_nat xs"
  using be_nat_bound [of xs] by (simp add: unsigned_of_nat take_bit_nat_eq_self)

lemma unat_be_nat_2: "length xs = 2 \<Longrightarrow> unat (of_nat (be_nat xs) :: u16) = be_nat xs"
  using be_nat_bound [of xs] by (simp add: unsigned_of_nat take_bit_nat_eq_self)

lemma hashAccountTransactionHeaderAndKind_wp:
  assumes "sdk_ok E" "wf_sender (global_account_sender s)" "tx_hash s = Some h"
  shows "wp (hashAccountTransactionHeaderAndKind E c kind s)
    (\<lambda>r t. r = 61 \<and> 61 \<le> length c \<and> c ! 60 = kind \<and> tx_hash t = Some (h @ take 61 c) \<and>
       header_rows E (take 60 c) (global_derivation_path s) (global_account_sender t) \<and>
       wf_sender (global_account_sender t) \<and>
       global_derivation_path t = global_derivation_path s \<and> header_frame s t)
    (\<lambda>e t. status_word e \<and> wf_sender (global_account_sender t) \<and>
       global_derivation_path t = global_derivation_path s \<and> header_frame s t)"
proof (cases "length c < 60")
  case True
  then show ?thesis
    using assms by (simp add: hashAccountTransactionHeaderAndKind_def)
next
  case False
  let ?a = "global_account_sender s"
  let ?addr = "take 32 c" and ?en = "take 8 (drop 40 c)"
  let ?net = "network_label (derivation_path_network (global_derivation_path s))"
  have w: "address_buffer (as_sender ?a)" "length (as_energyDisplay ?a) = 21" "length (as_network ?a) = 24"
    using assms(2) by (simp_all add: wf_sender_def cbuf_def)
  have addr: "length ?addr = 32" using False by simp
  show ?thesis
  proof (cases "address_text E ?addr")
    case None
    then show ?thesis
      using assms False w addr
      by (simp add: hashAccountTransactionHeaderAndKind_def encode_address_eq)
  next
    case (Some t)
    have t: "length t = 50" "0 \<notin> set t"
      using address_text_Some [OF _ _ addr Some] sdk_okD [OF assms(1)] by simp_all
    let ?d = "dec (be_nat ?en)"
    have en: "unat (of_nat (be_nat ?en) :: u64) = be_nat ?en" using False by (intro unat_be_nat_8) simp
    have ld: "length ?d \<le> 20" using length_dec_u64 [of "of_nat (be_nat ?en)"] by (simp add: en)
    let ?a' = "?a\<lparr> as_sender := t @ zeros 7, as_energyDisplay := ?d @ 0 # zeros (20 - length ?d),
      as_network := ?net @ zeros (24 - length ?net) \<rparr>"
    let ?s' = "s\<lparr> global_account_sender := ?a' \<rparr>"
    have dz: "drop k (zeros 21) = zeros (21 - k)" for k by (simp add: zeros_def)
    have e: "bin_to_dec E (zeros 21) (of_nat (be_nat ?en)) =
        Ok (?d @ 0 # zeros (20 - length ?d), length ?d + 1)"
      using bin_to_dec_Ok [OF sdk_okD(1) [OF assms(1)], of "zeros 21"] by (simp add: en dz)
    have eq: "hashAccountTransactionHeaderAndKind E c kind s = hashHeaderAndType E c 60 kind ?s'"
      using False w addr Some
      by (simp add: hashAccountTransactionHeaderAndKind_def encode_address_eq [OF assms(1)] slice_Ok
          U8BE_def e path_display_network_Ok Let_def)
    have "wf_sender ?a'"
      using t ld length_network_label [of "derivation_path_network (global_derivation_path s)"]
      by (simp add: wf_sender_def)
    moreover have "header_rows E (take 60 c) (global_derivation_path s) ?a'"
      using t Some by (simp add: header_rows_def min_def drop_take)
    moreover have "tx_hash ?s' = Some h" using assms(3) by simp
    ultimately show ?thesis
      unfolding eq by (intro wp_mono [OF hashHeaderAndType_wp]) (auto simp: header_frame_def)
  qed
qed

text \<open>The signing path, as a fact about the path the application derives keys from.\<close>

lemma parse_path_wp:
  "wp (parse_path c s)
    (\<lambda>n t. 1 \<le> n \<and> n \<le> 33 \<and> n \<le> length c \<and> signing_path (global_derivation_path t) \<and>
       (\<exists>ns. take n c = path_bytes ns \<and> length ns \<le> 8 \<and>
             used_nodes (global_derivation_path t) = map hardened ns) \<and>
       t = s\<lparr> global_derivation_path := global_derivation_path t \<rparr>)
    (\<lambda>e t. e = ERROR_INVALID_PATH \<and> wf_path (global_derivation_path t) \<and>
       t = s\<lparr> global_derivation_path := global_derivation_path t \<rparr>)"
proof -
  obtain dp r where p: "parse_derivation_path c = (dp, r)" by (cases "parse_derivation_path c")
  then show ?thesis
    using parse_derivation_path_wp [of c] by (cases r) (auto simp: parse_path_def)
qed

text \<open>
  \<open>opened E c kind s t rest\<close>: the packet c begins with a path, a header and the byte kind, and
  \<open>rest\<close> follows; t has absorbed header and kind, holds the path for signing, and its header
  rows show the header.
\<close>

definition opened :: "sdk \<Rightarrow> bytes \<Rightarrow> u8 \<Rightarrow> app \<Rightarrow> bytes \<Rightarrow> bytes \<Rightarrow> bool" where
  "opened E c kind t hdr rest \<longleftrightarrow>
     (\<exists>ns. length ns \<le> 8 \<and> length hdr = 60 \<and> c = path_bytes ns @ hdr @ [kind] @ rest \<and>
        used_nodes (global_derivation_path t) = map hardened ns) \<and>
     signing_path (global_derivation_path t) \<and>
     header_rows E hdr (global_derivation_path t) (global_account_sender t) \<and>
     wf_sender (global_account_sender t)"

lemma opened_cong [simp]:
  "opened E c kind (t\<lparr> tx_hash := h \<rparr>) hdr rest = opened E c kind t hdr rest"
  "opened E c kind (t\<lparr> global := g \<rparr>) hdr rest = opened E c kind t hdr rest"
  by (simp_all add: opened_def)

lemma header_split: "61 \<le> length d \<Longrightarrow> d ! 60 = k \<Longrightarrow> take 61 d = take 60 d @ [k]"
  using take_Suc_conv_app_nth [of 60 d] by simp

lemma tx_hash_self [simp]:
  "\<exists>h. t = t\<lparr> tx_hash := h \<rparr>" "\<exists>h. t\<lparr> tx_hash := k \<rparr> = t\<lparr> tx_hash := h \<rparr>"
  by (rule exI [of _ "tx_hash t"], simp) blast

lemma openedI:
  assumes "take n c = path_bytes ns" "n \<le> length c" "length ns \<le> 8" "61 \<le> length (drop n c)"
    "drop n c ! 60 = kind" "used_nodes (global_derivation_path t) = map hardened ns"
    "signing_path (global_derivation_path t)" "wf_sender (global_account_sender t)"
    "header_rows E (take 60 (drop n c)) (global_derivation_path t) (global_account_sender t)"
  shows "opened E c kind t (take 60 (drop n c)) (drop 61 (drop n c))"
proof -
  have k: "take 61 (drop n c) = take 60 (drop n c) @ [kind]"
    by (rule header_split [OF assms(4,5)])
  have "c = take n c @ take 61 (drop n c) @ drop 61 (drop n c)" by (simp only: append_take_drop_id)
  also have "\<dots> = path_bytes ns @ take 60 (drop n c) @ [kind] @ drop 61 (drop n c)"
    unfolding k assms(1) by simp
  finally show "opened E c kind t (take 60 (drop n c)) (drop 61 (drop n c))"
    using assms unfolding opened_def by (intro conjI exI [of _ ns]) auto
qed

lemma to_address_wp:
  assumes E: "sdk_ok E" and dst: "address_buffer dst" and len: "length r < 256"
    and op: "opened E c kind t hdr r" and h: "tx_hash t = Some h"
  shows "wp (if length r < 32 then Throw ERROR_INVALID_TRANSACTION t
      else call (slice r 0 32) t (\<lambda>toAddress.
           bind (update_hash E toAddress t) (\<lambda>_ s.
           call (encode_address E toAddress dst) s (\<lambda>recipientDst. Ret (n, recipientDst) s))))
    (\<lambda>(off, dst') u. off = n \<and> 32 \<le> length r \<and> opened E c kind u hdr r \<and>
       tx_hash u = Some (h @ take 32 r) \<and> address_text E (take 32 r) = Some (cstr dst') \<and>
       address_buffer dst' \<and> header_frame t u)
    (\<lambda>e u. status_word e \<and> (\<exists>h. u = t\<lparr> tx_hash := h \<rparr>))"
proof (cases "length r < 32")
  case True
  then show ?thesis by simp
next
  case False
  then have to: "length (take 32 r) = 32" by simp
  show ?thesis
  proof (cases "address_text E (take 32 r)")
    case None
    then show ?thesis using False h by (simp add: encode_address_eq [OF E to dst])
  next
    case (Some a)
    then have "length a = 50" "0 \<notin> set a" using address_text_Some [OF sdk_okD(3,4) [OF E] to] by simp_all
    then show ?thesis using Some False h op by (simp add: encode_address_eq [OF E to dst])
  qed
qed

lemma handleHeaderAndToAddress_wp:
  assumes E: "sdk_ok E" and wfs: "wf_sender (global_account_sender s)"
    and dst: "address_buffer dst" and len: "length c < 256"
  shows "wp (handleHeaderAndToAddress E c kind dst s)
    (\<lambda>(off, dst') t. \<exists>hdr to rest. length to = 32 \<and> opened E c kind t hdr (to @ rest) \<and>
       off \<le> length c \<and> drop off c = rest \<and> tx_hash t = Some (hdr @ [kind] @ to) \<and>
       address_text E to = Some (cstr dst') \<and> address_buffer dst' \<and> header_frame s t)
    (\<lambda>e t. status_word e \<and> wf_sender (global_account_sender t) \<and>
       wf_path (global_derivation_path t) \<and> header_frame s t)" (is "wp _ ?Q ?X")
proof -
  have path: "wp (bind (init_tx_hash E t) (\<lambda>_ s.
      let cdata = drop n c; remainingDataLength = sub8 (length cdata + n) n in
      bind (hashAccountTransactionHeaderAndKind E cdata kind s) (\<lambda>headerLength s.
      let cdata = drop headerLength cdata;
          remainingDataLength = sub8 remainingDataLength headerLength in
      if remainingDataLength < 32 then Throw ERROR_INVALID_TRANSACTION s
      else call (slice cdata 0 32) s (\<lambda>toAddress.
           bind (update_hash E toAddress s) (\<lambda>_ s.
           call (encode_address E toAddress dst) s (\<lambda>recipientDst.
           Ret (n + headerLength + 32, recipientDst) s)))))) ?Q ?X"
    if n: "n \<le> length c" "signing_path (global_derivation_path t)" "take n c = path_bytes ns"
      "length ns \<le> 8" "used_nodes (global_derivation_path t) = map hardened ns"
      and t: "t = s\<lparr> global_derivation_path := global_derivation_path t \<rparr>" for n t ns
  proof -
    let ?c = "drop n c" and ?t = "t\<lparr> tx_hash := Some [] \<rparr>"
    let ?r = "drop 61 ?c"
    have snd: "wf_sender (global_account_sender t)" using wfs by (subst t) simp
    have wfp: "wf_path (global_derivation_path t)" using n(2) by (simp add: signing_path_def)
    have fr: "header_frame s t" "header_frame s ?t" by (subst t, simp add: header_frame_def)+
    have tail: "wp (let cdata = drop 61 ?c; remainingDataLength = sub8 (sub8 (length ?c + n) n) 61 in
        if remainingDataLength < 32 then Throw ERROR_INVALID_TRANSACTION u
        else call (slice cdata 0 32) u (\<lambda>toAddress.
             bind (update_hash E toAddress u) (\<lambda>_ s.
             call (encode_address E toAddress dst) s (\<lambda>recipientDst.
             Ret (n + 61 + 32, recipientDst) s)))) ?Q ?X"
      if u: "61 \<le> length ?c" "?c ! 60 = kind" "tx_hash u = Some (take 61 ?c)"
        "header_rows E (take 60 ?c) (global_derivation_path t) (global_account_sender u)"
        "wf_sender (global_account_sender u)"
        "global_derivation_path u = global_derivation_path t" "header_frame ?t u" for u
    proof -
      have fru: "header_frame s u" using fr(2) u(7) by (rule header_frame_trans)
      have l: "sub8 (sub8 (length ?c + n) n) 61 = length ?r" using u(1) n(1) len by simp
      have op: "opened E c kind u (take 60 ?c) ?r" "take 61 ?c = take 60 ?c @ [kind]"
        using openedI [OF n(3,1,4) u(1,2), of u E] header_split [OF u(1,2)] n(2,5) u(4,5,6) by simp_all
      have "length ?r < 256" using len by simp
      note w = to_address_wp [OF E dst this op(1) u(3), where n = "n + 61 + 32"]
      show ?thesis
        unfolding Let_def l
      proof (rule wp_mono [OF w], goal_cases)
        case (1 a v)
        then have v: "header_frame s v" using fru header_frame_trans by auto
        have "drop (n + 93) c = drop 32 (drop (n + 61) c)" by (simp add: add.commute)
        then have tr: "take 32 (drop (n + 61) c) @ drop (n + 93) c = drop (n + 61) c"
          by (metis append_take_drop_id)
        obtain off dst' where a: "a = (off, dst')" by (cases a)
        show ?case
          unfolding a prod.case
          by (rule exI [of _ "take 60 ?c"], rule exI [of _ "take 32 ?r"], rule exI [of _ "drop 32 ?r"])
            (use 1 a v op tr in \<open>auto simp: ac_simps\<close>)
      next
        case (2 e v)
        then show ?case
          using fru u(5,6) wfp by (auto intro: header_frame_trans)
      qed
    qed
    show ?thesis
    proof (cases "sdk_sha256_init E")
      case False
      then show ?thesis using fr snd wfp by simp
    next
      case True
      have tx: "tx_hash ?t = Some []" "wf_sender (global_account_sender ?t)" using snd by simp_all
      show ?thesis
        unfolding wp_bind wp_init_tx_hash if_P [OF True] Let_def [of "drop n c"]
          Let_def [of "sub8 _ _"]
      proof (rule wp_mono [OF hashAccountTransactionHeaderAndKind_wp [OF E tx(2,1)]], goal_cases)
        case (1 r u)
        then have r: "r = 61" by blast
        show ?case unfolding r Let_def by (rule tail [unfolded Let_def]) (use 1 in simp_all)
      next
        case (2 e u)
        then show ?case using fr(2) wfp by (auto intro: header_frame_trans)
      qed
    qed
  qed
  show ?thesis
    unfolding handleHeaderAndToAddress_def wp_bind
  proof (rule wp_mono [OF parse_path_wp], goal_cases)
    case (1 n t)
    then show ?case using path [of n t] unfolding wp_bind by blast
  next
    case (2 e t)
    then have "header_frame s t" "global_account_sender t = global_account_sender s"
      using header_frame_path by blast+
    then show ?case using 2 wfs by simp
  qed
qed

text \<open>
  The signature: Ed25519 over the digest of everything absorbed, with the key of the path the
  header was opened with.
\<close>

definition signature_of :: "sdk \<Rightarrow> derivation_path \<Rightarrow> bytes \<Rightarrow> bytes option" where
  "signature_of E path msg =
     (case sdk_hash_final E msg of
        None \<Rightarrow> None
      | Some d \<Rightarrow> (case sign E path d of Ok sg \<Rightarrow> Some sg | _ \<Rightarrow> None))"

lemma buildAndSign_wp:
  assumes "sdk_ok E" "tx_hash s = Some m"
  shows "wp (buildAndSignTransactionHash E s)
    (\<lambda>_ t. \<exists>sg. signature_of E (global_derivation_path s) m = Some sg \<and> length sg = 64 \<and>
       replies t = replies s @ [(sg, SWO_SUCCESS)] \<and> screen t = None \<and>
       currentInstruction t = INSTRUCTION_NONE \<and> wf_app t = wf_app s)
    (\<lambda>e t. status_word e \<and> signature_of E (global_derivation_path s) m = None \<and>
       same_ui s t \<and> wf_app t = wf_app s)"
proof -
  have d: "digests E" and k: "derives_keys E" using sdk_okD [OF assms(1)] by simp_all
  show ?thesis
  proof (cases "sdk_hash_final E m")
    case None
    then show ?thesis
      using assms(2) by (simp add: buildAndSignTransactionHash_def final_ctx_def signature_of_def)
  next
    case (Some h)
    show ?thesis
    proof (cases "sign E (global_derivation_path s) h")
      case (Ok sg)
      then show ?thesis
        using assms(2) Some rwp_sign [OF k, of "global_derivation_path s" h]
        by (simp add: buildAndSignTransactionHash_def final_ctx_def signature_of_def wf_app_def)
    qed (use assms(2) Some rwp_sign [OF k, of "global_derivation_path s" h] in
        \<open>simp_all add: buildAndSignTransactionHash_def final_ctx_def signature_of_def wf_app_def\<close>)
  qed
qed

end
