(* ===== verification/DataBlob.thy ===== *)
theory DataBlob
  imports TxHash
begin

text \<open>
  Memo and register-data blobs: src/src/helpers/cbor_data_blob.c.

  A blob arrives in chunks, is buffered, and is decoded when the last byte is in.  The lemmas show
  that the buffer is the concatenation of the accepted chunks, that an accepted blob is the
  canonical encoding of one integer or text string, and that the type label and the text shown
  determine the blob.
\<close>

unbundle bit_operations_syntax

subsection \<open>Operations\<close>

definition cbor_set_type_label :: "bytes \<Rightarrow> cborContext \<Rightarrow> cborContext result" where
  "cbor_set_type_label label ctx =
     (if length (cb_typeLabel ctx) < length label + 1 then Err ERROR_BUFFER_OVERFLOW
      else rbind (put (zeros (length (cb_typeLabel ctx))) 0 label) (\<lambda>typeLabel.
           Ok (ctx\<lparr> cb_typeLabel := typeLabel \<rparr>)))"

definition cbor_argument_is_canonical :: "cborContext \<Rightarrow> nat \<Rightarrow> bool result" where
  "cbor_argument_is_canonical ctx argument =
     rbind (byte_at (cb_cborBuf ctx) 0) (\<lambda>b.
       let shortCount = b AND 0x1F in
       Ok (if shortCount = 24 then 23 < argument
           else if shortCount = 25 then 0xFF < argument
           else if shortCount = 26 then 0xFFFF < argument
           else if shortCount = 27 then 0xFFFFFFFF < argument
           else True))"

text \<open>
  \<open>parse_complete_cbor\<close> returns a status word and the context; a THROW is an Err.  The checks the
  two integer branches share come first: the value, the cursor at the end of the buffer and the
  shortest encoding.
\<close>

definition cbor_integer_argument ::
    "sdk \<Rightarrow> cborContext \<Rightarrow> cbor_value \<Rightarrow> u64 option \<Rightarrow> u64 option result" where
  "cbor_integer_argument E ctx v got =
     (let T = sdk_cbor E; end_ptr = cb_cborBufLen ctx in
      case got of
        None \<Rightarrow> Ok None
      | Some n \<Rightarrow>
          (case cbor_value_advance_fixed T v of
             None \<Rightarrow> Ok None
           | Some w \<Rightarrow>
               if cbor_value_get_next_byte T w \<noteq> end_ptr then Ok None
               else rbind (cbor_argument_is_canonical ctx (unat n)) (\<lambda>ok.
                    Ok (if ok then Some n else None))))"

text \<open>The text branch after the string chunk was found: \<open>len\<close> bytes at \<open>ptr\<close>.\<close>

definition cbor_accept_text :: "nat \<Rightarrow> nat \<Rightarrow> cborContext \<Rightarrow> (u16 \<times> cborContext) result" where
  "cbor_accept_text ptr len ctx =
     rbind (cbor_argument_is_canonical ctx len) (\<lambda>ok.
     if \<not> ok then Ok (ERROR_INVALID_TRANSACTION, ctx)
     else if 255 < len then Ok (ERROR_INVALID_TRANSACTION, ctx)
     else rbind (slice (cb_cborBuf ctx) ptr len) (\<lambda>t.
       if \<not> is_displayable_text t then Ok (ERROR_INVALID_TRANSACTION, ctx)
       else rbind (cbor_set_type_label (ascii ''Text'') ctx) (\<lambda>ctx.
         rbind (put (cb_display ctx) 0 t) (\<lambda>display.
         rbind (put display len [0]) (\<lambda>display.
         Ok (SWO_SUCCESS, ctx\<lparr> cb_display := display, cb_displayLen := len \<rparr>))))))"

text \<open>The sign, and the absolute value 1 + n of the number - 1 - n, or the sum when it overflows.\<close>

definition negative_display :: "sdk \<Rightarrow> bytes \<Rightarrow> u64 \<Rightarrow> bytes result" where
  "negative_display E display n =
     rbind (put display 0 [45]) (\<lambda>display.
     if n = 0xFFFFFFFFFFFFFFFF then
       rbind (at_offset display 1 (\<lambda>d. bin_to_dec E d n)) (\<lambda>(display, _).
       rbind (put display (1 + 20) (ascii '' - 1'')) (\<lambda>display.
       put display (1 + 20 + 4) [0]))
     else
       rbind (at_offset display 1 (\<lambda>d. bin_to_dec E d (n + 1))) (\<lambda>(display, _). Ok display))"

definition parse_complete_cbor :: "sdk \<Rightarrow> cborContext \<Rightarrow> (u16 \<times> cborContext) result" where
  "parse_complete_cbor E ctx =
     (let T = sdk_cbor E; end_ptr = cb_cborBufLen ctx in
      rbind (slice (cb_cborBuf ctx) 0 end_ptr) (\<lambda>buf.
      case cbor_parser_init T buf of
        None \<Rightarrow> Ok (ERROR_INVALID_TRANSACTION, ctx)
      | Some v \<Rightarrow>
          let ctx = ctx\<lparr> cb_displayLen := 0 \<rparr> in
          if cbor_value_is_unsigned_integer T v then
            rbind (cbor_integer_argument E ctx v (cbor_value_get_uint64 T v)) (\<lambda>arg.
            case arg of
              None \<Rightarrow> Ok (ERROR_INVALID_TRANSACTION, ctx)
            | Some n \<Rightarrow>
                rbind (cbor_set_type_label (ascii ''Unsigned integer'') ctx) (\<lambda>ctx.
                rbind (bin_to_dec E (cb_display ctx) n) (\<lambda>(display, _).
                Ok (SWO_SUCCESS, ctx\<lparr> cb_display := display \<rparr>))))
          else if cbor_value_is_negative_integer T v then
            rbind (cbor_integer_argument E ctx v (cbor_value_get_raw_integer T v)) (\<lambda>arg.
            case arg of
              None \<Rightarrow> Ok (ERROR_INVALID_TRANSACTION, ctx)
            | Some n \<Rightarrow>
                rbind (cbor_set_type_label (ascii ''Negative integer'') ctx) (\<lambda>ctx.
                rbind (negative_display E (cb_display ctx) n) (\<lambda>display.
                Ok (SWO_SUCCESS, ctx\<lparr> cb_display := display \<rparr>))))
          else if cbor_value_is_text_string T v then
            (if \<not> cbor_value_is_length_known T v then Ok (ERROR_UNSUPPORTED_CBOR, ctx)
             else case cbor_value_begin_string_iteration T v of
               None \<Rightarrow> Ok (ERROR_INVALID_TRANSACTION, ctx)
             | Some v \<Rightarrow>
                 (case cbor_value_get_text_string_chunk T v of
                    None \<Rightarrow> Ok (ERROR_INVALID_TRANSACTION, ctx)
                  | Some (ptr, len, nxt) \<Rightarrow>
                      if cbor_value_get_next_byte T nxt \<noteq> end_ptr
                      then Ok (ERROR_INVALID_TRANSACTION, ctx)
                      else cbor_accept_text ptr len ctx))
          else Ok (ERROR_UNSUPPORTED_CBOR, ctx)))"

definition readCborInitial :: "sdk \<Rightarrow> bytes \<Rightarrow> cborContext \<Rightarrow> (u16 \<times> cborContext) result" where
  "readCborInitial E chunk ctx =
     (let dataLength = length chunk in
      if dataLength < 1 \<or> cb_cborLength ctx < 1 then Err SWO_INCORRECT_DATA
      else if cb_cborLength ctx < dataLength then Err SWO_INCORRECT_DATA
      else rbind (put (cb_cborBuf ctx) 0 chunk) (\<lambda>buf.
        let ctx = ctx\<lparr> cb_cborBuf := buf, cb_cborBufLen := dataLength,
                       cb_cborLength := cb_cborLength ctx - dataLength \<rparr> in
        if cb_cborLength ctx = 0 then parse_complete_cbor E ctx else Ok (SWO_SUCCESS, ctx)))"

definition readCborContent :: "sdk \<Rightarrow> bytes \<Rightarrow> cborContext \<Rightarrow> (u16 \<times> cborContext) result" where
  "readCborContent E chunk ctx =
     (let contentLength = length chunk in
      if cb_cborLength ctx < contentLength then Err SWO_INCORRECT_DATA
      else if 257 < cb_cborBufLen ctx + contentLength then Err SWO_INCORRECT_DATA
      else rbind (put (cb_cborBuf ctx) (cb_cborBufLen ctx) chunk) (\<lambda>buf.
        let ctx = ctx\<lparr> cb_cborBuf := buf, cb_cborBufLen := cb_cborBufLen ctx + contentLength,
                       cb_cborLength := cb_cborLength ctx - contentLength \<rparr> in
        if cb_cborLength ctx = 0 then parse_complete_cbor E ctx else Ok (SWO_SUCCESS, ctx)))"

subsection \<open>Canonical encodings\<close>

text \<open>The blob received so far.\<close>

definition blob :: "cborContext \<Rightarrow> bytes" where
  "blob c = take (cb_cborBufLen c) (cb_cborBuf c)"

definition cbor_encode_head :: "nat \<Rightarrow> nat \<Rightarrow> bytes" where
  "cbor_encode_head major n =
     (let ib = \<lambda>ai. of_nat (major * 32 + ai) in
      if n < 24 then [ib n]
      else if n < 0x100 then ib 24 # to_be 1 n
      else if n < 0x10000 then ib 25 # to_be 2 n
      else if n < 0x100000000 then ib 26 # to_be 4 n
      else ib 27 # to_be 8 n)"

datatype cbor_item = Unsigned nat | Negative nat | Text bytes

text \<open>The canonical (shortest) encoding; \<open>Negative n\<close> is the number - 1 - n.\<close>

primrec cbor_encode :: "cbor_item \<Rightarrow> bytes" where
  "cbor_encode (Unsigned n) = cbor_encode_head 0 n"
| "cbor_encode (Negative n) = cbor_encode_head 1 n"
| "cbor_encode (Text t) = cbor_encode_head 3 (length t) @ t"

primrec item_label :: "cbor_item \<Rightarrow> bytes" where
  "item_label (Unsigned n) = ascii ''Unsigned integer''"
| "item_label (Negative n) = ascii ''Negative integer''"
| "item_label (Text t) = ascii ''Text''"

primrec item_text :: "cbor_item \<Rightarrow> bytes" where
  "item_text (Unsigned n) = dec n"
| "item_text (Negative n) =
     45 # (if n = 2 ^ 64 - 1 then dec n @ ascii '' - 1'' else dec (n + 1))"
| "item_text (Text t) = t"

primrec valid_item :: "cbor_item \<Rightarrow> bool" where
  "valid_item (Unsigned n) = (n < 2 ^ 64)"
| "valid_item (Negative n) = (n < 2 ^ 64)"
| "valid_item (Text t) = (length t \<le> 255 \<and> is_displayable_text t)"

lemma dec_not_space: "32 \<notin> set (dec n)"
  by (rule dec_no_stop) (simp add: is_digit_def)

lemma item_review_inj:
  assumes "item_label i = item_label j" "item_text i = item_text j"
  shows "i = j"
proof (cases i)
  case (Negative m)
  then obtain n where j: "j = Negative n" using assms(1) by (cases j) (auto simp: ascii_def)
  have sp: "32 \<in> set (ascii '' - 1'')" by (simp add: ascii_def)
  have "m = 2 ^ 64 - 1 \<longleftrightarrow> n = 2 ^ 64 - 1"
  proof (rule ccontr)
    assume "\<not> ?thesis"
    then have "dec m @ ascii '' - 1'' = dec (n + 1) \<or> dec n @ ascii '' - 1'' = dec (m + 1)"
      using assms(2) Negative j by (auto split: if_splits)
    then show False using sp dec_not_space by (metis Un_iff set_append)
  qed
  then show ?thesis using assms(2) Negative j by (auto split: if_splits)
qed (cases j; use assms in \<open>auto simp: ascii_def\<close>)+

subsection \<open>Accepted blobs are canonical\<close>

lemma short_count: "unat ((b :: u8) AND 0x1F) = unat b mod 32"
proof -
  have "b AND 0x1F = take_bit 5 b" by (simp add: take_bit_eq_mask mask_eq_exp_minus_1)
  then have "unat (b AND 0x1F) = take_bit 5 (unat b)" by (simp add: unsigned_take_bit_eq)
  then show ?thesis by (simp add: take_bit_eq_mod)
qed

lemma canonical_iff:
  assumes "cb_cborBuf ctx \<noteq> []"
  shows "cbor_argument_is_canonical ctx n =
    (let ai = unat (hd (cb_cborBuf ctx)) mod 32 in
     Ok (if ai = 24 then 23 < n else if ai = 25 then 0xFF < n else if ai = 26 then 0xFFFF < n
         else if ai = 27 then 0xFFFFFFFF < n else True))"
proof -
  let ?b = "hd (cb_cborBuf ctx)"
  have "(?b AND 0x1F = w) = (unat ?b mod 32 = unat w)" for w
    by (simp add: word_unat_eq_iff short_count)
  then show ?thesis
    using assms by (simp add: cbor_argument_is_canonical_def byte_at_def hd_conv_nth Let_def)
qed

lemma initial_byte: "(of_nat (unat b div 32 * 32 + unat b mod 32) :: u8) = b"
  by (simp only: div_mult_mod_eq) simp

lemma canonical_head:
  assumes "cbor_head buf = Some (major, Some n, k)"
    "let ai = unat (hd buf) mod 32 in
     (if ai = 24 then 23 < n else if ai = 25 then 0xFF < n else if ai = 26 then 0xFFFF < n
      else if ai = 27 then 0xFFFFFFFF < n else True)"
  shows "take k buf = cbor_encode_head major n \<and> n < 2 ^ 64 \<and> k \<le> length buf \<and> 0 < k"
proof -
  obtain b bs where buf: "buf = b # bs" using assms(1) by (cases buf) (auto simp: cbor_head_def)
  let ?ai = "unat b mod 32"
  have ai: "?ai < 32" by simp
  have m: "major = unat b div 32"
    using assms(1) buf by (auto simp: cbor_head_def Let_def split: if_splits)
  have wide: "take k buf = b # to_be j n \<and> n < 256 ^ j \<and> k \<le> length buf \<and> 0 < k"
    if "k = j + 1" "n = be_nat (take j bs)" "j < length buf" for j
  proof -
    have "length (take j bs) = j" using that buf by simp
    then show ?thesis
      using that buf to_be_be_nat [of "take j bs"] be_nat_bound [of "take j bs"] by simp
  qed
  have ib: "b = of_nat (major * 32 + ?ai)" unfolding m by (simp only: initial_byte)
  consider (inline) "?ai < 24" "n = ?ai" "k = 1"
    | (one) "?ai = 24" "k = 1 + 1" "n = be_nat (take 1 bs)" "1 < length buf"
    | (two) "?ai = 25" "k = 2 + 1" "n = be_nat (take 2 bs)" "2 < length buf"
    | (four) "?ai = 26" "k = 4 + 1" "n = be_nat (take 4 bs)" "4 < length buf"
    | (eight) "?ai = 27" "k = 8 + 1" "n = be_nat (take 8 bs)" "8 < length buf"
    using assms(1) buf by (auto simp: cbor_head_def Let_def split: if_splits)
  then show ?thesis
  proof cases
    case inline
    then show ?thesis using buf ib by (simp add: cbor_encode_head_def Let_def)
  next
    case one
    then show ?thesis
      using wide [OF one(2-4)] ib assms(2) buf by (simp add: cbor_encode_head_def Let_def)
  next
    case two
    then show ?thesis
      using wide [OF two(2-4)] ib assms(2) buf by (simp add: cbor_encode_head_def Let_def)
  next
    case four
    then show ?thesis
      using wide [OF four(2-4)] ib assms(2) buf by (simp add: cbor_encode_head_def Let_def)
  next
    case eight
    then show ?thesis
      using wide [OF eight(2-4)] ib assms(2) buf by (simp add: cbor_encode_head_def Let_def)
  qed
qed

text \<open>The context after a decoded blob: the buffers keep their sizes, and on success the label and
  the text are those of the item the blob encodes.\<close>

definition decoded :: "cborContext \<Rightarrow> u16 \<Rightarrow> cborContext \<Rightarrow> bool" where
  "decoded c sw c' \<longleftrightarrow> wf_cbor c' \<and> cb_cborBuf c' = cb_cborBuf c \<and>
     cb_cborBufLen c' = cb_cborBufLen c \<and> cb_cborLength c' = cb_cborLength c \<and> status_word sw \<and>
     (sw = SWO_SUCCESS \<longrightarrow> (\<exists>item. valid_item item \<and> blob c = cbor_encode item \<and>
        cstr (cb_typeLabel c') = item_label item \<and> cstr (cb_display c') = item_text item))"

lemma decoded_refused:
  "wf_cbor c \<Longrightarrow> sw \<noteq> SWO_SUCCESS \<Longrightarrow> status_word sw \<Longrightarrow> decoded c sw (c\<lparr> cb_displayLen := n \<rparr>)"
  "wf_cbor c \<Longrightarrow> sw \<noteq> SWO_SUCCESS \<Longrightarrow> status_word sw \<Longrightarrow> decoded c sw c"
  by (simp_all add: decoded_def wf_cbor_def)

lemma decoded_success:
  assumes "wf_cbor c" "valid_item item" "blob c = cbor_encode item"
    "cb_cborBuf c' = cb_cborBuf c" "cb_cborBufLen c' = cb_cborBufLen c"
    "cb_cborLength c' = cb_cborLength c" "cstr (cb_typeLabel c') = item_label item"
    "cstr (cb_display c') = item_text item" "cbuf 20 (cb_typeLabel c')" "cbuf 256 (cb_display c')"
  shows "decoded c SWO_SUCCESS c'"
  using assms by (auto simp: decoded_def wf_cbor_def status_word_def)

lemma type_labels:
  assumes "length (cb_typeLabel c) = 20"
  shows "cbor_set_type_label (ascii ''Unsigned integer'') c =
      Ok (c\<lparr> cb_typeLabel := ascii ''Unsigned integer'' @ zeros 4 \<rparr>)"
    "cbor_set_type_label (ascii ''Negative integer'') c =
      Ok (c\<lparr> cb_typeLabel := ascii ''Negative integer'' @ zeros 4 \<rparr>)"
    "cbor_set_type_label (ascii ''Text'') c = Ok (c\<lparr> cb_typeLabel := ascii ''Text'' @ zeros 16 \<rparr>)"
  using assms by (simp_all add: cbor_set_type_label_def put_def zeros_def)

lemma zero_notin_labels [simp]: "0 \<notin> set (ascii ''Unsigned integer'')"
  "0 \<notin> set (ascii ''Negative integer'')" "0 \<notin> set (ascii ''Text'')"
  by (simp_all add: ascii_def)

lemma negative_display_wp:
  assumes "formats_numbers E" "length d = 256"
  shows "rwp (negative_display E d n)
    (\<lambda>d'. cbuf 256 d' \<and> cstr d' = item_text (Negative (unat n))) (\<lambda>_. False)"
proof (cases "n = 0xFFFFFFFFFFFFFFFF")
  case True
  have max20: "length (dec 18446744073709551615) = 20"
    using length_dec_le [of 18446744073709551615 20] length_dec_ge [of 19 18446744073709551615] by simp
  have minus: "0 \<notin> set (ascii '' - 1'')" by (simp add: ascii_def)
  show ?thesis
    using assms max20 minus cstr_NUL [of "45 # dec 18446744073709551615 @ ascii '' - 1''"]
    unfolding True by (simp add: negative_display_def at_offset_def bin_to_dec_Ok cbuf_def)
next
  case False
  then have n: "unat n \<noteq> 18446744073709551615" by (simp add: word_unat_eq_iff)
  then have "unat (n + 1) = Suc (unat n)"
    using unat_bounds(4) [of n] by (simp add: unat_word_ariths)
  then show ?thesis
    using assms False n cstr_NUL [of "45 # dec (unat (n + 1))"]
    using length_dec_u64 [of "n + 1"] by (simp add: negative_display_def at_offset_def bin_to_dec_Ok cbuf_def)
qed

lemma cbor_head_bound:
  assumes "cbor_head buf = Some (major, Some a, k)"
  shows "a < 2 ^ 64 \<and> buf \<noteq> [] \<and> k \<le> length buf \<and> unat (of_nat a :: u64) = a"
proof -
  obtain b bs where buf: "buf = b # bs" using assms by (cases buf) (auto simp: cbor_head_def)
  have len: "be_nat (take j bs) < 2 ^ 64" if "j \<le> 8" for j
  proof -
    have "length (take j bs) \<le> 8" using that by simp
    then have "(256 :: nat) ^ length (take j bs) \<le> 256 ^ 8" by (rule power_increasing) simp
    then show ?thesis using be_nat_bound [of "take j bs"] by simp
  qed
  have "a < 2 ^ 64 \<and> k \<le> length buf"
    using assms buf len [of 1] len [of 2] len [of 4] len [of 8] mod_less_divisor [of 32 "unat b"]
    by (auto simp: cbor_head_def Let_def Suc_le_eq split: if_splits)
  then show ?thesis using buf by (simp add: unsigned_of_nat take_bit_nat_eq_self)
qed

lemma canonical_argument:
  assumes "cbor_head (blob c) = Some (major, Some a, k)" "cb_cborBuf c' = cb_cborBuf c"
  shows "rwp (cbor_argument_is_canonical c' a)
    (\<lambda>ok. ok \<longrightarrow> take k (blob c) = cbor_encode_head major a) (\<lambda>_. False)"
proof -
  have "cb_cborBuf c' \<noteq> []" "hd (cb_cborBuf c') = hd (blob c)"
    using cbor_head_bound [OF assms(1)] assms(2) by (auto simp: blob_def hd_take)
  then show ?thesis
    using canonical_head [OF assms(1)] by (auto simp: canonical_iff Let_def)
qed

lemma integer_argument:
  assumes "cbor_head (blob c) = Some (major, arg, k)" "wf_cbor c"
    "\<forall>w. cbor_value_advance_fixed (sdk_cbor E) v = Some w \<longrightarrow>
       cbor_value_get_next_byte (sdk_cbor E) w = k"
    "got = map_option of_nat arg" "cb_cborBuf c' = cb_cborBuf c" "cb_cborBufLen c' = cb_cborBufLen c"
  shows "rwp (cbor_integer_argument E c' v got)
    (\<lambda>r. \<forall>n. r = Some n \<longrightarrow> blob c = cbor_encode_head major (unat n)) (\<lambda>_. False)"
proof (cases "got = None \<or> cbor_value_advance_fixed (sdk_cbor E) v = None")
  case True
  then show ?thesis by (auto simp: cbor_integer_argument_def Let_def split: option.split)
next
  case False
  then obtain a w where a: "arg = Some a" "got = Some (of_nat a)"
    and w: "cbor_value_advance_fixed (sdk_cbor E) v = Some w"
    using assms(4) by (cases arg) auto
  note b = cbor_head_bound [OF assms(1) [unfolded a(1)]]
  have len: "length (blob c) = cb_cborBufLen c"
    using assms(2) by (simp add: blob_def wf_cbor_def)
  have k: "cbor_value_get_next_byte (sdk_cbor E) w = k" using assms(3) w by blast
  show ?thesis
    using a w k b len assms(6) canonical_argument [OF assms(1) [unfolded a(1)] assms(5)]
    by (auto simp: cbor_integer_argument_def Let_def elim: rwp_mono)
qed

lemma parse_complete_cbor_wp:
  assumes E: "sdk_ok E" "decodes_cbor E" and c: "wf_cbor c"
  shows "rwp (parse_complete_cbor E c) (\<lambda>(sw, c'). decoded c sw c') (\<lambda>_. False)"
proof (cases "cbor_parser_init (sdk_cbor E) (blob c)")
  case None
  have "slice (cb_cborBuf c) 0 (cb_cborBufLen c) = Ok (blob c)"
    using c by (simp add: slice_def blob_def wf_cbor_def)
  then show ?thesis
    using None c by (simp add: parse_complete_cbor_def Let_def decoded_refused)
next
  case (Some v)
  let ?T = "sdk_cbor E" and ?c = "c\<lparr> cb_displayLen := 0 \<rparr>"
  obtain major arg k where
    head: "cbor_head (blob c) = Some (major, arg, k)" and
    int: "cbor_value_is_unsigned_integer ?T v = (major = 0)"
      "cbor_value_is_negative_integer ?T v = (major = 1)"
      "cbor_value_is_text_string ?T v = (major = 3)"
      "cbor_value_is_length_known ?T v = (arg \<noteq> None)" and
    get: "major = 0 \<longrightarrow> cbor_value_get_uint64 ?T v = map_option of_nat arg"
      "major = 1 \<longrightarrow> cbor_value_get_raw_integer ?T v = map_option of_nat arg" and
    adv: "major \<le> 1 \<longrightarrow> (\<forall>w. cbor_value_advance_fixed ?T v = Some w \<longrightarrow>
      cbor_value_get_next_byte ?T w = k)" and
    str: "major = 3 \<longrightarrow> (\<forall>w ptr len nxt. cbor_value_begin_string_iteration ?T v = Some w \<longrightarrow>
      cbor_value_get_text_string_chunk ?T w = Some (ptr, len, nxt) \<longrightarrow> arg \<noteq> None \<longrightarrow>
      arg = Some len \<and> ptr = k \<and> k + len \<le> length (blob c) \<and>
      cbor_value_get_next_byte ?T nxt = k + len)"
    using E(2) [unfolded decodes_cbor_def Let_def, THEN spec, THEN spec, THEN mp, OF Some]
    by - (elim exE conjE, rule that)
  have sl: "slice (cb_cborBuf c) 0 (cb_cborBufLen c) = Ok (blob c)"
    using c by (simp add: slice_def blob_def wf_cbor_def)
  have len: "length (blob c) = cb_cborBufLen c" "length (cb_cborBuf c) = 257"
    "cb_cborBufLen c \<le> 257" "length (cb_display c) = 256" "length (cb_typeLabel c) = 20"
    using c by (simp_all add: blob_def wf_cbor_def cbuf_def)
  note fmt = sdk_okD(1) [OF E(1)]
  consider (unsigned) "major = 0" | (negative) "major = 1" | (string) "major = 3"
    | (other) "major \<noteq> 0" "major \<noteq> 1" "major \<noteq> 3" by blast
  then show ?thesis
  proof cases
    case unsigned
    have "rwp (cbor_integer_argument E ?c v (cbor_value_get_uint64 ?T v))
      (\<lambda>r. \<forall>n. r = Some n \<longrightarrow> blob c = cbor_encode_head 0 (unat n)) (\<lambda>_. False)"
      using integer_argument [OF head c adv [THEN mp], of "cbor_value_get_uint64 ?T v" ?c] get(1) unsigned
      by simp
    moreover have "decoded c SWO_SUCCESS (?c\<lparr> cb_typeLabel := ascii ''Unsigned integer'' @ zeros 4,
        cb_display := dec (unat n) @ 0 # drop (length (dec (unat n)) + 1) (cb_display c) \<rparr>)"
      if "blob c = cbor_encode_head 0 (unat n)" for n :: u64
      using that c len unat_bounds(4) [of n] length_dec_u64 [of n]
      by (intro decoded_success [where item = "Unsigned (unat n)"]) simp_all
    ultimately show ?thesis
      using Some sl int unsigned c len
      by (simp add: parse_complete_cbor_def Let_def, elim rwp_mono)
        (auto split: option.split intro!: decoded_refused simp: type_labels bin_to_dec_Ok [OF fmt])
  next
    case negative
    have "rwp (cbor_integer_argument E ?c v (cbor_value_get_raw_integer ?T v))
      (\<lambda>r. \<forall>n. r = Some n \<longrightarrow> blob c = cbor_encode_head 1 (unat n)) (\<lambda>_. False)"
      using integer_argument [OF head c adv [THEN mp], of "cbor_value_get_raw_integer ?T v" ?c] get(2) negative
      by simp
    moreover have "rwp (negative_display E (cb_display c) n) (\<lambda>d. decoded c SWO_SUCCESS
        (?c\<lparr> cb_typeLabel := ascii ''Negative integer'' @ zeros 4, cb_display := d \<rparr>)) (\<lambda>_. False)"
      if "blob c = cbor_encode_head 1 (unat n)" for n :: u64
      using that c len unat_bounds(4) [of n]
      by (intro rwp_mono [OF negative_display_wp [OF fmt]]
          decoded_success [where item = "Negative (unat n)"]) simp_all
    ultimately show ?thesis
      using Some sl int negative c len
      by (simp add: parse_complete_cbor_def Let_def, elim rwp_mono)
        (auto split: option.split intro!: decoded_refused simp: type_labels)
  next
    case string
    have "rwp (cbor_accept_text k n ?c) (\<lambda>(sw, c'). decoded c sw c') (\<lambda>_. False)"
      if n: "arg = Some n" "k + n = cb_cborBufLen c" for n
    proof -
      let ?t = "drop k (blob c)"
      have t: "take n (drop k (cb_cborBuf c)) = ?t" "length ?t = n" "k + n \<le> 257"
        using n(2) [symmetric] len by (simp_all add: blob_def drop_take)
      have bl: "take k (blob c) = cbor_encode_head 3 n \<Longrightarrow> blob c = cbor_encode (Text ?t)"
        using t(2) by simp (metis append_take_drop_id)
      have acc: "decoded c SWO_SUCCESS (?c\<lparr> cb_typeLabel := ascii ''Text'' @ zeros 16,
          cb_display := ?t @ 0 # drop (Suc n) (cb_display c), cb_displayLen := n \<rparr>)"
        if "take k (blob c) = cbor_encode_head 3 n" "n \<le> 255" "is_displayable_text ?t"
        using bl [OF that(1)] that(2,3) t(2) c len displayable_no_NUL
        by (intro decoded_success [where item = "Text ?t"]) simp_all
      have "rwp (cbor_argument_is_canonical ?c n)
          (\<lambda>ok. ok \<longrightarrow> take k (blob c) = cbor_encode_head 3 n) (\<lambda>_. False)"
        by (rule canonical_argument [OF head [unfolded string n(1)]]) simp
      then obtain ok where ok: "cbor_argument_is_canonical ?c n = Ok ok"
        "ok \<Longrightarrow> take k (blob c) = cbor_encode_head 3 n"
        by (cases "cbor_argument_is_canonical ?c n") simp_all
      have sl: "slice (cb_cborBuf ?c) k n = Ok ?t" using t len(2) by (simp add: slice_Ok)
      have lab: "cbor_set_type_label (ascii ''Text'') ?c = Ok (?c\<lparr> cb_typeLabel := ascii ''Text'' @ zeros 16 \<rparr>)"
        using len(5) by (simp add: type_labels)
      show ?thesis
      proof (cases "ok \<and> n \<le> 255 \<and> is_displayable_text ?t")
        case True
        have "put (cb_display c) 0 ?t = Ok (?t @ drop n (cb_display c))"
          "put (?t @ drop n (cb_display c)) n [0] = Ok (?t @ 0 # drop (Suc n) (cb_display c))"
          using t(2) len(4) True by (simp_all add: put_Ok)
        then have "cbor_accept_text k n ?c = Ok (SWO_SUCCESS, ?c\<lparr> cb_typeLabel := ascii ''Text'' @ zeros 16,
            cb_display := ?t @ 0 # drop (Suc n) (cb_display c), cb_displayLen := n \<rparr>)"
          using True by (simp add: cbor_accept_text_def ok(1) sl [simplified] lab)
        then show ?thesis using acc [OF ok(2)] True by simp
      next
        case False
        then have "cbor_accept_text k n ?c = Ok (ERROR_INVALID_TRANSACTION, ?c)"
          by (auto simp add: cbor_accept_text_def ok(1) sl [simplified])
        then show ?thesis using decoded_refused [OF c] by simp
      qed
    qed
    then have acc: "rwp (cbor_accept_text p n ?c) (\<lambda>(sw, c'). decoded c sw c') (\<lambda>_. False)"
      if "cbor_value_begin_string_iteration ?T v = Some w" "arg \<noteq> None"
        "cbor_value_get_text_string_chunk ?T w = Some (p, n, nxt)"
        "cbor_value_get_next_byte ?T nxt = cb_cborBufLen c" for w p n nxt
      using that str string by metis
    have eq: "parse_complete_cbor E c =
      (if arg = None then Ok (ERROR_UNSUPPORTED_CBOR, ?c)
       else case cbor_value_begin_string_iteration ?T v of None \<Rightarrow> Ok (ERROR_INVALID_TRANSACTION, ?c)
         | Some w \<Rightarrow> (case cbor_value_get_text_string_chunk ?T w of
             None \<Rightarrow> Ok (ERROR_INVALID_TRANSACTION, ?c)
           | Some (p, n, nxt) \<Rightarrow> if cbor_value_get_next_byte ?T nxt \<noteq> cb_cborBufLen c
               then Ok (ERROR_INVALID_TRANSACTION, ?c) else cbor_accept_text p n ?c))"
      using Some sl int string by (simp add: parse_complete_cbor_def Let_def)
    have "rwp (Ok (e, ?c)) (\<lambda>(sw, c'). decoded c sw c') (\<lambda>_. False)"
      if "e \<noteq> SWO_SUCCESS" "status_word e" for e
      using decoded_refused [OF c that] by simp
    then show ?thesis
      unfolding eq by (simp only: split: if_split option.split prod.split) (simp add: acc)
  next
    case other
    then show ?thesis
      using Some sl c int by (simp add: parse_complete_cbor_def Let_def decoded_refused)
  qed
qed

subsection \<open>Reception in chunks\<close>

text \<open>The review of a complete blob shows the item the blob encodes.\<close>

definition shows_blob :: "bytes \<Rightarrow> cborContext \<Rightarrow> bool" where
  "shows_blob bs c \<longleftrightarrow> (\<exists>item. valid_item item \<and> bs = cbor_encode item \<and>
     cstr (cb_typeLabel c) = item_label item \<and> cstr (cb_display c) = item_text item)"

text \<open>One chunk taken: the buffer has grown by the chunk, and the last chunk is decoded.\<close>

definition took_chunk :: "bytes \<Rightarrow> bytes \<Rightarrow> cborContext \<Rightarrow> u16 \<Rightarrow> cborContext \<Rightarrow> bool" where
  "took_chunk before chunk c sw c' \<longleftrightarrow> wf_cbor c' \<and> status_word sw \<and> blob c' = before @ chunk \<and>
     length (blob c') = cb_cborBufLen c' \<and> cb_cborLength c = length chunk + cb_cborLength c' \<and>
     (sw = SWO_SUCCESS \<longrightarrow> cb_cborLength c' = 0 \<longrightarrow> shows_blob (before @ chunk) c') \<and>
     (cb_cborLength c' \<noteq> 0 \<longrightarrow> sw = SWO_SUCCESS)"

lemma decoded_took_chunk:
  assumes "decoded c1 sw c2" "blob c1 = before @ chunk" "cb_cborLength c = length chunk"
    "cb_cborLength c1 = 0"
  shows "took_chunk before chunk c sw c2"
proof -
  have "blob c2 = blob c1" "length (blob c2) = cb_cborBufLen c2"
    using assms(1) by (auto simp: decoded_def blob_def wf_cbor_def)
  then show ?thesis using assms by (auto simp: decoded_def took_chunk_def shows_blob_def)
qed

lemma readCborInitial_wp:
  assumes E: "sdk_ok E" "decodes_cbor E" and c: "wf_cbor c" and len: "length chunk \<le> 257"
  shows "rwp (readCborInitial E chunk c) (\<lambda>(sw, c'). took_chunk [] chunk c sw c' \<and> chunk \<noteq> []) status_word"
proof (cases "length chunk < 1 \<or> cb_cborLength c < length chunk")
  case True
  then show ?thesis by (auto simp: readCborInitial_def Let_def)
next
  case False
  let ?c = "c\<lparr> cb_cborBuf := chunk @ drop (length chunk) (cb_cborBuf c),
    cb_cborBufLen := length chunk, cb_cborLength := cb_cborLength c - length chunk \<rparr>"
  have wf: "wf_cbor ?c" "blob ?c = chunk" using c len by (simp_all add: wf_cbor_def blob_def)
  have eq: "readCborInitial E chunk c =
      (if cb_cborLength ?c = 0 then parse_complete_cbor E ?c else Ok (SWO_SUCCESS, ?c))"
    using False c len by (simp add: readCborInitial_def Let_def put_Ok wf_cbor_def not_less Suc_le_eq) auto
  show ?thesis
  proof (cases "cb_cborLength ?c = 0")
    case True
    then have "cb_cborLength c = length chunk" using False by simp
    then show ?thesis
      unfolding eq if_P [OF True] using wf True False
      by (intro rwp_mono [OF parse_complete_cbor_wp [OF E wf(1)]]) (auto intro: decoded_took_chunk)
  next
    case more: False
    then show ?thesis
      unfolding eq if_not_P [OF more] using wf False
      by (auto simp: took_chunk_def status_word_def)
  qed
qed

lemma readCborContent_wp:
  assumes E: "sdk_ok E" "decodes_cbor E" and c: "wf_cbor c"
  shows "rwp (readCborContent E chunk c) (\<lambda>(sw, c'). took_chunk (blob c) chunk c sw c') status_word"
proof (cases "cb_cborLength c < length chunk \<or> 257 < cb_cborBufLen c + length chunk")
  case True
  then show ?thesis by (auto simp: readCborContent_def Let_def)
next
  case False
  let ?n = "cb_cborBufLen c + length chunk"
  let ?c = "c\<lparr> cb_cborBuf := blob c @ chunk @ drop ?n (cb_cborBuf c),
    cb_cborBufLen := ?n, cb_cborLength := cb_cborLength c - length chunk \<rparr>"
  have lb: "length (blob c) = cb_cborBufLen c" using c by (simp add: blob_def wf_cbor_def)
  have wf: "wf_cbor ?c" "blob ?c = blob c @ chunk"
    using c False lb by (simp_all add: wf_cbor_def blob_def)
  have eq: "readCborContent E chunk c =
      (if cb_cborLength ?c = 0 then parse_complete_cbor E ?c else Ok (SWO_SUCCESS, ?c))"
    using False c by (simp add: readCborContent_def Let_def put_Ok wf_cbor_def blob_def not_less)
  show ?thesis
  proof (cases "cb_cborLength ?c = 0")
    case True
    then have "cb_cborLength c = length chunk" using False by simp
    then show ?thesis
      unfolding eq if_P [OF True] using wf True
      by (intro rwp_mono [OF parse_complete_cbor_wp [OF E wf(1)]]) (auto intro: decoded_took_chunk)
  next
    case more: False
    then show ?thesis
      unfolding eq if_not_P [OF more] using wf False lb
      by (auto simp: took_chunk_def status_word_def)
  qed
qed

subsection \<open>Properties\<close>

text \<open>C29: A memo blob the decoder accepts is the canonical encoding of one integer or text, and
  the type label and text on the review determine the blob that is signed, byte for byte.\<close>

theorem blob_review_exact:
  assumes "sdk_ok E" "decodes_cbor E" "wf_cbor c" "wf_cbor c'"
    "parse_complete_cbor E c = Ok (SWO_SUCCESS, d)" "parse_complete_cbor E c' = Ok (SWO_SUCCESS, d')"
  shows "(\<exists>item. valid_item item \<and> blob c = cbor_encode item \<and>
      cstr (cb_typeLabel d) = item_label item \<and> cstr (cb_display d) = item_text item) \<and>
    (cstr (cb_typeLabel d) = cstr (cb_typeLabel d') \<and> cstr (cb_display d) = cstr (cb_display d') \<longrightarrow>
      blob c = blob c')"
proof -
  have "decoded c SWO_SUCCESS d" "decoded c' SWO_SUCCESS d'"
    using parse_complete_cbor_wp [OF assms(1,2,3)] parse_complete_cbor_wp [OF assms(1,2,4)] assms(5,6)
    by simp_all
  then show ?thesis unfolding decoded_def using item_review_inj by metis
qed

definition demo_blob :: cborContext where
  "demo_blob = wiped_cbor\<lparr> cb_cborBuf := [0x61, 0x31] @ zeros 255, cb_cborBufLen := 2 \<rparr>"

lemma wf_demo_blob: "wf_cbor demo_blob"
  by (simp add: demo_blob_def wf_cbor_def wiped_cbor_def)

lemma demo_blob_accepted: "\<exists>d. parse_complete_cbor demo_sdk demo_blob = Ok (SWO_SUCCESS, d)"
proof -
  let ?c = "demo_blob\<lparr> cb_displayLen := 0 \<rparr>"
  have T: "sdk_cbor demo_sdk = demo_cbor" by (simp add: demo_sdk_def)
  have f: "cb_cborBuf demo_blob = [0x61, 0x31] @ zeros 255" "cb_cborBufLen demo_blob = 2"
    "length (cb_typeLabel demo_blob) = 20" "length (cb_display demo_blob) = 256"
    by (simp_all add: demo_blob_def wiped_cbor_def)
  have head: "cbor_head [0x61, 0x31] = Some (3, Some 1, 1)"
    by (simp add: cbor_head_def)
  have acc: "\<exists>d. cbor_accept_text 1 1 ?c = Ok (SWO_SUCCESS, d)"
    using f by (simp add: cbor_accept_text_def canonical_iff slice_def type_labels put_def)
  have "slice (cb_cborBuf demo_blob) 0 2 = Ok [0x61, 0x31]" by (simp add: f slice_def)
  then have "parse_complete_cbor demo_sdk demo_blob = cbor_accept_text 1 1 ?c"
    by (simp add: parse_complete_cbor_def f T demo_cbor_def head Let_def)
  then show ?thesis using acc by simp
qed

lemma blob_review_exact_witness:
  "\<exists>d. parse_complete_cbor demo_sdk demo_blob = Ok (SWO_SUCCESS, d) \<and>
    (\<exists>item. valid_item item \<and> blob demo_blob = cbor_encode item \<and>
      cstr (cb_typeLabel d) = item_label item \<and> cstr (cb_display d) = item_text item) \<and>
    (cstr (cb_typeLabel d) = cstr (cb_typeLabel d) \<and> cstr (cb_display d) = cstr (cb_display d) \<longrightarrow>
      blob demo_blob = blob demo_blob)"
proof -
  obtain d where d: "parse_complete_cbor demo_sdk demo_blob = Ok (SWO_SUCCESS, d)"
    using demo_blob_accepted by blast
  then show ?thesis
    using blob_review_exact [OF demo_sdk_ok demo_decodes_cbor wf_demo_blob wf_demo_blob d d] by blast
qed

end
