(* ===== verification/Screens.thy ===== *)
theory Screens
  imports DataBlob
begin

text \<open>
  The reviews of src/src/ui/display_nbgl.c.

  A review is a list of tag/value rows, a title, and a callback for the user's choice.  Tags and
  values are C strings: a buffer without a NUL, or further rows than the static array \<open>pairs\<close> holds,
  is a fault.  The display library reads the strings while the user pages through the review; the
  program does not change them in that time, so the record keeps what they were when drawn.

  Each definition below is one draw function.  \<open>wp_show_review\<close> gives the review it leaves on the
  screen.
\<close>

subsection \<open>Drawing\<close>

text \<open>A string literal, with its NUL.\<close>

definition lit :: "string \<Rightarrow> bytes" where
  "lit s = ascii s @ [0]"

definition drawn :: "bytes \<Rightarrow> bytes result" where
  "drawn buf = (if 0 \<in> set buf then Ok (cstr buf) else Oob)"

fun draw_rows :: "(bytes \<times> bytes) list \<Rightarrow> (bytes \<times> bytes) list result" where
  "draw_rows [] = Ok []"
| "draw_rows ((item, value) # rows) =
     rbind (drawn item) (\<lambda>i. rbind (drawn value) (\<lambda>v.
     rbind (draw_rows rows) (\<lambda>rs. Ok ((i, v) # rs))))"

definition show_review :: "review_kind \<Rightarrow> operation_type \<Rightarrow> bytes \<Rightarrow> (bytes \<times> bytes) list \<Rightarrow>
    bytes \<Rightarrow> string \<Rightarrow> bytes \<Rightarrow> callback \<Rightarrow> app \<Rightarrow> unit act" where
  "show_review kind ty addr rows title subtitle fin cb s =
     (if 10 < length rows then Fault
      else call (drawn addr) s (\<lambda>addr. call (draw_rows rows) s (\<lambda>pairs.
           call (drawn title) s (\<lambda>title. call (drawn fin) s (\<lambda>fin.
           Ret () (s\<lparr> screen := Some \<lparr> rv_kind = kind, rv_type = ty, rv_address = addr,
             rv_pairs = pairs, rv_title = title, rv_subtitle = ascii subtitle, rv_finish = fin,
             rv_callback = cb \<rparr>, status_page := False \<rparr>))))))"

text \<open>\<open>nbgl_useCaseReviewStatus\<close>: a status page, after which \<open>ui_menu_main\<close> runs.\<close>

definition nbgl_useCaseReviewStatus :: "app \<Rightarrow> unit act" where
  "nbgl_useCaseReviewStatus s = Ret () (s\<lparr> screen := None, status_page := True \<rparr>)"

definition request_async_reply :: "app \<Rightarrow> unit act" where
  "request_async_reply s = Ret () (s\<lparr> async_reply := True \<rparr>)"

definition nbgl_useCaseReview where
  "nbgl_useCaseReview ty rows title subtitle fin cb s =
     show_review Review ty [0] rows title subtitle fin cb s"

definition nbgl_useCaseReviewLight where
  "nbgl_useCaseReviewLight ty rows title subtitle fin cb s =
     show_review ReviewLight ty [0] rows title subtitle fin cb s"

definition addAccountHeaderPairs :: "string \<Rightarrow> app \<Rightarrow> (bytes \<times> bytes) list" where
  "addAccountHeaderPairs senderItem s =
     [(lit senderItem, as_sender (global_account_sender s)),
      (lit ''Max energy'', as_energyDisplay (global_account_sender s)),
      (lit ''Network'', as_network (global_account_sender s))]"

subsection \<open>Keys\<close>

definition uiComparePubkey :: "app \<Rightarrow> unit act" where
  "uiComparePubkey s = nbgl_useCaseReview TYPE_OPERATION
     [(lit ''Identity'', ck_display (global_compare_public_key s)),
      (lit ''Public key'', ck_publicKey (global_compare_public_key s))]
     (lit ''Public Key'') [] (lit ''Export public key'') review_choice s"

definition uiGeneratePubkey :: "app \<Rightarrow> unit act" where
  "uiGeneratePubkey s = bind (nbgl_useCaseReview TYPE_OPERATION
     [(lit ''Identity'', pk_display (exportPublicKeyContext (global s)))]
     (lit ''Public Key'') [] (lit ''Export public key'') review_public_key_choice s)
     (\<lambda>_ s. request_async_reply s)"

text \<open>Two strings in one buffer, a separator in between.\<close>

definition compose_title :: "bytes \<Rightarrow> u8 \<Rightarrow> bytes \<Rightarrow> bytes result" where
  "compose_title buf sep verb =
     rbind (drawn buf) (\<lambda>operation. rbind (drawn verb) (\<lambda>v.
     let operationLength = length operation; verbLength = length v in
     if length buf < operationLength + 1 + verbLength + 1 then Err ERROR_BUFFER_OVERFLOW
     else rbind (put buf operationLength [sep]) (\<lambda>buf.
          rbind (slice verb 0 (verbLength + 1)) (\<lambda>v.
          put buf (operationLength + 1) v))))"

definition compose_export_private_key_titles :: "app \<Rightarrow> unit act" where
  "compose_export_private_key_titles s =
     (let c = exportPrivateKeyContext (global s) in
      call (compose_title (ek_display_review_operation c) 32 (ek_display_review_verb c)) s (\<lambda>op.
      let c = c\<lparr> ek_display_review_operation := op \<rparr>;
          s = s\<lparr> global := (global s)\<lparr> exportPrivateKeyContext := c \<rparr> \<rparr> in
      call (compose_title (ek_display_sign c) 10 (ek_display_sign_verb c)) s (\<lambda>sg.
      Ret () (s\<lparr> global := (global s)\<lparr> exportPrivateKeyContext := c\<lparr> ek_display_sign := sg \<rparr> \<rparr> \<rparr>))))"

definition export_rows :: "exportPrivateKeyContext \<Rightarrow> (bytes \<times> bytes) list" where
  "export_rows c =
     [(ek_display_credid_title c, ek_display_credid c),
      (ek_display_detail_title c, ek_display_detail c),
      (lit ''Keys released'', ek_display_key_types c),
      (lit ''Warning'', lit ''These secrets leave this Ledger and can be reused'')]"

definition uiExportPrivateKey :: "app \<Rightarrow> unit act" where
  "uiExportPrivateKey s =
     bind (compose_export_private_key_titles s) (\<lambda>_ s.
     let c = exportPrivateKeyContext (global s) in
     bind (nbgl_useCaseReview TYPE_OPERATION (export_rows c) (ek_display_review_operation c) []
       (ek_display_sign c) review_export_private_key s) (\<lambda>_ s. request_async_reply s))"

definition uiExportPrivateKeysNewPath :: "app \<Rightarrow> unit act" where
  "uiExportPrivateKeysNewPath s =
     bind (compose_export_private_key_titles s) (\<lambda>_ s.
     let c = exportPrivateKeyContext (global s) in
     bind (nbgl_useCaseReview TYPE_OPERATION (export_rows c) (ek_display_review_operation c) []
       (ek_display_sign c) review_export_private_key_new_path s) (\<lambda>_ s. request_async_reply s))"

subsection \<open>Validators and delegation\<close>

definition set_baker :: "(signConfigureBaker \<Rightarrow> signConfigureBaker) \<Rightarrow> app \<Rightarrow> app" where
  "set_baker f s = s\<lparr> global := (global s)\<lparr> signConfigureBaker := f (signConfigureBaker (global s)) \<rparr> \<rparr>"

definition hasCommissionRate :: "signConfigureBaker \<Rightarrow> bool" where
  "hasCommissionRate c \<longleftrightarrow> bk_hasTransactionFeeCommission c \<or> bk_hasBakingRewardCommission c \<or>
     bk_hasFinalizationRewardCommission c"

text \<open>The continuation screen of a stage, or the signing screen of the last one.\<close>

definition baker_review :: "bool \<Rightarrow> (bytes \<times> bytes) list \<Rightarrow> app \<Rightarrow> unit act" where
  "baker_review further rows s =
     (if further
      then nbgl_useCaseReviewLight TYPE_OPERATION rows (lit ''Review Transaction'') []
             (lit ''Continue with transaction'') confirmConfigureBakerStageCallback s
      else nbgl_useCaseReview TYPE_TRANSACTION rows (lit ''Review Transaction'') []
             (lit ''Sign transaction'') review_choice_sign s)"

text \<open>The header rows of the first screen of the flow, and the flag that they were shown.\<close>

definition baker_header :: "app \<Rightarrow> (bytes \<times> bytes) list" where
  "baker_header s = (if bk_firstDisplay (signConfigureBaker (global s))
                     then addAccountHeaderPairs ''Sender'' s else [])"

definition startConfigureBakerCommissionDisplay :: "app \<Rightarrow> unit act" where
  "startConfigureBakerCommissionDisplay s =
     (let c = signConfigureBaker (global s); r = bk_commissionRates c;
          rows = baker_header s @
            (if hasCommissionRate c then [(lit ''Commission'', lit ''rates'')] else []) @
            (if bk_hasTransactionFeeCommission c
             then [(lit ''Transaction fee'', bk_transactionFeeCommissionRate r)] else []) @
            (if bk_hasBakingRewardCommission c
             then [(lit ''Baking reward'', bk_bakingRewardCommissionRate r)] else []) @
            (if bk_hasFinalizationRewardCommission c
             then [(lit ''Finalization reward'', bk_finalizationRewardCommissionRate r)] else []);
          s = set_baker (\<lambda>c. c\<lparr> bk_firstDisplay := False \<rparr>) s
      in baker_review (bk_hasSuspended c) rows s)"

definition startConfigureBakerSuspendedDisplay :: "app \<Rightarrow> unit act" where
  "startConfigureBakerSuspendedDisplay s =
     (let c = signConfigureBaker (global s);
          rows = baker_header s @ [(lit ''Validator status'', bk_suspended c)];
          s = set_baker (\<lambda>c. c\<lparr> bk_firstDisplay := False \<rparr>) s
      in baker_review False rows s)"

definition startConfigureBakerDisplay :: "app \<Rightarrow> unit act" where
  "startConfigureBakerDisplay s =
     (let c = signConfigureBaker (global s); k = bk_capitalRestakeDelegation c;
          rows = addAccountHeaderPairs ''Sender'' s @
            (if bk_hasCapital c
             then [if bk_stopBaking k then (lit ''Stop'', lit ''Baking'')
                   else (lit ''Amount to stake'', bk_displayCapital k)] else []) @
            (if bk_hasRestakeEarnings c
             then [(lit ''Restake earnings'', bk_displayRestake k)] else []) @
            (if bk_hasOpenForDelegation c
             then [(lit ''Pool status'', bk_displayOpenForDelegation k)] else []) @
            (if bk_hasKeys c
             then [(lit ''Update baker'', lit ''keys''),
                   (lit ''Baker keys hash'', bk_keysHashDisplay c)] else []);
          s = set_baker (\<lambda>c. c\<lparr> bk_firstDisplay := False \<rparr>) s
      in baker_review (bk_hasMetadataUrl c \<or> hasCommissionRate c \<or> bk_hasSuspended c) rows s)"

definition startConfigureBakerUrlDisplay :: "bool \<Rightarrow> app \<Rightarrow> unit act" where
  "startConfigureBakerUrlDisplay lastUrlPage s =
     (let c = signConfigureBaker (global s);
          rows = baker_header s @
            (if lastUrlPage \<and> bk_urlLength (bk_url c) = 0 then [(lit ''Empty URL'', lit [])]
             else [(lit ''URL'', bk_urlDisplay (bk_url c))]);
          s = set_baker (\<lambda>c. c\<lparr> bk_firstDisplay := False \<rparr>) s
      in baker_review (\<not> lastUrlPage \<or> hasCommissionRate c \<or> bk_hasSuspended c) rows s)"

definition startConfigureDelegationDisplay :: "app \<Rightarrow> unit act" where
  "startConfigureDelegationDisplay s =
     (let c = signConfigureDelegation (global s) in
      nbgl_useCaseReview TYPE_TRANSACTION
        (addAccountHeaderPairs ''Sender'' s @
         (if dl_hasCapital c
          then [if dl_stopDelegation c then (lit ''Action'', lit ''Stop delegation'')
                else (lit ''Amount to delegate'', dl_displayCapital c)] else []) @
         (if dl_hasRestakeEarnings c
          then [(lit ''Restake earnings'', dl_displayRestake c)] else []) @
         (if dl_hasDelegationTarget c
          then [(lit ''Delegation target'', dl_displayDelegationTarget c)] else []))
        (lit ''Review Transaction'') [] (lit ''Sign transaction'') review_choice_sign s)"

subsection \<open>Credentials\<close>

definition uiSignUpdateCredentialThresholdDisplay :: "app \<Rightarrow> unit act" where
  "uiSignUpdateCredentialThresholdDisplay s =
     bind (nbgl_useCaseReview TYPE_TRANSACTION
       [(lit ''Threshold'', cd_threshold (signCredentialDeploymentContext (global s)))]
       (lit ''Review Transaction'') [] (lit ''Sign transaction'') review_choice_sign s)
     (\<lambda>_ s. request_async_reply s)"

definition uiSignCredentialDeploymentAttributeDisplay :: "app \<Rightarrow> unit act" where
  "uiSignCredentialDeploymentAttributeDisplay s =
     (let c = signCredentialDeploymentContext (global s) in
      bind (nbgl_useCaseReviewLight TYPE_TRANSACTION
        [(cd_attributeName c, cd_attributeValue c)]
        (lit ''Review revealed attribute'') [] (lit ''Continue with transaction'')
        review_credential_attribute s)
      (\<lambda>_ s. request_async_reply s))"

text \<open>
  The identity provider index is written without a NUL; when it fills its nine bytes, the string
  the review reads runs on into the member that follows it, \<open>arIdentity\<close>.
\<close>

definition provider_text :: "signCredentialDeploymentContext \<Rightarrow> bytes" where
  "provider_text c = cd_identityProviderIndex c @ cd_arIdentity c"

definition uiSignUpdateCredentialAddedCredentialDisplay :: "app \<Rightarrow> unit act" where
  "uiSignUpdateCredentialAddedCredentialDisplay s =
     (let c = signCredentialDeploymentContext (global s) in
      bind (nbgl_useCaseReviewLight TYPE_TRANSACTION
        [(lit ''Public key'', cd_accountVerificationKey c),
         (lit ''Signature threshold'', cd_signatureThreshold c),
         (lit ''AR threshold'', cd_anonymityRevocationThreshold c),
         (lit ''RegIdCred'', cd_regIdCred c),
         (lit ''Identity provider'', provider_text c),
         (lit ''AR list hash'', cd_arListHashDisplay c)]
        (lit ''Review added credential'') [] (lit ''Confirm added credential'')
        review_added_credential s)
      (\<lambda>_ s. request_async_reply s))"

definition uiSignUpdateCredentialInitialDisplay :: "app \<Rightarrow> unit act" where
  "uiSignUpdateCredentialInitialDisplay s =
     bind (nbgl_useCaseReviewLight TYPE_OPERATION (addAccountHeaderPairs ''Sender'' s)
       (lit ''Review'') ''details'' (lit ''Continue with transaction'') sendSuccessNoIdleCallback s)
     (\<lambda>_ s. request_async_reply s)"

definition uiSignUpdateCredentialIdDisplay :: "app \<Rightarrow> unit act" where
  "uiSignUpdateCredentialIdDisplay s =
     bind (nbgl_useCaseReviewLight TYPE_OPERATION
       [(lit ''Credential ID'', cd_credentialId (signCredentialDeploymentContext (global s)))]
       (lit ''Review'') ''details'' (lit ''Continue with transaction'') sendSuccessNoIdleCallback s)
     (\<lambda>_ s. request_async_reply s)"

definition uiSignCredentialDeploymentVerificationKeyDisplay :: "app \<Rightarrow> unit act" where
  "uiSignCredentialDeploymentVerificationKeyDisplay s =
     bind (nbgl_useCaseReviewLight TYPE_OPERATION
       [(lit ''Public key'', cd_accountVerificationKey (signCredentialDeploymentContext (global s)))]
       (lit ''Review'') ''details'' (lit ''Continue with transaction'')
       processNextVerificationKeyNoIdleCallback s)
     (\<lambda>_ s. request_async_reply s)"

definition credential_rows :: "signCredentialDeploymentContext \<Rightarrow> (bytes \<times> bytes) list" where
  "credential_rows c =
     [(lit ''Public key'', cd_accountVerificationKey c),
      (lit ''Signature threshold'', cd_signatureThreshold c),
      (lit ''RegIdCred'', cd_regIdCred c),
      (lit ''Identity provider'', provider_text c),
      (lit ''AR threshold'', cd_anonymityRevocationThreshold c),
      (lit ''AR list hash'', cd_arListHashDisplay c)]"

definition uiSignCredentialDeploymentNewIntroDisplay :: "app \<Rightarrow> unit act" where
  "uiSignCredentialDeploymentNewIntroDisplay s =
     nbgl_useCaseReview TYPE_TRANSACTION
       (credential_rows (signCredentialDeploymentContext (global s)))
       (lit ''Review Transaction'') [] (lit ''Sign details'') review_choice_sign s"

definition uiSignCredentialDeploymentExistingIntroDisplay :: "app \<Rightarrow> unit act" where
  "uiSignCredentialDeploymentExistingIntroDisplay s =
     (let c = signCredentialDeploymentContext (global s) in
      nbgl_useCaseReview TYPE_TRANSACTION
        (credential_rows c @ [(lit ''Address'', cd_accountAddress c)])
        (lit ''Review Transaction'') [] (lit ''Sign details'') review_choice_sign s)"

definition uiSignCredentialDeploymentNewDisplay :: "app \<Rightarrow> unit act" where
  "uiSignCredentialDeploymentNewDisplay s =
     nbgl_useCaseReview TYPE_TRANSACTION
       (credential_rows (signCredentialDeploymentContext (global s)))
       (lit ''Review Transaction'') [] (lit ''Sign details'') review_choice_sign s"

definition uiSignCredentialDeploymentExistingDisplay :: "app \<Rightarrow> unit act" where
  "uiSignCredentialDeploymentExistingDisplay s =
     (let c = signCredentialDeploymentContext (global s) in
      nbgl_useCaseReview TYPE_TRANSACTION
        (credential_rows c @ [(lit ''Address'', cd_accountAddress c)])
        (lit ''Review Transaction'') [] (lit ''Sign details'') review_choice_sign s)"

definition uiSignCredentialDeploymentVerificationKeyFlowDisplay :: "app \<Rightarrow> unit act" where
  "uiSignCredentialDeploymentVerificationKeyFlowDisplay s =
     bind (nbgl_useCaseReviewLight TYPE_OPERATION
       [(lit ''Public key'', cd_accountVerificationKey (signCredentialDeploymentContext (global s)))]
       (lit ''Review'') ''details'' (lit ''Continue with transaction'')
       processNextVerificationKeyNoIdleCallback s)
     (\<lambda>_ s. request_async_reply s)"

subsection \<open>Identity provider information\<close>

definition uiSignPublicInformationForIpCompleteDisplay :: "app \<Rightarrow> unit act" where
  "uiSignPublicInformationForIpCompleteDisplay s =
     (let c = signPublicInformationForIp (global s) in
      nbgl_useCaseReview TYPE_TRANSACTION
        [(lit ''Public key'', pi_publicKey c), (lit ''Key type'', pi_keyType c),
         (lit ''Signature threshold'', pi_threshold c), (lit ''Id Cred Pub'', pi_idCredPub c),
         (lit ''Credential ID'', pi_credId c)]
        (lit ''Review identity'') ''provider info'' (lit ''Sign identity'') review_choice_sign s)"

definition uiReviewPublicInformationForIpDisplay :: "app \<Rightarrow> unit act" where
  "uiReviewPublicInformationForIpDisplay s =
     (let c = signPublicInformationForIp (global s) in
      nbgl_useCaseReviewLight TYPE_OPERATION
        [(lit ''Public key'', pi_publicKey c), (lit ''Key type'', pi_keyType c),
         (lit ''Id Cred Pub'', pi_idCredPub c), (lit ''Credential ID'', pi_credId c)]
        (lit ''Review identity'') ''provider info'' (lit ''Continue reviewing info'')
        sendSuccessNoIdleCallback s)"

definition uiSignPublicInformationForIpFinalDisplay :: "app \<Rightarrow> unit act" where
  "uiSignPublicInformationForIpFinalDisplay s =
     (let c = signPublicInformationForIp (global s) in
      nbgl_useCaseReview TYPE_TRANSACTION
        [(lit ''Public key'', pi_publicKey c), (lit ''Key type'', pi_keyType c),
         (lit ''Signature threshold'', pi_threshold c)]
        (lit ''Review identity'') [] (lit ''Sign identity'') review_choice_sign s)"

definition uiSignPublicInformationForIpPublicKeyDisplay :: "app \<Rightarrow> unit act" where
  "uiSignPublicInformationForIpPublicKeyDisplay s =
     (let c = signPublicInformationForIp (global s) in
      nbgl_useCaseReviewLight TYPE_OPERATION
        [(lit ''Public key'', pi_publicKey c), (lit ''Key type'', pi_keyType c)]
        (lit ''Review identity'') [] (lit ''Continue reviewing info'')
        sendSuccessNoIdleCallback s)"

subsection \<open>Data registration and transfers\<close>

definition memo_rows :: "string \<Rightarrow> string \<Rightarrow> cborContext \<Rightarrow> (bytes \<times> bytes) list" where
  "memo_rows type_item item c = [(lit type_item, cb_typeLabel c), (lit item, cb_display c)]"

definition uiRegisterDataInitialDisplay :: "app \<Rightarrow> unit act" where
  "uiRegisterDataInitialDisplay s =
     bind (nbgl_useCaseReviewLight TYPE_OPERATION (addAccountHeaderPairs ''Sender'' s)
       (lit ''Review transaction'') [] (lit ''Continue with transaction'')
       sendSuccessNoIdleCallback s)
     (\<lambda>_ s. request_async_reply s)"

definition uiRegisterDataPayloadDisplay :: "app \<Rightarrow> unit act" where
  "uiRegisterDataPayloadDisplay s =
     (let rows = memo_rows ''Data type'' ''Data'' (cborContext (withDataBlob (global s))) in
      bind
       (if 0 < rd_dataLength (signRegisterData (withDataBlob (global s)))
        then nbgl_useCaseReviewLight TYPE_OPERATION rows (lit ''Review Data'') []
               (lit ''Continue with transaction'') sendSuccessNoIdleCallback s
        else nbgl_useCaseReview TYPE_TRANSACTION rows (lit ''Review Data'') []
               (lit ''Sign transaction'') review_choice_sign s)
       (\<lambda>_ s. request_async_reply s))"

definition startTransferDisplay :: "bool \<Rightarrow> app \<Rightarrow> unit act" where
  "startTransferDisplay displayMemo s =
     (let c = signTransferContext (withDataBlob (global s)) in
      bind (nbgl_useCaseReview TYPE_TRANSACTION
        (addAccountHeaderPairs ''From'' s @
         [(lit ''Amount'', tr_displayAmount c), (lit ''To'', tr_displayStr c)] @
         (if displayMemo then memo_rows ''Memo type'' ''Memo'' (cborContext (withDataBlob (global s)))
          else []) @
         (if tr_has_fee_display c then [(lit ''Max fees (est.)'', tr_fee_display_str c)] else []))
        (lit ''Review transaction to send CCD'') [] (lit ''Sign transaction to send CCD'')
        review_choice_sign s)
      (\<lambda>_ s. request_async_reply s))"

definition uiSignTransferToPublicDisplay :: "app \<Rightarrow> unit act" where
  "uiSignTransferToPublicDisplay s =
     (let c = signTransferToPublic (global s) in
      bind (nbgl_useCaseReview TYPE_TRANSACTION
        (addAccountHeaderPairs ''Sender'' s @
         [(lit ''Unshield amount'', tp_amount c), (lit ''Recipient'', tp_recipientAddress c)])
        (lit ''Review Transaction'') [] (lit ''Sign transaction'') review_choice_sign s)
      (\<lambda>_ s. request_async_reply s))"

definition release_rows :: "app \<Rightarrow> (bytes \<times> bytes) list" where
  "release_rows s =
     (let c = signTransferWithScheduleContext (withDataBlob (global s)) in
      [(lit ''Release time (UTC)'', sc_displayTimestamp c), (lit ''Amount'', sc_displayAmount c)])"

definition uiSignScheduledTransferPairFlowDisplay :: "app \<Rightarrow> unit act" where
  "uiSignScheduledTransferPairFlowDisplay s =
     nbgl_useCaseReviewLight TYPE_TRANSACTION (release_rows s) (lit ''Review Scheduled release'') []
       (lit ''Show next release'') processNextScheduledAmountWrapper s"

definition uiSignScheduledTransferPairFlowSignDisplay :: "app \<Rightarrow> unit act" where
  "uiSignScheduledTransferPairFlowSignDisplay s =
     nbgl_useCaseReview TYPE_TRANSACTION (release_rows s) (lit ''Review Scheduled release'') []
       (lit ''Sign transaction'') review_choice_sign s"

definition startInitialScheduledTransferDisplay :: "bool \<Rightarrow> app \<Rightarrow> unit act" where
  "startInitialScheduledTransferDisplay displayMemo s =
     (let c = signTransferWithScheduleContext (withDataBlob (global s)) in
      nbgl_useCaseReviewLight TYPE_TRANSACTION
        (addAccountHeaderPairs ''Sender'' s @ [(lit ''Recipient'', sc_displayStr c)] @
         (if displayMemo then memo_rows ''Memo type'' ''Memo'' (cborContext (withDataBlob (global s)))
          else []) @
         (if sc_has_fee_display c then [(lit ''Max fees (est.)'', sc_fee_display_str c)] else []))
        (lit ''Review Transfer with schedule'') [] (lit ''Continue with transfer'')
        confirm_initial_scheduled_transfer_callback s)"

subsection \<open>Smart contracts\<close>

definition uiDeployModuleDisplay :: "app \<Rightarrow> unit act" where
  "uiDeployModuleDisplay s =
     (let c = deployModule (global s) in
      nbgl_useCaseReview TYPE_TRANSACTION
        (addAccountHeaderPairs ''Sender'' s @
         [(lit ''Version'', dm_versionDisplay c), (lit ''Module hash'', dm_sourceHashDisplay c)])
        (lit (''Review Transaction '' @ [CHR 0x0A] @ ''to deploy module'')) []
        (lit (''Sign transaction'' @ [CHR 0x0A] @ ''to deploy module'')) review_choice_sign s)"

definition uiUpdateContractDisplay :: "app \<Rightarrow> unit act" where
  "uiUpdateContractDisplay s =
     (let c = updateContract (global s) in
      nbgl_useCaseReview TYPE_TRANSACTION
        (addAccountHeaderPairs ''Sender'' s @
         [(lit ''Amount'', uc_amountDisplay c), (lit ''Index'', uc_indexDisplay c),
          (lit ''Sub index'', uc_subIndexDisplay c), (lit ''Receive name'', ci_nameDisplay (uc_input c)),
          (lit ''Payload hash'', ci_paramsHashDisplay (uc_input c))])
        (lit (''Review Transaction '' @ [CHR 0x0A] @ ''to update contract'')) []
        (lit (''Sign transaction'' @ [CHR 0x0A] @ ''to update contract'')) review_choice_sign s)"

definition uiInitContractDisplay :: "app \<Rightarrow> unit act" where
  "uiInitContractDisplay s =
     (let c = initContract (global s) in
      nbgl_useCaseReview TYPE_TRANSACTION
        (addAccountHeaderPairs ''Sender'' s @
         [(lit ''Amount'', ic_amountDisplay c), (lit ''Module ref'', ic_moduleRefDisplay c),
          (lit ''Contract name'', ci_nameDisplay (ic_input c)), (lit ''Payload hash'', ci_paramsHashDisplay (ic_input c))])
        (lit (''Review Transaction '' @ [CHR 0x0A] @ ''to initialize contract'')) []
        (lit (''Sign transaction'' @ [CHR 0x0A] @ ''to initialize contract'')) review_choice_sign s)"

subsection \<open>What a draw function leaves on the screen\<close>

lemma NUL_in_lit [simp]: "0 \<in> set (lit s)"
  by (simp add: lit_def)

lemma drawn_iff: "drawn b = Ok t \<longleftrightarrow> 0 \<in> set b \<and> t = cstr b"
  by (auto simp: drawn_def)

lemma rwp_drawn [simp, wp_rules]: "rwp (drawn b) Q X \<longleftrightarrow> 0 \<in> set b \<and> Q (cstr b)"
  by (simp add: drawn_def)

definition drawable :: "(bytes \<times> bytes) list \<Rightarrow> bool" where
  "drawable rows \<longleftrightarrow> (\<forall>(i, v) \<in> set rows. 0 \<in> set i \<and> 0 \<in> set v)"

lemma drawable_simps [simp]:
  "drawable []" "drawable ((i, v) # rows) \<longleftrightarrow> 0 \<in> set i \<and> 0 \<in> set v \<and> drawable rows"
  "drawable (r1 @ r2) \<longleftrightarrow> drawable r1 \<and> drawable r2"
  by (auto simp: drawable_def)

definition shown_rows :: "(bytes \<times> bytes) list \<Rightarrow> (bytes \<times> bytes) list" where
  "shown_rows rows = map (\<lambda>(i, v). (cstr i, cstr v)) rows"

lemma shown_rows_simps [simp]:
  "shown_rows [] = []" "shown_rows ((i, v) # rows) = (cstr i, cstr v) # shown_rows rows"
  "shown_rows (r1 @ r2) = shown_rows r1 @ shown_rows r2"
  by (simp_all add: shown_rows_def)

lemma rwp_draw_rows [simp, wp_rules]:
  "rwp (draw_rows rows) Q X \<longleftrightarrow> drawable rows \<and> Q (shown_rows rows)"
  by (induction rows arbitrary: Q rule: draw_rows.induct) auto

lemma wp_show_review [simp, wp_rules]:
  "wp (show_review kind ty addr rows title subtitle fin cb s) Q X \<longleftrightarrow>
    length rows \<le> 10 \<and> 0 \<in> set addr \<and> drawable rows \<and> 0 \<in> set title \<and> 0 \<in> set fin \<and>
    Q () (s\<lparr> screen := Some \<lparr> rv_kind = kind, rv_type = ty, rv_address = cstr addr,
      rv_pairs = shown_rows rows, rv_title = cstr title, rv_subtitle = ascii subtitle,
      rv_finish = cstr fin, rv_callback = cb \<rparr>, status_page := False \<rparr>)"
  by (auto simp: show_review_def)

lemma wp_async [simp, wp_rules]:
  "wp (request_async_reply s) Q X = Q () (s\<lparr> async_reply := True \<rparr>)"
  "wp (nbgl_useCaseReviewStatus s) Q X = Q () (s\<lparr> screen := None, status_page := True \<rparr>)"
  by (simp_all add: request_async_reply_def nbgl_useCaseReviewStatus_def)

lemmas use_case_defs = nbgl_useCaseReview_def nbgl_useCaseReviewLight_def

lemma cstr_lit [simp]: "0 \<notin> set (ascii s) \<Longrightarrow> cstr (lit s) = ascii s"
  by (simp add: lit_def)

lemma header_drawable [simp]:
  "wf_sender (global_account_sender s) \<Longrightarrow> drawable (addAccountHeaderPairs item s)"
  using cbuf_address by (auto simp: addAccountHeaderPairs_def wf_sender_def cbuf_def)

lemma length_header [simp]: "length (addAccountHeaderPairs item s) = 3"
  by (simp add: addAccountHeaderPairs_def)

end
