(* ===== verification/Flow.thy ===== *)
theory Flow
  imports Screens
begin

text \<open>
  What the handlers of the multi-packet instructions have in common.

  The first part models the callbacks of src/src/ui/display_nbgl.c that answer the host without
  touching an instruction's context, and \<open>ux_run_guarded\<close> of src/src/helpers/ux_guard.c.

  The second part is the contract between an instruction and the loop that runs it.  An instruction
  has a handler, the callbacks its reviews name, and an invariant of its context between two
  packets.  The locale \<open>instruction\<close> states what every instruction promises: no fault, one reply or
  one review for every packet and for every choice, an invariant that is kept, and errors
  that are status words.  What follows from the contract is proved once in the locale.
\<close>

subsection \<open>Guarded continuations\<close>

abbreviation MAX_SYSTEM_EXCEPTION :: u16 where "MAX_SYSTEM_EXCEPTION \<equiv> 0x00FF"

definition ux_run_guarded :: "(app \<Rightarrow> unit act) \<Rightarrow> app \<Rightarrow> unit act" where
  "ux_run_guarded continuation s =
     (case continuation s of
        Throw e t \<Rightarrow>
          if e \<le> MAX_SYSTEM_EXCEPTION then Throw e t
          else bind (io_send_sw e (t\<lparr> global := wiped, currentInstruction := INSTRUCTION_NONE \<rparr>))
                 (\<lambda>_ t. ui_menu_main t)
      | r \<Rightarrow> r)"

text \<open>\<open>dispatch_guarded\<close> of app_main.c, around the dispatch of one packet; there the screen stays.\<close>

definition dispatch_guarded :: "(app \<Rightarrow> unit act) \<Rightarrow> app \<Rightarrow> unit act" where
  "dispatch_guarded dispatch s =
     (case dispatch s of
        Throw e t \<Rightarrow>
          if e \<le> MAX_SYSTEM_EXCEPTION then Throw e t
          else io_send_sw e (t\<lparr> global := wiped, currentInstruction := INSTRUCTION_NONE,
                               async_reply := False \<rparr>)
      | r \<Rightarrow> r)"

subsection \<open>Choices\<close>

definition finish_review_choice :: "bool \<Rightarrow> app \<Rightarrow> unit act" where
  "finish_review_choice confirm s = nbgl_useCaseReviewStatus s"

definition choose_sign :: "sdk \<Rightarrow> bool \<Rightarrow> app \<Rightarrow> unit act" where
  "choose_sign E confirm s =
     (if confirm then ux_run_guarded (buildAndSignTransactionHash E) s
      else send_user_rejection s)"

definition rejectStagedReview :: "app \<Rightarrow> unit act" where
  "rejectStagedReview s = send_user_rejection (s\<lparr> currentInstruction := INSTRUCTION_NONE \<rparr>)"

definition choose_continue :: "bool \<Rightarrow> app \<Rightarrow> unit act" where
  "choose_continue confirm s =
     (if \<not> confirm then rejectStagedReview s else send_success_no_idle s)"

subsection \<open>The contract of an instruction\<close>

text \<open>What the program relies on in the SDK and in tinycbor.  The last part is what BLS key generation
  needs to end: the candidates of a key are not all zero.\<close>

definition draws_scalars :: "sdk \<Rightarrow> bool" where
  "draws_scalars E \<longleftrightarrow> (\<forall>ikm salt. \<exists>n. \<forall>sk.
     bls_candidate E ikm ((bls_salt E ^^ Suc n) salt) = Some sk \<longrightarrow> be_nat sk \<noteq> 0)"

definition platform :: "sdk \<Rightarrow> bool" where
  "platform E \<longleftrightarrow> sdk_ok E \<and> decodes_cbor E \<and> reduces_modulo E \<and> draws_scalars E"

text \<open>
  The host waits for the user.  The comparison of an exported key is the one review that stays up
  after its APDU was answered.
\<close>

definition awaiting :: "app \<Rightarrow> bool" where
  "awaiting s \<longleftrightarrow> (\<exists>rv. screen s = Some rv \<and> rv_callback rv \<noteq> review_choice)"

definition claimed :: "app \<Rightarrow> bool" where
  "claimed s \<longleftrightarrow> currentInstruction s \<noteq> INSTRUCTION_NONE"

text \<open>A step from s to t answered the host once, or left it waiting for the user.\<close>

definition answered :: "app \<Rightarrow> app \<Rightarrow> bool" where
  "answered s t \<longleftrightarrow>
     ((\<exists>r. replies t = replies s @ [r]) \<and> \<not> awaiting t \<or> replies t = replies s \<and> awaiting t) \<and>
     (claimed t \<or> awaiting t \<longrightarrow> currentInstruction t = currentInstruction s)"

text \<open>A step that threw has answered nothing and left the screen; its context is wiped next.\<close>

definition refused :: "app \<Rightarrow> u16 \<Rightarrow> app \<Rightarrow> bool" where
  "refused s e t \<longleftrightarrow> status_word e \<and> replies t = replies s \<and> screen t = screen s \<and>
     currentInstruction t = currentInstruction s \<and> wf_path (global_derivation_path t) \<and>
     wf_sender (global_account_sender t)"

text \<open>The header rows on the next review show the header hdr, under a path that may sign.\<close>

definition header_shown :: "sdk \<Rightarrow> bytes \<Rightarrow> app \<Rightarrow> bool" where
  "header_shown E hdr s \<longleftrightarrow> length hdr = 60 \<and> signing_path (global_derivation_path s) \<and>
     header_rows E hdr (global_derivation_path s) (global_account_sender s)"

text \<open>The rows a review shows for the header hdr signed with path p.\<close>

definition header_pairs :: "sdk \<Rightarrow> string \<Rightarrow> bytes \<Rightarrow> derivation_path \<Rightarrow> (bytes \<times> bytes) list" where
  "header_pairs E senderItem hdr p =
     [(ascii senderItem, the (address_text E (take 32 hdr))),
      (ascii ''Max energy'', dec (be_nat (take 8 (drop 40 hdr)))),
      (ascii ''Network'', network_label (derivation_path_network p))]"

text \<open>A signing review is up, and msg is what its approval signs.\<close>

definition asks_to_sign :: "app \<Rightarrow> bytes \<Rightarrow> (bytes \<times> bytes) list \<Rightarrow> bool" where
  "asks_to_sign s msg rows \<longleftrightarrow> tx_hash s = Some msg \<and>
     (\<exists>rv. screen s = Some rv \<and> rv_callback rv = review_choice_sign \<and> rv_pairs rv = rows)"

text \<open>A normal end of a handler or a callback: the host has its answer or waits for the user, and
  an instruction that stays open has kept its invariant.\<close>

definition settled :: "(app \<Rightarrow> bool) \<Rightarrow> app \<Rightarrow> app \<Rightarrow> bool" where
  "settled invar s t \<longleftrightarrow> answered s t \<and> wf_app t \<and> (claimed t \<longrightarrow> invar t)"

text \<open>A packet is answered with a status word alone.\<close>

definition silent :: "app \<Rightarrow> app \<Rightarrow> bool" where
  "silent s t \<longleftrightarrow> (\<forall>r. replies t = replies s @ [r] \<longrightarrow> fst r = [])"

definition kept :: "(app \<Rightarrow> bool) \<Rightarrow> app \<Rightarrow> app \<Rightarrow> bool" where
  "kept invar s t \<longleftrightarrow> settled invar s t \<and> silent s t"

text \<open>A choice may release data, and a refusal never does: the host learns of it, and the
  instruction is closed.\<close>

definition declined :: "app \<Rightarrow> app \<Rightarrow> bool" where
  "declined s t \<longleftrightarrow> replies t = replies s @ [([], SWO_CONDITIONS_NOT_SATISFIED)] \<and> \<not> claimed t \<and> \<not> awaiting t"

definition decided :: "bool \<Rightarrow> (app \<Rightarrow> bool) \<Rightarrow> app \<Rightarrow> app \<Rightarrow> bool" where
  "decided confirm invar s t \<longleftrightarrow> settled invar s t \<and> (\<not> confirm \<longrightarrow> declined s t)"

lemmas kept_defs = kept_def settled_def silent_def answered_def
lemmas decided_defs = decided_def settled_def declined_def answered_def

lemma kept_weaken: "kept I s t \<Longrightarrow> (I t \<Longrightarrow> J t) \<Longrightarrow> kept J s t"
  by (auto simp: kept_def settled_def)

lemma decided_weaken: "decided b I s t \<Longrightarrow> (I t \<Longrightarrow> J t) \<Longrightarrow> decided b J s t"
  by (auto simp: decided_def settled_def)

subsection \<open>Lemmas\<close>

lemma platformD:
  assumes "platform E"
  shows "sdk_ok E" "decodes_cbor E" "reduces_modulo E" "formats_numbers E" "formats_hex E"
    "digests E" "encodes_base58 E" "derives_keys E" "draws_scalars E"
  using assms by (simp_all add: platform_def sdk_okD)

lemma demo_platform [simp]: "platform demo_sdk"
proof -
  have "draws_scalars demo_sdk" using demo_candidate unfolding draws_scalars_def by (metis option.inject)
  then show ?thesis by (simp add: platform_def)
qed

text \<open>The state after a caught exception of a continuation.\<close>

definition ended :: "u16 \<Rightarrow> app \<Rightarrow> app" where
  "ended e t = t\<lparr> global := wiped, replies := replies t @ [([], e)],
     currentInstruction := INSTRUCTION_NONE, global_public_key_review_pending := False,
     screen := None, status_page := False \<rparr>"

lemma wp_ux_run_guarded:
  assumes "wp (k s) Q (\<lambda>e t. status_word e \<and> Q () (ended e t))"
  shows "wp (ux_run_guarded k s) Q (\<lambda>_ _. False)"
  using assms by (cases "k s") (auto simp: ux_run_guarded_def status_word_def ended_def)

lemma refused_ended:
  assumes "refused s e t"
  shows "answered s (ended e t)" "wf_app (ended e t)" "\<not> claimed (ended e t)"
    "screen (ended e t) = None"
  using assms by (auto simp: refused_def answered_def wf_app_def awaiting_def claimed_def ended_def)

lemma wf_app_updates [simp]:
  "wf_app (s\<lparr> tx_hash := h \<rparr>) = wf_app s"
  "wf_app (s\<lparr> transactionHash := th \<rparr>) = wf_app s"
  "wf_app (s\<lparr> global_compare_public_key := ck \<rparr>) = wf_app s"
  "wf_app (s\<lparr> global_reviewed_path := rp \<rparr>) = wf_app s"
  "wf_app (s\<lparr> screen := sc \<rparr>) = wf_app s"
  "wf_app (s\<lparr> status_page := sp \<rparr>) = wf_app s"
  "wf_app (s\<lparr> replies := rs \<rparr>) = wf_app s"
  "wf_app (s\<lparr> async_reply := b \<rparr>) = wf_app s"
  "wf_app (s\<lparr> currentInstruction := ci \<rparr>) = wf_app s"
  "wf_app (s\<lparr> global_public_key_review_pending := pp \<rparr>) = wf_app s"
  by (simp_all add: wf_app_def)

lemma header_shown_updates [simp]:
  "header_shown E hdr (s\<lparr> tx_hash := h \<rparr>) = header_shown E hdr s"
  "header_shown E hdr (s\<lparr> global := g \<rparr>) = header_shown E hdr s"
  "header_shown E hdr (s\<lparr> screen := sc \<rparr>) = header_shown E hdr s"
  "header_shown E hdr (s\<lparr> status_page := sp \<rparr>) = header_shown E hdr s"
  "header_shown E hdr (s\<lparr> replies := rs \<rparr>) = header_shown E hdr s"
  "header_shown E hdr (s\<lparr> async_reply := b \<rparr>) = header_shown E hdr s"
  "header_shown E hdr (s\<lparr> currentInstruction := ci \<rparr>) = header_shown E hdr s"
  by (simp_all add: header_shown_def)

lemma opened_header_shown: "opened E c kind t hdr rest \<Longrightarrow> header_shown E hdr t"
  by (auto simp: opened_def header_shown_def)

lemma header_shown_pairs:
  assumes "header_shown E hdr s" "0 \<notin> set (ascii senderItem)"
  shows "shown_rows (addAccountHeaderPairs senderItem s) =
    header_pairs E senderItem hdr (global_derivation_path s)"
  using assms
  by (simp add: header_shown_def header_rows_def header_pairs_def addAccountHeaderPairs_def ascii_def)

lemma refused_self:
  assumes "wf_app s" "status_word e"
  shows "refused s e s" "refused s e (s\<lparr> global := g \<rparr>)" "refused s e (s\<lparr> tx_hash := h \<rparr>)"
    "refused s e (s\<lparr> tx_hash := h, global := g \<rparr>)"
  using assms by (simp_all add: refused_def wf_app_def)

lemma choose_sign_wp:
  assumes "platform E" "wf_app s" "tx_hash s = Some m" "\<not> awaiting s"
  shows "wp (choose_sign E confirm s)
    (\<lambda>_ t. answered s t \<and> \<not> claimed t \<and> screen t = None \<and> wf_app t \<and> (\<not> confirm \<longrightarrow> declined s t)) (\<lambda>_ _. False)"
proof (cases confirm)
  case True
  have b: "wp (buildAndSignTransactionHash E s)
    (\<lambda>_ t. answered s t \<and> \<not> claimed t \<and> screen t = None \<and> wf_app t)
    (\<lambda>e t. status_word e \<and> same_ui s t \<and> wf_app t)"
    using buildAndSign_wp [OF platformD(1) [OF assms(1)] assms(3)]
    by (rule wp_mono) (use assms in \<open>auto simp: answered_def awaiting_def claimed_def\<close>)
  show ?thesis
    unfolding choose_sign_def if_P [OF True]
  proof (rule wp_ux_run_guarded, rule wp_mono [OF b], goal_cases)
    case (2 e t)
    then have "refused s e t"
      using assms(2) by (simp add: refused_def same_ui_def wf_app_def)
    then show ?case using 2 True refused_ended by blast
  qed (use True in simp)
qed (use assms in \<open>simp add: choose_sign_def declined_def answered_def awaiting_def claimed_def\<close>)

lemma choose_continue_wp:
  assumes "wf_app s" "\<not> awaiting s"
  shows "wp (choose_continue confirm s)
    (\<lambda>_ t. answered s t \<and> wf_app t \<and> (claimed t \<longrightarrow> t = s\<lparr> replies := replies s @ [([], SWO_SUCCESS)] \<rparr>) \<and>
       (\<not> confirm \<longrightarrow> declined s t))
    (\<lambda>_ _. False)"
  using assms
  by (auto simp: declined_def choose_continue_def rejectStagedReview_def answered_def awaiting_def claimed_def)

lemma wp_dispatch_guarded:
  assumes "wp (k s) Q (\<lambda>e t. status_word e \<and> Q () (t\<lparr> global := wiped,
    currentInstruction := INSTRUCTION_NONE, async_reply := False, replies := replies t @ [([], e)] \<rparr>))"
  shows "wp (dispatch_guarded k s) Q (\<lambda>_ _. False)"
  using assms by (cases "k s") (auto simp: dispatch_guarded_def status_word_def)

text \<open>
  After the header of a packet c: hdr and the kind are absorbed, the path is set, and only
  the path, the hash and the header rows have changed since s.
\<close>

definition header_done :: "sdk \<Rightarrow> u32 list \<Rightarrow> bytes \<Rightarrow> bytes \<Rightarrow> app \<Rightarrow> app \<Rightarrow> bool" where
  "header_done E ns hdr absorbed s t \<longleftrightarrow> length ns \<le> 8 \<and>
     used_nodes (global_derivation_path t) = map hardened ns \<and> header_shown E hdr t \<and>
     tx_hash t = Some absorbed \<and> wf_app t \<and> global t = global s \<and> replies t = replies s \<and>
     screen t = screen s \<and> currentInstruction t = currentInstruction s"

lemma header_doneD:
  assumes "header_done E ns hdr absorbed s t"
  shows "length ns \<le> 8" "used_nodes (global_derivation_path t) = map hardened ns"
    "header_shown E hdr t" "tx_hash t = Some absorbed" "wf_app t" "global t = global s"
    "replies t = replies s" "screen t = screen s" "currentInstruction t = currentInstruction s"
  using assms by (simp_all add: header_done_def)

lemma header_to_address_step:
  assumes E: "platform E" and wf: "wf_app s" and len: "length c < 256" and dst: "address_buffer dst"
    and k: "\<And>t off dst ns hdr to rest. header_done E ns hdr (hdr @ [kind] @ to) s t \<Longrightarrow>
      c = path_bytes ns @ hdr @ [kind] @ to @ rest \<Longrightarrow> length to = 32 \<Longrightarrow> drop off c = rest \<Longrightarrow>
      sub8 (length c) off = length rest \<Longrightarrow> address_text E to = Some (cstr dst) \<Longrightarrow>
      address_buffer dst \<Longrightarrow> wp (k (off, dst) t) Q (refused s)"
  shows "wp (handleHeaderAndToAddress E c kind dst s) (\<lambda>a t. wp (k a t) Q (refused s)) (refused s)"
proof -
  have snd: "wf_sender (global_account_sender s)" using wf by (simp add: wf_app_def)
  show ?thesis
  proof (rule wp_mono [OF handleHeaderAndToAddress_wp [OF platformD(1) [OF E] snd dst len]], goal_cases)
    case (1 a t)
    obtain off dst' where a: "a = (off, dst')" by (cases a)
    from 1 [unfolded a prod.case] obtain hdr to rest where
      op: "length to = 32" "opened E c kind t hdr (to @ rest)" "off \<le> length c" "drop off c = rest"
        "tx_hash t = Some (hdr @ [kind] @ to)" "address_text E to = Some (cstr dst')"
        "address_buffer dst'" "header_frame s t" by blast
    from op(2) obtain ns where ns: "length ns \<le> 8" "c = path_bytes ns @ hdr @ [kind] @ to @ rest"
      "used_nodes (global_derivation_path t) = map hardened ns" unfolding opened_def by auto
    have "wf_app t" "global t = global s"
      using op(2) wf header_frame_global [OF op(8)] by (auto simp: wf_app_def opened_def signing_path_def)
    then have "header_done E ns hdr (hdr @ [kind] @ to) s t"
      using ns op(5) opened_header_shown [OF op(2)] header_frame_same_ui [OF op(8)]
      by (simp add: header_done_def same_ui_def)
    moreover have "sub8 (length c) off = length rest" using op(3,4) len by auto
    ultimately show ?case unfolding a using k ns(2) op by blast
  next
    case (2 e t)
    then show ?case using header_frame_same_ui by (fastforce simp: refused_def same_ui_def)
  qed
qed

text \<open>The transactions without a recipient read the path themselves, before or after they start
  the hash.\<close>

definition path_done :: "bytes \<Rightarrow> app \<Rightarrow> u32 list \<Rightarrow> nat \<Rightarrow> app \<Rightarrow> bool" where
  "path_done c s ns n t \<longleftrightarrow> length ns \<le> 8 \<and> n = length (path_bytes ns) \<and> n \<le> length c \<and> n \<le> 33 \<and>
     take n c = path_bytes ns \<and> signing_path (global_derivation_path t) \<and>
     used_nodes (global_derivation_path t) = map hardened ns \<and>
     t = s\<lparr> global_derivation_path := global_derivation_path t \<rparr>"

lemma path_step:
  assumes "wf_app s"
  shows "wp (parse_path c s) (\<lambda>n t. \<exists>ns. path_done c s ns n t) (refused s)"
proof (rule wp_mono [OF parse_path_wp], goal_cases)
  case (1 n t)
  then obtain ns where "take n c = path_bytes ns" "length ns \<le> 8"
    "used_nodes (global_derivation_path t) = map hardened ns" by blast
  moreover from this 1 have "n = length (path_bytes ns)" by (metis length_take min_absorb2)
  ultimately show ?case using 1 unfolding path_done_def by blast
next
  case (2 e t)
  then have t: "t = s\<lparr> global_derivation_path := global_derivation_path t \<rparr>" by blast
  show ?case
    using 2 assms header_frame_path(2) [OF t] header_frame_same_ui [OF header_frame_path(1) [OF t]]
    by (simp add: refused_def same_ui_def wf_app_def)
qed

lemma path_doneD:
  assumes "path_done c s ns n t" "wf_app s"
  shows "wf_app t" "same_ui s t" "global t = global s" "tx_hash t = tx_hash s" "n \<le> length c"
    "n \<le> 33"
    "status_word e \<Longrightarrow> refused s e t"
proof -
  from assms(1) have t: "t = s\<lparr> global_derivation_path := global_derivation_path t \<rparr>"
    and p: "signing_path (global_derivation_path t)" by (simp_all add: path_done_def)
  note tf = header_frame_path [OF t]
  show w: "wf_app t" using assms(2) tf p by (simp add: wf_app_def signing_path_def)
  show u: "same_ui s t" using tf(1) header_frame_same_ui by blast
  show "global t = global s" by (rule tf(3))
  show "tx_hash t = tx_hash s" by (subst t) simp
  show "n \<le> length c" "n \<le> 33" using assms(1) by (simp_all add: path_done_def)
  show "refused s e t" if "status_word e"
    using that u w by (simp add: refused_def same_ui_def wf_app_def)
qed

lemma wp_init_step:
  assumes "Q () (s\<lparr> tx_hash := Some [] \<rparr>)" "X ERROR_FAILED_CX_OPERATION s"
  shows "wp (init_tx_hash E s) Q X"
  using assms by simp

lemma account_header_step:
  assumes E: "platform E" and wf: "wf_app s" and len: "length c < 256" and p: "path_done c s ns n t"
    and h: "tx_hash u = Some []" "u = t \<or> u = t\<lparr> tx_hash := Some [] \<rparr>"
  shows "wp (hashAccountTransactionHeaderAndKind E (drop n c) kind u)
    (\<lambda>m v. m = 61 \<and> n + 61 \<le> length c \<and> (\<exists>hdr rest. header_done E ns hdr (hdr @ [kind]) s v \<and>
       c = path_bytes ns @ hdr @ [kind] @ rest \<and> drop (61 + n) c = rest \<and>
       sub8 (sub8 (length c) n) 61 = length rest)) (refused s)"
proof -
  let ?c = "drop n c"
  note n = path_doneD [OF p wf]
  have up: "global_account_sender u = global_account_sender t" "global u = global t"
    "same_ui s u" "global_derivation_path u = global_derivation_path t" "signing_path (global_derivation_path t)"
    using h(2) n(2) p by (auto simp: path_done_def)
  have snd: "wf_sender (global_account_sender u)" using n(1) up(1) by (simp add: wf_app_def)
  show ?thesis
  proof (rule wp_mono [OF hashAccountTransactionHeaderAndKind_wp [OF platformD(1) [OF E] snd, where h = "[]"]], goal_cases)
    case (2 m v)
    then have v: "m = 61" "61 \<le> length ?c" "?c ! 60 = kind" "tx_hash v = Some (take 61 ?c)"
      "header_rows E (take 60 ?c) (global_derivation_path u) (global_account_sender v)"
      "wf_sender (global_account_sender v)" "global_derivation_path v = global_derivation_path u"
      "header_frame u v" by simp_all
    have g: "global v = global s" "same_ui s v"
      using header_frame_global [OF v(8)] same_ui_trans [OF up(3) header_frame_same_ui [OF v(8)]] n(3) up(2)
      by simp_all
    have k61: "take 61 ?c = take 60 ?c @ [kind]" by (rule header_split [OF v(2,3)])
    have "wf_app v" using v(6,7) wf n(1) g(1) up(4) by (simp add: wf_app_def)
    then have "header_done E ns (take 60 ?c) (take 60 ?c @ [kind]) s v"
      using v g k61 p up(4,5) by (simp add: header_done_def header_shown_def same_ui_def path_done_def)
    moreover have "take n c = path_bytes ns" using p unfolding path_done_def by blast
    then have "c = path_bytes ns @ take 61 ?c @ drop 61 ?c" by (metis append_take_drop_id)
    then have "c = path_bytes ns @ take 60 ?c @ [kind] @ drop 61 ?c"
      unfolding k61 by simp
    moreover have "sub8 (sub8 (length c) n) 61 = length (drop 61 ?c)" "n + 61 \<le> length c"
      using v(2) n(5) len by simp_all
    moreover have "drop (61 + n) c = drop 61 ?c" by simp
    ultimately show ?case using v(1) by blast
  next
    case (3 e v)
    then have "same_ui s v" using header_frame_same_ui up(3) same_ui_trans by blast
    then show ?case using 3 n(1) up(4) by (simp add: refused_def same_ui_def wf_app_def)
  qed (use h(1) in simp)
qed

lemma kept_decided: "kept I s t \<Longrightarrow> decided True I s t"
  by (simp add: kept_def decided_def)

lemma refused_decided: "refused s e t \<Longrightarrow> status_word e \<and> decided True I s (ended e t)"
  using refused_ended by (auto simp: decided_def settled_def refused_def)

lemma rejection_decided:
  assumes "wf_app s" "\<not> awaiting s"
  shows "wp (send_user_rejection s) (\<lambda>_ t. decided False I s t) X"
  using assms by (simp add: decided_defs awaiting_def claimed_def)

lemma answered_idle:
  assumes "\<not> awaiting s" "screen t = screen s" "replies t = replies s @ [r]"
    "currentInstruction t = currentInstruction s \<or> currentInstruction t = INSTRUCTION_NONE"
  shows "answered s t"
  using assms by (auto simp: answered_def awaiting_def claimed_def)

text \<open>The log holds the rows of the reviews the user approved since the instruction was opened.\<close>

type_synonym log = "(bytes \<times> bytes) list list"

locale instruction =
  fixes handler :: "sdk \<Rightarrow> command \<Rightarrow> bool \<Rightarrow> app \<Rightarrow> unit act"
    and decide :: "sdk \<Rightarrow> callback \<Rightarrow> bool \<Rightarrow> app \<Rightarrow> unit act"
    and invar :: "sdk \<Rightarrow> log \<Rightarrow> app \<Rightarrow> bool"
    and public :: "command \<Rightarrow> bool"
  assumes handle: "platform E \<Longrightarrow> wf_app s \<Longrightarrow> \<not> awaiting s \<Longrightarrow>
      cmd_data c \<noteq> [] \<Longrightarrow> length (cmd_data c) < 256 \<Longrightarrow>
      (if initial then global s = wiped \<and> log = [] else invar E log s) \<Longrightarrow>
      wp (handler E c initial s) (\<lambda>_ t. settled (invar E log) s t \<and> (public c \<or> silent s t)) (refused s)"
    and choice: "platform E \<Longrightarrow> wf_app s \<Longrightarrow> \<not> awaiting s \<Longrightarrow>
      awaiting (s\<lparr> screen := Some rv \<rparr>) \<Longrightarrow> invar E log (s\<lparr> screen := Some rv \<rparr>) \<Longrightarrow>
      wp (decide E (rv_callback rv) confirm s)
        (\<lambda>_ t. decided confirm (invar E (log @ [rv_pairs rv])) s t) (\<lambda>_ _. False)"
    and idle: "invar E log s \<Longrightarrow> \<not> awaiting s \<Longrightarrow>
      invar E log (s\<lparr> screen := None, status_page := b \<rparr>)"
    and answer: "invar E log s \<Longrightarrow> \<not> awaiting s \<Longrightarrow> invar E log (s\<lparr> replies := rs \<rparr>)"
    and fresh: "global s = wiped \<Longrightarrow> \<not> awaiting s \<Longrightarrow> invar E [] s"
begin

text \<open>A packet of the instruction, dispatched under the guard, always ends and is always answered,
  with a status word alone unless it asks for what is public.\<close>

lemma packet:
  assumes "platform E" "wf_app s" "\<not> awaiting s" "cmd_data c \<noteq> []" "length (cmd_data c) < 256"
    "if initial then global s = wiped \<and> log = [] else invar E log s"
  shows "wp (dispatch_guarded (handler E c initial) s)
    (\<lambda>_ t. settled (invar E log) s t \<and> (public c \<or> silent s t)) (\<lambda>_ _. False)"
proof (rule wp_dispatch_guarded, rule wp_mono [OF handle [OF assms]], goal_cases)
  case (2 e t)
  then show ?case
    using assms(3) by (auto simp: refused_def kept_defs wf_app_def awaiting_def claimed_def)
qed simp

text \<open>A packet the dispatcher refuses on its own leaves the instruction open.\<close>

lemma bare_refusal:
  assumes "wf_app s" "\<not> awaiting s" "if initial then global s = wiped \<and> log = [] else invar E log s"
  shows "wp (io_send_sw sw s) (\<lambda>_ t. kept (invar E log) s t) X"
proof -
  have "invar E log s" using assms(2,3) fresh by (cases initial) simp_all
  then have "invar E log (s\<lparr> replies := replies s @ [([], sw)] \<rparr>)" using answer assms(2) by blast
  then show ?thesis using assms(1,2) by (auto simp: kept_defs awaiting_def claimed_def)
qed

text \<open>A choice is taken off the screen first, and then runs.\<close>

lemma choice_kept:
  assumes "platform E" "wf_app s" "screen s = Some rv" "awaiting s" "invar E log s"
  shows "wp (decide E (rv_callback rv) confirm (s\<lparr> screen := None \<rparr>))
    (\<lambda>_ t. decided confirm (invar E (log @ [rv_pairs rv])) (s\<lparr> screen := None \<rparr>) t) (\<lambda>_ _. False)"
proof (rule choice)
  have "(s\<lparr> screen := None \<rparr>)\<lparr> screen := Some rv \<rparr> = s" using assms(3) by (cases s) simp
  then show "awaiting (s\<lparr> screen := None, screen := Some rv \<rparr>)" "invar E log (s\<lparr> screen := None, screen := Some rv \<rparr>)"
    using assms(4,5) by simp_all
qed (use assms in \<open>simp_all add: awaiting_def\<close>)

end

text \<open>
  The instructions that ask for a signature and nothing else; their invariant does not look at the log.
\<close>

locale sign_flow =
  fixes handler :: "sdk \<Rightarrow> command \<Rightarrow> bool \<Rightarrow> app \<Rightarrow> unit act"
    and flow :: "sdk \<Rightarrow> app \<Rightarrow> bool"
  assumes sign_handle: "platform E \<Longrightarrow> wf_app s \<Longrightarrow> \<not> awaiting s \<Longrightarrow>
      cmd_data c \<noteq> [] \<Longrightarrow> length (cmd_data c) < 256 \<Longrightarrow>
      (if initial then global s = wiped else flow E s) \<Longrightarrow>
      wp (handler E c initial s) (\<lambda>_ t. kept (flow E) s t) (refused s)"
    and sign_choice: "platform E \<Longrightarrow> wf_app s \<Longrightarrow> \<not> awaiting s \<Longrightarrow>
      awaiting (s\<lparr> screen := Some rv \<rparr>) \<Longrightarrow> flow E (s\<lparr> screen := Some rv \<rparr>) \<Longrightarrow>
      rv_callback rv = review_choice_sign \<and>
      wp (choose_sign E confirm s) (\<lambda>_ t. decided confirm (flow E) s t) (\<lambda>_ _. False)"
    and sign_frame: "flow E s \<Longrightarrow> \<not> awaiting s \<Longrightarrow>
      flow E (s\<lparr> screen := None, status_page := b \<rparr>) \<and> flow E (s\<lparr> replies := rs \<rparr>)"
    and sign_fresh: "global s = wiped \<Longrightarrow> \<not> awaiting s \<Longrightarrow> flow E s"

end
