(* ===== verification/Transfers.thy ===== *)
theory Transfers
  imports Flow
begin

text \<open>
  Transfers of CCD: src/src/handler/sign_transfer.c and src/src/handler/sign_transfer_with_memo.c.

  The invariants say what the transaction hash has absorbed in each state of the flow.  A review
  that asks for a signature shows the sender, the energy limit, the network, the amount, the
  recipient and the memo of exactly the bytes the signature is made over.
\<close>

abbreviation P2_SIGN_TX_DEFAULT :: u8 where "P2_SIGN_TX_DEFAULT \<equiv> 0"
abbreviation P2_SIGN_TX_FEE_DISPLAY :: u8 where "P2_SIGN_TX_FEE_DISPLAY \<equiv> 1"

subsection \<open>Access to the contexts\<close>

definition set_blob :: "(transactionWithDataBlob \<Rightarrow> transactionWithDataBlob) \<Rightarrow> app \<Rightarrow> app" where
  "set_blob f s = s\<lparr> global := (global s)\<lparr> withDataBlob := f (withDataBlob (global s)) \<rparr> \<rparr>"

definition set_transfer :: "(signTransferContext \<Rightarrow> signTransferContext) \<Rightarrow> app \<Rightarrow> app" where
  "set_transfer f = set_blob (\<lambda>b. b\<lparr> signTransferContext := f (signTransferContext b) \<rparr>)"

definition set_cbor :: "(cborContext \<Rightarrow> cborContext) \<Rightarrow> app \<Rightarrow> app" where
  "set_cbor f = set_blob (\<lambda>b. b\<lparr> cborContext := f (cborContext b) \<rparr>)"

abbreviation transfer :: "app \<Rightarrow> signTransferContext" where
  "transfer s \<equiv> signTransferContext (withDataBlob (global s))"

abbreviation memo :: "app \<Rightarrow> cborContext" where
  "memo s \<equiv> cborContext (withDataBlob (global s))"

subsection \<open>Operations\<close>

text \<open>The optional estimate of the fees, eight bytes at an offset of the data; P2 says whether
  they are there.  The buffer was cleared before.\<close>

definition fee_suffix :: "u8 \<Rightarrow> nat" where
  "fee_suffix p2 = (if p2 = P2_SIGN_TX_FEE_DISPLAY then 8 else 0)"

definition read_fee :: "sdk \<Rightarrow> u8 \<Rightarrow> bytes \<Rightarrow> nat \<Rightarrow> bytes \<Rightarrow> (bytes \<times> bool) result" where
  "read_fee E p2 cdata off dst =
     (if fee_suffix p2 \<noteq> 0
      then rbind (slice cdata off 8) (\<lambda>fee_be. fee_display_apply_u64 E dst fee_be)
      else Ok (dst, False))"

definition handle_sign_transfer :: "sdk \<Rightarrow> command \<Rightarrow> app \<Rightarrow> unit act" where
  "handle_sign_transfer E cmd s =
     (let cdata = cmd_data cmd; lc = length cdata; p2 = cmd_p2 cmd in
      if cmd_p1 cmd \<noteq> 0 \<or> P2_SIGN_TX_FEE_DISPLAY < p2 then Throw SWO_WRONG_P1_P2 s
      else
        let s = set_transfer (\<lambda>c. c\<lparr> tr_has_fee_display := False,
                  tr_fee_display_str := zeros (length (tr_fee_display_str c)) \<rparr>) s in
        bind (handleHeaderAndToAddress E cdata TRANSFER (tr_displayStr (transfer s)) s)
          (\<lambda>(offset, displayStr) s.
        let s = set_transfer (\<lambda>c. c\<lparr> tr_displayStr := displayStr \<rparr>) s;
            cdata = drop offset cdata;
            remainingDataLength = sub8 lc offset in
        if remainingDataLength \<noteq> 8 + fee_suffix p2 then Throw SWO_INCORRECT_DATA s
        else call (U8BE cdata 0) s (\<lambda>amount.
             call (amount_to_ccd_display E (tr_displayAmount (transfer s)) amount) s
               (\<lambda>(displayAmount, _).
             let s = set_transfer (\<lambda>c. c\<lparr> tr_displayAmount := displayAmount \<rparr>) s in
             bind (hash_data E cdata 0 8 s) (\<lambda>_ s.
             call (read_fee E p2 cdata 8 (tr_fee_display_str (transfer s))) s (\<lambda>(fee, shown).
             let s = set_transfer (\<lambda>c. c\<lparr> tr_fee_display_str := fee,
                       tr_has_fee_display := shown \<rparr>) s in
             bind (startTransferDisplay False s) (\<lambda>_ s. request_async_reply s)))))))"

definition finish_transfer_memo :: "app \<Rightarrow> unit act" where
  "finish_transfer_memo s =
     send_success_no_idle (set_transfer (\<lambda>c. c\<lparr> tr_state := TX_TRANSFER_AMOUNT \<rparr>) s)"

text \<open>\<open>readCborInitial\<close> and \<open>readCborContent\<close> work on the context of the union; a status word other
  than success goes to the host.\<close>

definition read_cbor :: "(cborContext \<Rightarrow> (u16 \<times> cborContext) result) \<Rightarrow> app \<Rightarrow>
    (app \<Rightarrow> unit act) \<Rightarrow> unit act" where
  "read_cbor reader s continue =
     call (reader (memo s)) s (\<lambda>(cborSw, ctx).
     let s = set_cbor (\<lambda>_. ctx) s in
     if cborSw \<noteq> SWO_SUCCESS then send_rejection cborSw s else continue s)"

text \<open>The four kinds of packets of a transfer with a memo.\<close>

definition memo_open_packet :: "sdk \<Rightarrow> command \<Rightarrow> app \<Rightarrow> unit act" where
  "memo_open_packet E cmd s =
     (let cdata = cmd_data cmd; p2 = cmd_p2 cmd; dataLength = length cdata in
      if P2_SIGN_TX_FEE_DISPLAY < p2 then Throw SWO_WRONG_P1_P2 s
      else
        let s = set_transfer (\<lambda>c. c\<lparr> tr_has_fee_display := False,
                  tr_fee_display_str := zeros (length (tr_fee_display_str c)) \<rparr>) s in
        bind (handleHeaderAndToAddress E cdata TRANSFER_WITH_MEMO (tr_displayStr (transfer s)) s)
          (\<lambda>(offset, displayStr) s.
        let s = set_transfer (\<lambda>c. c\<lparr> tr_displayStr := displayStr \<rparr>) s;
            cdata = drop offset cdata;
            remainingDataLength = sub8 dataLength offset in
        if remainingDataLength \<noteq> 2 + fee_suffix p2 then Throw SWO_INCORRECT_DATA s
        else call (U2BE cdata 0) s (\<lambda>n.
             let s = set_cbor (\<lambda>c. c\<lparr> cb_cborLength := unat n \<rparr>) s in
             if 257 < unat n then Throw ERROR_INVALID_PARAM s
             else bind (hash_data E cdata 0 2 s) (\<lambda>_ s.
                  call (read_fee E p2 cdata 2 (tr_fee_display_str (transfer s))) s (\<lambda>(fee, shown).
                  send_success_no_idle (set_transfer (\<lambda>c. c\<lparr> tr_fee_display_str := fee,
                    tr_has_fee_display := shown, tr_state := TX_TRANSFER_MEMO_INITIAL \<rparr>) s))))))"

definition memo_first_packet :: "sdk \<Rightarrow> command \<Rightarrow> app \<Rightarrow> unit act" where
  "memo_first_packet E cmd s =
     (if cmd_p2 cmd \<noteq> P2_SIGN_TX_DEFAULT then Throw SWO_WRONG_P1_P2 s
      else bind (update_hash E (cmd_data cmd) s) (\<lambda>_ s.
           read_cbor (readCborInitial E (cmd_data cmd)) s (\<lambda>s.
           if cb_cborLength (memo s) = 0 then finish_transfer_memo s
           else send_success_no_idle (set_transfer (\<lambda>c. c\<lparr> tr_state := TX_TRANSFER_MEMO \<rparr>) s))))"

definition memo_next_packet :: "sdk \<Rightarrow> command \<Rightarrow> app \<Rightarrow> unit act" where
  "memo_next_packet E cmd s =
     (if cmd_p2 cmd \<noteq> P2_SIGN_TX_DEFAULT then Throw SWO_WRONG_P1_P2 s
      else bind (update_hash E (cmd_data cmd) s) (\<lambda>_ s.
           read_cbor (readCborContent E (cmd_data cmd)) s (\<lambda>s.
           if cb_cborLength (memo s) \<noteq> 0 then send_success_no_idle s
           else finish_transfer_memo s)))"

definition memo_amount_packet :: "sdk \<Rightarrow> command \<Rightarrow> app \<Rightarrow> unit act" where
  "memo_amount_packet E cmd s =
     (let cdata = cmd_data cmd in
      if cmd_p2 cmd \<noteq> P2_SIGN_TX_DEFAULT then Throw SWO_WRONG_P1_P2 s
      else if length cdata < 8 then Throw SWO_INCORRECT_DATA s
      else call (U8BE cdata 0) s (\<lambda>amount.
           call (amount_to_ccd_display E (tr_displayAmount (transfer s)) amount) s
             (\<lambda>(displayAmount, _).
           let s = set_transfer (\<lambda>c. c\<lparr> tr_displayAmount := displayAmount \<rparr>) s in
           bind (hash_data E cdata 0 8 s) (\<lambda>_ s. startTransferDisplay True s))))"

definition handle_sign_transfer_with_memo :: "sdk \<Rightarrow> command \<Rightarrow> bool \<Rightarrow> app \<Rightarrow> unit act" where
  "handle_sign_transfer_with_memo E cmd isInitialCall s =
     (let p1 = cmd_p1 cmd;
          s = (if isInitialCall then set_transfer (\<lambda>c. c\<lparr> tr_state := TX_TRANSFER_INITIAL \<rparr>) s else s);
          state = tr_state (transfer s) in
      if p1 = 1 \<and> state = TX_TRANSFER_INITIAL then memo_open_packet E cmd s
      else if p1 = 2 \<and> state = TX_TRANSFER_MEMO_INITIAL then memo_first_packet E cmd s
      else if p1 = 2 \<and> state = TX_TRANSFER_MEMO then memo_next_packet E cmd s
      else if p1 = 3 \<and> state = TX_TRANSFER_AMOUNT then memo_amount_packet E cmd s
      else Throw ERROR_INVALID_STATE s)"

subsection \<open>Frames\<close>

lemma set_blob_simps [simp]:
  "tx_hash (set_blob f s) = tx_hash s" "replies (set_blob f s) = replies s"
  "screen (set_blob f s) = screen s" "status_page (set_blob f s) = status_page s"
  "currentInstruction (set_blob f s) = currentInstruction s"
  "global_derivation_path (set_blob f s) = global_derivation_path s"
  "global_account_sender (set_blob f s) = global_account_sender s"
  "header_shown E hdr (set_blob f s) = header_shown E hdr s"
  "withDataBlob (global (set_blob f s)) = f (withDataBlob (global s))"
  by (simp_all add: set_blob_def header_shown_def)

lemma set_parts_simps [simp]:
  "transfer (set_transfer f s) = f (transfer s)" "memo (set_transfer f s) = memo s"
  "memo (set_cbor g s) = g (memo s)" "transfer (set_cbor g s) = transfer s"
  by (simp_all add: set_transfer_def set_cbor_def)

definition wf_blob :: "transactionWithDataBlob \<Rightarrow> bool" where
  "wf_blob b \<longleftrightarrow> wf_transfer (signTransferContext b) \<and> wf_schedule (signTransferWithScheduleContext b) \<and>
     wf_cbor (cborContext b)"

lemma wf_app_blob: "wf_app s \<Longrightarrow> wf_blob (withDataBlob (global s))"
  by (simp add: wf_app_def wf_context_def wf_blob_def)

lemma wf_app_set_blob: "wf_app s \<Longrightarrow> wf_blob (f (withDataBlob (global s))) \<Longrightarrow> wf_app (set_blob f s)"
  by (simp add: wf_app_def wf_context_def wf_blob_def set_blob_def)

lemma wf_app_sets:
  "wf_app s \<Longrightarrow> wf_transfer (f (transfer s)) \<Longrightarrow> wf_app (set_transfer f s)"
  "wf_app s \<Longrightarrow> wf_cbor (g (memo s)) \<Longrightarrow> wf_app (set_cbor g s)"
  unfolding set_transfer_def set_cbor_def
  by (rule wf_app_set_blob, assumption, drule wf_app_blob, simp add: wf_blob_def)+

lemma set_simps [simp]:
  "tx_hash (set_transfer f s) = tx_hash s" "tx_hash (set_cbor g s) = tx_hash s"
  "replies (set_transfer f s) = replies s" "replies (set_cbor g s) = replies s"
  "screen (set_transfer f s) = screen s" "screen (set_cbor g s) = screen s"
  "currentInstruction (set_transfer f s) = currentInstruction s"
  "currentInstruction (set_cbor g s) = currentInstruction s"
  "global_derivation_path (set_transfer f s) = global_derivation_path s"
  "global_derivation_path (set_cbor g s) = global_derivation_path s"
  "global_account_sender (set_transfer f s) = global_account_sender s"
  "global_account_sender (set_cbor g s) = global_account_sender s"
  "header_shown E hdr (set_transfer f s) = header_shown E hdr s"
  "header_shown E hdr (set_cbor g s) = header_shown E hdr s"
  by (simp_all add: set_transfer_def set_cbor_def)

subsection \<open>Texts of a transfer review\<close>

text \<open>The row for the estimate of the fees, which is not part of what is signed.\<close>

definition fee_rows :: "u8 \<Rightarrow> bytes \<Rightarrow> (bytes \<times> bytes) list" where
  "fee_rows p2 fee =
     (if p2 = P2_SIGN_TX_FEE_DISPLAY \<and> be_nat fee \<noteq> 2 ^ 64 - 1
      then [(ascii ''Max fees (est.)'', ccd_text (be_nat fee))] else [])"

definition memo_item_rows :: "string \<Rightarrow> string \<Rightarrow> cbor_item \<Rightarrow> (bytes \<times> bytes) list" where
  "memo_item_rows type_item value_item item =
     [(ascii type_item, item_label item), (ascii value_item, item_text item)]"

text \<open>The rows of a transfer of \<open>amt\<close> (eight bytes) to the account \<open>to\<close>.\<close>

definition transfer_rows :: "sdk \<Rightarrow> bytes \<Rightarrow> derivation_path \<Rightarrow> bytes \<Rightarrow> bytes \<Rightarrow>
    cbor_item option \<Rightarrow> (bytes \<times> bytes) list \<Rightarrow> (bytes \<times> bytes) list" where
  "transfer_rows E hdr p to amt item fee =
     header_pairs E ''From'' hdr p @
     [(ascii ''Amount'', ccd_text (be_nat amt)), (ascii ''To'', the (address_text E to))] @
     (case item of None \<Rightarrow> [] | Some i \<Rightarrow> memo_item_rows ''Memo type'' ''Memo'' i) @ fee"

lemma cstr_short_NUL: "length (cstr b) < length b \<Longrightarrow> 0 \<in> set b"
  using cstr_no_NUL [of b] by fastforce

lemma read_fee_wp:
  assumes "formats_numbers E" "length d = off + fee_suffix p2"
  shows "rwp (read_fee E p2 d off (zeros 30))
    (\<lambda>(fee, shown). cbuf 30 fee \<and>
       (if shown then [(ascii ''Max fees (est.)'', cstr fee)] else []) = fee_rows p2 (drop off d))
    (\<lambda>_. False)"
proof (cases "p2 = P2_SIGN_TX_FEE_DISPLAY")
  case True
  then have l: "length (drop off d) = 8" "take 8 (drop off d) = drop off d"
    using assms(2) by (simp_all add: fee_suffix_def)
  have u: "unat (of_nat (be_nat (drop off d)) :: u64) = be_nat (drop off d)"
    by (rule unat_be_nat_8 [OF l(1)])
  have "rwp (fee_display_apply_u64 E (zeros 30) (drop off d))
    (\<lambda>(fee, shown). cbuf 30 fee \<and>
       (if shown then [(ascii ''Max fees (est.)'', cstr fee)] else []) = fee_rows p2 (drop off d))
    (\<lambda>_. False)"
  proof (rule rwp_mono [OF fee_display_wp [OF assms(1) _ l(1)]], goal_cases)
    case (2 a)
    obtain fee shown where a: "a = (fee, shown)" by (cases a)
    have "length (cstr fee) < length fee"
      using 2 length_ccd_text [of "of_nat (be_nat (drop off d))"] unfolding a u by (auto split: if_splits)
    then show ?case using 2 True cstr_short_NUL unfolding a by (auto simp: cbuf_def fee_rows_def)
  qed simp_all
  then show ?thesis using True l by (simp add: read_fee_def fee_suffix_def slice_Ok)
qed (simp add: read_fee_def fee_suffix_def fee_rows_def)

lemma zero_notin_ascii_items [simp]:
  "0 \<notin> set (ascii ''From'')" "0 \<notin> set (ascii ''Sender'')" "0 \<notin> set (ascii ''Amount'')"
  "0 \<notin> set (ascii ''To'')" "0 \<notin> set (ascii ''Max fees (est.)'')" "0 \<notin> set (ascii ''Memo type'')"
  "0 \<notin> set (ascii ''Memo'')" "0 \<notin> set (ascii ''Recipient'')" "0 \<notin> set (ascii ''Data type'')"
  "0 \<notin> set (ascii ''Data'')" "0 \<notin> set (ascii ''Release time (UTC)'')"
  by (simp_all add: ascii_def)

lemma awaiting_screen [simp]:
  "awaiting (s\<lparr> screen := Some rv \<rparr>) \<longleftrightarrow> rv_callback rv \<noteq> review_choice"
  "\<not> awaiting (s\<lparr> screen := None \<rparr>)"
  "awaiting (s\<lparr> status_page := b \<rparr>) = awaiting s" "awaiting (s\<lparr> async_reply := b \<rparr>) = awaiting s"
  "awaiting (s\<lparr> replies := r \<rparr>) = awaiting s" "awaiting (s\<lparr> tx_hash := h \<rparr>) = awaiting s"
  "awaiting (s\<lparr> global := g \<rparr>) = awaiting s" "awaiting (s\<lparr> currentInstruction := i \<rparr>) = awaiting s"
  "awaiting (set_transfer f s) = awaiting s" "awaiting (set_cbor k s) = awaiting s"
  by (simp_all add: awaiting_def)

text \<open>The transfer review drawn from a context.\<close>

lemma startTransferDisplay_wp:
  assumes "header_shown E hdr s" "wf_app s" "tx_hash s = Some msg"
    "cstr (tr_displayAmount (transfer s)) = ccd_text (be_nat amt)"
    "address_text E to = Some (cstr (tr_displayStr (transfer s)))"
    "(if tr_has_fee_display (transfer s) then [(ascii ''Max fees (est.)'', cstr (tr_fee_display_str (transfer s)))]
      else []) = fee"
    "displayMemo \<longleftrightarrow> item \<noteq> None"
    "\<And>i. item = Some i \<Longrightarrow> cstr (cb_typeLabel (memo s)) = item_label i \<and> cstr (cb_display (memo s)) = item_text i"
  shows "wp (startTransferDisplay displayMemo s)
    (\<lambda>_ t. asks_to_sign t msg (transfer_rows E hdr (global_derivation_path s) to amt item fee) \<and>
       t = s\<lparr> screen := screen t, status_page := False, async_reply := True \<rparr>) X"
proof -
  have wf: "wf_sender (global_account_sender s)" "wf_transfer (transfer s)" "wf_cbor (memo s)"
    using assms(2) by (simp_all add: wf_app_def wf_context_def)
  then have d: "0 \<in> set (tr_displayAmount (transfer s))" "0 \<in> set (tr_displayStr (transfer s))"
    "0 \<in> set (tr_fee_display_str (transfer s))" "0 \<in> set (cb_typeLabel (memo s))"
    "0 \<in> set (cb_display (memo s))"
    using cbuf_address by (auto simp: wf_transfer_def wf_cbor_def cbuf_def)
  have fe: "(if tr_has_fee_display (transfer s) then [(ascii ''Max fees (est.)'', cstr (tr_fee_display_str (transfer s)))]
      else []) = fee" by (rule assms(6))
  show ?thesis
    using assms(3,4,5,7,8) d wf(1) header_shown_pairs [OF assms(1), of "''From''"]
    by (cases item)
      (auto simp: startTransferDisplay_def use_case_defs memo_rows_def asks_to_sign_def
        transfer_rows_def memo_item_rows_def fe [symmetric] Let_def)
qed

subsection \<open>The simple transfer\<close>

text \<open>The review asks for a signature over header, kind, recipient and amount, and shows them.\<close>

definition transfer_asked :: "sdk \<Rightarrow> app \<Rightarrow> bytes \<Rightarrow> bytes \<Rightarrow> bytes \<Rightarrow> bytes \<Rightarrow> u8 \<Rightarrow> bool" where
  "transfer_asked E t hdr to amt fee p2 \<longleftrightarrow> header_shown E hdr t \<and> length to = 32 \<and>
     address_text E to \<noteq> None \<and> length amt = 8 \<and>
     asks_to_sign t (hdr @ [TRANSFER] @ to @ amt)
       (transfer_rows E hdr (global_derivation_path t) to amt None (fee_rows p2 fee))"

definition transfer_flow :: "sdk \<Rightarrow> app \<Rightarrow> bool" where
  "transfer_flow E s \<longleftrightarrow> (\<exists>hdr to amt fee p2. transfer_asked E s hdr to amt fee p2)"

lemma U8BE_amount:
  assumes "8 \<le> length c"
  shows "U8BE c 0 = Ok (of_nat (be_nat (take 8 c)))"
    "unat (of_nat (be_nat (take 8 c)) :: u64) = be_nat (take 8 c)"
  using assms unat_be_nat_8 [of "take 8 c"] by (simp_all add: U8BE_def slice_Ok)

lemma amount_text_Ok:
  assumes "formats_numbers E" "cbuf 30 dst" "8 \<le> length c"
  obtains d n where "amount_to_ccd_display E dst (of_nat (be_nat (take 8 c))) = Ok (d, n)"
    "cbuf 30 d" "cstr d = ccd_text (be_nat (take 8 c))"
proof -
  let ?v = "of_nat (be_nat (take 8 c)) :: u64"
  have u: "unat ?v = be_nat (take 8 c)" using U8BE_amount(2) [OF assms(3)] .
  have l: "length (ccd_text (be_nat (take 8 c))) \<le> 25" using length_ccd_text [of ?v] unfolding u .
  have "rwp (amount_to_ccd_display E dst ?v)
    (\<lambda>(d, n). cbuf 30 d \<and> cstr d = ccd_text (be_nat (take 8 c))) (\<lambda>_. False)"
    using assms(1,2) l by (simp add: amount_to_ccd_display_wp cbuf_def u)
  then show thesis by (cases "amount_to_ccd_display E dst ?v") (auto intro: that)
qed

lemma refused_sets [simp]:
  "refused (set_blob f s) = refused s" "refused (set_transfer g s) = refused s"
  "refused (set_cbor k s) = refused s"
  by (intro ext, simp add: refused_def)+

text \<open>The preparation of a transfer with an optional fee row.\<close>

abbreviation clear_fee :: "app \<Rightarrow> app" where
  "clear_fee \<equiv> set_transfer (\<lambda>c. c\<lparr> tr_has_fee_display := False,
     tr_fee_display_str := zeros (length (tr_fee_display_str c)) \<rparr>)"

lemma wf_transfer_app: "wf_app s \<Longrightarrow> wf_transfer (transfer s)"
  by (simp add: wf_app_def wf_context_def)

lemma wf_clear_fee: "wf_app s \<Longrightarrow> wf_app (clear_fee s)"
  by (rule wf_app_sets, assumption, drule wf_transfer_app) (simp add: wf_transfer_def cbuf_def zeros_def)

lemma handle_sign_transfer_wp:
  assumes E: "platform E" and wf: "wf_app s" and len: "length (cmd_data c) < 256"
  shows "wp (handle_sign_transfer E c s)
    (\<lambda>_ t. \<exists>ns hdr to amt fee. cmd_data c = path_bytes ns @ hdr @ [TRANSFER] @ to @ amt @ fee \<and>
       length ns \<le> 8 \<and> used_nodes (global_derivation_path t) = map hardened ns \<and>
       length fee = fee_suffix (cmd_p2 c) \<and> transfer_asked E t hdr to amt fee (cmd_p2 c) \<and> replies t = replies s \<and> wf_app t \<and>
       currentInstruction t = currentInstruction s)
    (refused s)" (is "wp _ ?Q _")
proof (cases "cmd_p1 c \<noteq> 0 \<or> P2_SIGN_TX_FEE_DISPLAY < cmd_p2 c")
  case True
  then show ?thesis using refused_self [OF wf] by (simp add: handle_sign_transfer_def)
next
  case False
  let ?s = "clear_fee s" and ?n = "8 + fee_suffix (cmd_p2 c)"
  note wt = wf_transfer_app [OF wf] and ws = wf_clear_fee [OF wf]
  have dst: "address_buffer (tr_displayStr (transfer ?s))" using wt by (simp add: wf_transfer_def)
  show ?thesis
    unfolding handle_sign_transfer_def Let_def [of "cmd_data c"] Let_def [of "cmd_p2 c"] Let_def [of "length _"]
      Let_def [of ?s] if_not_P [OF False] wp_bind
  proof (rule header_to_address_step [OF E ws len dst, unfolded refused_sets], goal_cases)
    case (1 t off dst ns hdr to rest)
    then have h: "header_done E ns hdr (hdr @ [TRANSFER] @ to) ?s t"
      and c: "cmd_data c = path_bytes ns @ hdr @ [TRANSFER] @ to @ rest"
      and to: "length to = 32" "address_text E to = Some (cstr dst)" "address_buffer dst"
      and off: "drop off (cmd_data c) = rest" "sub8 (length (cmd_data c)) off = length rest"
      by simp_all
    note hd = header_doneD [OF h]
    have wt': "wf_transfer (transfer t)" by (rule wf_transfer_app [OF hd(5)])
    have tt: "tr_fee_display_str (transfer t) = zeros 30" "cbuf 30 (tr_displayAmount (transfer t))"
      using wt by (simp_all add: hd(6) wf_transfer_def cbuf_def)
    have refuse: "refused s e (set_transfer f t)" "refused s e (set_transfer g (set_transfer f t))"
      if "status_word e" for e f g using that hd by (simp_all add: refused_def wf_app_def)
    show ?case
    proof (cases "length rest = ?n")
      case False
      then show ?thesis by (simp add: off refuse)
    next
      case True
      then have l8: "8 \<le> length rest" by simp
      obtain d n where d: "amount_to_ccd_display E (tr_displayAmount (transfer t)) (of_nat (be_nat (take 8 rest))) = Ok (d, n)"
        "cbuf 30 d" "cstr d = ccd_text (be_nat (take 8 rest))"
        using amount_text_Ok [OF platformD(4) [OF E] tt(2) l8] by blast
      obtain fee shown where f: "read_fee E (cmd_p2 c) rest 8 (zeros 30) = Ok (fee, shown)" "cbuf 30 fee"
        "(if shown then [(ascii ''Max fees (est.)'', cstr fee)] else []) = fee_rows (cmd_p2 c) (drop 8 rest)"
        using read_fee_wp [OF platformD(4) [OF E] True]
        by (cases "read_fee E (cmd_p2 c) rest 8 (zeros 30)") auto
      let ?m = "hdr @ [TRANSFER] @ to @ take 8 rest"
      let ?u = "(set_transfer (\<lambda>c. c\<lparr> tr_displayAmount := d \<rparr>) (set_transfer (\<lambda>c. c\<lparr> tr_displayStr := dst \<rparr>) t))
        \<lparr> tx_hash := Some ?m \<rparr>"
      let ?v = "set_transfer (\<lambda>c. c\<lparr> tr_fee_display_str := fee, tr_has_fee_display := shown \<rparr>) ?u"
      have wv: "wf_app ?v"
        using hd(5) wt' d(2) f(2) to(3) by (intro wf_app_sets) (simp_all add: wf_transfer_def wf_app_sets)
      have hs: "header_shown E hdr ?v" using hd(3) by simp
      have "wp (bind (startTransferDisplay False ?v) (\<lambda>_ s. request_async_reply s)) ?Q (refused s)"
        unfolding wp_bind
      proof (rule wp_mono [OF startTransferDisplay_wp [OF hs wv, where msg = ?m and to = to
              and amt = "take 8 rest" and item = None and fee = "fee_rows (cmd_p2 c) (drop 8 rest)"]], goal_cases)
        case (7 a w)
        define sc where "sc = screen w"
        have w: "w = ?v\<lparr> screen := sc, status_page := False, async_reply := True \<rparr>"
          "asks_to_sign w ?m (transfer_rows E hdr (global_derivation_path t) to (take 8 rest) None
            (fee_rows (cmd_p2 c) (drop 8 rest)))" using 7 sc_def by simp_all
        have "transfer_asked E w hdr to (take 8 rest) (drop 8 rest) (cmd_p2 c)"
          using w(2) to l8 hs unfolding w(1) by (simp add: transfer_asked_def)
        then show ?case
          unfolding wp_async
          by (intro exI [of _ ns] exI [of _ hdr] exI [of _ to] exI [of _ "take 8 rest"] exI [of _ "drop 8 rest"])
            (use hd wv c True in \<open>auto simp: w(1) transfer_asked_def asks_to_sign_def\<close>)
      qed (use d f(3) to in \<open>simp_all split: if_splits\<close>)
      then show ?thesis
        using d(1) f(1) l8 to
        by (simp add: off True U8BE_amount(1) hash_data_wp [where h = "hdr @ [TRANSFER] @ to"] hd(4) tt refuse)
    qed
  qed
qed

text \<open>What a handler's normal end makes of a review just drawn.\<close>

lemma kept_review:
  assumes "replies t = replies s" "awaiting t" "wf_app t" "currentInstruction t = currentInstruction s" "invar t"
  shows "kept invar s t"
  using assms by (simp add: kept_defs)

lemma kept_reply:
  assumes "replies t = replies s @ [([], sw)]" "\<not> awaiting t" "wf_app t"
    "currentInstruction t = currentInstruction s" "invar t"
  shows "kept invar s t"
  using assms by (simp add: kept_defs)

lemma kept_closed:
  assumes "replies t = replies s @ [([], sw)]" "\<not> awaiting t" "wf_app t" "currentInstruction t = INSTRUCTION_NONE"
  shows "kept invar s t"
  using assms by (simp add: kept_defs claimed_def)

lemma asks_awaiting: "asks_to_sign s m rows \<Longrightarrow> awaiting s"
  by (auto simp: asks_to_sign_def awaiting_def)

lemma transfer_handle:
  assumes "platform E" "wf_app s" "length (cmd_data c) < 256"
  shows "wp (handle_sign_transfer E c s) (\<lambda>_ t. kept (transfer_flow E) s t) (refused s)"
proof (rule wp_mono [OF handle_sign_transfer_wp [OF assms]], goal_cases)
  case (1 a t)
  then obtain hdr to amt fee where a: "transfer_asked E t hdr to amt fee (cmd_p2 c)" by blast
  then have "awaiting t" using asks_awaiting by (auto simp: transfer_asked_def)
  moreover have "transfer_flow E t" using a unfolding transfer_flow_def by blast
  ultimately show ?case using 1 by (intro kept_review) blast+
qed

text \<open>The only choice a transfer asks for is the signature.\<close>

lemma sign_choice_kept:
  assumes "platform E" "wf_app s" "\<not> awaiting s" "asks_to_sign (s\<lparr> screen := Some rv \<rparr>) m rows"
  shows "rv_callback rv = review_choice_sign" "wp (choose_sign E confirm s) (\<lambda>_ t. decided confirm invar s t) (\<lambda>_ _. False)"
proof -
  have m: "tx_hash s = Some m" "rv_callback rv = review_choice_sign"
    using assms(4) by (simp_all add: asks_to_sign_def)
  show "rv_callback rv = review_choice_sign" by (rule m(2))
  show "wp (choose_sign E confirm s) (\<lambda>_ t. decided confirm invar s t) (\<lambda>_ _. False)"
    by (rule wp_mono [OF choose_sign_wp [OF assms(1,2) m(1) assms(3)]]) (simp_all add: decided_def settled_def)
qed

subsection \<open>The transfer with a memo\<close>

text \<open>The bytes absorbed so far: header, kind, recipient, memo length and the memo received.\<close>

definition memo_head :: "sdk \<Rightarrow> app \<Rightarrow> bytes \<Rightarrow> bytes \<Rightarrow> bytes \<Rightarrow> bytes \<Rightarrow> bool" where
  "memo_head E s hdr to len bs \<longleftrightarrow> header_shown E hdr s \<and> length to = 32 \<and>
     address_text E to = Some (cstr (tr_displayStr (transfer s))) \<and> length len = 2 \<and>
     be_nat len = length bs + cb_cborLength (memo s) \<and>
     tx_hash s = Some (hdr @ [TRANSFER_WITH_MEMO] @ to @ len @ bs)"

definition memo_asked :: "sdk \<Rightarrow> app \<Rightarrow> bytes \<Rightarrow> bytes \<Rightarrow> bytes \<Rightarrow> cbor_item \<Rightarrow> bytes \<Rightarrow>
    (bytes \<times> bytes) list \<Rightarrow> bool" where
  "memo_asked E t hdr to len item amt fee \<longleftrightarrow> header_shown E hdr t \<and> length to = 32 \<and> address_text E to \<noteq> None \<and>
     length len = 2 \<and> be_nat len = length (cbor_encode item) \<and> valid_item item \<and> length amt = 8 \<and>
     asks_to_sign t (hdr @ [TRANSFER_WITH_MEMO] @ to @ len @ cbor_encode item @ amt)
       (transfer_rows E hdr (global_derivation_path t) to amt (Some item) fee)"

definition memo_flow :: "sdk \<Rightarrow> app \<Rightarrow> bool" where
  "memo_flow E s \<longleftrightarrow>
     (if awaiting s then \<exists>hdr to len item amt fee. memo_asked E s hdr to len item amt fee
      else case tr_state (transfer s) of
        TX_TRANSFER_MEMO_INITIAL \<Rightarrow> \<exists>hdr to len. memo_head E s hdr to len []
      | TX_TRANSFER_MEMO \<Rightarrow> \<exists>hdr to len. memo_head E s hdr to len (blob (memo s))
      | TX_TRANSFER_AMOUNT \<Rightarrow> \<exists>hdr to len bs. memo_head E s hdr to len bs \<and>
          cb_cborLength (memo s) = 0 \<and> shows_blob bs (memo s)
      | _ \<Rightarrow> True)"

text \<open>One chunk of a memo or of a data registration: hashed, buffered, and decoded when it is the last.\<close>

lemma read_cbor_step:
  assumes "tx_hash s = Some h" "wf_app s" "\<not> awaiting s"
    "rwp (reader (memo s)) (\<lambda>(sw, c'). took_chunk before d (memo s) sw c') status_word"
    "\<And>c' t. took_chunk before d (memo s) SWO_SUCCESS c' \<Longrightarrow>
      t = set_cbor (\<lambda>_. c') (s\<lparr> tx_hash := Some (h @ d) \<rparr>) \<Longrightarrow> wf_app t \<Longrightarrow>
      wp (k t) (\<lambda>_ t. kept invar s t) (refused s)"
  shows "wp (bind (update_hash E d s) (\<lambda>_ s. read_cbor reader s k)) (\<lambda>_ t. kept invar s t) (refused s)"
proof -
  let ?s = "s\<lparr> tx_hash := Some (h @ d) \<rparr>"
  have "wp (read_cbor reader ?s k) (\<lambda>_ t. kept invar s t) (refused s)"
  proof (cases "reader (memo s)")
    case (Ok a)
    obtain sw c' where a: "a = (sw, c')" by (cases a)
    let ?t = "set_cbor (\<lambda>_. c') ?s"
    have tc: "took_chunk before d (memo s) sw c'" using assms(4) Ok a by simp
    then have wf: "wf_app ?t" using assms(2) by (intro wf_app_sets) (simp_all add: took_chunk_def)
    show ?thesis
    proof (cases "sw = SWO_SUCCESS")
      case True
      then show ?thesis
        using assms(5) [OF tc [unfolded True] refl wf] Ok a by (simp add: read_cbor_def)
    next
      case False
      have "kept invar s (?t\<lparr> currentInstruction := INSTRUCTION_NONE, replies := replies s @ [([], sw)] \<rparr>)"
        using wf assms(3) by (intro kept_closed) simp_all
      then show ?thesis using False Ok a by (simp add: read_cbor_def)
    qed
  qed (use assms(2,4) in \<open>simp_all add: read_cbor_def refused_self\<close>)
  then show ?thesis using assms(1) refused_self [OF assms(2)] by simp
qed

lemma memo_head_wf: "memo_head E s hdr to len bs \<Longrightarrow> tx_hash s = Some (hdr @ [TRANSFER_WITH_MEMO] @ to @ len @ bs)"
  by (simp add: memo_head_def)

lemma memo_head_chunk:
  assumes "memo_head E s hdr to len bs" "took_chunk bs d (memo s) SWO_SUCCESS c'"
    "t = set_cbor (\<lambda>_. c') (s\<lparr> tx_hash := Some ((hdr @ [TRANSFER_WITH_MEMO] @ to @ len @ bs) @ d) \<rparr>)"
  shows "memo_head E (set_transfer (\<lambda>c. c\<lparr> tr_state := st \<rparr>) t\<lparr> replies := r \<rparr>) hdr to len (bs @ d)"
  using assms by (simp add: memo_head_def took_chunk_def)

lemma kept_memo_reply:
  assumes "wf_app t" "\<not> awaiting s" "screen t = screen s" "replies t = replies s"
    "currentInstruction t = currentInstruction s"
    "memo_flow E (t\<lparr> replies := replies s @ [([], SWO_SUCCESS)] \<rparr>)"
  shows "wp (send_success_no_idle t) (\<lambda>_ t. kept (memo_flow E) s t) X"
proof -
  have "awaiting t = awaiting s" using assms(3) by (simp add: awaiting_def)
  then show ?thesis using assms by (auto intro!: kept_reply)
qed

lemma took_chunk_length: "took_chunk bs d c sw c' \<Longrightarrow> length (blob c') = length bs + length d"
  by (simp add: took_chunk_def)

lemma memo_chunk_end:
  assumes h: "memo_head E s hdr to len bs" and tc: "took_chunk bs d (memo s) SWO_SUCCESS c'"
    and t: "t = set_cbor (\<lambda>_. c') (s\<lparr> tx_hash := Some ((hdr @ [TRANSFER_WITH_MEMO] @ to @ len @ bs) @ d) \<rparr>)"
    and wf: "wf_app t" "\<not> awaiting s"
  shows "cb_cborLength (memo t) = 0 \<Longrightarrow> wp (finish_transfer_memo t) (\<lambda>_ t. kept (memo_flow E) s t) X"
    "cb_cborLength (memo t) \<noteq> 0 \<Longrightarrow> wp (send_success_no_idle (set_transfer (\<lambda>c. c\<lparr> tr_state := TX_TRANSFER_MEMO \<rparr>) t))
      (\<lambda>_ t. kept (memo_flow E) s t) X"
proof -
  have wt: "wf_app (set_transfer (\<lambda>c. c\<lparr> tr_state := st \<rparr>) t)" for st
    using wf(1) wf_transfer_app [OF wf(1)] by (intro wf_app_sets) (simp_all add: wf_transfer_def)
  note mh = memo_head_chunk [OF h tc t]
  have na: "\<not> awaiting t" using wf(2) t by simp
  have b: "blob c' = bs @ d" using tc by (simp add: took_chunk_def)
  show "wp (finish_transfer_memo t) (\<lambda>_ t. kept (memo_flow E) s t) X" if "cb_cborLength (memo t) = 0"
  proof -
    have "shows_blob (bs @ d) c'" using that tc t by (simp add: took_chunk_def)
    then have "shows_blob (bs @ d) (memo t)" using t by simp
    then have "memo_flow E (set_transfer (\<lambda>c. c\<lparr> tr_state := TX_TRANSFER_AMOUNT \<rparr>) t
        \<lparr> replies := replies s @ [([], SWO_SUCCESS)] \<rparr>)"
      using na that
      by (simp add: memo_flow_def) (blast intro: mh)
    then show ?thesis
      unfolding finish_transfer_memo_def using wt t wf(2) by (intro kept_memo_reply) simp_all
  qed
  show "wp (send_success_no_idle (set_transfer (\<lambda>c. c\<lparr> tr_state := TX_TRANSFER_MEMO \<rparr>) t))
      (\<lambda>_ t. kept (memo_flow E) s t) X" if "cb_cborLength (memo t) \<noteq> 0"
  proof (rule kept_memo_reply)
    show "memo_flow E (set_transfer (\<lambda>c. c\<lparr> tr_state := TX_TRANSFER_MEMO \<rparr>) t
        \<lparr> replies := replies s @ [([], SWO_SUCCESS)] \<rparr>)"
    proof -
      have "blob (memo t) = bs @ d" using b t by simp
      then show ?thesis using na by (simp add: memo_flow_def) (blast intro: mh)
    qed
  qed (use wt t wf(2) in simp_all)
qed

lemma memo_first:
  assumes E: "platform E" and wf: "wf_app s" "\<not> awaiting s" and len: "length (cmd_data c) < 256"
    and st: "tr_state (transfer s) = TX_TRANSFER_MEMO_INITIAL" "memo_flow E s"
  shows "wp (memo_first_packet E c s) (\<lambda>_ t. kept (memo_flow E) s t) (refused s)"
proof -
  obtain hdr to l where h: "memo_head E s hdr to l []" using st wf(2) by (auto simp: memo_flow_def)
  have wc: "wf_cbor (memo s)" using wf(1) by (simp add: wf_app_def wf_context_def)
  have r: "rwp (readCborInitial E (cmd_data c) (memo s))
      (\<lambda>(sw, c'). took_chunk [] (cmd_data c) (memo s) sw c') status_word"
    using len by (intro rwp_mono [OF readCborInitial_wp [OF platformD(1,2) [OF E] wc]]) auto
  show ?thesis
  proof (cases "cmd_p2 c = P2_SIGN_TX_DEFAULT")
    case True
    have "wp (bind (update_hash E (cmd_data c) s) (\<lambda>_ s.
           read_cbor (readCborInitial E (cmd_data c)) s (\<lambda>s.
           if cb_cborLength (memo s) = 0 then finish_transfer_memo s
           else send_success_no_idle (set_transfer (\<lambda>c. c\<lparr> tr_state := TX_TRANSFER_MEMO \<rparr>) s))))
        (\<lambda>_ t. kept (memo_flow E) s t) (refused s)"
    proof (rule read_cbor_step [where before = "[]" and d = "cmd_data c" and s = s])
      show "tx_hash s = Some (hdr @ [TRANSFER_WITH_MEMO] @ to @ l @ [])" by (rule memo_head_wf [OF h])
      fix c' t
      assume t: "took_chunk [] (cmd_data c) (memo s) SWO_SUCCESS c'"
        "t = set_cbor (\<lambda>_. c') (s\<lparr> tx_hash := Some ((hdr @ [TRANSFER_WITH_MEMO] @ to @ l @ []) @ cmd_data c) \<rparr>)"
        "wf_app t"
      show "wp (if cb_cborLength (memo t) = 0 then finish_transfer_memo t
          else send_success_no_idle (set_transfer (\<lambda>c. c\<lparr> tr_state := TX_TRANSFER_MEMO \<rparr>) t))
          (\<lambda>_ t. kept (memo_flow E) s t) (refused s)"
        using memo_chunk_end [OF h t wf(2)] by auto
    qed (use wf r in simp_all)
    then show ?thesis using True by (simp add: memo_first_packet_def)
  qed (simp add: memo_first_packet_def refused_self wf(1))
qed

lemma memo_next:
  assumes E: "platform E" and wf: "wf_app s" "\<not> awaiting s"
    and st: "tr_state (transfer s) = TX_TRANSFER_MEMO" "memo_flow E s"
  shows "wp (memo_next_packet E c s) (\<lambda>_ t. kept (memo_flow E) s t) (refused s)"
proof -
  obtain hdr to l where h: "memo_head E s hdr to l (blob (memo s))" using st wf(2) by (auto simp: memo_flow_def)
  have wc: "wf_cbor (memo s)" using wf(1) by (simp add: wf_app_def wf_context_def)
  have same: "set_transfer (\<lambda>c. c\<lparr> tr_state := TX_TRANSFER_MEMO \<rparr>) t = t"
    if "tr_state (transfer t) = TX_TRANSFER_MEMO" for t
    using that by (simp add: set_transfer_def set_blob_def)
  show ?thesis
  proof (cases "cmd_p2 c = P2_SIGN_TX_DEFAULT")
    case True
    have "wp (bind (update_hash E (cmd_data c) s) (\<lambda>_ s.
           read_cbor (readCborContent E (cmd_data c)) s (\<lambda>s.
           if cb_cborLength (memo s) \<noteq> 0 then send_success_no_idle s else finish_transfer_memo s)))
        (\<lambda>_ t. kept (memo_flow E) s t) (refused s)"
    proof (rule read_cbor_step [where before = "blob (memo s)" and d = "cmd_data c" and s = s])
      show "tx_hash s = Some (hdr @ [TRANSFER_WITH_MEMO] @ to @ l @ blob (memo s))" by (rule memo_head_wf [OF h])
      show "rwp (readCborContent E (cmd_data c) (memo s))
          (\<lambda>(sw, c'). took_chunk (blob (memo s)) (cmd_data c) (memo s) sw c') status_word"
        by (rule readCborContent_wp [OF platformD(1,2) [OF E] wc])
      fix c' t
      assume t: "took_chunk (blob (memo s)) (cmd_data c) (memo s) SWO_SUCCESS c'"
        "t = set_cbor (\<lambda>_. c') (s\<lparr> tx_hash := Some ((hdr @ [TRANSFER_WITH_MEMO] @ to @ l @ blob (memo s)) @ cmd_data c) \<rparr>)"
        "wf_app t"
      have "tr_state (transfer t) = TX_TRANSFER_MEMO" using st t(2) by simp
      then show "wp (if cb_cborLength (memo t) \<noteq> 0 then send_success_no_idle t else finish_transfer_memo t)
          (\<lambda>_ t. kept (memo_flow E) s t) (refused s)"
        using memo_chunk_end [OF h t wf(2)] same [of t] by auto
    qed (use wf in simp_all)
    then show ?thesis using True by (simp add: memo_next_packet_def)
  qed (simp add: memo_next_packet_def refused_self wf(1))
qed

lemma memo_open:
  assumes E: "platform E" and wf: "wf_app s" "\<not> awaiting s" and len: "length (cmd_data c) < 256"
  shows "wp (memo_open_packet E c s) (\<lambda>_ t. kept (memo_flow E) s t) (refused s)"
proof (cases "P2_SIGN_TX_FEE_DISPLAY < cmd_p2 c")
  case True
  then show ?thesis using refused_self [OF wf(1)] by (simp add: memo_open_packet_def)
next
  case False
  let ?s = "clear_fee s" and ?n = "2 + fee_suffix (cmd_p2 c)"
  note wt = wf_transfer_app [OF wf(1)] and ws = wf_clear_fee [OF wf(1)]
  have dst: "address_buffer (tr_displayStr (transfer ?s))" using wt by (simp add: wf_transfer_def)
  show ?thesis
    unfolding memo_open_packet_def Let_def [of "cmd_data c"] Let_def [of "cmd_p2 c"] Let_def [of "length _"]
      Let_def [of ?s] if_not_P [OF False] wp_bind
  proof (rule header_to_address_step [OF E ws len dst, unfolded refused_sets], goal_cases)
    case (1 t off dst ns hdr to rest)
    then have h: "header_done E ns hdr (hdr @ [TRANSFER_WITH_MEMO] @ to) ?s t"
      and to: "length to = 32" "address_text E to = Some (cstr dst)" "address_buffer dst"
      and off: "drop off (cmd_data c) = rest" "sub8 (length (cmd_data c)) off = length rest"
      by simp_all
    note hd = header_doneD [OF h]
    have wt': "wf_transfer (transfer t)" "wf_cbor (memo t)"
      using hd(5) by (simp_all add: wf_app_def wf_context_def)
    have ff: "tr_fee_display_str (transfer t) = zeros 30" using wt by (simp add: hd(6) wf_transfer_def cbuf_def)
    have na: "\<not> awaiting t" using wf(2) hd(8) by (simp add: awaiting_def)
    have refuse: "refused s e (set_transfer f t)" "refused s e (set_cbor g (set_transfer f t))"
      if "status_word e" for e f g using that hd by (simp_all add: refused_def wf_app_def)
    show ?case
    proof (cases "length rest = ?n \<and> be_nat (take 2 rest) \<le> 257")
      case False
      have u: "unat (of_nat (be_nat (take 2 rest)) :: u16) = be_nat (take 2 rest)" if "length rest = ?n"
        using that by (intro unat_be_nat_2) simp
      show ?thesis
      proof (cases "length rest = ?n")
        case True
        then show ?thesis using False u by (simp add: off refuse U2BE_def slice_Ok)
      qed (simp add: off refuse)
    next
      case True
      then have l2: "2 \<le> length rest" "length rest = ?n" by simp_all
      have u: "unat (of_nat (be_nat (take 2 rest)) :: u16) = be_nat (take 2 rest)"
        using l2 by (intro unat_be_nat_2) simp
      obtain fee shown where f: "read_fee E (cmd_p2 c) rest 2 (zeros 30) = Ok (fee, shown)" "cbuf 30 fee"
        using read_fee_wp [OF platformD(4) [OF E] l2(2)]
        by (cases "read_fee E (cmd_p2 c) rest 2 (zeros 30)") auto
      let ?u = "set_cbor (\<lambda>c. c\<lparr> cb_cborLength := be_nat (take 2 rest) \<rparr>) (set_transfer (\<lambda>c. c\<lparr> tr_displayStr := dst \<rparr>) t)"
      let ?v = "set_transfer (\<lambda>c. c\<lparr> tr_fee_display_str := fee, tr_has_fee_display := shown,
        tr_state := TX_TRANSFER_MEMO_INITIAL \<rparr>) (?u\<lparr> tx_hash := Some (hdr @ [TRANSFER_WITH_MEMO] @ to @ take 2 rest) \<rparr>)"
      have wv: "wf_app ?v"
        using hd(5) wt' f(2) to(3)
        by (intro wf_app_sets) (simp_all add: wf_transfer_def wf_app_sets wf_cbor_def)
      have "memo_head E (?v\<lparr> replies := r \<rparr>) hdr to (take 2 rest) []" for r
        using hd(3) to l2 by (simp add: memo_head_def)
      then have "memo_flow E (?v\<lparr> replies := r \<rparr>)" for r
        using na by (simp add: memo_flow_def) blast
      then have "wp (send_success_no_idle ?v) (\<lambda>_ t. kept (memo_flow E) s t) (refused s)"
        using wf(2) wv hd by (intro kept_memo_reply) simp_all
      then show ?thesis
        using True l2 f(1)
        by (simp add: off U2BE_def slice_Ok u hash_data_wp [where h = "hdr @ [TRANSFER_WITH_MEMO] @ to"] hd(4) ff refuse)
    qed
  qed
qed

lemma memo_amount:
  assumes E: "platform E" and wf: "wf_app s" "\<not> awaiting s" and len: "length (cmd_data c) < 256"
    and st: "tr_state (transfer s) = TX_TRANSFER_AMOUNT" "memo_flow E s"
  shows "wp (memo_amount_packet E c s) (\<lambda>_ t. kept (memo_flow E) s t) (refused s)"
proof (cases "cmd_p2 c \<noteq> P2_SIGN_TX_DEFAULT \<or> length (cmd_data c) < 8")
  case True
  then show ?thesis using refused_self [OF wf(1)] by (auto simp: memo_amount_packet_def Let_def)
next
  case False
  then have l8: "8 \<le> length (cmd_data c)" by simp
  obtain hdr to l bs where h: "memo_head E s hdr to l bs" "cb_cborLength (memo s) = 0" "shows_blob bs (memo s)"
    using st wf(2) by (auto simp: memo_flow_def)
  obtain item where i: "valid_item item" "bs = cbor_encode item"
    "cstr (cb_typeLabel (memo s)) = item_label item" "cstr (cb_display (memo s)) = item_text item"
    using h(3) by (auto simp: shows_blob_def)
  let ?amt = "take 8 (cmd_data c)"
  have wt: "wf_transfer (transfer s)" by (rule wf_transfer_app [OF wf(1)])
  obtain d n where d: "amount_to_ccd_display E (tr_displayAmount (transfer s)) (of_nat (be_nat ?amt)) = Ok (d, n)"
    "cbuf 30 d" "cstr d = ccd_text (be_nat ?amt)"
    using amount_text_Ok [OF platformD(4) [OF E] _ l8, of "tr_displayAmount (transfer s)"] wt
    by (auto simp: wf_transfer_def)
  let ?m = "hdr @ [TRANSFER_WITH_MEMO] @ to @ l @ cbor_encode item @ ?amt"
  let ?t = "(set_transfer (\<lambda>c. c\<lparr> tr_displayAmount := d \<rparr>) s)\<lparr> tx_hash := Some ?m \<rparr>"
  define fee where "fee = (if tr_has_fee_display (transfer s)
    then [(ascii ''Max fees (est.)'', cstr (tr_fee_display_str (transfer s)))] else [])"
  have m: "tx_hash s = Some (hdr @ [TRANSFER_WITH_MEMO] @ to @ l @ cbor_encode item)"
    using h(1) i(2) by (simp add: memo_head_def)
  have hs: "header_shown E hdr ?t" "length to = 32" "address_text E to = Some (cstr (tr_displayStr (transfer s)))"
    "length l = 2" "be_nat l = length (cbor_encode item)" using h i(2) by (simp_all add: memo_head_def)
  have wv: "wf_app ?t" using wf(1) wt d(2) by (simp add: wf_app_sets wf_transfer_def)
  have "wp (startTransferDisplay True ?t) (\<lambda>_ t. kept (memo_flow E) s t) (refused s)"
  proof (rule wp_mono [OF startTransferDisplay_wp [OF hs(1) wv, where msg = ?m and to = to
          and amt = ?amt and item = "Some item" and fee = fee]], goal_cases)
    case (7 a w)
    define sc where "sc = screen w"
    have w: "w = ?t\<lparr> screen := sc, status_page := False, async_reply := True \<rparr>"
      "asks_to_sign w ?m (transfer_rows E hdr (global_derivation_path s) to ?amt (Some item) fee)"
      using 7 sc_def by simp_all
    have aw: "awaiting w" by (rule asks_awaiting [OF w(2)])
    have "memo_asked E w hdr to l item ?amt fee"
      using w(2) hs i(1) l8 unfolding w(1) by (simp add: memo_asked_def)
    then have "memo_flow E w" unfolding memo_flow_def if_P [OF aw] by blast
    then show ?case using aw wv w(1) by (intro kept_review) simp_all
  qed (use d i hs in \<open>simp_all add: fee_def\<close>)
  then show ?thesis
    using False d(1) l8 wf(1) [unfolded wf_app_def]
    by (simp add: memo_amount_packet_def U8BE_amount(1) hash_data_wp [OF m [THEN trans [OF set_simps(1)]]] refused_def)
qed

text \<open>Starting over sets only the state member, which no drawn buffer depends on.\<close>

lemma set_state_wf: "wf_app s \<Longrightarrow> wf_app (set_transfer (\<lambda>c. c\<lparr> tr_state := st \<rparr>) s)"
  by (rule wf_app_sets, assumption, drule wf_transfer_app) (simp add: wf_transfer_def)

lemma memo_handle:
  assumes E: "platform E" and wf: "wf_app s" "\<not> awaiting s" and len: "length (cmd_data c) < 256"
    and st: "if initial then global s = wiped else memo_flow E s"
  shows "wp (handle_sign_transfer_with_memo E c initial s) (\<lambda>_ t. kept (memo_flow E) s t) (refused s)"
proof -
  define u where "u = (if initial then set_transfer (\<lambda>c. c\<lparr> tr_state := TX_TRANSFER_INITIAL \<rparr>) s else s)"
  have u: "wf_app u" "\<not> awaiting u" "refused u = refused s" "memo_flow E u"
    "\<And>t. kept (memo_flow E) u t = kept (memo_flow E) s t"
    using wf set_state_wf [OF wf(1)] st
    by (auto simp: u_def memo_flow_def kept_defs)
  have eq: "handle_sign_transfer_with_memo E c initial s =
      (let p1 = cmd_p1 c; state = tr_state (transfer u) in
       if p1 = 1 \<and> state = TX_TRANSFER_INITIAL then memo_open_packet E c u
       else if p1 = 2 \<and> state = TX_TRANSFER_MEMO_INITIAL then memo_first_packet E c u
       else if p1 = 2 \<and> state = TX_TRANSFER_MEMO then memo_next_packet E c u
       else if p1 = 3 \<and> state = TX_TRANSFER_AMOUNT then memo_amount_packet E c u
       else Throw ERROR_INVALID_STATE u)"
    by (simp add: handle_sign_transfer_with_memo_def u_def Let_def)
  show ?thesis
    unfolding eq Let_def
    using memo_open [OF E u(1,2) len] memo_first [OF E u(1,2) len _ u(4)] memo_next [OF E u(1,2) _ u(4)]
      memo_amount [OF E u(1,2) len _ u(4)] refused_self [OF u(1)]
    by (auto simp: u(3,5))
qed

lemma memo_choice:
  assumes "platform E" "wf_app s" "\<not> awaiting s" "awaiting (s\<lparr> screen := Some rv \<rparr>)"
    "memo_flow E (s\<lparr> screen := Some rv \<rparr>)"
  shows "rv_callback rv = review_choice_sign"
    "wp (choose_sign E confirm s) (\<lambda>_ t. decided confirm (memo_flow E) s t) (\<lambda>_ _. False)"
proof -
  obtain m rows where "asks_to_sign (s\<lparr> screen := Some rv \<rparr>) m rows"
    using assms(5) unfolding memo_flow_def if_P [OF assms(4)] memo_asked_def by blast
  then show "rv_callback rv = review_choice_sign"
    "wp (choose_sign E confirm s) (\<lambda>_ t. decided confirm (memo_flow E) s t) (\<lambda>_ _. False)"
    using sign_choice_kept [OF assms(1-3)] by blast+
qed

subsection \<open>The contract\<close>

interpretation transfer_sign: sign_flow "\<lambda>E c initial. handle_sign_transfer E c" "\<lambda>E s. awaiting s \<longrightarrow> transfer_flow E s"
proof (unfold_locales, goal_cases)
  case (1 E s c initial)
  then show ?case using transfer_handle [of E s c] by (auto elim!: wp_mono kept_weaken)
next
  case (2 E s rv confirm)
  then obtain m rows where "asks_to_sign (s\<lparr> screen := Some rv \<rparr>) m rows"
    by (auto simp: transfer_flow_def transfer_asked_def)
  with 2 sign_choice_kept show ?case by blast
qed simp_all

interpretation memo_sign: sign_flow handle_sign_transfer_with_memo memo_flow
proof (unfold_locales, goal_cases)
  case (1 E s c initial)
  then show ?case by (intro memo_handle)
next
  case (2 E s rv confirm)
  then show ?case using memo_choice by blast
next
  case (3 E s b rs)
  then show ?case by (auto simp: memo_flow_def memo_head_def split: simpleTransferState.splits)
next
  case (4 s E)
  then show ?case by (simp add: memo_flow_def wiped_def wiped_transfer_def)
qed

end
