(* ===== verification/Schedule.thy ===== *)
theory Schedule
  imports Transfers
begin

text \<open>
  Transfers with a schedule: src/src/helpers/sign_transfer_schedule.c,
  src/src/handler/sign_transfer_with_schedule.c and
  src/src/handler/sign_transfer_with_schedule_and_memo.c, and the two callbacks of
  display_nbgl.c that drive them.

  A release is sixteen bytes: a time in milliseconds and an amount.  Each is hashed and put on a
  review of its own.  The invariant relates the hash to the reviews approved so far.
\<close>

subsection \<open>Operations\<close>

definition set_schedule :: "(signTransferWithScheduleContext \<Rightarrow> signTransferWithScheduleContext) \<Rightarrow> app \<Rightarrow> app" where
  "set_schedule f = set_blob (\<lambda>b. b\<lparr> signTransferWithScheduleContext := f (signTransferWithScheduleContext b) \<rparr>)"

abbreviation schedule :: "app \<Rightarrow> signTransferWithScheduleContext" where
  "schedule s \<equiv> signTransferWithScheduleContext (withDataBlob (global s))"

text \<open>The caller's buffer is always the one of the context.\<close>

definition processNextScheduledAmount :: "sdk \<Rightarrow> bytes \<Rightarrow> app \<Rightarrow> unit act" where
  "processNextScheduledAmount E buffer s =
     (let c = schedule s in
      if sc_scheduledAmountsInCurrentPacket c = 0 then send_success_no_idle s
      else if length (sc_buffer c) < sc_pos c + 8 then Throw ERROR_BUFFER_OVERFLOW s
      else call (U8BE (sc_buffer c) (sc_pos c)) s (\<lambda>timestampMs.
        let timestamp = unat timestampMs div 1000;
            milliseconds = of_nat (unat timestampMs mod 1000) in
        bind (hash_data E buffer (sc_pos c) 8 s) (\<lambda>_ s.
        let s = set_schedule (\<lambda>c. c\<lparr> sc_pos := sc_pos c + 8 \<rparr>) s in
        call (secondsToTm (int timestamp)) s (\<lambda>valid.
        case valid of
          None \<Rightarrow> Throw ERROR_INVALID_PARAM s
        | Some time \<Rightarrow>
            let s = set_schedule (\<lambda>c. c\<lparr> sc_time := time \<rparr>) s in
            if tm_year time > 9999 then Throw ERROR_INVALID_PARAM s
            else call (timeToDisplayText E time (sc_displayTimestamp (schedule s))) s (\<lambda>(text, _).
                 call (appendMilliseconds text milliseconds) s (\<lambda>text.
                 let s = set_schedule (\<lambda>c. c\<lparr> sc_displayTimestamp := text \<rparr>) s; c = schedule s in
                 if length (sc_buffer c) < sc_pos c + 8 then Throw ERROR_BUFFER_OVERFLOW s
                 else call (U8BE (sc_buffer c) (sc_pos c)) s (\<lambda>amount.
                      bind (hash_data E buffer (sc_pos c) 8 s) (\<lambda>_ s.
                      let s = set_schedule (\<lambda>c. c\<lparr> sc_pos := sc_pos c + 8 \<rparr>) s in
                      call (amount_to_ccd_display E (sc_displayAmount (schedule s)) amount) s
                        (\<lambda>(displayAmount, _).
                      let s = set_schedule (\<lambda>c. c\<lparr> sc_displayAmount := displayAmount,
                                sc_scheduledAmountsInCurrentPacket :=
                                  sc_scheduledAmountsInCurrentPacket c - 1 \<rparr>) s;
                          c = schedule s in
                      if sc_remainingNumberOfScheduledAmounts c = 0 \<and>
                         sc_scheduledAmountsInCurrentPacket c = 0
                      then uiSignScheduledTransferPairFlowSignDisplay s
                      else uiSignScheduledTransferPairFlowDisplay s)))))))))"

definition handle_transfer_pairs :: "sdk \<Rightarrow> bytes \<Rightarrow> app \<Rightarrow> unit act" where
  "handle_transfer_pairs E cdata s =
     (let s = set_schedule (\<lambda>c.
            if sc_remainingNumberOfScheduledAmounts c \<le> 15
            then c\<lparr> sc_scheduledAmountsInCurrentPacket := sc_remainingNumberOfScheduledAmounts c,
                    sc_remainingNumberOfScheduledAmounts := 0 \<rparr>
            else c\<lparr> sc_scheduledAmountsInCurrentPacket := 15,
                    sc_remainingNumberOfScheduledAmounts := sc_remainingNumberOfScheduledAmounts c - 15 \<rparr>) s;
          s = set_schedule (\<lambda>c. c\<lparr> sc_pos := 0 \<rparr>) s;
          n = sc_scheduledAmountsInCurrentPacket (schedule s) * 16 in
      if length (sc_buffer (schedule s)) < n \<or> length cdata < n then Throw SWO_INCORRECT_DATA s
      else call (slice cdata 0 n) s (\<lambda>data.
           call (put (sc_buffer (schedule s)) 0 data) s (\<lambda>buffer.
           let s = set_schedule (\<lambda>c. c\<lparr> sc_buffer := buffer \<rparr>) s in
           bind (processNextScheduledAmount E (sc_buffer (schedule s)) s)
             (\<lambda>_ s. request_async_reply s))))"

definition finish_memo_scheduled :: "sdk \<Rightarrow> app \<Rightarrow> unit act" where
  "finish_memo_scheduled E s =
     bind (update_hash E [of_nat (sc_remainingNumberOfScheduledAmounts (schedule s))] s) (\<lambda>_ s.
     let s = set_schedule (\<lambda>c. c\<lparr> sc_state := TX_TRANSFER_WITH_SCHEDULE_TRANSFER_PAIRS \<rparr>) s in
     bind (startInitialScheduledTransferDisplay True s) (\<lambda>_ s. request_async_reply s))"

definition confirmInitialScheduledTransfer :: "app \<Rightarrow> unit act" where
  "confirmInitialScheduledTransfer s =
     send_success_no_idle (set_schedule (\<lambda>c. c\<lparr> sc_state := TX_TRANSFER_WITH_SCHEDULE_TRANSFER_PAIRS \<rparr>) s)"

text \<open>The first packet of a transfer with a schedule.\<close>

definition schedule_open_packet :: "sdk \<Rightarrow> command \<Rightarrow> app \<Rightarrow> unit act" where
  "schedule_open_packet E cmd s =
     (let cdata = cmd_data cmd; p2 = cmd_p2 cmd; lc = length cdata in
      if P2_SIGN_TX_FEE_DISPLAY < p2 then Throw SWO_WRONG_P1_P2 s
      else
        let s = set_schedule (\<lambda>c. c\<lparr> sc_has_fee_display := False,
                  sc_fee_display_str := zeros (length (sc_fee_display_str c)) \<rparr>) s in
        bind (handleHeaderAndToAddress E cdata TRANSFER_WITH_SCHEDULE (sc_displayStr (schedule s)) s)
          (\<lambda>(offset, displayStr) s.
        let s = set_schedule (\<lambda>c. c\<lparr> sc_displayStr := displayStr \<rparr>) s;
            cdata = drop offset cdata;
            remainingDataLength = sub8 lc offset in
        if remainingDataLength \<noteq> 1 + fee_suffix p2 then Throw SWO_INCORRECT_DATA s
        else call (byte_at cdata 0) s (\<lambda>n.
             let s = set_schedule (\<lambda>c. c\<lparr> sc_remainingNumberOfScheduledAmounts := unat n \<rparr>) s in
             bind (hash_data E cdata 0 1 s) (\<lambda>_ s.
             call (read_fee E p2 cdata 1 (sc_fee_display_str (schedule s))) s (\<lambda>(fee, shown).
             let s = set_schedule (\<lambda>c. c\<lparr> sc_fee_display_str := fee, sc_has_fee_display := shown,
                       sc_state := TX_TRANSFER_WITH_SCHEDULE_AWAITING_INITIAL_CONFIRM \<rparr>) s in
             bind (startInitialScheduledTransferDisplay False s) (\<lambda>_ s. request_async_reply s))))))"

definition handle_sign_transfer_with_schedule :: "sdk \<Rightarrow> command \<Rightarrow> bool \<Rightarrow> app \<Rightarrow> unit act" where
  "handle_sign_transfer_with_schedule E cmd isInitialCall s =
     (let p1 = cmd_p1 cmd;
          s = (if isInitialCall then set_schedule (\<lambda>c. c\<lparr> sc_state := TX_TRANSFER_WITH_SCHEDULE_INITIAL \<rparr>) s
               else s);
          state = sc_state (schedule s) in
      if p1 = 0 \<and> state = TX_TRANSFER_WITH_SCHEDULE_INITIAL then schedule_open_packet E cmd s
      else if p1 = 1 \<and> state = TX_TRANSFER_WITH_SCHEDULE_TRANSFER_PAIRS then
        (if cmd_p2 cmd \<noteq> P2_SIGN_TX_DEFAULT then Throw SWO_WRONG_P1_P2 s
         else handle_transfer_pairs E (cmd_data cmd) s)
      else Throw ERROR_INVALID_PARAM s)"

text \<open>The first packet of a transfer with a schedule and a memo.\<close>

definition schedule_memo_open_packet :: "sdk \<Rightarrow> command \<Rightarrow> app \<Rightarrow> unit act" where
  "schedule_memo_open_packet E cmd s =
     (let cdata = cmd_data cmd; p2 = cmd_p2 cmd; lc = length cdata in
      if P2_SIGN_TX_FEE_DISPLAY < p2 then Throw SWO_WRONG_P1_P2 s
      else
        let s = set_schedule (\<lambda>c. c\<lparr> sc_has_fee_display := False,
                  sc_fee_display_str := zeros (length (sc_fee_display_str c)) \<rparr>) s in
        bind (handleHeaderAndToAddress E cdata TRANSFER_WITH_SCHEDULE_WITH_MEMO (sc_displayStr (schedule s)) s)
          (\<lambda>(offset, displayStr) s.
        let s = set_schedule (\<lambda>c. c\<lparr> sc_displayStr := displayStr \<rparr>) s;
            cdata = drop offset cdata;
            remainingDataLength = sub8 lc offset in
        if remainingDataLength \<noteq> 3 + fee_suffix p2 then Throw SWO_INCORRECT_DATA s
        else call (byte_at cdata 0) s (\<lambda>n.
             let s = set_schedule (\<lambda>c. c\<lparr> sc_remainingNumberOfScheduledAmounts := unat n \<rparr>) s;
                 cdata = drop 1 cdata in
             call (U2BE cdata 0) s (\<lambda>n.
             let s = set_cbor (\<lambda>c. c\<lparr> cb_cborLength := unat n \<rparr>) s in
             if 257 < unat n then Throw ERROR_INVALID_PARAM s
             else bind (hash_data E cdata 0 2 s) (\<lambda>_ s.
                  call (read_fee E p2 cdata 2 (sc_fee_display_str (schedule s))) s (\<lambda>(fee, shown).
                  send_success_no_idle (set_schedule (\<lambda>c. c\<lparr> sc_fee_display_str := fee,
                    sc_has_fee_display := shown,
                    sc_state := TX_TRANSFER_WITH_SCHEDULE_MEMO_START \<rparr>) s)))))))"

definition handle_sign_transfer_with_schedule_and_memo :: "sdk \<Rightarrow> command \<Rightarrow> bool \<Rightarrow> app \<Rightarrow> unit act" where
  "handle_sign_transfer_with_schedule_and_memo E cmd isInitialCall s =
     (let cdata = cmd_data cmd; p1 = cmd_p1 cmd; p2 = cmd_p2 cmd;
          s = (if isInitialCall then set_schedule (\<lambda>c. c\<lparr> sc_state := TX_TRANSFER_WITH_SCHEDULE_INITIAL \<rparr>) s
               else s);
          state = sc_state (schedule s) in
      if p1 = 2 \<and> state = TX_TRANSFER_WITH_SCHEDULE_INITIAL then schedule_memo_open_packet E cmd s
      else if p1 = 3 \<and> state = TX_TRANSFER_WITH_SCHEDULE_MEMO_START then
        (if p2 \<noteq> P2_SIGN_TX_DEFAULT then Throw SWO_WRONG_P1_P2 s
         else bind (update_hash E cdata s) (\<lambda>_ s.
              read_cbor (readCborInitial E cdata) s (\<lambda>s.
              if cb_cborLength (memo s) = 0 then finish_memo_scheduled E s
              else send_success_no_idle
                     (set_schedule (\<lambda>c. c\<lparr> sc_state := TX_TRANSFER_WITH_SCHEDULE_MEMO \<rparr>) s))))
      else if p1 = 3 \<and> state = TX_TRANSFER_WITH_SCHEDULE_MEMO then
        (if p2 \<noteq> P2_SIGN_TX_DEFAULT then Throw SWO_WRONG_P1_P2 s
         else bind (update_hash E cdata s) (\<lambda>_ s.
              read_cbor (readCborContent E cdata) s (\<lambda>s.
              if cb_cborLength (memo s) \<noteq> 0 then send_success_no_idle s
              else finish_memo_scheduled E s)))
      else if p1 = 1 \<and> state = TX_TRANSFER_WITH_SCHEDULE_TRANSFER_PAIRS then
        (if p2 \<noteq> P2_SIGN_TX_DEFAULT then Throw SWO_WRONG_P1_P2 s
         else handle_transfer_pairs E cdata s)
      else Throw ERROR_INVALID_PARAM s)"

subsection \<open>Choices\<close>

definition choose_initial_scheduled :: "bool \<Rightarrow> app \<Rightarrow> unit act" where
  "choose_initial_scheduled confirm s =
     (if confirm then ux_run_guarded confirmInitialScheduledTransfer s else send_user_rejection s)"

definition choose_next_scheduled :: "sdk \<Rightarrow> bool \<Rightarrow> app \<Rightarrow> unit act" where
  "choose_next_scheduled E confirm s =
     (if confirm
      then ux_run_guarded (\<lambda>s. processNextScheduledAmount E (sc_buffer (schedule s)) s) s
      else send_user_rejection s)"

subsection \<open>Frames\<close>

lemma set_schedule_simps [simp]:
  "schedule (set_schedule f s) = f (schedule s)" "memo (set_schedule f s) = memo s"
  "schedule (set_cbor g s) = schedule s" "tx_hash (set_schedule f s) = tx_hash s"
  "replies (set_schedule f s) = replies s" "screen (set_schedule f s) = screen s"
  "currentInstruction (set_schedule f s) = currentInstruction s"
  "global_derivation_path (set_schedule f s) = global_derivation_path s"
  "global_account_sender (set_schedule f s) = global_account_sender s"
  "header_shown E hdr (set_schedule f s) = header_shown E hdr s"
  "awaiting (set_schedule f s) = awaiting s"
  by (simp_all add: set_schedule_def set_cbor_def awaiting_def)

lemma refused_schedule [simp]: "refused (set_schedule f s) = refused s"
  by (simp add: set_schedule_def)

lemma wf_app_schedule: "wf_app s \<Longrightarrow> wf_schedule (f (schedule s)) \<Longrightarrow> wf_app (set_schedule f s)"
  unfolding set_schedule_def
  by (rule wf_app_set_blob, assumption, drule wf_app_blob, simp add: wf_blob_def)

lemma wf_schedule_app: "wf_app s \<Longrightarrow> wf_schedule (schedule s)"
  by (simp add: wf_app_def wf_context_def)

lemma refused_schedule_step:
  assumes "refused s e t"
  shows "refused s e (set_schedule f t)"
  using assms by (simp add: refused_def)

subsection \<open>Releases\<close>

text \<open>The text of a time in milliseconds, and the review of a release.\<close>

definition stamp_text :: "nat \<Rightarrow> bytes" where
  "stamp_text ms =
     (case secondsToTm (int (ms div 1000)) of Ok (Some x) \<Rightarrow> time_text x | _ \<Rightarrow> []) @
     46 # three (ms mod 1000)"

definition release_row :: "bytes \<Rightarrow> (bytes \<times> bytes) list" where
  "release_row p = [(ascii ''Release time (UTC)'', stamp_text (be_nat (take 8 p))),
     (ascii ''Amount'', ccd_text (be_nat (drop 8 p)))]"

lemma stamp_Ok:
  assumes "platform E" "length b = 8" "cbuf 25 dst"
  obtains x where "secondsToTm (int (be_nat b div 1000)) = Ok (Some x)"
    "tm_year x \<le> 9999 \<Longrightarrow> \<exists>d n d'. timeToDisplayText E x dst = Ok (d, n) \<and>
       appendMilliseconds d (of_nat (be_nat b mod 1000)) = Ok d' \<and> cbuf 25 d' \<and>
       cstr d' = stamp_text (be_nat b)"
proof -
  have "be_nat b < 2 ^ 64" using be_nat_bound [of b] assms(2) by simp
  then have r: "0 \<le> int (be_nat b div 1000)" "int (be_nat b div 1000) \<le> 18446744073709551"
    by simp_all
  obtain x where x: "secondsToTm (int (be_nat b div 1000)) = Ok (Some x)" "valid_tm x"
    "0 < tm_year x" "tm_year x < 584554200"
    by (rule secondsToTm_Ok [OF r])
  have "\<exists>d n d'. timeToDisplayText E x dst = Ok (d, n) \<and>
       appendMilliseconds d (of_nat (be_nat b mod 1000)) = Ok d' \<and> cbuf 25 d' \<and>
       cstr d' = stamp_text (be_nat b)" if y: "tm_year x \<le> 9999"
  proof -
    let ?m = "be_nat b mod 1000" and ?t = "time_text x"
    have "length (dec (nat (tm_year x + 1900))) \<le> 5" using y by (intro length_dec_le) simp_all
    then have l: "length ?t \<le> 20" by (simp add: length_time_text [OF x(2)])
    have ld: "length dst = 25" using assms(3) by (simp add: cbuf_def)
    have t: "timeToDisplayText E x dst = Ok (?t @ 0 # drop (length ?t + 1) dst, length ?t + 1)"
      using x l ld by (intro timeToDisplayText_Ok platformD(4) [OF assms(1)]) simp_all
    have m: "unat (of_nat ?m :: u16) = ?m" "(of_nat ?m :: u16) < 1000"
      by (simp_all add: unsigned_of_nat take_bit_nat_eq_self word_less_nat_alt)
    have nz: "0 \<notin> set ?t" by simp
    have "appendMilliseconds (?t @ 0 # drop (length ?t + 1) dst) (of_nat ?m) =
        Ok (?t @ 46 # three ?m @ 0 # drop 4 (drop (length ?t + 1) dst))"
      using appendMilliseconds_Ok [OF nz m(2), of "drop (length ?t + 1) dst"] l ld by (simp add: m(1))
    moreover have "cbuf 25 (?t @ 46 # three ?m @ 0 # drop 4 (drop (length ?t + 1) dst))"
      using l ld cbuf_NUL [of 25 "?t @ 46 # three ?m"] by (simp add: three_def)
    moreover have "0 \<notin> set (three ?m)" using three_digits [of ?m 0] not_digit_0 by auto
    then have "cstr (?t @ 46 # three ?m @ 0 # drop 4 (drop (length ?t + 1) dst)) = stamp_text (be_nat b)"
      using cstr_NUL [of "?t @ 46 # three ?m"] nz x(1) by (simp add: stamp_text_def)
    ultimately show ?thesis using t by blast
  qed
  then show thesis using that x(1) by blast
qed

text \<open>What the review of a release p leaves: t is s with the release absorbed and drawn.\<close>

definition released :: "bytes \<Rightarrow> bytes \<Rightarrow> app \<Rightarrow> app \<Rightarrow> bool" where
  "released h p s t \<longleftrightarrow> tx_hash t = Some (h @ p) \<and>
     (\<exists>rv. screen t = Some rv \<and> rv_pairs rv = release_row p \<and>
       rv_callback rv = (if sc_remainingNumberOfScheduledAmounts (schedule s) = 0 \<and>
           sc_scheduledAmountsInCurrentPacket (schedule s) = 1
         then review_choice_sign else processNextScheduledAmountWrapper)) \<and>
     sc_pos (schedule t) = sc_pos (schedule s) + 16 \<and>
     sc_scheduledAmountsInCurrentPacket (schedule t) = sc_scheduledAmountsInCurrentPacket (schedule s) - 1 \<and>
     sc_remainingNumberOfScheduledAmounts (schedule t) = sc_remainingNumberOfScheduledAmounts (schedule s) \<and>
     sc_state (schedule t) = sc_state (schedule s) \<and> sc_buffer (schedule t) = sc_buffer (schedule s) \<and>
     global_derivation_path t = global_derivation_path s \<and>
     global_account_sender t = global_account_sender s \<and>
     replies t = replies s \<and> currentInstruction t = currentInstruction s \<and> wf_app t"

lemma release_step:
  assumes E: "platform E" and wf: "wf_app s" and h: "tx_hash s = Some h"
    and n: "0 < sc_scheduledAmountsInCurrentPacket (schedule s)" "sc_pos (schedule s) + 16 \<le> 240"
  shows "wp (processNextScheduledAmount E (sc_buffer (schedule s)) s)
    (\<lambda>_ t. released h (take 16 (drop (sc_pos (schedule s)) (sc_buffer (schedule s)))) s t) (refused s)"
proof -
  let ?c = "schedule s" let ?b = "sc_buffer ?c" and ?pos = "sc_pos ?c"
  let ?ts = "take 8 (drop ?pos ?b)" and ?am = "take 8 (drop (?pos + 8) ?b)"
  have wc: "wf_schedule ?c" by (rule wf_schedule_app [OF wf])
  then have lb: "length ?b = 255" by (simp add: wf_schedule_def)
  have l8: "length ?ts = 8" "length ?am = 8" using lb n by simp_all
  have p16: "take 16 (drop ?pos ?b) = ?ts @ ?am" using take_add [of 8 8 "drop ?pos ?b"] by (simp add: add.commute)
  have cb: "cbuf 25 (sc_displayTimestamp ?c)" "cbuf 30 (sc_displayAmount ?c)"
    using wc by (simp_all add: wf_schedule_def)
  have u: "unat (of_nat (be_nat ?ts) :: u64) = be_nat ?ts" "unat (of_nat (be_nat ?am) :: u64) = be_nat ?am"
    by (rule unat_be_nat_8 [OF l8(1)], rule unat_be_nat_8 [OF l8(2)])
  obtain x where x: "secondsToTm (int (be_nat ?ts div 1000)) = Ok (Some x)"
    "tm_year x \<le> 9999 \<Longrightarrow> \<exists>d n d'. timeToDisplayText E x (sc_displayTimestamp ?c) = Ok (d, n) \<and>
       appendMilliseconds d (of_nat (be_nat ?ts mod 1000)) = Ok d' \<and> cbuf 25 d' \<and> cstr d' = stamp_text (be_nat ?ts)"
    by (rule stamp_Ok [OF E l8(1) cb(1)]) blast
  show ?thesis
  proof (cases "sdk_hash_update E h ?ts \<and> tm_year x \<le> 9999")
    case False
    then show ?thesis
      using n lb h u x(1) wf
      by (auto simp: processNextScheduledAmount_def Let_def U8BE_def slice_Ok hash_data_wp refused_def wf_app_def)
  next
    case True
    then obtain d m d' where d: "timeToDisplayText E x (sc_displayTimestamp ?c) = Ok (d, m)"
      "appendMilliseconds d (of_nat (be_nat ?ts mod 1000)) = Ok d'" "cbuf 25 d'" "cstr d' = stamp_text (be_nat ?ts)"
      using x(2) by blast
    obtain a k where a: "amount_to_ccd_display E (sc_displayAmount ?c) (of_nat (be_nat ?am)) = Ok (a, k)"
      "cbuf 30 a" "cstr a = ccd_text (be_nat ?am)"
    proof (rule amount_text_Ok [OF platformD(4) [OF E] cb(2)])
      show "8 \<le> length (drop (?pos + 8) ?b)" using lb n by simp
    qed
    let ?f = "\<lambda>c. c\<lparr> sc_displayAmount := a, sc_scheduledAmountsInCurrentPacket := sc_scheduledAmountsInCurrentPacket c - 1 \<rparr>"
    let ?t = "set_schedule ?f (set_schedule (\<lambda>c. c\<lparr> sc_pos := sc_pos c + 8 \<rparr>)
        ((set_schedule (\<lambda>c. c\<lparr> sc_displayTimestamp := d' \<rparr>) (set_schedule (\<lambda>c. c\<lparr> sc_time := x \<rparr>)
        (set_schedule (\<lambda>c. c\<lparr> sc_pos := sc_pos c + 8 \<rparr>) (s\<lparr> tx_hash := Some (h @ ?ts) \<rparr>))))
        \<lparr> tx_hash := Some ((h @ ?ts) @ ?am) \<rparr>))"
    have wt: "wf_app ?t" using wf wc a(2) d(3) by (intro wf_app_schedule wf_app_updates(1) [THEN iffD2]) (simp_all add: wf_schedule_def)
    have dr: "drawable (release_rows ?t)" "shown_rows (release_rows ?t) = release_row (?ts @ ?am)"
      using a d l8 by (simp_all add: release_rows_def cbuf_def release_row_def)
    have disp: "wp (if sc_remainingNumberOfScheduledAmounts (schedule ?t) = 0 \<and>
          sc_scheduledAmountsInCurrentPacket (schedule ?t) = 0
        then uiSignScheduledTransferPairFlowSignDisplay ?t else uiSignScheduledTransferPairFlowDisplay ?t)
        (\<lambda>_ t. released h (?ts @ ?am) s t) (refused s)"
      using dr wt n
      by (auto simp: uiSignScheduledTransferPairFlowSignDisplay_def uiSignScheduledTransferPairFlowDisplay_def
          use_case_defs released_def) (simp_all add: release_rows_def)
    show ?thesis
      unfolding p16
      using True n lb h u x(1) d(1,2) a(1) wf disp
      by (auto simp: processNextScheduledAmount_def Let_def U8BE_def slice_Ok hash_data_wp refused_def wf_app_def)
  qed
qed

subsection \<open>What has been approved, and what has been absorbed\<close>

definition schedule_rows :: "sdk \<Rightarrow> bytes \<Rightarrow> derivation_path \<Rightarrow> bytes \<Rightarrow> cbor_item option \<Rightarrow>
    (bytes \<times> bytes) list \<Rightarrow> (bytes \<times> bytes) list" where
  "schedule_rows E hdr p to item fee =
     header_pairs E ''Sender'' hdr p @ [(ascii ''Recipient'', the (address_text E to))] @
     (case item of None \<Rightarrow> [] | Some i \<Rightarrow> memo_item_rows ''Memo type'' ''Memo'' i) @ fee"

text \<open>The absorbed bytes before the releases, for a schedule of \<open>count\<close> releases.\<close>

definition schedule_prefix :: "bytes \<Rightarrow> bytes \<Rightarrow> (bytes \<times> cbor_item) option \<Rightarrow> nat \<Rightarrow> bytes" where
  "schedule_prefix hdr to m count =
     (case m of
        None \<Rightarrow> hdr @ [TRANSFER_WITH_SCHEDULE] @ to @ [of_nat count]
      | Some (len, item) \<Rightarrow>
          hdr @ [TRANSFER_WITH_SCHEDULE_WITH_MEMO] @ to @ len @ cbor_encode item @ [of_nat count])"

text \<open>\<open>rows\<close> is the first review, of the bytes \<open>pre\<close>.\<close>

definition schedule_opened :: "sdk \<Rightarrow> app \<Rightarrow> bytes \<Rightarrow> (bytes \<times> bytes) list \<Rightarrow> nat \<Rightarrow> bool" where
  "schedule_opened E s pre rows count \<longleftrightarrow> count < 256 \<and>
     (\<exists>hdr to m fee. header_shown E hdr s \<and> length to = 32 \<and> address_text E to \<noteq> None \<and>
        (\<forall>len item. m = Some (len, item) \<longrightarrow> length len = 2 \<and>
           be_nat len = length (cbor_encode item) \<and> valid_item item) \<and>
        pre = schedule_prefix hdr to m count \<and>
        rows = schedule_rows E hdr (global_derivation_path s) to (map_option snd m) fee)"

definition absorbed_releases :: "app \<Rightarrow> bytes \<Rightarrow> bytes list \<Rightarrow> bool" where
  "absorbed_releases s pre rs \<longleftrightarrow> tx_hash s = Some (pre @ concat rs) \<and> (\<forall>r \<in> set rs. length r = 16)"

text \<open>Between two packets every absorbed release has been approved.\<close>

definition schedule_idle :: "sdk \<Rightarrow> log \<Rightarrow> app \<Rightarrow> bool" where
  "schedule_idle E log s \<longleftrightarrow> (\<exists>pre rows count rs. schedule_opened E s pre rows count \<and>
     absorbed_releases s pre rs \<and> log = rows # map release_row rs \<and>
     sc_scheduledAmountsInCurrentPacket (schedule s) = 0 \<and>
     length rs + sc_remainingNumberOfScheduledAmounts (schedule s) = count)"

text \<open>While a review is up, the first one or the one of the last release absorbed.\<close>

definition schedule_first_up :: "sdk \<Rightarrow> log \<Rightarrow> app \<Rightarrow> review \<Rightarrow> bool" where
  "schedule_first_up E log s rv \<longleftrightarrow> log = [] \<and>
     rv_callback rv = confirm_initial_scheduled_transfer_callback \<and>
     (\<exists>pre count. schedule_opened E s pre (rv_pairs rv) count \<and> absorbed_releases s pre [] \<and>
        sc_scheduledAmountsInCurrentPacket (schedule s) = 0 \<and>
        sc_remainingNumberOfScheduledAmounts (schedule s) = count)"

definition schedule_release_up :: "sdk \<Rightarrow> log \<Rightarrow> app \<Rightarrow> review \<Rightarrow> bool" where
  "schedule_release_up E log s rv \<longleftrightarrow> sc_state (schedule s) = TX_TRANSFER_WITH_SCHEDULE_TRANSFER_PAIRS \<and>
     (\<exists>pre rows count rs r. schedule_opened E s pre rows count \<and> absorbed_releases s pre (rs @ [r]) \<and>
        log = rows # map release_row rs \<and> rv_pairs rv = release_row r \<and>
        sc_pos (schedule s) + 16 * sc_scheduledAmountsInCurrentPacket (schedule s) \<le> 240 \<and>
        length (rs @ [r]) + sc_scheduledAmountsInCurrentPacket (schedule s) +
          sc_remainingNumberOfScheduledAmounts (schedule s) = count \<and>
        rv_callback rv = (if length (rs @ [r]) = count then review_choice_sign
                          else processNextScheduledAmountWrapper))"

text \<open>The memo is absorbed between the first packet and the first review.\<close>

definition schedule_memo_head :: "sdk \<Rightarrow> app \<Rightarrow> bytes \<Rightarrow> bool" where
  "schedule_memo_head E s bs \<longleftrightarrow> (\<exists>hdr to len. header_shown E hdr s \<and> length to = 32 \<and>
     address_text E to = Some (cstr (sc_displayStr (schedule s))) \<and> length len = 2 \<and>
     be_nat len = length bs + cb_cborLength (memo s) \<and>
     tx_hash s = Some (hdr @ [TRANSFER_WITH_SCHEDULE_WITH_MEMO] @ to @ len @ bs) \<and>
     sc_scheduledAmountsInCurrentPacket (schedule s) = 0 \<and>
     sc_remainingNumberOfScheduledAmounts (schedule s) < 256)"

definition schedule_flow :: "sdk \<Rightarrow> log \<Rightarrow> app \<Rightarrow> bool" where
  "schedule_flow E log s \<longleftrightarrow>
     (if awaiting s
      then \<exists>rv. screen s = Some rv \<and> (schedule_first_up E log s rv \<or> schedule_release_up E log s rv)
      else case sc_state (schedule s) of
        TX_TRANSFER_WITH_SCHEDULE_TRANSFER_PAIRS \<Rightarrow> schedule_idle E log s
      | TX_TRANSFER_WITH_SCHEDULE_MEMO_START \<Rightarrow> log = [] \<and> schedule_memo_head E s []
      | TX_TRANSFER_WITH_SCHEDULE_MEMO \<Rightarrow> log = [] \<and> schedule_memo_head E s (blob (memo s))
      | _ \<Rightarrow> log = [] \<and> sc_scheduledAmountsInCurrentPacket (schedule s) = 0)"

lemma schedule_opened_cong:
  assumes "global_derivation_path t = global_derivation_path s" "global_account_sender t = global_account_sender s"
  shows "schedule_opened E t = schedule_opened E s"
  using assms by (intro ext) (simp add: schedule_opened_def header_shown_def)

lemma schedule_opened_upd [simp]:
  "schedule_opened E (s\<lparr> tx_hash := h \<rparr>) = schedule_opened E s"
  "schedule_opened E (s\<lparr> screen := sc \<rparr>) = schedule_opened E s"
  "schedule_opened E (s\<lparr> status_page := b \<rparr>) = schedule_opened E s"
  "schedule_opened E (s\<lparr> async_reply := b \<rparr>) = schedule_opened E s"
  "schedule_opened E (s\<lparr> replies := r \<rparr>) = schedule_opened E s"
  "schedule_opened E (set_schedule f s) = schedule_opened E s"
  by (rule schedule_opened_cong; simp)+

lemmas schedule_flow_defs = schedule_flow_def schedule_first_up_def schedule_release_up_def
  schedule_idle_def absorbed_releases_def schedule_memo_head_def

lemma schedule_flow_upd [simp]:
  "schedule_flow E log (s\<lparr> async_reply := b \<rparr>) = schedule_flow E log s"
  "schedule_flow E log (s\<lparr> replies := r \<rparr>) = schedule_flow E log s"
  by (simp_all add: schedule_flow_defs split: transferWithScheduleState.split)

subsection \<open>Packets of releases\<close>

lemma released_up:
  assumes r: "released h r s t" and o: "schedule_opened E s pre rows count" and l: "length r = 16"
    and h: "h = pre @ concat rs" "\<forall>r \<in> set rs. length r = 16"
    and n: "length rs + sc_scheduledAmountsInCurrentPacket (schedule s) +
       sc_remainingNumberOfScheduledAmounts (schedule s) = count"
      "0 < sc_scheduledAmountsInCurrentPacket (schedule s)"
      "sc_pos (schedule s) + 16 * sc_scheduledAmountsInCurrentPacket (schedule s) \<le> 240"
    and st: "sc_state (schedule s) = TX_TRANSFER_WITH_SCHEDULE_TRANSFER_PAIRS"
    and log: "log = rows # map release_row rs"
  shows "kept (schedule_flow E log) s t"
proof -
  from r obtain rv where rv: "screen t = Some rv" "rv_pairs rv = release_row r"
    "rv_callback rv = (if sc_remainingNumberOfScheduledAmounts (schedule s) = 0 \<and>
       sc_scheduledAmountsInCurrentPacket (schedule s) = 1
       then review_choice_sign else processNextScheduledAmountWrapper)" by (auto simp: released_def)
  have t: "tx_hash t = Some (h @ r)" "sc_pos (schedule t) = sc_pos (schedule s) + 16"
    "sc_scheduledAmountsInCurrentPacket (schedule t) = sc_scheduledAmountsInCurrentPacket (schedule s) - 1"
    "sc_remainingNumberOfScheduledAmounts (schedule t) = sc_remainingNumberOfScheduledAmounts (schedule s)"
    "sc_state (schedule t) = sc_state (schedule s)" "replies t = replies s"
    "currentInstruction t = currentInstruction s" "wf_app t"
    "global_derivation_path t = global_derivation_path s" "global_account_sender t = global_account_sender s"
    using r by (simp_all add: released_def)
  have aw: "awaiting t" using rv by (auto simp: awaiting_def split: if_splits)
  have "schedule_release_up E log t rv"
    unfolding schedule_release_up_def
  proof (intro conjI exI)
    show "schedule_opened E t pre rows count" using o schedule_opened_cong [OF t(9,10)] by simp
    show "absorbed_releases t pre (rs @ [r])" using t(1) h l by (auto simp: absorbed_releases_def)
    show "length (rs @ [r]) + sc_scheduledAmountsInCurrentPacket (schedule t) +
        sc_remainingNumberOfScheduledAmounts (schedule t) = count" using n t by simp
    show "sc_pos (schedule t) + 16 * sc_scheduledAmountsInCurrentPacket (schedule t) \<le> 240" using n t by simp
    show "rv_callback rv = (if length (rs @ [r]) = count then review_choice_sign
        else processNextScheduledAmountWrapper)" using rv(3) n by auto
  qed (use st log t rv in simp_all)
  then have "schedule_flow E log t" using aw rv(1) by (simp add: schedule_flow_def)
  then show ?thesis using t aw by (intro kept_review) simp_all
qed

lemma pairs_packet:
  assumes E: "platform E" and wf: "wf_app s" "\<not> awaiting s"
    and st: "sc_state (schedule s) = TX_TRANSFER_WITH_SCHEDULE_TRANSFER_PAIRS" "schedule_flow E log s"
  shows "wp (handle_transfer_pairs E c s) (\<lambda>_ t. kept (schedule_flow E log) s t) (refused s)"
proof -
  obtain pre rows count rs where i: "schedule_opened E s pre rows count" "absorbed_releases s pre rs"
    "log = rows # map release_row rs" "sc_scheduledAmountsInCurrentPacket (schedule s) = 0"
    "length rs + sc_remainingNumberOfScheduledAmounts (schedule s) = count"
    using st wf(2) by (auto simp: schedule_flow_def schedule_idle_def)
  let ?rem = "sc_remainingNumberOfScheduledAmounts (schedule s)"
  let ?k = "min 15 ?rem"
  let ?f = "\<lambda>c. c\<lparr> sc_scheduledAmountsInCurrentPacket := ?k,
    sc_remainingNumberOfScheduledAmounts := ?rem - ?k, sc_pos := 0 \<rparr>"
  let ?b = "sc_buffer (schedule s)"
  have wc: "wf_schedule (schedule s)" by (rule wf_schedule_app [OF wf(1)])
  have lb: "length ?b = 255" using wc by (simp add: wf_schedule_def)
  let ?s = "set_schedule ?f s"
  have two: "set_schedule f (set_schedule g s) = set_schedule (\<lambda>c. f (g c)) s" for f g
    by (simp add: set_schedule_def set_blob_def)
  have eq: "handle_transfer_pairs E c s =
      (if length c < ?k * 16 then Throw SWO_INCORRECT_DATA ?s
       else bind (processNextScheduledAmount E (take (?k * 16) c @ drop (?k * 16) ?b)
              (set_schedule (\<lambda>c'. (?f c')\<lparr> sc_buffer := take (?k * 16) c @ drop (?k * 16) ?b \<rparr>) s))
            (\<lambda>_ s. request_async_reply s))"
    using lb by (simp add: handle_transfer_pairs_def Let_def two slice_Ok put_Ok min_def set_schedule_def set_blob_def)
  show ?thesis
  proof (cases "length c < ?k * 16")
    case True
    then show ?thesis unfolding eq using refused_schedule_step [OF refused_self(1) [OF wf(1)]] by simp
  next
    case False
    let ?B = "take (?k * 16) c @ drop (?k * 16) ?b"
    let ?u = "set_schedule (\<lambda>c'. (?f c')\<lparr> sc_buffer := ?B \<rparr>) s"
    have lB: "length ?B = 255" using False lb by simp
    have wu: "wf_app ?u" using wf(1) wc lB by (intro wf_app_schedule) (simp_all add: wf_schedule_def)
    have op: "schedule_opened E ?u pre rows count"
      using i(1) schedule_opened_cong [of ?u s] by simp
    show ?thesis
    proof (cases "?k = 0")
      case True
      then have r0: "?rem = 0" by simp
      have "schedule_idle E log ?u"
        unfolding schedule_idle_def
        by (intro exI [of _ pre] exI [of _ rows] exI [of _ count] exI [of _ rs])
          (use i r0 in \<open>simp add: absorbed_releases_def\<close>)
      then have "schedule_flow E log ?u" using wf(2) st(1) by (simp add: schedule_flow_def)
      then show ?thesis
        unfolding eq if_not_P [OF False] using True wu wf(2)
        by (auto simp: processNextScheduledAmount_def intro!: kept_reply)
    next
      case k: False
      have h: "tx_hash ?u = Some (pre @ concat rs)" using i(2) by (simp add: absorbed_releases_def)
      have n: "0 < sc_scheduledAmountsInCurrentPacket (schedule ?u)" "sc_pos (schedule ?u) + 16 \<le> 240"
        using k by simp_all
      have "wp (processNextScheduledAmount E ?B ?u) (\<lambda>_ t. kept (schedule_flow E log) ?u t) (refused ?u)"
      proof (rule wp_mono [OF release_step [OF E wu h n, simplified set_schedule_simps, simplified]], goal_cases)
        case (1 a t)
        then show ?case
          by (rule released_up [OF _ op _ refl])
            (use i lB k st(1) in \<open>auto simp: absorbed_releases_def\<close>)
      qed simp
      then have "wp (processNextScheduledAmount E ?B ?u) (\<lambda>_ t. kept (schedule_flow E log) s (t\<lparr> async_reply := True \<rparr>)) (refused s)"
        by (rule wp_mono) (auto simp: kept_defs claimed_def)
      then show ?thesis unfolding eq if_not_P [OF False] by simp
    qed
  qed
qed

subsection \<open>The first review\<close>

definition fee_row_of :: "signTransferWithScheduleContext \<Rightarrow> (bytes \<times> bytes) list" where
  "fee_row_of c = (if sc_has_fee_display c then [(ascii ''Max fees (est.)'', cstr (sc_fee_display_str c))] else [])"

text \<open>A context whose bytes are all absorbed, ready for the first review.\<close>

definition schedule_ready :: "sdk \<Rightarrow> bytes \<Rightarrow> bytes \<Rightarrow> (bytes \<times> cbor_item) option \<Rightarrow> nat \<Rightarrow> app \<Rightarrow> bool" where
  "schedule_ready E hdr to m count s \<longleftrightarrow> count < 256 \<and> header_shown E hdr s \<and> length to = 32 \<and>
     address_text E to = Some (cstr (sc_displayStr (schedule s))) \<and>
     (\<forall>len item. m = Some (len, item) \<longrightarrow> length len = 2 \<and> be_nat len = length (cbor_encode item) \<and>
        valid_item item \<and> cstr (cb_typeLabel (memo s)) = item_label item \<and>
        cstr (cb_display (memo s)) = item_text item) \<and>
     tx_hash s = Some (schedule_prefix hdr to m count) \<and>
     sc_scheduledAmountsInCurrentPacket (schedule s) = 0 \<and>
     sc_remainingNumberOfScheduledAmounts (schedule s) = count"

lemma first_review:
  assumes r: "schedule_ready E hdr to m count s" and wf: "wf_app s"
    and fr: "replies s = replies s0" "currentInstruction s = currentInstruction s0"
  shows "wp (startInitialScheduledTransferDisplay (m \<noteq> None) s)
    (\<lambda>_ t. kept (schedule_flow E []) s0 (t\<lparr> async_reply := True \<rparr>)) X"
proof -
  have w: "wf_sender (global_account_sender s)" "wf_schedule (schedule s)" "wf_cbor (memo s)"
    using wf by (simp_all add: wf_app_def wf_context_def)
  then have d: "0 \<in> set (sc_displayStr (schedule s))" "0 \<in> set (sc_fee_display_str (schedule s))"
    "0 \<in> set (cb_typeLabel (memo s))" "0 \<in> set (cb_display (memo s))"
    using cbuf_address by (auto simp: wf_schedule_def wf_cbor_def cbuf_def)
  have hs: "header_shown E hdr s" and ad: "address_text E to = Some (cstr (sc_displayStr (schedule s)))"
    using r by (simp_all add: schedule_ready_def)
  let ?rows = "schedule_rows E hdr (global_derivation_path s) to (map_option snd m) (fee_row_of (schedule s))"
  have shown: "wp (startInitialScheduledTransferDisplay (m \<noteq> None) s) (\<lambda>_ t. \<exists>rv.
      t = s\<lparr> screen := Some rv, status_page := False \<rparr> \<and> rv_pairs rv = ?rows \<and>
      rv_callback rv = confirm_initial_scheduled_transfer_callback) X"
    using d w(1) ad header_shown_pairs [OF hs, of "''Sender''"] r
    by (cases m) (auto simp: startInitialScheduledTransferDisplay_def use_case_defs memo_rows_def
        schedule_rows_def memo_item_rows_def fee_row_of_def schedule_ready_def Let_def)
  show ?thesis
  proof (rule wp_mono [OF shown], goal_cases)
    case (1 a t)
    then obtain rv where t: "t = s\<lparr> screen := Some rv, status_page := False \<rparr>" and
      rv: "rv_pairs rv = ?rows" "rv_callback rv = confirm_initial_scheduled_transfer_callback" by blast
    have "schedule_opened E s (schedule_prefix hdr to m count) (rv_pairs rv) count"
      unfolding schedule_opened_def rv(1)
      by (intro conjI exI [of _ hdr] exI [of _ to] exI [of _ m] exI [of _ "fee_row_of (schedule s)"])
        (use r in \<open>auto simp: schedule_ready_def\<close>)
    then have "schedule_first_up E [] t rv"
      using r rv(2) unfolding schedule_first_up_def t
      by (auto simp: schedule_ready_def absorbed_releases_def)
    then have "schedule_flow E [] t" using rv(2) unfolding schedule_flow_def t by simp
    then show ?case using wf fr rv(2) unfolding t by (intro kept_review) simp_all
  qed simp
qed

lemma finish_memo_wp:
  assumes h: "header_shown E hdr s" "length to = 32" "address_text E to = Some (cstr (sc_displayStr (schedule s)))"
    "length len = 2" "be_nat len = length bs" "shows_blob bs (memo s)"
    "tx_hash s = Some (hdr @ [TRANSFER_WITH_SCHEDULE_WITH_MEMO] @ to @ len @ bs)"
    "sc_scheduledAmountsInCurrentPacket (schedule s) = 0"
    "sc_remainingNumberOfScheduledAmounts (schedule s) < 256"
    and wf: "wf_app s" and fr: "replies s = replies s0" "currentInstruction s = currentInstruction s0"
      "screen s = screen s0"
  shows "wp (finish_memo_scheduled E s) (\<lambda>_ t. kept (schedule_flow E []) s0 t) (refused s0)"
proof -
  let ?n = "sc_remainingNumberOfScheduledAmounts (schedule s)"
  obtain item where i: "valid_item item" "bs = cbor_encode item"
    "cstr (cb_typeLabel (memo s)) = item_label item" "cstr (cb_display (memo s)) = item_text item"
    using h(6) by (auto simp: shows_blob_def)
  let ?s = "set_schedule (\<lambda>c. c\<lparr> sc_state := TX_TRANSFER_WITH_SCHEDULE_TRANSFER_PAIRS \<rparr>)
    (s\<lparr> tx_hash := Some (schedule_prefix hdr to (Some (len, item)) ?n) \<rparr>)"
  have "wf_app ?s" using wf wf_schedule_app [OF wf] by (intro wf_app_schedule) (simp_all add: wf_schedule_def)
  moreover have "schedule_ready E hdr to (Some (len, item)) ?n ?s"
    using h i by (simp add: schedule_ready_def)
  ultimately have "wp (startInitialScheduledTransferDisplay True ?s)
      (\<lambda>_ t. kept (schedule_flow E []) s0 (t\<lparr> async_reply := True \<rparr>)) (refused s0)"
    using first_review [of E hdr to "Some (len, item)" ?n ?s s0] fr by simp
  moreover have "refused s0 ERROR_FAILED_CX_OPERATION s"
    using fr wf by (simp add: refused_def wf_app_def)
  ultimately show ?thesis
    using h(7) i(2) by (simp add: finish_memo_scheduled_def Let_def schedule_prefix_def)
qed

lemma schedule_memo_chunk:
  assumes E: "platform E" and wf: "wf_app s" "\<not> awaiting s"
    and hd: "schedule_memo_head E s bs"
    and r: "rwp (reader (memo s)) (\<lambda>(sw, c'). took_chunk bs d (memo s) sw c') status_word"
    and k: "\<And>t. cb_cborLength (memo t) = 0 \<Longrightarrow> k t = finish_memo_scheduled E t"
      "\<And>t. cb_cborLength (memo t) \<noteq> 0 \<Longrightarrow> k t = send_success_no_idle
         (set_schedule (\<lambda>c. c\<lparr> sc_state := TX_TRANSFER_WITH_SCHEDULE_MEMO \<rparr>) t)
       \<or> sc_state (schedule s) = TX_TRANSFER_WITH_SCHEDULE_MEMO \<and> k t = send_success_no_idle t"
  shows "wp (bind (update_hash E d s) (\<lambda>_ s. read_cbor reader s k)) (\<lambda>_ t. kept (schedule_flow E []) s t) (refused s)"
proof -
  from hd obtain hdr to len where h: "header_shown E hdr s" "length to = 32"
    "address_text E to = Some (cstr (sc_displayStr (schedule s)))" "length len = 2"
    "be_nat len = length bs + cb_cborLength (memo s)"
    "tx_hash s = Some (hdr @ [TRANSFER_WITH_SCHEDULE_WITH_MEMO] @ to @ len @ bs)"
    "sc_scheduledAmountsInCurrentPacket (schedule s) = 0"
    "sc_remainingNumberOfScheduledAmounts (schedule s) < 256"
    unfolding schedule_memo_head_def by blast
  show ?thesis
  proof (rule read_cbor_step [where before = bs and d = d and s = s and reader = reader, OF h(6) wf r])
    fix c' t
    assume tc: "took_chunk bs d (memo s) SWO_SUCCESS c'" and wt: "wf_app t"
      and t: "t = set_cbor (\<lambda>_. c') (s\<lparr> tx_hash := Some ((hdr @ [TRANSFER_WITH_SCHEDULE_WITH_MEMO] @ to @ len @ bs) @ d) \<rparr>)"
    have b: "blob c' = bs @ d" "cb_cborLength (memo s) = length d + cb_cborLength c'"
      using tc by (simp_all add: took_chunk_def)
    have fr: "replies t = replies s" "currentInstruction t = currentInstruction s" "screen t = screen s"
      "schedule t = schedule s" "memo t = c'" "header_shown E hdr t" "\<not> awaiting t"
      "sc_state (schedule t) = sc_state (schedule s)"
      using h(1) wf(2) by (simp_all add: t)
    show "wp (k t) (\<lambda>_ t. kept (schedule_flow E []) s t) (refused s)"
    proof (cases "cb_cborLength c' = 0")
      case True
      then have "shows_blob (bs @ d) (memo t)" using tc fr(5) by (simp add: took_chunk_def)
      then have "wp (finish_memo_scheduled E t) (\<lambda>_ t. kept (schedule_flow E []) s t) (refused s)"
        using h fr b True wt t
        by (intro finish_memo_wp [where hdr = hdr and to = to and len = len and bs = "bs @ d"]) simp_all
      then show ?thesis using k(1) [of t] True fr(5) by simp
    next
      case False
      let ?u = "set_schedule (\<lambda>c. c\<lparr> sc_state := TX_TRANSFER_WITH_SCHEDULE_MEMO \<rparr>) t"
      have wu: "wf_app ?u" using wt wf_schedule_app [OF wt] by (intro wf_app_schedule) (simp_all add: wf_schedule_def)
      have "schedule_memo_head E ?u (bs @ d)"
        unfolding schedule_memo_head_def
        by (intro exI [of _ hdr] exI [of _ to] exI [of _ len]) (use h fr b t in simp)
      then have fl: "schedule_flow E [] ?u" using fr b by (simp add: schedule_flow_def)
      have "?u = t" if "sc_state (schedule s) = TX_TRANSFER_WITH_SCHEDULE_MEMO"
        using that fr(4) by (simp add: set_schedule_def set_blob_def)
      then have "k t = send_success_no_idle ?u" using k(2) [of t] False fr(5) by auto
      then show ?thesis using fl wu fr by (auto intro!: kept_reply)
    qed
  qed
qed

subsection \<open>The opening packets\<close>

abbreviation clear_schedule_fee :: "app \<Rightarrow> app" where
  "clear_schedule_fee \<equiv> set_schedule (\<lambda>c. c\<lparr> sc_has_fee_display := False,
     sc_fee_display_str := zeros (length (sc_fee_display_str c)) \<rparr>)"

lemma wf_clear_schedule_fee: "wf_app s \<Longrightarrow> wf_app (clear_schedule_fee s)"
  by (rule wf_app_schedule, assumption, drule wf_schedule_app) (simp add: wf_schedule_def cbuf_def zeros_def)

lemma byte_count: "c \<noteq> [] \<Longrightarrow> take 1 c = [of_nat (unat (c ! 0))]" for c :: bytes
  by (cases c) simp_all

lemma schedule_open:
  assumes E: "platform E" and wf: "wf_app s" "\<not> awaiting s" and len: "length (cmd_data c) < 256"
    and z: "sc_scheduledAmountsInCurrentPacket (schedule s) = 0"
  shows "wp (schedule_open_packet E c s) (\<lambda>_ t. kept (schedule_flow E []) s t) (refused s)"
proof (cases "P2_SIGN_TX_FEE_DISPLAY < cmd_p2 c")
  case True
  then show ?thesis using refused_self [OF wf(1)] by (simp add: schedule_open_packet_def)
next
  case False
  let ?s = "clear_schedule_fee s" and ?n = "1 + fee_suffix (cmd_p2 c)"
  note wt = wf_schedule_app [OF wf(1)] and ws = wf_clear_schedule_fee [OF wf(1)]
  have dst: "address_buffer (sc_displayStr (schedule ?s))" using wt by (simp add: wf_schedule_def)
  show ?thesis
    unfolding schedule_open_packet_def Let_def [of "cmd_data c"] Let_def [of "cmd_p2 c"] Let_def [of "length _"]
      Let_def [of ?s] if_not_P [OF False] wp_bind
  proof (rule header_to_address_step [OF E ws len dst, unfolded refused_schedule], goal_cases)
    case (1 t off dst ns hdr to rest)
    then have h: "header_done E ns hdr (hdr @ [TRANSFER_WITH_SCHEDULE] @ to) ?s t"
      and to: "length to = 32" "address_text E to = Some (cstr dst)" "address_buffer dst"
      and off: "drop off (cmd_data c) = rest" "sub8 (length (cmd_data c)) off = length rest"
      by simp_all
    note hd = header_doneD [OF h]
    have wt': "wf_schedule (schedule t)" by (rule wf_schedule_app [OF hd(5)])
    have ff: "sc_fee_display_str (schedule t) = zeros 30"
      "sc_scheduledAmountsInCurrentPacket (schedule t) = 0"
      using wt z by (simp_all add: hd(6) wf_schedule_def cbuf_def)
    have refuse: "refused s e (set_schedule f t)" "refused s e (set_schedule g (set_schedule f t))"
      if "status_word e" for e f g using that hd by (simp_all add: refused_def wf_app_def)
    show ?case
    proof (cases "length rest = ?n")
      case False
      then show ?thesis by (simp add: off refuse)
    next
      case True
      then have l1: "rest \<noteq> []" by auto
      obtain fee shown where f: "read_fee E (cmd_p2 c) rest 1 (zeros 30) = Ok (fee, shown)" "cbuf 30 fee"
        using read_fee_wp [OF platformD(4) [OF E] True]
        by (cases "read_fee E (cmd_p2 c) rest 1 (zeros 30)") auto
      let ?m = "hdr @ [TRANSFER_WITH_SCHEDULE] @ to @ take 1 rest"
      let ?u = "(set_schedule (\<lambda>c. c\<lparr> sc_remainingNumberOfScheduledAmounts := unat (rest ! 0) \<rparr>)
        (set_schedule (\<lambda>c. c\<lparr> sc_displayStr := dst \<rparr>) t))\<lparr> tx_hash := Some ?m \<rparr>"
      let ?v = "set_schedule (\<lambda>c. c\<lparr> sc_fee_display_str := fee, sc_has_fee_display := shown,
        sc_state := TX_TRANSFER_WITH_SCHEDULE_AWAITING_INITIAL_CONFIRM \<rparr>) ?u"
      have wv: "wf_app ?v"
        using hd(5) wt' f(2) to(3) by (intro wf_app_schedule) (simp_all add: wf_schedule_def wf_app_schedule)
      have "schedule_ready E hdr to None (unat (rest ! 0)) ?v"
        using hd(3) to ff(2) unat_bounds(1) [of "rest ! 0"] l1
        by (simp add: schedule_ready_def schedule_prefix_def byte_count del: One_nat_def)
      then have "wp (startInitialScheduledTransferDisplay False ?v)
          (\<lambda>_ t. kept (schedule_flow E []) s (t\<lparr> async_reply := True \<rparr>)) (refused s)"
        using first_review [of E hdr to None "unat (rest ! 0)" ?v s] wv hd by simp
      then show ?thesis
        using True f(1) l1
        by (simp add: off byte_at_def hash_data_wp [where h = "hdr @ [TRANSFER_WITH_SCHEDULE] @ to"] hd(4) ff(1) refuse
            del: One_nat_def)
    qed
  qed
qed

lemma schedule_memo_open:
  assumes E: "platform E" and wf: "wf_app s" "\<not> awaiting s" and len: "length (cmd_data c) < 256"
    and z: "sc_scheduledAmountsInCurrentPacket (schedule s) = 0"
  shows "wp (schedule_memo_open_packet E c s) (\<lambda>_ t. kept (schedule_flow E []) s t) (refused s)"
proof (cases "P2_SIGN_TX_FEE_DISPLAY < cmd_p2 c")
  case True
  then show ?thesis using refused_self [OF wf(1)] by (simp add: schedule_memo_open_packet_def)
next
  case False
  let ?s = "clear_schedule_fee s" and ?n = "3 + fee_suffix (cmd_p2 c)"
  note wt = wf_schedule_app [OF wf(1)] and ws = wf_clear_schedule_fee [OF wf(1)]
  have dst: "address_buffer (sc_displayStr (schedule ?s))" using wt by (simp add: wf_schedule_def)
  show ?thesis
    unfolding schedule_memo_open_packet_def Let_def [of "cmd_data c"] Let_def [of "cmd_p2 c"] Let_def [of "length _"]
      Let_def [of ?s] if_not_P [OF False] wp_bind
  proof (rule header_to_address_step [OF E ws len dst, unfolded refused_schedule], goal_cases)
    case (1 t off dst ns hdr to rest)
    then have h: "header_done E ns hdr (hdr @ [TRANSFER_WITH_SCHEDULE_WITH_MEMO] @ to) ?s t"
      and to: "length to = 32" "address_text E to = Some (cstr dst)" "address_buffer dst"
      and off: "drop off (cmd_data c) = rest" "sub8 (length (cmd_data c)) off = length rest"
      by simp_all
    note hd = header_doneD [OF h]
    have wt': "wf_schedule (schedule t)" "wf_cbor (memo t)" using hd(5) by (simp_all add: wf_app_def wf_context_def)
    have ff: "sc_fee_display_str (schedule t) = zeros 30"
      "sc_scheduledAmountsInCurrentPacket (schedule t) = 0"
      using wt z by (simp_all add: hd(6) wf_schedule_def cbuf_def)
    have na: "\<not> awaiting t" using wf(2) hd(8) by (simp add: awaiting_def)
    have refuse: "refused s e (set_schedule f t)" "refused s e (set_cbor k (set_schedule g (set_schedule f t)))"
      "refused s e (set_schedule g (set_schedule f t))"
      if "status_word e" for e f g k using that hd by (simp_all add: refused_def wf_app_def)
    show ?case
    proof (cases "length rest = ?n")
      case False
      then show ?thesis by (simp add: off refuse)
    next
      case True
      then obtain b rs where rest: "rest = b # rs" by (cases rest) auto
      have l1: "length rs = 2 + fee_suffix (cmd_p2 c)" "2 \<le> length rs" using True rest by simp_all
      have u: "unat (of_nat (be_nat (take 2 rs)) :: u16) = be_nat (take 2 rs)"
        using l1 by (intro unat_be_nat_2) simp
      obtain fee shown where f: "read_fee E (cmd_p2 c) rs 2 (zeros 30) = Ok (fee, shown)" "cbuf 30 fee"
        using read_fee_wp [OF platformD(4) [OF E] l1(1)]
        by (cases "read_fee E (cmd_p2 c) rs 2 (zeros 30)") auto
      let ?m = "hdr @ [TRANSFER_WITH_SCHEDULE_WITH_MEMO] @ to @ take 2 rs"
      let ?u = "set_cbor (\<lambda>c. c\<lparr> cb_cborLength := be_nat (take 2 rs) \<rparr>)
        (set_schedule (\<lambda>c. c\<lparr> sc_remainingNumberOfScheduledAmounts := unat b \<rparr>)
        (set_schedule (\<lambda>c. c\<lparr> sc_displayStr := dst \<rparr>) t))"
      let ?v = "set_schedule (\<lambda>c. c\<lparr> sc_fee_display_str := fee, sc_has_fee_display := shown,
        sc_state := TX_TRANSFER_WITH_SCHEDULE_MEMO_START \<rparr>) (?u\<lparr> tx_hash := Some ?m \<rparr>)"
      have wv: "wf_app ?v"
        using hd(5) wt' f(2) to(3)
        by (intro wf_app_schedule) (simp_all add: wf_schedule_def wf_app_schedule wf_app_sets wf_cbor_def)
      have "schedule_memo_head E ?v []"
        unfolding schedule_memo_head_def
        by (intro exI [of _ hdr] exI [of _ to] exI [of _ "take 2 rs"])
          (use hd(3) to l1 ff(2) unat_bounds(1) [of b] in simp)
      then have "schedule_flow E [] ?v" using na by (simp add: schedule_flow_def)
      then have s: "wp (send_success_no_idle ?v) (\<lambda>_ t. kept (schedule_flow E []) s t) (refused s)"
        using wf(2) wv hd na by (auto intro!: kept_reply)
      show ?thesis
        using True l1 u f(1) s
        by (simp add: Let_def rest off byte_at_def U2BE_def slice_Ok hd(4) ff(1) refuse
            hash_data_wp [where h = "hdr @ [TRANSFER_WITH_SCHEDULE_WITH_MEMO] @ to"])
    qed
  qed
qed

subsection \<open>Handlers and choices\<close>

lemma wiped_schedule_state:
  assumes "global s = wiped"
  shows "sc_scheduledAmountsInCurrentPacket (schedule s) = 0" "sc_state (schedule s) = SCHEDULE_ZERO"
  using assms by (simp_all add: wiped_def wiped_schedule_def)

text \<open>The state a handler works in after its first lines.\<close>

lemma schedule_start:
  assumes wf: "wf_app s" "\<not> awaiting s"
    and st: "if initial then global s = wiped \<and> log = [] else schedule_flow E log s"
    and u: "u = (if initial then set_schedule (\<lambda>c. c\<lparr> sc_state := TX_TRANSFER_WITH_SCHEDULE_INITIAL \<rparr>) s else s)"
  shows "wf_app u" "\<not> awaiting u" "refused u = refused s" "schedule_flow E log u"
    "\<And>l t. kept (schedule_flow E l) u t = kept (schedule_flow E l) s t"
proof -
  show "wf_app u"
    using wf(1) wf_schedule_app [OF wf(1)] unfolding u by (simp add: wf_app_schedule wf_schedule_def)
  show "schedule_flow E log u"
    using st wf(2) wiped_schedule_state [of s] unfolding u by (auto simp: schedule_flow_def)
  show "\<not> awaiting u" "refused u = refused s" "\<And>l t. kept (schedule_flow E l) u t = kept (schedule_flow E l) s t"
    using wf(2) unfolding u by (simp_all add: kept_defs)
qed

lemma schedule_flow_initial:
  assumes "schedule_flow E log s" "\<not> awaiting s" "sc_state (schedule s) = TX_TRANSFER_WITH_SCHEDULE_INITIAL"
  shows "log = []" "sc_scheduledAmountsInCurrentPacket (schedule s) = 0"
  using assms by (simp_all add: schedule_flow_def)

lemma schedule_handle:
  assumes E: "platform E" and wf: "wf_app s" "\<not> awaiting s" and len: "length (cmd_data c) < 256"
    and st: "if initial then global s = wiped \<and> log = [] else schedule_flow E log s"
  shows "wp (handle_sign_transfer_with_schedule E c initial s) (\<lambda>_ t. kept (schedule_flow E log) s t) (refused s)"
proof -
  define u where "u = (if initial then set_schedule (\<lambda>c. c\<lparr> sc_state := TX_TRANSFER_WITH_SCHEDULE_INITIAL \<rparr>) s else s)"
  note u = schedule_start [OF wf st u_def]
  have eq: "handle_sign_transfer_with_schedule E c initial s =
      (if cmd_p1 c = 0 \<and> sc_state (schedule u) = TX_TRANSFER_WITH_SCHEDULE_INITIAL then schedule_open_packet E c u
       else if cmd_p1 c = 1 \<and> sc_state (schedule u) = TX_TRANSFER_WITH_SCHEDULE_TRANSFER_PAIRS then
         (if cmd_p2 c \<noteq> P2_SIGN_TX_DEFAULT then Throw SWO_WRONG_P1_P2 u
          else handle_transfer_pairs E (cmd_data c) u)
       else Throw ERROR_INVALID_PARAM u)"
    by (simp add: handle_sign_transfer_with_schedule_def u_def Let_def)
  show ?thesis
    unfolding eq
    using schedule_open [OF E u(1,2) len] schedule_flow_initial [OF u(4,2)]
      pairs_packet [OF E u(1,2) _ u(4), of "cmd_data c"] refused_self [OF u(1)]
    by (auto simp: u(3,5))
qed

lemma schedule_memo_handle:
  assumes E: "platform E" and wf: "wf_app s" "\<not> awaiting s" and len: "length (cmd_data c) < 256"
    and st: "if initial then global s = wiped \<and> log = [] else schedule_flow E log s"
  shows "wp (handle_sign_transfer_with_schedule_and_memo E c initial s)
    (\<lambda>_ t. kept (schedule_flow E log) s t) (refused s)"
proof -
  define u where "u = (if initial then set_schedule (\<lambda>c. c\<lparr> sc_state := TX_TRANSFER_WITH_SCHEDULE_INITIAL \<rparr>) s else s)"
  note u = schedule_start [OF wf st u_def]
  let ?d = "cmd_data c" and ?st = "sc_state (schedule u)"
  let ?first = "bind (update_hash E ?d u) (\<lambda>_ s. read_cbor (readCborInitial E ?d) s (\<lambda>s.
      if cb_cborLength (memo s) = 0 then finish_memo_scheduled E s
      else send_success_no_idle (set_schedule (\<lambda>c. c\<lparr> sc_state := TX_TRANSFER_WITH_SCHEDULE_MEMO \<rparr>) s)))"
  let ?next = "bind (update_hash E ?d u) (\<lambda>_ s. read_cbor (readCborContent E ?d) s (\<lambda>s.
      if cb_cborLength (memo s) \<noteq> 0 then send_success_no_idle s else finish_memo_scheduled E s))"
  have eq: "handle_sign_transfer_with_schedule_and_memo E c initial s =
      (if cmd_p1 c = 2 \<and> ?st = TX_TRANSFER_WITH_SCHEDULE_INITIAL then schedule_memo_open_packet E c u
       else if cmd_p1 c = 3 \<and> ?st = TX_TRANSFER_WITH_SCHEDULE_MEMO_START then
         (if cmd_p2 c \<noteq> P2_SIGN_TX_DEFAULT then Throw SWO_WRONG_P1_P2 u else ?first)
       else if cmd_p1 c = 3 \<and> ?st = TX_TRANSFER_WITH_SCHEDULE_MEMO then
         (if cmd_p2 c \<noteq> P2_SIGN_TX_DEFAULT then Throw SWO_WRONG_P1_P2 u else ?next)
       else if cmd_p1 c = 1 \<and> ?st = TX_TRANSFER_WITH_SCHEDULE_TRANSFER_PAIRS then
         (if cmd_p2 c \<noteq> P2_SIGN_TX_DEFAULT then Throw SWO_WRONG_P1_P2 u
          else handle_transfer_pairs E ?d u)
       else Throw ERROR_INVALID_PARAM u)"
    by (simp add: handle_sign_transfer_with_schedule_and_memo_def u_def Let_def)
  have wc: "wf_cbor (memo u)" using u(1) by (simp add: wf_app_def wf_context_def)
  note cbor = platformD(1,2) [OF E] wc
  have first: "wp ?first (\<lambda>_ t. kept (schedule_flow E log) u t) (refused u)"
    if "?st = TX_TRANSFER_WITH_SCHEDULE_MEMO_START"
  proof -
    have l: "log = []" "schedule_memo_head E u []" using u(2,4) that by (simp_all add: schedule_flow_def)
    have "rwp (readCborInitial E ?d (memo u)) (\<lambda>(sw, c'). took_chunk [] ?d (memo u) sw c') status_word"
      using len by (intro rwp_mono [OF readCborInitial_wp [OF cbor]]) auto
    then show ?thesis unfolding l(1) by (rule schedule_memo_chunk [OF E u(1,2) l(2)]) simp_all
  qed
  have nxt: "wp ?next (\<lambda>_ t. kept (schedule_flow E log) u t) (refused u)"
    if "?st = TX_TRANSFER_WITH_SCHEDULE_MEMO"
  proof -
    have l: "log = []" "schedule_memo_head E u (blob (memo u))" using u(2,4) that by (simp_all add: schedule_flow_def)
    show ?thesis
      unfolding l(1)
      by (rule schedule_memo_chunk [where reader = "readCborContent E ?d" and d = ?d, OF E u(1,2) l(2)
            readCborContent_wp [OF cbor]]) (use that in simp_all)
  qed
  show ?thesis
    unfolding eq
    using schedule_memo_open [OF E u(1,2) len] schedule_flow_initial [OF u(4,2)] first nxt
      pairs_packet [OF E u(1,2) _ u(4), of "cmd_data c"] refused_self [OF u(1)]
    by (simp add: u(3,5))
qed

text \<open>Approving a review adds its rows to the log.\<close>

lemma schedule_choices:
  assumes E: "platform E" and wf: "wf_app s" "\<not> awaiting s" and fl: "schedule_flow E log (s\<lparr> screen := Some rv \<rparr>)"
    and aw: "awaiting (s\<lparr> screen := Some rv \<rparr>)"
  shows "rv_callback rv = confirm_initial_scheduled_transfer_callback \<Longrightarrow>
      wp (choose_initial_scheduled confirm s) (\<lambda>_ t. decided confirm (schedule_flow E (log @ [rv_pairs rv])) s t) (\<lambda>_ _. False)"
    "rv_callback rv = processNextScheduledAmountWrapper \<Longrightarrow>
      wp (choose_next_scheduled E confirm s) (\<lambda>_ t. decided confirm (schedule_flow E (log @ [rv_pairs rv])) s t) (\<lambda>_ _. False)"
    "rv_callback rv = review_choice_sign \<Longrightarrow>
      wp (choose_sign E confirm s) (\<lambda>_ t. decided confirm (schedule_flow E (log @ [rv_pairs rv])) s t) (\<lambda>_ _. False)"
    "rv_callback rv \<in> {confirm_initial_scheduled_transfer_callback, processNextScheduledAmountWrapper, review_choice_sign}"
proof -
  have up: "schedule_first_up E log s rv \<or> schedule_release_up E log s rv"
    using fl unfolding schedule_flow_def if_P [OF aw]
    by (simp add: schedule_first_up_def schedule_release_up_def absorbed_releases_def)
  then show "rv_callback rv \<in> {confirm_initial_scheduled_transfer_callback, processNextScheduledAmountWrapper, review_choice_sign}"
    by (auto simp: schedule_first_up_def schedule_release_up_def split: if_splits)
  note reject = rejection_decided [OF wf(1,2)]
  show "wp (choose_initial_scheduled confirm s) (\<lambda>_ t. decided confirm (schedule_flow E (log @ [rv_pairs rv])) s t) (\<lambda>_ _. False)"
    if "rv_callback rv = confirm_initial_scheduled_transfer_callback"
  proof -
    from up that have "schedule_first_up E log s rv" by (auto simp: schedule_release_up_def split: if_splits)
    then obtain pre count where l: "log = []" "schedule_opened E s pre (rv_pairs rv) count"
      "absorbed_releases s pre []" "sc_scheduledAmountsInCurrentPacket (schedule s) = 0"
      "sc_remainingNumberOfScheduledAmounts (schedule s) = count"
      unfolding schedule_first_up_def by blast
    let ?t = "set_schedule (\<lambda>c. c\<lparr> sc_state := TX_TRANSFER_WITH_SCHEDULE_TRANSFER_PAIRS \<rparr>) s"
    have "schedule_idle E (log @ [rv_pairs rv]) ?t"
      unfolding schedule_idle_def
      by (intro exI [of _ pre] exI [of _ "rv_pairs rv"] exI [of _ count] exI [of _ "[]"])
        (use l in \<open>simp add: absorbed_releases_def\<close>)
    then have "schedule_flow E (log @ [rv_pairs rv]) ?t" using wf(2) by (simp add: schedule_flow_def)
    moreover have "wf_app ?t"
      using wf(1) wf_schedule_app [OF wf(1)] by (simp add: wf_app_schedule wf_schedule_def)
    ultimately have "wp (confirmInitialScheduledTransfer s)
        (\<lambda>_ t. kept (schedule_flow E (log @ [rv_pairs rv])) s t) (\<lambda>_ _. False)"
      using wf(2) by (auto simp: confirmInitialScheduledTransfer_def intro!: kept_reply)
    then show ?thesis
      using reject unfolding choose_initial_scheduled_def by (cases confirm) (auto intro!: wp_ux_run_guarded elim!: wp_mono kept_decided)
  qed
  show "wp (choose_sign E confirm s) (\<lambda>_ t. decided confirm (schedule_flow E (log @ [rv_pairs rv])) s t) (\<lambda>_ _. False)"
    if "rv_callback rv = review_choice_sign"
  proof -
    from up that obtain m where "tx_hash s = Some m"
      by (auto simp: schedule_first_up_def schedule_release_up_def absorbed_releases_def)
    from choose_sign_wp [OF E wf(1) this wf(2)] show ?thesis by (rule wp_mono) (simp_all add: decided_def settled_def)
  qed
  show "wp (choose_next_scheduled E confirm s) (\<lambda>_ t. decided confirm (schedule_flow E (log @ [rv_pairs rv])) s t) (\<lambda>_ _. False)"
    if cb: "rv_callback rv = processNextScheduledAmountWrapper"
  proof -
    from up cb have "schedule_release_up E log s rv" by (auto simp: schedule_first_up_def)
    then obtain pre rows count rs r where i: "schedule_opened E s pre rows count"
      "absorbed_releases s pre (rs @ [r])" "log = rows # map release_row rs" "rv_pairs rv = release_row r"
      "sc_pos (schedule s) + 16 * sc_scheduledAmountsInCurrentPacket (schedule s) \<le> 240"
      "length (rs @ [r]) + sc_scheduledAmountsInCurrentPacket (schedule s) +
         sc_remainingNumberOfScheduledAmounts (schedule s) = count"
      and st: "sc_state (schedule s) = TX_TRANSFER_WITH_SCHEDULE_TRANSFER_PAIRS"
      unfolding schedule_release_up_def by blast
    have lg: "log @ [rv_pairs rv] = rows # map release_row (rs @ [r])" using i(3,4) by simp
    have h: "tx_hash s = Some (pre @ concat (rs @ [r]))" "\<forall>r \<in> set (rs @ [r]). length r = 16"
      using i(2) by (simp_all add: absorbed_releases_def)
    have "wp (processNextScheduledAmount E (sc_buffer (schedule s)) s)
        (\<lambda>_ t. kept (schedule_flow E (log @ [rv_pairs rv])) s t) (refused s)"
    proof (cases "sc_scheduledAmountsInCurrentPacket (schedule s) = 0")
      case True
      have "schedule_idle E (log @ [rv_pairs rv]) s"
        unfolding schedule_idle_def
        by (intro exI [of _ pre] exI [of _ rows] exI [of _ count] exI [of _ "rs @ [r]"])
          (use i(1,2,6) lg True in simp)
      then have "schedule_flow E (log @ [rv_pairs rv]) s" using wf(2) st by (simp add: schedule_flow_def)
      then show ?thesis
        using True wf by (auto simp: processNextScheduledAmount_def intro!: kept_reply)
    next
      case False
      then have n: "0 < sc_scheduledAmountsInCurrentPacket (schedule s)" "sc_pos (schedule s) + 16 \<le> 240"
        using i(5) by simp_all
      have lb: "length (sc_buffer (schedule s)) = 255" using wf_schedule_app [OF wf(1)] by (simp add: wf_schedule_def)
      show ?thesis
      proof (rule wp_mono [OF release_step [OF E wf(1) h(1) n]], goal_cases)
        case (1 a t)
        then show ?case
          by (rule released_up [OF _ i(1) _ refl h(2) i(6) n(1) i(5) st lg]) (use lb n in simp)
      qed simp
    qed
    then show ?thesis
      using reject unfolding choose_next_scheduled_def
      by (cases confirm) (auto intro!: wp_ux_run_guarded elim!: wp_mono simp: kept_decided refused_decided)
  qed
qed

end
