(* ===== verification/RegisterData.thy ===== *)
theory RegisterData
  imports Schedule
begin

text \<open>
  Data registration: src/src/handler/sign_register_data.c.

  The flow has two reviews: the header, and the decoded data.  The invariant relates the hash to
  the header approved first and to the data received.
\<close>

subsection \<open>Operations\<close>

definition set_register :: "(signRegisterData \<Rightarrow> signRegisterData) \<Rightarrow> app \<Rightarrow> app" where
  "set_register f = set_blob (\<lambda>b. b\<lparr> signRegisterData := f (signRegisterData b) \<rparr>)"

abbreviation register :: "app \<Rightarrow> signRegisterData" where
  "register s \<equiv> signRegisterData (withDataBlob (global s))"

definition register_open_packet :: "sdk \<Rightarrow> bytes \<Rightarrow> app \<Rightarrow> unit act" where
  "register_open_packet E cdata s =
     (let dataLength = length cdata in
      bind (parse_path cdata s) (\<lambda>offset s.
      if dataLength < offset then Throw SWO_INCORRECT_DATA s
      else
        let cdata = drop offset cdata; remainingDataLength = sub8 dataLength offset in
        bind (init_tx_hash E s) (\<lambda>_ s.
        bind (hashAccountTransactionHeaderAndKind E cdata REGISTER_DATA s) (\<lambda>offset s.
        if dataLength < offset then Throw SWO_INCORRECT_DATA s
        else
          let cdata = drop offset cdata; remainingDataLength = sub8 remainingDataLength offset in
          if remainingDataLength < 2 then Throw SWO_INCORRECT_DATA s
          else call (U2BE cdata 0) s (\<lambda>n.
               let s = set_register (\<lambda>c. c\<lparr> rd_dataLength := unat n \<rparr>) s in
               if 257 < unat n then Throw ERROR_INVALID_PARAM s
               else
                 let s = set_cbor (\<lambda>c. c\<lparr> cb_cborLength := unat n \<rparr>) s in
                 bind (hash_data E cdata 0 2 s) (\<lambda>_ s.
                 uiRegisterDataInitialDisplay
                   (set_register (\<lambda>c. c\<lparr> rd_state := TX_REGISTER_DATA_PAYLOAD_START \<rparr>) s)))))))"

definition register_data_shown :: "app \<Rightarrow> unit act" where
  "register_data_shown s =
     (if rd_dataLength (register s) = 0 then uiRegisterDataPayloadDisplay s else send_success_no_idle s)"

definition register_data_packet :: "sdk \<Rightarrow> bytes \<Rightarrow> app \<Rightarrow> unit act" where
  "register_data_packet E cdata s =
     (let dataLength = length cdata in
      if rd_dataLength (register s) < dataLength then Throw ERROR_INVALID_TRANSACTION s
      else
        let s = set_register (\<lambda>c. c\<lparr> rd_dataLength := rd_dataLength c - dataLength \<rparr>) s in
        bind (update_hash E cdata s) (\<lambda>_ s.
        case rd_state (register s) of
          TX_REGISTER_DATA_PAYLOAD_START \<Rightarrow>
            read_cbor (readCborInitial E cdata)
              (set_register (\<lambda>c. c\<lparr> rd_state := TX_REGISTER_DATA_PAYLOAD \<rparr>) s) register_data_shown
        | TX_REGISTER_DATA_PAYLOAD \<Rightarrow>
            if rd_dataLength (register s) \<noteq> 0 then Throw ERROR_INVALID_STATE s
            else read_cbor (readCborContent E cdata) s register_data_shown
        | _ \<Rightarrow> Throw ERROR_INVALID_STATE s))"

definition handle_sign_register_data :: "sdk \<Rightarrow> command \<Rightarrow> bool \<Rightarrow> app \<Rightarrow> unit act" where
  "handle_sign_register_data E cmd isInitialCall s =
     (let cdata = cmd_data cmd; p1 = cmd_p1 cmd;
          s = (if isInitialCall then set_register (\<lambda>c. c\<lparr> rd_state := TX_REGISTER_DATA_INITIAL \<rparr>) s else s)
      in
      if p1 = 0 \<and> rd_state (register s) = TX_REGISTER_DATA_INITIAL then register_open_packet E cdata s
      else if p1 = 1 then register_data_packet E cdata s
      else Throw ERROR_INVALID_STATE s)"

subsection \<open>Frames\<close>

lemma set_register_simps [simp]:
  "register (set_register f s) = f (register s)" "memo (set_register f s) = memo s"
  "register (set_cbor g s) = register s" "memo (set_cbor g s) = g (memo s)"
  "tx_hash (set_register f s) = tx_hash s"
  "replies (set_register f s) = replies s" "screen (set_register f s) = screen s"
  "currentInstruction (set_register f s) = currentInstruction s"
  "global_derivation_path (set_register f s) = global_derivation_path s"
  "global_account_sender (set_register f s) = global_account_sender s"
  "header_shown E hdr (set_register f s) = header_shown E hdr s"
  "awaiting (set_register f s) = awaiting s"
  by (simp_all add: set_register_def set_cbor_def awaiting_def)

lemma set_register_comp: "set_register f (set_register g s) = set_register (\<lambda>r. f (g r)) s"
  by (simp add: set_register_def set_blob_def)

lemma set_register_hash: "set_register f (s\<lparr> tx_hash := h \<rparr>) = (set_register f s)\<lparr> tx_hash := h \<rparr>"
  by (simp add: set_register_def set_blob_def)

lemma refused_register [simp]: "refused (set_register f s) = refused s"
  by (simp add: set_register_def)

lemma refused_register_to [simp]: "refused s e (set_register f t) = refused s e t"
  by (simp add: refused_def)

lemma wf_app_register: "wf_app s \<Longrightarrow> wf_app (set_register f s)"
  unfolding set_register_def
  by (rule wf_app_set_blob, assumption, drule wf_app_blob, simp add: wf_blob_def)

lemma kept_register [simp]: "kept invar (set_register f s) = kept invar s"
  by (intro ext) (simp add: kept_defs)

subsection \<open>The flow\<close>

text \<open>The header was approved, and \<open>bs\<close> is the data absorbed.\<close>

definition register_head :: "sdk \<Rightarrow> log \<Rightarrow> app \<Rightarrow> bytes \<Rightarrow> bool" where
  "register_head E log s bs \<longleftrightarrow> (\<exists>hdr len. header_shown E hdr s \<and> length len = 2 \<and>
     be_nat len = length bs + cb_cborLength (memo s) \<and> rd_dataLength (register s) = cb_cborLength (memo s) \<and>
     tx_hash s = Some (hdr @ [REGISTER_DATA] @ len @ bs) \<and>
     log = [header_pairs E ''Sender'' hdr (global_derivation_path s)])"

definition register_first_up :: "sdk \<Rightarrow> log \<Rightarrow> app \<Rightarrow> review \<Rightarrow> bool" where
  "register_first_up E log s rv \<longleftrightarrow> log = [] \<and> rv_callback rv = sendSuccessNoIdleCallback \<and>
     rd_state (register s) = TX_REGISTER_DATA_PAYLOAD_START \<and> register_head E [rv_pairs rv] s []"

text \<open>The signing review shows the item the data encodes, under the header approved before.\<close>

definition register_asked :: "sdk \<Rightarrow> log \<Rightarrow> app \<Rightarrow> bytes \<Rightarrow> bytes \<Rightarrow> cbor_item \<Rightarrow> bool" where
  "register_asked E log s hdr len item \<longleftrightarrow> header_shown E hdr s \<and> length len = 2 \<and>
     be_nat len = length (cbor_encode item) \<and> valid_item item \<and>
     log = [header_pairs E ''Sender'' hdr (global_derivation_path s)] \<and>
     asks_to_sign s (hdr @ [REGISTER_DATA] @ len @ cbor_encode item)
       (memo_item_rows ''Data type'' ''Data'' item)"

definition register_flow :: "sdk \<Rightarrow> log \<Rightarrow> app \<Rightarrow> bool" where
  "register_flow E log s \<longleftrightarrow>
     (if awaiting s
      then (\<exists>rv. screen s = Some rv \<and> register_first_up E log s rv) \<or>
           (\<exists>hdr len item. register_asked E log s hdr len item)
      else case rd_state (register s) of
        TX_REGISTER_DATA_PAYLOAD_START \<Rightarrow> register_head E log s []
      | TX_REGISTER_DATA_PAYLOAD \<Rightarrow> register_head E log s (blob (memo s))
      | _ \<Rightarrow> log = [] \<and> rd_dataLength (register s) = 0)"

lemma register_head_upd [simp]:
  "register_head E log (s\<lparr> replies := r \<rparr>) = register_head E log s"
  "register_head E log (s\<lparr> screen := sc \<rparr>) = register_head E log s"
  "register_head E log (s\<lparr> status_page := b \<rparr>) = register_head E log s"
  "register_head E log (s\<lparr> async_reply := b \<rparr>) = register_head E log s"
  by (intro ext, simp add: register_head_def)+

lemma register_initial_screen:
  assumes "header_shown E hdr s" "wf_sender (global_account_sender s)"
  shows "wp (uiRegisterDataInitialDisplay s)
    (\<lambda>_ t. \<exists>rv. screen t = Some rv \<and> rv_pairs rv = header_pairs E ''Sender'' hdr (global_derivation_path s) \<and>
       rv_callback rv = sendSuccessNoIdleCallback \<and>
       t = s\<lparr> screen := screen t, status_page := False, async_reply := True \<rparr>) X"
  using assms header_shown_pairs [OF assms(1), of "''Sender''"]
  by (auto simp: uiRegisterDataInitialDisplay_def use_case_defs)

lemma register_opened:
  assumes "header_shown E hdr w" "length len = 2" "be_nat len = cb_cborLength (memo w)"
    "rd_dataLength (register w) = cb_cborLength (memo w)" "tx_hash w = Some (hdr @ [REGISTER_DATA] @ len)"
    "rd_state (register w) = TX_REGISTER_DATA_PAYLOAD_START" and wf: "wf_app w"
    and s: "replies w = replies s" "currentInstruction w = currentInstruction s"
  shows "wp (uiRegisterDataInitialDisplay w) (\<lambda>_ t. kept (register_flow E []) s t) X"
proof (rule wp_mono [OF register_initial_screen [OF assms(1)]], goal_cases)
  case (2 a t)
  then obtain rv where rv: "rv_pairs rv = header_pairs E ''Sender'' hdr (global_derivation_path w)"
    "rv_callback rv = sendSuccessNoIdleCallback"
    and t: "t = w\<lparr> screen := Some rv, status_page := False, async_reply := True \<rparr>" by auto
  have "register_head E [rv_pairs rv] t []"
    using rv assms(1-5) unfolding t register_head_def
    by (intro exI [of _ hdr] exI [of _ len]) simp
  then have "register_flow E [] t"
    using rv(2) assms(6) by (simp add: register_flow_def register_first_up_def t)
  then show ?case using wf s rv(2) by (intro kept_review) (simp_all add: t)
qed (use wf in \<open>simp_all add: wf_app_def\<close>)

lemma register_open:
  assumes E: "platform E" and wf: "wf_app s" "\<not> awaiting s" and len: "length c < 256"
  shows "wp (register_open_packet E c s) (\<lambda>_ t. kept (register_flow E []) s t) (refused s)"
  unfolding register_open_packet_def Let_def [of "length c"] wp_bind
proof (rule wp_mono [OF path_step [OF wf(1)]], goal_cases)
  case (1 n t)
  then obtain ns where p: "path_done c s ns n t" by blast
  note pd = path_doneD [OF p wf(1)]
  have n: "\<not> length c < n" using pd(5) by simp
  show ?case
    unfolding if_not_P [OF n] Let_def wp_bind
  proof (rule wp_init_step, goal_cases)
    case 1
    show ?case
    proof (rule wp_mono [OF account_header_step [OF E wf(1) len p]], goal_cases)
      case (3 m v)
      then obtain hdr rest where h: "header_done E ns hdr (hdr @ [REGISTER_DATA]) s v" "m = 61"
        "n + 61 \<le> length c" "drop (61 + n) c = rest" "sub8 (sub8 (length c) n) 61 = length rest" by blast
      note hd = header_doneD [OF h(1)]
      have refuse: "refused s e (set_register f v)" "refused s e (set_cbor g (set_register f v))" "refused s e v"
        if "status_word e" for e f g using that hd by (simp_all add: refused_def wf_app_def)
      show ?case
      proof (cases "2 \<le> length rest")
        case True
        let ?n = "be_nat (take 2 rest)"
        have u: "unat (of_nat ?n :: u16) = ?n" using True by (intro unat_be_nat_2) simp
        let ?v = "(set_cbor (\<lambda>c. c\<lparr> cb_cborLength := ?n \<rparr>) (set_register (\<lambda>c. c\<lparr> rd_dataLength := ?n \<rparr>) v))
          \<lparr> tx_hash := Some (hdr @ [REGISTER_DATA] @ take 2 rest) \<rparr>"
        let ?w = "set_register (\<lambda>c. c\<lparr> rd_state := TX_REGISTER_DATA_PAYLOAD_START \<rparr>) ?v"
        have "wf_cbor (memo v)" using hd(5) by (simp add: wf_app_def wf_context_def)
        then have ww: "wf_app ?w" using hd(5) by (simp add: wf_app_register wf_app_sets wf_cbor_def)
        have "wp (uiRegisterDataInitialDisplay ?w) (\<lambda>_ t. kept (register_flow E []) s t) (refused s)"
          by (rule register_opened [of E hdr _ "take 2 rest"]) (use hd ww True in simp_all)
        then show ?thesis
          using h True u by (simp add: hash_data_wp [where h = "hdr @ [REGISTER_DATA]"] hd(4) refuse U2BE_def slice_Ok)
      qed (use h in \<open>simp add: refuse\<close>)
    qed (use pd in simp_all)
  qed (simp add: pd(7))
qed simp

lemma register_payload_screen:
  assumes "register_head E log s bs" "cb_cborLength (memo s) = 0" "shows_blob bs (memo s)" "wf_app s"
  shows "wp (uiRegisterDataPayloadDisplay s)
    (\<lambda>_ t. \<exists>hdr len item. register_asked E log t hdr len item \<and>
       t = s\<lparr> screen := screen t, status_page := False, async_reply := True \<rparr>) X"
proof -
  obtain hdr len where h: "header_shown E hdr s" "length len = 2" "be_nat len = length bs"
    "rd_dataLength (register s) = 0" "tx_hash s = Some (hdr @ [REGISTER_DATA] @ len @ bs)"
    "log = [header_pairs E ''Sender'' hdr (global_derivation_path s)]"
    using assms(1,2) by (auto simp: register_head_def)
  obtain item where i: "valid_item item" "bs = cbor_encode item"
    "cstr (cb_typeLabel (memo s)) = item_label item" "cstr (cb_display (memo s)) = item_text item"
    using assms(3) by (auto simp: shows_blob_def)
  have "0 \<in> set (cb_typeLabel (memo s))" "0 \<in> set (cb_display (memo s))"
    using assms(4) by (simp_all add: wf_app_def wf_context_def wf_cbor_def cbuf_def)
  then show ?thesis
    using h i by (fastforce simp: uiRegisterDataPayloadDisplay_def use_case_defs memo_rows_def
        register_asked_def asks_to_sign_def memo_item_rows_def Let_def)
qed

text \<open>The state after one chunk of data.\<close>

lemma register_shown:
  assumes "register_head E log t bs" "wf_app t" "\<not> awaiting t" "rd_state (register t) = TX_REGISTER_DATA_PAYLOAD"
    "bs = blob (memo t)" "cb_cborLength (memo t) = 0 \<Longrightarrow> shows_blob bs (memo t)"
    and s: "replies t = replies s" "currentInstruction t = currentInstruction s"
  shows "wp (register_data_shown t) (\<lambda>_ t. kept (register_flow E log) s t) X"
proof (cases "rd_dataLength (register t) = 0")
  case True
  then have z: "cb_cborLength (memo t) = 0" using assms(1) by (auto simp: register_head_def)
  show ?thesis
    unfolding register_data_shown_def if_P [OF True]
  proof (rule wp_mono [OF register_payload_screen [OF assms(1) z assms(6) [OF z] assms(2)]], goal_cases)
    case (1 a u)
    define sc where "sc = screen u"
    obtain hdr len item where u: "register_asked E log u hdr len item"
      "u = t\<lparr> screen := sc, status_page := False, async_reply := True \<rparr>" using 1 sc_def by blast
    have aw: "awaiting u" using u(1) by (auto simp: register_asked_def intro: asks_awaiting)
    have "register_flow E log u" unfolding register_flow_def if_P [OF aw] using u(1) by blast
    then show ?case using aw assms(2) s u(2) by (intro kept_review) simp_all
  qed simp
next
  case False
  have "register_flow E log (t\<lparr> replies := replies s @ [([], SWO_SUCCESS)] \<rparr>)"
    using assms(1,3,4,5) by (simp add: register_flow_def)
  then show ?thesis using False assms(2,3) s by (auto simp: register_data_shown_def intro!: kept_reply)
qed

lemma register_data:
  assumes E: "platform E" and wf: "wf_app s" "\<not> awaiting s" and c: "c \<noteq> []" "length c < 256"
    and fl: "register_flow E log s"
  shows "wp (register_data_packet E c s) (\<lambda>_ t. kept (register_flow E log) s t) (refused s)"
proof (cases "rd_dataLength (register s) < length c")
  case True
  then show ?thesis using refused_self [OF wf(1)] by (simp add: register_data_packet_def)
next
  case False
  let ?s = "set_register (\<lambda>r. r\<lparr> rd_dataLength := rd_dataLength r - length c \<rparr>) s"
  have wc: "wf_cbor (memo s)" using wf(1) by (simp add: wf_app_def wf_context_def)
  have n: "rd_dataLength (register s) \<noteq> 0" using False c(1) by (cases c) auto
  define bs where "bs = (if rd_state (register s) = TX_REGISTER_DATA_PAYLOAD_START then [] else blob (memo s))"
  have head: "register_head E log s bs"
    and st: "rd_state (register s) = TX_REGISTER_DATA_PAYLOAD_START \<or> rd_state (register s) = TX_REGISTER_DATA_PAYLOAD"
    using fl wf(2) n by (auto simp: register_flow_def bs_def split: registerDataState.splits)
  obtain hdr len where h: "tx_hash s = Some (hdr @ [REGISTER_DATA] @ len @ bs)" "header_shown E hdr s"
    "length len = 2" "be_nat len = length bs + cb_cborLength (memo s)"
    "rd_dataLength (register s) = cb_cborLength (memo s)"
    "log = [header_pairs E ''Sender'' hdr (global_derivation_path s)]"
    using head by (auto simp: register_head_def)
  have go: "wp (register_data_shown t) (\<lambda>_ t. kept (register_flow E log) s t) X"
    if tc: "took_chunk bs c (memo s) SWO_SUCCESS c'" and wt: "wf_app t"
      and t: "t = set_cbor (\<lambda>_. c') (set_register (\<lambda>r. r\<lparr> rd_dataLength := rd_dataLength r - length c,
        rd_state := TX_REGISTER_DATA_PAYLOAD \<rparr>) s\<lparr> tx_hash := Some ((hdr @ [REGISTER_DATA] @ len @ bs) @ c) \<rparr>)"
    for c' t X
  proof (rule register_shown [where bs = "bs @ c"])
    show "register_head E log t (bs @ c)"
      using h tc unfolding t register_head_def
      by (intro exI [of _ hdr] exI [of _ len]) (simp add: took_chunk_def)
  qed (use tc wt wf(2) in \<open>simp_all add: t took_chunk_def\<close>)
  show ?thesis
  proof (cases "rd_state (register s) = TX_REGISTER_DATA_PAYLOAD_START")
    case True
    let ?u = "set_register (\<lambda>r. r\<lparr> rd_state := TX_REGISTER_DATA_PAYLOAD \<rparr>) ?s"
    have b: "bs = []" using True by (simp add: bs_def)
    have r: "rwp (readCborInitial E c (memo s)) (\<lambda>(sw, c'). took_chunk bs c (memo s) sw c') status_word"
      using c unfolding b by (intro rwp_mono [OF readCborInitial_wp [OF platformD(1,2) [OF E] wc]]) auto
    have "wp (bind (update_hash E c ?u) (\<lambda>_ s. read_cbor (readCborInitial E c) s register_data_shown))
        (\<lambda>_ t. kept (register_flow E log) ?u t) (refused ?u)"
    proof (rule read_cbor_step [where h = "hdr @ [REGISTER_DATA] @ len @ bs"])
      fix c' t
      assume t: "took_chunk bs c (memo ?u) SWO_SUCCESS c'" "wf_app t"
        "t = set_cbor (\<lambda>_. c') (?u\<lparr> tx_hash := Some ((hdr @ [REGISTER_DATA] @ len @ bs) @ c) \<rparr>)"
      then show "wp (register_data_shown t) (\<lambda>_ t. kept (register_flow E log) ?u t) (refused ?u)"
        using go [of c' t] by (simp add: set_register_comp)
    qed (use h(1) r wf in \<open>simp_all add: wf_app_register\<close>)
    then show ?thesis
      using False True h(1)
      by (auto simp: register_data_packet_def Let_def set_register_hash split: if_splits)
  next
    case pay: False
    then have st': "rd_state (register s) = TX_REGISTER_DATA_PAYLOAD" and b: "bs = blob (memo s)"
      using st by (simp_all add: bs_def)
    show ?thesis
    proof (cases "rd_dataLength (register ?s) = 0")
      case True
      have same: "set_register (\<lambda>r. r\<lparr> rd_dataLength := rd_dataLength r - length c,
          rd_state := TX_REGISTER_DATA_PAYLOAD \<rparr>) s = ?s"
        using st' by (simp add: set_register_def set_blob_def)
      have "rwp (readCborContent E c (memo s)) (\<lambda>(sw, c'). took_chunk bs c (memo s) sw c') status_word"
        unfolding b by (rule readCborContent_wp [OF platformD(1,2) [OF E] wc])
      then have "wp (bind (update_hash E c ?s) (\<lambda>_ s. read_cbor (readCborContent E c) s register_data_shown))
          (\<lambda>_ t. kept (register_flow E log) ?s t) (refused ?s)"
        by (intro read_cbor_step [where h = "hdr @ [REGISTER_DATA] @ len @ bs"])
          (use h(1) wf go [unfolded same] in \<open>auto simp: wf_app_register\<close>)
      then show ?thesis
        using False True st' h(1) by (auto simp: register_data_packet_def Let_def split: if_splits)
    next
      case pending: False
      then show ?thesis
        using False st' h(1) wf_app_register [OF wf(1)]
        by (simp add: register_data_packet_def Let_def refused_self wf(1) refused_def wf_app_def)
    qed
  qed
qed

lemma register_handle:
  assumes E: "platform E" and wf: "wf_app s" "\<not> awaiting s"
    and c: "cmd_data c \<noteq> []" "length (cmd_data c) < 256"
    and st: "if initial then global s = wiped \<and> log = [] else register_flow E log s"
  shows "wp (handle_sign_register_data E c initial s) (\<lambda>_ t. kept (register_flow E log) s t) (refused s)"
proof -
  define u where "u = (if initial then set_register (\<lambda>r. r\<lparr> rd_state := TX_REGISTER_DATA_INITIAL \<rparr>) s else s)"
  have u: "wf_app u" "\<not> awaiting u" "refused u = refused s" "register_flow E log u"
    "\<And>invar t. kept invar u t = kept invar s t"
    using wf wf_app_register [OF wf(1)] st
    by (auto simp: u_def register_flow_def wiped_def)
  have log: "log = []" if "rd_state (register u) = TX_REGISTER_DATA_INITIAL"
    using u(2,4) that by (simp add: register_flow_def)
  have eq: "handle_sign_register_data E c initial s =
      (if cmd_p1 c = 0 \<and> rd_state (register u) = TX_REGISTER_DATA_INITIAL then register_open_packet E (cmd_data c) u
       else if cmd_p1 c = 1 then register_data_packet E (cmd_data c) u
       else Throw ERROR_INVALID_STATE u)"
    by (simp add: handle_sign_register_data_def u_def Let_def)
  show ?thesis
    unfolding eq
    using register_open [OF E u(1,2) c(2)] register_data [OF E u(1,2) c u(4)] refused_self [OF u(1)] log
    by (auto simp: u(3,5))
qed

text \<open>The callbacks of the two reviews.\<close>

lemma register_choices:
  assumes E: "platform E" and wf: "wf_app s" "\<not> awaiting s"
    and aw: "awaiting (s\<lparr> screen := Some rv \<rparr>)" and fl: "register_flow E log (s\<lparr> screen := Some rv \<rparr>)"
  shows "rv_callback rv = sendSuccessNoIdleCallback \<Longrightarrow>
      wp (choose_continue confirm s) (\<lambda>_ t. decided confirm (register_flow E (log @ [rv_pairs rv])) s t) (\<lambda>_ _. False)"
    "rv_callback rv = review_choice_sign \<Longrightarrow>
      wp (choose_sign E confirm s) (\<lambda>_ t. decided confirm (register_flow E (log @ [rv_pairs rv])) s t) (\<lambda>_ _. False)"
    "rv_callback rv = sendSuccessNoIdleCallback \<or> rv_callback rv = review_choice_sign"
proof -
  from fl consider (first) "register_first_up E log (s\<lparr> screen := Some rv \<rparr>) rv"
    | (asked) hdr len item where "register_asked E log (s\<lparr> screen := Some rv \<rparr>) hdr len item"
    unfolding register_flow_def if_P [OF aw] by auto
  then have "(rv_callback rv = sendSuccessNoIdleCallback \<and>
      wp (choose_continue confirm s) (\<lambda>_ t. decided confirm (register_flow E (log @ [rv_pairs rv])) s t) (\<lambda>_ _. False)) \<or>
    (rv_callback rv = review_choice_sign \<and>
      wp (choose_sign E confirm s) (\<lambda>_ t. decided confirm (register_flow E (log @ [rv_pairs rv])) s t) (\<lambda>_ _. False))"
  proof cases
    case first
    then have f: "log = []" "rv_callback rv = sendSuccessNoIdleCallback"
      "rd_state (register s) = TX_REGISTER_DATA_PAYLOAD_START" "register_head E [rv_pairs rv] s []"
      by (simp_all add: register_first_up_def)
    then have "register_flow E [rv_pairs rv] (s\<lparr> replies := r \<rparr>)" for r
      using wf(2) by (simp add: register_flow_def)
    then have "wp (choose_continue confirm s) (\<lambda>_ t. decided confirm (register_flow E [rv_pairs rv]) s t) (\<lambda>_ _. False)"
      by (intro wp_mono [OF choose_continue_wp [OF wf]]) (auto simp: decided_def settled_def)
    then show ?thesis using f by simp
  next
    case asked
    then have "asks_to_sign (s\<lparr> screen := Some rv \<rparr>) (hdr @ [REGISTER_DATA] @ len @ cbor_encode item)
      (memo_item_rows ''Data type'' ''Data'' item)" by (simp add: register_asked_def)
    then show ?thesis using sign_choice_kept [OF E wf] by blast
  qed
  then show "rv_callback rv = sendSuccessNoIdleCallback \<Longrightarrow>
      wp (choose_continue confirm s) (\<lambda>_ t. decided confirm (register_flow E (log @ [rv_pairs rv])) s t) (\<lambda>_ _. False)"
    "rv_callback rv = review_choice_sign \<Longrightarrow>
      wp (choose_sign E confirm s) (\<lambda>_ t. decided confirm (register_flow E (log @ [rv_pairs rv])) s t) (\<lambda>_ _. False)"
    "rv_callback rv = sendSuccessNoIdleCallback \<or> rv_callback rv = review_choice_sign"
    by auto
qed

end
