(* ===== verification/Payload.thy ===== *)
theory Payload
  imports RegisterData
begin

text \<open>
  What the transactions without a recipient share: the opening of deploy_module.c,
  init_contract.c and update_contract.c up to the payload, and the use of \<open>format_hex\<close>
  for the digests they show.
\<close>

subsection \<open>Operations\<close>

text \<open>The hash is started before the path is read; the result is the payload and the remaining
  length the handler counts with.\<close>

definition open_account_transaction :: "sdk \<Rightarrow> u8 \<Rightarrow> bytes \<Rightarrow> app \<Rightarrow> (bytes \<times> nat) act" where
  "open_account_transaction E kind cdata s =
     (let lc = length cdata in
      bind (init_tx_hash E s) (\<lambda>_ s.
      bind (parse_path cdata s) (\<lambda>offset s.
      if lc < offset then Throw SWO_INCORRECT_DATA s
      else
        let cdata = drop offset cdata; remainingDataLength = sub8 lc offset in
        bind (hashAccountTransactionHeaderAndKind E cdata kind s) (\<lambda>offset s.
        if remainingDataLength < offset then Throw SWO_INCORRECT_DATA s
        else Ret (drop offset cdata, sub8 remainingDataLength offset) s))))"

definition hex_into :: "sdk \<Rightarrow> u16 \<Rightarrow> bytes \<Rightarrow> bytes \<Rightarrow> bytes result" where
  "hex_into E error bs dst =
     (case sdk_format_hex E bs (length dst) of
        None \<Rightarrow> Err error | Some t \<Rightarrow> put dst 0 (t @ [0]))"

subsection \<open>Lemmas\<close>

lemma open_account_wp:
  assumes E: "platform E" and wf: "wf_app s" and len: "length c < 256"
  shows "wp (open_account_transaction E kind c s)
    (\<lambda>(rest, n) t. n = length rest \<and> (\<exists>ns hdr. header_done E ns hdr (hdr @ [kind]) s t \<and>
       c = path_bytes ns @ hdr @ [kind] @ rest)) (refused s)"
  unfolding open_account_transaction_def Let_def [of "length c"] wp_bind
proof (rule wp_init_step, goal_cases)
  case 1
  let ?s = "s\<lparr> tx_hash := Some [] \<rparr>"
  have ws: "wf_app ?s" and r: "refused ?s = refused s" using wf by (simp_all add: refused_def fun_eq_iff)
  show ?case
  proof (rule wp_mono [OF path_step [OF ws, unfolded r]], goal_cases)
    case (1 n t)
    then obtain ns where p: "path_done c ?s ns n t" by blast
    note pd = path_doneD [OF p ws]
    have n: "\<not> length c < n" using pd(5) by simp
    have h: "tx_hash t = Some []" using pd(4) by simp
    show ?case
      unfolding if_not_P [OF n] Let_def wp_bind
    proof (rule wp_mono [OF account_header_step [OF E ws len p h, where kind = kind, unfolded r]], goal_cases)
      case (2 m v)
      then obtain hdr rest where h: "header_done E ns hdr (hdr @ [kind]) ?s v" "m = 61" "n + 61 \<le> length c"
        "c = path_bytes ns @ hdr @ [kind] @ rest" "drop (61 + n) c = rest"
        "sub8 (sub8 (length c) n) 61 = length rest" by blast
      have "header_done E ns hdr (hdr @ [kind]) s v" using h(1) by (simp add: header_done_def)
      moreover have nm: "\<not> sub8 (length c) n < m" using h(2,3) len by simp
      moreover have d: "drop m (drop n c) = rest" "sub8 (sub8 (length c) n) m = length rest"
        using h(2,5,6) by simp_all
      ultimately show ?case unfolding if_not_P [OF nm] d wp.simps prod.case using h(4) by blast
    qed simp_all
  qed simp
qed (use refused_self [OF wf] in simp)

lemma refused_hash [simp]: "refused s e (t\<lparr> tx_hash := h \<rparr>) = refused s e t"
  by (simp add: refused_def)

lemma same_start:
  assumes "replies v = replies s" "screen v = screen s" "currentInstruction v = currentInstruction s"
  shows "kept flow v = kept flow s" "refused v = refused s"
  using assms by (simp_all add: kept_defs refused_def fun_eq_iff)

lemma length_upper_hex [simp]: "length (upper_hex bs) = 2 * length bs"
  by (induction bs) (simp_all add: upper_hex_def)

lemma hex_char_range:
  assumes "n < 16"
  shows "hex_char n \<noteq> 0" "0x20 \<le> hex_char n"
proof -
  have n: "unat n \<in> set [0..<16]" using assms by (simp add: word_less_nat_alt)
  have "\<forall>k \<in> set [0..<16]. hex_char (of_nat k) \<noteq> 0 \<and> 0x20 \<le> hex_char (of_nat k)"
    by (simp add: upt_rec hex_char_def)
  then have "hex_char (of_nat (unat n)) \<noteq> 0 \<and> 0x20 \<le> hex_char (of_nat (unat n))" using n by blast
  then show "hex_char n \<noteq> 0" "0x20 \<le> hex_char n" by simp_all
qed

lemma nibbles: "drop_bit 4 (b :: u8) < 16" "b AND 15 < 16"
proof -
  have "unat (drop_bit 4 b) = unat b div 16" unfolding unsigned_drop_bit_eq
    using unat_bounds(1) [of b] by (simp add: drop_bit_eq_div take_bit_nat_eq_self)
  then have "unat (drop_bit 4 b) < 16" using unat_bounds(1) [of b] by simp
  then show "drop_bit 4 b < 16" by (simp add: word_less_nat_alt)
  have "b AND 15 = take_bit 4 b" by (simp add: take_bit_eq_mask mask_eq_exp_minus_1)
  then have "unat (b AND 15) = take_bit 4 (unat b)" by (simp add: unsigned_take_bit_eq)
  then have "unat (b AND 15) < 16" using take_bit_nat_less_exp [of 4 "unat b"] by simp
  then show "b AND 15 < 16" by (simp add: word_less_nat_alt)
qed

lemma zero_notin_upper_hex [simp]: "0 \<notin> set (upper_hex bs)"
  using hex_char_range nibbles by (fastforce simp: upper_hex_def)

lemma hex_into_Ok:
  assumes "formats_hex E" "2 * length bs < length dst"
  shows "hex_into E e bs dst = Ok (upper_hex bs @ 0 # drop (2 * length bs + 1) dst)"
  using assms by (simp add: hex_into_def formats_hex_def put_Ok)

lemma number_text_zeros:
  assumes "formats_numbers E" "length (dec (unat v)) \<le> n"
  shows "number_to_text E (zeros n) v =
    Ok (dec (unat v) @ zeros (n - length (dec (unat v))), length (dec (unat v)))"
proof -
  have "rwp (number_to_text E (zeros n) v)
    (\<lambda>(dst', m). m = length (dec (unat v)) \<and> dst' = dec (unat v) @ zeros (n - length (dec (unat v))))
    (\<lambda>_. False)"
    using assms by (intro rwp_mono [OF number_to_text_wp]) (auto simp: zeros_def)
  then show ?thesis by (cases "number_to_text E (zeros n) v") auto
qed

lemma NUL_in_zeros [simp]: "0 \<in> set (zeros n) \<longleftrightarrow> 0 < n"
  by (auto simp: zeros_def)

text \<open>A signing review drawn over a state.\<close>

lemma sign_review_wp:
  assumes "drawable rows" "length rows \<le> 10" "0 \<in> set title" "0 \<in> set fin" "tx_hash s = Some m"
    "shown_rows rows = shown"
  shows "wp (nbgl_useCaseReview ty rows title subtitle fin review_choice_sign s)
    (\<lambda>_ t. asks_to_sign t m shown \<and> t = s\<lparr> screen := screen t, status_page := False \<rparr>) X"
  using assms by (simp add: use_case_defs asks_to_sign_def)

lemma zero_notin_payload_items [simp]:
  "0 \<notin> set (ascii ''Version'')" "0 \<notin> set (ascii ''Module hash'')" "0 \<notin> set (ascii ''Index'')"
  "0 \<notin> set (ascii ''Sub index'')" "0 \<notin> set (ascii ''Receive name'')" "0 \<notin> set (ascii ''Payload hash'')"
  "0 \<notin> set (ascii ''Module ref'')" "0 \<notin> set (ascii ''Contract name'')"
  by (simp_all add: ascii_def)

end
