(* ===== verification/DeployModule.thy ===== *)
theory DeployModule
  imports Payload
begin

text \<open>
  Deployment of a smart-contract module: src/src/handler/deploy_module.c.

  The source is streamed through two hashes; the review shows the digest of exactly the source
  bytes the transaction hash has absorbed.
\<close>

subsection \<open>Operations\<close>

abbreviation deploy :: "app \<Rightarrow> deployModule" where
  "deploy s \<equiv> deployModule (global s)"

definition set_deploy :: "(deployModule \<Rightarrow> deployModule) \<Rightarrow> app \<Rightarrow> app" where
  "set_deploy f s = s\<lparr> global := (global s)\<lparr> deployModule := f (deployModule (global s)) \<rparr> \<rparr>"

definition deploy_open_packet :: "sdk \<Rightarrow> bytes \<Rightarrow> app \<Rightarrow> unit act" where
  "deploy_open_packet E cdata s =
     bind (open_account_transaction E DEPLOY_MODULE cdata s) (\<lambda>(cdata, remainingDataLength) s.
     if remainingDataLength < 8 then Throw SWO_INCORRECT_DATA s
     else
       bind (hash_data E cdata 0 8 s) (\<lambda>_ s.
       call (U4BE cdata 0) s (\<lambda>version.
       call (U4BE cdata 4) s (\<lambda>sourceLength.
       let s = set_deploy (\<lambda>c. c\<lparr> dm_version := version, dm_sourceLength := unat sourceLength,
                 dm_remainingSourceLength := unat sourceLength \<rparr>) s in
       call (new_hash E) s (\<lambda>h.
       let s = set_deploy (\<lambda>c. c\<lparr> dm_sourceHashCtx := h,
                 dm_sourceHashDisplay := zeros (length (dm_sourceHashDisplay c)) \<rparr>) s in
       call (number_to_text E (dm_versionDisplay (deploy s)) (ucast version)) s (\<lambda>(versionDisplay, _).
       send_success_no_idle (set_deploy (\<lambda>c. c\<lparr> dm_versionDisplay := versionDisplay \<rparr>) s)))))))"

definition deploy_source_packet :: "sdk \<Rightarrow> bytes \<Rightarrow> app \<Rightarrow> unit act" where
  "deploy_source_packet E cdata s =
     (let lc = length cdata in
      if dm_remainingSourceLength (deploy s) < lc then Throw ERROR_INVALID_SOURCE_LENGTH s
      else
        bind (update_hash E cdata s) (\<lambda>_ s.
        call (update_ctx E (dm_sourceHashCtx (deploy s)) cdata) s (\<lambda>h.
        let s = set_deploy (\<lambda>c. c\<lparr> dm_sourceHashCtx := h,
                  dm_remainingSourceLength := dm_remainingSourceLength c - lc \<rparr>) s in
        if 0 < dm_remainingSourceLength (deploy s) then send_success_no_idle s
        else
          call (final_ctx E (dm_sourceHashCtx (deploy s))) s (\<lambda>digest.
          let s = set_deploy (\<lambda>c. c\<lparr> dm_sourceHashCtx := None, dm_sourceHash := digest \<rparr>) s in
          call (hex_into E ERROR_BUFFER_OVERFLOW (dm_sourceHash (deploy s))
                  (dm_sourceHashDisplay (deploy s))) s (\<lambda>sourceHashDisplay.
          uiDeployModuleDisplay
            (set_deploy (\<lambda>c. c\<lparr> dm_sourceHashDisplay := sourceHashDisplay \<rparr>) s))))))"

definition handle_deploy_module :: "sdk \<Rightarrow> command \<Rightarrow> bool \<Rightarrow> app \<Rightarrow> unit act" where
  "handle_deploy_module E cmd isInitialCall s =
     (let cdata = cmd_data cmd; p1 = cmd_p1 cmd in
      if p1 = 0 \<and> isInitialCall then deploy_open_packet E cdata s
      else if p1 = 1 \<and> 0 < dm_remainingSourceLength (deploy s) then deploy_source_packet E cdata s
      else Throw ERROR_INVALID_STATE s)"

subsection \<open>Frames\<close>

lemma set_deploy_simps [simp]:
  "deploy (set_deploy f s) = f (deploy s)" "tx_hash (set_deploy f s) = tx_hash s"
  "replies (set_deploy f s) = replies s" "screen (set_deploy f s) = screen s"
  "currentInstruction (set_deploy f s) = currentInstruction s"
  "global_derivation_path (set_deploy f s) = global_derivation_path s"
  "global_account_sender (set_deploy f s) = global_account_sender s"
  "header_shown E hdr (set_deploy f s) = header_shown E hdr s"
  "awaiting (set_deploy f s) = awaiting s" "refused s' e (set_deploy f s) = refused s' e s"
  "(set_deploy f s)\<lparr> tx_hash := h \<rparr> = set_deploy f (s\<lparr> tx_hash := h \<rparr>)"
  by (simp_all add: set_deploy_def awaiting_def refused_def)

lemma wf_app_deploy: "wf_app s \<Longrightarrow> wf_deploy (f (deploy s)) \<Longrightarrow> wf_app (set_deploy f s)"
  by (simp add: set_deploy_def wf_app_def wf_context_def)

lemma wf_deploy_app: "wf_app s \<Longrightarrow> wf_deploy (deploy s)"
  by (simp add: wf_app_def wf_context_def)

subsection \<open>The flow\<close>

definition deploy_rows :: "sdk \<Rightarrow> bytes \<Rightarrow> derivation_path \<Rightarrow> bytes \<Rightarrow> bytes \<Rightarrow> (bytes \<times> bytes) list" where
  "deploy_rows E hdr p version digest = header_pairs E ''Sender'' hdr p @
     [(ascii ''Version'', dec (be_nat version)), (ascii ''Module hash'', upper_hex digest)]"

text \<open>The source bytes \<open>src\<close> were absorbed by both hashes.\<close>

definition deploy_head :: "sdk \<Rightarrow> app \<Rightarrow> bytes \<Rightarrow> bytes \<Rightarrow> bytes \<Rightarrow> bytes \<Rightarrow> bool" where
  "deploy_head E s hdr version len src \<longleftrightarrow> header_shown E hdr s \<and> length version = 4 \<and>
     length len = 4 \<and> be_nat len = length src + dm_remainingSourceLength (deploy s) \<and>
     tx_hash s = Some (hdr @ [DEPLOY_MODULE] @ version @ len @ src) \<and>
     dm_sourceHashCtx (deploy s) = Some src \<and> cstr (dm_versionDisplay (deploy s)) = dec (be_nat version)"

definition deploy_asked :: "sdk \<Rightarrow> app \<Rightarrow> bytes \<Rightarrow> bytes \<Rightarrow> bytes \<Rightarrow> bytes \<Rightarrow> bytes \<Rightarrow> bool" where
  "deploy_asked E s hdr version len src digest \<longleftrightarrow> header_shown E hdr s \<and> length version = 4 \<and>
     length len = 4 \<and> be_nat len = length src \<and> sdk_hash_final E src = Some digest \<and>
     asks_to_sign s (hdr @ [DEPLOY_MODULE] @ version @ len @ src)
       (deploy_rows E hdr (global_derivation_path s) version digest)"

definition deploy_flow :: "sdk \<Rightarrow> app \<Rightarrow> bool" where
  "deploy_flow E s \<longleftrightarrow>
     (if awaiting s then \<exists>hdr version len src digest. deploy_asked E s hdr version len src digest
      else 0 < dm_remainingSourceLength (deploy s) \<longrightarrow>
        (\<exists>hdr version len src. deploy_head E s hdr version len src))"

lemma deploy_open:
  assumes E: "platform E" and wf: "wf_app s" "\<not> awaiting s" and len: "length c < 256"
    and g: "global s = wiped"
  shows "wp (deploy_open_packet E c s) (\<lambda>_ t. kept (deploy_flow E) s t) (refused s)"
  unfolding deploy_open_packet_def wp_bind
proof (rule wp_mono [OF open_account_wp [OF E wf(1) len]], goal_cases)
  case (1 a t)
  obtain rest n where a: "a = (rest, n)" by (cases a)
  from 1 a obtain ns hdr where n: "n = length rest" and h: "header_done E ns hdr (hdr @ [DEPLOY_MODULE]) s t"
    by auto
  note hd = header_doneD [OF h]
  have refuse: "refused s e t" if "status_word e" for e using that hd by (simp add: refused_def wf_app_def)
  show ?case
  proof (cases "length rest < 8")
    case True
    then show ?thesis by (simp add: a n refuse)
  next
    case False
    let ?v = "take 4 rest" and ?l = "take 4 (drop 4 rest)"
    have v: "unat (of_nat (be_nat ?v) :: u32) = be_nat ?v" "unat (of_nat (be_nat ?l) :: u32) = be_nat ?l"
      using False be_nat_bound [of ?v] be_nat_bound [of ?l] by (simp_all add: unsigned_of_nat take_bit_nat_eq_self)
    have vl: "take 8 rest = ?v @ ?l" using take_add [of 4 4 rest] by simp
    have vd: "dm_versionDisplay (deploy s) = zeros 11" using g by (simp add: wiped_def wiped_deploy_def)
    have d: "length (dec (be_nat ?v)) \<le> 10" using length_dec_u32 [of "of_nat (be_nat ?v)"] v(1) by simp
    have nt: "number_to_text E (zeros 11) (ucast (of_nat (be_nat ?v) :: u32)) =
        Ok (dec (be_nat ?v) @ zeros (11 - length (dec (be_nat ?v))), length (dec (be_nat ?v)))"
      using number_text_zeros [OF platformD(4) [OF E], of "ucast (of_nat (be_nat ?v) :: u32)" 11] d v(1) by simp
    let ?u = "set_deploy (\<lambda>c. c\<lparr> dm_versionDisplay := dec (be_nat ?v) @ zeros (11 - length (dec (be_nat ?v))) \<rparr>)
      (set_deploy (\<lambda>c. c\<lparr> dm_sourceHashCtx := Some [], dm_sourceHashDisplay := zeros (length (dm_sourceHashDisplay c)) \<rparr>)
        (set_deploy (\<lambda>c. c\<lparr> dm_version := of_nat (be_nat ?v), dm_sourceLength := be_nat ?l,
          dm_remainingSourceLength := be_nat ?l \<rparr>) (t\<lparr> tx_hash := Some (hdr @ [DEPLOY_MODULE] @ ?v @ ?l) \<rparr>)))"
    have wu: "wf_app ?u"
      using hd(5) wf_deploy_app [OF hd(5)] d by (intro wf_app_deploy) (simp_all add: wf_deploy_def cbuf_def)
    have "deploy_head E (?u\<lparr> replies := r \<rparr>) hdr ?v ?l []" for r
      using hd(3) False by (simp add: deploy_head_def)
    then have "deploy_flow E (?u\<lparr> replies := r \<rparr>)" for r
      using wf(2) hd(8) by (simp add: deploy_flow_def awaiting_def) blast
    then have "kept (deploy_flow E) s (?u\<lparr> replies := replies s @ [([], SWO_SUCCESS)] \<rparr>)"
      using wu wf(2) hd by (intro kept_reply) (simp_all add: awaiting_def)
    then show ?thesis
      using False hd v
      by (simp add: a n hash_data_wp [where h = "hdr @ [DEPLOY_MODULE]"] refuse U4BE_def slice_Ok vl vd nt Let_def)
  qed
qed

lemma deploy_screen:
  assumes "deploy_head E s hdr version len src" "dm_remainingSourceLength (deploy s) = 0" "wf_app s"
    "sdk_hash_final E src = Some digest" "cstr display = upper_hex digest" "0 \<in> set display"
    "t = set_deploy (\<lambda>c. c\<lparr> dm_sourceHashDisplay := display \<rparr>)
      (set_deploy (\<lambda>c. c\<lparr> dm_sourceHashCtx := None, dm_sourceHash := digest \<rparr>) s)"
  shows "wp (uiDeployModuleDisplay t)
    (\<lambda>_ u. deploy_asked E u hdr version len src digest \<and> u = t\<lparr> screen := screen u, status_page := False \<rparr>) X"
proof -
  have hs: "header_shown E hdr t" using assms(1,7) by (simp add: deploy_head_def)
  have d: "0 \<in> set (dm_versionDisplay (deploy s))" "wf_sender (global_account_sender s)"
    using assms(3) wf_deploy_app [OF assms(3)] by (simp_all add: wf_deploy_def cbuf_def wf_app_def)
  show ?thesis
    unfolding uiDeployModuleDisplay_def Let_def
    by (rule wp_mono [OF sign_review_wp [where m = "hdr @ [DEPLOY_MODULE] @ version @ len @ src"
          and shown = "deploy_rows E hdr (global_derivation_path s) version digest"]])
      (use assms d hs header_shown_pairs [OF hs, of "''Sender''"] in
        \<open>auto simp: deploy_head_def deploy_rows_def deploy_asked_def asks_to_sign_def\<close>)
qed

lemma deploy_source:
  assumes E: "platform E" and wf: "wf_app s" "\<not> awaiting s" and fl: "deploy_flow E s"
    and pos: "0 < dm_remainingSourceLength (deploy s)"
  shows "wp (deploy_source_packet E c s) (\<lambda>_ t. kept (deploy_flow E) s t) (refused s)"
proof (cases "dm_remainingSourceLength (deploy s) < length c")
  case True
  then show ?thesis using refused_self [OF wf(1)] by (simp add: deploy_source_packet_def)
next
  case False
  obtain hdr version len src where h: "deploy_head E s hdr version len src"
    using fl wf(2) pos by (auto simp: deploy_flow_def)
  let ?m = "hdr @ [DEPLOY_MODULE] @ version @ len @ src"
  let ?u = "set_deploy (\<lambda>d. d\<lparr> dm_sourceHashCtx := Some (src @ c),
    dm_remainingSourceLength := dm_remainingSourceLength d - length c \<rparr>) (s\<lparr> tx_hash := Some (?m @ c) \<rparr>)"
  have m: "tx_hash s = Some ?m" "dm_sourceHashCtx (deploy s) = Some src"
    using h by (simp_all add: deploy_head_def)
  have hu: "deploy_head E (?u\<lparr> replies := r \<rparr>) hdr version len (src @ c)" for r
    using h False by (simp add: deploy_head_def)
  have wu: "wf_app ?u" using wf(1) wf_deploy_app [OF wf(1)]
    by (intro wf_app_deploy) (simp_all add: wf_deploy_def)
  have refuse: "refused s e s" "refused s e (s\<lparr> tx_hash := h \<rparr>)" if "status_word e" for e h
    using that refused_self [OF wf(1)] by simp_all
  show ?thesis
  proof (cases "dm_remainingSourceLength (deploy s) - length c = 0")
    case more: False
    have "deploy_flow E (?u\<lparr> replies := r \<rparr>)" for r
      using hu [of r] wf(2) more by (auto simp: deploy_flow_def)
    then have "kept (deploy_flow E) s (?u\<lparr> replies := replies s @ [([], SWO_SUCCESS)] \<rparr>)"
      using wu wf(2) by (intro kept_reply) simp_all
    then show ?thesis
      using False m more by (simp add: deploy_source_packet_def Let_def refuse)
  next
    case True
    have z: "dm_remainingSourceLength (deploy ?u) = 0" using True by simp
    have go: "wp (call (hex_into E ERROR_BUFFER_OVERFLOW digest (dm_sourceHashDisplay (deploy s))) t
        (\<lambda>d. uiDeployModuleDisplay (set_deploy (\<lambda>c. c\<lparr> dm_sourceHashDisplay := d \<rparr>) t)))
        (\<lambda>_ t. kept (deploy_flow E) s t) (refused s)"
      if d: "sdk_hash_final E (src @ c) = Some digest"
        and t: "t = set_deploy (\<lambda>c. c\<lparr> dm_sourceHashCtx := None, dm_sourceHash := digest \<rparr>) ?u" for digest t
    proof -
      have l: "length digest = 32" using platformD(6) [OF E] d by (auto simp: digests_def)
      have b: "length (dm_sourceHashDisplay (deploy s)) = 65"
        using wf_deploy_app [OF wf(1)] by (simp add: wf_deploy_def cbuf_def)
      let ?d = "upper_hex digest @ 0 # drop 65 (dm_sourceHashDisplay (deploy s))"
      have hx: "hex_into E ERROR_BUFFER_OVERFLOW digest (dm_sourceHashDisplay (deploy s)) = Ok ?d"
        using hex_into_Ok [OF platformD(5) [OF E]] l b by simp
      let ?t = "set_deploy (\<lambda>c. c\<lparr> dm_sourceHashDisplay := ?d \<rparr>) t"
      have wt: "wf_app ?t" unfolding t using wf(1) wf_deploy_app [OF wf(1)] l b
        by (intro wf_app_deploy) (simp_all add: wf_deploy_def)
      have "wp (uiDeployModuleDisplay ?t) (\<lambda>_ t. kept (deploy_flow E) s t) (refused s)"
      proof (rule wp_mono [OF deploy_screen [where X = "refused s" and hdr = hdr and version = version and len = len
              and display = ?d and t = ?t, OF _ z wu d]], goal_cases)
        case (5 a w)
        define sc where "sc = screen w"
        have w: "w = ?t\<lparr> screen := sc, status_page := False \<rparr>" using 5 sc_def by blast
        have aw: "awaiting w" using 5 by (auto simp: deploy_asked_def intro: asks_awaiting)
        have "deploy_flow E w" unfolding deploy_flow_def if_P [OF aw] using 5 by blast
        then show ?case using aw wt by (intro kept_review) (simp_all add: w t)
      qed (use hu [of "replies s"] t in \<open>simp_all add: deploy_head_def\<close>)
      then show ?thesis by (simp add: hx)
    qed
    have fin: "rwp (final_ctx E (Some (src @ c))) (\<lambda>d. length d = 32 \<and> sdk_hash_final E (src @ c) = Some d)
        (\<lambda>e. e = ERROR_FAILED_CX_OPERATION)"
      by (rule rwp_final_ctx [OF platformD(6) [OF E]])
    show ?thesis
    proof (cases "final_ctx E (Some (src @ c))")
      case (Ok digest)
      then have "sdk_hash_final E (src @ c) = Some digest" using fin by simp
      from go [OF this refl] Ok show ?thesis
        using False m True by (simp add: deploy_source_packet_def Let_def refuse)
    qed (use fin False m True in \<open>simp_all add: deploy_source_packet_def Let_def refuse\<close>)
  qed
qed

lemma deploy_handle:
  assumes E: "platform E" and wf: "wf_app s" "\<not> awaiting s" and len: "length (cmd_data c) < 256"
    and st: "if initial then global s = wiped else deploy_flow E s"
  shows "wp (handle_deploy_module E c initial s) (\<lambda>_ t. kept (deploy_flow E) s t) (refused s)"
proof -
  have fl: "deploy_flow E s" using st wf(2) by (auto simp: deploy_flow_def wiped_def wiped_deploy_def split: if_splits)
  show ?thesis
    using deploy_open [OF E wf len] deploy_source [OF E wf fl] st refused_self [OF wf(1)]
    by (simp add: handle_deploy_module_def Let_def)
qed

lemma deploy_choice:
  assumes "platform E" "wf_app s" "\<not> awaiting s" "awaiting (s\<lparr> screen := Some rv \<rparr>)"
    "deploy_flow E (s\<lparr> screen := Some rv \<rparr>)"
  shows "rv_callback rv = review_choice_sign"
    "wp (choose_sign E confirm s) (\<lambda>_ t. decided confirm (deploy_flow E) s t) (\<lambda>_ _. False)"
proof -
  obtain m rows where "asks_to_sign (s\<lparr> screen := Some rv \<rparr>) m rows"
    using assms(5) unfolding deploy_flow_def if_P [OF assms(4)] deploy_asked_def by blast
  then show "rv_callback rv = review_choice_sign"
    "wp (choose_sign E confirm s) (\<lambda>_ t. decided confirm (deploy_flow E) s t) (\<lambda>_ _. False)"
    using sign_choice_kept [OF assms(1-3)] by blast+
qed

subsection \<open>The contract\<close>

interpretation deploy_sign: sign_flow handle_deploy_module deploy_flow
proof (unfold_locales, goal_cases)
  case (1 E s c initial)
  then show ?case by (intro deploy_handle)
next
  case (2 E s rv confirm)
  then show ?case using deploy_choice by blast
next
  case (3 E s b rs)
  have "deploy_head E (s\<lparr> screen := None, status_page := b \<rparr>) = deploy_head E s"
    "deploy_head E (s\<lparr> replies := rs \<rparr>) = deploy_head E s"
    by (simp_all add: deploy_head_def fun_eq_iff)
  then show ?case using 3 by (auto simp: deploy_flow_def)
next
  case (4 s E)
  then show ?case by (simp add: deploy_flow_def wiped_def wiped_deploy_def)
qed

end
