(* ===== verification/Contracts.thy ===== *)
theory Contracts
  imports DeployModule
begin

text \<open>
  Initialisation and update of smart contracts: src/src/handler/init_contract.c and
  src/src/handler/update_contract.c.

  The two handlers differ in their first packet and treat the name and the parameters alike, each
  in its own member of the union.  The operations on the name and the parameters take the access
  to that member as an argument; the locale \<open>contract_member\<close> states what such an access promises,
  holds the invariant of the streamed input, and is interpreted for both members.
\<close>

subsection \<open>Name and parameters\<close>

type_synonym input_setter = "(contractInput \<Rightarrow> contractInput) \<Rightarrow> instructionContext \<Rightarrow> instructionContext"

definition on_input :: "input_setter \<Rightarrow> (contractInput \<Rightarrow> contractInput) \<Rightarrow> app \<Rightarrow> app" where
  "on_input setter f s = s\<lparr> global := setter f (global s) \<rparr>"

text \<open>The end of the first packet: both texts are cleared and the digest is started.\<close>

definition contract_start_input :: "sdk \<Rightarrow> input_setter \<Rightarrow> app \<Rightarrow> unit act" where
  "contract_start_input E setter s =
     (let s = on_input setter (\<lambda>c. c\<lparr> ci_state := CONTRACT_NAME_FIRST,
                ci_nameDisplay := zeros (length (ci_nameDisplay c)),
                ci_paramsHashDisplay := zeros (length (ci_paramsHashDisplay c)) \<rparr>) s in
      call (new_hash E) s (\<lambda>h.
      send_success_no_idle (on_input setter (\<lambda>c. c\<lparr> ci_paramsHashCtx := h \<rparr>) s)))"

text \<open>A chunk of the name is digested, and kept while the whole name fits.\<close>

definition contract_keep_name ::
    "sdk \<Rightarrow> (instructionContext \<Rightarrow> contractInput) \<Rightarrow> input_setter \<Rightarrow> bytes \<Rightarrow> app \<Rightarrow> unit act" where
  "contract_keep_name E getter setter chunk s =
     call (update_ctx E (ci_paramsHashCtx (getter (global s))) chunk) s (\<lambda>h.
     let s = on_input setter (\<lambda>c. c\<lparr> ci_paramsHashCtx := h \<rparr>) s; c = getter (global s) in
     if ci_nameLength c < length (ci_nameDisplay c) then
       let used = ci_nameDisplayUsed c in
       call (put (ci_nameDisplay c) used chunk) s (\<lambda>d.
       call (put d (used + length chunk) [0]) s (\<lambda>d.
       Ret () (on_input setter (\<lambda>c. c\<lparr> ci_nameDisplay := d, ci_nameDisplayUsed := used + length chunk \<rparr>) s)))
     else Ret () s)"

text \<open>The length in front of the name or of the parameters is in their first chunk; the result is
  the number of its bytes in this chunk.\<close>

definition contract_name_length ::
    "(instructionContext \<Rightarrow> contractInput) \<Rightarrow> input_setter \<Rightarrow> bytes \<Rightarrow> app \<Rightarrow> nat act" where
  "contract_name_length getter setter cdata s =
     (let lc = length cdata; lengthSize = 2 in
      if ci_state (getter (global s)) = CONTRACT_NAME_FIRST then
        if lc < 2 then Throw SWO_INCORRECT_DATA s
        else call (U2BE cdata 0) s (\<lambda>n.
          let s = on_input setter (\<lambda>c. c\<lparr> ci_nameLength := unat n,
                    ci_remainingNameLength := unat n + lengthSize \<rparr>) s in
          if ci_remainingNameLength (getter (global s)) < lc then Throw ERROR_INVALID_NAME_LENGTH s
          else Ret lengthSize (on_input setter (\<lambda>c. c\<lparr> ci_state := CONTRACT_NAME_NEXT \<rparr>) s))
      else if ci_remainingNameLength (getter (global s)) < lc then Throw ERROR_INVALID_NAME_LENGTH s
      else Ret 0 s)"

definition contract_params_length ::
    "(instructionContext \<Rightarrow> contractInput) \<Rightarrow> input_setter \<Rightarrow> bytes \<Rightarrow> app \<Rightarrow> nat act" where
  "contract_params_length getter setter cdata s =
     (let lc = length cdata; lengthSize = 2 in
      if ci_state (getter (global s)) = CONTRACT_PARAMS_FIRST then
        if lc < 2 then Throw SWO_INCORRECT_DATA s
        else call (U2BE cdata 0) s (\<lambda>n.
          let s = on_input setter (\<lambda>c. c\<lparr> ci_paramsLength := unat n,
                    ci_remainingParamsLength := unat n + lengthSize \<rparr>) s in
          if ci_remainingParamsLength (getter (global s)) < lc then Throw ERROR_INVALID_PARAMS_LENGTH s
          else Ret lengthSize (on_input setter (\<lambda>c. c\<lparr> ci_state := CONTRACT_PARAMS_NEXT \<rparr>) s))
      else if ci_remainingParamsLength (getter (global s)) < lc then Throw ERROR_INVALID_PARAMS_LENGTH s
      else Ret 0 s)"

text \<open>A name that does not fit is replaced as a whole.\<close>

definition contract_end_name ::
    "(instructionContext \<Rightarrow> contractInput) \<Rightarrow> input_setter \<Rightarrow> app \<Rightarrow> unit act" where
  "contract_end_name getter setter s =
     (let c = getter (global s) in
      call (if length (ci_nameDisplay c) \<le> ci_nameLength c
            then put (ci_nameDisplay c) 0 (ascii ''(too long to display - see hash)'' @ [0])
            else Ok (ci_nameDisplay c)) s (\<lambda>d.
      send_success_no_idle
        (on_input setter (\<lambda>c. c\<lparr> ci_nameDisplay := d, ci_state := CONTRACT_PARAMS_FIRST \<rparr>) s)))"

definition contract_name_packet ::
    "sdk \<Rightarrow> (instructionContext \<Rightarrow> contractInput) \<Rightarrow> input_setter \<Rightarrow> bytes \<Rightarrow> app \<Rightarrow> unit act" where
  "contract_name_packet E getter setter cdata s =
     (let lc = length cdata in
      bind (contract_name_length getter setter cdata s) (\<lambda>nameOffset s.
      let name = drop nameOffset cdata in
      if nameOffset < lc \<and> \<not> is_displayable_text name then send_rejection ERROR_INVALID_TRANSACTION s
      else
        bind (update_hash E cdata s) (\<lambda>_ s.
        bind (if nameOffset < lc then contract_keep_name E getter setter name s else Ret () s) (\<lambda>_ s.
        let s = on_input setter (\<lambda>c. c\<lparr> ci_remainingNameLength := ci_remainingNameLength c - lc \<rparr>) s in
        if 0 < ci_remainingNameLength (getter (global s)) then send_success_no_idle s
        else contract_end_name getter setter s))))"

definition contract_end_params ::
    "sdk \<Rightarrow> (instructionContext \<Rightarrow> contractInput) \<Rightarrow> input_setter \<Rightarrow> (app \<Rightarrow> unit act) \<Rightarrow> app \<Rightarrow> unit act" where
  "contract_end_params E getter setter draw s =
     call (final_ctx E (ci_paramsHashCtx (getter (global s)))) s (\<lambda>paramsHash.
     let s = on_input setter (\<lambda>c. c\<lparr> ci_paramsHashCtx := None \<rparr>) s in
     call (hex_into E ERROR_BUFFER_OVERFLOW paramsHash (ci_paramsHashDisplay (getter (global s)))) s
       (\<lambda>paramsHashDisplay.
     draw (on_input setter (\<lambda>c. c\<lparr> ci_paramsHashDisplay := paramsHashDisplay \<rparr>) s)))"

definition contract_params_packet ::
    "sdk \<Rightarrow> (instructionContext \<Rightarrow> contractInput) \<Rightarrow> input_setter \<Rightarrow> (app \<Rightarrow> unit act) \<Rightarrow> bytes \<Rightarrow>
      app \<Rightarrow> unit act" where
  "contract_params_packet E getter setter draw cdata s =
     (let lc = length cdata in
      bind (contract_params_length getter setter cdata s) (\<lambda>paramsOffset s.
      bind (update_hash E cdata s) (\<lambda>_ s.
      bind (if paramsOffset < lc
            then call (update_ctx E (ci_paramsHashCtx (getter (global s))) (drop paramsOffset cdata)) s
              (\<lambda>h. Ret () (on_input setter (\<lambda>c. c\<lparr> ci_paramsHashCtx := h \<rparr>) s))
            else Ret () s) (\<lambda>_ s.
      let s = on_input setter (\<lambda>c. c\<lparr> ci_remainingParamsLength := ci_remainingParamsLength c - lc \<rparr>) s in
      if 0 < ci_remainingParamsLength (getter (global s)) then send_success_no_idle s
      else contract_end_params E getter setter draw s))))"

subsection \<open>The invariant of the input\<close>

text \<open>What the review shows for a name: the name itself, or a notice in its place.\<close>

definition name_text :: "bytes \<Rightarrow> bytes" where
  "name_text name = (if length name < 256 then name else ascii ''(too long to display - see hash)'')"

definition name_kept :: "contractInput \<Rightarrow> bytes \<Rightarrow> bool" where
  "name_kept c name \<longleftrightarrow> ci_paramsHashCtx c = Some name \<and> is_displayable_text name \<and>
     (ci_nameLength c < 256 \<longrightarrow> ci_nameDisplayUsed c = length name \<and> (\<exists>r. ci_nameDisplay c = name @ 0 # r))"

definition named :: "contractInput \<Rightarrow> bytes \<Rightarrow> bytes \<Rightarrow> bool" where
  "named c nl name \<longleftrightarrow> length nl = 2 \<and> be_nat nl = length name \<and> is_displayable_text name \<and>
     cstr (ci_nameDisplay c) = name_text name \<and> ci_remainingNameLength c = 0"

text \<open>The bytes absorbed after the prefix \<open>pre\<close>, state by state.\<close>

definition contract_phase :: "contractInput \<Rightarrow> bytes \<Rightarrow> bytes \<Rightarrow> bool" where
  "contract_phase c pre m \<longleftrightarrow> (case ci_state c of
       CONTRACT_NAME_FIRST \<Rightarrow> m = pre \<and> ci_paramsHashCtx c = Some [] \<and> ci_nameDisplay c = zeros 256 \<and>
         ci_nameDisplayUsed c = 0 \<and> ci_remainingNameLength c = 0 \<and> ci_remainingParamsLength c = 0
     | CONTRACT_NAME_NEXT \<Rightarrow> ci_remainingParamsLength c = 0 \<and> (\<exists>nl name. m = pre @ nl @ name \<and> length nl = 2 \<and>
         be_nat nl = ci_nameLength c \<and> length name + ci_remainingNameLength c = ci_nameLength c \<and> name_kept c name)
     | CONTRACT_PARAMS_FIRST \<Rightarrow> ci_remainingParamsLength c = 0 \<and> (\<exists>nl name. m = pre @ nl @ name \<and>
         named c nl name \<and> ci_paramsHashCtx c = Some name)
     | CONTRACT_PARAMS_NEXT \<Rightarrow> (\<exists>nl name pl ps. m = pre @ nl @ name @ pl @ ps \<and> named c nl name \<and>
         length pl = 2 \<and> be_nat pl = length ps + ci_remainingParamsLength c \<and>
         ci_paramsHashCtx c = Some (name @ ps))
     | _ \<Rightarrow> False)"

text \<open>The complete input, with the texts the review shows for it.\<close>

definition contract_complete :: "sdk \<Rightarrow> contractInput \<Rightarrow> bytes \<Rightarrow> bytes \<Rightarrow> bytes \<Rightarrow> bytes \<Rightarrow> bool" where
  "contract_complete E c nl name pl ps \<longleftrightarrow> named c nl name \<and> length pl = 2 \<and> be_nat pl = length ps \<and>
     (\<exists>digest. sdk_hash_final E (name @ ps) = Some digest \<and> cstr (ci_paramsHashDisplay c) = upper_hex digest)"

definition input_bytes :: "bytes \<Rightarrow> bytes \<Rightarrow> bytes \<Rightarrow> bytes \<Rightarrow> bytes \<Rightarrow> sdk \<Rightarrow> bool" where
  "input_bytes nl name pl ps digest E \<longleftrightarrow> length nl = 2 \<and> be_nat nl = length name \<and>
     is_displayable_text name \<and> length pl = 2 \<and> be_nat pl = length ps \<and>
     sdk_hash_final E (name @ ps) = Some digest"

definition same_head :: "app \<Rightarrow> app \<Rightarrow> bool" where
  "same_head s t \<longleftrightarrow> global_derivation_path t = global_derivation_path s \<and>
     global_account_sender t = global_account_sender s"

lemma same_head_refl [simp]: "same_head s s"
  by (simp add: same_head_def)

lemma same_head_header: "same_head s t \<Longrightarrow> header_shown E hdr t = header_shown E hdr s"
  by (simp add: same_head_def header_shown_def)

locale contract_member =
  fixes getter :: "instructionContext \<Rightarrow> contractInput"
    and setter :: input_setter
    and others :: "instructionContext \<Rightarrow> bytes list"
  assumes get_set: "getter (setter f g) = f (getter g)"
    and others_set: "others (setter f g) = others g"
    and set_set: "setter f (setter f' g) = setter (\<lambda>c. f (f' c)) g"
    and set_id: "setter (\<lambda>c. c) g = g"
    and set_cong: "f (getter g) = f' (getter g) \<Longrightarrow> setter f g = setter f' g"
    and wf_get: "wf_context g \<Longrightarrow> wf_input (getter g)"
    and wf_set: "wf_context g \<Longrightarrow> wf_input (f (getter g)) \<Longrightarrow> wf_context (setter f g)"
begin

lemma on_simps [simp]:
  "getter (global (on_input setter f s)) = f (getter (global s))"
  "others (global (on_input setter f s)) = others (global s)"
  "tx_hash (on_input setter f s) = tx_hash s" "replies (on_input setter f s) = replies s"
  "screen (on_input setter f s) = screen s" "currentInstruction (on_input setter f s) = currentInstruction s"
  "global_derivation_path (on_input setter f s) = global_derivation_path s"
  "global_account_sender (on_input setter f s) = global_account_sender s"
  "same_head s' (on_input setter f s) = same_head s' s" "awaiting (on_input setter f s) = awaiting s"
  "refused s' e (on_input setter f s) = refused s' e s"
  "on_input setter f (on_input setter f' s) = on_input setter (\<lambda>c. f (f' c)) s"
  "on_input setter (\<lambda>c. c) s = s"
  "(on_input setter f s)\<lparr> tx_hash := h \<rparr> = on_input setter f (s\<lparr> tx_hash := h \<rparr>)"
  by (simp_all add: on_input_def get_set others_set set_set set_id same_head_def awaiting_def refused_def)

lemma wf_on: "wf_app s \<Longrightarrow> wf_input (f (getter (global s))) \<Longrightarrow> wf_app (on_input setter f s)"
  by (simp add: wf_app_def on_input_def wf_set)

lemma wf_input_app: "wf_app s \<Longrightarrow> wf_input (getter (global s))"
  by (simp add: wf_app_def wf_get)

lemma start_input:
  assumes "wf_app s" "\<not> awaiting s" and z: "ci_nameDisplayUsed (getter (global s)) = 0"
      "ci_remainingNameLength (getter (global s)) = 0" "ci_remainingParamsLength (getter (global s)) = 0"
    and m: "tx_hash s = Some pre"
    and fl: "\<And>t. contract_phase (getter (global t)) pre pre \<Longrightarrow> tx_hash t = Some pre \<Longrightarrow> same_head s t \<Longrightarrow>
      \<not> awaiting t \<Longrightarrow> others (global t) = others (global s) \<Longrightarrow> flow t"
  shows "wp (contract_start_input E setter s) (\<lambda>_ t. kept flow s t) (refused s)"
proof -
  let ?u = "on_input setter (\<lambda>c. c\<lparr> ci_state := CONTRACT_NAME_FIRST,
    ci_nameDisplay := zeros (length (ci_nameDisplay c)),
    ci_paramsHashDisplay := zeros (length (ci_paramsHashDisplay c)), ci_paramsHashCtx := Some [] \<rparr>) s"
  have wi: "wf_input (getter (global s))" by (rule wf_input_app [OF assms(1)])
  then have wu: "wf_app ?u" by (intro wf_on assms(1)) (simp add: wf_input_def cbuf_def)
  have "flow (?u\<lparr> replies := r \<rparr>)" for r
    using wi z m assms(2) by (intro fl) (simp_all add: contract_phase_def wf_input_def cbuf_def same_head_def)
  then have "kept flow s (?u\<lparr> replies := replies s @ [([], SWO_SUCCESS)] \<rparr>)"
    using wu assms(2) by (intro kept_reply) simp_all
  then show ?thesis
    using refused_self [OF assms(1)] by (simp add: contract_start_input_def Let_def)
qed

text \<open>What keeping a chunk does to the member.\<close>

definition keep_step :: "bool \<Rightarrow> bytes \<Rightarrow> bytes \<Rightarrow> bytes \<Rightarrow> contractInput \<Rightarrow> contractInput" where
  "keep_step fits name chunk display =
     (if fits
      then (\<lambda>c. c\<lparr> ci_paramsHashCtx := Some (name @ chunk),
             ci_nameDisplay := name @ chunk @ 0 # drop (Suc (length name + length chunk)) display,
             ci_nameDisplayUsed := length name + length chunk \<rparr>)
      else (\<lambda>c. c\<lparr> ci_paramsHashCtx := Some (name @ chunk) \<rparr>))"

lemma keep_name_eq:
  assumes "name_kept (getter (global s)) name" "wf_app s"
    "length name + length chunk \<le> ci_nameLength (getter (global s))"
  shows "contract_keep_name E getter setter chunk s =
    (if sdk_hash_update E name chunk
     then Ret () (on_input setter (keep_step (ci_nameLength (getter (global s)) < 256) name chunk
       (ci_nameDisplay (getter (global s)))) s)
     else Throw ERROR_FAILED_CX_OPERATION s)"
proof -
  let ?c = "getter (global s)"
  have c: "ci_paramsHashCtx ?c = Some name" "length (ci_nameDisplay ?c) = 256"
    using assms(1) wf_input_app [OF assms(2)] by (simp_all add: name_kept_def wf_input_def cbuf_def)
  show ?thesis
  proof (cases "ci_nameLength ?c < 256")
    case True
    then obtain r where r: "ci_nameDisplayUsed ?c = length name" "ci_nameDisplay ?c = name @ 0 # r"
      using assms(1) by (auto simp: name_kept_def)
    have "put (ci_nameDisplay ?c) (length name) chunk =
        Ok (name @ chunk @ drop (length name + length chunk) (ci_nameDisplay ?c))"
      using True assms(3) c(2) r(2) by (simp add: put_Ok)
    moreover have "put (name @ chunk @ drop (length name + length chunk) (ci_nameDisplay ?c))
        (length name + length chunk) [0] =
        Ok (name @ chunk @ 0 # drop (length name + length chunk + 1) (ci_nameDisplay ?c))"
      using True assms(3) c(2) by (simp add: put_Ok)
    ultimately show ?thesis
      using True c r(1) by (simp add: contract_keep_name_def update_ctx_def Let_def keep_step_def cong: if_cong)
  next
    case False
    then show ?thesis
      using c by (simp add: contract_keep_name_def update_ctx_def Let_def keep_step_def)
  qed
qed

lemma keep_step_keeps:
  assumes "name_kept c name" "wf_input c" "length name + length chunk \<le> ci_nameLength c" "is_displayable_text chunk"
    "c' = keep_step (ci_nameLength c < 256) name chunk (ci_nameDisplay c) c"
  shows "name_kept c' (name @ chunk)" "wf_input c'" "ci_nameLength c' = ci_nameLength c"
    "ci_remainingNameLength c' = ci_remainingNameLength c" "ci_remainingParamsLength c' = ci_remainingParamsLength c"
    "ci_state c' = ci_state c"
  using assms by (auto simp: name_kept_def keep_step_def wf_input_def is_displayable_text_iff cbuf_def)

text \<open>After the length: the chunk and what came before it are the length and a part of the name.\<close>

definition name_ready :: "bytes \<Rightarrow> bytes \<Rightarrow> bytes \<Rightarrow> bytes \<Rightarrow> nat \<Rightarrow> app \<Rightarrow> app \<Rightarrow> bool" where
  "name_ready pre c nl name off s t \<longleftrightarrow> off \<le> length c \<and> ci_state (getter (global t)) = CONTRACT_NAME_NEXT \<and>
     ci_remainingParamsLength (getter (global t)) = 0 \<and> name_kept (getter (global t)) name \<and>
     length nl = 2 \<and> be_nat nl = ci_nameLength (getter (global t)) \<and>
     length name + ci_remainingNameLength (getter (global t)) = ci_nameLength (getter (global t)) + off \<and>
     length c \<le> ci_remainingNameLength (getter (global t)) \<and>
     (\<exists>m. tx_hash t = Some m \<and> m @ c = pre @ nl @ name @ drop off c) \<and>
     (off = 0 \<or> name = []) \<and> wf_app t \<and> same_head s t \<and> others (global t) = others (global s) \<and>
     replies t = replies s \<and> screen t = screen s \<and> currentInstruction t = currentInstruction s"

text \<open>A contract packet is expected: the input has begun, or nothing is left to receive.\<close>

definition input_state :: "bytes \<Rightarrow> app \<Rightarrow> bool" where
  "input_state pre s \<longleftrightarrow> (\<exists>m. tx_hash s = Some m \<and> contract_phase (getter (global s)) pre m)"

lemma input_state_name:
  assumes "input_state pre s" "ci_state (getter (global s)) \<noteq> CONTRACT_NAME_NEXT"
  shows "ci_remainingNameLength (getter (global s)) = 0"
  using assms by (cases "ci_state (getter (global s))") (auto simp: input_state_def contract_phase_def named_def)

lemma input_state_params:
  assumes "input_state pre s" "ci_state (getter (global s)) \<noteq> CONTRACT_PARAMS_NEXT"
  shows "ci_remainingParamsLength (getter (global s)) = 0"
  using assms by (cases "ci_state (getter (global s))") (auto simp: input_state_def contract_phase_def)

lemma name_length_wp:
  assumes wf: "wf_app s" and c: "c \<noteq> []"
    and ph: "input_state pre s"
  shows "wp (contract_name_length getter setter c s)
    (\<lambda>off t. \<exists>nl name. name_ready pre c nl name off s t) (refused s)"
proof -
  let ?c = "getter (global s)"
  have wi: "wf_input ?c" by (rule wf_input_app [OF wf])
  have r: "refused s e s" if "status_word e" for e using that refused_self [OF wf] by simp
  consider (first) "ci_state ?c = CONTRACT_NAME_FIRST" "input_state pre s"
    | (more) "ci_state ?c = CONTRACT_NAME_NEXT" "input_state pre s"
    | (other) "ci_state ?c \<noteq> CONTRACT_NAME_FIRST" "ci_remainingNameLength ?c = 0"
    using ph input_state_name [of pre s]
    by (cases "ci_state ?c = CONTRACT_NAME_FIRST"; cases "ci_state ?c = CONTRACT_NAME_NEXT") auto
  then show ?thesis
  proof cases
    case first
    then have f: "tx_hash s = Some pre" "ci_paramsHashCtx ?c = Some []" "ci_nameDisplay ?c = zeros 256"
      "ci_nameDisplayUsed ?c = 0" "ci_remainingParamsLength ?c = 0"
      by (auto simp: input_state_def contract_phase_def)
    show ?thesis
    proof (cases "length c < 2")
      case False
      then have u: "unat (of_nat (be_nat (take 2 c)) :: u16) = be_nat (take 2 c)"
        by (intro unat_be_nat_2) simp
      have k: "zeros 256 = 0 # zeros 255" by (simp add: zeros_def eval_nat_numeral)
      let ?u = "on_input setter (\<lambda>d. d\<lparr> ci_nameLength := be_nat (take 2 c),
        ci_remainingNameLength := be_nat (take 2 c) + 2, ci_state := CONTRACT_NAME_NEXT \<rparr>) s"
      have wu: "wf_app ?u" using wi by (intro wf_on wf) (simp add: wf_input_def)
      have "name_ready pre c (take 2 c) [] 2 s ?u" if "length c \<le> be_nat (take 2 c) + 2"
        using that False f wu by (simp add: name_ready_def name_kept_def k)
      then have "\<exists>nl name. name_ready pre c nl name 2 s ?u" if "length c \<le> be_nat (take 2 c) + 2"
        using that by blast
      then show ?thesis
        using first(1) False u r by (auto simp: contract_name_length_def Let_def U2BE_def slice_Ok)
    qed (use first(1) r in \<open>simp add: contract_name_length_def\<close>)
  next
    case more
    then obtain nl name where n: "tx_hash s = Some (pre @ nl @ name)" "length nl = 2" "be_nat nl = ci_nameLength ?c"
      "length name + ci_remainingNameLength ?c = ci_nameLength ?c" "name_kept ?c name" "ci_remainingParamsLength ?c = 0"
      by (auto simp: input_state_def contract_phase_def)
    have "name_ready pre c nl name 0 s s" if "length c \<le> ci_remainingNameLength ?c"
      using that n wf more(1) by (simp add: name_ready_def)
    then have "\<exists>nl name. name_ready pre c nl name 0 s s" if "length c \<le> ci_remainingNameLength ?c"
      using that by blast
    then show ?thesis using more(1) r by (auto simp: contract_name_length_def Let_def)
  next
    case other
    then show ?thesis using c r by (simp add: contract_name_length_def)
  qed
qed

lemma reply_kept:
  assumes "wf_app t" "\<not> awaiting s" "screen t = screen s" "replies t = replies s"
    "currentInstruction t = currentInstruction s" "\<And>r. flow (t\<lparr> replies := r \<rparr>)"
  shows "wp (send_success_no_idle t) (\<lambda>_ t. kept flow s t) X"
proof -
  have "awaiting t = awaiting s" using assms(3) by (simp add: awaiting_def)
  then show ?thesis using assms by (auto intro!: kept_reply)
qed

text \<open>What every packet of the input leaves: the same head, and the same other members.\<close>

definition input_step :: "bytes \<Rightarrow> app \<Rightarrow> app \<Rightarrow> bool" where
  "input_step pre s t \<longleftrightarrow> input_state pre t \<and> same_head s t \<and> others (global t) = others (global s) \<and> screen t = screen s"

lemma name_text_end:
  assumes "name_kept c name" "length name = ci_nameLength c" "wf_input c"
  shows "rwp (if length (ci_nameDisplay c) \<le> ci_nameLength c
      then put (ci_nameDisplay c) 0 (ascii ''(too long to display - see hash)'' @ [0])
      else Ok (ci_nameDisplay c)) (\<lambda>d. cbuf 256 d \<and> cstr d = name_text name) X"
proof -
  have w: "cbuf 256 (ci_nameDisplay c)" "length (ci_nameDisplay c) = 256"
    using assms(3) by (simp_all add: wf_input_def cbuf_def)
  have z: "0 \<notin> set (ascii ''(too long to display - see hash)'')" by (simp add: ascii_def)
  show ?thesis
    using assms w z displayable_no_NUL [of name] cstr_NUL [OF z, of "drop 33 (ci_nameDisplay c)"]
    by (auto simp: name_kept_def name_text_def)
qed

lemma name_packet:
  assumes E: "platform E" and wf: "wf_app s" "\<not> awaiting s" and c: "c \<noteq> []"
    and ph: "input_state pre s"
  shows "wp (contract_name_packet E getter setter c s) (\<lambda>_ t. kept (\<lambda>t. input_step pre s t) s t) (refused s)"
  unfolding contract_name_packet_def Let_def [of "length c"] wp_bind
proof (rule wp_mono [OF name_length_wp [OF wf(1) c ph]], goal_cases)
  case (1 off t)
  then obtain nl name m where t: "off \<le> length c" "ci_state (getter (global t)) = CONTRACT_NAME_NEXT"
    "ci_remainingParamsLength (getter (global t)) = 0" "name_kept (getter (global t)) name"
    "length nl = 2" "be_nat nl = ci_nameLength (getter (global t))"
    "length name + ci_remainingNameLength (getter (global t)) = ci_nameLength (getter (global t)) + off"
    "length c \<le> ci_remainingNameLength (getter (global t))"
    "tx_hash t = Some m" "m @ c = pre @ nl @ name @ drop off c" "wf_app t" "same_head s t"
    "others (global t) = others (global s)" "replies t = replies s" "screen t = screen s"
    "currentInstruction t = currentInstruction s"
    unfolding name_ready_def by blast
  let ?d = "drop off c" and ?u = "t\<lparr> tx_hash := Some (m @ c) \<rparr>"
  have r: "refused s e t" if "status_word e" for e
    using that t by (simp add: refused_def wf_app_def)
  have na: "awaiting t = awaiting s" using t(15) by (simp add: awaiting_def)
  have wi: "wf_input (getter (global t))" by (rule wf_input_app [OF t(11)])
  have tail: "wp (let s = on_input setter (\<lambda>x. x\<lparr> ci_remainingNameLength := ci_remainingNameLength x - length c \<rparr>) v
      in if 0 < ci_remainingNameLength (getter (global s)) then send_success_no_idle s
         else contract_end_name getter setter s) (\<lambda>_ t. kept (\<lambda>t. input_step pre s t) s t) (refused s)"
    if v: "v = on_input setter f ?u" "name_kept (f (getter (global t))) (name @ ?d)"
      "wf_input (f (getter (global t)))" "ci_nameLength (f (getter (global t))) = ci_nameLength (getter (global t))"
      "ci_remainingNameLength (f (getter (global t))) = ci_remainingNameLength (getter (global t))"
      "ci_remainingParamsLength (f (getter (global t))) = ci_remainingParamsLength (getter (global t))"
      "ci_state (f (getter (global t))) = ci_state (getter (global t))" for f v
  proof -
    let ?w = "on_input setter (\<lambda>x. x\<lparr> ci_remainingNameLength := ci_remainingNameLength x - length c \<rparr>) v"
    have ww: "wf_app ?w" using v(1,3) t(11) by (auto intro!: wf_on simp: wf_input_def)
    have ln: "length (name @ ?d) + ci_remainingNameLength (getter (global ?w)) = ci_nameLength (getter (global ?w))"
      using t(1,7,8) v by simp
    show ?thesis
    proof (cases "0 < ci_remainingNameLength (getter (global ?w))")
      case True
      have "input_step pre s (?w\<lparr> replies := r \<rparr>)" for r
        using t v ln unfolding input_step_def input_state_def contract_phase_def
        by (auto simp: name_kept_def same_head_def intro!: exI [of _ nl] exI [of _ "name @ ?d"])
      then have "wp (send_success_no_idle ?w) (\<lambda>_ t. kept (\<lambda>t. input_step pre s t) s t) (refused s)"
        using ww wf(2) t v(1) by (intro reply_kept) simp_all
      then show ?thesis unfolding Let_def if_P [OF True] .
    next
      case False
      let ?cw = "getter (global ?w)"
      have kw: "name_kept ?cw (name @ ?d)" "wf_input ?cw" "length (name @ ?d) = ci_nameLength ?cw"
        using v(1,2,3) ln False by (simp_all add: name_kept_def wf_input_def)
      have "wp (contract_end_name getter setter ?w) (\<lambda>_ t. kept (\<lambda>t. input_step pre s t) s t) (refused s)"
        unfolding contract_end_name_def Let_def wp_call
      proof (rule rwp_mono [OF name_text_end [OF kw(1,3,2)]])
        fix d assume d: "cbuf 256 d \<and> cstr d = name_text (name @ ?d)"
        let ?z = "on_input setter (\<lambda>x. x\<lparr> ci_nameDisplay := d, ci_state := CONTRACT_PARAMS_FIRST \<rparr>) ?w"
        have wz: "wf_app ?z" using d kw(2) by (intro wf_on [OF ww]) (simp add: wf_input_def)
        have nm: "named (getter (global ?z)) nl (name @ ?d)" "ci_paramsHashCtx (getter (global ?z)) = Some (name @ ?d)"
          "ci_remainingParamsLength (getter (global ?z)) = 0"
          using t(3,5,6) v kw d False by (simp_all add: named_def name_kept_def)
        have "input_step pre s (?z\<lparr> replies := r \<rparr>)" for r
          using t v(1) nm unfolding input_step_def input_state_def contract_phase_def
          by (auto simp: same_head_def intro!: exI [of _ nl] exI [of _ "name @ ?d"])
        then show "wp (send_success_no_idle ?z) (\<lambda>_ t. kept (\<lambda>t. input_step pre s t) s t) (refused s)"
          using wz wf(2) t v(1) by (intro reply_kept) simp_all
      qed simp
      then show ?thesis unfolding Let_def if_not_P [OF False] .
    qed
  qed
  show ?case
  proof (cases "is_displayable_text ?d")
    case False
    have "off < length c" using False by (cases "off < length c") simp_all
    moreover have "kept (\<lambda>t. input_step pre s t) s (t\<lparr> currentInstruction := INSTRUCTION_NONE,
        replies := replies s @ [([], ERROR_INVALID_TRANSACTION)] \<rparr>)"
      using t(11) na wf(2) by (intro kept_closed) simp_all
    ultimately show ?thesis using False t(14) by (simp add: Let_def)
  next
    case True
    show ?thesis
    proof (cases "off < length c")
      case off: True
      have le: "length name + length ?d \<le> ci_nameLength (getter (global t))" using t(7,8) t(1) by simp
      define K where "K = keep_step (ci_nameLength (getter (global t)) < 256) name ?d (ci_nameDisplay (getter (global t)))"
      have ke: "contract_keep_name E getter setter ?d ?u =
          (if sdk_hash_update E name ?d then Ret () (on_input setter K ?u)
           else Throw ERROR_FAILED_CX_OPERATION ?u)"
        using keep_name_eq [of ?u name ?d E] t(4,11) le by (simp add: K_def)
      note ks = keep_step_keeps [OF t(4) wi le True refl, folded K_def]
      show ?thesis
        using off True t(4,9,11) r tail [of "on_input setter K ?u" K, OF refl ks]
        by (auto simp: ke Let_def split: if_splits)
    next
      case whole: False
      then have d: "?d = []" by simp
      show ?thesis
        using whole True t(4,9) r tail [of ?u "\<lambda>x. x"] wi d
        by (auto simp: Let_def split: if_splits)
    qed
  qed
qed (use assms in simp)

text \<open>Before the first packet both are refused.\<close>

lemma input_idle:
  assumes "getter (global s) = wiped_input" "c \<noteq> []"
  shows "contract_name_packet E getter setter c s = Throw ERROR_INVALID_NAME_LENGTH s"
    "contract_params_packet E getter setter draw c s = Throw ERROR_INVALID_PARAMS_LENGTH s"
  using assms by (simp_all add: contract_name_packet_def contract_params_packet_def contract_name_length_def
      contract_params_length_def wiped_input_def Let_def)

text \<open>The parameters: after their length.\<close>

definition params_ready :: "bytes \<Rightarrow> bytes \<Rightarrow> bytes \<Rightarrow> bytes \<Rightarrow> bytes \<Rightarrow> bytes \<Rightarrow> nat \<Rightarrow> app \<Rightarrow> app \<Rightarrow> bool" where
  "params_ready pre c nl name pl ps off s t \<longleftrightarrow> off \<le> length c \<and>
     ci_state (getter (global t)) = CONTRACT_PARAMS_NEXT \<and> named (getter (global t)) nl name \<and>
     ci_paramsHashCtx (getter (global t)) = Some (name @ ps) \<and> length pl = 2 \<and>
     length ps + ci_remainingParamsLength (getter (global t)) = be_nat pl + off \<and>
     length c \<le> ci_remainingParamsLength (getter (global t)) \<and>
     (\<exists>m. tx_hash t = Some m \<and> m @ c = pre @ nl @ name @ pl @ ps @ drop off c) \<and>
     (off = 0 \<or> ps = []) \<and> wf_app t \<and> same_head s t \<and> others (global t) = others (global s) \<and>
     replies t = replies s \<and> screen t = screen s \<and> currentInstruction t = currentInstruction s"

lemma params_length_wp:
  assumes wf: "wf_app s" and c: "c \<noteq> []"
    and ph: "input_state pre s"
  shows "wp (contract_params_length getter setter c s)
    (\<lambda>off t. \<exists>nl name pl ps. params_ready pre c nl name pl ps off s t) (refused s)"
proof -
  let ?c = "getter (global s)"
  have wi: "wf_input ?c" by (rule wf_input_app [OF wf])
  have r: "refused s e s" if "status_word e" for e using that refused_self [OF wf] by simp
  consider (first) "ci_state ?c = CONTRACT_PARAMS_FIRST" "input_state pre s"
    | (more) "ci_state ?c = CONTRACT_PARAMS_NEXT" "input_state pre s"
    | (other) "ci_state ?c \<noteq> CONTRACT_PARAMS_FIRST" "ci_remainingParamsLength ?c = 0"
    using ph input_state_params [of pre s]
    by (cases "ci_state ?c = CONTRACT_PARAMS_FIRST"; cases "ci_state ?c = CONTRACT_PARAMS_NEXT") auto
  then show ?thesis
  proof cases
    case first
    then obtain nl name where f: "tx_hash s = Some (pre @ nl @ name)" "named ?c nl name"
      "ci_paramsHashCtx ?c = Some name" by (auto simp: input_state_def contract_phase_def)
    show ?thesis
    proof (cases "length c < 2")
      case False
      then have u: "unat (of_nat (be_nat (take 2 c)) :: u16) = be_nat (take 2 c)"
        by (intro unat_be_nat_2) simp
      let ?u = "on_input setter (\<lambda>d. d\<lparr> ci_paramsLength := be_nat (take 2 c),
        ci_remainingParamsLength := be_nat (take 2 c) + 2, ci_state := CONTRACT_PARAMS_NEXT \<rparr>) s"
      have wu: "wf_app ?u" using wi by (intro wf_on wf) (simp add: wf_input_def)
      have "params_ready pre c nl name (take 2 c) [] 2 s ?u" if "length c \<le> be_nat (take 2 c) + 2"
        using that False f wu by (simp add: params_ready_def named_def)
      then have "\<exists>nl name pl ps. params_ready pre c nl name pl ps 2 s ?u" if "length c \<le> be_nat (take 2 c) + 2"
        using that by blast
      then show ?thesis
        using first(1) False u r by (auto simp: contract_params_length_def Let_def U2BE_def slice_Ok)
    qed (use first(1) r in \<open>simp add: contract_params_length_def\<close>)
  next
    case more
    then obtain nl name pl ps where n: "tx_hash s = Some (pre @ nl @ name @ pl @ ps)" "named ?c nl name"
      "length pl = 2" "be_nat pl = length ps + ci_remainingParamsLength ?c" "ci_paramsHashCtx ?c = Some (name @ ps)"
      by (auto simp: input_state_def contract_phase_def)
    have "params_ready pre c nl name pl ps 0 s s" if "length c \<le> ci_remainingParamsLength ?c"
      using that n wf more(1) by (simp add: params_ready_def)
    then have "\<exists>nl name pl ps. params_ready pre c nl name pl ps 0 s s" if "length c \<le> ci_remainingParamsLength ?c"
      using that by blast
    then show ?thesis using more(1) r by (auto simp: contract_params_length_def Let_def)
  next
    case other
    then show ?thesis using c r by (simp add: contract_params_length_def)
  qed
qed

text \<open>The last chunk: the digest of name and parameters is shown.\<close>

lemma end_params:
  assumes E: "platform E" and wf: "wf_app w" and st: "ci_state (getter (global w)) = CONTRACT_PARAMS_NEXT"
    and ph: "input_state pre w" "ci_remainingParamsLength (getter (global w)) = 0"
    and r: "\<And>e g. status_word e \<Longrightarrow> refused s e w"
    and draw: "\<And>t nl name pl ps. contract_complete E (getter (global t)) nl name pl ps \<Longrightarrow>
      tx_hash t = Some (pre @ nl @ name @ pl @ ps) \<Longrightarrow> wf_app t \<Longrightarrow> same_head w t \<Longrightarrow>
      others (global t) = others (global w) \<Longrightarrow> replies t = replies w \<Longrightarrow>
      currentInstruction t = currentInstruction w \<Longrightarrow> wp (draw t) Q (refused s)"
  shows "wp (contract_end_params E getter setter draw w) Q (refused s)"
proof -
  let ?c = "getter (global w)"
  obtain nl name pl ps where n: "tx_hash w = Some (pre @ nl @ name @ pl @ ps)" "named ?c nl name"
    "length pl = 2" "be_nat pl = length ps" "ci_paramsHashCtx ?c = Some (name @ ps)"
    using ph st by (auto simp: input_state_def contract_phase_def)
  have wi: "wf_input ?c" by (rule wf_input_app [OF wf])
  then have b: "length (ci_paramsHashDisplay ?c) = 65" by (simp add: wf_input_def cbuf_def)
  have fin: "rwp (final_ctx E (Some (name @ ps))) (\<lambda>d. length d = 32 \<and> sdk_hash_final E (name @ ps) = Some d)
      (\<lambda>e. e = ERROR_FAILED_CX_OPERATION)"
    by (rule rwp_final_ctx [OF platformD(6) [OF E]])
  show ?thesis
  proof (cases "final_ctx E (Some (name @ ps))")
    case (Ok d)
    then have d: "length d = 32" "sdk_hash_final E (name @ ps) = Some d" using fin by simp_all
    let ?h = "upper_hex d @ 0 # drop 65 (ci_paramsHashDisplay ?c)"
    have hx: "hex_into E ERROR_BUFFER_OVERFLOW d (ci_paramsHashDisplay ?c) = Ok ?h"
      using hex_into_Ok [OF platformD(5) [OF E]] d(1) b by simp
    let ?t = "on_input setter (\<lambda>c. c\<lparr> ci_paramsHashCtx := None, ci_paramsHashDisplay := ?h \<rparr>) w"
    have "wp (draw ?t) Q (refused s)"
    proof (rule draw [where nl = nl and name = name and pl = pl and ps = ps])
      show "contract_complete E (getter (global ?t)) nl name pl ps"
        using n d by (simp add: contract_complete_def named_def)
      show "wf_app ?t" using wi b d(1) by (intro wf_on [OF wf]) (simp add: wf_input_def)
    qed (use n in simp_all)
    then show ?thesis using Ok n(5) hx by (simp add: contract_end_params_def Let_def)
  qed (use fin n(5) r in \<open>simp_all add: contract_end_params_def\<close>)
qed

lemma params_packet:
  assumes E: "platform E" and wf: "wf_app s" "\<not> awaiting s" and c: "c \<noteq> []"
    and ph: "input_state pre s"
    and more: "\<And>t. input_step pre s t \<Longrightarrow> flow t"
    and draw: "\<And>t nl name pl ps. contract_complete E (getter (global t)) nl name pl ps \<Longrightarrow>
      tx_hash t = Some (pre @ nl @ name @ pl @ ps) \<Longrightarrow> wf_app t \<Longrightarrow> same_head s t \<Longrightarrow>
      others (global t) = others (global s) \<Longrightarrow> replies t = replies s \<Longrightarrow>
      currentInstruction t = currentInstruction s \<Longrightarrow> wp (draw t) (\<lambda>_ t. kept flow s t) (refused s)"
  shows "wp (contract_params_packet E getter setter draw c s) (\<lambda>_ t. kept flow s t) (refused s)"
  unfolding contract_params_packet_def Let_def [of "length c"] wp_bind
proof (rule wp_mono [OF params_length_wp [OF wf(1) c ph]], goal_cases)
  case (1 off t)
  then obtain nl name pl ps m where t: "off \<le> length c" "ci_state (getter (global t)) = CONTRACT_PARAMS_NEXT"
    "named (getter (global t)) nl name" "ci_paramsHashCtx (getter (global t)) = Some (name @ ps)" "length pl = 2"
    "length ps + ci_remainingParamsLength (getter (global t)) = be_nat pl + off"
    "length c \<le> ci_remainingParamsLength (getter (global t))"
    "tx_hash t = Some m" "m @ c = pre @ nl @ name @ pl @ ps @ drop off c" "off = 0 \<or> ps = []" "wf_app t" "same_head s t"
    "others (global t) = others (global s)" "replies t = replies s" "screen t = screen s"
    "currentInstruction t = currentInstruction s"
    unfolding params_ready_def by blast
  let ?d = "drop off c"
  let ?w = "on_input setter (\<lambda>x. x\<lparr> ci_paramsHashCtx := Some (name @ ps @ ?d),
    ci_remainingParamsLength := ci_remainingParamsLength x - length c \<rparr>) (t\<lparr> tx_hash := Some (m @ c) \<rparr>)"
  have r: "refused s e t" if "status_word e" for e
    using that t by (simp add: refused_def wf_app_def)
  have wi: "wf_input (getter (global t))" by (rule wf_input_app [OF t(11)])
  have ww: "wf_app ?w" using wi t(11) by (intro wf_on) (simp_all add: wf_input_def)
  have "\<exists>nl name pl ps. m @ c = pre @ nl @ name @ pl @ ps \<and> named (getter (global ?w)) nl name \<and>
      length pl = 2 \<and> be_nat pl = length ps + ci_remainingParamsLength (getter (global ?w)) \<and>
      ci_paramsHashCtx (getter (global ?w)) = Some (name @ ps)"
    by (intro exI [of _ nl] exI [of _ name] exI [of _ pl] exI [of _ "ps @ ?d"])
      (use t(1-9) in \<open>simp add: named_def\<close>)
  then have st: "input_state pre ?w" using t(2) by (simp add: input_state_def contract_phase_def)
  have tail: "wp (if 0 < ci_remainingParamsLength (getter (global ?w)) then send_success_no_idle ?w
      else contract_end_params E getter setter draw ?w) (\<lambda>_ t. kept flow s t) (refused s)"
  proof (cases "0 < ci_remainingParamsLength (getter (global ?w))")
    case True
    have "input_state pre (?w\<lparr> replies := r \<rparr>)" for r using st by (simp add: input_state_def)
    then have "flow (?w\<lparr> replies := r \<rparr>)" for r
      using t by (intro more) (simp add: input_step_def same_head_def)
    then show ?thesis unfolding if_P [OF True] using ww wf(2) t by (intro reply_kept) simp_all
  next
    case False
    show ?thesis unfolding if_not_P [OF False]
    proof (rule end_params [OF E ww _ st])
      fix u nl name pl ps
      assume u: "contract_complete E (getter (global u)) nl name pl ps" "tx_hash u = Some (pre @ nl @ name @ pl @ ps)"
        "wf_app u" "same_head ?w u" "others (global u) = others (global ?w)" "replies u = replies ?w"
        "currentInstruction u = currentInstruction ?w"
      show "wp (draw u) (\<lambda>_ t. kept flow s t) (refused s)"
        using u t by (intro draw [OF u(1,2,3)]) (simp_all add: same_head_def)
    qed (use t False r in simp_all)
  qed
  show ?case
  proof (cases "off < length c")
    case True
    then show ?thesis
      using t(4,8) r tail by (auto simp: Let_def split: if_splits)
  next
    case False
    then have "on_input setter (\<lambda>x. x\<lparr> ci_remainingParamsLength := ci_remainingParamsLength x - length c \<rparr>)
        (t\<lparr> tx_hash := Some (m @ c) \<rparr>) = ?w"
      unfolding on_input_def using t(4) by (subst set_cong) simp_all
    then show ?thesis
      using False t(8) r tail by (auto simp: Let_def split: if_splits)
  qed
qed (use assms in simp)

end

end
