(* ===== verification/InitContract.thy ===== *)
theory InitContract
  imports Contracts
begin

text \<open>
  Initialisation of a smart contract: src/src/handler/init_contract.c.

  The review shows the amount, the module, the contract name and a digest of name and parameters.
\<close>

subsection \<open>Operations\<close>

abbreviation init :: "app \<Rightarrow> initContract" where
  "init s \<equiv> initContract (global s)"

definition set_init :: "(initContract \<Rightarrow> initContract) \<Rightarrow> app \<Rightarrow> app" where
  "set_init f s = s\<lparr> global := (global s)\<lparr> initContract := f (initContract (global s)) \<rparr> \<rparr>"

definition init_input :: "instructionContext \<Rightarrow> contractInput" where
  "init_input g = ic_input (initContract g)"

definition set_init_input :: input_setter where
  "set_init_input f g = g\<lparr> initContract := (initContract g)\<lparr> ic_input := f (ic_input (initContract g)) \<rparr> \<rparr>"

definition init_open_packet :: "sdk \<Rightarrow> bytes \<Rightarrow> app \<Rightarrow> unit act" where
  "init_open_packet E cdata s =
     bind (open_account_transaction E INIT_CONTRACT cdata s) (\<lambda>(cdata, remainingDataLength) s.
     if remainingDataLength < 8 then Throw SWO_INCORRECT_DATA s
     else
       bind (hash_data E cdata 0 8 s) (\<lambda>_ s.
       call (U8BE cdata 0) s (\<lambda>amount.
       let s = set_init (\<lambda>c. c\<lparr> ic_amount := amount \<rparr>) s in
       call (amount_to_ccd_display E (ic_amountDisplay (init s)) amount) s (\<lambda>(amountDisplay, _).
       let s = set_init (\<lambda>c. c\<lparr> ic_amountDisplay := amountDisplay \<rparr>) s;
           cdata = drop 8 cdata; remainingDataLength = sub8 remainingDataLength 8 in
       if remainingDataLength < 32 then Throw SWO_INCORRECT_DATA s
       else
         bind (hash_data E cdata 0 32 s) (\<lambda>_ s.
         call (slice cdata 0 32) s (\<lambda>moduleRef.
         let s = set_init (\<lambda>c. c\<lparr> ic_moduleRef := moduleRef \<rparr>) s in
         call (hex_into E ERROR_INVALID_MODULE_REF (ic_moduleRef (init s)) (ic_moduleRefDisplay (init s))) s
           (\<lambda>moduleRefDisplay.
         contract_start_input E set_init_input
           (set_init (\<lambda>c. c\<lparr> ic_moduleRefDisplay := moduleRefDisplay \<rparr>) s))))))))"

definition handle_init_contract :: "sdk \<Rightarrow> command \<Rightarrow> bool \<Rightarrow> app \<Rightarrow> unit act" where
  "handle_init_contract E cmd isInitialCall s =
     (let cdata = cmd_data cmd; p1 = cmd_p1 cmd in
      if p1 = 0 \<and> isInitialCall then init_open_packet E cdata s
      else if p1 = 1 then contract_name_packet E init_input set_init_input cdata s
      else if p1 = 2 then contract_params_packet E init_input set_init_input uiInitContractDisplay cdata s
      else Throw ERROR_INVALID_STATE s)"

lemma set_init_simps [simp]:
  "init (set_init f s) = f (init s)" "tx_hash (set_init f s) = tx_hash s"
  "replies (set_init f s) = replies s" "screen (set_init f s) = screen s"
  "currentInstruction (set_init f s) = currentInstruction s"
  "global_derivation_path (set_init f s) = global_derivation_path s"
  "global_account_sender (set_init f s) = global_account_sender s"
  "header_shown E hdr (set_init f s) = header_shown E hdr s"
  "awaiting (set_init f s) = awaiting s" "refused s' e (set_init f s) = refused s' e s"
  "(set_init f s)\<lparr> tx_hash := h \<rparr> = set_init f (s\<lparr> tx_hash := h \<rparr>)"
  "set_init f (set_init f' s) = set_init (\<lambda>c. f (f' c)) s"
  by (simp_all add: set_init_def awaiting_def refused_def)

lemma wf_app_init: "wf_app s \<Longrightarrow> wf_init (f (init s)) \<Longrightarrow> wf_app (set_init f s)"
  by (simp add: set_init_def wf_app_def wf_context_def)

definition init_others :: "instructionContext \<Rightarrow> bytes list" where
  "init_others g = [ic_amountDisplay (initContract g), ic_moduleRefDisplay (initContract g)]"

interpretation init_member: contract_member init_input set_init_input init_others
  by unfold_locales (simp_all add: init_input_def set_init_input_def init_others_def wf_context_def wf_init_def)

definition init_rows :: "sdk \<Rightarrow> bytes \<Rightarrow> derivation_path \<Rightarrow> bytes \<Rightarrow> bytes \<Rightarrow> bytes \<Rightarrow> bytes \<Rightarrow> (bytes \<times> bytes) list" where
  "init_rows E hdr p amt ref name digest = header_pairs E ''Sender'' hdr p @
     [(ascii ''Amount'', ccd_text (be_nat amt)), (ascii ''Module ref'', upper_hex ref),
      (ascii ''Contract name'', name_text name), (ascii ''Payload hash'', upper_hex digest)]"

definition init_head :: "sdk \<Rightarrow> app \<Rightarrow> bytes \<Rightarrow> bytes \<Rightarrow> bytes \<Rightarrow> bool" where
  "init_head E s hdr amt ref \<longleftrightarrow> header_shown E hdr s \<and> length amt = 8 \<and> length ref = 32 \<and>
     cstr (ic_amountDisplay (init s)) = ccd_text (be_nat amt) \<and> cstr (ic_moduleRefDisplay (init s)) = upper_hex ref"

definition init_asked :: "sdk \<Rightarrow> app \<Rightarrow> bytes \<Rightarrow> bytes \<Rightarrow> bytes \<Rightarrow> bytes \<Rightarrow> bytes \<Rightarrow> bytes \<Rightarrow> bytes \<Rightarrow> bytes \<Rightarrow> bool" where
  "init_asked E s hdr amt ref nl name pl ps digest \<longleftrightarrow> header_shown E hdr s \<and> length amt = 8 \<and>
     length ref = 32 \<and> input_bytes nl name pl ps digest E \<and>
     asks_to_sign s (hdr @ [INIT_CONTRACT] @ amt @ ref @ nl @ name @ pl @ ps)
       (init_rows E hdr (global_derivation_path s) amt ref name digest)"

definition init_flow :: "sdk \<Rightarrow> app \<Rightarrow> bool" where
  "init_flow E s \<longleftrightarrow>
     (if awaiting s then \<exists>hdr amt ref nl name pl ps digest. init_asked E s hdr amt ref nl name pl ps digest
      else init_input (global s) = wiped_input \<or>
        (\<exists>hdr amt ref. init_head E s hdr amt ref \<and>
           init_member.input_state (hdr @ [INIT_CONTRACT] @ amt @ ref) s))"

lemma init_screen:
  assumes "init_head E s hdr amt ref" "wf_app s" "contract_complete E (init_input (global s)) nl name pl ps"
    "tx_hash s = Some ((hdr @ [INIT_CONTRACT] @ amt @ ref) @ nl @ name @ pl @ ps)"
  shows "wp (uiInitContractDisplay s)
    (\<lambda>_ t. (\<exists>digest. init_asked E t hdr amt ref nl name pl ps digest) \<and>
      t = s\<lparr> screen := screen t, status_page := False \<rparr>) X"
proof -
  obtain digest where d: "sdk_hash_final E (name @ ps) = Some digest"
    "cstr (ci_paramsHashDisplay (ic_input (init s))) = upper_hex digest"
    "cstr (ci_nameDisplay (ic_input (init s))) = name_text name"
    "input_bytes nl name pl ps digest E"
    using assms(3) by (auto simp: contract_complete_def named_def init_input_def input_bytes_def)
  have hs: "header_shown E hdr s" using assms(1) by (simp add: init_head_def)
  have w: "wf_init (init s)" "wf_sender (global_account_sender s)"
    using assms(2) by (simp_all add: wf_app_def wf_context_def)
  show ?thesis
    unfolding uiInitContractDisplay_def Let_def
    by (rule wp_mono [OF sign_review_wp [where m = "hdr @ [INIT_CONTRACT] @ amt @ ref @ nl @ name @ pl @ ps"
          and shown = "init_rows E hdr (global_derivation_path s) amt ref name digest"]])
      (use assms d hs w header_shown_pairs [OF hs, of "''Sender''"] in
        \<open>auto simp: init_head_def init_rows_def init_asked_def asks_to_sign_def wf_init_def wf_input_def cbuf_def\<close>)
qed

lemma init_open:
  assumes E: "platform E" and wf: "wf_app s" "\<not> awaiting s" and len: "length c < 256"
    and g: "global s = wiped"
  shows "wp (init_open_packet E c s) (\<lambda>_ t. kept (init_flow E) s t) (refused s)"
  unfolding init_open_packet_def wp_bind
proof (rule wp_mono [OF open_account_wp [OF E wf(1) len]], goal_cases)
  case (1 a t)
  obtain rest n where a: "a = (rest, n)" by (cases a)
  from 1 a obtain ns hdr where n: "n = length rest" "length rest \<le> length c"
    and h: "header_done E ns hdr (hdr @ [INIT_CONTRACT]) s t" by auto
  note hd = header_doneD [OF h]
  have r: "refused s e t" if "status_word e" for e using that hd by (simp add: refused_def wf_app_def)
  have w: "cbuf 30 (ic_amountDisplay (init t))" "length (ic_moduleRefDisplay (init t)) = 65"
    using hd(5) by (simp_all add: wf_app_def wf_context_def wf_init_def cbuf_def)
  show ?case
  proof (cases "length rest < 8")
    case True
    then show ?thesis by (simp add: a n r)
  next
    case False
    then have l8: "8 \<le> length rest" by simp
    obtain d k where d: "amount_to_ccd_display E (ic_amountDisplay (init t)) (of_nat (be_nat (take 8 rest))) = Ok (d, k)"
      "cbuf 30 d" "cstr d = ccd_text (be_nat (take 8 rest))"
      using amount_text_Ok [OF platformD(4) [OF E] w(1) l8] by blast
    have sb: "sub8 (length rest) 8 = length rest - 8" using l8 n len by simp
    show ?thesis
    proof (cases "length rest - 8 < 32")
      case True
      then show ?thesis
        using l8 d(1) by (simp add: a n r hd(4) hash_data_wp [where h = "hdr @ [INIT_CONTRACT]"] U8BE_amount(1) sb Let_def)
    next
      case l40: False
      let ?amt = "take 8 rest" and ?ref = "take 32 (drop 8 rest)"
      let ?m = "hdr @ [INIT_CONTRACT] @ ?amt @ ?ref"
      let ?x = "upper_hex ?ref @ 0 # drop 65 (ic_moduleRefDisplay (init t))"
      have hx: "hex_into E ERROR_INVALID_MODULE_REF ?ref (ic_moduleRefDisplay (init t)) = Ok ?x"
        using hex_into_Ok [OF platformD(5) [OF E], of ?ref "ic_moduleRefDisplay (init t)"] l40 w(2) by simp
      let ?v = "set_init (\<lambda>c. c\<lparr> ic_amount := of_nat (be_nat ?amt), ic_amountDisplay := d, ic_moduleRef := ?ref,
        ic_moduleRefDisplay := ?x \<rparr>) (t\<lparr> tx_hash := Some ?m \<rparr>)"
      have wv: "wf_app ?v"
        using hd(5) d(2) l40 w(2) by (intro wf_app_init) (simp_all add: wf_app_def wf_context_def wf_init_def)
      have hv: "init_head E ?v hdr ?amt ?ref" using hd(3) d(3) l8 l40 by (simp add: init_head_def)
      have z: "init_input (global ?v) = wiped_input"
        using hd(6) g by (simp add: init_input_def wiped_def wiped_init_def)
      have sv: "replies ?v = replies s" "screen ?v = screen s" "currentInstruction ?v = currentInstruction s"
        using hd by simp_all
      have na: "\<not> awaiting ?v" using wf(2) hd(8) by (simp add: awaiting_def)
      have "wp (contract_start_input E set_init_input ?v) (\<lambda>_ t. kept (init_flow E) ?v t) (refused ?v)"
      proof (rule init_member.start_input [OF wv na])
        fix u assume u: "contract_phase (init_input (global u)) ?m ?m" "tx_hash u = Some ?m" "same_head ?v u"
          "\<not> awaiting u" "init_others (global u) = init_others (global ?v)"
        have "init_head E u hdr ?amt ?ref"
          using hv u(3,5) same_head_header [OF u(3), of E hdr] by (simp add: init_head_def init_others_def)
        then show "init_flow E u" using u by (auto simp: init_flow_def init_member.input_state_def)
      qed (use z in \<open>simp_all add: wiped_input_def\<close>)
      then show ?thesis
        using l8 l40 d(1) hx unfolding same_start [OF sv]
        by (simp add: a n r hd(4) hash_data_wp [where h = "hdr @ [INIT_CONTRACT]"]
            hash_data_wp [where h = "hdr @ [INIT_CONTRACT] @ take 8 rest"] U8BE_amount(1) sb slice_Ok Let_def)
    qed
  qed
qed

lemma init_screen_kept:
  assumes "init_head E t hdr amt ref" "wf_app t" "contract_complete E (init_input (global t)) nl name pl ps"
    "tx_hash t = Some ((hdr @ [INIT_CONTRACT] @ amt @ ref) @ nl @ name @ pl @ ps)"
    "replies t = replies s" "currentInstruction t = currentInstruction s"
  shows "wp (uiInitContractDisplay t) (\<lambda>_ t. kept (init_flow E) s t) X"
proof (rule wp_mono [OF init_screen [OF assms(1-4)]], goal_cases)
  case (1 a u)
  define sc where "sc = screen u"
  have u: "u = t\<lparr> screen := sc, status_page := False \<rparr>" using 1 sc_def by blast
  have aw: "awaiting u" using 1 by (auto simp: init_asked_def intro: asks_awaiting)
  have "init_flow E u" unfolding init_flow_def if_P [OF aw] using 1 by blast
  then show ?case using aw assms by (intro kept_review) (simp_all add: u)
qed simp

lemma init_handle:
  assumes E: "platform E" and wf: "wf_app s" "\<not> awaiting s" and c: "cmd_data c \<noteq> []" "length (cmd_data c) < 256"
    and st: "if initial then global s = wiped else init_flow E s"
  shows "wp (handle_init_contract E c initial s) (\<lambda>_ t. kept (init_flow E) s t) (refused s)"
proof -
  have fl: "init_flow E s"
    using st wf(2) by (auto simp: init_flow_def wiped_def wiped_init_def init_input_def split: if_splits)
  have input: "wp (contract_name_packet E init_input set_init_input (cmd_data c) s) (\<lambda>_ t. kept (init_flow E) s t) (refused s) \<and>
    wp (contract_params_packet E init_input set_init_input uiInitContractDisplay (cmd_data c) s)
      (\<lambda>_ t. kept (init_flow E) s t) (refused s)"
  proof (cases "init_input (global s) = wiped_input")
    case True
    then show ?thesis using init_member.input_idle [OF True c(1)] refused_self [OF wf(1)] by simp
  next
    case False
    then obtain hdr amt ref where h: "init_head E s hdr amt ref"
      and i: "init_member.input_state (hdr @ [INIT_CONTRACT] @ amt @ ref) s"
      using fl wf(2) by (auto simp: init_flow_def)
    have hd: "init_head E t hdr amt ref" if "same_head s t" "init_others (global t) = init_others (global s)" for t
      using h that same_head_header [OF that(1), of E hdr] by (simp add: init_head_def init_others_def)
    have more: "init_flow E t" if "init_member.input_step (hdr @ [INIT_CONTRACT] @ amt @ ref) s t" for t
      using that hd [of t] wf(2) by (auto simp: init_flow_def init_member.input_step_def awaiting_def)
    have "wp (contract_name_packet E init_input set_init_input (cmd_data c) s) (\<lambda>_ t. kept (init_flow E) s t) (refused s)"
      by (rule wp_mono [OF init_member.name_packet [OF E wf c(1) i]]) (auto elim!: kept_weaken intro: more)
    moreover have "wp (contract_params_packet E init_input set_init_input uiInitContractDisplay (cmd_data c) s)
        (\<lambda>_ t. kept (init_flow E) s t) (refused s)"
      by (rule init_member.params_packet [OF E wf c(1) i more]) (auto intro!: init_screen_kept hd)
    ultimately show ?thesis ..
  qed
  show ?thesis
    using init_open [OF E wf c(2)] input st refused_self [OF wf(1)] by (simp add: handle_init_contract_def Let_def)
qed

lemma init_choice:
  assumes "platform E" "wf_app s" "\<not> awaiting s" "awaiting (s\<lparr> screen := Some rv \<rparr>)"
    "init_flow E (s\<lparr> screen := Some rv \<rparr>)"
  shows "rv_callback rv = review_choice_sign"
    "wp (choose_sign E confirm s) (\<lambda>_ t. decided confirm (init_flow E) s t) (\<lambda>_ _. False)"
proof -
  obtain m rows where "asks_to_sign (s\<lparr> screen := Some rv \<rparr>) m rows"
    using assms(5) unfolding init_flow_def if_P [OF assms(4)] init_asked_def by blast
  then show "rv_callback rv = review_choice_sign"
    "wp (choose_sign E confirm s) (\<lambda>_ t. decided confirm (init_flow E) s t) (\<lambda>_ _. False)"
    using sign_choice_kept [OF assms(1-3)] by blast+
qed

subsection \<open>The contract\<close>

interpretation init_sign: sign_flow handle_init_contract init_flow
proof (unfold_locales, goal_cases)
  case (1 E s c initial)
  then show ?case by (intro init_handle)
next
  case (2 E s rv confirm)
  then show ?case using init_choice by blast
next
  case (3 E s b rs)
  then show ?case by (auto simp: init_flow_def init_head_def init_member.input_state_def)
next
  case (4 s E)
  then show ?case by (simp add: init_flow_def wiped_def wiped_init_def init_input_def)
qed

end
