(* ===== verification/UpdateContract.thy ===== *)
theory UpdateContract
  imports Contracts
begin

text \<open>
  Update of a smart contract: src/src/handler/update_contract.c.

  The review shows the amount, the address of the instance, the receive name and a digest of name and
  parameters.
\<close>

subsection \<open>Operations\<close>

abbreviation update :: "app \<Rightarrow> updateContract" where
  "update s \<equiv> updateContract (global s)"

definition set_update :: "(updateContract \<Rightarrow> updateContract) \<Rightarrow> app \<Rightarrow> app" where
  "set_update f s = s\<lparr> global := (global s)\<lparr> updateContract := f (updateContract (global s)) \<rparr> \<rparr>"

definition update_input :: "instructionContext \<Rightarrow> contractInput" where
  "update_input g = uc_input (updateContract g)"

definition set_update_input :: input_setter where
  "set_update_input f g = g\<lparr> updateContract := (updateContract g)\<lparr> uc_input := f (uc_input (updateContract g)) \<rparr> \<rparr>"

definition update_open_packet :: "sdk \<Rightarrow> bytes \<Rightarrow> app \<Rightarrow> unit act" where
  "update_open_packet E cdata s =
     bind (open_account_transaction E UPDATE_CONTRACT cdata s) (\<lambda>(cdata, remainingDataLength) s.
     if remainingDataLength < 8 then Throw SWO_INCORRECT_DATA s
     else
       bind (hash_data E cdata 0 8 s) (\<lambda>_ s.
       call (U8BE cdata 0) s (\<lambda>amount.
       let s = set_update (\<lambda>c. c\<lparr> uc_amount := amount \<rparr>) s in
       call (amount_to_ccd_display E (uc_amountDisplay (update s)) amount) s (\<lambda>(amountDisplay, _).
       let s = set_update (\<lambda>c. c\<lparr> uc_amountDisplay := amountDisplay \<rparr>) s;
           cdata = drop 8 cdata; remainingDataLength = sub8 remainingDataLength 8 in
       if remainingDataLength < 8 then Throw SWO_INCORRECT_DATA s
       else
         bind (hash_data E cdata 0 8 s) (\<lambda>_ s.
         call (U8BE cdata 0) s (\<lambda>index.
         call (number_to_text E (uc_indexDisplay (update s)) index) s (\<lambda>(indexDisplay, _).
         let s = set_update (\<lambda>c. c\<lparr> uc_indexDisplay := indexDisplay \<rparr>) s;
             cdata = drop 8 cdata; remainingDataLength = sub8 remainingDataLength 8 in
         if remainingDataLength < 8 then Throw SWO_INCORRECT_DATA s
         else
           bind (hash_data E cdata 0 8 s) (\<lambda>_ s.
           call (U8BE cdata 0) s (\<lambda>subIndex.
           call (number_to_text E (uc_subIndexDisplay (update s)) subIndex) s (\<lambda>(subIndexDisplay, _).
           contract_start_input E set_update_input
             (set_update (\<lambda>c. c\<lparr> uc_subIndexDisplay := subIndexDisplay \<rparr>) s)))))))))))"

definition handle_update_contract :: "sdk \<Rightarrow> command \<Rightarrow> bool \<Rightarrow> app \<Rightarrow> unit act" where
  "handle_update_contract E cmd isInitialCall s =
     (let cdata = cmd_data cmd; p1 = cmd_p1 cmd in
      if p1 = 0 \<and> isInitialCall then update_open_packet E cdata s
      else if p1 = 1 then contract_name_packet E update_input set_update_input cdata s
      else if p1 = 2 then contract_params_packet E update_input set_update_input uiUpdateContractDisplay cdata s
      else Throw ERROR_INVALID_STATE s)"

lemma set_update_simps [simp]:
  "update (set_update f s) = f (update s)" "tx_hash (set_update f s) = tx_hash s"
  "replies (set_update f s) = replies s" "screen (set_update f s) = screen s"
  "currentInstruction (set_update f s) = currentInstruction s"
  "global_derivation_path (set_update f s) = global_derivation_path s"
  "global_account_sender (set_update f s) = global_account_sender s"
  "header_shown E hdr (set_update f s) = header_shown E hdr s"
  "awaiting (set_update f s) = awaiting s" "refused s' e (set_update f s) = refused s' e s"
  "(set_update f s)\<lparr> tx_hash := h \<rparr> = set_update f (s\<lparr> tx_hash := h \<rparr>)"
  "set_update f (set_update f' s) = set_update (\<lambda>c. f (f' c)) s"
  by (simp_all add: set_update_def awaiting_def refused_def)

lemma wf_app_update: "wf_app s \<Longrightarrow> wf_update (f (update s)) \<Longrightarrow> wf_app (set_update f s)"
  by (simp add: set_update_def wf_app_def wf_context_def)

definition update_others :: "instructionContext \<Rightarrow> bytes list" where
  "update_others g = [uc_amountDisplay (updateContract g), uc_indexDisplay (updateContract g),
     uc_subIndexDisplay (updateContract g)]"

interpretation update_member: contract_member update_input set_update_input update_others
  by unfold_locales (simp_all add: update_input_def set_update_input_def update_others_def wf_context_def wf_update_def)

definition update_rows :: "sdk \<Rightarrow> bytes \<Rightarrow> derivation_path \<Rightarrow> bytes \<Rightarrow> bytes \<Rightarrow> bytes \<Rightarrow> bytes \<Rightarrow> bytes \<Rightarrow>
    (bytes \<times> bytes) list" where
  "update_rows E hdr p amt idx sub name digest = header_pairs E ''Sender'' hdr p @
     [(ascii ''Amount'', ccd_text (be_nat amt)), (ascii ''Index'', dec (be_nat idx)),
      (ascii ''Sub index'', dec (be_nat sub)), (ascii ''Receive name'', name_text name),
      (ascii ''Payload hash'', upper_hex digest)]"

definition update_head :: "sdk \<Rightarrow> app \<Rightarrow> bytes \<Rightarrow> bytes \<Rightarrow> bytes \<Rightarrow> bytes \<Rightarrow> bool" where
  "update_head E s hdr amt idx sub \<longleftrightarrow> header_shown E hdr s \<and> length amt = 8 \<and> length idx = 8 \<and> length sub = 8 \<and>
     cstr (uc_amountDisplay (update s)) = ccd_text (be_nat amt) \<and>
     cstr (uc_indexDisplay (update s)) = dec (be_nat idx) \<and> cstr (uc_subIndexDisplay (update s)) = dec (be_nat sub)"

definition update_asked :: "sdk \<Rightarrow> app \<Rightarrow> bytes \<Rightarrow> bytes \<Rightarrow> bytes \<Rightarrow> bytes \<Rightarrow> bytes \<Rightarrow> bytes \<Rightarrow> bytes \<Rightarrow> bytes \<Rightarrow> bytes \<Rightarrow> bool" where
  "update_asked E s hdr amt idx sub nl name pl ps digest \<longleftrightarrow> header_shown E hdr s \<and> length amt = 8 \<and>
     length idx = 8 \<and> length sub = 8 \<and> input_bytes nl name pl ps digest E \<and>
     asks_to_sign s (hdr @ [UPDATE_CONTRACT] @ amt @ idx @ sub @ nl @ name @ pl @ ps)
       (update_rows E hdr (global_derivation_path s) amt idx sub name digest)"

definition update_flow :: "sdk \<Rightarrow> app \<Rightarrow> bool" where
  "update_flow E s \<longleftrightarrow>
     (if awaiting s then \<exists>hdr amt idx sub nl name pl ps digest. update_asked E s hdr amt idx sub nl name pl ps digest
      else update_input (global s) = wiped_input \<or>
        (\<exists>hdr amt idx sub. update_head E s hdr amt idx sub \<and>
           update_member.input_state (hdr @ [UPDATE_CONTRACT] @ amt @ idx @ sub) s))"

lemma update_screen:
  assumes "update_head E s hdr amt idx sub" "wf_app s" "contract_complete E (update_input (global s)) nl name pl ps"
    "tx_hash s = Some ((hdr @ [UPDATE_CONTRACT] @ amt @ idx @ sub) @ nl @ name @ pl @ ps)"
  shows "wp (uiUpdateContractDisplay s)
    (\<lambda>_ t. (\<exists>digest. update_asked E t hdr amt idx sub nl name pl ps digest) \<and>
      t = s\<lparr> screen := screen t, status_page := False \<rparr>) X"
proof -
  obtain digest where d: "sdk_hash_final E (name @ ps) = Some digest"
    "cstr (ci_paramsHashDisplay (uc_input (update s))) = upper_hex digest"
    "cstr (ci_nameDisplay (uc_input (update s))) = name_text name"
    "input_bytes nl name pl ps digest E"
    using assms(3) by (auto simp: contract_complete_def named_def update_input_def input_bytes_def)
  have hs: "header_shown E hdr s" using assms(1) by (simp add: update_head_def)
  have w: "wf_update (update s)" "wf_sender (global_account_sender s)"
    using assms(2) by (simp_all add: wf_app_def wf_context_def)
  show ?thesis
    unfolding uiUpdateContractDisplay_def Let_def
    by (rule wp_mono [OF sign_review_wp [where m = "hdr @ [UPDATE_CONTRACT] @ amt @ idx @ sub @ nl @ name @ pl @ ps"
          and shown = "update_rows E hdr (global_derivation_path s) amt idx sub name digest"]])
      (use assms d hs w header_shown_pairs [OF hs, of "''Sender''"] in
        \<open>auto simp: update_head_def update_rows_def update_asked_def asks_to_sign_def wf_update_def wf_input_def cbuf_def\<close>)
qed

lemma update_open:
  assumes E: "platform E" and wf: "wf_app s" "\<not> awaiting s" and len: "length c < 256"
    and g: "global s = wiped"
  shows "wp (update_open_packet E c s) (\<lambda>_ t. kept (update_flow E) s t) (refused s)"
  unfolding update_open_packet_def wp_bind
proof (rule wp_mono [OF open_account_wp [OF E wf(1) len]], goal_cases)
  case (1 a t)
  obtain rest n where a: "a = (rest, n)" by (cases a)
  from 1 a obtain ns hdr where n: "n = length rest" "length rest \<le> length c"
    and h: "header_done E ns hdr (hdr @ [UPDATE_CONTRACT]) s t" by auto
  note hd = header_doneD [OF h]
  have r: "refused s e t" if "status_word e" for e using that hd by (simp add: refused_def wf_app_def)
  have w: "cbuf 30 (uc_amountDisplay (update t))"
    using hd(5) by (simp_all add: wf_app_def wf_context_def wf_update_def cbuf_def)
  have z: "uc_indexDisplay (update t) = zeros 30" "uc_subIndexDisplay (update t) = zeros 30"
    using hd(6) g by (simp_all add: wiped_def wiped_update_def)
  show ?case
  proof (cases "length rest < 8")
    case True
    then show ?thesis by (simp add: a n r)
  next
    case False
    then have l8: "8 \<le> length rest" by simp
    let ?amt = "take 8 rest" and ?idx = "take 8 (drop 8 rest)" and ?sub = "take 8 (drop 16 rest)"
    obtain d k where d: "amount_to_ccd_display E (uc_amountDisplay (update t)) (of_nat (be_nat ?amt)) = Ok (d, k)"
      "cbuf 30 d" "cstr d = ccd_text (be_nat ?amt)"
      using amount_text_Ok [OF platformD(4) [OF E] w l8] by blast
    have sb: "sub8 (length rest) 8 = length rest - 8" "sub8 (length rest - 8) 8 = length rest - 16"
      if "16 \<le> length rest" using that n len by simp_all
    have nt: "number_to_text E (zeros 30) (of_nat (be_nat x)) =
        Ok (dec (be_nat x) @ zeros (30 - length (dec (be_nat x))), length (dec (be_nat x)))"
      "length (dec (be_nat x)) \<le> 20" if "length x = 8" for x
    proof -
      have u: "unat (of_nat (be_nat x) :: u64) = be_nat x" by (rule unat_be_nat_8 [OF that])
      then show "length (dec (be_nat x)) \<le> 20" using length_dec_u64 [of "of_nat (be_nat x)"] by simp
      then show "number_to_text E (zeros 30) (of_nat (be_nat x)) =
        Ok (dec (be_nat x) @ zeros (30 - length (dec (be_nat x))), length (dec (be_nat x)))"
        using number_text_zeros [OF platformD(4) [OF E], of "of_nat (be_nat x)" 30] u by simp
    qed
    consider (short) "length rest < 16" | (shorter) "16 \<le> length rest" "length rest < 24" | (full) "24 \<le> length rest"
      by linarith
    then show ?thesis
    proof cases
      case short
      then have "sub8 (length rest) 8 < 8" using l8 n len by simp
      then show ?thesis
        using l8 d(1) by (simp add: a n r hd(4) hash_data_wp [where h = "hdr @ [UPDATE_CONTRACT]"] U8BE_amount(1) Let_def)
    next
      case shorter
      then show ?thesis
        using l8 d(1) nt(1) [of ?idx]
        by (simp add: a n r hd(4) hash_data_wp [where h = "hdr @ [UPDATE_CONTRACT]"]
            hash_data_wp [where h = "hdr @ [UPDATE_CONTRACT] @ take 8 rest"] U8BE_amount(1) sb z Let_def)
    next
      case full
      let ?m = "hdr @ [UPDATE_CONTRACT] @ ?amt @ ?idx @ ?sub"
      let ?i = "dec (be_nat ?idx) @ zeros (30 - length (dec (be_nat ?idx)))"
      let ?j = "dec (be_nat ?sub) @ zeros (30 - length (dec (be_nat ?sub)))"
      let ?v = "set_update (\<lambda>c. c\<lparr> uc_amount := of_nat (be_nat ?amt), uc_amountDisplay := d, uc_indexDisplay := ?i,
        uc_subIndexDisplay := ?j \<rparr>) (t\<lparr> tx_hash := Some ?m \<rparr>)"
      have li: "length ?idx = 8" "length ?sub = 8" using full by simp_all
      have wv: "wf_app ?v"
        using hd(5) d(2) nt(2) [OF li(1)] nt(2) [OF li(2)]
        by (intro wf_app_update) (simp_all add: wf_app_def wf_context_def wf_update_def)
      have hv: "update_head E ?v hdr ?amt ?idx ?sub" using hd(3) d(3) full by (simp add: update_head_def)
      have zv: "update_input (global ?v) = wiped_input"
        using hd(6) g by (simp add: update_input_def wiped_def wiped_update_def)
      have sv: "replies ?v = replies s" "screen ?v = screen s" "currentInstruction ?v = currentInstruction s"
        using hd by simp_all
      have na: "\<not> awaiting ?v" using wf(2) hd(8) by (simp add: awaiting_def)
      have "wp (contract_start_input E set_update_input ?v) (\<lambda>_ t. kept (update_flow E) ?v t) (refused ?v)"
      proof (rule update_member.start_input [OF wv na])
        fix u assume u: "contract_phase (update_input (global u)) ?m ?m" "tx_hash u = Some ?m" "same_head ?v u"
          "\<not> awaiting u" "update_others (global u) = update_others (global ?v)"
        have "update_head E u hdr ?amt ?idx ?sub"
          using hv u(3,5) same_head_header [OF u(3), of E hdr] by (simp add: update_head_def update_others_def)
        then show "update_flow E u" using u by (auto simp: update_flow_def update_member.input_state_def)
      qed (use zv in \<open>simp_all add: wiped_input_def\<close>)
      then show ?thesis
        using full d(1) nt(1) [OF li(1)] nt(1) [OF li(2)] unfolding same_start [OF sv]
        by (simp add: a n r hd(4) hash_data_wp [where h = "hdr @ [UPDATE_CONTRACT]"]
            hash_data_wp [where h = "hdr @ [UPDATE_CONTRACT] @ take 8 rest"]
            hash_data_wp [where h = "hdr @ [UPDATE_CONTRACT] @ take 8 rest @ take 8 (drop 8 rest)"]
            U8BE_amount(1) sb z Let_def)
    qed
  qed
qed

lemma update_screen_kept:
  assumes "update_head E t hdr amt idx sub" "wf_app t" "contract_complete E (update_input (global t)) nl name pl ps"
    "tx_hash t = Some ((hdr @ [UPDATE_CONTRACT] @ amt @ idx @ sub) @ nl @ name @ pl @ ps)"
    "replies t = replies s" "currentInstruction t = currentInstruction s"
  shows "wp (uiUpdateContractDisplay t) (\<lambda>_ t. kept (update_flow E) s t) X"
proof (rule wp_mono [OF update_screen [OF assms(1-4)]], goal_cases)
  case (1 a u)
  define sc where "sc = screen u"
  have u: "u = t\<lparr> screen := sc, status_page := False \<rparr>" using 1 sc_def by blast
  have aw: "awaiting u" using 1 by (auto simp: update_asked_def intro: asks_awaiting)
  have "update_flow E u" unfolding update_flow_def if_P [OF aw] using 1 by blast
  then show ?case using aw assms by (intro kept_review) (simp_all add: u)
qed simp

lemma update_handle:
  assumes E: "platform E" and wf: "wf_app s" "\<not> awaiting s" and c: "cmd_data c \<noteq> []" "length (cmd_data c) < 256"
    and st: "if initial then global s = wiped else update_flow E s"
  shows "wp (handle_update_contract E c initial s) (\<lambda>_ t. kept (update_flow E) s t) (refused s)"
proof -
  have fl: "update_flow E s"
    using st wf(2) by (auto simp: update_flow_def wiped_def wiped_update_def update_input_def split: if_splits)
  have input: "wp (contract_name_packet E update_input set_update_input (cmd_data c) s) (\<lambda>_ t. kept (update_flow E) s t) (refused s) \<and>
    wp (contract_params_packet E update_input set_update_input uiUpdateContractDisplay (cmd_data c) s)
      (\<lambda>_ t. kept (update_flow E) s t) (refused s)"
  proof (cases "update_input (global s) = wiped_input")
    case True
    then show ?thesis using update_member.input_idle [OF True c(1)] refused_self [OF wf(1)] by simp
  next
    case False
    then obtain hdr amt idx sub where h: "update_head E s hdr amt idx sub"
      and i: "update_member.input_state (hdr @ [UPDATE_CONTRACT] @ amt @ idx @ sub) s"
      using fl wf(2) by (auto simp: update_flow_def)
    have hd: "update_head E t hdr amt idx sub" if "same_head s t" "update_others (global t) = update_others (global s)" for t
      using h that same_head_header [OF that(1), of E hdr] by (simp add: update_head_def update_others_def)
    have more: "update_flow E t" if "update_member.input_step (hdr @ [UPDATE_CONTRACT] @ amt @ idx @ sub) s t" for t
      using that hd [of t] wf(2) by (auto simp: update_flow_def update_member.input_step_def awaiting_def)
    have "wp (contract_name_packet E update_input set_update_input (cmd_data c) s) (\<lambda>_ t. kept (update_flow E) s t) (refused s)"
      by (rule wp_mono [OF update_member.name_packet [OF E wf c(1) i]]) (auto elim!: kept_weaken intro: more)
    moreover have "wp (contract_params_packet E update_input set_update_input uiUpdateContractDisplay (cmd_data c) s)
        (\<lambda>_ t. kept (update_flow E) s t) (refused s)"
      by (rule update_member.params_packet [OF E wf c(1) i more]) (auto intro!: update_screen_kept hd)
    ultimately show ?thesis ..
  qed
  show ?thesis
    using update_open [OF E wf c(2)] input st refused_self [OF wf(1)] by (simp add: handle_update_contract_def Let_def)
qed

lemma update_choice:
  assumes "platform E" "wf_app s" "\<not> awaiting s" "awaiting (s\<lparr> screen := Some rv \<rparr>)"
    "update_flow E (s\<lparr> screen := Some rv \<rparr>)"
  shows "rv_callback rv = review_choice_sign"
    "wp (choose_sign E confirm s) (\<lambda>_ t. decided confirm (update_flow E) s t) (\<lambda>_ _. False)"
proof -
  obtain m rows where "asks_to_sign (s\<lparr> screen := Some rv \<rparr>) m rows"
    using assms(5) unfolding update_flow_def if_P [OF assms(4)] update_asked_def by blast
  then show "rv_callback rv = review_choice_sign"
    "wp (choose_sign E confirm s) (\<lambda>_ t. decided confirm (update_flow E) s t) (\<lambda>_ _. False)"
    using sign_choice_kept [OF assms(1-3)] by blast+
qed

subsection \<open>The contract\<close>

interpretation update_sign: sign_flow handle_update_contract update_flow
proof (unfold_locales, goal_cases)
  case (1 E s c initial)
  then show ?case by (intro update_handle)
next
  case (2 E s rv confirm)
  then show ?case using update_choice by blast
next
  case (3 E s b rs)
  then show ?case by (auto simp: update_flow_def update_head_def update_member.input_state_def)
next
  case (4 s E)
  then show ?case by (simp add: update_flow_def wiped_def wiped_update_def update_input_def)
qed

end
