(* ===== verification/ToPublic.thy ===== *)
theory ToPublic
  imports UpdateContract
begin

text \<open>
  Unshielding: src/src/handler/sign_transfer_to_public.c.

  The encrypted remaining amount and the proofs are hashed and cannot be shown; the amount and the
  recipient on the review are those the hash has absorbed.
\<close>

subsection \<open>Operations\<close>

abbreviation public :: "app \<Rightarrow> signTransferToPublic" where
  "public s \<equiv> signTransferToPublic (global s)"

definition set_public :: "(signTransferToPublic \<Rightarrow> signTransferToPublic) \<Rightarrow> app \<Rightarrow> app" where
  "set_public f s = s\<lparr> global := (global s)\<lparr> signTransferToPublic := f (signTransferToPublic (global s)) \<rparr> \<rparr>"

definition public_open_packet :: "sdk \<Rightarrow> bytes \<Rightarrow> app \<Rightarrow> unit act" where
  "public_open_packet E cdata s =
     (let dataLength = length cdata in
      bind (parse_path cdata s) (\<lambda>offset s.
      if dataLength < offset then Throw SWO_INCORRECT_DATA s
      else
        let cdata = drop offset cdata; remainingDataLength = sub8 dataLength offset in
        bind (init_tx_hash E s) (\<lambda>_ s.
        bind (hashAccountTransactionHeaderAndKind E cdata TRANSFER_TO_PUBLIC s) (\<lambda>offset s.
        if dataLength < offset then Throw SWO_INCORRECT_DATA s
        else send_success_no_idle
               (set_public (\<lambda>c. c\<lparr> tp_state := TX_TRANSFER_TO_PUBLIC_REMAINING_AMOUNT \<rparr>) s)))))"

definition encode_recipient :: "sdk \<Rightarrow> bytes \<Rightarrow> bytes \<Rightarrow> bytes result" where
  "encode_recipient E addr dst =
     rbind (base58check_encode E addr (length dst)) (\<lambda>r.
     case r of
       None \<Rightarrow> Err SWO_INCORRECT_DATA
     | Some t \<Rightarrow> rbind (put dst 0 t) (\<lambda>dst. put dst 55 [0]))"

definition public_amount_packet :: "sdk \<Rightarrow> bytes \<Rightarrow> app \<Rightarrow> unit act" where
  "public_amount_packet E cdata s =
     (let remainingDataLength = length cdata in
      if remainingDataLength < 192 then Throw SWO_INCORRECT_DATA s
      else
        bind (hash_data E cdata 0 192 s) (\<lambda>_ s.
        let cdata = drop 192 cdata; remainingDataLength = sub8 remainingDataLength 192 in
        if remainingDataLength < 8 then Throw SWO_INCORRECT_DATA s
        else
          call (U8BE cdata 0) s (\<lambda>amountToPublic.
          call (amount_to_ccd_display E (tp_amount (public s)) amountToPublic) s (\<lambda>(amount, _).
          let s = set_public (\<lambda>c. c\<lparr> tp_amount := amount \<rparr>) s in
          bind (hash_data E cdata 0 8 s) (\<lambda>_ s.
          let cdata = drop 8 cdata; remainingDataLength = sub8 remainingDataLength 8 in
          if remainingDataLength < 32 then Throw SWO_INCORRECT_DATA s
          else
            call (slice cdata 0 32) s (\<lambda>recipient.
            call (encode_recipient E recipient (tp_recipientAddress (public s))) s (\<lambda>recipientAddress.
            let s = set_public (\<lambda>c. c\<lparr> tp_recipientAddress := recipientAddress \<rparr>) s in
            bind (hash_data E cdata 0 32 s) (\<lambda>_ s.
            let cdata = drop 32 cdata; remainingDataLength = sub8 remainingDataLength 32 in
            if remainingDataLength < 8 then Throw SWO_INCORRECT_DATA s
            else
              bind (hash_data E cdata 0 8 s) (\<lambda>_ s.
              let cdata = drop 8 cdata; remainingDataLength = sub8 remainingDataLength 8 in
              if remainingDataLength < 2 then Throw SWO_INCORRECT_DATA s
              else
                call (U2BE cdata 0) s (\<lambda>proofSize.
                send_success_no_idle
                  (set_public (\<lambda>c. c\<lparr> tp_proofSize := unat proofSize,
                     tp_state := TX_TRANSFER_TO_PUBLIC_PROOF \<rparr>) s)))))))))))"

definition public_proof_packet :: "sdk \<Rightarrow> bytes \<Rightarrow> app \<Rightarrow> unit act" where
  "public_proof_packet E cdata s =
     (let dataLength = length cdata in
      bind (update_hash E cdata s) (\<lambda>_ s.
      if tp_proofSize (public s) = dataLength then uiSignTransferToPublicDisplay s
      else if tp_proofSize (public s) < dataLength then Throw ERROR_INVALID_TRANSACTION s
      else send_success_no_idle
             (set_public (\<lambda>c. c\<lparr> tp_proofSize := tp_proofSize c - dataLength \<rparr>) s)))"

definition handle_sign_transfer_to_public :: "sdk \<Rightarrow> command \<Rightarrow> bool \<Rightarrow> app \<Rightarrow> unit act" where
  "handle_sign_transfer_to_public E cmd isInitialCall s =
     (let cdata = cmd_data cmd; p1 = cmd_p1 cmd;
          s = (if isInitialCall then set_public (\<lambda>c. c\<lparr> tp_state := TX_TRANSFER_TO_PUBLIC_INITIAL \<rparr>) s else s);
          state = tp_state (public s) in
      if p1 = 0 \<and> state = TX_TRANSFER_TO_PUBLIC_INITIAL then public_open_packet E cdata s
      else if p1 = 1 \<and> state = TX_TRANSFER_TO_PUBLIC_REMAINING_AMOUNT then public_amount_packet E cdata s
      else if p1 = 2 \<and> state = TX_TRANSFER_TO_PUBLIC_PROOF then public_proof_packet E cdata s
      else Throw ERROR_INVALID_STATE s)"

subsection \<open>Frames\<close>

lemma set_public_simps [simp]:
  "public (set_public f s) = f (public s)" "tx_hash (set_public f s) = tx_hash s"
  "replies (set_public f s) = replies s" "screen (set_public f s) = screen s"
  "currentInstruction (set_public f s) = currentInstruction s"
  "global_derivation_path (set_public f s) = global_derivation_path s"
  "global_account_sender (set_public f s) = global_account_sender s"
  "header_shown E hdr (set_public f s) = header_shown E hdr s"
  "awaiting (set_public f s) = awaiting s" "refused s' e (set_public f s) = refused s' e s"
  "(set_public f s)\<lparr> tx_hash := h \<rparr> = set_public f (s\<lparr> tx_hash := h \<rparr>)"
  "set_public f (set_public f' s) = set_public (\<lambda>c. f (f' c)) s"
  by (simp_all add: set_public_def awaiting_def refused_def)

lemma wf_app_public: "wf_app s \<Longrightarrow> wf_to_public (f (public s)) \<Longrightarrow> wf_app (set_public f s)"
  by (simp add: set_public_def wf_app_def wf_context_def)

lemma wf_public_app: "wf_app s \<Longrightarrow> wf_to_public (public s)"
  by (simp add: wf_app_def wf_context_def)

lemma encode_recipient_eq:
  assumes "sdk_ok E" "length addr = 32" "address_buffer dst"
  shows "encode_recipient E addr dst =
    (case address_text E addr of None \<Rightarrow> Err ERROR_FAILED_CX_OPERATION | Some t \<Rightarrow> Ok (t @ zeros 7))"
proof -
  have "length dst = 57" using assms(3) by (simp add: address_buffer_def)
  then have "encode_recipient E addr dst = encode_address E addr dst"
    using assms by (simp add: encode_recipient_def encode_address_def base58check_encode_eq sdk_okD split: option.split)
  then show ?thesis using encode_address_eq [OF assms] by simp
qed

subsection \<open>The flow\<close>

definition public_rows :: "sdk \<Rightarrow> bytes \<Rightarrow> derivation_path \<Rightarrow> bytes \<Rightarrow> bytes \<Rightarrow> (bytes \<times> bytes) list" where
  "public_rows E hdr p amt to = header_pairs E ''Sender'' hdr p @
     [(ascii ''Unshield amount'', ccd_text (be_nat amt)), (ascii ''Recipient'', the (address_text E to))]"

definition public_head :: "sdk \<Rightarrow> app \<Rightarrow> bytes \<Rightarrow> bytes \<Rightarrow> bytes \<Rightarrow> bytes \<Rightarrow> bytes \<Rightarrow> bytes \<Rightarrow> bool" where
  "public_head E s hdr rem amt to idx pf \<longleftrightarrow> header_shown E hdr s \<and> length rem = 192 \<and> length amt = 8 \<and>
     length to = 32 \<and> length idx = 8 \<and> cstr (tp_amount (public s)) = ccd_text (be_nat amt) \<and>
     address_text E to = Some (cstr (tp_recipientAddress (public s))) \<and>
     tx_hash s = Some (hdr @ [TRANSFER_TO_PUBLIC] @ rem @ amt @ to @ idx @ pf)"

definition public_asked :: "sdk \<Rightarrow> app \<Rightarrow> bytes \<Rightarrow> bytes \<Rightarrow> bytes \<Rightarrow> bytes \<Rightarrow> bytes \<Rightarrow> bytes \<Rightarrow> bool" where
  "public_asked E s hdr rem amt to idx pf \<longleftrightarrow> header_shown E hdr s \<and> length rem = 192 \<and> length amt = 8 \<and>
     length to = 32 \<and> address_text E to \<noteq> None \<and> length idx = 8 \<and>
     asks_to_sign s (hdr @ [TRANSFER_TO_PUBLIC] @ rem @ amt @ to @ idx @ pf)
       (public_rows E hdr (global_derivation_path s) amt to)"

definition public_flow :: "sdk \<Rightarrow> app \<Rightarrow> bool" where
  "public_flow E s \<longleftrightarrow>
     (if awaiting s then \<exists>hdr rem amt to idx pf. public_asked E s hdr rem amt to idx pf
      else case tp_state (public s) of
        TX_TRANSFER_TO_PUBLIC_REMAINING_AMOUNT \<Rightarrow>
          (\<exists>hdr. header_shown E hdr s \<and> tx_hash s = Some (hdr @ [TRANSFER_TO_PUBLIC]))
      | TX_TRANSFER_TO_PUBLIC_PROOF \<Rightarrow> \<exists>hdr rem amt to idx pf. public_head E s hdr rem amt to idx pf
      | _ \<Rightarrow> True)"

lemma public_open:
  assumes E: "platform E" and wf: "wf_app s" "\<not> awaiting s" and len: "length c < 256"
  shows "wp (public_open_packet E c s) (\<lambda>_ t. kept (public_flow E) s t) (refused s)"
  unfolding public_open_packet_def Let_def [of "length c"] wp_bind
proof (rule wp_mono [OF path_step [OF wf(1)]], goal_cases)
  case (1 n t)
  then obtain ns where p: "path_done c s ns n t" by blast
  note pd = path_doneD [OF p wf(1)]
  have n: "\<not> length c < n" using pd(5) by simp
  show ?case
    unfolding if_not_P [OF n] Let_def wp_bind
  proof (rule wp_init_step, goal_cases)
    case 1
    show ?case
    proof (rule wp_mono [OF account_header_step [OF E wf(1) len p]], goal_cases)
      case (3 m v)
      then obtain hdr where h: "header_done E ns hdr (hdr @ [TRANSFER_TO_PUBLIC]) s v" "m = 61"
        "n + 61 \<le> length c" by blast
      note hd = header_doneD [OF h(1)]
      let ?w = "set_public (\<lambda>c. c\<lparr> tp_state := TX_TRANSFER_TO_PUBLIC_REMAINING_AMOUNT \<rparr>) v"
      have ww: "wf_app ?w" using wf_public_app [OF hd(5)] by (intro wf_app_public hd(5)) (simp add: wf_to_public_def)
      have "public_flow E (?w\<lparr> replies := r \<rparr>)" for r
        using hd(3,4,8) wf(2) by (auto simp: public_flow_def awaiting_def)
      then have "kept (public_flow E) s (?w\<lparr> replies := replies s @ [([], SWO_SUCCESS)] \<rparr>)"
        using ww hd wf(2) by (intro kept_reply) (simp_all add: awaiting_def)
      then show ?case using h(2,3) hd(7) by simp
    qed (use pd in simp_all)
  qed (simp add: pd(7))
qed simp

lemma public_screen:
  assumes "public_head E s hdr rem amt to idx pf" "wf_app s"
  shows "wp (uiSignTransferToPublicDisplay s)
    (\<lambda>_ t. public_asked E t hdr rem amt to idx pf \<and>
      t = s\<lparr> screen := screen t, status_page := False, async_reply := True \<rparr>) X"
proof -
  have w: "0 \<in> set (tp_amount (public s))" "0 \<in> set (tp_recipientAddress (public s))"
    "wf_sender (global_account_sender s)"
    using assms(2) cbuf_address by (auto simp: wf_app_def wf_context_def wf_to_public_def cbuf_def)
  have hs: "header_shown E hdr s" using assms(1) by (simp add: public_head_def)
  have z: "0 \<notin> set (ascii ''Unshield amount'')" by (simp add: ascii_def)
  show ?thesis
    using assms w z hs header_shown_pairs [OF hs, of "''Sender''"]
    by (simp add: uiSignTransferToPublicDisplay_def use_case_defs Let_def public_head_def public_asked_def
        asks_to_sign_def public_rows_def)
qed

lemma public_proof:
  assumes E: "platform E" and wf: "wf_app s" "\<not> awaiting s" and fl: "public_flow E s"
    and st: "tp_state (public s) = TX_TRANSFER_TO_PUBLIC_PROOF"
  shows "wp (public_proof_packet E c s) (\<lambda>_ t. kept (public_flow E) s t) (refused s)"
proof -
  obtain hdr rem amt to idx pf where h: "public_head E s hdr rem amt to idx pf"
    using fl wf(2) st by (auto simp: public_flow_def)
  let ?m = "hdr @ [TRANSFER_TO_PUBLIC] @ rem @ amt @ to @ idx @ pf"
  let ?u = "s\<lparr> tx_hash := Some (?m @ c) \<rparr>"
  have m: "tx_hash s = Some ?m" using h by (simp add: public_head_def)
  have hu: "public_head E ?u hdr rem amt to idx (pf @ c)" using h by (simp add: public_head_def)
  have "wp (uiSignTransferToPublicDisplay ?u) (\<lambda>_ t. kept (public_flow E) s t) (refused s)"
  proof (rule wp_mono [OF public_screen [OF hu]], goal_cases)
    case (2 a t)
    define sc where "sc = screen t"
    have t: "t = ?u\<lparr> screen := sc, status_page := False, async_reply := True \<rparr>" using 2 sc_def by blast
    have aw: "awaiting t" using 2 by (auto simp: public_asked_def intro: asks_awaiting)
    have "public_flow E t" unfolding public_flow_def if_P [OF aw] using 2 by blast
    then show ?case using aw wf(1) by (intro kept_review) (simp_all add: t)
  qed (use wf in simp_all)
  moreover have "kept (public_flow E) s (set_public (\<lambda>p. p\<lparr> tp_proofSize := tp_proofSize p - length c \<rparr>) ?u
      \<lparr> replies := replies s @ [([], SWO_SUCCESS)] \<rparr>)" (is "kept _ _ (?w\<lparr> replies := _ \<rparr>)")
  proof -
    have "public_head E (?w\<lparr> replies := r \<rparr>) hdr rem amt to idx (pf @ c)" for r
      using h by (simp add: public_head_def)
    then have "public_flow E (?w\<lparr> replies := r \<rparr>)" for r
      using wf(2) st by (simp add: public_flow_def) blast
    moreover have "wf_app ?w" using wf(1) wf_public_app [OF wf(1)] by (intro wf_app_public) (simp_all add: wf_to_public_def)
    ultimately show ?thesis using wf(2) by (intro kept_reply) simp_all
  qed
  ultimately show ?thesis
    using m refused_self [OF wf(1)] by (simp add: public_proof_packet_def Let_def)
qed

lemma public_amount:
  assumes E: "platform E" and wf: "wf_app s" "\<not> awaiting s" and len: "length c < 256" and fl: "public_flow E s"
    and st: "tp_state (public s) = TX_TRANSFER_TO_PUBLIC_REMAINING_AMOUNT"
  shows "wp (public_amount_packet E c s) (\<lambda>_ t. kept (public_flow E) s t) (refused s)"
proof -
  obtain hdr where hs: "header_shown E hdr s" and m: "tx_hash s = Some (hdr @ [TRANSFER_TO_PUBLIC])"
    using fl wf(2) st by (auto simp: public_flow_def)
  have r: "refused s e s" if "status_word e" for e using that refused_self [OF wf(1)] by simp
  have w: "cbuf 30 (tp_amount (public s))" "address_buffer (tp_recipientAddress (public s))"
    using wf_public_app [OF wf(1)] by (simp_all add: wf_to_public_def)
  let ?rem = "take 192 c" and ?amt = "take 8 (drop 192 c)" and ?to = "take 32 (drop 200 c)" and ?idx = "take 8 (drop 232 c)"
  consider (a) "length c < 192" | (b) "192 \<le> length c" "length c < 200" | (c) "200 \<le> length c" by linarith
  then show ?thesis
  proof cases
    case a
    then show ?thesis by (simp add: public_amount_packet_def r)
  next
    case b
    then have "length c - 192 < 8" by simp
    then show ?thesis using b len m by (simp add: public_amount_packet_def hash_data_def r Let_def)
  next
    case c
    then have l8: "8 \<le> length (drop 192 c)" by simp
    obtain d k where d: "amount_to_ccd_display E (tp_amount (public s)) (of_nat (be_nat ?amt)) = Ok (d, k)"
      "cbuf 30 d" "cstr d = ccd_text (be_nat ?amt)"
      using amount_text_Ok [OF platformD(4) [OF E] w(1) l8] by blast
    have u8: "U8BE (drop 192 c) 0 = Ok (of_nat (be_nat ?amt))" by (rule U8BE_amount(1) [OF l8])
    have er: "encode_recipient E ?to (tp_recipientAddress (public s)) =
      (case address_text E ?to of None \<Rightarrow> Err ERROR_FAILED_CX_OPERATION | Some t \<Rightarrow> Ok (t @ zeros 7))"
      if "232 \<le> length c"
      using that by (intro encode_recipient_eq [OF platformD(1) [OF E] _ w(2)]) simp
    have fin: "kept (public_flow E) s (set_public (\<lambda>p. p\<lparr> tp_amount := d, tp_recipientAddress := a @ zeros 7,
        tp_proofSize := n, tp_state := TX_TRANSFER_TO_PUBLIC_PROOF \<rparr>)
        (s\<lparr> tx_hash := Some (hdr @ TRANSFER_TO_PUBLIC # ?rem @ ?amt @ ?to @ ?idx) \<rparr>)\<lparr> replies := replies s @ [([], SWO_SUCCESS)] \<rparr>)"
      (is "kept _ _ (?w\<lparr> replies := _ \<rparr>)")
      if a: "address_text E ?to = Some a" and l: "240 \<le> length c" for a n
    proof -
      have la: "length a = 50" "0 \<notin> set a"
        using address_text_Some [OF platformD(6,7) [OF E], of ?to a] a l by simp_all
      have "wf_app ?w" using wf(1) wf_public_app [OF wf(1)] d(2) la
        by (intro wf_app_public) (simp_all add: wf_to_public_def)
      moreover have "public_head E (?w\<lparr> replies := r \<rparr>) hdr ?rem ?amt ?to ?idx []" for r
        using hs l d(3) a la by (simp add: public_head_def)
      then have "public_flow E (?w\<lparr> replies := r \<rparr>)" for r
        using wf(2) by (simp add: public_flow_def) blast
      ultimately show ?thesis using wf(2) by (intro kept_reply) simp_all
    qed
    have dd: "drop 8 (drop 192 c) = drop 200 c" "drop 32 (drop 200 c) = drop 232 c" "drop 8 (drop 232 c) = drop 240 c"
      by simp_all
    consider (s1) "length c < 232" | (s2) "232 \<le> length c" "length c < 240" | (s3) "240 \<le> length c" by linarith
    then show ?thesis
    proof cases
      case s1
      then have "length c - 200 < 32" by simp
      then show ?thesis using c s1 len m d(1) u8 by (simp add: public_amount_packet_def hash_data_def r Let_def)
    next
      case s2
      then have "length c - 232 < 8" by simp
      then show ?thesis using c s2 len m d(1) u8 er
        by (cases "address_text E ?to") (simp_all add: public_amount_packet_def hash_data_def r Let_def slice_Ok)
    next
      case s3
      then show ?thesis using c len m d(1) u8 er fin
        by (cases "address_text E ?to") (simp_all add: public_amount_packet_def hash_data_def r Let_def slice_Ok U2BE_def)
    qed
  qed
qed

lemma public_handle:
  assumes E: "platform E" and wf: "wf_app s" "\<not> awaiting s" and len: "length (cmd_data c) < 256"
    and st: "if initial then global s = wiped else public_flow E s"
  shows "wp (handle_sign_transfer_to_public E c initial s) (\<lambda>_ t. kept (public_flow E) s t) (refused s)"
proof -
  define u where "u = (if initial then set_public (\<lambda>c. c\<lparr> tp_state := TX_TRANSFER_TO_PUBLIC_INITIAL \<rparr>) s else s)"
  have wp: "wf_app (set_public (\<lambda>c. c\<lparr> tp_state := st \<rparr>) s)" for st
    using wf_public_app [OF wf(1)] by (intro wf_app_public wf(1)) (simp add: wf_to_public_def)
  have ru: "replies u = replies s" "screen u = screen s" "currentInstruction u = currentInstruction s"
    by (simp_all add: u_def)
  have u: "wf_app u" "\<not> awaiting u" "public_flow E u"
    using wf wp st by (auto simp: u_def public_flow_def)
  have eq: "handle_sign_transfer_to_public E c initial s =
      (if cmd_p1 c = 0 \<and> tp_state (public u) = TX_TRANSFER_TO_PUBLIC_INITIAL then public_open_packet E (cmd_data c) u
       else if cmd_p1 c = 1 \<and> tp_state (public u) = TX_TRANSFER_TO_PUBLIC_REMAINING_AMOUNT
         then public_amount_packet E (cmd_data c) u
       else if cmd_p1 c = 2 \<and> tp_state (public u) = TX_TRANSFER_TO_PUBLIC_PROOF then public_proof_packet E (cmd_data c) u
       else Throw ERROR_INVALID_STATE u)"
    by (simp add: handle_sign_transfer_to_public_def u_def Let_def)
  show ?thesis
    unfolding eq
    using public_open [OF E u(1,2) len] public_amount [OF E u(1,2) len u(3)] public_proof [OF E u(1,2,3)]
      refused_self [OF u(1)]
    unfolding same_start [OF ru] by auto
qed

lemma public_choice:
  assumes "platform E" "wf_app s" "\<not> awaiting s" "awaiting (s\<lparr> screen := Some rv \<rparr>)"
    "public_flow E (s\<lparr> screen := Some rv \<rparr>)"
  shows "rv_callback rv = review_choice_sign"
    "wp (choose_sign E confirm s) (\<lambda>_ t. decided confirm (public_flow E) s t) (\<lambda>_ _. False)"
proof -
  obtain m rows where "asks_to_sign (s\<lparr> screen := Some rv \<rparr>) m rows"
    using assms(5) unfolding public_flow_def if_P [OF assms(4)] public_asked_def by blast
  then show "rv_callback rv = review_choice_sign"
    "wp (choose_sign E confirm s) (\<lambda>_ t. decided confirm (public_flow E) s t) (\<lambda>_ _. False)"
    using sign_choice_kept [OF assms(1-3)] by blast+
qed

subsection \<open>The contract\<close>

interpretation public_sign: sign_flow handle_sign_transfer_to_public public_flow
proof (unfold_locales, goal_cases)
  case (1 E s c initial)
  then show ?case by (intro public_handle)
next
  case (2 E s rv confirm)
  then show ?case using public_choice by blast
next
  case (3 E s b rs)
  have "public_head E (s\<lparr> screen := None, status_page := b \<rparr>) = public_head E s"
    "public_head E (s\<lparr> replies := rs \<rparr>) = public_head E s"
    by (simp_all add: public_head_def fun_eq_iff)
  then show ?case using 3 by (auto simp: public_flow_def split: transferToPublicState.splits)
next
  case (4 s E)
  then show ?case by (simp add: public_flow_def wiped_def)
qed

end
