(* ===== verification/Delegation.thy ===== *)
theory Delegation
  imports ToPublic
begin

text \<open>
  Configuration of delegation: src/src/handler/sign_configure_delegation.c.

  One packet carries a bitmap and the optional fields it announces; the review has a row for each
  field that is present, and the hash absorbs exactly these.
\<close>

subsection \<open>Operations\<close>

abbreviation deleg :: "app \<Rightarrow> signConfigureDelegationContext" where
  "deleg s \<equiv> signConfigureDelegation (global s)"

definition set_deleg :: "(signConfigureDelegationContext \<Rightarrow> signConfigureDelegationContext) \<Rightarrow> app \<Rightarrow> app" where
  "set_deleg f s = s\<lparr> global := (global s)\<lparr> signConfigureDelegation := f (signConfigureDelegation (global s)) \<rparr> \<rparr>"

text \<open>The three optional fields.  A step takes and returns the data left, its length and the
  length expected so far, both \<open>uint8_t\<close>.\<close>

type_synonym cursor = "bytes \<times> nat \<times> nat"

definition advance :: "nat \<Rightarrow> cursor \<Rightarrow> cursor" where
  "advance n = (\<lambda>(cdata, remaining, expected). (drop n cdata, sub8 remaining n, (expected + n) mod 256))"

definition delegation_capital :: "sdk \<Rightarrow> cursor \<Rightarrow> app \<Rightarrow> cursor act" where
  "delegation_capital E cur s =
     (case cur of (cdata, remainingDataLength, expected) \<Rightarrow>
      if remainingDataLength < 8 then Throw SWO_INCORRECT_DATA s
      else
        call (U8BE cdata 0) s (\<lambda>capitalAmount.
        call (if capitalAmount = 0 then Ok (dl_displayCapital (deleg s))
              else rbind (amount_to_ccd_display E (dl_displayCapital (deleg s)) capitalAmount)
                     (\<lambda>(d, _). Ok d)) s (\<lambda>d.
        let s = set_deleg (\<lambda>c. c\<lparr> dl_stopDelegation := (capitalAmount = 0), dl_displayCapital := d \<rparr>) s in
        bind (hash_data E cdata 0 8 s) (\<lambda>_ s. Ret (advance 8 cur) s))))"

definition delegation_restake :: "sdk \<Rightarrow> cursor \<Rightarrow> app \<Rightarrow> cursor act" where
  "delegation_restake E cur s =
     (case cur of (cdata, remainingDataLength, expected) \<Rightarrow>
      if remainingDataLength < 1 then Throw SWO_INCORRECT_DATA s
      else
        call (byte_at cdata 0) s (\<lambda>restake.
        bind (hash_data E cdata 0 1 s) (\<lambda>_ s.
        if restake = 0 then
          call (put (dl_displayRestake (deleg s)) 0 (lit ''No'')) s (\<lambda>d.
          Ret (advance 1 cur) (set_deleg (\<lambda>c. c\<lparr> dl_displayRestake := d \<rparr>) s))
        else if restake = 1 then
          call (put (dl_displayRestake (deleg s)) 0 (lit ''Yes'')) s (\<lambda>d.
          Ret (advance 1 cur) (set_deleg (\<lambda>c. c\<lparr> dl_displayRestake := d \<rparr>) s))
        else Throw ERROR_INVALID_TRANSACTION s)))"

definition delegation_target :: "sdk \<Rightarrow> cursor \<Rightarrow> app \<Rightarrow> nat act" where
  "delegation_target E cur s =
     (case cur of (cdata, remainingDataLength, expected) \<Rightarrow>
      if remainingDataLength < 1 then Throw SWO_INCORRECT_DATA s
      else
        call (byte_at cdata 0) s (\<lambda>delegationType.
        bind (hash_data E cdata 0 1 s) (\<lambda>_ s.
        case advance 1 cur of (cdata, remainingDataLength, expected) \<Rightarrow>
        if delegationType = 0 then
          call (put (dl_displayDelegationTarget (deleg s)) 0 (lit ''Passive Delegation'')) s (\<lambda>d.
          Ret expected (set_deleg (\<lambda>c. c\<lparr> dl_displayDelegationTarget := d \<rparr>) s))
        else if delegationType = 1 then
          if remainingDataLength < 8 then Throw SWO_INCORRECT_DATA s
          else
            call (U8BE cdata 0) s (\<lambda>bakerId.
            call (put (dl_displayDelegationTarget (deleg s)) 0 (ascii ''Baker ID '')) s (\<lambda>d.
            call (bin_to_dec E (drop 9 d) bakerId) s (\<lambda>(digits, _).
            let s = set_deleg (\<lambda>c. c\<lparr> dl_displayDelegationTarget := take 9 d @ digits \<rparr>) s in
            bind (hash_data E cdata 0 8 s) (\<lambda>_ s. Ret ((expected + 8) mod 256) s))))
        else Throw ERROR_INVALID_TRANSACTION s)))"

definition delegation_fields :: "sdk \<Rightarrow> nat \<Rightarrow> cursor \<Rightarrow> app \<Rightarrow> unit act" where
  "delegation_fields E dataLength cur s =
     bind (if dl_hasCapital (deleg s) then delegation_capital E cur s else Ret cur s) (\<lambda>cur s.
     bind (if dl_hasRestakeEarnings (deleg s) then delegation_restake E cur s else Ret cur s) (\<lambda>cur s.
     bind (if dl_hasDelegationTarget (deleg s) then delegation_target E cur s else Ret (snd (snd cur)) s)
       (\<lambda>expectedDataLength s.
     if dataLength \<noteq> expectedDataLength then Throw ERROR_INVALID_TRANSACTION s
     else bind (startConfigureDelegationDisplay s) (\<lambda>_ s. request_async_reply s))))"

definition handle_sign_configure_delegation :: "sdk \<Rightarrow> command \<Rightarrow> bool \<Rightarrow> app \<Rightarrow> unit act" where
  "handle_sign_configure_delegation E cmd isInitialCall s =
     (if \<not> isInitialCall then Throw ERROR_INVALID_STATE s
      else
        let cdata = cmd_data cmd; dataLength = length cdata in
        bind (parse_path cdata s) (\<lambda>keyDerivationPathLength s.
        if dataLength < keyDerivationPathLength then Throw SWO_INCORRECT_DATA s
        else
          let cdata = drop keyDerivationPathLength cdata; remaining = sub8 dataLength keyDerivationPathLength in
          bind (init_tx_hash E s) (\<lambda>_ s.
          bind (hashAccountTransactionHeaderAndKind E cdata CONFIGURE_DELEGATION s) (\<lambda>headerLength s.
          if remaining < headerLength then Throw SWO_INCORRECT_DATA s
          else
            let cdata = drop headerLength cdata; remainingDataLength = sub8 remaining headerLength in
            if remainingDataLength < 2 then Throw SWO_INCORRECT_DATA s
            else
              bind (hash_data E cdata 0 2 s) (\<lambda>_ s.
              call (U2BE cdata 0) s (\<lambda>bitmap.
              let cur = (drop 2 cdata, sub8 remainingDataLength 2, (keyDerivationPathLength + headerLength + 2) mod 256);
                  s = set_deleg (\<lambda>c. c\<lparr> dl_hasCapital := bit bitmap 0, dl_hasRestakeEarnings := bit bitmap 1,
                        dl_hasDelegationTarget := bit bitmap 2 \<rparr>) s in
              if \<not> dl_hasCapital (deleg s) \<and> \<not> dl_hasRestakeEarnings (deleg s) \<and> \<not> dl_hasDelegationTarget (deleg s)
              then Throw ERROR_INVALID_TRANSACTION s
              else delegation_fields E dataLength cur s))))))"

subsection \<open>Frames\<close>

lemma set_deleg_simps [simp]:
  "deleg (set_deleg f s) = f (deleg s)" "tx_hash (set_deleg f s) = tx_hash s"
  "replies (set_deleg f s) = replies s" "screen (set_deleg f s) = screen s"
  "currentInstruction (set_deleg f s) = currentInstruction s"
  "global_derivation_path (set_deleg f s) = global_derivation_path s"
  "global_account_sender (set_deleg f s) = global_account_sender s"
  "header_shown E hdr (set_deleg f s) = header_shown E hdr s"
  "awaiting (set_deleg f s) = awaiting s" "refused s' e (set_deleg f s) = refused s' e s"
  "(set_deleg f s)\<lparr> tx_hash := h \<rparr> = set_deleg f (s\<lparr> tx_hash := h \<rparr>)"
  "set_deleg f (set_deleg f' s) = set_deleg (\<lambda>c. f (f' c)) s"
  by (simp_all add: set_deleg_def awaiting_def refused_def)

lemma wf_app_deleg: "wf_app s \<Longrightarrow> wf_delegation (f (deleg s)) \<Longrightarrow> wf_app (set_deleg f s)"
  by (simp add: set_deleg_def wf_app_def wf_context_def)

lemma wf_deleg_app: "wf_app s \<Longrightarrow> wf_delegation (deleg s)"
  by (simp add: wf_app_def wf_context_def)

subsection \<open>The fields\<close>

definition capital_row :: "bytes \<Rightarrow> bytes \<times> bytes" where
  "capital_row cap = (if be_nat cap = 0 then (ascii ''Action'', ascii ''Stop delegation'')
     else (ascii ''Amount to delegate'', ccd_text (be_nat cap)))"

definition restake_text :: "bytes \<Rightarrow> bytes" where
  "restake_text res = (if res = [0] then ascii ''No'' else ascii ''Yes'')"

definition target_text :: "bytes \<Rightarrow> bytes" where
  "target_text tgt = (if tgt = [0] then ascii ''Passive Delegation'' else ascii ''Baker ID '' @ dec (be_nat (tl tgt)))"

lemma put_start: "length src = n \<Longrightarrow> n \<le> length dst \<Longrightarrow> put dst 0 src = Ok (src @ drop n dst)"
  by (simp add: put_Ok)

text \<open>A state between two fields of the packet: \<open>m\<close> was absorbed.\<close>

definition deleg_at :: "app \<Rightarrow> bytes \<Rightarrow> app \<Rightarrow> app \<Rightarrow> bool" where
  "deleg_at s m t u \<longleftrightarrow> tx_hash u = Some m \<and> wf_app u \<and> replies u = replies s \<and> screen u = screen s \<and>
     currentInstruction u = currentInstruction s \<and> same_head t u"

definition at_cursor :: "nat \<Rightarrow> cursor \<Rightarrow> bytes \<Rightarrow> bool" where
  "at_cursor n cur rest \<longleftrightarrow> n < 256 \<and> length rest \<le> n \<and> cur = (rest, length rest, n - length rest)"

lemma at_advance: "at_cursor n (x @ y, r, e) (x @ y) \<Longrightarrow> k = length x \<Longrightarrow> at_cursor n (advance k (x @ y, r, e)) y"
  by (auto simp: at_cursor_def advance_def)

lemma capital_wp:
  assumes E: "platform E" and a: "deleg_at s m t u" and c: "at_cursor n cur rest"
  shows "wp (delegation_capital E cur u)
    (\<lambda>cur' v. \<exists>f rest' stop d. rest = f @ rest' \<and> length f = 8 \<and> at_cursor n cur' rest' \<and> deleg_at s (m @ f) t v \<and>
       v = set_deleg (\<lambda>c. c\<lparr> dl_stopDelegation := stop, dl_displayCapital := d \<rparr>) (u\<lparr> tx_hash := Some (m @ f) \<rparr>) \<and>
       capital_row f = (if stop then (ascii ''Action'', ascii ''Stop delegation'')
         else (ascii ''Amount to delegate'', cstr d))) (refused s)"
proof (cases "length rest < 8")
  case True
  then show ?thesis using a c by (simp add: delegation_capital_def at_cursor_def deleg_at_def refused_def wf_app_def)
next
  case False
  then have l8: "8 \<le> length rest" by simp
  let ?f = "take 8 rest"
  let ?cap = "of_nat (be_nat ?f) :: u64"
  have u: "unat ?cap = be_nat ?f" using U8BE_amount(2) [OF l8] .
  have z: "?cap = 0 \<longleftrightarrow> be_nat ?f = 0" using u by (metis unsigned_0 word_unat_eq_iff of_nat_0)
  have w: "wf_app u" "tx_hash u = Some m" "wf_delegation (deleg u)"
    using a wf_deleg_app by (simp_all add: deleg_at_def)
  then have cb: "cbuf 30 (dl_displayCapital (deleg u))" by (simp add: wf_delegation_def)
  have r: "refused s e u" if "status_word e" for e using a that by (simp add: deleg_at_def refused_def wf_app_def)
  obtain d k where d: "amount_to_ccd_display E (dl_displayCapital (deleg u)) ?cap = Ok (d, k)" "cbuf 30 d"
    "cstr d = ccd_text (be_nat ?f)"
    using amount_text_Ok [OF platformD(4) [OF E] cb l8] by blast
  define d' where "d' = (if ?cap = 0 then dl_displayCapital (deleg u) else d)"
  let ?v = "set_deleg (\<lambda>c. c\<lparr> dl_stopDelegation := (?cap = 0), dl_displayCapital := d' \<rparr>) (u\<lparr> tx_hash := Some (m @ ?f) \<rparr>)"
  have "wf_app ?v" using w d(2) cb by (intro wf_app_deleg) (simp_all add: wf_delegation_def d'_def)
  then have "deleg_at s (m @ ?f) t ?v" using a by (simp add: deleg_at_def same_head_def)
  moreover have "at_cursor n (advance 8 cur) (drop 8 rest)"
    using c at_advance [of n ?f "drop 8 rest" "length rest" "n - length rest" 8] l8 by (simp add: at_cursor_def)
  moreover have "capital_row ?f = (if ?cap = 0 then (ascii ''Action'', ascii ''Stop delegation'')
      else (ascii ''Amount to delegate'', cstr d'))"
    using d(3) z by (simp add: capital_row_def d'_def)
  ultimately have ex: "\<exists>f rest' stop d. rest = f @ rest' \<and> length f = 8 \<and> at_cursor n (advance 8 cur) rest' \<and>
      deleg_at s (m @ f) t ?v \<and>
      ?v = set_deleg (\<lambda>c. c\<lparr> dl_stopDelegation := stop, dl_displayCapital := d \<rparr>) (u\<lparr> tx_hash := Some (m @ f) \<rparr>) \<and>
      capital_row f = (if stop then (ascii ''Action'', ascii ''Stop delegation'')
        else (ascii ''Amount to delegate'', cstr d))"
    using l8 by (intro exI [of _ ?f] exI [of _ "drop 8 rest"] exI [of _ "?cap = 0"] exI [of _ d']) simp
  have disp: "(if ?cap = 0 then Ok (dl_displayCapital (deleg u))
      else rbind (amount_to_ccd_display E (dl_displayCapital (deleg u)) ?cap) (\<lambda>(d, _). Ok d)) = Ok d'"
    using d(1) by (simp add: d'_def)
  have cur: "cur = (rest, length rest, n - length rest)" using c by (simp add: at_cursor_def)
  show ?thesis
    unfolding delegation_capital_def
    using False ex w(2) r unfolding cur by (simp add: U8BE_amount(1) [OF l8] disp hash_data_def Let_def)
qed

lemma restake_wp:
  assumes a: "deleg_at s m t u" and c: "at_cursor n cur rest"
  shows "wp (delegation_restake E cur u)
    (\<lambda>cur' v. \<exists>f rest' d. rest = f @ rest' \<and> (f = [0] \<or> f = [1]) \<and> at_cursor n cur' rest' \<and> deleg_at s (m @ f) t v \<and>
       v = set_deleg (\<lambda>c. c\<lparr> dl_displayRestake := d \<rparr>) (u\<lparr> tx_hash := Some (m @ f) \<rparr>) \<and>
       restake_text f = cstr d) (refused s)"
proof (cases rest)
  case Nil
  then show ?thesis using a c by (simp add: delegation_restake_def at_cursor_def deleg_at_def refused_def wf_app_def)
next
  case (Cons b rest')
  have w: "wf_app u" "tx_hash u = Some m" "wf_delegation (deleg u)"
    using a wf_deleg_app by (simp_all add: deleg_at_def)
  then have l: "length (dl_displayRestake (deleg u)) = 4" by (simp add: wf_delegation_def cbuf_def)
  have r: "refused s e u" if "status_word e" for e using a that by (simp add: deleg_at_def refused_def wf_app_def)
  have cur: "cur = (b # rest', Suc (length rest'), n - Suc (length rest'))" using c Cons by (simp add: at_cursor_def)
  have adv: "at_cursor n (advance 1 cur) rest'"
    using c at_advance [of n "[b]" rest' "Suc (length rest')" "n - Suc (length rest')" 1] Cons by (simp add: cur)
  have no: "put (dl_displayRestake (deleg u)) 0 (lit ''No'') = Ok (ascii ''No'' @ 0 # drop 3 (dl_displayRestake (deleg u)))"
    and yes: "put (dl_displayRestake (deleg u)) 0 (lit ''Yes'') = Ok (ascii ''Yes'' @ [0])"
    using l by (simp_all add: put_Ok lit_def numeral_3_eq_3)
  have z: "0 \<notin> set (ascii ''No'')" "0 \<notin> set (ascii ''Yes'')" by (simp_all add: ascii_def)
  have go: "\<exists>f rest'' d'. rest = f @ rest'' \<and> (f = [0] \<or> f = [1]) \<and> at_cursor n (advance 1 cur) rest'' \<and>
      deleg_at s (m @ f) t (set_deleg (\<lambda>c. c\<lparr> dl_displayRestake := d \<rparr>) (u\<lparr> tx_hash := Some (m @ [b]) \<rparr>)) \<and>
      set_deleg (\<lambda>c. c\<lparr> dl_displayRestake := d \<rparr>) (u\<lparr> tx_hash := Some (m @ [b]) \<rparr>) =
        set_deleg (\<lambda>c. c\<lparr> dl_displayRestake := d' \<rparr>) (u\<lparr> tx_hash := Some (m @ f) \<rparr>) \<and> restake_text f = cstr d'"
    if "cbuf 4 d" "b = 0 \<or> b = 1" "restake_text [b] = cstr d" for d
  proof -
    have "wf_app (set_deleg (\<lambda>c. c\<lparr> dl_displayRestake := d \<rparr>) (u\<lparr> tx_hash := Some (m @ [b]) \<rparr>))"
      using w that(1) by (intro wf_app_deleg) (simp_all add: wf_delegation_def)
    then show ?thesis using that a adv Cons
      by (intro exI [of _ "[b]"] exI [of _ rest'] exI [of _ d]) (auto simp: deleg_at_def same_head_def)
  qed
  have g0: "b = 0 \<Longrightarrow> \<exists>f rest'' d'. rest = f @ rest'' \<and> (f = [0] \<or> f = [1]) \<and> at_cursor n (advance 1 cur) rest'' \<and>
      deleg_at s (m @ f) t (set_deleg (\<lambda>c. c\<lparr> dl_displayRestake := ascii ''No'' @ 0 # drop 3 (dl_displayRestake (deleg u)) \<rparr>) (u\<lparr> tx_hash := Some (m @ [b]) \<rparr>)) \<and>
      set_deleg (\<lambda>c. c\<lparr> dl_displayRestake := ascii ''No'' @ 0 # drop 3 (dl_displayRestake (deleg u)) \<rparr>) (u\<lparr> tx_hash := Some (m @ [b]) \<rparr>) =
        set_deleg (\<lambda>c. c\<lparr> dl_displayRestake := d' \<rparr>) (u\<lparr> tx_hash := Some (m @ f) \<rparr>) \<and> restake_text f = cstr d'"
    using l z by (intro go) (simp_all add: restake_text_def)
  have g1: "b = 1 \<Longrightarrow> \<exists>f rest'' d'. rest = f @ rest'' \<and> (f = [0] \<or> f = [1]) \<and> at_cursor n (advance 1 cur) rest'' \<and>
      deleg_at s (m @ f) t (set_deleg (\<lambda>c. c\<lparr> dl_displayRestake := ascii ''Yes'' @ [0] \<rparr>) (u\<lparr> tx_hash := Some (m @ [b]) \<rparr>)) \<and>
      set_deleg (\<lambda>c. c\<lparr> dl_displayRestake := ascii ''Yes'' @ [0] \<rparr>) (u\<lparr> tx_hash := Some (m @ [b]) \<rparr>) =
        set_deleg (\<lambda>c. c\<lparr> dl_displayRestake := d' \<rparr>) (u\<lparr> tx_hash := Some (m @ f) \<rparr>) \<and> restake_text f = cstr d'"
    using l z by (intro go) (simp_all add: restake_text_def)
  show ?thesis
    using w(2) r no yes g0 g1 unfolding cur
    by (auto simp: delegation_restake_def hash_data_def byte_at_def)
qed

definition target_bytes :: "bytes \<Rightarrow> bool" where
  "target_bytes tgt \<longleftrightarrow> tgt = [0] \<or> (\<exists>idn. tgt = 1 # idn \<and> length idn = 8)"

lemma target_wp:
  assumes E: "platform E" and a: "deleg_at s m t u" and c: "at_cursor n cur rest"
  shows "wp (delegation_target E cur u)
    (\<lambda>e v. \<exists>f rest' d. rest = f @ rest' \<and> target_bytes f \<and> e = n - length rest' \<and> deleg_at s (m @ f) t v \<and>
       v = set_deleg (\<lambda>c. c\<lparr> dl_displayDelegationTarget := d \<rparr>) (u\<lparr> tx_hash := Some (m @ f) \<rparr>) \<and>
       target_text f = cstr d) (refused s)" (is "wp _ ?Q _")
proof (cases rest)
  case Nil
  then show ?thesis using a c by (simp add: delegation_target_def at_cursor_def deleg_at_def refused_def wf_app_def)
next
  case (Cons b rest')
  have w: "wf_app u" "tx_hash u = Some m" "wf_delegation (deleg u)"
    using a wf_deleg_app by (simp_all add: deleg_at_def)
  then have l: "length (dl_displayDelegationTarget (deleg u)) = 30" by (simp add: wf_delegation_def cbuf_def)
  have r: "refused s e u" if "status_word e" for e using a that by (simp add: deleg_at_def refused_def wf_app_def)
  have cur: "cur = (b # rest', Suc (length rest'), n - Suc (length rest'))" and n: "n < 256" "Suc (length rest') \<le> n"
    using c Cons by (simp_all add: at_cursor_def)
  have adv: "advance 1 cur = (rest', length rest', n - length rest')"
    using c at_advance [of n "[b]" rest' "Suc (length rest')" "n - Suc (length rest')" 1] Cons by (simp add: cur at_cursor_def)
  define Q where "Q = ?Q"
  have go: "Q (n - length rest'') (set_deleg (\<lambda>c. c\<lparr> dl_displayDelegationTarget := d \<rparr>) (u\<lparr> tx_hash := Some (m @ f) \<rparr>))"
    if "cbuf 30 d" "target_bytes f" "rest = f @ rest''" "target_text f = cstr d" for d f rest''
  proof -
    have "wf_app (set_deleg (\<lambda>c. c\<lparr> dl_displayDelegationTarget := d \<rparr>) (u\<lparr> tx_hash := Some (m @ f) \<rparr>))"
      using w that(1) by (intro wf_app_deleg) (simp_all add: wf_delegation_def)
    then show ?thesis unfolding Q_def using that a
      by (intro exI [of _ f] exI [of _ rest''] exI [of _ d]) (auto simp: deleg_at_def same_head_def)
  qed
  have z: "0 \<notin> set (ascii ''Passive Delegation'')" "0 \<notin> set (ascii ''Baker ID '')" by (simp_all add: ascii_def)
  consider (zero) "b = 0" | (baker) "b = 1" | (bad) "b \<noteq> 0" "b \<noteq> 1" by blast
  then have "wp (delegation_target E cur u) Q (refused s)"
  proof cases
    case zero
    have "put (dl_displayDelegationTarget (deleg u)) 0 (lit ''Passive Delegation'') =
        Ok (lit ''Passive Delegation'' @ drop 19 (dl_displayDelegationTarget (deleg u)))"
      using l by (intro put_start) (simp_all add: lit_def)
    moreover have "lit ''Passive Delegation'' @ x = ascii ''Passive Delegation'' @ 0 # x" for x
      by (simp add: lit_def)
    ultimately show ?thesis
      using zero w(2) r go [of "ascii ''Passive Delegation'' @ 0 # drop 19 (dl_displayDelegationTarget (deleg u))" "[0]" rest'] l z Cons adv
      by (simp add: delegation_target_def cur hash_data_def byte_at_def target_bytes_def target_text_def del: rwp_put)
  next
    case baker
    show ?thesis
    proof (cases "length rest' < 8")
      case True
      then show ?thesis using baker w(2) r adv by (auto simp: delegation_target_def cur hash_data_def byte_at_def)
    next
      case False
      then have l8: "8 \<le> length rest'" by simp
      let ?i = "take 8 rest'"
      let ?id = "of_nat (be_nat ?i) :: u64"
      have u: "unat ?id = be_nat ?i" using U8BE_amount(2) [OF l8] .
      have dl: "length (dec (be_nat ?i)) \<le> 20" using length_dec_u64 [of ?id] u by simp
      define d0 where "d0 = ascii ''Baker ID '' @ drop 9 (dl_displayDelegationTarget (deleg u))"
      have p: "put (dl_displayDelegationTarget (deleg u)) 0 (ascii ''Baker ID '') = Ok d0"
        unfolding d0_def using l by (intro put_start) simp_all
      have d0: "take 9 d0 = ascii ''Baker ID ''" "length (drop 9 d0) = 21" using l by (simp_all add: d0_def)
      define tail where "tail = dec (be_nat ?i) @ 0 # drop (length (dec (be_nat ?i)) + 1) (drop 9 d0)"
      have "rwp (bin_to_dec E (drop 9 d0) ?id) (\<lambda>(d, k). d = tail) (\<lambda>_. False)"
        using dl d0(2) u unfolding tail_def by (intro rwp_mono [OF bin_to_dec_wp [OF platformD(4) [OF E]]]) auto
      then obtain k where b: "bin_to_dec E (drop 9 d0) ?id = Ok (tail, k)"
        by (cases "bin_to_dec E (drop 9 d0) ?id") auto
      have cs: "cstr (take 9 d0 @ tail) = ascii ''Baker ID '' @ dec (be_nat ?i)"
        unfolding d0 tail_def using cstr_NUL [of "ascii ''Baker ID '' @ dec (be_nat ?i)"] z by simp
      have Q: "Q (n - length (drop 8 rest')) (set_deleg (\<lambda>c. c\<lparr> dl_displayDelegationTarget := take 9 d0 @ tail \<rparr>)
          (u\<lparr> tx_hash := Some (m @ 1 # ?i) \<rparr>))"
      proof (rule go)
        show "cbuf 30 (take 9 d0 @ tail)" unfolding tail_def using dl d0 by (simp add: cbuf_def)
      qed (use l8 baker Cons cs in \<open>simp_all add: target_bytes_def target_text_def\<close>)
      have e: "(n - length rest' + 8) mod 256 = n - length (drop 8 rest')" using l8 n by simp
      have sl: "slice (b # rest') 0 1 = Ok [b]" "slice rest' 0 8 = Ok ?i" "byte_at (b # rest') 0 = Ok b"
        using l8 by (simp_all add: slice_Ok byte_at_def)
      have r8: "\<not> length rest' < 8" using False .
      show ?thesis
        unfolding delegation_target_def cur prod.case adv [unfolded cur] hash_data_def sl call.simps p b U8BE_amount(1) [OF l8] Let_def e
        using baker w(2) r Q r8 by (simp add: p b del: rwp_put)
    qed
  next
    case bad
    then show ?thesis using w(2) r adv by (simp add: delegation_target_def cur hash_data_def byte_at_def)
  qed
  then show ?thesis unfolding Q_def .
qed

subsection \<open>The flow\<close>

text \<open>The fields the bitmap announces, and the rows for them.\<close>

definition deleg_fields :: "bytes \<Rightarrow> bytes \<Rightarrow> bytes \<Rightarrow> bytes \<Rightarrow> bool" where
  "deleg_fields bm cap res tgt \<longleftrightarrow> length bm = 2 \<and>
     (let w = of_nat (be_nat bm) :: u16 in
      (bit w 0 \<or> bit w 1 \<or> bit w 2) \<and> (if bit w 0 then length cap = 8 else cap = []) \<and>
      (if bit w 1 then res = [0] \<or> res = [1] else res = []) \<and>
      (if bit w 2 then target_bytes tgt else tgt = []))"

definition deleg_rows :: "sdk \<Rightarrow> bytes \<Rightarrow> derivation_path \<Rightarrow> bytes \<Rightarrow> bytes \<Rightarrow> bytes \<Rightarrow> (bytes \<times> bytes) list" where
  "deleg_rows E hdr p cap res tgt = header_pairs E ''Sender'' hdr p @
     (if cap = [] then [] else [capital_row cap]) @
     (if res = [] then [] else [(ascii ''Restake earnings'', restake_text res)]) @
     (if tgt = [] then [] else [(ascii ''Delegation target'', target_text tgt)])"

definition deleg_asked :: "sdk \<Rightarrow> app \<Rightarrow> bytes \<Rightarrow> bytes \<Rightarrow> bytes \<Rightarrow> bytes \<Rightarrow> bytes \<Rightarrow> bool" where
  "deleg_asked E s hdr bm cap res tgt \<longleftrightarrow> header_shown E hdr s \<and> deleg_fields bm cap res tgt \<and>
     asks_to_sign s (hdr @ [CONFIGURE_DELEGATION] @ bm @ cap @ res @ tgt)
       (deleg_rows E hdr (global_derivation_path s) cap res tgt)"

definition deleg_flow :: "sdk \<Rightarrow> app \<Rightarrow> bool" where
  "deleg_flow E s \<longleftrightarrow> (\<exists>hdr bm cap res tgt. deleg_asked E s hdr bm cap res tgt)"

lemma deleg_screen:
  assumes hs: "header_shown E hdr s" and wf: "wf_app s" and f: "deleg_fields bm cap res tgt"
    and m: "tx_hash s = Some (hdr @ [CONFIGURE_DELEGATION] @ bm @ cap @ res @ tgt)"
    and w: "w = (of_nat (be_nat bm) :: u16)" "dl_hasCapital (deleg s) = bit w 0"
      "dl_hasRestakeEarnings (deleg s) = bit w 1" "dl_hasDelegationTarget (deleg s) = bit w 2"
    and d: "bit w 0 \<Longrightarrow> capital_row cap = (if dl_stopDelegation (deleg s) then (ascii ''Action'', ascii ''Stop delegation'')
         else (ascii ''Amount to delegate'', cstr (dl_displayCapital (deleg s))))"
      "bit w 1 \<Longrightarrow> restake_text res = cstr (dl_displayRestake (deleg s))"
      "bit w 2 \<Longrightarrow> target_text tgt = cstr (dl_displayDelegationTarget (deleg s))"
  shows "wp (startConfigureDelegationDisplay s)
    (\<lambda>_ t. deleg_asked E t hdr bm cap res tgt \<and> t = s\<lparr> screen := screen t, status_page := False \<rparr>) X"
proof -
  let ?rows = "addAccountHeaderPairs ''Sender'' s @
         (if dl_hasCapital (deleg s)
          then [if dl_stopDelegation (deleg s) then (lit ''Action'', lit ''Stop delegation'')
                else (lit ''Amount to delegate'', dl_displayCapital (deleg s))] else []) @
         (if dl_hasRestakeEarnings (deleg s)
          then [(lit ''Restake earnings'', dl_displayRestake (deleg s))] else []) @
         (if dl_hasDelegationTarget (deleg s)
          then [(lit ''Delegation target'', dl_displayDelegationTarget (deleg s))] else [])"
  have z: "0 \<notin> set (ascii ''Action'')" "0 \<notin> set (ascii ''Stop delegation'')" "0 \<notin> set (ascii ''Amount to delegate'')"
    "0 \<notin> set (ascii ''Restake earnings'')" "0 \<notin> set (ascii ''Delegation target'')"
    by (simp_all add: ascii_def)
  have b: "0 \<in> set (dl_displayCapital (deleg s))" "0 \<in> set (dl_displayRestake (deleg s))"
    "0 \<in> set (dl_displayDelegationTarget (deleg s))" "wf_sender (global_account_sender s)"
    using wf wf_deleg_app [OF wf] by (simp_all add: wf_delegation_def cbuf_def wf_app_def)
  have nn: "bit w 0 \<longleftrightarrow> cap \<noteq> []" "bit w 1 \<longleftrightarrow> res \<noteq> []" "bit w 2 \<longleftrightarrow> tgt \<noteq> []"
    using f unfolding w(1) by (auto simp: deleg_fields_def target_bytes_def Let_def split: if_splits)
  have rows: "shown_rows ?rows = deleg_rows E hdr (global_derivation_path s) cap res tgt"
    using d w z header_shown_pairs [OF hs, of "''Sender''"] nn by (auto simp: deleg_rows_def)
  show ?thesis
    unfolding startConfigureDelegationDisplay_def Let_def
    by (rule wp_mono [OF sign_review_wp [OF _ _ _ _ m rows]]) (use b hs f in \<open>auto simp: deleg_asked_def asks_to_sign_def\<close>)
qed

lemma capital_step:
  assumes E: "platform E" and a: "deleg_at s m t u" and c: "at_cursor n cur rest"
  shows "wp (if dl_hasCapital (deleg u) then delegation_capital E cur u else Ret cur u)
    (\<lambda>cur' v. \<exists>f rest'. rest = f @ rest' \<and> at_cursor n cur' rest' \<and> deleg_at s (m @ f) t v \<and>
       deleg v = (deleg u)\<lparr> dl_stopDelegation := dl_stopDelegation (deleg v), dl_displayCapital := dl_displayCapital (deleg v) \<rparr> \<and>
       (if dl_hasCapital (deleg u) then length f = 8 \<and> capital_row f = (if dl_stopDelegation (deleg v)
          then (ascii ''Action'', ascii ''Stop delegation'')
          else (ascii ''Amount to delegate'', cstr (dl_displayCapital (deleg v)))) else f = [])) (refused s)"
proof (cases "dl_hasCapital (deleg u)")
  case True
  show ?thesis
    unfolding if_P [OF True]
  proof (rule wp_mono [OF capital_wp [OF E a c]], goal_cases)
    case (1 cur' v)
    then show ?case using True by (elim exE conjE, intro exI conjI) (assumption | simp)+
  qed simp
qed (use a c in simp)

lemma restake_step:
  assumes a: "deleg_at s m t u" and c: "at_cursor n cur rest"
  shows "wp (if dl_hasRestakeEarnings (deleg u) then delegation_restake E cur u else Ret cur u)
    (\<lambda>cur' v. \<exists>f rest'. rest = f @ rest' \<and> at_cursor n cur' rest' \<and> deleg_at s (m @ f) t v \<and>
       deleg v = (deleg u)\<lparr> dl_displayRestake := dl_displayRestake (deleg v) \<rparr> \<and>
       (if dl_hasRestakeEarnings (deleg u) then (f = [0] \<or> f = [1]) \<and> restake_text f = cstr (dl_displayRestake (deleg v))
        else f = [])) (refused s)"
proof (cases "dl_hasRestakeEarnings (deleg u)")
  case True
  show ?thesis
    unfolding if_P [OF True]
  proof (rule wp_mono [OF restake_wp [OF a c]], goal_cases)
    case (1 cur' v)
    then show ?case using True by (elim exE conjE, intro exI conjI) (assumption | simp)+
  qed simp
qed (use a c in simp)

lemma target_step:
  assumes E: "platform E" and a: "deleg_at s m t u" and c: "at_cursor n cur rest"
  shows "wp (if dl_hasDelegationTarget (deleg u) then delegation_target E cur u else Ret (snd (snd cur)) u)
    (\<lambda>e v. \<exists>f rest'. rest = f @ rest' \<and> e = n - length rest' \<and> length rest' \<le> n \<and> deleg_at s (m @ f) t v \<and>
       deleg v = (deleg u)\<lparr> dl_displayDelegationTarget := dl_displayDelegationTarget (deleg v) \<rparr> \<and>
       (if dl_hasDelegationTarget (deleg u) then target_bytes f \<and> target_text f = cstr (dl_displayDelegationTarget (deleg v))
        else f = [])) (refused s)"
proof (cases "dl_hasDelegationTarget (deleg u)")
  case True
  have "length rest \<le> n" using c by (simp add: at_cursor_def)
  then show ?thesis
    unfolding if_P [OF True]
  proof (intro wp_mono [OF target_wp [OF E a c]], goal_cases)
    case (1 e v)
    then show ?case using True by (elim exE conjE, intro exI conjI) (assumption | simp)+
  qed simp
qed (use a c in \<open>simp add: at_cursor_def\<close>)

lemma deleg_at_refused: "deleg_at s m t u \<Longrightarrow> status_word e \<Longrightarrow> refused s e u"
  by (simp add: deleg_at_def refused_def wf_app_def)

lemma delegation_fields_wp:
  assumes E: "platform E" and a: "deleg_at s (hdr @ [CONFIGURE_DELEGATION] @ bm) t u" and c: "at_cursor n cur rest"
    and hs: "header_shown E hdr t" and w: "w = (of_nat (be_nat bm) :: u16)" "length bm = 2"
    and fl: "dl_hasCapital (deleg u) = bit w 0" "dl_hasRestakeEarnings (deleg u) = bit w 1"
      "dl_hasDelegationTarget (deleg u) = bit w 2" "bit w 0 \<or> bit w 1 \<or> bit w 2"
  shows "wp (delegation_fields E n cur u) (\<lambda>_ t. kept (deleg_flow E) s t) (refused s)"
  unfolding delegation_fields_def wp_bind
proof (rule wp_mono [OF capital_step [OF E a c]], goal_cases)
  case (1 cur1 u1)
  then obtain cap r1 where s1: "rest = cap @ r1" "at_cursor n cur1 r1" "deleg_at s ((hdr @ [CONFIGURE_DELEGATION] @ bm) @ cap) t u1"
    and d1: "deleg u1 = (deleg u)\<lparr> dl_stopDelegation := dl_stopDelegation (deleg u1), dl_displayCapital := dl_displayCapital (deleg u1) \<rparr>"
    and f1: "if dl_hasCapital (deleg u) then length cap = 8 \<and> capital_row cap = (if dl_stopDelegation (deleg u1)
          then (ascii ''Action'', ascii ''Stop delegation'')
          else (ascii ''Amount to delegate'', cstr (dl_displayCapital (deleg u1)))) else cap = []" by blast
  have fl1: "dl_hasCapital (deleg u1) = bit w 0" "dl_hasRestakeEarnings (deleg u1) = bit w 1"
    "dl_hasDelegationTarget (deleg u1) = bit w 2"
    using arg_cong [OF d1, of dl_hasCapital] arg_cong [OF d1, of dl_hasRestakeEarnings]
      arg_cong [OF d1, of dl_hasDelegationTarget] fl by simp_all
  show ?case
  proof (rule wp_mono [OF restake_step [OF s1(3,2)]], goal_cases)
    case (1 cur2 u2)
    then obtain res r2 where s2: "r1 = res @ r2" "at_cursor n cur2 r2"
      "deleg_at s (((hdr @ [CONFIGURE_DELEGATION] @ bm) @ cap) @ res) t u2"
      and d2: "deleg u2 = (deleg u1)\<lparr> dl_displayRestake := dl_displayRestake (deleg u2) \<rparr>"
      and f2: "if dl_hasRestakeEarnings (deleg u1)
        then (res = [0] \<or> res = [1]) \<and> restake_text res = cstr (dl_displayRestake (deleg u2)) else res = []" by blast
    have fl2: "dl_hasCapital (deleg u2) = bit w 0" "dl_hasRestakeEarnings (deleg u2) = bit w 1"
      "dl_hasDelegationTarget (deleg u2) = bit w 2" "dl_displayCapital (deleg u2) = dl_displayCapital (deleg u1)"
      "dl_stopDelegation (deleg u2) = dl_stopDelegation (deleg u1)"
      using arg_cong [OF d2, of dl_hasCapital] arg_cong [OF d2, of dl_hasRestakeEarnings]
        arg_cong [OF d2, of dl_hasDelegationTarget] arg_cong [OF d2, of dl_displayCapital]
        arg_cong [OF d2, of dl_stopDelegation] fl1 by simp_all
    show ?case
    proof (rule wp_mono [OF target_step [OF E s2(3,2)]], goal_cases)
      case (1 e u3)
      then obtain tgt r3 where s3: "r2 = tgt @ r3" "e = n - length r3" "length r3 \<le> n"
        "deleg_at s ((((hdr @ [CONFIGURE_DELEGATION] @ bm) @ cap) @ res) @ tgt) t u3"
        and d3: "deleg u3 = (deleg u2)\<lparr> dl_displayDelegationTarget := dl_displayDelegationTarget (deleg u3) \<rparr>"
        and f3: "if dl_hasDelegationTarget (deleg u2)
          then target_bytes tgt \<and> target_text tgt = cstr (dl_displayDelegationTarget (deleg u3)) else tgt = []" by blast
      have fl3: "dl_hasCapital (deleg u3) = bit w 0" "dl_hasRestakeEarnings (deleg u3) = bit w 1"
        "dl_hasDelegationTarget (deleg u3) = bit w 2" "dl_displayCapital (deleg u3) = dl_displayCapital (deleg u1)"
        "dl_stopDelegation (deleg u3) = dl_stopDelegation (deleg u1)" "dl_displayRestake (deleg u3) = dl_displayRestake (deleg u2)"
        using arg_cong [OF d3, of dl_hasCapital] arg_cong [OF d3, of dl_hasRestakeEarnings]
          arg_cong [OF d3, of dl_hasDelegationTarget] arg_cong [OF d3, of dl_displayCapital]
          arg_cong [OF d3, of dl_stopDelegation] arg_cong [OF d3, of dl_displayRestake] fl2 by simp_all
      have u3: "wf_app u3" "tx_hash u3 = Some (hdr @ [CONFIGURE_DELEGATION] @ bm @ cap @ res @ tgt)"
        "replies u3 = replies s" "currentInstruction u3 = currentInstruction s" "header_shown E hdr u3"
        using s3(4) hs same_head_header [of t u3 E hdr] by (simp_all add: deleg_at_def)
      have df: "deleg_fields bm cap res tgt"
        using f1 f2 f3 fl fl1 fl2 w by (auto simp: deleg_fields_def Let_def split: if_splits)
      have "wp (startConfigureDelegationDisplay u3) (\<lambda>_ t. kept (deleg_flow E) s (t\<lparr> async_reply := True \<rparr>)) (refused s)"
      proof (rule wp_mono [OF deleg_screen [OF u3(5,1) df u3(2) w(1) fl3(1-3)]], goal_cases)
        case (4 a x)
        define sc where "sc = screen x"
        have x: "x = u3\<lparr> screen := sc, status_page := False \<rparr>" using 4 sc_def by blast
        have ask: "deleg_asked E x hdr bm cap res tgt" using 4 by blast
        then have aw: "awaiting x" by (auto simp: deleg_asked_def intro: asks_awaiting)
        have "deleg_flow E (x\<lparr> async_reply := True \<rparr>)"
          using ask unfolding deleg_flow_def
          by (intro exI [of _ hdr] exI [of _ bm] exI [of _ cap] exI [of _ res] exI [of _ tgt])
            (simp add: deleg_asked_def asks_to_sign_def header_shown_def)
        then show ?case using aw u3 by (intro kept_review) (simp_all add: x)
      qed (use f1 f2 f3 fl fl1 fl2 fl3 in \<open>simp_all split: if_splits\<close>)
      then show ?case using deleg_at_refused [OF s3(4)] by simp
    qed simp
  qed simp
qed simp

lemma deleg_open:
  assumes E: "platform E" and wf: "wf_app s" "\<not> awaiting s" and len: "length (cmd_data c) < 256"
  shows "wp (handle_sign_configure_delegation E c True s) (\<lambda>_ t. kept (deleg_flow E) s t) (refused s)"
  unfolding handle_sign_configure_delegation_def Let_def [of "cmd_data c"] Let_def [of "length (cmd_data c)"] wp_bind
    if_not_P [OF not_not [THEN iffD2, OF TrueI]]
proof (rule wp_mono [OF path_step [OF wf(1)]], goal_cases)
  case (1 n t)
  then obtain ns where p: "path_done (cmd_data c) s ns n t" by blast
  note pd = path_doneD [OF p wf(1)]
  have n: "\<not> length (cmd_data c) < n" using pd(5) by simp
  show ?case
    unfolding if_not_P [OF n] Let_def wp_bind
  proof (rule wp_init_step, goal_cases)
    case 1
    show ?case
    proof (rule wp_mono [OF account_header_step [OF E wf(1) len p]], goal_cases)
      case (3 k v)
      then obtain hdr rest where h: "header_done E ns hdr (hdr @ [CONFIGURE_DELEGATION]) s v" "k = 61"
        "n + 61 \<le> length (cmd_data c)" "cmd_data c = path_bytes ns @ hdr @ [CONFIGURE_DELEGATION] @ rest"
        "drop (61 + n) (cmd_data c) = rest" "sub8 (sub8 (length (cmd_data c)) n) 61 = length rest" by blast
      note hd = header_doneD [OF h(1)]
      let ?N = "length (cmd_data c)"
      have nk: "\<not> sub8 ?N n < k" using h(2,3) len by simp
      have d: "drop k (drop n (cmd_data c)) = rest" "sub8 (sub8 ?N n) k = length rest" using h(2,5,6) by simp_all
      have r: "refused s e v" if "status_word e" for e using that hd by (simp add: refused_def wf_app_def)
      show ?case
      proof (cases "length rest < 2")
        case False
        let ?bm = "take 2 rest" and ?rest = "drop 2 rest"
        define w where "w = (of_nat (be_nat ?bm) :: u16)"
        have U: "U2BE rest 0 = Ok w" using False by (simp add: U2BE_def slice_Ok w_def)
        let ?m = "hdr @ [CONFIGURE_DELEGATION] @ ?bm"
        let ?u = "set_deleg (\<lambda>c. c\<lparr> dl_hasCapital := bit w 0, dl_hasRestakeEarnings := bit w 1,
          dl_hasDelegationTarget := bit w 2 \<rparr>) (v\<lparr> tx_hash := Some ?m \<rparr>)"
        have wu: "wf_app ?u" using hd(5) wf_deleg_app [OF hd(5)] by (intro wf_app_deleg) (simp_all add: wf_delegation_def)
        have lr: "?N = n + 61 + length rest"
          using h(3) h(5) [THEN arg_cong [where f = length]] by simp
        have cu: "at_cursor ?N (?rest, sub8 (length rest) 2, (n + k + 2) mod 256) ?rest"
          using len False lr h(2) by (simp add: at_cursor_def)
        have au: "deleg_at s ?m v ?u" using hd wu by (simp add: deleg_at_def same_head_def)
        have "wp (delegation_fields E ?N (?rest, sub8 (length rest) 2, (n + k + 2) mod 256) ?u)
            (\<lambda>_ t. kept (deleg_flow E) s t) (refused s)" if "bit w 0 \<or> bit w 1 \<or> bit w 2"
          by (rule delegation_fields_wp [OF E au cu hd(3) w_def]) (use False that in simp_all)
        then show ?thesis
          unfolding if_not_P [OF nk] d Let_def
          using False by (auto simp: hash_data_def hd(4) U r slice_Ok)
      qed (use nk in \<open>simp add: r d [simplified]\<close>)
    qed (use pd in simp_all)
  qed (simp add: pd(7))
qed simp

lemma deleg_handle:
  assumes "platform E" "wf_app s" "\<not> awaiting s" "length (cmd_data c) < 256"
  shows "wp (handle_sign_configure_delegation E c initial s) (\<lambda>_ t. kept (deleg_flow E) s t) (refused s)"
  using deleg_open [OF assms] refused_self [OF assms(2)]
  by (cases initial) (simp_all add: handle_sign_configure_delegation_def)

lemma deleg_choice:
  assumes "platform E" "wf_app s" "\<not> awaiting s" "deleg_flow E (s\<lparr> screen := Some rv \<rparr>)"
  shows "rv_callback rv = review_choice_sign"
    "wp (choose_sign E confirm s) (\<lambda>_ t. decided confirm (deleg_flow E) s t) (\<lambda>_ _. False)"
proof -
  obtain m rows where "asks_to_sign (s\<lparr> screen := Some rv \<rparr>) m rows"
    using assms(4) unfolding deleg_flow_def deleg_asked_def by blast
  then show "rv_callback rv = review_choice_sign"
    "wp (choose_sign E confirm s) (\<lambda>_ t. decided confirm (deleg_flow E) s t) (\<lambda>_ _. False)"
    using sign_choice_kept [OF assms(1-3)] by blast+
qed

subsection \<open>The contract\<close>

interpretation delegation_sign: sign_flow handle_sign_configure_delegation "\<lambda>E s. awaiting s \<longrightarrow> deleg_flow E s"
proof (unfold_locales, goal_cases)
  case (1 E s c initial)
  then show ?case using deleg_handle [of E s c initial] by (auto elim!: wp_mono kept_weaken)
next
  case (2 E s rv confirm)
  then have "deleg_flow E (s\<lparr> screen := Some rv \<rparr>)" by blast
  from deleg_choice(1) [OF 2(1-3) this] deleg_choice(2) [OF 2(1-3) this, of confirm] show ?case
    by (auto elim!: wp_mono decided_weaken)
qed simp_all

end
