(* ===== verification/PublicKey.thy ===== *)
theory PublicKey
  imports Payload
begin

text \<open>
  Export of a public key: src/src/handler/get_public_key.c.

  The path of the request is pinned in \<open>global_reviewed_path\<close> before anything is drawn.  The
  review names the identity of that path, and the key sent on approval, and then shown for
  comparison, is derived from the pin.
\<close>

subsection \<open>Operations\<close>

abbreviation P1_SKIP_DISPLAY :: u8 where "P1_SKIP_DISPLAY \<equiv> 1"
abbreviation P2_SIGN_PUBLIC_KEY :: u8 where "P2_SIGN_PUBLIC_KEY \<equiv> 1"
abbreviation GOVERNANCE_KEY_PATH_LENGTH :: nat where "GOVERNANCE_KEY_PATH_LENGTH \<equiv> 5"
abbreviation GOVERNANCE_IDENTITY_INDEX :: u32 where "GOVERNANCE_IDENTITY_INDEX \<equiv> 1"
abbreviation IO_APDU_BUFFER_SIZE :: nat where "IO_APDU_BUFFER_SIZE \<equiv> 260"

abbreviation pubkey :: "app \<Rightarrow> exportPublicKeyContext" where
  "pubkey s \<equiv> exportPublicKeyContext (global s)"

definition set_pubkey :: "(exportPublicKeyContext \<Rightarrow> exportPublicKeyContext) \<Rightarrow> app \<Rightarrow> app" where
  "set_pubkey f s = s\<lparr> global := (global s)\<lparr> exportPublicKeyContext := f (exportPublicKeyContext (global s)) \<rparr> \<rparr>"

text \<open>The payload of the reply.\<close>

definition public_key_payload :: "sdk \<Rightarrow> app \<Rightarrow> bytes \<Rightarrow> bytes result" where
  "public_key_payload E s publicKey =
     (if pk_signPublicKey (pubkey s) then
        rbind (sign E (global_reviewed_path s) publicKey) (\<lambda>signedPublicKey.
        if IO_APDU_BUFFER_SIZE - length publicKey < length signedPublicKey then Err ERROR_BUFFER_OVERFLOW
        else Ok (publicKey @ signedPublicKey))
      else Ok publicKey)"

text \<open>The hex text of the 32-byte key fills the 68-byte snapshot, so its old bytes are not read.\<close>

definition send_public_key :: "sdk \<Rightarrow> bool \<Rightarrow> app \<Rightarrow> unit act" where
  "send_public_key E compare s =
     (let s = s\<lparr> global_public_key_review_pending := False \<rparr> in
      call (get_public_key E (global_reviewed_path s)) s (\<lambda>publicKey.
      call (public_key_payload E s publicKey) s (\<lambda>payload.
      if compare then
        bind (send_success_result_no_idle payload s) (\<lambda>_ s.
        call (to_paginated_hex publicKey (zeros 68)) s (\<lambda>hex.
        let s = s\<lparr> global_compare_public_key := \<lparr> ck_display = pk_display (pubkey s), ck_publicKey = hex \<rparr>,
              currentInstruction := INSTRUCTION_NONE \<rparr> in
        uiComparePubkey s))
      else send_success payload s)))"

definition governance_display :: "bytes \<Rightarrow> u32 \<Rightarrow> bytes result" where
  "governance_display dst level =
     (if length dst < 13 then Err ERROR_BUFFER_OVERFLOW
      else if level = 0 then put dst 0 (lit ''Gov. root'')
      else if level = 1 then put dst 0 (lit ''Gov. level 1'')
      else if level = 2 then put dst 0 (lit ''Gov. level 2'')
      else Err ERROR_INVALID_PATH)"

text \<open>The identity row of an unhardened path.\<close>

definition public_key_display :: "sdk \<Rightarrow> derivation_path \<Rightarrow> bytes \<Rightarrow> bytes result" where
  "public_key_display E dp dst =
     (let legacy5 = (path_len dp = GOVERNANCE_KEY_PATH_LENGTH \<and> nodes dp ! 0 = LEGACY_PURPOSE) in
      if legacy5 \<and> nodes dp ! 2 \<noteq> GOVERNANCE_IDENTITY_INDEX then Err ERROR_INVALID_PATH
      else if legacy5 \<and> nodes dp ! 2 = GOVERNANCE_IDENTITY_INDEX then governance_display dst (nodes dp ! 3)
      else if variant dp = DERIVATION_PATH_VARIANT_NEW
      then path_display_new E dst (nodes dp ! 2) (nodes dp ! 3) (nodes dp ! 4)
      else path_display_legacy E dst (nodes dp ! 4) (nodes dp ! 6))"

definition handle_get_public_key :: "sdk \<Rightarrow> command \<Rightarrow> bool \<Rightarrow> app \<Rightarrow> unit act" where
  "handle_get_public_key E cmd isInitialCall s =
     (if global_public_key_review_pending s then io_send_sw ERROR_INVALID_STATE s
      else
        bind (parse_path (cmd_data cmd) s) (\<lambda>_ s.
        let s = set_pubkey (\<lambda>c. c\<lparr> pk_signPublicKey := (cmd_p2 cmd = P2_SIGN_PUBLIC_KEY) \<rparr>)
              (s\<lparr> global_reviewed_path := global_derivation_path s \<rparr>) in
        if cmd_p1 cmd = P1_SKIP_DISPLAY then send_public_key E False s
        else
          let dp = unharden_derivation_path (global_derivation_path s);
              s = s\<lparr> global_derivation_path := dp \<rparr> in
          call (public_key_display E dp (pk_display (pubkey s))) s (\<lambda>d.
          let s = (set_pubkey (\<lambda>c. c\<lparr> pk_display := d \<rparr>) s)
                \<lparr> global_derivation_path := harden_derivation_path dp \<rparr> in
          call (get_public_key E (global_reviewed_path s)) s (\<lambda>publicKey.
          call (to_paginated_hex publicKey (pk_publicKey (pubkey s))) s (\<lambda>hex.
          uiGeneratePubkey ((set_pubkey (\<lambda>c. c\<lparr> pk_publicKey := hex \<rparr>) s)
            \<lparr> global_public_key_review_pending := True \<rparr>))))))"

text \<open>\<open>review_public_key_choice\<close> of display_nbgl.c.\<close>

definition choose_public_key :: "sdk \<Rightarrow> bool \<Rightarrow> app \<Rightarrow> unit act" where
  "choose_public_key E confirm s =
     (if confirm then ux_run_guarded (send_public_key E True) s else send_user_rejection s)"

subsection \<open>Frames\<close>

lemma set_pubkey_simps [simp]:
  "pubkey (set_pubkey f s) = f (pubkey s)" "replies (set_pubkey f s) = replies s"
  "screen (set_pubkey f s) = screen s" "currentInstruction (set_pubkey f s) = currentInstruction s"
  "global_derivation_path (set_pubkey f s) = global_derivation_path s"
  "global_account_sender (set_pubkey f s) = global_account_sender s"
  "global_reviewed_path (set_pubkey f s) = global_reviewed_path s"
  "awaiting (set_pubkey f s) = awaiting s" "same_ui t (set_pubkey f s) = same_ui t s"
  by (simp_all add: set_pubkey_def awaiting_def same_ui_def)

lemma wf_app_pubkey: "wf_app s \<Longrightarrow> wf_public_key (f (pubkey s)) \<Longrightarrow> wf_app (set_pubkey f s)"
  by (simp add: set_pubkey_def wf_app_def wf_context_def)

lemma wf_pubkey_app: "wf_app s \<Longrightarrow> wf_public_key (pubkey s)"
  by (simp add: wf_app_def wf_context_def)

lemma wf_unharden [simp]: "wf_path dp \<Longrightarrow> wf_path (unharden_derivation_path dp)"
  by (simp add: wf_path_def unharden_derivation_path_def used_nodes_def)

subsection \<open>Texts\<close>

lemma number_at_wp:
  assumes "formats_numbers E" "k = length pre"
  shows "rwp (at_offset (pre @ rest) k (\<lambda>d. number_to_text E d v))
    (\<lambda>(d, n). n = length (dec (unat v)) \<and> n \<le> length rest \<and> d = (pre @ dec (unat v)) @ drop n rest)
    (\<lambda>e. e = ERROR_BUFFER_OVERFLOW)"
  using assms by (auto simp: at_offset_def intro: rwp_mono [OF number_to_text_wp])

lemma decimal_at_wp:
  assumes "formats_numbers E" "k = length pre"
  shows "rwp (at_offset (pre @ rest) k (\<lambda>d. bin_to_dec E d v))
    (\<lambda>(d, _). \<exists>r. d = (pre @ dec (unat v)) @ 0 # r \<and> length d = length (pre @ rest))
    (\<lambda>e. e = ERROR_BUFFER_OVERFLOW)"
  using assms by (auto simp: at_offset_def intro: rwp_mono [OF bin_to_dec_wp])

lemma text_cbuf:
  assumes "d = t @ 0 # r" "length d = n" "0 \<notin> set t"
  shows "cbuf n d \<and> cstr d = t"
  using assms by (auto simp: cbuf_def)

text \<open>A slash after the text written so far, when there is room for it.\<close>

lemma put_slash:
  assumes "length dst \<noteq> n" "dst = pre @ drop n rest" "n = length pre" "n \<le> length rest"
  shows "put dst n [47] = Ok ((pre @ [47]) @ drop (n + 1) rest)"
  using assms by (simp add: put_Ok)

lemma display_legacy_wp:
  assumes E: "formats_numbers E"
  shows "rwp (path_display_legacy E dst a b)
    (\<lambda>d. cbuf (length dst) d \<and> cstr d = dec (unat a) @ 47 # dec (unat b)) (\<lambda>e. e = ERROR_BUFFER_OVERFLOW)"
  unfolding path_display_legacy_def rwp_bind
proof (rule rwp_mono [OF number_to_text_wp [OF E]], goal_cases)
  case (1 r)
  obtain d1 n where r: "r = (d1, n)" by (cases r)
  let ?a = "dec (unat a)"
  from 1 r have n: "n = length ?a" "n \<le> length dst" "d1 = ?a @ drop n dst" by simp_all
  show ?case
  proof (cases "length d1 \<le> n")
    case False
    then have p: "put d1 n [47] = Ok ((?a @ [47]) @ drop (n + 1) dst)" using n by (intro put_slash) simp_all
    have "rwp (at_offset ((?a @ [47]) @ drop (n + 1) dst) (n + 1) (\<lambda>d. bin_to_dec E d (ucast b)))
        (\<lambda>(d, _). cbuf (length dst) d \<and> cstr d = ?a @ 47 # dec (unat b)) (\<lambda>e. e = ERROR_BUFFER_OVERFLOW)"
    proof (rule rwp_mono [OF decimal_at_wp [OF E]], goal_cases)
      case (2 x)
      then obtain d m rr where "x = (d, m)" "d = ((?a @ [47]) @ dec (unat b)) @ 0 # rr" "length d = length dst"
        using False n by (cases x) auto
      then show ?case using text_cbuf [of d "(?a @ [47]) @ dec (unat b)" rr "length dst"] by simp
    qed (simp_all add: n)
    then show ?thesis using False p by (simp add: r case_prod_unfold)
  qed (simp add: r)
qed simp

lemma display_new_wp:
  assumes E: "formats_numbers E"
  shows "rwp (path_display_new E dst a b c)
    (\<lambda>d. cbuf (length dst) d \<and> cstr d = dec (unat a) @ 47 # dec (unat b) @ 47 # dec (unat c))
    (\<lambda>e. e = ERROR_BUFFER_OVERFLOW)"
  unfolding path_display_new_def rwp_bind
proof (rule rwp_mono [OF number_to_text_wp [OF E]], goal_cases)
  case (1 r)
  obtain d1 n where r: "r = (d1, n)" by (cases r)
  let ?a = "dec (unat a)" and ?b = "dec (unat b)" and ?c = "dec (unat c)"
  from 1 r have n: "n = length ?a" "n \<le> length dst" "d1 = ?a @ drop n dst" by simp_all
  show ?case
  proof (cases "length d1 \<le> n")
    case False
    then have p: "put d1 n [47] = Ok ((?a @ [47]) @ drop (n + 1) dst)" using n by (intro put_slash) simp_all
    have l: "n < length dst" using False n by simp
    define Q where "Q d \<longleftrightarrow> cbuf (length dst) d \<and> cstr d = ?a @ 47 # ?b @ 47 # ?c" for d
    have "rwp (at_offset ((?a @ [47]) @ drop (n + 1) dst) (n + 1) (\<lambda>d. number_to_text E d (ucast b)))
        (\<lambda>(d, m). let k = n + 1 + m in rwp (if length d \<le> k then Err ERROR_BUFFER_OVERFLOW
           else rbind (put d k [47]) (\<lambda>d. let k = k + 1 in
            rbind (at_offset d k (\<lambda>d. bin_to_dec E d (ucast c))) (\<lambda>(d, _). Ok d))) Q (\<lambda>e. e = ERROR_BUFFER_OVERFLOW))
        (\<lambda>e. e = ERROR_BUFFER_OVERFLOW)"
    proof (rule rwp_mono [OF number_at_wp [OF E]], goal_cases)
      case (2 x)
      obtain d m where x: "x = (d, m)" by (cases x)
      from 2 x l have m: "m = length ?b" "n + 1 + m \<le> length dst" "d = ((?a @ [47]) @ ?b) @ drop (n + 1 + m) dst"
        by (auto simp: ac_simps)
      show ?case
      proof (cases "length d \<le> n + 1 + m")
        case False
        then have p2: "put d (n + 1 + m) [47] = Ok ((((?a @ [47]) @ ?b) @ [47]) @ drop (n + 1 + m + 1) dst)"
          using m n by (intro put_slash) simp_all
        have "rwp (at_offset ((((?a @ [47]) @ ?b) @ [47]) @ drop (n + 1 + m + 1) dst) (n + 1 + m + 1)
            (\<lambda>d. bin_to_dec E d (ucast c))) (\<lambda>(d, _). Q d) (\<lambda>e. e = ERROR_BUFFER_OVERFLOW)"
        proof (rule rwp_mono [OF decimal_at_wp [OF E]], goal_cases)
          case (2 y)
          then obtain d' k rr where "y = (d', k)" "d' = ((((?a @ [47]) @ ?b) @ [47]) @ ?c) @ 0 # rr"
            "length d' = length dst" using False m n by (cases y) auto
          then show ?case using text_cbuf [of d' "(((?a @ [47]) @ ?b) @ [47]) @ ?c" rr "length dst"] by (simp add: Q_def)
        qed (simp_all add: n m)
        then show ?thesis using False p2 by (simp add: x Let_def case_prod_unfold)
      qed (simp add: x)
    qed (simp_all add: n)
    then show ?thesis using False p unfolding Q_def by (simp add: r Let_def case_prod_unfold del: rwp_put cong del: if_weak_cong)
  qed (simp add: r)
qed simp

text \<open>The identity a review names for an unhardened path.\<close>

definition key_label :: "derivation_path \<Rightarrow> bytes" where
  "key_label dp =
     (if path_len dp = GOVERNANCE_KEY_PATH_LENGTH \<and> nodes dp ! 0 = LEGACY_PURPOSE
      then (if nodes dp ! 3 = 0 then ascii ''Gov. root''
            else ascii ''Gov. level '' @ dec (unat (nodes dp ! 3)))
      else if variant dp = DERIVATION_PATH_VARIANT_NEW
      then dec (unat (nodes dp ! 2)) @ 47 # dec (unat (nodes dp ! 3)) @ 47 # dec (unat (nodes dp ! 4))
      else dec (unat (nodes dp ! 4)) @ 47 # dec (unat (nodes dp ! 6)))"

lemma governance_wp:
  "rwp (governance_display dst level)
    (\<lambda>d. cbuf (length dst) d \<and>
      cstr d = (if level = 0 then ascii ''Gov. root'' else ascii ''Gov. level '' @ dec (unat level)))
    (\<lambda>e. e \<in> {ERROR_BUFFER_OVERFLOW, ERROR_INVALID_PATH})"
proof -
  have z: "0 \<notin> set (ascii ''Gov. root'')" "0 \<notin> set (ascii ''Gov. level 1'')" "0 \<notin> set (ascii ''Gov. level 2'')"
    by (simp_all add: ascii_def)
  have d: "ascii ''Gov. level '' @ dec 1 = ascii ''Gov. level 1''" "ascii ''Gov. level '' @ dec 2 = ascii ''Gov. level 2''"
    by (simp_all add: dec_single ascii_def digit_def)
  have p: "rwp (put dst 0 (lit t)) (\<lambda>d. cbuf (length dst) d \<and> cstr d = ascii t) X"
    if "length t < length dst" "0 \<notin> set (ascii t)" for t X
    using that text_cbuf [of "ascii t @ 0 # drop (Suc (length t)) dst" "ascii t" _ "length dst"]
    by (simp add: lit_def)
  show ?thesis using p [OF _ z(1)] p [OF _ z(2)] p [OF _ z(3)] d by (simp add: governance_display_def del: rwp_put)
qed

lemma public_key_display_wp:
  assumes "formats_numbers E"
  shows "rwp (public_key_display E dp dst) (\<lambda>d. cbuf (length dst) d \<and> cstr d = key_label dp) status_word"
proof -
  have l: "rwp (path_display_legacy E dst (nodes dp ! 4) (nodes dp ! 6))
      (\<lambda>d. cbuf (length dst) d \<and> cstr d = dec (unat (nodes dp ! 4)) @ 47 # dec (unat (nodes dp ! 6))) status_word"
    by (rule rwp_mono [OF display_legacy_wp [OF assms]]) simp_all
  have n: "rwp (path_display_new E dst (nodes dp ! 2) (nodes dp ! 3) (nodes dp ! 4))
      (\<lambda>d. cbuf (length dst) d \<and> cstr d = dec (unat (nodes dp ! 2)) @ 47 # dec (unat (nodes dp ! 3)) @ 47 # dec (unat (nodes dp ! 4)))
      status_word"
    by (rule rwp_mono [OF display_new_wp [OF assms]]) simp_all
  have g: "rwp (governance_display dst level)
      (\<lambda>d. cbuf (length dst) d \<and> cstr d = (if level = 0 then ascii ''Gov. root'' else ascii ''Gov. level '' @ dec (unat level)))
      status_word" for level
    by (rule rwp_mono [OF governance_wp]) auto
  show ?thesis
    using l n g by (simp add: public_key_display_def key_label_def Let_def)
qed

subsection \<open>The review\<close>

lemma payload_wp:
  assumes "derives_keys E" "length key = 32"
  shows "rwp (public_key_payload E s key)
    (\<lambda>payload. \<exists>sg. payload = key @ sg \<and>
      (if pk_signPublicKey (pubkey s) then sign E (global_reviewed_path s) key = Ok sg else sg = []))
    (\<lambda>e. e = ERROR_FAILED_CX_OPERATION \<and> pk_signPublicKey (pubkey s) \<and>
      (\<nexists>sg. sign E (global_reviewed_path s) key = Ok sg))"
proof (cases "sign E (global_reviewed_path s) key")
  case (Ok sg)
  then have "length sg = 64" using rwp_sign [OF assms(1), of "global_reviewed_path s" key] by simp
  then show ?thesis using Ok assms(2) by (simp add: public_key_payload_def)
qed (use rwp_sign [OF assms(1), of "global_reviewed_path s" key] in \<open>simp_all add: public_key_payload_def\<close>)

text \<open>The reply of the instruction: the key of the pinned path, and its signature when asked for.\<close>

definition key_reply :: "sdk \<Rightarrow> app \<Rightarrow> bytes \<Rightarrow> bytes \<Rightarrow> bool" where
  "key_reply E s key sg \<longleftrightarrow> get_public_key E (global_reviewed_path s) = Ok key \<and> length key = 32 \<and>
     (if pk_signPublicKey (pubkey s) then sign E (global_reviewed_path s) key = Ok sg else sg = [])"

lemma send_public_key_wp:
  assumes E: "platform E" and wf: "wf_app s"
  shows "wp (send_public_key E compare s)
    (\<lambda>_ t. \<exists>key sg. key_reply E s key sg \<and> replies t = replies s @ [(key @ sg, SWO_SUCCESS)] \<and>
      wf_app t \<and> \<not> claimed t \<and> \<not> awaiting t \<and>
      (compare \<longrightarrow> (\<exists>rv. screen t = Some rv \<and> rv_callback rv = review_choice \<and>
         rv_pairs rv = [(ascii ''Identity'', cstr (pk_display (pubkey s))), (ascii ''Public key'', hex_pages key)])))
    (\<lambda>e t. e = ERROR_FAILED_CX_OPERATION \<and> (\<nexists>key sg. key_reply E s key sg) \<and>
      t = s\<lparr> global_public_key_review_pending := False \<rparr>)"
proof -
  have z: "0 \<notin> set (ascii ''Identity'')" "0 \<notin> set (ascii ''Public key'')" by (simp_all add: ascii_def)
  have c: "0 \<in> set (pk_display (pubkey s))" using wf_pubkey_app [OF wf] by (simp add: wf_public_key_def cbuf_def)
  show ?thesis
  proof (cases "get_public_key E (global_reviewed_path s)")
    case (Ok key)
    then have k: "length key = 32" "get_public_key E (global_reviewed_path s) = Ok key"
      using rwp_get_public_key [OF platformD(8) [OF E], of "global_reviewed_path s"] by simp_all
    have hex: "to_paginated_hex key (zeros 68) = Ok (hex_pages key @ 0 # drop (length (hex_pages key) + 1) (zeros 68))"
      using k(1) by (intro to_paginated_hex_Ok) auto
    have p: "public_key_payload E (s\<lparr> global_public_key_review_pending := False \<rparr>) key = public_key_payload E s key"
      by (simp add: public_key_payload_def)
    have pay: "rwp (public_key_payload E s key) Q X"
      if "\<And>sg. key_reply E s key sg \<Longrightarrow> Q (key @ sg)" "(\<nexists>key sg. key_reply E s key sg) \<Longrightarrow> X ERROR_FAILED_CX_OPERATION" for Q X
    proof (rule rwp_mono [OF payload_wp [OF platformD(8) [OF E] k(1)]], goal_cases)
      case (1 payload)
      then obtain sg where sg: "payload = key @ sg" "if pk_signPublicKey (pubkey s)
        then sign E (global_reviewed_path s) key = Ok sg else sg = []" by blast
      then have "key_reply E s key sg" using k by (simp add: key_reply_def)
      then show ?case using that(1) sg(1) by simp
    next
      case (2 e)
      then show ?case using that(2) k by (simp add: key_reply_def)
    qed
    have g: "get_public_key E (global_reviewed_path (s\<lparr> global_public_key_review_pending := False \<rparr>)) = Ok key"
      using k(2) by simp
    show ?thesis
      unfolding send_public_key_def Let_def wp_call g rwp.simps p
    proof (rule pay, goal_cases)
      case (1 sg)
      then show ?case
        using wf z c by (auto simp: hex uiComparePubkey_def use_case_defs Let_def claimed_def awaiting_def)
    qed simp
  qed (use rwp_get_public_key [OF platformD(8) [OF E], of "global_reviewed_path s"] in
      \<open>simp_all add: send_public_key_def key_reply_def\<close>)
qed

text \<open>While the review is up it names the pinned path, and so does the buffer of the comparison.\<close>

definition key_asked :: "app \<Rightarrow> bool" where
  "key_asked s \<longleftrightarrow> (\<exists>rv. screen s = Some rv \<and> rv_callback rv = review_public_key_choice \<and>
     rv_pairs rv = [(ascii ''Identity'', key_label (unharden_derivation_path (global_reviewed_path s)))]) \<and>
     cstr (pk_display (pubkey s)) = key_label (unharden_derivation_path (global_reviewed_path s))"

definition key_flow :: "sdk \<Rightarrow> app \<Rightarrow> bool" where
  "key_flow E s \<longleftrightarrow> (awaiting s \<longrightarrow> key_asked s)"

lemma key_review_wp:
  assumes E: "platform E" and wf: "wf_app s"
    and p: "global_derivation_path s = unharden_derivation_path (global_reviewed_path s)"
    and r: "\<And>e t. status_word e \<Longrightarrow> wf_app t \<Longrightarrow> same_ui s t \<Longrightarrow> X e t"
  shows "wp (call (public_key_display E (global_derivation_path s) (pk_display (pubkey s))) s (\<lambda>d.
          let s = (set_pubkey (\<lambda>c. c\<lparr> pk_display := d \<rparr>) s)
                \<lparr> global_derivation_path := harden_derivation_path (global_derivation_path s) \<rparr> in
          call (get_public_key E (global_reviewed_path s)) s (\<lambda>publicKey.
          call (to_paginated_hex publicKey (pk_publicKey (pubkey s))) s (\<lambda>hex.
          uiGeneratePubkey ((set_pubkey (\<lambda>c. c\<lparr> pk_publicKey := hex \<rparr>) s)
            \<lparr> global_public_key_review_pending := True \<rparr>)))))
    (\<lambda>_ t. key_asked t \<and> wf_app t \<and> replies t = replies s \<and> currentInstruction t = currentInstruction s) X"
  unfolding wp_call Let_def
proof (rule rwp_mono [OF public_key_display_wp [OF platformD(4) [OF E]]], goal_cases)
  case (1 d)
  let ?s = "set_pubkey (\<lambda>c. c\<lparr> pk_display := d \<rparr>) s\<lparr> global_derivation_path := harden_derivation_path (global_derivation_path s) \<rparr>"
  have wpk: "wf_public_key (pubkey s)" using wf by (rule wf_pubkey_app)
  have d: "cbuf 21 d" "cstr d = key_label (global_derivation_path s)"
    using 1 wpk by (simp_all add: wf_public_key_def cbuf_def)
  have "wf_app (set_pubkey (\<lambda>c. c\<lparr> pk_display := d \<rparr>) s)"
    using wpk d(1) by (intro wf_app_pubkey wf) (simp add: wf_public_key_def)
  then have w: "wf_app ?s" by (simp add: wf_app_def)
  have k: "rwp (get_public_key E (global_reviewed_path ?s)) (\<lambda>k. length k = 32) (\<lambda>e. e = ERROR_FAILED_CX_OPERATION)"
    by (rule rwp_get_public_key [OF platformD(8) [OF E]])
  have ui: "same_ui s ?s" by simp
  show ?case
  proof (rule rwp_mono [OF k], goal_cases)
    case (1 key)
    have l: "length (pk_publicKey (pubkey s)) = 68" using wpk by (simp add: wf_public_key_def cbuf_def)
    have "key \<noteq> []" using 1 by auto
    then have "length (hex_pages key) = 67"
      using 1 length_hex_from [of key 0] by (simp add: hex_from_pages)
    then have hex: "to_paginated_hex key (pk_publicKey (pubkey s)) = Ok (hex_pages key @ [0])"
      using 1 l to_paginated_hex_Ok [of key "pk_publicKey (pubkey s)"] by fastforce
    let ?u = "set_pubkey (\<lambda>c. c\<lparr> pk_publicKey := hex_pages key @ [0] \<rparr>) ?s"
    have wu: "wf_app ?u" using wpk d(1) \<open>length (hex_pages key) = 67\<close> w
      by (intro wf_app_pubkey w) (simp add: wf_public_key_def)
    have n: "0 \<in> set d" "0 \<notin> set (ascii ''Identity'')" using d(1) by (simp_all add: cbuf_def ascii_def)
    then show ?case
      using wu d(2) by (simp add: hex uiGeneratePubkey_def use_case_defs key_asked_def p)
  qed (use r w ui in simp)
qed (use r wf in simp)

lemma key_handle:
  assumes E: "platform E" and wf: "wf_app s" "\<not> awaiting s"
  shows "wp (handle_get_public_key E c initial s) 
    (\<lambda>_ t. settled (key_flow E) s t \<and> (cmd_p1 c = P1_SKIP_DISPLAY \<or> silent s t)) (refused s)"
proof (cases "global_public_key_review_pending s")
  case True
  then show ?thesis using wf by (auto simp: handle_get_public_key_def kept_defs awaiting_def key_flow_def)
next
  case False
  show ?thesis
    unfolding handle_get_public_key_def if_not_P [OF False] wp_bind
  proof (rule wp_mono [OF path_step [OF wf(1)]], goal_cases)
    case (1 n t)
    then obtain ns where p: "path_done (cmd_data c) s ns n t" by blast
    note pd = path_doneD [OF p wf(1)]
    define u where "u = set_pubkey (\<lambda>x. x\<lparr> pk_signPublicKey := (cmd_p2 c = P2_SIGN_PUBLIC_KEY) \<rparr>)
      (t\<lparr> global_reviewed_path := global_derivation_path t \<rparr>)"
    have wu: "wf_app u" using pd(1) wf_pubkey_app [OF pd(1)] unfolding u_def
      by (intro wf_app_pubkey) (simp_all add: wf_public_key_def)
    have ui: "replies u = replies s" "screen u = screen s" "currentInstruction u = currentInstruction s"
      using pd(2) by (simp_all add: u_def same_ui_def)
    have rp: "global_reviewed_path u = global_derivation_path u" by (simp add: u_def)
    have r: "refused s e v" if "status_word e" "wf_app v" "same_ui u v" for e v
      using that ui by (simp add: refused_def same_ui_def wf_app_def)
    show ?case
    proof (cases "cmd_p1 c = P1_SKIP_DISPLAY")
      case True
      show ?thesis
        unfolding u_def [symmetric] unfolding Let_def [of u] if_P [OF True]
      proof (rule wp_mono [OF send_public_key_wp [OF E wu]], goal_cases)
        case (1 a v)
        then show ?case using ui True by (auto simp: kept_defs)
      next
        case (2 e v)
        then show ?case using wu ui by (simp add: refused_def wf_app_def)
      qed
    next
      case False
      define v where "v = u\<lparr> global_derivation_path := unharden_derivation_path (global_derivation_path u) \<rparr>"
      have wv: "wf_app v" using wu by (simp add: v_def wf_app_def)
      have pv: "global_derivation_path v = unharden_derivation_path (global_reviewed_path v)" by (simp add: v_def rp)
      have vu: "unharden_derivation_path (global_derivation_path u) = global_derivation_path v"
        and uv: "same_ui u v" by (simp_all add: v_def same_ui_def)
      have rv: "refused s e w" if "status_word e" "wf_app w" "same_ui v w" for e w
        using r [OF that(1,2)] same_ui_trans [OF uv that(3)] by blast
      show ?thesis
        unfolding u_def [symmetric] unfolding Let_def [of u] if_not_P [OF False]
        unfolding Let_def [of "unharden_derivation_path (global_derivation_path u)"] v_def [symmetric]
        unfolding Let_def [of v] vu
      proof (rule wp_mono [OF key_review_wp [OF E wv pv rv]], goal_cases)
        case (4 a w)
        then have "awaiting w" by (auto simp: key_asked_def awaiting_def)
        then show ?case using 4 ui uv by (simp add: kept_defs key_flow_def claimed_def same_ui_def)
      qed simp_all
    qed
  qed simp
qed

lemma key_choice:
  assumes E: "platform E" and wf: "wf_app s" "\<not> awaiting s" "awaiting (s\<lparr> screen := Some rv \<rparr>)"
    and st: "key_flow E (s\<lparr> screen := Some rv \<rparr>)"
  shows "rv_callback rv = review_public_key_choice"
    "wp (choose_public_key E confirm s) (\<lambda>_ t. decided confirm (key_flow E) s t) (\<lambda>_ _. False)"
proof -
  show "rv_callback rv = review_public_key_choice" using wf(3) st by (auto simp: key_flow_def key_asked_def)
  show "wp (choose_public_key E confirm s) (\<lambda>_ t. decided confirm (key_flow E) s t) (\<lambda>_ _. False)"
  proof (cases confirm)
    case True
    show ?thesis
      unfolding choose_public_key_def if_P [OF True]
    proof (rule wp_ux_run_guarded, rule wp_mono [OF send_public_key_wp [OF E wf(1)]], goal_cases)
      case (1 a t)
      then show ?case using True by (auto simp: decided_defs)
    next
      case (2 e t)
      then have "refused s e t" using wf(1) by (simp add: refused_def wf_app_def)
      then show ?case using True refused_decided by simp
    qed
  qed (use wf rejection_decided in \<open>simp add: choose_public_key_def\<close>)
qed

end
