(* ===== verification/ExportKeys.thy ===== *)
theory ExportKeys
  imports PublicKey
begin

text \<open>
  Export of private keys on a legacy path: src/src/handler/export_private_key_legacy_path.c, and
  what it shares with the export on a new path.

  The keys are derived once the user has approved a review that names the identity, the kinds of
  key, and whether the raw seed or the BLS key is released.  An error while the texts of the
  review are composed drops what was written of them, since the context is wiped next.
\<close>

subsection \<open>Operations\<close>

abbreviation P1_LEGACY_PRF_KEY :: u8 where "P1_LEGACY_PRF_KEY \<equiv> 0"
abbreviation P1_LEGACY_PRF_KEY_RECOVERY :: u8 where "P1_LEGACY_PRF_KEY_RECOVERY \<equiv> 1"
abbreviation P1_LEGACY_PRF_KEY_AND_ID_CRED_SEC :: u8 where "P1_LEGACY_PRF_KEY_AND_ID_CRED_SEC \<equiv> 2"
abbreviation P2_LEGACY_SEED :: u8 where "P2_LEGACY_SEED \<equiv> 1"
abbreviation P2_LEGACY_KEY :: u8 where "P2_LEGACY_KEY \<equiv> 2"
abbreviation LEGACY_COIN_TYPE :: u32 where "LEGACY_COIN_TYPE \<equiv> 0"
abbreviation ACCOUNT_SUBTREE :: u32 where "ACCOUNT_SUBTREE \<equiv> 0"
abbreviation NORMAL_ACCOUNTS :: u32 where "NORMAL_ACCOUNTS \<equiv> 0"
abbreviation PATH_INDEX_LEGACY_EXPORT_KEY :: nat where "PATH_INDEX_LEGACY_EXPORT_KEY \<equiv> 5"

abbreviation export :: "app \<Rightarrow> exportPrivateKeyContext" where
  "export s \<equiv> exportPrivateKeyContext (global s)"

definition set_export :: "(exportPrivateKeyContext \<Rightarrow> exportPrivateKeyContext) \<Rightarrow> app \<Rightarrow> app" where
  "set_export f s = s\<lparr> global := (global s)\<lparr> exportPrivateKeyContext := f (exportPrivateKeyContext (global s)) \<rparr> \<rparr>"

text \<open>A string literal copied with its NUL to the start of a display buffer.\<close>

definition write_text :: "((bytes \<Rightarrow> bytes) \<Rightarrow> exportPrivateKeyContext \<Rightarrow> exportPrivateKeyContext) \<Rightarrow>
    (exportPrivateKeyContext \<Rightarrow> bytes) \<Rightarrow> string \<Rightarrow> exportPrivateKeyContext \<Rightarrow> exportPrivateKeyContext result" where
  "write_text upd get t c = rbind (put (get c) 0 (lit t)) (\<lambda>b. Ok (upd (\<lambda>_. b) c))"

definition legacy_credid :: "sdk \<Rightarrow> u32 \<Rightarrow> bytes \<Rightarrow> bytes result" where
  "legacy_credid E identity buf =
     rbind (put buf 0 (ascii ''ID#'')) (\<lambda>b.
     rbind (at_offset b 3 (\<lambda>d. bin_to_dec E d (ucast identity))) (\<lambda>(b, _). Ok b))"

definition legacy_verbs :: "u8 \<Rightarrow> exportPrivateKeyContext \<Rightarrow> exportPrivateKeyContext result" where
  "legacy_verbs p1 c =
     (if p1 = P1_LEGACY_PRF_KEY_AND_ID_CRED_SEC then
        rbind (write_text ek_display_sign_verb_update ek_display_sign_verb ''to create credentials?'' c) (\<lambda>c.
        rbind (write_text ek_display_review_verb_update ek_display_review_verb ''to create credentials'' c) (\<lambda>c.
        write_text ek_display_key_types_update ek_display_key_types ''PRF key, IdCredSec'' c))
      else if p1 = P1_LEGACY_PRF_KEY_RECOVERY then
        rbind (write_text ek_display_sign_verb_update ek_display_sign_verb ''to recover credentials?'' c) (\<lambda>c.
        rbind (write_text ek_display_review_verb_update ek_display_review_verb ''to recover credentials'' c) (\<lambda>c.
        write_text ek_display_key_types_update ek_display_key_types ''PRF key'' c))
      else if p1 = P1_LEGACY_PRF_KEY then
        rbind (write_text ek_display_sign_verb_update ek_display_sign_verb ''to decrypt credentials?'' c) (\<lambda>c.
        rbind (write_text ek_display_review_verb_update ek_display_review_verb ''to decrypt credentials'' c) (\<lambda>c.
        write_text ek_display_key_types_update ek_display_key_types ''PRF key'' c))
      else Err SWO_INCORRECT_P1_P2)"

definition legacy_texts :: "sdk \<Rightarrow> u8 \<Rightarrow> u32 \<Rightarrow> exportPrivateKeyContext \<Rightarrow> exportPrivateKeyContext result" where
  "legacy_texts E p1 identity c =
     rbind (legacy_credid E identity (ek_display_credid c)) (\<lambda>d.
     let c = c\<lparr> ek_display_credid := d \<rparr> in
     rbind (write_text ek_display_credid_title_update ek_display_credid_title ''Credentials ID'' c) (\<lambda>c.
     rbind (write_text ek_display_review_operation_update ek_display_review_operation ''Export private keys'' c) (\<lambda>c.
     rbind (write_text ek_display_sign_update ek_display_sign ''Approve export'' c) (\<lambda>c.
     rbind (write_text ek_display_detail_title_update ek_display_detail_title ''Key format'' c) (\<lambda>c.
     rbind (write_text ek_display_detail_update ek_display_detail
              (if ek_exportSeed c then ''Raw seed'' else ''BLS key'') c) (\<lambda>c.
     legacy_verbs p1 c))))))"

definition handle_export_private_key_legacy_path :: "sdk \<Rightarrow> command \<Rightarrow> bool \<Rightarrow> app \<Rightarrow> unit act" where
  "handle_export_private_key_legacy_path E cmd isInitialCall s =
     (if cmd_p1 cmd \<notin> {P1_LEGACY_PRF_KEY_AND_ID_CRED_SEC, P1_LEGACY_PRF_KEY, P1_LEGACY_PRF_KEY_RECOVERY} \<or>
         cmd_p2 cmd \<notin> {P2_LEGACY_KEY, P2_LEGACY_SEED}
      then Throw ERROR_INVALID_PARAM s
      else
        let s = set_export (\<lambda>c. c\<lparr> ek_isNewPath := False \<rparr>) s in
        if length (cmd_data cmd) < 4 then Throw ERROR_INVALID_PATH s
        else
          call (U4BE (cmd_data cmd) 0) s (\<lambda>identity.
          if identity AND HARDENED_BIT \<noteq> 0 then Throw ERROR_INVALID_PATH s
          else
            let dp = init_derivation_path\<lparr> path_len := 5,
                  nodes := [LEGACY_PURPOSE, LEGACY_COIN_TYPE, ACCOUNT_SUBTREE, NORMAL_ACCOUNTS, identity] @ replicate 3 0 \<rparr>;
                s = set_export (\<lambda>c. c\<lparr> ek_exportBoth := (cmd_p1 cmd = P1_LEGACY_PRF_KEY_AND_ID_CRED_SEC),
                      ek_exportSeed := (cmd_p2 cmd = P2_LEGACY_SEED) \<rparr>)
                    (s\<lparr> global_derivation_path := harden_derivation_path dp \<rparr>)
            in call (legacy_texts E (cmd_p1 cmd) identity (export s)) s (\<lambda>c.
               uiExportPrivateKey (set_export (\<lambda>_. c) s))))"

text \<open>A helper that may run forever; not to return is a fault.\<close>

primrec call_loop :: "'a result option \<Rightarrow> app \<Rightarrow> ('a \<Rightarrow> 'b act) \<Rightarrow> 'b act" where
  "call_loop None s f = Fault"
| "call_loop (Some r) s f = call r s f"

text \<open>
  The loop over the keys of one request.  \<open>tx\<close> is what was written to the APDU buffer, and
  \<open>full\<close> is what happens when a key does not fit any more.
\<close>

primrec export_keys :: "(derivation_path \<Rightarrow> bytes result option) \<Rightarrow> bytes result \<Rightarrow> u32 list \<Rightarrow> bytes \<Rightarrow> app \<Rightarrow>
    bytes act" where
  "export_keys derive full [] tx s = Ret tx s"
| "export_keys derive full (k # ks) tx s =
     (let p = global_derivation_path s;
          dp = harden_derivation_path (p\<lparr> nodes := (nodes p)[PATH_INDEX_LEGACY_EXPORT_KEY := k],
                 path_len := PATH_INDEX_LEGACY_EXPORT_KEY + 1 \<rparr>);
          s = s\<lparr> global_derivation_path := dp \<rparr> in
      call_loop (derive dp) s (\<lambda>key.
      call (if IO_APDU_BUFFER_SIZE < length tx + length key then full else Ok (tx @ key)) s (\<lambda>tx.
      export_keys derive full ks tx s)))"

definition exported_kinds :: "exportPrivateKeyContext \<Rightarrow> u32 list" where
  "exported_kinds c = LEGACY_PRF_KEY # (if ek_exportBoth c then [LEGACY_ID_CRED_SEC] else [])"

definition exportPrivateKeySeed :: "sdk \<Rightarrow> app \<Rightarrow> unit act" where
  "exportPrivateKeySeed E s =
     bind (export_keys (\<lambda>dp. Some (get_private_key E dp)) Oob (exported_kinds (export s)) [] s)
       (\<lambda>tx s. send_success tx s)"

definition exportPrivateKeyBls :: "sdk \<Rightarrow> app \<Rightarrow> unit act" where
  "exportPrivateKeyBls E s =
     bind (export_keys (\<lambda>dp. get_bls_private_key E dp 32) (Err ERROR_BUFFER_OVERFLOW)
             (exported_kinds (export s)) [] s)
       (\<lambda>tx s. send_success tx s)"

definition exportPrivateKey :: "sdk \<Rightarrow> app \<Rightarrow> unit act" where
  "exportPrivateKey E s =
     (if ek_exportSeed (export s) then exportPrivateKeySeed E s else exportPrivateKeyBls E s)"

text \<open>\<open>review_export_private_key\<close> of display_nbgl.c.\<close>

definition choose_export_legacy :: "sdk \<Rightarrow> bool \<Rightarrow> app \<Rightarrow> unit act" where
  "choose_export_legacy E confirm s =
     (if confirm then ux_run_guarded (exportPrivateKey E) s else send_user_rejection s)"

subsection \<open>Frames\<close>

lemma set_export_simps [simp]:
  "export (set_export f s) = f (export s)" "replies (set_export f s) = replies s"
  "screen (set_export f s) = screen s" "currentInstruction (set_export f s) = currentInstruction s"
  "global_derivation_path (set_export f s) = global_derivation_path s"
  "global_account_sender (set_export f s) = global_account_sender s"
  "awaiting (set_export f s) = awaiting s" "same_ui t (set_export f s) = same_ui t s"
  "set_export f (set_export f' s) = set_export (\<lambda>c. f (f' c)) s"
  "(set_export f s)\<lparr> global_derivation_path := p \<rparr> = set_export f (s\<lparr> global_derivation_path := p \<rparr>)"
  by (simp_all add: set_export_def awaiting_def same_ui_def)

lemma wf_app_export: "wf_app s \<Longrightarrow> wf_export (f (export s)) \<Longrightarrow> wf_app (set_export f s)"
  by (simp add: set_export_def wf_app_def wf_context_def)

lemma wf_export_app: "wf_app s \<Longrightarrow> wf_export (export s)"
  by (simp add: wf_app_def wf_context_def)

subsection \<open>Key generation\<close>

lemma bls_loop_total:
  assumes "\<And>sk. bls_candidate E ikm ((bls_salt E ^^ Suc n) salt) = Some sk \<Longrightarrow> be_nat sk \<noteq> 0"
  shows "\<exists>r. blsKeygen_loop E ikm salt = Some r \<and> rwp r (\<lambda>_. True) (\<lambda>e. e = ERROR_FAILED_CX_OPERATION)"
  using assms
proof (induction n arbitrary: salt)
  case 0
  then show ?case
    by (subst blsKeygen_loop.simps)
      (auto simp: bls_candidate_def bls_salt_def be_nat_eq_0 split: option.split)
next
  case (Suc n)
  show ?case
  proof (cases "sdk_hash_sha256 E salt")
    case None
    then show ?thesis by (subst blsKeygen_loop.simps) simp
  next
    case (Some h)
    then have "bls_salt E salt = h" by (simp add: bls_salt_def)
    then have "(bls_salt E ^^ Suc (Suc n)) salt = (bls_salt E ^^ Suc n) h"
      by (metis comp_apply funpow_Suc_right)
    then have "\<exists>r. blsKeygen_loop E ikm h = Some r \<and> rwp r (\<lambda>_. True) (\<lambda>e. e = ERROR_FAILED_CX_OPERATION)"
      using Suc.IH [of h] Suc.prems by simp
    then show ?thesis using Some by (subst blsKeygen_loop.simps) (auto split: option.split)
  qed
qed

lemma bls_key_wp:
  assumes E: "platform E" and n: "32 \<le> n"
  shows "\<exists>r. get_bls_private_key E p n = Some r \<and>
    rwp r (\<lambda>k. length k = 32) (\<lambda>e. e = ERROR_FAILED_CX_OPERATION)"
proof (cases "get_private_key E p")
  case (Ok seed)
  then have l: "length seed = 32" using rwp_get_private_key [OF platformD(8) [OF E], of p] by simp
  obtain m where "\<And>sk. bls_candidate E (seed @ [0]) ((bls_salt E ^^ Suc m) (ascii ''BLS-SIG-KEYGEN-SALT-'')) = Some sk \<Longrightarrow>
      be_nat sk \<noteq> 0"
    using platformD(9) [OF E] unfolding draws_scalars_def by blast
  from bls_loop_total [OF this] obtain r where r: "blsKeygen_loop E (seed @ [0]) (ascii ''BLS-SIG-KEYGEN-SALT-'') = Some r"
    "rwp r (\<lambda>_. True) (\<lambda>e. e = ERROR_FAILED_CX_OPERATION)" by blast
  have "rwp r (\<lambda>k. length k = 32) (\<lambda>e. e = ERROR_FAILED_CX_OPERATION)"
    using r bls_loop_Ok [OF platformD(3) [OF E]] by (cases r) auto
  then show ?thesis using Ok l n r(1) by (simp add: get_bls_private_key_def blsKeygen_def)
qed (use rwp_get_private_key [OF platformD(8) [OF E], of p] in \<open>simp_all add: get_bls_private_key_def\<close>)

subsection \<open>Texts\<close>

definition text_in :: "bytes \<Rightarrow> string \<Rightarrow> bytes" where
  "text_in b t = ascii t @ 0 # drop (Suc (length t)) b"

lemma text_in_simps [simp]:
  "length t < n \<Longrightarrow> cbuf n b \<Longrightarrow> cbuf n (text_in b t)" "0 \<notin> set (ascii t) \<Longrightarrow> cstr (text_in b t) = ascii t"
  "0 \<in> set (text_in b t)"
  by (auto simp: text_in_def cbuf_def)

lemma write_text_Ok: "length t < length (get c) \<Longrightarrow> write_text upd get t c = Ok (upd (\<lambda>_. text_in (get c) t) c)"
  by (simp add: write_text_def text_in_def put_Ok lit_def)

lemma zero_notin_export_texts [simp]:
  "0 \<notin> set (ascii ''ID#'')" "0 \<notin> set (ascii ''Credentials ID'')" "0 \<notin> set (ascii ''Export private keys'')"
  "0 \<notin> set (ascii ''Approve export'')" "0 \<notin> set (ascii ''Key format'')" "0 \<notin> set (ascii ''Raw seed'')"
  "0 \<notin> set (ascii ''BLS key'')" "0 \<notin> set (ascii ''PRF key'')" "0 \<notin> set (ascii ''PRF key, IdCredSec'')"
  "0 \<notin> set (ascii ''Keys released'')" "0 \<notin> set (ascii ''Warning'')"
  "0 \<notin> set (ascii ''These secrets leave this Ledger and can be reused'')"
  by (simp_all add: ascii_def)

lemma zero_notin_export_verbs [simp]:
  "0 \<notin> set (ascii ''to create credentials'')" "0 \<notin> set (ascii ''to create credentials?'')"
  "0 \<notin> set (ascii ''to recover credentials'')" "0 \<notin> set (ascii ''to recover credentials?'')"
  "0 \<notin> set (ascii ''to decrypt credentials'')" "0 \<notin> set (ascii ''to decrypt credentials?'')"
  by (simp_all add: ascii_def)

lemma legacy_credid_Ok:
  assumes "formats_numbers E" "length b = 22"
  shows "\<exists>d. legacy_credid E identity b = Ok d \<and> cbuf 22 d \<and> cstr d = ascii ''ID#'' @ dec (unat identity)"
proof -
  have p: "put b 0 (ascii ''ID#'') = Ok (ascii ''ID#'' @ drop 3 b)" using assms(2) by (simp add: put_Ok numeral_3_eq_3)
  have l: "length (dec (unat identity)) \<le> 10" by (rule length_dec_u32)
  have "at_offset (ascii ''ID#'' @ drop 3 b) 3 (\<lambda>d. bin_to_dec E d (ucast identity)) =
      Ok (ascii ''ID#'' @ dec (unat identity) @ 0 # drop (length (dec (unat identity)) + 1) (drop 3 b),
        length (dec (unat identity)) + 1)"
    using assms l decimal_at_offset [OF assms(1), of "ucast identity" "drop 3 b" 3 "ascii ''ID#''"] by simp
  then show ?thesis
    using l assms(2) text_cbuf [of _ "ascii ''ID#'' @ dec (unat identity)" _ 22]
    by (auto simp: legacy_credid_def p)
qed

lemma compose_title_Ok:
  assumes "cbuf n b" "0 \<in> set verb" "sep \<noteq> 0" "length (cstr b) + length (cstr verb) + 2 \<le> n"
  shows "\<exists>r. compose_title b sep verb = Ok r \<and> cbuf n r \<and> cstr r = cstr b @ sep # cstr verb"
proof -
  obtain x b' where b: "b = x @ 0 # b'" "0 \<notin> set x" using split_list_first [of 0 b] assms(1) by (auto simp: cbuf_def)
  obtain y v' where v: "verb = y @ 0 # v'" "0 \<notin> set y" using split_list_first [OF assms(2)] by blast
  have c: "cstr b = x" "cstr verb = y" using b v by simp_all
  have n: "length b = n" "length x + length y + 2 \<le> n" using assms(1,4) c by (simp_all add: cbuf_def)
  have d: "drawn b = Ok x" "drawn verb = Ok y" using b v by (simp_all add: drawn_def)
  have p1: "put b (length x) [sep] = Ok ((x @ [sep]) @ b')" by (simp add: b(1) put_def)
  have sl: "slice verb 0 (length y + 1) = Ok (y @ [0])" by (simp add: v(1) slice_def)
  have "length (y @ [0]) \<le> length b'" using n b(1) by simp
  then have p2: "put ((x @ [sep]) @ b') (length x + 1) (y @ [0]) = Ok ((x @ [sep]) @ (y @ [0]) @ drop (length (y @ [0])) b')"
    using put_append [of "y @ [0]" b' "x @ [sep]"] by simp
  have nl: "\<not> length b < length x + 1 + length y + 1" using n by simp
  have eq: "compose_title b sep verb = Ok ((x @ [sep]) @ (y @ [0]) @ drop (length (y @ [0])) b')"
    unfolding compose_title_def Let_def d rbind.simps if_not_P [OF nl] p1 sl p2 ..
  have e: "(x @ [sep]) @ (y @ [0]) @ drop (length (y @ [0])) b' = (x @ sep # y) @ 0 # drop (length y + 1) b'" by simp
  have "length ((x @ sep # y) @ 0 # drop (length y + 1) b') = n" using n b(1) by simp
  then show ?thesis
    using eq b(2) v(2) assms(3) text_cbuf [OF refl, of "x @ sep # y" "drop (length y + 1) b'" n]
    unfolding e c by auto
qed

text \<open>What the two handlers leave for the review, and the review drawn from it.\<close>

definition export_ready :: "exportPrivateKeyContext \<Rightarrow> bool" where
  "export_ready c \<longleftrightarrow> wf_export c \<and> cstr (ek_display_review_operation c) = ascii ''Export private keys'' \<and>
     cstr (ek_display_sign c) = ascii ''Approve export''"

lemma cbuf_verb: "cbuf n b \<Longrightarrow> length (cstr b) < n"
  using split_list_first [of 0 b] by (auto simp: cbuf_def)

lemma compose_titles_wp:
  assumes "export_ready (export s)"
  shows "\<exists>op sg. cbuf 48 op \<and> cbuf 48 sg \<and> compose_export_private_key_titles s =
    Ret () (set_export (\<lambda>c. c\<lparr> ek_display_review_operation := op, ek_display_sign := sg \<rparr>) s)"
proof -
  let ?c = "export s"
  have c: "cbuf 48 (ek_display_review_operation ?c)" "cbuf 48 (ek_display_sign ?c)" "cbuf 24 (ek_display_review_verb ?c)"
    "cbuf 26 (ek_display_sign_verb ?c)" "length (cstr (ek_display_review_operation ?c)) = 19"
    "length (cstr (ek_display_sign ?c)) = 14"
    using assms by (simp_all add: export_ready_def wf_export_def)
  obtain op where op: "compose_title (ek_display_review_operation ?c) 32 (ek_display_review_verb ?c) = Ok op" "cbuf 48 op"
    using c cbuf_verb [OF c(3)] compose_title_Ok [OF c(1), of "ek_display_review_verb ?c" 32] by (auto simp: cbuf_def)
  obtain sg where sg: "compose_title (ek_display_sign ?c) 10 (ek_display_sign_verb ?c) = Ok sg" "cbuf 48 sg"
    using c cbuf_verb [OF c(4)] compose_title_Ok [OF c(2), of "ek_display_sign_verb ?c" 10] by (auto simp: cbuf_def)
  show ?thesis
    using op sg by (intro exI [of _ op] exI [of _ sg])
      (simp add: compose_export_private_key_titles_def Let_def set_export_def)
qed

definition export_pairs :: "bytes \<Rightarrow> string \<Rightarrow> bytes \<Rightarrow> bytes \<Rightarrow> (bytes \<times> bytes) list" where
  "export_pairs credid detail_title detail kinds =
     [(ascii ''Credentials ID'', credid), (ascii detail_title, detail), (ascii ''Keys released'', kinds),
      (ascii ''Warning'', ascii ''These secrets leave this Ledger and can be reused'')]"

definition shows_export :: "exportPrivateKeyContext \<Rightarrow> (bytes \<times> bytes) list \<Rightarrow> bool" where
  "shows_export c rows \<longleftrightarrow> shown_rows (export_rows c) = rows"

text \<open>A review of an export is up: rows on the screen, and the context as the handler left it but for
  the two titles.\<close>

definition export_drawn :: "app \<Rightarrow> callback \<Rightarrow> (bytes \<times> bytes) list \<Rightarrow> app \<Rightarrow> bool" where
  "export_drawn s cb rows t \<longleftrightarrow> (\<exists>rv. screen t = Some rv \<and> rv_callback rv = cb \<and> rv_pairs rv = rows) \<and>
     wf_app t \<and> replies t = replies s \<and> currentInstruction t = currentInstruction s \<and>
     global_derivation_path t = global_derivation_path s \<and>
     (\<exists>op sg. export t = (export s)\<lparr> ek_display_review_operation := op, ek_display_sign := sg \<rparr>)"

lemma export_review_wp:
  assumes r: "export_ready (export s)" and wf: "wf_app s" and rows: "shown_rows (export_rows (export s)) = rows"
  shows "wp (uiExportPrivateKey s) (\<lambda>_ t. export_drawn s review_export_private_key rows t) X"
    "wp (uiExportPrivateKeysNewPath s) (\<lambda>_ t. export_drawn s review_export_private_key_new_path rows t) X"
proof -
  obtain op sg where c: "cbuf 48 op" "cbuf 48 sg" "compose_export_private_key_titles s =
      Ret () (set_export (\<lambda>c. c\<lparr> ek_display_review_operation := op, ek_display_sign := sg \<rparr>) s)"
    using compose_titles_wp [OF r] by blast
  let ?t = "set_export (\<lambda>c. c\<lparr> ek_display_review_operation := op, ek_display_sign := sg \<rparr>) s"
  have w: "wf_app ?t" using wf_export_app [OF wf] c by (intro wf_app_export wf) (simp add: wf_export_def)
  have d: "drawable (export_rows (export s))" "length (export_rows (export s)) \<le> 10" "0 \<in> set op" "0 \<in> set sg"
    using wf_export_app [OF wf] c by (simp_all add: wf_export_def export_rows_def cbuf_def)
  have e: "export_rows ((export s)\<lparr> ek_display_review_operation := op, ek_display_sign := sg \<rparr>) = export_rows (export s)"
    by (simp add: export_rows_def)
  show "wp (uiExportPrivateKey s) (\<lambda>_ t. export_drawn s review_export_private_key rows t) X"
    "wp (uiExportPrivateKeysNewPath s) (\<lambda>_ t. export_drawn s review_export_private_key_new_path rows t) X"
    using c(3) d w rows
    by (auto simp: uiExportPrivateKey_def uiExportPrivateKeysNewPath_def Let_def use_case_defs e export_drawn_def)
qed

text \<open>The rows for a request of the legacy export.\<close>

definition legacy_rows :: "bool \<Rightarrow> bool \<Rightarrow> u32 \<Rightarrow> (bytes \<times> bytes) list" where
  "legacy_rows both seed identity =
     export_pairs (ascii ''ID#'' @ dec (unat identity)) ''Key format''
       (if seed then ascii ''Raw seed'' else ascii ''BLS key'')
       (if both then ascii ''PRF key, IdCredSec'' else ascii ''PRF key'')"

lemma legacy_verbs_Ok:
  assumes "export_ready c" "p1 \<in> {0, 1, 2}"
  shows "\<exists>k v w. legacy_verbs p1 c =
      Ok (c\<lparr> ek_display_sign_verb := v, ek_display_review_verb := w, ek_display_key_types := k \<rparr>) \<and>
    cbuf 26 v \<and> cbuf 24 w \<and> cbuf 40 k \<and>
    cstr k = (if p1 = 2 then ascii ''PRF key, IdCredSec'' else ascii ''PRF key'')"
proof -
  have c: "cbuf 24 (ek_display_review_verb c)" "cbuf 26 (ek_display_sign_verb c)" "cbuf 40 (ek_display_key_types c)"
    using assms(1) by (simp_all add: export_ready_def wf_export_def)
  have l: "length (ek_display_review_verb c) = 24" "length (ek_display_sign_verb c) = 26" "length (ek_display_key_types c) = 40"
    using c by (simp_all add: cbuf_def)
  define kt where "kt = (if p1 = 2 then ''PRF key, IdCredSec'' else ''PRF key'')"
  define st where "st = (if p1 = 2 then ''to create credentials?'' else if p1 = 1 then ''to recover credentials?''
    else ''to decrypt credentials?'')"
  define wt where "wt = (if p1 = 2 then ''to create credentials'' else if p1 = 1 then ''to recover credentials''
    else ''to decrypt credentials'')"
  have n: "length kt < 40" "length st < 26" "length wt < 24" "0 \<notin> set (ascii kt)"
    "ascii kt = (if p1 = 2 then ascii ''PRF key, IdCredSec'' else ascii ''PRF key'')"
    by (simp_all add: kt_def st_def wt_def)
  have "legacy_verbs p1 c = Ok (c\<lparr> ek_display_sign_verb := text_in (ek_display_sign_verb c) st,
      ek_display_review_verb := text_in (ek_display_review_verb c) wt,
      ek_display_key_types := text_in (ek_display_key_types c) kt \<rparr>)"
    using assms(2) l by (auto simp: legacy_verbs_def write_text_Ok kt_def st_def wt_def)
  then show ?thesis using c n by (metis text_in_simps(1,2))
qed

lemma legacy_texts_Ok:
  assumes "formats_numbers E" "wf_export c" "p1 \<in> {0, 1, 2}" "ek_exportBoth c = (p1 = 2)"
  shows "\<exists>c'. legacy_texts E p1 identity c = Ok c' \<and> export_ready c' \<and>
    shown_rows (export_rows c') = legacy_rows (ek_exportBoth c) (ek_exportSeed c) identity \<and>
    ek_exportBoth c' = ek_exportBoth c \<and> ek_exportSeed c' = ek_exportSeed c \<and> ek_isNewPath c' = ek_isNewPath c"
proof -
  have b: "cbuf 48 (ek_display_review_operation c)" "cbuf 15 (ek_display_credid_title c)" "cbuf 22 (ek_display_credid c)"
    "cbuf 48 (ek_display_sign c)" "cbuf 16 (ek_display_detail_title c)" "cbuf 24 (ek_display_detail c)"
    using assms(2) by (simp_all add: wf_export_def)
  have l: "length (ek_display_review_operation c) = 48" "length (ek_display_credid_title c) = 15"
    "length (ek_display_credid c) = 22" "length (ek_display_sign c) = 48" "length (ek_display_detail_title c) = 16"
    "length (ek_display_detail c) = 24"
    using b by (simp_all add: cbuf_def)
  obtain d where d: "legacy_credid E identity (ek_display_credid c) = Ok d" "cbuf 22 d"
    "cstr d = ascii ''ID#'' @ dec (unat identity)"
    using legacy_credid_Ok [OF assms(1) l(3)] by blast
  define fmt where "fmt = (if ek_exportSeed c then ''Raw seed'' else ''BLS key'')"
  have f: "length fmt < 24" "0 \<notin> set (ascii fmt)"
    "ascii fmt = (if ek_exportSeed c then ascii ''Raw seed'' else ascii ''BLS key'')" by (simp_all add: fmt_def)
  define c1 where "c1 = c\<lparr> ek_display_credid := d, ek_display_credid_title := text_in (ek_display_credid_title c) ''Credentials ID'',
      ek_display_review_operation := text_in (ek_display_review_operation c) ''Export private keys'',
      ek_display_sign := text_in (ek_display_sign c) ''Approve export'',
      ek_display_detail_title := text_in (ek_display_detail_title c) ''Key format'',
      ek_display_detail := text_in (ek_display_detail c) fmt \<rparr>"
  have r: "export_ready c1" using assms(2) b d f by (simp add: c1_def export_ready_def wf_export_def)
  obtain k v w where v: "legacy_verbs p1 c1 =
      Ok (c1\<lparr> ek_display_sign_verb := v, ek_display_review_verb := w, ek_display_key_types := k \<rparr>)"
    "cbuf 26 v" "cbuf 24 w" "cbuf 40 k" "cstr k = (if p1 = 2 then ascii ''PRF key, IdCredSec'' else ascii ''PRF key'')"
    using legacy_verbs_Ok [OF r assms(3)] by blast
  have "legacy_texts E p1 identity c = legacy_verbs p1 c1"
    using d(1) l f(1) by (simp add: legacy_texts_def Let_def write_text_Ok fmt_def [symmetric] c1_def)
  moreover have "export_ready (c1\<lparr> ek_display_sign_verb := v, ek_display_review_verb := w, ek_display_key_types := k \<rparr>)"
    using r v by (simp add: export_ready_def wf_export_def)
  moreover have "shown_rows (export_rows (c1\<lparr> ek_display_sign_verb := v, ek_display_review_verb := w, ek_display_key_types := k \<rparr>)) =
      legacy_rows (ek_exportBoth c) (ek_exportSeed c) identity"
    using v(5) d(3) f assms(4) by (simp add: export_rows_def c1_def legacy_rows_def export_pairs_def)
  ultimately show ?thesis using v(1) by (simp add: c1_def)
qed

subsection \<open>The keys that leave the device\<close>

definition path_of :: "u32 list \<Rightarrow> derivation_path" where
  "path_of ns = \<lparr> nodes = ns, path_len = length ns, variant = DERIVATION_PATH_VARIANT_INVALID \<rparr>"

lemma keys_of_nodes:
  assumes "used_nodes p = ns"
  shows "get_private_key E p = get_private_key E (path_of ns)"
    "get_bls_private_key E p n = get_bls_private_key E (path_of ns) n"
    "get_extended_private_key E p m k = get_extended_private_key E (path_of ns) m k"
proof -
  have "used_nodes (path_of ns) = ns" by (simp add: path_of_def used_nodes_def)
  then show "get_private_key E p = get_private_key E (path_of ns)"
    "get_extended_private_key E p m k = get_extended_private_key E (path_of ns) m k"
    using assms by (simp_all add: get_private_key_def get_extended_private_key_def)
  then show "get_bls_private_key E p n = get_bls_private_key E (path_of ns) n"
    by (simp add: get_bls_private_key_def)
qed

definition legacy_base :: "u32 \<Rightarrow> u32 list" where
  "legacy_base identity = map hardened [LEGACY_PURPOSE, LEGACY_COIN_TYPE, ACCOUNT_SUBTREE, NORMAL_ACCOUNTS, identity]"

text \<open>The key of one kind, for the identity a review names.\<close>

definition released :: "sdk \<Rightarrow> bool \<Rightarrow> u32 \<Rightarrow> u32 \<Rightarrow> bytes \<Rightarrow> bool" where
  "released E seed identity k key \<longleftrightarrow>
     (let p = path_of (legacy_base identity @ [hardened k]) in
      if seed then get_private_key E p = Ok key else get_bls_private_key E p 32 = Some (Ok key))"

lemma wp_call_loop: "wp (call_loop r s f) Q X \<longleftrightarrow> (\<exists>x. r = Some x \<and> rwp x (\<lambda>a. wp (f a) Q X) (\<lambda>e. X e s))"
  by (cases r) simp_all

lemma export_path_step:
  assumes "wf_path p" "take 5 (nodes p) = legacy_base identity"
  shows "wf_path (harden_derivation_path (p\<lparr> nodes := (nodes p)[5 := k], path_len := 6 \<rparr>))"
    "take 5 (nodes (harden_derivation_path (p\<lparr> nodes := (nodes p)[5 := k], path_len := 6 \<rparr>))) = legacy_base identity"
    "used_nodes (harden_derivation_path (p\<lparr> nodes := (nodes p)[5 := k], path_len := 6 \<rparr>)) = legacy_base identity @ [hardened k]"
proof -
  have l: "length (nodes p) = 8" using assms(1) by (simp add: wf_path_def)
  have "take 6 ((nodes p)[5 := k]) = take 5 (nodes p) @ [k]"
    using l take_Suc_conv_app_nth [of 5 "(nodes p)[5 := k]"] by simp
  then have t: "take 6 ((nodes p)[5 := k]) = legacy_base identity @ [k]" using assms(2) by simp
  have h: "map hardened (legacy_base identity) = legacy_base identity" by (simp add: legacy_base_def)
  show "wf_path (harden_derivation_path (p\<lparr> nodes := (nodes p)[5 := k], path_len := 6 \<rparr>))"
    using l by (intro wf_harden) (simp add: wf_path_def)
  have b: "length (legacy_base identity) = 5" by (simp add: legacy_base_def)
  show "take 5 (nodes (harden_derivation_path (p\<lparr> nodes := (nodes p)[5 := k], path_len := 6 \<rparr>))) = legacy_base identity"
    "used_nodes (harden_derivation_path (p\<lparr> nodes := (nodes p)[5 := k], path_len := 6 \<rparr>)) = legacy_base identity @ [hardened k]"
    using b by (simp_all add: harden_derivation_path_def used_nodes_def t h)
qed

text \<open>Only the path differs.\<close>

definition path_frame :: "app \<Rightarrow> app \<Rightarrow> bool" where
  "path_frame s t \<longleftrightarrow> t = s\<lparr> global_derivation_path := global_derivation_path t \<rparr>"

lemma path_frame_start: "path_frame s (s\<lparr> global_derivation_path := p \<rparr>)"
  by (simp add: path_frame_def)

lemma path_frame_step: "path_frame (s\<lparr> global_derivation_path := p \<rparr>) t \<Longrightarrow> path_frame s t"
  by (cases s; cases t) (simp add: path_frame_def)

lemma path_frameD:
  assumes "path_frame s t"
  shows "replies t = replies s" "screen t = screen s" "currentInstruction t = currentInstruction s"
    "global t = global s" "global_account_sender t = global_account_sender s" "awaiting t = awaiting s"
  using assms by (cases s; cases t; simp add: path_frame_def awaiting_def)+

lemma export_keys_wp:
  assumes d: "\<And>p. \<exists>r. derive p = Some r \<and> rwp r (\<lambda>k. length k = 32) (\<lambda>e. e = ERROR_FAILED_CX_OPERATION)"
    and n: "\<And>p. derive p = derive (path_of (used_nodes p))"
  shows "wf_path (global_derivation_path s) \<Longrightarrow> take 5 (nodes (global_derivation_path s)) = legacy_base identity \<Longrightarrow>
    length tx + 32 * length ks \<le> 260 \<Longrightarrow>
    wp (export_keys derive full ks tx s)
      (\<lambda>tx' t. (\<exists>keys. list_all2 (\<lambda>k key. derive (path_of (legacy_base identity @ [hardened k])) = Some (Ok key)) ks keys \<and>
         tx' = tx @ concat keys) \<and> path_frame s t \<and>
         wf_path (global_derivation_path t))
      (\<lambda>e t. e = ERROR_FAILED_CX_OPERATION \<and> path_frame s t \<and> wf_path (global_derivation_path t) \<and>
         (\<nexists>keys. list_all2 (\<lambda>k key. derive (path_of (legacy_base identity @ [hardened k])) = Some (Ok key)) ks keys))"
proof (induction ks arbitrary: tx s)
  case (Cons k ks)
  let ?p = "global_derivation_path s"
  let ?dp = "harden_derivation_path (?p\<lparr> nodes := (nodes ?p)[5 := k], path_len := 6 \<rparr>)"
  let ?s = "s\<lparr> global_derivation_path := ?dp \<rparr>"
  note st = export_path_step [OF Cons.prems(1,2), of k]
  obtain r where r: "derive ?dp = Some r" "rwp r (\<lambda>k. length k = 32) (\<lambda>e. e = ERROR_FAILED_CX_OPERATION)" using d by blast
  have dn: "derive ?dp = derive (path_of (legacy_base identity @ [hardened k]))" using n [of ?dp] st(3) by simp
  show ?case
  proof (cases r)
    case (Ok key)
    then have l: "length key = 32" using r(2) by simp
    have fit: "\<not> 260 < length tx + length key" using l Cons.prems(3) by simp
    have ih: "wp (export_keys derive full ks (tx @ key) ?s)
      (\<lambda>tx' t. (\<exists>keys. list_all2 (\<lambda>k key. derive (path_of (legacy_base identity @ [hardened k])) = Some (Ok key)) ks keys \<and>
         tx' = (tx @ key) @ concat keys) \<and> path_frame ?s t \<and>
         wf_path (global_derivation_path t))
      (\<lambda>e t. e = ERROR_FAILED_CX_OPERATION \<and> path_frame ?s t \<and> wf_path (global_derivation_path t) \<and>
         (\<nexists>keys. list_all2 (\<lambda>k key. derive (path_of (legacy_base identity @ [hardened k])) = Some (Ok key)) ks keys))"
      by (rule Cons.IH) (use st(1,2) l Cons.prems(3) in simp_all)
    have "wp (export_keys derive full (k # ks) tx s) Q X = wp (export_keys derive full ks (tx @ key) ?s) Q X" for Q X
      using r(1) Ok fit by (simp add: Let_def)
    moreover have "list_all2 (\<lambda>k key. derive (path_of (legacy_base identity @ [hardened k])) = Some (Ok key)) (k # ks) (key # keys)"
      if "list_all2 (\<lambda>k key. derive (path_of (legacy_base identity @ [hardened k])) = Some (Ok key)) ks keys" for keys
      using that r(1) Ok dn by simp
    ultimately have eq: "\<And>Q X. wp (export_keys derive full (k # ks) tx s) Q X = wp (export_keys derive full ks (tx @ key) ?s) Q X"
      and ex: "\<And>keys. list_all2 (\<lambda>k key. derive (path_of (legacy_base identity @ [hardened k])) = Some (Ok key)) ks keys \<Longrightarrow>
        list_all2 (\<lambda>k key. derive (path_of (legacy_base identity @ [hardened k])) = Some (Ok key)) (k # ks) (key # keys)"
      by blast+
    show ?thesis
      unfolding eq
    proof (rule wp_mono [OF ih], goal_cases)
      case (1 tx' t)
      then obtain keys where "list_all2 (\<lambda>k key. derive (path_of (legacy_base identity @ [hardened k])) = Some (Ok key)) ks keys"
        "tx' = tx @ concat (key # keys)" by auto
      then show ?case using 1 ex path_frame_step by blast
    next
      case (2 e t)
      then have "e = ERROR_FAILED_CX_OPERATION" "path_frame s t" "wf_path (global_derivation_path t)" using path_frame_step by blast+
      moreover have "\<nexists>keys. list_all2 (\<lambda>k key. derive (path_of (legacy_base identity @ [hardened k])) = Some (Ok key)) (k # ks) keys"
        using 2 by (auto simp: list_all2_Cons1)
      ultimately show ?case by blast
    qed
  qed (use r dn st(1) path_frame_start in \<open>simp_all add: Let_def list_all2_Cons1\<close>)
qed (simp add: path_frame_def)

definition legacy_kinds :: "bool \<Rightarrow> u32 list" where
  "legacy_kinds both = LEGACY_PRF_KEY # (if both then [LEGACY_ID_CRED_SEC] else [])"

text \<open>An approved export sends the keys of the identity on the review, of the kinds it lists and in the
  form it names, and nothing else.\<close>

lemma export_private_key_wp:
  assumes E: "platform E" and wf: "wf_app s" and b: "take 5 (nodes (global_derivation_path s)) = legacy_base identity"
  shows "wp (exportPrivateKey E s)
    (\<lambda>_ t. \<exists>keys. list_all2 (released E (ek_exportSeed (export s)) identity) (legacy_kinds (ek_exportBoth (export s))) keys \<and>
      replies t = replies s @ [(concat keys, SWO_SUCCESS)] \<and> wf_app t \<and> \<not> claimed t \<and> screen t = None)
    (\<lambda>e t. refused s e t \<and> e = ERROR_FAILED_CX_OPERATION \<and>
      (\<nexists>keys. list_all2 (released E (ek_exportSeed (export s)) identity) (legacy_kinds (ek_exportBoth (export s))) keys))"
proof -
  let ?ks = "legacy_kinds (ek_exportBoth (export s))"
  have p: "wf_path (global_derivation_path s)" using wf by (simp add: wf_app_def)
  have k: "exported_kinds (export s) = ?ks" by (simp add: exported_kinds_def legacy_kinds_def)
  have l: "length ([] :: bytes) + 32 * length ?ks \<le> 260" by (simp add: legacy_kinds_def)
  have fin: "wp (bind (export_keys derive full ?ks [] s) (\<lambda>tx s. send_success tx s))
      (\<lambda>_ t. \<exists>keys. list_all2 (released E seed identity) ?ks keys \<and>
        replies t = replies s @ [(concat keys, SWO_SUCCESS)] \<and> wf_app t \<and> \<not> claimed t \<and> screen t = None)
      (\<lambda>e t. refused s e t \<and> e = ERROR_FAILED_CX_OPERATION \<and> (\<nexists>keys. list_all2 (released E seed identity) ?ks keys))"
    if d: "\<And>p. \<exists>r. derive p = Some r \<and> rwp r (\<lambda>k. length k = 32) (\<lambda>e. e = ERROR_FAILED_CX_OPERATION)"
      and n: "\<And>p. derive p = derive (path_of (used_nodes p))"
      and r: "\<And>k key. derive (path_of (legacy_base identity @ [hardened k])) = Some (Ok key) \<longleftrightarrow> released E seed identity k key"
    for derive full seed
    unfolding wp_bind
  proof (rule wp_mono [OF export_keys_wp [where derive = derive, OF d n p b l]], goal_cases)
    case (1 tx t)
    then have "wf_app t" using wf path_frameD [of s t] by (simp add: wf_app_def)
    then show ?case using 1 r path_frameD [of s t] by (auto simp: claimed_def)
  next
    case (2 e t)
    then show ?case using wf path_frameD [of s t] unfolding r by (simp add: refused_def wf_app_def)
  qed
  show ?thesis
  proof (cases "ek_exportSeed (export s)")
    case True
    show ?thesis
      unfolding exportPrivateKey_def if_P [OF True] exportPrivateKeySeed_def k
      using rwp_get_private_key [OF platformD(8) [OF E]] keys_of_nodes(1) [OF refl] True
      by (intro fin) (auto simp: released_def)
  next
    case False
    show ?thesis
      unfolding exportPrivateKey_def if_not_P [OF False] exportPrivateKeyBls_def k
      using bls_key_wp [OF E, of 32] keys_of_nodes(2) [OF refl] False
      by (intro fin) (auto simp: released_def)
  qed
qed

subsection \<open>The flow\<close>

definition legacy_asked :: "app \<Rightarrow> u32 \<Rightarrow> bool" where
  "legacy_asked s identity \<longleftrightarrow> (\<exists>rv. screen s = Some rv \<and> rv_callback rv = review_export_private_key \<and>
      rv_pairs rv = legacy_rows (ek_exportBoth (export s)) (ek_exportSeed (export s)) identity) \<and>
    take 5 (nodes (global_derivation_path s)) = legacy_base identity \<and> identity AND HARDENED_BIT = 0"

definition legacy_flow :: "sdk \<Rightarrow> app \<Rightarrow> bool" where
  "legacy_flow E s \<longleftrightarrow> (awaiting s \<longrightarrow> (\<exists>identity. legacy_asked s identity))"

lemma legacy_export_handle:
  assumes E: "platform E" and wf: "wf_app s" "\<not> awaiting s"
  shows "wp (handle_export_private_key_legacy_path E c initial s) (\<lambda>_ t. kept (legacy_flow E) s t) (refused s)"
proof (cases "cmd_p1 c \<in> {0, 1, 2} \<and> cmd_p2 c \<in> {1, 2} \<and> 4 \<le> length (cmd_data c) \<and> node_at (cmd_data c) 0 AND HARDENED_BIT = 0")
  case False
  have "refused s e (set_export f s)" if "status_word e" for e f
    using that wf(1) by (simp add: refused_def wf_app_def)
  then show ?thesis
    using False refused_self [OF wf(1)]
    by (auto simp: handle_export_private_key_legacy_path_def Let_def node_at_def)
next
  case True
  let ?id = "node_at (cmd_data c) 0"
  let ?both = "cmd_p1 c = P1_LEGACY_PRF_KEY_AND_ID_CRED_SEC" and ?seed = "cmd_p2 c = P2_LEGACY_SEED"
  let ?dp = "harden_derivation_path (init_derivation_path\<lparr> path_len := 5, nodes := [LEGACY_PURPOSE, LEGACY_COIN_TYPE, ACCOUNT_SUBTREE, NORMAL_ACCOUNTS, ?id] @ replicate 3 0 \<rparr>)"
  define u where "u = set_export (\<lambda>c. c\<lparr> ek_isNewPath := False, ek_exportBoth := ?both, ek_exportSeed := ?seed \<rparr>)
    (s\<lparr> global_derivation_path := ?dp \<rparr>)"
  have p: "wf_path ?dp" "take 5 (nodes ?dp) = legacy_base ?id"
    by (simp_all add: wf_path_def harden_derivation_path_def used_nodes_def legacy_base_def)
  have "wf_app (s\<lparr> global_derivation_path := ?dp \<rparr>)" using wf(1) p(1) by (simp add: wf_app_def)
  then have wu: "wf_app u" using wf_export_app [OF wf(1)] unfolding u_def
    by (intro wf_app_export) (simp_all add: wf_export_def)
  have fu: "ek_exportBoth (export u) = ?both" "ek_exportSeed (export u) = ?seed" "global_derivation_path u = ?dp"
    "replies u = replies s" "screen u = screen s" "currentInstruction u = currentInstruction s"
    by (simp_all add: u_def)
  have "ek_exportBoth (export u) = (cmd_p1 c = 2)" by (simp add: fu(1))
  from legacy_texts_Ok [OF platformD(4) [OF E] wf_export_app [OF wu] _ this, of ?id] True
  obtain c' where c': "legacy_texts E (cmd_p1 c) ?id (export u) = Ok c'" "export_ready c'"
    "shown_rows (export_rows c') = legacy_rows ?both ?seed ?id" "ek_exportBoth c' = ?both" "ek_exportSeed c' = ?seed"
    unfolding fu(1,2) by blast
  have eq: "handle_export_private_key_legacy_path E c initial s = uiExportPrivateKey (set_export (\<lambda>_. c') u)"
    using True c'(1) by (auto simp: handle_export_private_key_legacy_path_def Let_def U4BE_def slice_def node_at_def u_def)
  have wv: "wf_app (set_export (\<lambda>_. c') u)" using c'(2) by (intro wf_app_export wu) (simp add: export_ready_def)
  show ?thesis
    unfolding eq
  proof (rule wp_mono [OF export_review_wp(1) [where rows = "legacy_rows ?both ?seed ?id"]], goal_cases)
    case (4 a t)
    then have "legacy_asked t ?id" using p(2) True c'(4,5) fu(3) by (auto simp: export_drawn_def legacy_asked_def)
    moreover from this have "awaiting t" by (auto simp: legacy_asked_def awaiting_def)
    ultimately show ?case
      using 4 fu wf(2) by (auto simp: kept_defs export_drawn_def legacy_flow_def claimed_def)
  qed (use c' wv in simp_all)
qed

lemma legacy_export_choice:
  assumes E: "platform E" and wf: "wf_app s" "\<not> awaiting s" "awaiting (s\<lparr> screen := Some rv \<rparr>)"
    and st: "legacy_flow E (s\<lparr> screen := Some rv \<rparr>)"
  shows "rv_callback rv = review_export_private_key"
    "wp (choose_export_legacy E confirm s) (\<lambda>_ t. decided confirm (legacy_flow E) s t) (\<lambda>_ _. False)"
proof -
  obtain identity where a: "legacy_asked (s\<lparr> screen := Some rv \<rparr>) identity" using wf(3) st by (auto simp: legacy_flow_def)
  then show "rv_callback rv = review_export_private_key" by (auto simp: legacy_asked_def)
  show "wp (choose_export_legacy E confirm s) (\<lambda>_ t. decided confirm (legacy_flow E) s t) (\<lambda>_ _. False)"
  proof (cases confirm)
    case True
    show ?thesis
      unfolding choose_export_legacy_def if_P [OF True]
    proof (rule wp_ux_run_guarded, rule wp_mono [OF export_private_key_wp [OF E wf(1), of identity]], goal_cases)
      case (2 x t)
      then show ?case using True by (auto simp: decided_defs awaiting_def)
    next
      case (3 e t)
      then have "refused s e t" by blast
      then show ?case using True refused_decided by simp
    qed (use a in \<open>simp add: legacy_asked_def\<close>)
  qed (use rejection_decided [OF wf(1,2)] in \<open>simp add: choose_export_legacy_def\<close>)
qed

end
