(* ===== verification/ExportNewPath.thy ===== *)
theory ExportNewPath
  imports ExportKeys
begin

text \<open>
  Export of private keys on a new path: src/src/handler/export_private_key_new_path.c.

  The handler keeps the request and draws the review; the keys are derived when the user
  approves.  The output is written to \<open>ek_outputPrivateKeys\<close>, each key after its length, and is
  wiped on every path that ends the request.
\<close>

subsection \<open>Operations\<close>

abbreviation P1_IDENTITY_CREDENTIAL_CREATION :: u8 where "P1_IDENTITY_CREDENTIAL_CREATION \<equiv> 0"
abbreviation P1_ACCOUNT_CREATION :: u8 where "P1_ACCOUNT_CREATION \<equiv> 1"
abbreviation P1_ID_RECOVERY :: u8 where "P1_ID_RECOVERY \<equiv> 2"
abbreviation P1_ACCOUNT_CREDENTIAL_DISCOVERY :: u8 where "P1_ACCOUNT_CREDENTIAL_DISCOVERY \<equiv> 3"
abbreviation P1_CREATION_OF_ZK_PROOF :: u8 where "P1_CREATION_OF_ZK_PROOF \<equiv> 4"
abbreviation P2_MAINNET :: u8 where "P2_MAINNET \<equiv> 0"
abbreviation P2_TESTNET :: u8 where "P2_TESTNET \<equiv> 1"

definition append_dec :: "sdk \<Rightarrow> bytes \<Rightarrow> nat \<Rightarrow> u64 \<Rightarrow> bool \<Rightarrow> (bytes \<times> nat) result" where
  "append_dec E buf off n more_follows =
     rbind (at_offset buf off (\<lambda>d. bin_to_dec E d n)) (\<lambda>(buf, step).
     Ok (buf, off + step - (if more_follows then 1 else 0)))"

text \<open>None is the return value false.\<close>

definition append_export_key_type :: "derivation_path \<Rightarrow> u32 \<Rightarrow> u32 \<Rightarrow> derivation_path option" where
  "append_export_key_type dp keyType account =
     (if keyType \<in> {NEW_ID_CRED_SEC, NEW_PRF_KEY, NEW_SIGNATURE_BLINDING_RANDOMNESS} then
        if 8 \<le> path_len dp then None
        else Some (dp\<lparr> nodes := (nodes dp)[path_len dp := keyType], path_len := path_len dp + 1 \<rparr>)
      else if keyType = NEW_COMMITMENT_RANDOMNESS then
        if 8 < path_len dp + 2 then None
        else Some (dp\<lparr> nodes := (nodes dp)[path_len dp := keyType, path_len dp + 1 := account],
               path_len := path_len dp + 2 \<rparr>)
      else None)"

definition export_coin_type :: "u8 \<Rightarrow> u32 option" where
  "export_coin_type networkDesignation =
     (if networkDesignation = P2_MAINNET then Some NEW_MAINNET_COIN_TYPE
      else if networkDesignation = P2_TESTNET then Some NEW_TESTNET_COIN_TYPE else None)"

definition keysToExport :: "u8 \<Rightarrow> u32 list option" where
  "keysToExport purpose =
     (if purpose = P1_IDENTITY_CREDENTIAL_CREATION
      then Some [NEW_ID_CRED_SEC, NEW_PRF_KEY, NEW_SIGNATURE_BLINDING_RANDOMNESS]
      else if purpose = P1_ACCOUNT_CREATION then Some [NEW_PRF_KEY, NEW_ID_CRED_SEC, NEW_COMMITMENT_RANDOMNESS]
      else if purpose = P1_ID_RECOVERY then Some [NEW_ID_CRED_SEC, NEW_SIGNATURE_BLINDING_RANDOMNESS]
      else if purpose = P1_ACCOUNT_CREDENTIAL_DISCOVERY then Some [NEW_PRF_KEY]
      else if purpose = P1_CREATION_OF_ZK_PROOF then Some [NEW_COMMITMENT_RANDOMNESS]
      else None)"

text \<open>The loop inside TRY: the output buffer and the bytes written.\<close>

primrec new_path_keys :: "sdk \<Rightarrow> u32 \<Rightarrow> u32 \<Rightarrow> u32 \<Rightarrow> u32 \<Rightarrow> u32 list \<Rightarrow> bytes \<Rightarrow> nat \<Rightarrow> (bytes \<times> nat) result option" where
  "new_path_keys E coin_type identityProvider identity account [] out tx = Some (Ok (out, tx))"
| "new_path_keys E coin_type identityProvider identity account (k # ks) out tx =
     (case append_export_key_type
             (init_derivation_path\<lparr> path_len := 4,
                nodes := [NEW_PURPOSE, coin_type, identityProvider, identity] @ replicate 4 0 \<rparr>) k account of
        None \<Rightarrow> Some (Err ERROR_BUFFER_OVERFLOW)
      | Some subpath \<Rightarrow>
          let subpath = harden_derivation_path subpath;
              exportedKeyLength = (if k = NEW_COMMITMENT_RANDOMNESS then 64 else 32) in
          if length out < tx + 1 + exportedKeyLength then Some (Err ERROR_BUFFER_OVERFLOW)
          else
            (case (if k = NEW_COMMITMENT_RANDOMNESS
                   then Some (rbind (get_extended_private_key E subpath 32 32) (\<lambda>(key, chainCode). Ok (key @ chainCode)))
                   else get_bls_private_key E subpath 64) of
               None \<Rightarrow> None
             | Some r \<Rightarrow>
                 (case rbind r (\<lambda>key. rbind (slice key 0 exportedKeyLength) (\<lambda>key.
                         put out tx (of_nat exportedKeyLength # key))) of
                    Ok out \<Rightarrow> new_path_keys E coin_type identityProvider identity account ks out
                                (tx + 1 + exportedKeyLength)
                  | Err e \<Rightarrow> Some (Err e)
                  | Oob \<Rightarrow> Some Oob)))"

text \<open>The result is the number of bytes written to the context's output buffer and the status word.\<close>

definition exportNewPathPrivateKeysForPurpose ::
    "sdk \<Rightarrow> u8 \<Rightarrow> u8 \<Rightarrow> u32 \<Rightarrow> u32 \<Rightarrow> u32 \<Rightarrow> app \<Rightarrow> (nat \<times> u16) act" where
  "exportNewPathPrivateKeysForPurpose E purpose networkDesignation identityProvider identity account s =
     (case export_coin_type networkDesignation of
        None \<Rightarrow> Ret (0, ERROR_INVALID_PARAM) s
      | Some coin_type \<Rightarrow>
          (case keysToExport purpose of
             None \<Rightarrow> Ret (0, ERROR_INVALID_PARAM) s
           | Some ks \<Rightarrow>
               (case new_path_keys E coin_type identityProvider identity account ks
                       (ek_outputPrivateKeys (export s)) 0 of
                  None \<Rightarrow> Fault
                | Some Oob \<Rightarrow> Fault
                | Some (Ok (out, tx)) \<Rightarrow> Ret (tx, SWO_SUCCESS) (set_export (\<lambda>c. c\<lparr> ek_outputPrivateKeys := out \<rparr>) s)
                | Some (Err thrown) \<Rightarrow>
                    let s = set_export (\<lambda>c. c\<lparr> ek_outputPrivateKeys := zeros 195 \<rparr>) s in
                    if thrown \<le> MAX_SYSTEM_EXCEPTION then Throw thrown s else Ret (0, thrown) s)))"

definition new_path_credid :: "sdk \<Rightarrow> u32 \<Rightarrow> u32 \<Rightarrow> bool \<Rightarrow> bytes \<Rightarrow> (bytes \<times> nat) result" where
  "new_path_credid E identityProvider identity need_account_suffix buf =
     rbind (put buf 0 (ascii ''IDP#'')) (\<lambda>buf.
     rbind (append_dec E buf 4 (ucast identityProvider) True) (\<lambda>(buf, offset).
     rbind (put buf offset (ascii '' ID#'')) (\<lambda>buf.
     append_dec E buf (offset + 4) (ucast identity) need_account_suffix)))"

definition new_path_account :: "sdk \<Rightarrow> u32 \<Rightarrow> nat \<Rightarrow> bytes \<Rightarrow> bytes result" where
  "new_path_account E account offset buf =
     (if length buf < offset + 9 then Err ERROR_BUFFER_OVERFLOW
      else rbind (put buf offset (ascii '' ACCOUNT#'')) (\<lambda>buf.
           rbind (append_dec E buf (offset + 9) (ucast account) False) (\<lambda>(buf, _). Ok buf)))"

text \<open>The texts that depend on the purpose.\<close>

definition new_path_purpose_texts :: "u8 \<Rightarrow> exportPrivateKeyContext \<Rightarrow> exportPrivateKeyContext result" where
  "new_path_purpose_texts p1 c =
     (if p1 = P1_IDENTITY_CREDENTIAL_CREATION then
        rbind (write_text ek_display_review_verb_update ek_display_review_verb ''to create credentials'' c) (\<lambda>c.
        rbind (write_text ek_display_sign_verb_update ek_display_sign_verb ''to create credentials?'' c) (\<lambda>c.
        write_text ek_display_key_types_update ek_display_key_types ''IdCredSec, PRF key, blinding'' c))
      else if p1 = P1_ACCOUNT_CREATION then
        rbind (write_text ek_display_review_verb_update ek_display_review_verb ''to create account'' c) (\<lambda>c.
        rbind (write_text ek_display_sign_verb_update ek_display_sign_verb ''to create account?'' c) (\<lambda>c.
        write_text ek_display_key_types_update ek_display_key_types ''PRF key, IdCredSec, commitment'' c))
      else if p1 = P1_ID_RECOVERY then
        rbind (write_text ek_display_review_verb_update ek_display_review_verb ''to recover credentials'' c) (\<lambda>c.
        rbind (write_text ek_display_sign_verb_update ek_display_sign_verb ''to recover credentials?'' c) (\<lambda>c.
        write_text ek_display_key_types_update ek_display_key_types ''IdCredSec, blinding'' c))
      else if p1 = P1_ACCOUNT_CREDENTIAL_DISCOVERY then
        rbind (write_text ek_display_review_verb_update ek_display_review_verb ''to discover credentials'' c) (\<lambda>c.
        rbind (write_text ek_display_sign_verb_update ek_display_sign_verb ''to discover credentials?'' c) (\<lambda>c.
        write_text ek_display_key_types_update ek_display_key_types ''PRF key'' c))
      else if p1 = P1_CREATION_OF_ZK_PROOF then
        rbind (write_text ek_display_review_verb_update ek_display_review_verb ''to create ZK proof'' c) (\<lambda>c.
        rbind (write_text ek_display_sign_verb_update ek_display_sign_verb ''to create ZK proof?'' c) (\<lambda>c.
        write_text ek_display_key_types_update ek_display_key_types ''Commitment randomness'' c))
      else Ok c)"

definition new_path_texts :: "sdk \<Rightarrow> u8 \<Rightarrow> u8 \<Rightarrow> u32 \<Rightarrow> u32 \<Rightarrow> u32 \<Rightarrow> exportPrivateKeyContext \<Rightarrow>
    exportPrivateKeyContext result" where
  "new_path_texts E p1 p2 identityProvider identity account c =
     (let need_account_suffix = p1 \<in> {P1_ACCOUNT_CREATION, P1_CREATION_OF_ZK_PROOF} in
      rbind (new_path_credid E identityProvider identity need_account_suffix (ek_display_credid c)) (\<lambda>(d, offset).
      let c = c\<lparr> ek_display_credid := d \<rparr> in
      rbind (write_text ek_display_review_operation_update ek_display_review_operation ''Export private keys'' c) (\<lambda>c.
      rbind (write_text ek_display_credid_title_update ek_display_credid_title ''Credentials ID'' c) (\<lambda>c.
      rbind (write_text ek_display_sign_update ek_display_sign ''Approve export'' c) (\<lambda>c.
      rbind (write_text ek_display_detail_title_update ek_display_detail_title ''Network'' c) (\<lambda>c.
      rbind (write_text ek_display_detail_update ek_display_detail (if p2 = P2_MAINNET then ''Mainnet'' else ''Testnet'') c) (\<lambda>c.
      rbind (new_path_purpose_texts p1 c) (\<lambda>c.
      if need_account_suffix
      then rbind (new_path_account E account offset (ek_display_credid c)) (\<lambda>d. Ok (c\<lparr> ek_display_credid := d \<rparr>))
      else Ok c))))))))"

text \<open>Four bytes of the request that may not have the hardened bit.\<close>

definition read_index :: "bytes \<Rightarrow> nat \<Rightarrow> u32 result" where
  "read_index cdata offset =
     (if length cdata - offset < 4 then Err ERROR_INVALID_PATH
      else rbind (U4BE cdata offset) (\<lambda>v. if v AND HARDENED_BIT \<noteq> 0 then Err ERROR_INVALID_PATH else Ok v))"

definition handle_export_private_key_new_path :: "sdk \<Rightarrow> command \<Rightarrow> bool \<Rightarrow> app \<Rightarrow> unit act" where
  "handle_export_private_key_new_path E cmd isInitialCall s =
     (let p1 = cmd_p1 cmd; p2 = cmd_p2 cmd; cdata = cmd_data cmd in
      if p1 \<notin> {P1_IDENTITY_CREDENTIAL_CREATION, P1_ACCOUNT_CREATION, P1_ID_RECOVERY,
                P1_ACCOUNT_CREDENTIAL_DISCOVERY, P1_CREATION_OF_ZK_PROOF} then Throw ERROR_INVALID_PARAM s
      else if p2 \<notin> {P2_MAINNET, P2_TESTNET} then Throw ERROR_INVALID_PARAM s
      else
        call (read_index cdata 0) s (\<lambda>identityProvider.
        call (read_index cdata 4) s (\<lambda>identity.
        call (if p1 \<in> {P1_ACCOUNT_CREATION, P1_CREATION_OF_ZK_PROOF} then read_index cdata 8
              else Ok 0xFFFFFFFF) s (\<lambda>account.
        let s = set_export (\<lambda>c. c\<lparr> ek_newPathPurpose := p1, ek_newPathNetwork := p2,
              ek_newPathIdentityProvider := identityProvider, ek_newPathIdentity := identity,
              ek_newPathAccount := account, ek_isNewPath := True,
              ek_outputPrivateKeys := zeros 195, ek_privateKeysLength := 0 \<rparr>) s in
        call (new_path_texts E p1 p2 identityProvider identity account (export s)) s (\<lambda>c.
        uiExportPrivateKeysNewPath (set_export (\<lambda>_. c) s))))))"

definition sendPrivateKeysNewPath :: "sdk \<Rightarrow> app \<Rightarrow> unit act" where
  "sendPrivateKeysNewPath E s =
     (if \<not> ek_isNewPath (export s)
      then bind (send_rejection ERROR_INVALID_STATE s) (\<lambda>_ s. ui_menu_main s)
      else
        bind (exportNewPathPrivateKeysForPurpose E (ek_newPathPurpose (export s)) (ek_newPathNetwork (export s))
                (ek_newPathIdentityProvider (export s)) (ek_newPathIdentity (export s)) (ek_newPathAccount (export s)) s)
          (\<lambda>(n, sw) s.
        if sw \<noteq> SWO_SUCCESS
        then bind (send_rejection sw (set_export (\<lambda>c. c\<lparr> ek_privateKeysLength := 0 \<rparr>) s)) (\<lambda>_ s. ui_menu_main s)
        else
          let s = set_export (\<lambda>c. c\<lparr> ek_privateKeysLength := n mod 256 \<rparr>) s in
          call (slice (ek_outputPrivateKeys (export s)) 0 (ek_privateKeysLength (export s))) s (\<lambda>payload.
          bind (send_success payload s) (\<lambda>_ s.
          Ret () (set_export (\<lambda>c. c\<lparr> ek_outputPrivateKeys := zeros 195, ek_privateKeysLength := 0 \<rparr>) s)))))"

definition rejectPrivateKeysNewPath :: "app \<Rightarrow> unit act" where
  "rejectPrivateKeysNewPath s =
     send_user_rejection (set_export (\<lambda>c. c\<lparr> ek_outputPrivateKeys := zeros 195, ek_privateKeysLength := 0 \<rparr>) s)"

text \<open>\<open>review_export_private_key_new_path\<close> of display_nbgl.c.\<close>

definition choose_export_new_path :: "sdk \<Rightarrow> bool \<Rightarrow> app \<Rightarrow> unit act" where
  "choose_export_new_path E confirm s =
     (if confirm then ux_run_guarded (sendPrivateKeysNewPath E) s else ux_run_guarded rejectPrivateKeysNewPath s)"

subsection \<open>Texts\<close>

lemma append_dec_wp:
  assumes "formats_numbers E" "k = length pre"
  shows "rwp (append_dec E (pre @ rest) k v more_follows)
    (\<lambda>(d, n). (\<exists>r. d = (pre @ dec (unat v)) @ 0 # r) \<and> length d = length (pre @ rest) \<and>
      n = length (pre @ dec (unat v)) + (if more_follows then 0 else 1))
    (\<lambda>e. e = ERROR_BUFFER_OVERFLOW)"
  using assms by (auto simp: append_dec_def at_offset_def intro: rwp_mono [OF bin_to_dec_wp])

definition credid_text :: "u32 \<Rightarrow> u32 \<Rightarrow> bytes" where
  "credid_text idp identity = ascii ''IDP#'' @ dec (unat idp) @ ascii '' ID#'' @ dec (unat identity)"

lemma new_path_credid_wp:
  assumes E: "formats_numbers E" and l: "length b = 22"
  shows "rwp (new_path_credid E idp identity need b)
    (\<lambda>(d, off). (\<exists>r. d = credid_text idp identity @ 0 # r) \<and> length d = 22 \<and>
      off = length (credid_text idp identity) + (if need then 0 else 1))
    (\<lambda>e. e = ERROR_BUFFER_OVERFLOW)"
proof -
  let ?p = "ascii ''IDP#'' @ dec (unat idp)"
  have p: "put b 0 (ascii ''IDP#'') = Ok (ascii ''IDP#'' @ drop 4 b)" using l by (simp add: put_Ok numeral_eq_Suc)
  have l10: "length (dec (unat idp)) \<le> 10" by (rule length_dec_u32)
  show ?thesis
    unfolding new_path_credid_def p rbind.simps rwp_bind
  proof (rule rwp_mono [OF append_dec_wp [OF E]], goal_cases)
    case (2 x)
    then obtain r where r: "x = (?p @ 0 # r, length ?p)" "length (?p @ 0 # r) = 22" using l by (cases x) auto
    have p4: "put (?p @ 0 # r) (length ?p) (ascii '' ID#'') = Ok ((?p @ ascii '' ID#'') @ drop 4 (0 # r))"
      using r(2) l10 put_append [of "ascii '' ID#''" "0 # r" ?p] by (simp add: numeral_eq_Suc)
    have "rwp (append_dec E ((?p @ ascii '' ID#'') @ drop 4 (0 # r)) (length ?p + 4) (ucast identity) need)
        (\<lambda>(d, off). (\<exists>r. d = credid_text idp identity @ 0 # r) \<and> length d = 22 \<and>
          off = length (credid_text idp identity) + (if need then 0 else 1)) (\<lambda>e. e = ERROR_BUFFER_OVERFLOW)"
    proof (rule rwp_mono [OF append_dec_wp [OF E]], goal_cases)
      case (2 y)
      have "length ((?p @ ascii '' ID#'') @ drop 4 (0 # r)) = 22" using r(2) l10 by simp
      then show ?case using 2 by (cases y) (auto simp: credid_text_def)
    qed simp_all
    then show ?case unfolding r(1) prod.case using p4 by simp
  qed simp_all
qed

lemma new_path_account_wp:
  assumes E: "formats_numbers E" and d: "d = t @ 0 # r" "length d = 22"
  shows "rwp (new_path_account E account (length t) d)
    (\<lambda>d. (\<exists>r. d = (t @ ascii '' ACCOUNT#'' @ dec (unat account)) @ 0 # r) \<and> length d = 22)
    (\<lambda>e. e = ERROR_BUFFER_OVERFLOW)"
proof (cases "length d < length t + 9")
  case False
  have p: "put d (length t) (ascii '' ACCOUNT#'') = Ok ((t @ ascii '' ACCOUNT#'') @ drop 9 (0 # r))"
    using False d put_append [of "ascii '' ACCOUNT#''" "0 # r" t] by (simp add: numeral_eq_Suc)
  show ?thesis
    unfolding new_path_account_def if_not_P [OF False] p rbind.simps rwp_bind
  proof (rule rwp_mono [OF append_dec_wp [OF E]], goal_cases)
    case (2 x)
    have "length ((t @ ascii '' ACCOUNT#'') @ drop 9 (0 # r)) = 22" using d False by simp
    then show ?case using 2 by (cases x) auto
  qed simp_all
qed (simp add: new_path_account_def)

lemma zero_notin_new_path_texts [simp]:
  "0 \<notin> set (ascii ''Network'')" "0 \<notin> set (ascii ''Mainnet'')" "0 \<notin> set (ascii ''Testnet'')"
  "0 \<notin> set (ascii ''IdCredSec, PRF key, blinding'')" "0 \<notin> set (ascii ''PRF key, IdCredSec, commitment'')"
  "0 \<notin> set (ascii ''IdCredSec, blinding'')" "0 \<notin> set (ascii ''Commitment randomness'')"
  "0 \<notin> set (ascii ''IDP#'')" "0 \<notin> set (ascii '' ID#'')" "0 \<notin> set (ascii '' ACCOUNT#'')"
  by (simp_all add: ascii_def)

lemma zero_notin_credid_text [simp]: "0 \<notin> set (credid_text idp identity)"
  by (simp add: credid_text_def)

text \<open>The kinds of key a purpose releases, as the review names them.\<close>

definition purpose_kinds :: "u8 \<Rightarrow> bytes" where
  "purpose_kinds p1 =
     (if p1 = P1_IDENTITY_CREDENTIAL_CREATION then ascii ''IdCredSec, PRF key, blinding''
      else if p1 = P1_ACCOUNT_CREATION then ascii ''PRF key, IdCredSec, commitment''
      else if p1 = P1_ID_RECOVERY then ascii ''IdCredSec, blinding''
      else if p1 = P1_ACCOUNT_CREDENTIAL_DISCOVERY then ascii ''PRF key'' else ascii ''Commitment randomness'')"

definition with_account :: "u8 \<Rightarrow> bool" where
  "with_account p1 \<longleftrightarrow> p1 \<in> {P1_ACCOUNT_CREATION, P1_CREATION_OF_ZK_PROOF}"

definition new_path_rows :: "u8 \<Rightarrow> u8 \<Rightarrow> u32 \<Rightarrow> u32 \<Rightarrow> u32 \<Rightarrow> (bytes \<times> bytes) list" where
  "new_path_rows p1 p2 idp identity account =
     export_pairs (credid_text idp identity @
         (if with_account p1 then ascii '' ACCOUNT#'' @ dec (unat account) else []))
       ''Network'' (if p2 = P2_MAINNET then ascii ''Mainnet'' else ascii ''Testnet'') (purpose_kinds p1)"

lemma purpose_texts_Ok:
  assumes "export_ready c" "p1 \<in> {0, 1, 2, 3, 4}"
  shows "\<exists>k v w. new_path_purpose_texts p1 c =
      Ok (c\<lparr> ek_display_review_verb := w, ek_display_sign_verb := v, ek_display_key_types := k \<rparr>) \<and>
    cbuf 26 v \<and> cbuf 24 w \<and> cbuf 40 k \<and> cstr k = purpose_kinds p1"
proof -
  have c: "cbuf 24 (ek_display_review_verb c)" "cbuf 26 (ek_display_sign_verb c)" "cbuf 40 (ek_display_key_types c)"
    using assms(1) by (simp_all add: export_ready_def wf_export_def)
  have l: "length (ek_display_review_verb c) = 24" "length (ek_display_sign_verb c) = 26" "length (ek_display_key_types c) = 40"
    using c by (simp_all add: cbuf_def)
  define kt where "kt = (if p1 = 0 then ''IdCredSec, PRF key, blinding'' else if p1 = 1 then ''PRF key, IdCredSec, commitment''
    else if p1 = 2 then ''IdCredSec, blinding'' else if p1 = 3 then ''PRF key'' else ''Commitment randomness'')"
  define st where "st = (if p1 = 0 then ''to create credentials?'' else if p1 = 1 then ''to create account?''
    else if p1 = 2 then ''to recover credentials?'' else if p1 = 3 then ''to discover credentials?'' else ''to create ZK proof?'')"
  define wt where "wt = (if p1 = 0 then ''to create credentials'' else if p1 = 1 then ''to create account''
    else if p1 = 2 then ''to recover credentials'' else if p1 = 3 then ''to discover credentials'' else ''to create ZK proof'')"
  have n: "length kt < 40" "length st < 26" "length wt < 24" "0 \<notin> set (ascii kt)" "ascii kt = purpose_kinds p1"
    by (simp_all add: kt_def st_def wt_def purpose_kinds_def)
  have "new_path_purpose_texts p1 c = Ok (c\<lparr> ek_display_review_verb := text_in (ek_display_review_verb c) wt,
      ek_display_sign_verb := text_in (ek_display_sign_verb c) st,
      ek_display_key_types := text_in (ek_display_key_types c) kt \<rparr>)"
    using assms(2) l by (auto simp: new_path_purpose_texts_def write_text_Ok kt_def st_def wt_def)
  then show ?thesis using c n by (metis text_in_simps(1,2))
qed

definition same_request :: "exportPrivateKeyContext \<Rightarrow> exportPrivateKeyContext \<Rightarrow> bool" where
  "same_request c c' \<longleftrightarrow> ek_isNewPath c' = ek_isNewPath c \<and> ek_newPathPurpose c' = ek_newPathPurpose c \<and>
     ek_newPathNetwork c' = ek_newPathNetwork c \<and> ek_newPathIdentityProvider c' = ek_newPathIdentityProvider c \<and>
     ek_newPathIdentity c' = ek_newPathIdentity c \<and> ek_newPathAccount c' = ek_newPathAccount c \<and>
     ek_outputPrivateKeys c' = ek_outputPrivateKeys c \<and> ek_privateKeysLength c' = ek_privateKeysLength c"

lemma new_path_texts_wp:
  assumes E: "formats_numbers E" and wf: "wf_export c" and p1: "p1 \<in> {0, 1, 2, 3, 4}"
  shows "rwp (new_path_texts E p1 p2 idp identity account c)
    (\<lambda>c'. export_ready c' \<and> shown_rows (export_rows c') = new_path_rows p1 p2 idp identity account \<and> same_request c c')
    (\<lambda>e. e = ERROR_BUFFER_OVERFLOW)"
proof -
  have b: "cbuf 48 (ek_display_review_operation c)" "cbuf 15 (ek_display_credid_title c)" "cbuf 22 (ek_display_credid c)"
    "cbuf 48 (ek_display_sign c)" "cbuf 16 (ek_display_detail_title c)" "cbuf 24 (ek_display_detail c)"
    using wf by (simp_all add: wf_export_def)
  have l: "length (ek_display_review_operation c) = 48" "length (ek_display_credid_title c) = 15"
    "length (ek_display_credid c) = 22" "length (ek_display_sign c) = 48" "length (ek_display_detail_title c) = 16"
    "length (ek_display_detail c) = 24"
    using b by (simp_all add: cbuf_def)
  define net where "net = (if p2 = P2_MAINNET then ''Mainnet'' else ''Testnet'')"
  have n: "length net < 24" "0 \<notin> set (ascii net)"
    "ascii net = (if p2 = P2_MAINNET then ascii ''Mainnet'' else ascii ''Testnet'')" by (simp_all add: net_def)
  show ?thesis
    unfolding new_path_texts_def with_account_def [symmetric] Let_def rwp_bind
  proof (rule rwp_mono [OF new_path_credid_wp [OF E l(3)]], goal_cases)
    case (1 x)
    obtain d off r where x: "x = (d, off)" "d = credid_text idp identity @ 0 # r" "length d = 22"
      "off = length (credid_text idp identity) + (if with_account p1 then 0 else 1)"
      using 1 by (cases x) auto
    define c1 where "c1 = c\<lparr> ek_display_credid := d,
        ek_display_review_operation := text_in (ek_display_review_operation c) ''Export private keys'',
        ek_display_credid_title := text_in (ek_display_credid_title c) ''Credentials ID'',
        ek_display_sign := text_in (ek_display_sign c) ''Approve export'',
        ek_display_detail_title := text_in (ek_display_detail_title c) ''Network'',
        ek_display_detail := text_in (ek_display_detail c) net \<rparr>"
    have cd: "cbuf 22 d" using x(2,3) by (simp add: cbuf_def)
    have r1: "export_ready c1" using wf b cd n by (simp add: c1_def export_ready_def wf_export_def)
    obtain k v w where v: "new_path_purpose_texts p1 c1 =
        Ok (c1\<lparr> ek_display_review_verb := w, ek_display_sign_verb := v, ek_display_key_types := k \<rparr>)"
      "cbuf 26 v" "cbuf 24 w" "cbuf 40 k" "cstr k = purpose_kinds p1"
      using purpose_texts_Ok [OF r1 p1] by blast
    define c2 where "c2 = c1\<lparr> ek_display_review_verb := w, ek_display_sign_verb := v, ek_display_key_types := k \<rparr>"
    have r2: "export_ready c2" using r1 v by (simp add: c2_def export_ready_def wf_export_def)
    have fin: "export_ready (c2\<lparr> ek_display_credid := e \<rparr>) \<and>
        shown_rows (export_rows (c2\<lparr> ek_display_credid := e \<rparr>)) =
          export_pairs (cstr e) ''Network'' (if p2 = P2_MAINNET then ascii ''Mainnet'' else ascii ''Testnet'') (purpose_kinds p1) \<and>
        same_request c (c2\<lparr> ek_display_credid := e \<rparr>)" if "cbuf 22 e" for e
      using r2 v(5) n that by (simp add: c2_def c1_def export_ready_def wf_export_def export_rows_def export_pairs_def same_request_def)
    have d2: "ek_display_credid c2 = d" "c2\<lparr> ek_display_credid := d \<rparr> = c2" by (simp_all add: c2_def c1_def)
    have go: "rwp (if with_account p1 then rbind (new_path_account E account off (ek_display_credid c2))
          (\<lambda>d. Ok (c2\<lparr> ek_display_credid := d \<rparr>)) else Ok c2)
        (\<lambda>c'. export_ready c' \<and> shown_rows (export_rows c') = new_path_rows p1 p2 idp identity account \<and> same_request c c')
        (\<lambda>e. e = ERROR_BUFFER_OVERFLOW)"
    proof (cases "with_account p1")
      case False
      then show ?thesis using fin [OF cd, unfolded d2(2)] x(2) by (simp add: new_path_rows_def)
    next
      case True
      then have off: "off = length (credid_text idp identity)" using x(4) by simp
      show ?thesis
        unfolding if_P [OF True] rwp_bind d2 off
      proof (rule rwp_mono [OF new_path_account_wp [OF E x(2,3)]], goal_cases)
        case (1 e)
        then obtain r where e: "e = (credid_text idp identity @ ascii '' ACCOUNT#'' @ dec (unat account)) @ 0 # r" "length e = 22"
          by blast
        then show ?case
          using True fin [of e] text_cbuf [OF e(1,2)] by (simp add: new_path_rows_def)
      qed simp
    qed
    show ?case
      unfolding x(1) prod.case
      using l n(1) go unfolding c1_def c2_def v(1) [unfolded c1_def]
      by (simp add: write_text_Ok net_def [symmetric] v(1) [unfolded c1_def])
  qed simp
qed

subsection \<open>The keys that leave the device\<close>

definition new_path_nodes :: "u32 \<Rightarrow> u32 \<Rightarrow> u32 \<Rightarrow> u32 \<Rightarrow> u32 \<Rightarrow> u32 list" where
  "new_path_nodes coin idp identity account k = map hardened ([NEW_PURPOSE, coin, idp, identity, k] @
     (if k = NEW_COMMITMENT_RANDOMNESS then [account] else []))"

definition new_released :: "sdk \<Rightarrow> u32 \<Rightarrow> u32 \<Rightarrow> u32 \<Rightarrow> u32 \<Rightarrow> u32 \<Rightarrow> bytes \<Rightarrow> bool" where
  "new_released E coin idp identity account k key \<longleftrightarrow>
     (let p = path_of (new_path_nodes coin idp identity account k) in
      if k = NEW_COMMITMENT_RANDOMNESS
      then (\<exists>d chain. get_extended_private_key E p 32 32 = Ok (d, chain) \<and> key = d @ chain)
      else get_bls_private_key E p 64 = Some (Ok key))"

definition key_size :: "u32 \<Rightarrow> nat" where
  "key_size k = (if k = NEW_COMMITMENT_RANDOMNESS then 64 else 32)"

definition with_length :: "bytes \<Rightarrow> bytes" where
  "with_length key = of_nat (length key) # key"

lemma append_key_type_nodes:
  assumes "k \<in> {2, 3, 4, 5}"
  obtains p where "append_export_key_type (init_derivation_path\<lparr> path_len := 4,
      nodes := [NEW_PURPOSE, coin, idp, identity] @ replicate 4 0 \<rparr>) k account = Some p"
    "used_nodes (harden_derivation_path p) = new_path_nodes coin idp identity account k"
proof -
  let ?b = "init_derivation_path\<lparr> path_len := 4, nodes := [NEW_PURPOSE, coin, idp, identity] @ replicate 4 0 \<rparr>"
  let ?p = "if k = 5 then ?b\<lparr> nodes := [NEW_PURPOSE, coin, idp, identity, k, account] @ replicate 2 0, path_len := 6 \<rparr>
    else ?b\<lparr> nodes := [NEW_PURPOSE, coin, idp, identity, k] @ replicate 3 0, path_len := 5 \<rparr>"
  have n: "replicate 4 (0 :: u32) = [0, 0, 0, 0]" "replicate 3 (0 :: u32) = [0, 0, 0]" "replicate 2 (0 :: u32) = [0, 0]"
    by (simp_all add: numeral_eq_Suc)
  have u: "(x0 # x1 # x2 # x3 # x4 # xs)[4 := v] = x0 # x1 # x2 # x3 # v # xs"
    "(x0 # x1 # x2 # x3 # x4 # x5 # xs)[5 := v] = x0 # x1 # x2 # x3 # x4 # v # xs"
    for x0 x1 x2 x3 x4 x5 v :: u32 and xs
    by (simp_all add: numeral_eq_Suc)
  have "append_export_key_type ?b k account = Some ?p"
    using assms by (auto simp: append_export_key_type_def n u)
  moreover have "used_nodes (harden_derivation_path ?p) = new_path_nodes coin idp identity account k"
    by (simp add: harden_derivation_path_def used_nodes_def new_path_nodes_def)
  ultimately show thesis by (rule that)
qed

lemma get_extended_wp:
  assumes "derives_keys E"
  shows "rwp (get_extended_private_key E p 32 32) (\<lambda>(d, c). length d = 32 \<and> length c = 32)
    (\<lambda>e. e = ERROR_FAILED_CX_OPERATION)"
  using assms by (auto simp: get_extended_private_key_def derives_keys_def split: option.split)

text \<open>One key of the request: what it is, and what is written for it.\<close>

lemma new_key_wp:
  assumes E: "platform E" and p: "used_nodes p = new_path_nodes coin idp identity account k"
  shows "\<exists>r. (if k = NEW_COMMITMENT_RANDOMNESS
      then Some (rbind (get_extended_private_key E p 32 32) (\<lambda>(key, chainCode). Ok (key @ chainCode)))
      else get_bls_private_key E p 64) = Some r \<and>
    rwp r (\<lambda>key. new_released E coin idp identity account k key \<and> length key = key_size k)
      (\<lambda>e. e = ERROR_FAILED_CX_OPERATION \<and> (\<nexists>key. new_released E coin idp identity account k key))"
proof -
  let ?p = "path_of (new_path_nodes coin idp identity account k)"
  note eq = keys_of_nodes [OF p]
  obtain r where r: "get_bls_private_key E ?p 64 = Some r"
    "rwp r (\<lambda>k. length k = 32) (\<lambda>e. e = ERROR_FAILED_CX_OPERATION)"
    using bls_key_wp [OF E, of 64] by auto
  show ?thesis
  proof (cases "k = NEW_COMMITMENT_RANDOMNESS")
    case True
    then show ?thesis
      using get_extended_wp [OF platformD(8) [OF E], of ?p] eq(3)
      by (cases "get_extended_private_key E ?p 32 32") (auto simp: new_released_def key_size_def Let_def)
  next
    case False
    then show ?thesis
      using r eq(2) by (cases r) (auto simp: new_released_def key_size_def Let_def)
  qed
qed

definition room :: "u32 list \<Rightarrow> nat" where
  "room ks = sum_list (map (\<lambda>k. key_size k + 1) ks)"

lemma new_path_keys_wp:
  assumes E: "platform E"
  shows "set ks \<subseteq> {2, 3, 4, 5} \<Longrightarrow> tx + room ks \<le> length out \<Longrightarrow>
    \<exists>r. new_path_keys E coin idp identity account ks out tx = Some r \<and>
    rwp r (\<lambda>(out', tx'). \<exists>keys. list_all2 (new_released E coin idp identity account) ks keys \<and>
        length out' = length out \<and> tx' = tx + room ks \<and>
        take tx' out' = take tx out @ concat (map with_length keys))
      (\<lambda>e. e = ERROR_FAILED_CX_OPERATION \<and> (\<nexists>keys. list_all2 (new_released E coin idp identity account) ks keys))"
proof (induction ks arbitrary: out tx)
  case Nil
  then show ?case by (simp add: room_def)
next
  case (Cons k ks)
  have "k \<in> {2, 3, 4, 5}" using Cons.prems(1) by simp
  then obtain p where p: "append_export_key_type (init_derivation_path\<lparr> path_len := 4,
      nodes := [NEW_PURPOSE, coin, idp, identity] @ replicate 4 0 \<rparr>) k account = Some p"
    "used_nodes (harden_derivation_path p) = new_path_nodes coin idp identity account k"
    by (rule append_key_type_nodes)
  have ks: "key_size k = (if k = NEW_COMMITMENT_RANDOMNESS then 64 else 32)" by (simp add: key_size_def)
  have fit: "\<not> length out < tx + 1 + key_size k" using Cons.prems(2) by (simp add: room_def)
  obtain r where r: "(if k = NEW_COMMITMENT_RANDOMNESS
      then Some (rbind (get_extended_private_key E (harden_derivation_path p) 32 32) (\<lambda>(key, chainCode). Ok (key @ chainCode)))
      else get_bls_private_key E (harden_derivation_path p) 64) = Some r"
    "rwp r (\<lambda>key. new_released E coin idp identity account k key \<and> length key = key_size k)
      (\<lambda>e. e = ERROR_FAILED_CX_OPERATION \<and> (\<nexists>key. new_released E coin idp identity account k key))"
    using new_key_wp [OF E p(2)] by blast
  have step: "new_path_keys E coin idp identity account (k # ks) out tx =
      (case rbind r (\<lambda>key. rbind (slice key 0 (key_size k)) (\<lambda>key. put out tx (of_nat (key_size k) # key))) of
         Ok out \<Rightarrow> new_path_keys E coin idp identity account ks out (tx + 1 + key_size k)
       | Err e \<Rightarrow> Some (Err e) | Oob \<Rightarrow> Some Oob)"
    using r(1) fit unfolding new_path_keys.simps p(1) option.case Let_def ks [symmetric] by simp
  show ?case
  proof (cases r)
    case (Ok key)
    then have key: "new_released E coin idp identity account k key" "length key = key_size k" using r(2) by simp_all
    let ?out = "take tx out @ with_length key @ drop (tx + 1 + key_size k) out"
    have "rbind r (\<lambda>key. rbind (slice key 0 (key_size k)) (\<lambda>key. put out tx (of_nat (key_size k) # key))) = Ok ?out"
      using Ok key(2) fit by (simp add: slice_def put_def with_length_def)
    then have s: "new_path_keys E coin idp identity account (k # ks) out tx =
        new_path_keys E coin idp identity account ks ?out (tx + 1 + key_size k)" using step by simp
    have l: "length ?out = length out" using fit key(2) by (simp add: with_length_def)
    have t: "take (tx + 1 + key_size k) ?out = take tx out @ with_length key"
      using fit key(2) by (simp add: with_length_def)
    have le: "tx + 1 + key_size k + room ks \<le> length ?out"
      unfolding l using Cons.prems(2) by (simp add: room_def)
    have sub: "set ks \<subseteq> {2, 3, 4, 5}" using Cons.prems(1) by simp
    obtain r' where r': "new_path_keys E coin idp identity account ks ?out (tx + 1 + key_size k) = Some r'"
      "rwp r' (\<lambda>(out', tx'). \<exists>keys. list_all2 (new_released E coin idp identity account) ks keys \<and>
        length out' = length ?out \<and> tx' = tx + 1 + key_size k + room ks \<and>
        take tx' out' = take (tx + 1 + key_size k) ?out @ concat (map with_length keys))
      (\<lambda>e. e = ERROR_FAILED_CX_OPERATION \<and> (\<nexists>keys. list_all2 (new_released E coin idp identity account) ks keys))"
      using Cons.IH [OF sub le] by blast
    have "rwp r' (\<lambda>(out', tx'). \<exists>keys. list_all2 (new_released E coin idp identity account) (k # ks) keys \<and>
        length out' = length out \<and> tx' = tx + room (k # ks) \<and>
        take tx' out' = take tx out @ concat (map with_length keys))
      (\<lambda>e. e = ERROR_FAILED_CX_OPERATION \<and> (\<nexists>keys. list_all2 (new_released E coin idp identity account) (k # ks) keys))"
    proof (rule rwp_mono [OF r'(2)], goal_cases)
      case (1 x)
      then obtain out' tx' keys where x: "x = (out', tx')" "list_all2 (new_released E coin idp identity account) ks keys"
        "length out' = length out" "tx' = tx + 1 + key_size k + room ks"
        "take tx' out' = take tx out @ with_length key @ concat (map with_length keys)"
        unfolding l t by (cases x) auto
      then have "list_all2 (new_released E coin idp identity account) (k # ks) (key # keys)" using key(1) by simp
      then show ?case using x by (auto simp: room_def intro!: exI [of _ "key # keys"])
    qed (auto simp: list_all2_Cons1)
    then show ?thesis using s r'(1) by auto
  qed (use step r(2) in \<open>auto simp: list_all2_Cons1\<close>)
qed

text \<open>The request of a context: network, purpose and indices within their ranges.\<close>

definition valid_request :: "exportPrivateKeyContext \<Rightarrow> bool" where
  "valid_request c \<longleftrightarrow> ek_isNewPath c \<and> ek_newPathPurpose c \<in> {0, 1, 2, 3, 4} \<and> ek_newPathNetwork c \<in> {0, 1}"

definition network_coin :: "u8 \<Rightarrow> u32" where
  "network_coin p2 = (if p2 = P2_MAINNET then NEW_MAINNET_COIN_TYPE else NEW_TESTNET_COIN_TYPE)"

lemma valid_request_keys:
  assumes "valid_request c"
  obtains ks where "export_coin_type (ek_newPathNetwork c) = Some (network_coin (ek_newPathNetwork c))"
    "keysToExport (ek_newPathPurpose c) = Some ks" "set ks \<subseteq> {2, 3, 4, 5}" "room ks \<le> 195"
  using assms by (auto simp: valid_request_def export_coin_type_def network_coin_def keysToExport_def room_def key_size_def)

text \<open>
  The kinds a row of the review names, read from its text alone: names separated by commas, each standing
  for one branch of the key tree.
\<close>

fun comma_split :: "bytes \<Rightarrow> bytes list" where
  "comma_split [] = [[]]"
| "comma_split (b # bs) =
     (if b = 44 then [] # comma_split (drop 1 bs)
      else case comma_split bs of w # ws \<Rightarrow> (b # w) # ws | [] \<Rightarrow> [[b]])"

definition kind_names :: "(bytes \<times> u32) list" where
  "kind_names = [(ascii ''IdCredSec'', NEW_ID_CRED_SEC), (ascii ''PRF key'', NEW_PRF_KEY),
     (ascii ''blinding'', NEW_SIGNATURE_BLINDING_RANDOMNESS), (ascii ''commitment'', NEW_COMMITMENT_RANDOMNESS),
     (ascii ''Commitment randomness'', NEW_COMMITMENT_RANDOMNESS)]"

definition named_kinds :: "bytes \<Rightarrow> u32 list" where
  "named_kinds row = map (\<lambda>name. the (map_of kind_names name)) (comma_split row)"

lemma named_kinds_values:
  "named_kinds (ascii ''IdCredSec, PRF key, blinding'') = [2, 3, 4]"
  "named_kinds (ascii ''PRF key, IdCredSec, commitment'') = [3, 2, 5]"
  "named_kinds (ascii ''IdCredSec, blinding'') = [2, 4]"
  "named_kinds (ascii ''PRF key'') = [3]"
  "named_kinds (ascii ''Commitment randomness'') = [5]"
  by (simp_all add: named_kinds_def kind_names_def ascii_def)

text \<open>The switch over the purposes exports the kinds the review of that purpose names, in their order.\<close>

lemma exports_named_kinds:
  assumes "p1 \<in> {0, 1, 2, 3, 4}"
  shows "keysToExport p1 = Some (named_kinds (purpose_kinds p1))"
  using assms by (auto simp: keysToExport_def purpose_kinds_def named_kinds_values)

text \<open>The keys that the kinds named in a row stand for, in order, for the identity of a request.\<close>

definition request_released :: "sdk \<Rightarrow> exportPrivateKeyContext \<Rightarrow> bytes \<Rightarrow> bytes list \<Rightarrow> bool" where
  "request_released E c kinds keys \<longleftrightarrow>
     list_all2 (new_released E (network_coin (ek_newPathNetwork c)) (ek_newPathIdentityProvider c)
       (ek_newPathIdentity c) (ek_newPathAccount c)) (named_kinds kinds) keys"

text \<open>The answer to an approved export: all the keys the row names, or none when one cannot be derived.\<close>

definition export_reply :: "sdk \<Rightarrow> exportPrivateKeyContext \<Rightarrow> bytes \<Rightarrow> bytes \<times> u16 \<Rightarrow> bool" where
  "export_reply E c kinds r \<longleftrightarrow>
     (if \<exists>keys. request_released E c kinds keys
      then \<exists>keys. request_released E c kinds keys \<and> r = (concat (map with_length keys), SWO_SUCCESS)
      else r = ([], ERROR_FAILED_CX_OPERATION))"

lemma send_new_path_wp:
  assumes E: "platform E" and wf: "wf_app s" and v: "valid_request (export s)"
  shows "wp (sendPrivateKeysNewPath E s)
    (\<lambda>_ t. (\<exists>r. export_reply E (export s) (purpose_kinds (ek_newPathPurpose (export s))) r \<and>
        replies t = replies s @ [r]) \<and>
      wf_app t \<and> \<not> claimed t \<and> screen t = None \<and> ek_outputPrivateKeys (export t) = zeros 195) X"
proof -
  let ?c = "export s"
  have np: "ek_isNewPath ?c" using v by (simp add: valid_request_def)
  have wc: "wf_export ?c" using wf by (rule wf_export_app)
  then have lo: "length (ek_outputPrivateKeys ?c) = 195" by (simp add: wf_export_def)
  obtain ks where k: "export_coin_type (ek_newPathNetwork ?c) = Some (network_coin (ek_newPathNetwork ?c))"
    "keysToExport (ek_newPathPurpose ?c) = Some ks" "set ks \<subseteq> {2, 3, 4, 5}" "room ks \<le> 195"
    using valid_request_keys [OF v] by blast
  let ?kinds = "purpose_kinds (ek_newPathPurpose ?c)"
  have ks: "ks = named_kinds ?kinds"
    using k(2) v exports_named_kinds [of "ek_newPathPurpose ?c"] by (simp add: valid_request_def)
  have le: "0 + room ks \<le> length (ek_outputPrivateKeys ?c)" using k(4) lo by simp
  obtain r where r: "new_path_keys E (network_coin (ek_newPathNetwork ?c)) (ek_newPathIdentityProvider ?c)
      (ek_newPathIdentity ?c) (ek_newPathAccount ?c) ks (ek_outputPrivateKeys ?c) 0 = Some r"
    "rwp r (\<lambda>(out', tx'). \<exists>keys. list_all2 (new_released E (network_coin (ek_newPathNetwork ?c))
        (ek_newPathIdentityProvider ?c) (ek_newPathIdentity ?c) (ek_newPathAccount ?c)) ks keys \<and>
        length out' = length (ek_outputPrivateKeys ?c) \<and> tx' = 0 + room ks \<and>
        take tx' out' = take 0 (ek_outputPrivateKeys ?c) @ concat (map with_length keys))
      (\<lambda>e. e = ERROR_FAILED_CX_OPERATION \<and> (\<nexists>keys. list_all2 (new_released E (network_coin (ek_newPathNetwork ?c))
        (ek_newPathIdentityProvider ?c) (ek_newPathIdentity ?c) (ek_newPathAccount ?c)) ks keys))"
    using new_path_keys_wp [OF E k(3) le] by blast
  have ww: "wf_app (set_export f s)" if "wf_export (f ?c)" for f using that by (rule wf_app_export [OF wf])
  show ?thesis
  proof (cases r)
    case (Ok x)
    then obtain out tx keys where x: "x = (out, tx)" "request_released E ?c ?kinds keys" "length out = 195" "tx = room ks"
      "take tx out = concat (map with_length keys)"
      using r(2) lo by (cases x) (auto simp: request_released_def ks)
    have ex: "exportNewPathPrivateKeysForPurpose E (ek_newPathPurpose ?c) (ek_newPathNetwork ?c)
        (ek_newPathIdentityProvider ?c) (ek_newPathIdentity ?c) (ek_newPathAccount ?c) s =
        Ret (tx, SWO_SUCCESS) (set_export (\<lambda>c. c\<lparr> ek_outputPrivateKeys := out \<rparr>) s)"
      using r(1) Ok x(1) k(1,2) by (simp add: exportNewPathPrivateKeysForPurpose_def)
    have tx: "tx mod 256 = tx" "tx \<le> 195" using x(4) k(4) by simp_all
    have wo: "wf_app (set_export (\<lambda>c. c\<lparr> ek_outputPrivateKeys := zeros 195, ek_privateKeysLength := 0 \<rparr>) s)"
      using wc by (intro ww) (simp add: wf_export_def)
    show ?thesis
      using np ex tx x wo
      by (auto simp: sendPrivateKeysNewPath_def Let_def slice_def claimed_def set_export_def wf_app_def export_reply_def)
  next
    case (Err e)
    then have e: "e = ERROR_FAILED_CX_OPERATION" "\<nexists>keys. request_released E ?c ?kinds keys"
      using r(2) by (simp_all add: request_released_def ks)
    have ex: "exportNewPathPrivateKeysForPurpose E (ek_newPathPurpose ?c) (ek_newPathNetwork ?c)
        (ek_newPathIdentityProvider ?c) (ek_newPathIdentity ?c) (ek_newPathAccount ?c) s =
        Ret (0, ERROR_FAILED_CX_OPERATION) (set_export (\<lambda>c. c\<lparr> ek_outputPrivateKeys := zeros 195 \<rparr>) s)"
      using r(1) Err e k(1,2) by (simp add: exportNewPathPrivateKeysForPurpose_def Let_def)
    have wo: "wf_app (set_export (\<lambda>c. c\<lparr> ek_outputPrivateKeys := zeros 195, ek_privateKeysLength := 0 \<rparr>) s)"
      using wc by (intro ww) (simp add: wf_export_def)
    then show ?thesis
      using np ex e(2) by (simp add: sendPrivateKeysNewPath_def claimed_def export_reply_def)
  qed (use r(2) in simp)
qed

subsection \<open>The flow\<close>

definition new_path_asked :: "app \<Rightarrow> bool" where
  "new_path_asked s \<longleftrightarrow> (\<exists>rv. screen s = Some rv \<and> rv_callback rv = review_export_private_key_new_path \<and>
      rv_pairs rv = new_path_rows (ek_newPathPurpose (export s)) (ek_newPathNetwork (export s))
        (ek_newPathIdentityProvider (export s)) (ek_newPathIdentity (export s)) (ek_newPathAccount (export s))) \<and>
    valid_request (export s)"

definition new_path_flow :: "sdk \<Rightarrow> app \<Rightarrow> bool" where
  "new_path_flow E s \<longleftrightarrow> (awaiting s \<longrightarrow> new_path_asked s)"

lemma read_index_wp: "rwp (read_index c off) (\<lambda>_. True) status_word"
  by (auto simp: read_index_def)

lemma new_path_review_wp:
  assumes E: "platform E" and wf: "wf_app s" "\<not> awaiting s" and v: "valid_request (export u)" and wu: "wf_app u"
    and eq: "replies u = replies s" "screen u = screen s" "currentInstruction u = currentInstruction s"
  shows "wp (call (new_path_texts E (ek_newPathPurpose (export u)) (ek_newPathNetwork (export u))
      (ek_newPathIdentityProvider (export u)) (ek_newPathIdentity (export u)) (ek_newPathAccount (export u)) (export u)) u
      (\<lambda>c. uiExportPrivateKeysNewPath (set_export (\<lambda>_. c) u))) (\<lambda>_ t. kept (new_path_flow E) s t) (refused s)"
  unfolding wp_call
proof (rule rwp_mono [OF new_path_texts_wp [OF platformD(4) [OF E] wf_export_app [OF wu]]], goal_cases)
  case (2 c)
  then have c: "export_ready c" "shown_rows (export_rows c) = new_path_rows (ek_newPathPurpose (export u))
      (ek_newPathNetwork (export u)) (ek_newPathIdentityProvider (export u)) (ek_newPathIdentity (export u))
      (ek_newPathAccount (export u))" "same_request (export u) c" by simp_all
  have w: "wf_app (set_export (\<lambda>_. c) u)" using c(1) by (intro wf_app_export wu) (simp add: export_ready_def)
  show ?case
  proof (rule wp_mono [OF export_review_wp(2) [OF _ w refl, where X = "refused s"]], goal_cases)
    case (2 a t)
    then have d: "export_drawn (set_export (\<lambda>_. c) u) review_export_private_key_new_path (shown_rows (export_rows c)) t" by simp
    then have "new_path_asked t"
      using c(2,3) v by (auto simp: export_drawn_def new_path_asked_def same_request_def valid_request_def)
    moreover from this have "awaiting t" by (auto simp: new_path_asked_def awaiting_def)
    ultimately show ?case
      using d eq wf(2) by (auto simp: kept_defs export_drawn_def new_path_flow_def claimed_def)
  qed (use c in simp_all)
qed (use v wu eq in \<open>simp_all add: valid_request_def refused_def wf_app_def\<close>)

lemma new_path_handle:
  assumes E: "platform E" and wf: "wf_app s" "\<not> awaiting s"
  shows "wp (handle_export_private_key_new_path E c initial s) (\<lambda>_ t. kept (new_path_flow E) s t) (refused s)"
proof -
  have r: "rwp (read_index (cmd_data c) off) Q (\<lambda>e. refused s e s)" if "\<And>i. Q i" for off Q
    by (rule rwp_mono [OF read_index_wp]) (use that refused_self [OF wf(1)] in auto)
  have "wp (let s = set_export (\<lambda>x. x\<lparr> ek_newPathPurpose := cmd_p1 c, ek_newPathNetwork := cmd_p2 c,
              ek_newPathIdentityProvider := idp, ek_newPathIdentity := identity,
              ek_newPathAccount := account, ek_isNewPath := True,
              ek_outputPrivateKeys := zeros 195, ek_privateKeysLength := 0 \<rparr>) s in
        call (new_path_texts E (cmd_p1 c) (cmd_p2 c) idp identity account (export s)) s (\<lambda>c.
        uiExportPrivateKeysNewPath (set_export (\<lambda>_. c) s))) (\<lambda>_ t. kept (new_path_flow E) s t) (refused s)"
    if "cmd_p1 c \<in> {0, 1, 2, 3, 4}" "cmd_p2 c \<in> {0, 1}" for idp identity account
  proof -
    define u where "u = set_export (\<lambda>x. x\<lparr> ek_newPathPurpose := cmd_p1 c, ek_newPathNetwork := cmd_p2 c,
              ek_newPathIdentityProvider := idp, ek_newPathIdentity := identity,
              ek_newPathAccount := account, ek_isNewPath := True,
              ek_outputPrivateKeys := zeros 195, ek_privateKeysLength := 0 \<rparr>) s"
    have wu: "wf_app u" unfolding u_def
      using wf_export_app [OF wf(1)] by (intro wf_app_export wf(1)) (simp add: wf_export_def)
    have x: "ek_newPathPurpose (export u) = cmd_p1 c" "ek_newPathNetwork (export u) = cmd_p2 c"
      "ek_newPathIdentityProvider (export u) = idp" "ek_newPathIdentity (export u) = identity"
      "ek_newPathAccount (export u) = account" "ek_isNewPath (export u)"
      "replies u = replies s" "screen u = screen s" "currentInstruction u = currentInstruction s"
      by (simp_all add: u_def)
    have "valid_request (export u)" using that x(1,2,6) by (simp add: valid_request_def)
    from new_path_review_wp [OF E wf this wu x(7-9)] show ?thesis
      unfolding x(1-5) u_def [symmetric] Let_def .
  qed
  then show ?thesis
    using r refused_self [OF wf(1)] unfolding handle_export_private_key_new_path_def Let_def [of "cmd_p1 c"] Let_def [of "cmd_p2 c"]
      Let_def [of "cmd_data c"]
    by auto
qed

lemma new_path_choice:
  assumes E: "platform E" and wf: "wf_app s" "\<not> awaiting s" "awaiting (s\<lparr> screen := Some rv \<rparr>)"
    and st: "new_path_flow E (s\<lparr> screen := Some rv \<rparr>)"
  shows "rv_callback rv = review_export_private_key_new_path"
    "wp (choose_export_new_path E confirm s) (\<lambda>_ t. decided confirm (new_path_flow E) s t) (\<lambda>_ _. False)"
proof -
  have a: "new_path_asked (s\<lparr> screen := Some rv \<rparr>)" using wf(3) st by (auto simp: new_path_flow_def)
  then show "rv_callback rv = review_export_private_key_new_path" by (auto simp: new_path_asked_def)
  show "wp (choose_export_new_path E confirm s) (\<lambda>_ t. decided confirm (new_path_flow E) s t) (\<lambda>_ _. False)"
  proof (cases confirm)
    case True
    have v: "valid_request (export s)" using a by (simp add: new_path_asked_def)
    show ?thesis
      unfolding choose_export_new_path_def if_P [OF True]
      by (rule wp_ux_run_guarded, rule wp_mono [OF send_new_path_wp [OF E wf(1) v]])
        (use True in \<open>auto simp: decided_defs awaiting_def\<close>)
  next
    case False
    have "wf_app (set_export (\<lambda>c. c\<lparr> ek_outputPrivateKeys := zeros 195, ek_privateKeysLength := 0 \<rparr>) s)"
      using wf_export_app [OF wf(1)] by (intro wf_app_export wf(1)) (simp add: wf_export_def)
    then show ?thesis
      unfolding choose_export_new_path_def if_not_P [OF False]
      by (intro wp_ux_run_guarded) (simp add: rejectPrivateKeysNewPath_def decided_defs False awaiting_def claimed_def)
  qed
qed

end
