(* ===== verification/Baker.thy ===== *)
theory Baker
  imports Payload
begin

text \<open>
  Configuration of a validator: src/src/handler/sign_configure_baker.c.

  A bitmap announces nine optional fields, which arrive in stages.  Each stage is reviewed on a screen of
  its own; while the screen is up the context is parked in a state that no packet matches, and
  the user's approval resumes it at the stage remembered in \<open>bk_pendingState\<close>.

  The relation \<open>baker_trace\<close> is the protocol without buffers and states: which bytes follow the bitmap,
  and which screens the user has gone through for them.  The invariant of the flow says that the
  context always implements a trace.
\<close>

subsection \<open>Operations\<close>

abbreviation baker :: "app \<Rightarrow> signConfigureBaker" where
  "baker s \<equiv> signConfigureBaker (global s)"

definition awaitConfigureBakerConfirm :: "configureBakerState \<Rightarrow> app \<Rightarrow> app" where
  "awaitConfigureBakerConfirm next =
     set_baker (\<lambda>c. c\<lparr> bk_state := CONFIGURE_BAKER_AWAITING_CONFIRM, bk_pendingState := next \<rparr>)"

definition confirmConfigureBakerStage :: "app \<Rightarrow> unit act" where
  "confirmConfigureBakerStage s =
     send_success_no_idle (set_baker (\<lambda>c. c\<lparr> bk_state := bk_pendingState c \<rparr>) s)"

text \<open>\<open>confirmConfigureBakerStageCallback\<close> of src/src/ui/display_nbgl.c.\<close>

definition choose_baker_stage :: "bool \<Rightarrow> app \<Rightarrow> unit act" where
  "choose_baker_stage confirm s =
     (if \<not> confirm then rejectStagedReview s else ux_run_guarded confirmConfigureBakerStage s)"

text \<open>The stage that follows, once the URL is done, and once the first batch is.\<close>

definition after_url :: "signConfigureBaker \<Rightarrow> configureBakerState" where
  "after_url c =
     (if hasCommissionRate c then CONFIGURE_BAKER_COMMISSION_RATES
      else if bk_hasSuspended c then CONFIGURE_BAKER_SUSPENDED else CONFIGURE_BAKER_END)"

definition after_batch :: "signConfigureBaker \<Rightarrow> configureBakerState" where
  "after_batch c = (if bk_hasMetadataUrl c then CONFIGURE_BAKER_URL_LENGTH else after_url c)"

text \<open>One commission rate, when its bit is set; the data left and its length go in and out.\<close>

definition commission_rate ::
    "sdk \<Rightarrow> bool \<Rightarrow> (configureBakerCommisionRates \<Rightarrow> bytes) \<Rightarrow>
      (bytes \<Rightarrow> configureBakerCommisionRates \<Rightarrow> configureBakerCommisionRates) \<Rightarrow>
      bytes \<times> nat \<Rightarrow> app \<Rightarrow> (bytes \<times> nat) act" where
  "commission_rate E present get_text set_text cur s =
     (if \<not> present then Ret cur s
      else case cur of (cdata, dataLength) \<Rightarrow>
        if dataLength < 4 then Throw SWO_INCORRECT_DATA s
        else
          call (U4BE cdata 0) s (\<lambda>rate.
          call (fraction_to_percentage_display E (get_text (bk_commissionRates (baker s))) rate) s (\<lambda>(d, _).
          let s = set_baker (\<lambda>c. c\<lparr> bk_commissionRates := set_text d (bk_commissionRates c) \<rparr>) s in
          bind (hash_data E cdata 0 4 s) (\<lambda>_ s. Ret (drop 4 cdata, dataLength - 4) s))))"

definition handleCommissionRates :: "sdk \<Rightarrow> bytes \<Rightarrow> app \<Rightarrow> unit act" where
  "handleCommissionRates E cdata s =
     bind (commission_rate E (bk_hasTransactionFeeCommission (baker s)) bk_transactionFeeCommissionRate
       (\<lambda>d r. r\<lparr> bk_transactionFeeCommissionRate := d \<rparr>) (cdata, length cdata) s) (\<lambda>cur s.
     bind (commission_rate E (bk_hasBakingRewardCommission (baker s)) bk_bakingRewardCommissionRate
       (\<lambda>d r. r\<lparr> bk_bakingRewardCommissionRate := d \<rparr>) cur s) (\<lambda>cur s.
     bind (commission_rate E (bk_hasFinalizationRewardCommission (baker s)) bk_finalizationRewardCommissionRate
       (\<lambda>d r. r\<lparr> bk_finalizationRewardCommissionRate := d \<rparr>) cur s) (\<lambda>(cdata, dataLength) s.
     if bk_hasSuspended (baker s)
     then startConfigureBakerCommissionDisplay (awaitConfigureBakerConfirm CONFIGURE_BAKER_SUSPENDED s)
     else if dataLength \<noteq> 0 then Throw SWO_INCORRECT_DATA s
     else startConfigureBakerCommissionDisplay (awaitConfigureBakerConfirm CONFIGURE_BAKER_END s))))"

text \<open>The nine bits of the bitmap, and the stage they begin with.\<close>

definition announce :: "u16 \<Rightarrow> signConfigureBaker \<Rightarrow> signConfigureBaker" where
  "announce bitmap c = c\<lparr> bk_hasCapital := bit bitmap 0, bk_hasRestakeEarnings := bit bitmap 1,
     bk_hasOpenForDelegation := bit bitmap 2, bk_hasKeys := bit bitmap 3, bk_hasMetadataUrl := bit bitmap 4,
     bk_hasTransactionFeeCommission := bit bitmap 5, bk_hasBakingRewardCommission := bit bitmap 6,
     bk_hasFinalizationRewardCommission := bit bitmap 7, bk_hasSuspended := bit bitmap 8,
     bk_keysHashDisplay := zeros (length (bk_keysHashDisplay c)) \<rparr>"

definition first_state :: "signConfigureBaker \<Rightarrow> configureBakerState" where
  "first_state c =
     (if bk_hasCapital c \<or> bk_hasRestakeEarnings c \<or> bk_hasOpenForDelegation c \<or> bk_hasKeys c
      then CONFIGURE_BAKER_FIRST
      else if bk_hasMetadataUrl c then CONFIGURE_BAKER_URL_LENGTH
      else if hasCommissionRate c then CONFIGURE_BAKER_COMMISSION_RATES
      else if bk_hasSuspended c then CONFIGURE_BAKER_SUSPENDED else bk_state c)"

definition baker_open_packet :: "sdk \<Rightarrow> bytes \<Rightarrow> app \<Rightarrow> unit act" where
  "baker_open_packet E cdata s =
     bind (open_account_transaction E CONFIGURE_BAKER cdata s) (\<lambda>(cdata, remainingDataLength) s.
     let s = set_baker (\<lambda>c. c\<lparr> bk_firstDisplay := True \<rparr>) s in
     if remainingDataLength < 2 then Throw SWO_INCORRECT_DATA s
     else
       bind (hash_data E cdata 0 2 s) (\<lambda>_ s.
       call (U2BE cdata 0) s (\<lambda>bitmap.
       if 511 < bitmap then Throw ERROR_INVALID_TRANSACTION s
       else
         let s = set_baker (announce bitmap) s in
         bind (if bk_hasKeys (baker s)
               then call (new_hash E) s (\<lambda>h. Ret () (set_baker (\<lambda>c. c\<lparr> bk_keysHashCtx := h \<rparr>) s))
               else Ret () s) (\<lambda>_ s.
         send_success_no_idle (set_baker (\<lambda>c. c\<lparr> bk_state := first_state c \<rparr>) s)))))"

text \<open>The optional fields of the first batch.  \<open>lengthCheck\<close> is an \<open>int\<close> that never falls below zero:
  each field is checked before its bytes are counted off.\<close>

definition baker_capital :: "sdk \<Rightarrow> bytes \<times> nat \<Rightarrow> app \<Rightarrow> (bytes \<times> nat) act" where
  "baker_capital E cur s =
     (if \<not> bk_hasCapital (baker s) then Ret cur s
      else case cur of (cdata, lengthCheck) \<Rightarrow>
        if lengthCheck < 8 then Throw SWO_INCORRECT_DATA s
        else
          call (U8BE cdata 0) s (\<lambda>capitalAmount.
          let k = bk_capitalRestakeDelegation (baker s) in
          call (if capitalAmount = 0 then Ok (k\<lparr> bk_stopBaking := True \<rparr>)
                else rbind (amount_to_ccd_display E (bk_displayCapital k) capitalAmount)
                       (\<lambda>(d, _). Ok (k\<lparr> bk_stopBaking := False, bk_displayCapital := d \<rparr>))) s (\<lambda>k.
          let s = set_baker (\<lambda>c. c\<lparr> bk_capitalRestakeDelegation := k \<rparr>) s in
          bind (hash_data E cdata 0 8 s) (\<lambda>_ s. Ret (drop 8 cdata, lengthCheck - 8) s))))"

definition baker_restake :: "sdk \<Rightarrow> bytes \<times> nat \<Rightarrow> app \<Rightarrow> (bytes \<times> nat) act" where
  "baker_restake E cur s =
     (if \<not> bk_hasRestakeEarnings (baker s) then Ret cur s
      else case cur of (cdata, lengthCheck) \<Rightarrow>
        if lengthCheck < 1 then Throw SWO_INCORRECT_DATA s
        else
          call (byte_at cdata 0) s (\<lambda>restake.
          bind (hash_data E cdata 0 1 s) (\<lambda>_ s.
          let k = bk_capitalRestakeDelegation (baker s); d = bk_displayRestake k in
          call (if restake = 0 then put d 0 (lit ''No'')
                else if restake = 1 then put d 0 (lit ''Yes'')
                else Err ERROR_INVALID_TRANSACTION) s (\<lambda>d.
          Ret (drop 1 cdata, lengthCheck - 1)
            (set_baker (\<lambda>c. c\<lparr> bk_capitalRestakeDelegation := k\<lparr> bk_displayRestake := d \<rparr> \<rparr>) s)))))"

definition baker_pool_status :: "sdk \<Rightarrow> bytes \<times> nat \<Rightarrow> app \<Rightarrow> (bytes \<times> nat) act" where
  "baker_pool_status E cur s =
     (if \<not> bk_hasOpenForDelegation (baker s) then Ret cur s
      else case cur of (cdata, lengthCheck) \<Rightarrow>
        if lengthCheck < 1 then Throw SWO_INCORRECT_DATA s
        else
          call (byte_at cdata 0) s (\<lambda>openForDelegation.
          bind (hash_data E cdata 0 1 s) (\<lambda>_ s.
          let k = bk_capitalRestakeDelegation (baker s); d = bk_displayOpenForDelegation k in
          call (if openForDelegation = 0 then put d 0 (lit ''Open for all'')
                else if openForDelegation = 1 then put d 0 (lit ''Closed for new'')
                else if openForDelegation = 2 then put d 0 (lit ''Closed for all'')
                else Err ERROR_INVALID_TRANSACTION) s (\<lambda>d.
          Ret (drop 1 cdata, lengthCheck - 1)
            (set_baker (\<lambda>c. c\<lparr> bk_capitalRestakeDelegation := k\<lparr> bk_displayOpenForDelegation := d \<rparr> \<rparr>) s)))))"

text \<open>A key goes into the transaction hash and into the digest that will be shown; a proof only into
  the former.\<close>

definition baker_key :: "sdk \<Rightarrow> bytes \<Rightarrow> nat \<Rightarrow> nat \<Rightarrow> app \<Rightarrow> unit act" where
  "baker_key E cdata off n s =
     bind (hash_data E cdata off n s) (\<lambda>_ s.
     call (slice cdata off n) s (\<lambda>key.
     call (update_ctx E (bk_keysHashCtx (baker s)) key) s (\<lambda>h.
     Ret () (set_baker (\<lambda>c. c\<lparr> bk_keysHashCtx := h \<rparr>) s))))"

definition baker_batch_packet :: "sdk \<Rightarrow> bytes \<Rightarrow> app \<Rightarrow> unit act" where
  "baker_batch_packet E cdata s =
     bind (baker_capital E (cdata, length cdata) s) (\<lambda>cur s.
     bind (baker_restake E cur s) (\<lambda>cur s.
     bind (baker_pool_status E cur s) (\<lambda>(cdata, lengthCheck) s.
     if bk_hasKeys (baker s) then
       if lengthCheck \<noteq> 192 then Throw SWO_INCORRECT_DATA s
       else
         bind (baker_key E cdata 0 32 s) (\<lambda>_ s.
         bind (hash_data E cdata 32 64 s) (\<lambda>_ s.
         bind (baker_key E cdata 96 32 s) (\<lambda>_ s.
         bind (hash_data E cdata 128 64 s) (\<lambda>_ s.
         send_success_no_idle (set_baker (\<lambda>c. c\<lparr> bk_state := CONFIGURE_BAKER_AGGREGATION_KEY \<rparr>) s)))))
     else if lengthCheck \<noteq> 0 then Throw SWO_INCORRECT_DATA s
     else
       bind (startConfigureBakerDisplay (awaitConfigureBakerConfirm (after_batch (baker s)) s)) (\<lambda>_ s.
       request_async_reply s))))"

definition baker_aggregation_packet :: "sdk \<Rightarrow> bytes \<Rightarrow> app \<Rightarrow> unit act" where
  "baker_aggregation_packet E cdata s =
     (if \<not> bk_hasKeys (baker s) \<or> length cdata \<noteq> 160 then Throw SWO_INCORRECT_DATA s
      else
        bind (baker_key E cdata 0 96 s) (\<lambda>_ s.
        bind (hash_data E cdata 96 64 s) (\<lambda>_ s.
        call (final_ctx E (bk_keysHashCtx (baker s))) s (\<lambda>keysHash.
        let s = set_baker (\<lambda>c. c\<lparr> bk_keysHashCtx := None \<rparr>) s in
        call (hex_into E ERROR_BUFFER_OVERFLOW keysHash (bk_keysHashDisplay (baker s))) s (\<lambda>d.
        let s = set_baker (\<lambda>c. c\<lparr> bk_keysHashDisplay := d \<rparr>) s in
        bind (startConfigureBakerDisplay (awaitConfigureBakerConfirm (after_batch (baker s)) s)) (\<lambda>_ s.
        request_async_reply s))))))"

definition set_url :: "(configureBakerUrl \<Rightarrow> configureBakerUrl) \<Rightarrow> app \<Rightarrow> app" where
  "set_url f = set_baker (\<lambda>c. c\<lparr> bk_url := f (bk_url c) \<rparr>)"

definition baker_url_length_packet :: "sdk \<Rightarrow> bytes \<Rightarrow> app \<Rightarrow> unit act" where
  "baker_url_length_packet E cdata s =
     (if \<not> bk_hasMetadataUrl (baker s) then Throw ERROR_INVALID_TRANSACTION s
      else if length cdata < 2 then Throw SWO_INCORRECT_DATA s
      else
        call (U2BE cdata 0) s (\<lambda>n.
        let s = set_url (\<lambda>u. u\<lparr> bk_urlLength := unat n \<rparr>) s in
        if 2048 < bk_urlLength (bk_url (baker s)) then Throw ERROR_INVALID_TRANSACTION s
        else
          bind (hash_data E cdata 0 2 s) (\<lambda>_ s.
          if bk_urlLength (bk_url (baker s)) = 0 then
            bind (startConfigureBakerUrlDisplay True (awaitConfigureBakerConfirm (after_url (baker s)) s)) (\<lambda>_ s.
            request_async_reply s)
          else send_success_no_idle (set_baker (\<lambda>c. c\<lparr> bk_state := CONFIGURE_BAKER_URL \<rparr>) s))))"

text \<open>The buffer of 256 bytes is cleared before each chunk, so the chunk and the byte 0 that the code writes after it
  are all it holds.\<close>

definition keep_url_chunk :: "bytes \<Rightarrow> app \<Rightarrow> bytes result" where
  "keep_url_chunk cdata s =
     rbind (put (zeros (length (bk_urlDisplay (bk_url (baker s))))) 0 cdata) (\<lambda>d.
     put d (length cdata) [0])"

definition baker_url_packet :: "sdk \<Rightarrow> bytes \<Rightarrow> app \<Rightarrow> unit act" where
  "baker_url_packet E cdata s =
     (let dataLength = length cdata; urlLength = bk_urlLength (bk_url (baker s)) in
      if dataLength < urlLength then
        if \<not> is_displayable_text cdata then send_rejection ERROR_INVALID_TRANSACTION s
        else
          bind (update_hash E cdata s) (\<lambda>_ s.
          let s = set_url (\<lambda>u. u\<lparr> bk_urlLength := bk_urlLength u - dataLength \<rparr>) s in
          call (keep_url_chunk cdata s) s (\<lambda>d.
          let s = set_url (\<lambda>u. u\<lparr> bk_urlDisplay := d \<rparr>) s in
          bind (startConfigureBakerUrlDisplay False (awaitConfigureBakerConfirm CONFIGURE_BAKER_URL s)) (\<lambda>_ s.
          request_async_reply s)))
      else if urlLength = dataLength then
        if \<not> is_displayable_text cdata then send_rejection ERROR_INVALID_TRANSACTION s
        else
          call (keep_url_chunk cdata s) s (\<lambda>d.
          let s = set_url (\<lambda>u. u\<lparr> bk_urlDisplay := d \<rparr>) s in
          bind (update_hash E cdata s) (\<lambda>_ s.
          bind (startConfigureBakerUrlDisplay True (awaitConfigureBakerConfirm (after_url (baker s)) s)) (\<lambda>_ s.
          request_async_reply s)))
      else Throw SWO_INCORRECT_DATA s)"

definition baker_suspended_packet :: "sdk \<Rightarrow> bytes \<Rightarrow> app \<Rightarrow> unit act" where
  "baker_suspended_packet E cdata s =
     (if length cdata < 1 then Throw SWO_INCORRECT_DATA s
      else
        call (byte_at cdata 0) s (\<lambda>suspended.
        bind (hash_data E cdata 0 1 s) (\<lambda>_ s.
        if length cdata - 1 \<noteq> 0 then Throw SWO_INCORRECT_DATA s
        else
          let d = bk_suspended (baker s) in
          call (if suspended = 0 then put d 0 (lit ''Resume validator'')
                else if suspended = 1 then put d 0 (lit ''Suspend validator'')
                else Err ERROR_INVALID_TRANSACTION) s (\<lambda>d.
          let s = set_baker (\<lambda>c. c\<lparr> bk_suspended := d \<rparr>) s in
          bind (startConfigureBakerSuspendedDisplay (awaitConfigureBakerConfirm CONFIGURE_BAKER_END s)) (\<lambda>_ s.
          request_async_reply s)))))"

definition handle_sign_configure_baker :: "sdk \<Rightarrow> command \<Rightarrow> bool \<Rightarrow> app \<Rightarrow> unit act" where
  "handle_sign_configure_baker E cmd isInitialCall s =
     (let cdata = cmd_data cmd; p1 = cmd_p1 cmd;
          s = (if isInitialCall then set_baker (\<lambda>c. c\<lparr> bk_state := CONFIGURE_BAKER_INITIAL \<rparr>) s else s);
          state = bk_state (baker s) in
      if p1 = 0 \<and> state = CONFIGURE_BAKER_INITIAL then baker_open_packet E cdata s
      else if p1 = 1 \<and> state = CONFIGURE_BAKER_FIRST then baker_batch_packet E cdata s
      else if p1 = 2 \<and> state = CONFIGURE_BAKER_AGGREGATION_KEY then baker_aggregation_packet E cdata s
      else if p1 = 3 \<and> state = CONFIGURE_BAKER_URL_LENGTH then baker_url_length_packet E cdata s
      else if p1 = 4 \<and> state = CONFIGURE_BAKER_URL then baker_url_packet E cdata s
      else if p1 = 5 \<and> state = CONFIGURE_BAKER_COMMISSION_RATES then
        bind (handleCommissionRates E cdata s) (\<lambda>_ s. request_async_reply s)
      else if p1 = 6 \<and> state = CONFIGURE_BAKER_SUSPENDED then baker_suspended_packet E cdata s
      else Throw ERROR_INVALID_STATE s)"

subsection \<open>The protocol\<close>

text \<open>The stage that is expected next.  An announced URL counts down; between the two packets of the
  keys, the fields of the first wait for their screen.\<close>

datatype baker_stage = Batch | Aggregation bytes bytes bytes bytes | UrlLength | Url nat | Rates | Suspended | Done

fun stage_state :: "baker_stage \<Rightarrow> configureBakerState" where
  "stage_state Batch = CONFIGURE_BAKER_FIRST"
| "stage_state (Aggregation cap res pool keys) = CONFIGURE_BAKER_AGGREGATION_KEY"
| "stage_state UrlLength = CONFIGURE_BAKER_URL_LENGTH"
| "stage_state (Url n) = CONFIGURE_BAKER_URL"
| "stage_state Rates = CONFIGURE_BAKER_COMMISSION_RATES"
| "stage_state Suspended = CONFIGURE_BAKER_SUSPENDED"
| "stage_state Done = CONFIGURE_BAKER_END"

definition rates_then :: "u16 \<Rightarrow> baker_stage" where
  "rates_then w = (if bit w 8 then Suspended else Done)"

definition url_then :: "u16 \<Rightarrow> baker_stage" where
  "url_then w = (if bit w 5 \<or> bit w 6 \<or> bit w 7 then Rates else rates_then w)"

definition batch_then :: "u16 \<Rightarrow> baker_stage" where
  "batch_then w = (if bit w 4 then UrlLength else url_then w)"

definition first_stage :: "u16 \<Rightarrow> baker_stage" where
  "first_stage w = (if bit w 0 \<or> bit w 1 \<or> bit w 2 \<or> bit w 3 then Batch else batch_then w)"

text \<open>A field is as long as its bit says; an absent one is empty.\<close>

definition batch_fields :: "u16 \<Rightarrow> bytes \<Rightarrow> bytes \<Rightarrow> bytes \<Rightarrow> bool" where
  "batch_fields w cap res pool \<longleftrightarrow> (if bit w 0 then length cap = 8 else cap = []) \<and>
     (if bit w 1 then res \<in> {[0], [1]} else res = []) \<and> (if bit w 2 then pool \<in> {[0], [1], [2]} else pool = [])"

definition rate_field :: "bool \<Rightarrow> bytes \<Rightarrow> bool" where
  "rate_field present r \<longleftrightarrow> (if present then length r = 4 \<and> be_nat r \<le> 100000 else r = [])"

definition stake_row :: "bytes \<Rightarrow> bytes \<times> bytes" where
  "stake_row cap = (if be_nat cap = 0 then (ascii ''Stop'', ascii ''Baking'')
     else (ascii ''Amount to stake'', ccd_text (be_nat cap)))"

definition yes_no :: "bytes \<Rightarrow> bytes" where
  "yes_no res = (if res = [0] then ascii ''No'' else ascii ''Yes'')"

definition pool_text :: "bytes \<Rightarrow> bytes" where
  "pool_text pool = (if pool = [0] then ascii ''Open for all''
     else if pool = [1] then ascii ''Closed for new'' else ascii ''Closed for all'')"

text \<open>The digest of the keys is drawn in upper case, the case of \<open>format_hex\<close>; doc/ins_configure_baker.md
  announces lower case.\<close>

definition batch_rows :: "bytes \<Rightarrow> bytes \<Rightarrow> bytes \<Rightarrow> bytes \<Rightarrow> (bytes \<times> bytes) list" where
  "batch_rows cap res pool digest =
     (if cap = [] then [] else [stake_row cap]) @
     (if res = [] then [] else [(ascii ''Restake earnings'', yes_no res)]) @
     (if pool = [] then [] else [(ascii ''Pool status'', pool_text pool)]) @
     (if digest = [] then []
      else [(ascii ''Update baker'', ascii ''keys''), (ascii ''Baker keys hash'', upper_hex digest)])"

definition rate_row :: "string \<Rightarrow> bytes \<Rightarrow> (bytes \<times> bytes) list" where
  "rate_row item r = (if r = [] then [] else [(ascii item, fpu_text (be_nat r) 3 @ [37])])"

definition rate_rows :: "bytes \<Rightarrow> bytes \<Rightarrow> bytes \<Rightarrow> (bytes \<times> bytes) list" where
  "rate_rows tf br fr = (ascii ''Commission'', ascii ''rates'') #
     rate_row ''Transaction fee'' tf @ rate_row ''Baking reward'' br @ rate_row ''Finalization reward'' fr"

definition status_text :: "bytes \<Rightarrow> bytes" where
  "status_text x = (if x = [0] then ascii ''Resume validator'' else ascii ''Suspend validator'')"

text \<open>The keys of the first batch without their proofs: what the digest on screen covers, together with the 96
  bytes of the aggregation key.\<close>

definition batch_keys :: "bytes \<Rightarrow> bytes" where
  "batch_keys keys = take 32 keys @ take 32 (drop 96 keys)"

text \<open>After a bitmap w, the bytes body were absorbed, the user has seen the screens, and the
  stage is next.\<close>

inductive baker_trace :: "sdk \<Rightarrow> u16 \<Rightarrow> baker_stage \<Rightarrow> bytes \<Rightarrow> log \<Rightarrow> bool" for E w where
  bitmap: "first_stage w \<noteq> Done \<Longrightarrow> baker_trace E w (first_stage w) [] []"
| batch: "baker_trace E w Batch body screens \<Longrightarrow> batch_fields w cap res pool \<Longrightarrow> \<not> bit w 3 \<Longrightarrow>
    baker_trace E w (batch_then w) (body @ cap @ res @ pool) (screens @ [batch_rows cap res pool []])"
| keys: "baker_trace E w Batch body screens \<Longrightarrow> batch_fields w cap res pool \<Longrightarrow> bit w 3 \<Longrightarrow> length keys = 192 \<Longrightarrow>
    baker_trace E w (Aggregation cap res pool keys) (body @ cap @ res @ pool @ keys) screens"
| aggregation: "baker_trace E w (Aggregation cap res pool keys) body screens \<Longrightarrow> length agg = 160 \<Longrightarrow>
    sdk_hash_final E (batch_keys keys @ take 96 agg) = Some digest \<Longrightarrow>
    baker_trace E w (batch_then w) (body @ agg) (screens @ [batch_rows cap res pool digest])"
| no_url: "baker_trace E w UrlLength body screens \<Longrightarrow> len = [0, 0] \<Longrightarrow>
    baker_trace E w (url_then w) (body @ len) (screens @ [[(ascii ''Empty URL'', [])]])"
| url_length: "baker_trace E w UrlLength body screens \<Longrightarrow> length len = 2 \<Longrightarrow> 0 < be_nat len \<Longrightarrow> be_nat len \<le> 2048 \<Longrightarrow>
    baker_trace E w (Url (be_nat len)) (body @ len) screens"
| url_chunk: "baker_trace E w (Url n) body screens \<Longrightarrow> length chunk < n \<Longrightarrow> is_displayable_text chunk \<Longrightarrow>
    baker_trace E w (Url (n - length chunk)) (body @ chunk) (screens @ [[(ascii ''URL'', chunk)]])"
| url_end: "baker_trace E w (Url n) body screens \<Longrightarrow> length chunk = n \<Longrightarrow> is_displayable_text chunk \<Longrightarrow>
    baker_trace E w (url_then w) (body @ chunk) (screens @ [[(ascii ''URL'', chunk)]])"
| rates: "baker_trace E w Rates body screens \<Longrightarrow>
    rate_field (bit w 5) tf \<Longrightarrow> rate_field (bit w 6) br \<Longrightarrow> rate_field (bit w 7) fr \<Longrightarrow>
    baker_trace E w (rates_then w) (body @ tf @ br @ fr) (screens @ [rate_rows tf br fr])"
| suspended: "baker_trace E w Suspended body screens \<Longrightarrow> x \<in> {[0], [1]} \<Longrightarrow>
    baker_trace E w Done (body @ x) (screens @ [[(ascii ''Validator status'', status_text x)]])"

text \<open>The header rows are on the first screen.\<close>

definition led_by :: "(bytes \<times> bytes) list \<Rightarrow> log \<Rightarrow> log" where
  "led_by lead screens = (case screens of [] \<Rightarrow> [] | rows # rest \<Rightarrow> (lead @ rows) # rest)"

lemma led_by_snoc: "led_by lead (screens @ [rows]) = led_by lead screens @ [if screens = [] then lead @ rows else rows]"
  by (cases screens) (simp_all add: led_by_def)

subsection \<open>The invariant\<close>

text \<open>What the context holds for the stage that comes next.\<close>

definition batch_shown :: "signConfigureBaker \<Rightarrow> bytes \<Rightarrow> bytes \<Rightarrow> bytes \<Rightarrow> bool" where
  "batch_shown c cap res pool \<longleftrightarrow> (let k = bk_capitalRestakeDelegation c in
     (bk_hasCapital c \<longrightarrow> stake_row cap = (if bk_stopBaking k then (ascii ''Stop'', ascii ''Baking'')
        else (ascii ''Amount to stake'', cstr (bk_displayCapital k)))) \<and>
     (bk_hasRestakeEarnings c \<longrightarrow> cstr (bk_displayRestake k) = yes_no res) \<and>
     (bk_hasOpenForDelegation c \<longrightarrow> cstr (bk_displayOpenForDelegation k) = pool_text pool))"

fun stage_kept :: "signConfigureBaker \<Rightarrow> baker_stage \<Rightarrow> bool" where
  "stage_kept c Batch = (bk_hasKeys c \<longrightarrow> bk_keysHashCtx c = Some [])"
| "stage_kept c (Aggregation cap res pool keys) =
     (bk_hasKeys c \<and> bk_keysHashCtx c = Some (batch_keys keys) \<and> batch_shown c cap res pool)"
| "stage_kept c (Url n) = (bk_urlLength (bk_url c) = n)"
| "stage_kept c _ = True"

definition baker_flags :: "u16 \<Rightarrow> signConfigureBaker \<Rightarrow> bool" where
  "baker_flags w c \<longleftrightarrow> bk_hasCapital c = bit w 0 \<and> bk_hasRestakeEarnings c = bit w 1 \<and>
     bk_hasOpenForDelegation c = bit w 2 \<and> bk_hasKeys c = bit w 3 \<and> bk_hasMetadataUrl c = bit w 4 \<and>
     bk_hasTransactionFeeCommission c = bit w 5 \<and> bk_hasBakingRewardCommission c = bit w 6 \<and>
     bk_hasFinalizationRewardCommission c = bit w 7 \<and> bk_hasSuspended c = bit w 8"

abbreviation bitmap_of :: "bytes \<Rightarrow> u16" where
  "bitmap_of bm \<equiv> of_nat (be_nat bm)"

text \<open>The context c implements a trace up to the stage st.\<close>

definition baker_at :: "sdk \<Rightarrow> app \<Rightarrow> bytes \<Rightarrow> bytes \<Rightarrow> bytes \<Rightarrow> log \<Rightarrow> baker_stage \<Rightarrow> signConfigureBaker \<Rightarrow> bool" where
  "baker_at E s hdr bm body screens st c \<longleftrightarrow> header_shown E hdr s \<and> length bm = 2 \<and>
     baker_flags (bitmap_of bm) c \<and> baker_trace E (bitmap_of bm) st body screens \<and> stage_kept c st"

definition baker_message :: "bytes \<Rightarrow> bytes \<Rightarrow> bytes \<Rightarrow> bytes" where
  "baker_message hdr bm body = hdr @ [CONFIGURE_BAKER] @ bm @ body"

definition baker_lead :: "sdk \<Rightarrow> app \<Rightarrow> bytes \<Rightarrow> (bytes \<times> bytes) list" where
  "baker_lead E s hdr = header_pairs E ''Sender'' hdr (global_derivation_path s)"

definition baker_ready :: "sdk \<Rightarrow> log \<Rightarrow> app \<Rightarrow> bool" where
  "baker_ready E log s \<longleftrightarrow> (\<exists>hdr bm body screens st. baker_at E s hdr bm body screens st (baker s) \<and>
     tx_hash s = Some (baker_message hdr bm body) \<and> log = led_by (baker_lead E s hdr) screens \<and>
     bk_firstDisplay (baker s) = (screens = []) \<and> bk_state (baker s) = stage_state st \<and> st \<noteq> Done)"

definition baker_parked :: "sdk \<Rightarrow> log \<Rightarrow> app \<Rightarrow> bool" where
  "baker_parked E log s \<longleftrightarrow> (\<exists>hdr bm body screens st rv. baker_at E s hdr bm body screens st (baker s) \<and>
     tx_hash s = Some (baker_message hdr bm body) \<and> log @ [rv_pairs rv] = led_by (baker_lead E s hdr) screens \<and>
     \<not> bk_firstDisplay (baker s) \<and> bk_state (baker s) = CONFIGURE_BAKER_AWAITING_CONFIRM \<and>
     bk_pendingState (baker s) = stage_state st \<and> screen s = Some rv \<and>
     rv_callback rv = (if st = Done then review_choice_sign else confirmConfigureBakerStageCallback))"

definition baker_flow :: "sdk \<Rightarrow> log \<Rightarrow> app \<Rightarrow> bool" where
  "baker_flow E log s \<longleftrightarrow>
     (if awaiting s then baker_parked E log s
      else bk_state (baker s) \<in> {CONFIGURE_BAKER_ZERO, CONFIGURE_BAKER_INITIAL} \<and> log = [] \<or> baker_ready E log s)"

subsection \<open>Frames\<close>

text \<open>Between two packets and within one, only the hash and the context move.\<close>

definition at_baker :: "app \<Rightarrow> bytes \<Rightarrow> signConfigureBaker \<Rightarrow> app" where
  "at_baker s m c = s\<lparr> tx_hash := Some m, global := (global s)\<lparr> signConfigureBaker := c \<rparr> \<rparr>"

lemma at_baker_self: "tx_hash s = Some m \<Longrightarrow> at_baker s m (baker s) = s"
  by (cases s) (simp add: at_baker_def)

lemma at_baker_simps [simp]:
  "baker (at_baker s m c) = c" "tx_hash (at_baker s m c) = Some m" "replies (at_baker s m c) = replies s"
  "screen (at_baker s m c) = screen s" "currentInstruction (at_baker s m c) = currentInstruction s"
  "global_derivation_path (at_baker s m c) = global_derivation_path s"
  "global_account_sender (at_baker s m c) = global_account_sender s"
  "header_shown E hdr (at_baker s m c) = header_shown E hdr s" "awaiting (at_baker s m c) = awaiting s"
  "set_baker f (at_baker s m c) = at_baker s m (f c)" "(at_baker s m c)\<lparr> tx_hash := Some m' \<rparr> = at_baker s m' c"
  "baker_lead E (at_baker s m c) hdr = baker_lead E s hdr"
  "baker_at E (at_baker s m c) = baker_at E s"
  by (simp_all add: at_baker_def set_baker_def awaiting_def baker_lead_def baker_at_def fun_eq_iff)

lemma wf_at_baker [simp]: "wf_app s \<Longrightarrow> wf_baker c \<Longrightarrow> wf_app (at_baker s m c)"
  by (simp add: at_baker_def wf_app_def wf_context_def)

lemma refused_at_baker [simp]: "wf_app s \<Longrightarrow> status_word e \<Longrightarrow> refused s e (at_baker s m c)"
  by (simp add: at_baker_def refused_def wf_app_def)

lemma wf_baker_app: "wf_app s \<Longrightarrow> wf_baker (baker s)"
  by (simp add: wf_app_def wf_context_def)

lemma wp_hash_baker [simp]:
  "wp (hash_data E cdata off n (at_baker s m c)) Q X \<longleftrightarrow> off + n \<le> length cdata \<and>
    (if sdk_hash_update E m (take n (drop off cdata)) then Q () (at_baker s (m @ take n (drop off cdata)) c)
     else X ERROR_FAILED_CX_OPERATION (at_baker s m c))"
  by (simp add: hash_data_def)

lemma baker_updates [simp]:
  "wf_baker (c\<lparr> bk_state := st \<rparr>) = wf_baker c" "wf_baker (c\<lparr> bk_pendingState := st \<rparr>) = wf_baker c"
  "wf_baker (c\<lparr> bk_firstDisplay := b \<rparr>) = wf_baker c" "wf_baker (c\<lparr> bk_keysHashCtx := h \<rparr>) = wf_baker c"
  "baker_flags w (c\<lparr> bk_state := st \<rparr>) = baker_flags w c" "baker_flags w (c\<lparr> bk_pendingState := st \<rparr>) = baker_flags w c"
  "baker_flags w (c\<lparr> bk_firstDisplay := b \<rparr>) = baker_flags w c" "baker_flags w (c\<lparr> bk_keysHashCtx := h \<rparr>) = baker_flags w c"
  "baker_flags w (c\<lparr> bk_capitalRestakeDelegation := k \<rparr>) = baker_flags w c"
  "baker_flags w (c\<lparr> bk_url := u \<rparr>) = baker_flags w c" "baker_flags w (c\<lparr> bk_commissionRates := r \<rparr>) = baker_flags w c"
  "baker_flags w (c\<lparr> bk_suspended := d \<rparr>) = baker_flags w c" "baker_flags w (c\<lparr> bk_keysHashDisplay := d \<rparr>) = baker_flags w c"
  by (simp_all add: wf_baker_def baker_flags_def)

lemma stage_kept_updates [simp]:
  "stage_kept (c\<lparr> bk_state := s \<rparr>) st = stage_kept c st" "stage_kept (c\<lparr> bk_pendingState := s \<rparr>) st = stage_kept c st"
  "stage_kept (c\<lparr> bk_firstDisplay := b \<rparr>) st = stage_kept c st"
  by (cases st; simp add: batch_shown_def)+

lemma baker_at_updates [simp]:
  "baker_at E s hdr bm body screens st (c\<lparr> bk_state := x \<rparr>) = baker_at E s hdr bm body screens st c"
  "baker_at E s hdr bm body screens st (c\<lparr> bk_pendingState := x \<rparr>) = baker_at E s hdr bm body screens st c"
  "baker_at E s hdr bm body screens st (c\<lparr> bk_firstDisplay := b \<rparr>) = baker_at E s hdr bm body screens st c"
  by (simp_all add: baker_at_def)

lemma baker_at_frame [simp]:
  "baker_at E (s\<lparr> replies := r \<rparr>) = baker_at E s" "baker_at E (s\<lparr> screen := sc \<rparr>) = baker_at E s"
  "baker_at E (s\<lparr> status_page := b \<rparr>) = baker_at E s" "baker_at E (s\<lparr> async_reply := a \<rparr>) = baker_at E s"
  "baker_lead E (s\<lparr> replies := r \<rparr>) = baker_lead E s" "baker_lead E (s\<lparr> screen := sc \<rparr>) = baker_lead E s"
  "baker_lead E (s\<lparr> status_page := b \<rparr>) = baker_lead E s" "baker_lead E (s\<lparr> async_reply := a \<rparr>) = baker_lead E s"
  by (simp_all add: baker_at_def baker_lead_def fun_eq_iff)

lemma baker_items [simp]:
  "0 \<notin> set (ascii ''Stop'')" "0 \<notin> set (ascii ''Baking'')" "0 \<notin> set (ascii ''Amount to stake'')"
  "0 \<notin> set (ascii ''Restake earnings'')" "0 \<notin> set (ascii ''Pool status'')" "0 \<notin> set (ascii ''Update baker'')"
  "0 \<notin> set (ascii ''keys'')" "0 \<notin> set (ascii ''Baker keys hash'')" "0 \<notin> set (ascii ''Empty URL'')"
  "0 \<notin> set (ascii ''URL'')" "0 \<notin> set (ascii ''Commission'')" "0 \<notin> set (ascii ''rates'')"
  "0 \<notin> set (ascii ''Transaction fee'')" "0 \<notin> set (ascii ''Baking reward'')"
  "0 \<notin> set (ascii ''Finalization reward'')" "0 \<notin> set (ascii ''Validator status'')"
  "0 \<notin> set (ascii ''No'')" "0 \<notin> set (ascii ''Yes'')" "0 \<notin> set (ascii ''Open for all'')"
  "0 \<notin> set (ascii ''Closed for new'')" "0 \<notin> set (ascii ''Closed for all'')"
  "0 \<notin> set (ascii ''Resume validator'')" "0 \<notin> set (ascii ''Suspend validator'')" "ascii [] = []"
  by (simp_all add: ascii_def)

lemma baker_stages:
  assumes "baker_flags w c"
  shows "after_url c = stage_state (url_then w)" "after_batch c = stage_state (batch_then w)"
    "(hasCommissionRate c \<or> bk_hasSuspended c) = (url_then w \<noteq> Done)"
    "(bk_hasMetadataUrl c \<or> hasCommissionRate c \<or> bk_hasSuspended c) = (batch_then w \<noteq> Done)"
    "stage_kept c (url_then w)" "stage_kept c (batch_then w)" "stage_kept c (rates_then w)"
  using assms by (simp_all add: baker_flags_def after_url_def after_batch_def hasCommissionRate_def batch_then_def url_then_def
      rates_then_def)

subsection \<open>Screens\<close>

text \<open>A stage ends by parking the context and drawing; the review is what the trace says.\<close>

lemma draw_stage:
  assumes a: "baker_at E s hdr bm body (screens @ [rows]) st c" and wf: "wf_app s" "wf_baker c"
    and c: "bk_state c = CONFIGURE_BAKER_AWAITING_CONFIRM" "bk_pendingState c = stage_state st"
      "bk_firstDisplay c = (screens = [])"
    and log: "log = led_by (baker_lead E s hdr) screens"
    and d: "drawable bufs" "shown_rows bufs = rows" "length bufs \<le> 7" "further = (st \<noteq> Done)"
    and u: "u = at_baker s (baker_message hdr bm body) c"
  shows "wp (baker_review further (baker_header u @ bufs) (set_baker (\<lambda>c. c\<lparr> bk_firstDisplay := False \<rparr>) u))
    (\<lambda>_ t. kept (baker_flow E log) s (t\<lparr> async_reply := True \<rparr>)) X"
proof -
  let ?rows = "if screens = [] then baker_lead E s hdr @ rows else rows"
  have hs: "header_shown E hdr s" using a by (simp add: baker_at_def)
  have sender: "wf_sender (global_account_sender s)" using wf(1) by (simp add: wf_app_def)
  have dr: "drawable (baker_header u @ bufs)" "length (baker_header u @ bufs) \<le> 10"
    using d(1,3) sender by (simp_all add: baker_header_def u)
  have sh: "shown_rows (baker_header u @ bufs) = ?rows"
    using c(3) d(2) header_shown_pairs [OF hs, of "''Sender''"]
    by (simp add: baker_header_def u baker_lead_def) (simp add: addAccountHeaderPairs_def)
  have k: "kept (baker_flow E log) s ((at_baker s (baker_message hdr bm body) (c\<lparr> bk_firstDisplay := False \<rparr>))
      \<lparr> screen := Some rv, status_page := False, async_reply := True \<rparr>)"
    if "rv_pairs rv = ?rows" "rv_callback rv = (if st = Done then review_choice_sign else confirmConfigureBakerStageCallback)"
    for rv
  proof -
    let ?t = "(at_baker s (baker_message hdr bm body) (c\<lparr> bk_firstDisplay := False \<rparr>))
      \<lparr> screen := Some rv, status_page := False, async_reply := True \<rparr>"
    have "baker_parked E log ?t"
      unfolding baker_parked_def
      by (intro exI [of _ hdr] exI [of _ bm] exI [of _ body] exI [of _ "screens @ [rows]"] exI [of _ st] exI [of _ rv])
        (use a c log that in \<open>simp add: led_by_snoc\<close>)
    moreover have "awaiting ?t" using that(2) by (simp add: awaiting_def)
    ultimately show ?thesis using wf by (intro kept_review) (simp_all add: baker_flow_def)
  qed
  show ?thesis
    using dr sh k d(4) by (auto simp: baker_review_def use_case_defs u)
qed

lemma send_stage:
  assumes a: "baker_at E s hdr bm body screens st c" "st \<noteq> Done" and wf: "wf_app s" "wf_baker c" "\<not> awaiting s"
    and c: "bk_state c = stage_state st" "bk_firstDisplay c = (screens = [])"
    and log: "log = led_by (baker_lead E s hdr) screens"
  shows "wp (send_success_no_idle (at_baker s (baker_message hdr bm body) c)) (\<lambda>_ t. kept (baker_flow E log) s t) X"
proof -
  let ?t = "(at_baker s (baker_message hdr bm body) c)\<lparr> replies := replies s @ [([], SWO_SUCCESS)] \<rparr>"
  have "baker_ready E log ?t"
    unfolding baker_ready_def
    by (intro exI [of _ hdr] exI [of _ bm] exI [of _ body] exI [of _ screens] exI [of _ st]) (use a c log in simp)
  moreover have "\<not> awaiting ?t" using wf(3) by (simp add: awaiting_def)
  ultimately show ?thesis using wf by (simp add: baker_flow_def kept_reply)
qed

subsection \<open>The first batch\<close>

text \<open>The bytes f of one field were taken off the data and absorbed.\<close>

definition taken :: "app \<Rightarrow> bytes \<Rightarrow> bytes \<Rightarrow> signConfigureBaker \<Rightarrow> bytes \<Rightarrow> bytes \<Rightarrow> bytes \<times> nat \<Rightarrow> app \<Rightarrow> bool" where
  "taken s m rest c f rest' cur t \<longleftrightarrow> rest = f @ rest' \<and> cur = (rest', length rest') \<and> wf_baker c \<and> t = at_baker s (m @ f) c"

abbreviation batch_of :: "signConfigureBaker \<Rightarrow> configureBakerCapitalRestakeOpenForDelegationBlob" where
  "batch_of c \<equiv> bk_capitalRestakeDelegation c"

lemma baker_capital_wp:
  assumes E: "platform E" and wf: "wf_app s" "wf_baker c"
  shows "wp (baker_capital E (rest, length rest) (at_baker s m c))
    (\<lambda>cur t. \<exists>f rest' stop d.
       taken s m rest (c\<lparr> bk_capitalRestakeDelegation := (batch_of c)\<lparr> bk_stopBaking := stop, bk_displayCapital := d \<rparr> \<rparr>) f rest' cur t \<and>
       (if bk_hasCapital c then length f = 8 \<and> stake_row f = (if stop then (ascii ''Stop'', ascii ''Baking'')
          else (ascii ''Amount to stake'', cstr d)) else f = [])) (refused s)" (is "wp _ ?Q _")
proof (cases "bk_hasCapital c \<and> 8 \<le> length rest")
  case True
  let ?f = "take 8 rest"
  let ?cap = "of_nat (be_nat ?f) :: u64"
  have l8: "8 \<le> length rest" using True by simp
  have z: "?cap = 0 \<longleftrightarrow> be_nat ?f = 0"
    using U8BE_amount(2) [OF l8] by (metis unsigned_0 word_unat_eq_iff of_nat_0)
  have cb: "cbuf 30 (bk_displayCapital (batch_of c))" using wf(2) by (simp add: wf_baker_def)
  obtain d k where d: "amount_to_ccd_display E (bk_displayCapital (batch_of c)) ?cap = Ok (d, k)" "cbuf 30 d"
    "cstr d = ccd_text (be_nat ?f)"
    using amount_text_Ok [OF platformD(4) [OF E] cb l8] by blast
  define d' where "d' = (if ?cap = 0 then bk_displayCapital (batch_of c) else d)"
  let ?k = "(batch_of c)\<lparr> bk_stopBaking := (?cap = 0), bk_displayCapital := d' \<rparr>"
  let ?c = "c\<lparr> bk_capitalRestakeDelegation := ?k \<rparr>"
  have "(if ?cap = 0 then Ok ((batch_of c)\<lparr> bk_stopBaking := True \<rparr>)
      else rbind (amount_to_ccd_display E (bk_displayCapital (batch_of c)) ?cap)
             (\<lambda>(d, _). Ok ((batch_of c)\<lparr> bk_stopBaking := False, bk_displayCapital := d \<rparr>))) = Ok ?k"
    using d(1) by (simp add: d'_def)
  moreover have "wf_baker ?c" using wf(2) d(2) by (simp add: wf_baker_def d'_def)
  then have "?Q (drop 8 rest, length rest - 8) (at_baker s (m @ ?f) ?c)"
    using True d(3) z l8
    by (intro exI [of _ ?f] exI [of _ "drop 8 rest"] exI [of _ "?cap = 0"] exI [of _ d'])
      (simp add: taken_def stake_row_def d'_def)
  ultimately show ?thesis
    using True wf(1) l8 by (simp add: baker_capital_def U8BE_amount(1) [OF l8] Let_def del: ex_simps)
next
  case False
  have "?Q (rest, length rest) (at_baker s m c)" if "\<not> bk_hasCapital c"
    using that wf(2) by (intro exI [of _ "[]"] exI [of _ rest] exI [of _ "bk_stopBaking (batch_of c)"]
      exI [of _ "bk_displayCapital (batch_of c)"]) (simp add: taken_def)
  then show ?thesis using False wf(1) by (auto simp: baker_capital_def not_le)
qed

lemma baker_restake_wp:
  assumes wf: "wf_app s" "wf_baker c"
  shows "wp (baker_restake E (rest, length rest) (at_baker s m c))
    (\<lambda>cur t. \<exists>f rest' d.
       taken s m rest (c\<lparr> bk_capitalRestakeDelegation := (batch_of c)\<lparr> bk_displayRestake := d \<rparr> \<rparr>) f rest' cur t \<and>
       (if bk_hasRestakeEarnings c then f \<in> {[0], [1]} \<and> cstr d = yes_no f else f = [])) (refused s)" (is "wp _ ?Q _")
proof -
  define Q where "Q = ?Q"
  have "wp (baker_restake E (rest, length rest) (at_baker s m c)) Q (refused s)"
  proof (cases "bk_hasRestakeEarnings c \<and> rest \<noteq> []")
  case True
  then obtain b rest' where rest: "rest = b # rest'" by (cases rest) auto
  have l: "length (bk_displayRestake (batch_of c)) = 4" using wf(2) by (simp add: wf_baker_def cbuf_def)
  have Q: "Q (rest', length rest') (at_baker s (m @ [b]) (c\<lparr> bk_capitalRestakeDelegation := (batch_of c)\<lparr> bk_displayRestake := d \<rparr> \<rparr>))"
    if "cbuf 4 d" "b = 0 \<or> b = 1" "cstr d = yes_no [b]" for d
    unfolding Q_def using True that wf(2) by (intro exI [of _ "[b]"] exI [of _ rest'] exI [of _ d]) (auto simp: taken_def wf_baker_def rest)
  have no: "put (bk_displayRestake (batch_of c)) 0 (lit ''No'') = Ok (ascii ''No'' @ 0 # drop 3 (bk_displayRestake (batch_of c)))"
    and yes: "put (bk_displayRestake (batch_of c)) 0 (lit ''Yes'') = Ok (ascii ''Yes'' @ [0])"
    using l by (simp_all add: put_Ok lit_def numeral_3_eq_3)
  show ?thesis
    using True wf(1) l Q [of "ascii ''No'' @ 0 # drop 3 (bk_displayRestake (batch_of c))"] Q [of "ascii ''Yes'' @ [0]"]
    by (auto simp: baker_restake_def rest byte_at_def Let_def no yes yes_no_def simp del: rwp_put)
next
  case False
  have "Q (rest, length rest) (at_baker s m c)" if "\<not> bk_hasRestakeEarnings c"
    unfolding Q_def using that wf(2) by (intro exI [of _ "[]"] exI [of _ rest] exI [of _ "bk_displayRestake (batch_of c)"])
      (simp add: taken_def)
  then show ?thesis using False wf(1) by (auto simp: baker_restake_def)
qed
  then show ?thesis unfolding Q_def .
qed

lemma baker_pool_wp:
  assumes wf: "wf_app s" "wf_baker c"
  shows "wp (baker_pool_status E (rest, length rest) (at_baker s m c))
    (\<lambda>cur t. \<exists>f rest' d.
       taken s m rest (c\<lparr> bk_capitalRestakeDelegation := (batch_of c)\<lparr> bk_displayOpenForDelegation := d \<rparr> \<rparr>) f rest' cur t \<and>
       (if bk_hasOpenForDelegation c then f \<in> {[0], [1], [2]} \<and> cstr d = pool_text f else f = [])) (refused s)" (is "wp _ ?Q _")
proof -
  define Q where "Q = ?Q"
  have "wp (baker_pool_status E (rest, length rest) (at_baker s m c)) Q (refused s)"
  proof (cases "bk_hasOpenForDelegation c \<and> rest \<noteq> []")
  case True
  then obtain b rest' where rest: "rest = b # rest'" by (cases rest) auto
  let ?d = "bk_displayOpenForDelegation (batch_of c)"
  have l: "length ?d = 15" using wf(2) by (simp add: wf_baker_def cbuf_def)
  have Q: "Q (rest', length rest') (at_baker s (m @ [b]) (c\<lparr> bk_capitalRestakeDelegation := (batch_of c)\<lparr> bk_displayOpenForDelegation := d \<rparr> \<rparr>))"
    if "cbuf 15 d" "b = 0 \<or> b = 1 \<or> b = 2" "cstr d = pool_text [b]" for d
    unfolding Q_def using True that wf(2) by (intro exI [of _ "[b]"] exI [of _ rest'] exI [of _ d]) (auto simp: taken_def wf_baker_def rest)
  have opn: "put ?d 0 (lit ''Open for all'') = Ok (ascii ''Open for all'' @ 0 # drop 13 ?d)"
    and clo: "put ?d 0 (lit ''Closed for new'') = Ok (ascii ''Closed for new'' @ [0])"
      "put ?d 0 (lit ''Closed for all'') = Ok (ascii ''Closed for all'' @ [0])"
    using l by (simp_all add: put_Ok lit_def eval_nat_numeral)
  show ?thesis
    using True wf(1) l Q [of "ascii ''Open for all'' @ 0 # drop 13 ?d"] Q [of "ascii ''Closed for new'' @ [0]"]
      Q [of "ascii ''Closed for all'' @ [0]"]
    by (auto simp: baker_pool_status_def rest byte_at_def Let_def opn clo pool_text_def simp del: rwp_put)
next
  case False
  have "Q (rest, length rest) (at_baker s m c)" if "\<not> bk_hasOpenForDelegation c"
    unfolding Q_def using that wf(2) by (intro exI [of _ "[]"] exI [of _ rest] exI [of _ "bk_displayOpenForDelegation (batch_of c)"])
      (simp add: taken_def)
  then show ?thesis using False wf(1) by (auto simp: baker_pool_status_def)
qed
  then show ?thesis unfolding Q_def .
qed

lemma next_stages [simp]:
  "rates_then w \<noteq> Batch" "url_then w \<noteq> Batch" "batch_then w \<noteq> Batch"
  "rates_then w \<noteq> Aggregation cap res pool keys" "url_then w \<noteq> Aggregation cap res pool keys"
  "batch_then w \<noteq> Aggregation cap res pool keys" "first_stage w \<noteq> Aggregation cap res pool keys"
  by (simp_all add: first_stage_def batch_then_def url_then_def rates_then_def)

lemmas next_stages_sym [simp] = next_stages [symmetric]

inductive_cases trace_BatchE: "baker_trace E w Batch body screens"
inductive_cases trace_AggregationE: "baker_trace E w (Aggregation cap res pool keys) body screens"

lemma trace_Batch:
  assumes "baker_trace E w Batch body screens"
  shows "body = []" "screens = []"
  by (rule trace_BatchE [OF assms]; simp)+

lemma trace_Aggregation:
  assumes "baker_trace E w (Aggregation cap res pool keys) body screens"
  shows "body = cap @ res @ pool @ keys" "screens = []" "batch_fields w cap res pool" "bit w 3" "length keys = 192"
  by (rule trace_AggregationE [OF assms]; auto dest: trace_Batch)+

lemma batch_present:
  assumes "baker_flags w c" "batch_fields w cap res pool"
  shows "bk_hasCapital c \<longleftrightarrow> cap \<noteq> []" "bk_hasRestakeEarnings c \<longleftrightarrow> res \<noteq> []" "bk_hasOpenForDelegation c \<longleftrightarrow> pool \<noteq> []"
proof -
  have "if bit w 0 then length cap = 8 else cap = []" "if bit w 1 then res \<in> {[0], [1]} else res = []"
    "if bit w 2 then pool \<in> {[0], [1], [2]} else pool = []"
    using assms(2) unfolding batch_fields_def by blast+
  then show "bk_hasCapital c \<longleftrightarrow> cap \<noteq> []" "bk_hasRestakeEarnings c \<longleftrightarrow> res \<noteq> []" "bk_hasOpenForDelegation c \<longleftrightarrow> pool \<noteq> []"
    using assms(1) unfolding baker_flags_def by (metis list.size(3) zero_neq_numeral insertE list.distinct(1) emptyE)+
qed

lemma batch_drawn:
  assumes t: "baker_trace E (bitmap_of bm) (batch_then (bitmap_of bm)) body [batch_rows cap res pool digest]"
    and s: "header_shown E hdr s" "length bm = 2" "wf_app s"
    and c: "wf_baker c" "baker_flags (bitmap_of bm) c" "bk_firstDisplay c" "batch_shown c cap res pool"
    and f: "batch_fields (bitmap_of bm) cap res pool"
    and d: "if bk_hasKeys c then digest \<noteq> [] \<and> cstr (bk_keysHashDisplay c) = upper_hex digest else digest = []"
  shows "wp (bind (startConfigureBakerDisplay (awaitConfigureBakerConfirm (after_batch c) (at_baker s (baker_message hdr bm body) c)))
      (\<lambda>_ s. request_async_reply s))
    (\<lambda>_ t. kept (baker_flow E []) s t) X"
proof -
  let ?w = "bitmap_of bm"
  let ?c = "c\<lparr> bk_state := CONFIGURE_BAKER_AWAITING_CONFIRM, bk_pendingState := stage_state (batch_then ?w) \<rparr>"
  let ?u = "at_baker s (baker_message hdr bm body) ?c"
  let ?k = "batch_of c"
  let ?bufs = "(if bk_hasCapital c
       then [if bk_stopBaking ?k then (lit ''Stop'', lit ''Baking'') else (lit ''Amount to stake'', bk_displayCapital ?k)] else []) @
      (if bk_hasRestakeEarnings c then [(lit ''Restake earnings'', bk_displayRestake ?k)] else []) @
      (if bk_hasOpenForDelegation c then [(lit ''Pool status'', bk_displayOpenForDelegation ?k)] else []) @
      (if bk_hasKeys c then [(lit ''Update baker'', lit ''keys''), (lit ''Baker keys hash'', bk_keysHashDisplay c)] else [])"
  note st = baker_stages [OF c(2)]
  have nn: "bk_hasCapital c \<longleftrightarrow> cap \<noteq> []" "bk_hasRestakeEarnings c \<longleftrightarrow> res \<noteq> []" "bk_hasOpenForDelegation c \<longleftrightarrow> pool \<noteq> []"
    using batch_present [OF c(2) f] .
  have sh: "shown_rows ?bufs = batch_rows cap res pool digest"
    using c(4) d nn by (auto simp: batch_shown_def batch_rows_def Let_def)
  have dr: "drawable ?bufs" "length ?bufs \<le> 7"
    using c(1) by (auto simp: wf_baker_def cbuf_def)
  have a: "baker_at E s hdr bm body ([] @ [batch_rows cap res pool digest]) (batch_then ?w) ?c"
    using t s(1,2) c(2) st(6) by (simp add: baker_at_def)
  have "wp (baker_review (batch_then ?w \<noteq> Done) (baker_header ?u @ ?bufs) (set_baker (\<lambda>c. c\<lparr> bk_firstDisplay := False \<rparr>) ?u))
      (\<lambda>_ t. kept (baker_flow E []) s (t\<lparr> async_reply := True \<rparr>)) X"
    by (rule draw_stage [OF a s(3) _ _ _ _ _ dr(1) sh dr(2) refl refl]) (use c in \<open>simp_all add: led_by_def\<close>)
  moreover have "startConfigureBakerDisplay ?u =
      baker_review (batch_then ?w \<noteq> Done) (baker_header ?u @ ?bufs) (set_baker (\<lambda>c. c\<lparr> bk_firstDisplay := False \<rparr>) ?u)"
    using st(4) c(3) by (simp add: startConfigureBakerDisplay_def baker_header_def Let_def hasCommissionRate_def)
  ultimately show ?thesis by (simp add: awaitConfigureBakerConfirm_def st(2))
qed

lemma wp_baker_key [simp]:
  "wp (baker_key E cdata off n (at_baker s m c)) Q X \<longleftrightarrow> off + n \<le> length cdata \<and>
    (let k = take n (drop off cdata) in
     if sdk_hash_update E m k then (\<exists>h. bk_keysHashCtx c = Some h \<and>
       (if sdk_hash_update E h k then Q () (at_baker s (m @ k) (c\<lparr> bk_keysHashCtx := Some (h @ k) \<rparr>))
        else X ERROR_FAILED_CX_OPERATION (at_baker s (m @ k) c)))
     else X ERROR_FAILED_CX_OPERATION (at_baker s m c))"
  by (auto simp: baker_key_def Let_def)

text \<open>The 192 bytes of the two keys and their proofs.\<close>

lemma keys_split:
  assumes "length (ks :: bytes) = 192"
  shows "take 32 ks @ take 64 (drop 32 ks) @ take 32 (drop 96 ks) @ take 64 (drop 128 ks) = ks"
proof -
  have "drop 32 ks = take 64 (drop 32 ks) @ drop 96 ks" using append_take_drop_id [of 64 "drop 32 ks"] by simp
  moreover have "drop 96 ks = take 32 (drop 96 ks) @ drop 128 ks" using append_take_drop_id [of 32 "drop 96 ks"] by simp
  moreover have "drop 128 ks = take 64 (drop 128 ks)" using assms by simp
  ultimately show ?thesis using append_take_drop_id [of 32 ks] by simp
qed

lemma batch_fieldsI:
  assumes "baker_flags w c" "if bk_hasCapital c then length cap = 8 else cap = []"
    "if bk_hasRestakeEarnings c then res \<in> {[0], [1]} else res = []"
    "if bk_hasOpenForDelegation c then pool \<in> {[0], [1], [2]} else pool = []"
  shows "batch_fields w cap res pool"
proof -
  have b: "bit w 0 = bk_hasCapital c" "bit w 1 = bk_hasRestakeEarnings c" "bit w 2 = bk_hasOpenForDelegation c"
    using assms(1) by (simp_all add: baker_flags_def)
  show ?thesis unfolding batch_fields_def b using assms(2-4) by blast
qed

lemma baker_batch:
  assumes E: "platform E" and wf: "wf_app s" "wf_baker c" "\<not> awaiting s"
    and a: "baker_at E s hdr bm body screens Batch c" and fd: "bk_firstDisplay c"
  shows "wp (baker_batch_packet E rest (at_baker s (baker_message hdr bm body) c))
    (\<lambda>_ t. kept (baker_flow E []) s t) (refused s)"
  unfolding baker_batch_packet_def wp_bind
proof (rule wp_mono [OF baker_capital_wp [OF E wf(1,2)]], goal_cases)
  case (1 cur u)
  let ?w = "bitmap_of bm" and ?m = "baker_message hdr bm body"
  have tr: "baker_trace E ?w Batch body screens" and fl: "baker_flags ?w c" and hs: "header_shown E hdr s" "length bm = 2"
    and kc: "bk_hasKeys c \<longrightarrow> bk_keysHashCtx c = Some []"
    using a by (simp_all add: baker_at_def)
  note b0 = trace_Batch [OF tr]
  from 1 obtain cap r1 stop d1 where t1: "taken s ?m rest (c\<lparr> bk_capitalRestakeDelegation :=
      (batch_of c)\<lparr> bk_stopBaking := stop, bk_displayCapital := d1 \<rparr> \<rparr>) cap r1 cur u"
    and f1: "if bk_hasCapital c then length cap = 8 \<and> stake_row cap = (if stop then (ascii ''Stop'', ascii ''Baking'')
          else (ascii ''Amount to stake'', cstr d1)) else cap = []" by blast
  define c1 where "c1 = c\<lparr> bk_capitalRestakeDelegation := (batch_of c)\<lparr> bk_stopBaking := stop, bk_displayCapital := d1 \<rparr> \<rparr>"
  have s1: "rest = cap @ r1" "cur = (r1, length r1)" "wf_baker c1" "u = at_baker s (?m @ cap) c1"
    using t1 by (simp_all add: taken_def c1_def)
  show ?case
    unfolding s1(2,4)
  proof (rule wp_mono [OF baker_restake_wp [OF wf(1) s1(3)]], goal_cases)
    case (1 cur u)
    then obtain res r2 d2 where t2: "taken s (?m @ cap) r1 (c1\<lparr> bk_capitalRestakeDelegation := (batch_of c1)\<lparr> bk_displayRestake := d2 \<rparr> \<rparr>)
        res r2 cur u"
      and f2: "if bk_hasRestakeEarnings c1 then res \<in> {[0], [1]} \<and> cstr d2 = yes_no res else res = []" by blast
    define c2 where "c2 = c1\<lparr> bk_capitalRestakeDelegation := (batch_of c1)\<lparr> bk_displayRestake := d2 \<rparr> \<rparr>"
    have s2: "r1 = res @ r2" "cur = (r2, length r2)" "wf_baker c2" "u = at_baker s ((?m @ cap) @ res) c2"
      using t2 by (simp_all add: taken_def c2_def)
    show ?case
      unfolding s2(2,4)
    proof (rule wp_mono [OF baker_pool_wp [OF wf(1) s2(3)]], goal_cases)
      case (1 cur u)
      then obtain pool r3 d3 where t3: "taken s ((?m @ cap) @ res) r2
          (c2\<lparr> bk_capitalRestakeDelegation := (batch_of c2)\<lparr> bk_displayOpenForDelegation := d3 \<rparr> \<rparr>) pool r3 cur u"
        and f3: "if bk_hasOpenForDelegation c2 then pool \<in> {[0], [1], [2]} \<and> cstr d3 = pool_text pool else pool = []" by blast
      define c3 where "c3 = c2\<lparr> bk_capitalRestakeDelegation := (batch_of c2)\<lparr> bk_displayOpenForDelegation := d3 \<rparr> \<rparr>"
      have s3: "r2 = pool @ r3" "cur = (r3, length r3)" "wf_baker c3" "u = at_baker s (((?m @ cap) @ res) @ pool) c3"
        using t3 by (simp_all add: taken_def c3_def)
      note cs = c1_def c2_def c3_def
      have bf: "batch_fields ?w cap res pool"
        using f1 f2 f3 by (intro batch_fieldsI [OF fl]) (auto simp: cs)
      have sh: "batch_shown c3 cap res pool"
        using f1 f2 f3 by (simp add: batch_shown_def cs Let_def)
      have c3: "baker_flags ?w c3" "bk_firstDisplay c3" "bk_hasKeys c3 = bit ?w 3" "bk_keysHashCtx c3 = bk_keysHashCtx c"
        using fl fd by (simp_all add: cs) (simp add: baker_flags_def)
      have m: "((?m @ cap) @ res) @ pool = baker_message hdr bm (cap @ res @ pool)" using b0 by (simp add: baker_message_def)
      show ?case
      proof (cases "bit ?w 3")
        case False
        have "baker_trace E ?w (batch_then ?w) (body @ cap @ res @ pool) (screens @ [batch_rows cap res pool []])"
          using tr bf False by (rule baker_trace.batch)
        then have "baker_trace E ?w (batch_then ?w) (cap @ res @ pool) [batch_rows cap res pool []]" using b0 by simp
        from batch_drawn [OF this hs wf(1) s3(3) c3(1,2) sh bf] False c3(3) wf(1) show ?thesis
          unfolding s3(2,4) m by (simp del: wp_bind)
      next
        case True
        show ?thesis
        proof (cases "length r3 = 192")
          case l: True
          let ?k = "c3\<lparr> bk_keysHashCtx := Some (batch_keys r3), bk_state := CONFIGURE_BAKER_AGGREGATION_KEY \<rparr>"
          have "baker_trace E ?w (Aggregation cap res pool r3) (body @ cap @ res @ pool @ r3) screens"
            using tr bf True l by (rule baker_trace.keys)
          then have "baker_at E s hdr bm (cap @ res @ pool @ r3) [] (Aggregation cap res pool r3) ?k"
            using hs c3 True sh b0 by (simp add: baker_at_def batch_shown_def)
          from send_stage [OF this _ wf(1) _ wf(3)] s3(3) c3(2)
          have fin: "wp (send_success_no_idle (at_baker s (baker_message hdr bm (cap @ res @ pool @ r3)) ?k))
              (\<lambda>_ t. kept (baker_flow E []) s t) (refused s)" by (simp add: led_by_def)
          show ?thesis
            unfolding s3(2,4) m prod.case
            using True c3 kc l wf(1) s3(3) fin keys_split [OF l] fl
            by (simp add: Let_def baker_message_def batch_keys_def baker_flags_def)
        qed (use True c3(3) wf(1) s3 in simp)
      qed
    qed simp
  qed simp
qed simp

lemma baker_aggregation:
  assumes E: "platform E" and wf: "wf_app s" "wf_baker c" "\<not> awaiting s"
    and a: "baker_at E s hdr bm body screens (Aggregation cap res pool ks) c" and fd: "bk_firstDisplay c"
  shows "wp (baker_aggregation_packet E cdata (at_baker s (baker_message hdr bm body) c))
    (\<lambda>_ t. kept (baker_flow E []) s t) (refused s)"
proof (cases "length cdata = 160")
  case True
  let ?w = "bitmap_of bm" and ?m = "baker_message hdr bm body"
  have tr: "baker_trace E ?w (Aggregation cap res pool ks) body screens" and fl: "baker_flags ?w c"
    and hs: "header_shown E hdr s" "length bm = 2"
    and kc: "bk_hasKeys c" "bk_keysHashCtx c = Some (batch_keys ks)" "batch_shown c cap res pool"
    using a by (simp_all add: baker_at_def)
  note ta = trace_Aggregation [OF tr]
  have split: "take 96 cdata @ take 64 (drop 96 cdata) = cdata" using True append_take_drop_id [of 96 cdata] by simp
  have msg: "baker_message hdr bm body @ take 96 cdata @ take 64 (drop 96 cdata) = baker_message hdr bm (body @ cdata)"
    unfolding split by (simp add: baker_message_def)
  let ?h = "batch_keys ks @ take 96 cdata"
  have dl: "length (bk_keysHashDisplay c) = 65" using wf(2) by (simp add: wf_baker_def cbuf_def)
  have drawn: "wp (bind (startConfigureBakerDisplay (awaitConfigureBakerConfirm (after_batch c')
        (at_baker s (baker_message hdr bm (body @ cdata)) c'))) (\<lambda>_ s. request_async_reply s))
      (\<lambda>_ t. kept (baker_flow E []) s t) (refused s)"
    if d: "sdk_hash_final E ?h = Some d" "length d = 32"
      and c: "c' = c\<lparr> bk_keysHashCtx := None, bk_keysHashDisplay := upper_hex d @ 0 # drop 65 (bk_keysHashDisplay c) \<rparr>" for d c'
  proof -
    have "baker_trace E ?w (batch_then ?w) (body @ cdata) (screens @ [batch_rows cap res pool d])"
      using tr True d(1) by (rule baker_trace.aggregation)
    then have t: "baker_trace E ?w (batch_then ?w) (body @ cdata) [batch_rows cap res pool d]" using ta(2) by simp
    show ?thesis
      by (rule batch_drawn [OF t hs wf(1)]) (use wf(2) fl fd kc ta(3) d dl in \<open>auto simp: c wf_baker_def batch_shown_def\<close>)
  qed
  show ?thesis
    unfolding baker_aggregation_packet_def
    using True kc wf dl drawn [OF _ _ refl] msg
    by (auto simp: Let_def hex_into_Ok [OF platformD(5) [OF E]] intro!: rwp_mono [OF rwp_final_ctx [OF platformD(6) [OF E]]])
next
  case False
  then show ?thesis using wf(1) by (simp add: baker_aggregation_packet_def)
qed

subsection \<open>The URL\<close>

lemma url_drawn:
  assumes a: "baker_at E s hdr bm body (screens @ [rows]) st c" and wf: "wf_app s" "wf_baker c"
    and fd: "bk_firstDisplay c = (screens = [])" and log: "log = led_by (baker_lead E s hdr) screens"
    and st: "if lastPage then st = url_then (bitmap_of bm) else st \<noteq> Done"
    and rows: "rows = (if lastPage \<and> bk_urlLength (bk_url c) = 0 then [(ascii ''Empty URL'', [])]
      else [(ascii ''URL'', cstr (bk_urlDisplay (bk_url c)))])"
  shows "wp (startConfigureBakerUrlDisplay lastPage (awaitConfigureBakerConfirm (stage_state st)
      (at_baker s (baker_message hdr bm body) c)))
    (\<lambda>_ t. kept (baker_flow E log) s (t\<lparr> async_reply := True \<rparr>)) X"
proof -
  let ?c = "c\<lparr> bk_state := CONFIGURE_BAKER_AWAITING_CONFIRM, bk_pendingState := stage_state st \<rparr>"
  let ?u = "at_baker s (baker_message hdr bm body) ?c"
  let ?bufs = "if lastPage \<and> bk_urlLength (bk_url c) = 0 then [(lit ''Empty URL'', lit [])]
      else [(lit ''URL'', bk_urlDisplay (bk_url c))]"
  have fl: "baker_flags (bitmap_of bm) c" using a by (simp add: baker_at_def)
  have b: "drawable ?bufs" "shown_rows ?bufs = rows" "length ?bufs \<le> 7"
    using wf(2) rows by (auto simp: wf_baker_def cbuf_def)
  have fur: "(\<not> lastPage \<or> hasCommissionRate c \<or> bk_hasSuspended c) = (st \<noteq> Done)"
    using st baker_stages(3) [OF fl] by (auto split: if_splits)
  have "wp (baker_review (\<not> lastPage \<or> hasCommissionRate c \<or> bk_hasSuspended c) (baker_header ?u @ ?bufs)
      (set_baker (\<lambda>c. c\<lparr> bk_firstDisplay := False \<rparr>) ?u))
      (\<lambda>_ t. kept (baker_flow E log) s (t\<lparr> async_reply := True \<rparr>)) X"
    by (rule draw_stage [OF _ wf(1) _ _ _ _ log b fur refl]) (use a wf fd in simp_all)
  moreover have "startConfigureBakerUrlDisplay lastPage ?u =
      baker_review (\<not> lastPage \<or> hasCommissionRate c \<or> bk_hasSuspended c) (baker_header ?u @ ?bufs)
        (set_baker (\<lambda>c. c\<lparr> bk_firstDisplay := False \<rparr>) ?u)"
    by (simp add: startConfigureBakerUrlDisplay_def Let_def hasCommissionRate_def)
  ultimately show ?thesis unfolding awaitConfigureBakerConfirm_def at_baker_simps by simp
qed

lemma two_zeros: "length len = 2 \<Longrightarrow> be_nat len = 0 \<Longrightarrow> len = [0, 0]"
  using be_nat_inj [of len "[0, 0]"] by (simp add: be_nat_def)

lemma baker_url_length:
  assumes wf: "wf_app s" "wf_baker c" "\<not> awaiting s"
    and a: "baker_at E s hdr bm body screens UrlLength c" and fd: "bk_firstDisplay c = (screens = [])"
    and log: "log = led_by (baker_lead E s hdr) screens"
  shows "wp (baker_url_length_packet E cdata (at_baker s (baker_message hdr bm body) c))
    (\<lambda>_ t. kept (baker_flow E log) s t) (refused s)"
proof (cases "bk_hasMetadataUrl c \<and> 2 \<le> length cdata")
  case True
  let ?w = "bitmap_of bm" and ?len = "take 2 cdata"
  have tr: "baker_trace E ?w UrlLength body screens" and fl: "baker_flags ?w c" and hs: "header_shown E hdr s" "length bm = 2"
    using a by (simp_all add: baker_at_def)
  have l: "length ?len = 2" and u: "unat (of_nat (be_nat ?len) :: u16) = be_nat ?len" and U: "U2BE cdata 0 = Ok (of_nat (be_nat ?len))"
    using True by (auto intro!: unat_be_nat_2 simp: U2BE_def slice_Ok)
  let ?c = "c\<lparr> bk_url := (bk_url c)\<lparr> bk_urlLength := be_nat ?len \<rparr> \<rparr>"
  have wc: "wf_baker ?c" using wf(2) by (simp add: wf_baker_def)
  have kept: "stage_kept ?c (url_then ?w)" by (simp add: url_then_def rates_then_def)
  have zero: "wp (startConfigureBakerUrlDisplay True (awaitConfigureBakerConfirm (after_url ?c)
      (at_baker s (baker_message hdr bm body @ ?len) ?c))) (\<lambda>_ t. kept (baker_flow E log) s (t\<lparr> async_reply := True \<rparr>)) (refused s)"
    if z: "be_nat ?len = 0"
  proof -
    have "baker_trace E ?w (url_then ?w) (body @ ?len) (screens @ [[(ascii ''Empty URL'', [])]])"
      using tr two_zeros [OF l z] by (rule baker_trace.no_url)
    then have "baker_at E s hdr bm (body @ ?len) (screens @ [[(ascii ''Empty URL'', [])]]) (url_then ?w) ?c"
      using fl hs kept by (simp add: baker_at_def)
    from url_drawn [OF this wf(1) wc _ log, where lastPage = True] fd z
    have "wp (startConfigureBakerUrlDisplay True (awaitConfigureBakerConfirm (stage_state (url_then ?w))
        (at_baker s (baker_message hdr bm (body @ ?len)) ?c))) (\<lambda>_ t. kept (baker_flow E log) s (t\<lparr> async_reply := True \<rparr>)) (refused s)"
      by simp
    moreover have "after_url ?c = stage_state (url_then ?w)" using baker_stages(1) [of ?w ?c] fl by simp
    ultimately show ?thesis by (simp add: baker_message_def)
  qed
  have pos: "wp (send_success_no_idle (at_baker s (baker_message hdr bm body @ ?len) (?c\<lparr> bk_state := CONFIGURE_BAKER_URL \<rparr>)))
      (\<lambda>_ t. kept (baker_flow E log) s t) (refused s)" if p: "0 < be_nat ?len" "be_nat ?len \<le> 2048"
  proof -
    have "baker_trace E ?w (Url (be_nat ?len)) (body @ ?len) screens" using tr l p by (rule baker_trace.url_length)
    then have "baker_at E s hdr bm (body @ ?len) screens (Url (be_nat ?len)) (?c\<lparr> bk_state := CONFIGURE_BAKER_URL \<rparr>)"
      using fl hs by (simp add: baker_at_def)
    from send_stage [OF this _ wf(1) _ wf(3) _ _ log] wc fd show ?thesis by (simp add: baker_message_def)
  qed
  have k: "set_url f (at_baker s m c) = at_baker s m (c\<lparr> bk_url := f (bk_url c) \<rparr>)" for f m c by (simp add: set_url_def)
  show ?thesis
    unfolding baker_url_length_packet_def
    using True zero pos wf(1) wc u by (auto simp: U Let_def k)
next
  case False
  then show ?thesis using wf(1,2) by (auto simp: baker_url_length_packet_def)
qed

lemma trace_Url:
  assumes "baker_trace E w st body screens" "st = Url n"
  shows "0 < n"
  using assms by (cases rule: baker_trace.cases) (auto simp: first_stage_def batch_then_def url_then_def rates_then_def split: if_splits)

lemma baker_url:
  assumes wf: "wf_app s" "wf_baker c" "\<not> awaiting s" and len: "length chunk < 256"
    and a: "baker_at E s hdr bm body screens (Url n) c" and fd: "bk_firstDisplay c = (screens = [])"
    and log: "log = led_by (baker_lead E s hdr) screens"
  shows "wp (baker_url_packet E chunk (at_baker s (baker_message hdr bm body) c))
    (\<lambda>_ t. kept (baker_flow E log) s t) (refused s)"
proof (cases "length chunk \<le> n \<and> is_displayable_text chunk")
  case True
  let ?w = "bitmap_of bm"
  have tr: "baker_trace E ?w (Url n) body screens" and fl: "baker_flags ?w c" and hs: "header_shown E hdr s" "length bm = 2"
    and n: "bk_urlLength (bk_url c) = n" using a by (simp_all add: baker_at_def)
  have l: "length (bk_urlDisplay (bk_url c)) = 256" using wf(2) by (simp add: wf_baker_def cbuf_def)
  let ?d = "chunk @ 0 # zeros (255 - length chunk)"
  have z: "zeros (256 - length chunk) = 0 # zeros (255 - length chunk)"
  proof -
    have "256 - length chunk = Suc (255 - length chunk)" using len by simp
    then show ?thesis by (simp only: zeros_def replicate_Suc)
  qed
  have dz: "drop k (zeros m) = zeros (m - k)" for k m by (simp add: zeros_def)
  have p1: "put (zeros 256) 0 chunk = Ok ?d" using len by (simp add: put_Ok dz z)
  have p2: "put ?d (length chunk) [0] = Ok ?d" using len by (simp add: put_Ok)
  have keep: "keep_url_chunk chunk u = Ok ?d" if "baker u = c'" "length (bk_urlDisplay (bk_url c')) = 256" for u c'
    unfolding keep_url_chunk_def that(1) that(2) p1 rbind.simps p2 ..
  have cs: "cstr ?d = chunk" "cbuf 256 ?d" using displayable_no_NUL True len by simp_all
  have k: "set_url f (at_baker s m c) = at_baker s m (c\<lparr> bk_url := f (bk_url c) \<rparr>)" for f m c by (simp add: set_url_def)
  have msg: "baker_message hdr bm body @ chunk = baker_message hdr bm (body @ chunk)" by (simp add: baker_message_def)
  have more: "wp (startConfigureBakerUrlDisplay False (awaitConfigureBakerConfirm CONFIGURE_BAKER_URL
      (at_baker s (baker_message hdr bm (body @ chunk)) (c\<lparr> bk_url := (bk_url c)\<lparr> bk_urlLength := n - length chunk, bk_urlDisplay := ?d \<rparr> \<rparr>))))
      (\<lambda>_ t. kept (baker_flow E log) s (t\<lparr> async_reply := True \<rparr>)) (refused s)" if "length chunk < n"
  proof -
    let ?c = "c\<lparr> bk_url := (bk_url c)\<lparr> bk_urlLength := n - length chunk, bk_urlDisplay := ?d \<rparr> \<rparr>"
    have "baker_trace E ?w (Url (n - length chunk)) (body @ chunk) (screens @ [[(ascii ''URL'', chunk)]])"
      using tr that True by (intro baker_trace.url_chunk) simp_all
    then have "baker_at E s hdr bm (body @ chunk) (screens @ [[(ascii ''URL'', chunk)]]) (Url (n - length chunk)) ?c"
      using fl hs by (simp add: baker_at_def)
    from url_drawn [OF this wf(1) _ _ log, where lastPage = False] fd cs wf(2) show ?thesis by (simp add: wf_baker_def)
  qed
  have last: "wp (startConfigureBakerUrlDisplay True (awaitConfigureBakerConfirm (after_url c')
      (at_baker s (baker_message hdr bm (body @ chunk)) c')))
      (\<lambda>_ t. kept (baker_flow E log) s (t\<lparr> async_reply := True \<rparr>)) (refused s)"
    if e: "n = length chunk" and c': "c' = c\<lparr> bk_url := (bk_url c)\<lparr> bk_urlDisplay := ?d \<rparr> \<rparr>" for c'
  proof -
    have "baker_trace E ?w (url_then ?w) (body @ chunk) (screens @ [[(ascii ''URL'', chunk)]])"
      using tr e True by (intro baker_trace.url_end) simp_all
    then have "baker_at E s hdr bm (body @ chunk) (screens @ [[(ascii ''URL'', chunk)]]) (url_then ?w) c'"
      using fl hs c' by (simp add: baker_at_def url_then_def rates_then_def)
    moreover have "0 < n" by (rule trace_Url [OF tr refl])
    ultimately show ?thesis
      using url_drawn [of E s hdr bm "body @ chunk" screens _ "url_then ?w" c' log True "refused s"] wf fd cs log n e
        baker_stages(1) [of ?w c'] fl c'
      by (simp add: wf_baker_def)
  qed
  show ?thesis
    unfolding baker_url_packet_def
    using True more last [OF _ refl] wf(1,2) n l msg
    by (auto simp: Let_def k keep [OF refl])
next
  case False
  then show ?thesis
    using wf a by (auto simp: baker_url_packet_def Let_def baker_at_def intro!: kept_closed)
qed

subsection \<open>Commission rates\<close>

lemma commission_rate_wp:
  assumes E: "platform E" and wf: "wf_app s" "wf_baker c"
    and buf: "length (get_text (bk_commissionRates c)) = 8"
    and set: "\<And>d. cbuf 8 d \<Longrightarrow> wf_baker (c\<lparr> bk_commissionRates := set_text d (bk_commissionRates c) \<rparr>)"
      "\<And>r. set_text (get_text r) r = r"
  shows "wp (commission_rate E present get_text set_text (rest, length rest) (at_baker s m c))
    (\<lambda>cur t. \<exists>f rest' d. rest = f @ rest' \<and> cur = (rest', length rest') \<and> rate_field present f \<and>
       wf_baker (c\<lparr> bk_commissionRates := set_text d (bk_commissionRates c) \<rparr>) \<and>
       t = at_baker s (m @ f) (c\<lparr> bk_commissionRates := set_text d (bk_commissionRates c) \<rparr>) \<and>
       (present \<longrightarrow> cstr d = fpu_text (be_nat f) 3 @ [37])) (refused s)" (is "wp _ ?Q _")
proof -
  define Q where "Q = ?Q"
  let ?c = "\<lambda>d. c\<lparr> bk_commissionRates := set_text d (bk_commissionRates c) \<rparr>"
  have "wp (commission_rate E present get_text set_text (rest, length rest) (at_baker s m c)) Q (refused s)"
  proof (cases "present \<and> 4 \<le> length rest")
    case True
    let ?f = "take 4 rest"
    let ?rate = "of_nat (be_nat ?f) :: u32"
    have U: "U4BE rest 0 = Ok ?rate" using True by (simp add: U4BE_def slice_Ok)
    have u: "unat ?rate = be_nat ?f"
      using True be_nat_bound [of ?f] by (simp add: unsigned_of_nat take_bit_nat_eq_self)
    have Q: "Q (drop 4 rest, length rest - 4) (at_baker s (m @ ?f) (?c d))"
      if "?rate \<le> 100000" "length d = 8" "cstr d = fpu_text (unat ?rate) 3 @ [37]" for d
    proof -
      have "be_nat ?f \<le> 100000" using that(1) u by (simp add: word_le_nat_alt)
      moreover have "0 \<in> set d"
      proof (rule ccontr)
        assume "0 \<notin> set d"
        then have "length d = length (fpu_text (unat ?rate) 3) + 1" using that(3) cstr_no_NUL [of d] by simp
        then show False using that(2) length_fpu_text_3 [OF that(1)] by simp
      qed
      ultimately show ?thesis
        unfolding Q_def using True that u set(1) [of d]
        by (intro exI [of _ ?f] exI [of _ "drop 4 rest"] exI [of _ d]) (simp add: rate_field_def cbuf_def)
    qed
    have "rwp (fraction_to_percentage_display E (get_text (bk_commissionRates c)) ?rate)
      (\<lambda>(d, n). ?rate \<le> 100000 \<and> length d = length (get_text (bk_commissionRates c)) \<and>
         cstr d = fpu_text (unat ?rate) 3 @ [37]) (\<lambda>e. e = ERROR_INVALID_TRANSACTION \<and> 100000 < ?rate)"
      by (rule fraction_to_percentage_display_wp [OF platformD(4) [OF E]]) (use buf in simp)
    then have f: "rwp (fraction_to_percentage_display E (get_text (bk_commissionRates c)) ?rate)
      (\<lambda>(d, n). wp (bind (hash_data E rest 0 4 (at_baker s m (?c d)))
         (\<lambda>_ s. Ret (drop 4 rest, length rest - 4) s)) Q (refused s)) (\<lambda>e. refused s e (at_baker s m c))"
      by (rule rwp_mono) (use True buf wf(1) set(1) Q in \<open>auto\<close>)
    then show ?thesis
      unfolding commission_rate_def using True wf(1) by (auto simp: U Let_def split_beta elim!: rwp_mono)
  next
    case False
    have "Q (rest, length rest) (at_baker s m c)" if "\<not> present"
      unfolding Q_def using that wf(2) set(2)
      by (intro exI [of _ "[]"] exI [of _ rest] exI [of _ "get_text (bk_commissionRates c)"]) (simp add: rate_field_def)
    then show ?thesis using False wf(1) by (auto simp: commission_rate_def)
  qed
  then show ?thesis unfolding Q_def .
qed

lemma rates_drawn:
  assumes a: "baker_at E s hdr bm (body @ tf @ br @ fr) (screens @ [rate_rows tf br fr]) (rates_then (bitmap_of bm)) c"
    and wf: "wf_app s" "wf_baker c" and fd: "bk_firstDisplay c = (screens = [])" and log: "log = led_by (baker_lead E s hdr) screens"
    and has: "hasCommissionRate c" "bk_hasTransactionFeeCommission c \<longleftrightarrow> tf \<noteq> []"
      "bk_hasBakingRewardCommission c \<longleftrightarrow> br \<noteq> []" "bk_hasFinalizationRewardCommission c \<longleftrightarrow> fr \<noteq> []"
    and tx: "tf \<noteq> [] \<Longrightarrow> cstr (bk_transactionFeeCommissionRate (bk_commissionRates c)) = fpu_text (be_nat tf) 3 @ [37]"
      "br \<noteq> [] \<Longrightarrow> cstr (bk_bakingRewardCommissionRate (bk_commissionRates c)) = fpu_text (be_nat br) 3 @ [37]"
      "fr \<noteq> [] \<Longrightarrow> cstr (bk_finalizationRewardCommissionRate (bk_commissionRates c)) = fpu_text (be_nat fr) 3 @ [37]"
  shows "wp (startConfigureBakerCommissionDisplay (awaitConfigureBakerConfirm (stage_state (rates_then (bitmap_of bm)))
      (at_baker s (baker_message hdr bm (body @ tf @ br @ fr)) c)))
    (\<lambda>_ t. kept (baker_flow E log) s (t\<lparr> async_reply := True \<rparr>)) X"
proof -
  let ?st = "rates_then (bitmap_of bm)" and ?r = "bk_commissionRates c"
  let ?c = "c\<lparr> bk_state := CONFIGURE_BAKER_AWAITING_CONFIRM, bk_pendingState := stage_state ?st \<rparr>"
  let ?u = "at_baker s (baker_message hdr bm (body @ tf @ br @ fr)) ?c"
  let ?bufs = "(if hasCommissionRate c then [(lit ''Commission'', lit ''rates'')] else []) @
            (if bk_hasTransactionFeeCommission c then [(lit ''Transaction fee'', bk_transactionFeeCommissionRate ?r)] else []) @
            (if bk_hasBakingRewardCommission c then [(lit ''Baking reward'', bk_bakingRewardCommissionRate ?r)] else []) @
            (if bk_hasFinalizationRewardCommission c
             then [(lit ''Finalization reward'', bk_finalizationRewardCommissionRate ?r)] else [])"
  have b: "drawable ?bufs" "length ?bufs \<le> 7" using wf(2) by (auto simp: wf_baker_def cbuf_def)
  have sh: "shown_rows ?bufs = rate_rows tf br fr"
    using has tx by (auto simp: rate_rows_def rate_row_def)
  have fur: "bk_hasSuspended c = (?st \<noteq> Done)"
    using a by (simp add: baker_at_def baker_flags_def rates_then_def)
  have "wp (baker_review (bk_hasSuspended c) (baker_header ?u @ ?bufs) (set_baker (\<lambda>c. c\<lparr> bk_firstDisplay := False \<rparr>) ?u))
      (\<lambda>_ t. kept (baker_flow E log) s (t\<lparr> async_reply := True \<rparr>)) X"
    by (rule draw_stage [OF _ wf(1) _ _ _ _ log b(1) sh b(2) fur refl]) (use a wf fd in simp_all)
  moreover have "startConfigureBakerCommissionDisplay ?u =
      baker_review (bk_hasSuspended c) (baker_header ?u @ ?bufs) (set_baker (\<lambda>c. c\<lparr> bk_firstDisplay := False \<rparr>) ?u)"
    by (simp add: startConfigureBakerCommissionDisplay_def Let_def hasCommissionRate_def)
  ultimately show ?thesis unfolding awaitConfigureBakerConfirm_def at_baker_simps by simp
qed

lemma present_rate: "rate_field present r \<Longrightarrow> present \<longleftrightarrow> r \<noteq> []"
  by (cases present) (auto simp: rate_field_def)

lemma trace_Rates:
  assumes "baker_trace E w st body screens" "st = Rates"
  shows "bit w 5 \<or> bit w 6 \<or> bit w 7"
  using assms by (cases rule: baker_trace.cases) (auto simp: first_stage_def batch_then_def url_then_def rates_then_def split: if_splits)

lemma baker_rates:
  assumes E: "platform E" and wf: "wf_app s" "wf_baker c"
    and a: "baker_at E s hdr bm body screens Rates c" and fd: "bk_firstDisplay c = (screens = [])"
    and log: "log = led_by (baker_lead E s hdr) screens"
  shows "wp (handleCommissionRates E cdata (at_baker s (baker_message hdr bm body) c))
    (\<lambda>_ t. kept (baker_flow E log) s (t\<lparr> async_reply := True \<rparr>)) (refused s)"
proof -
  let ?w = "bitmap_of bm" and ?m = "baker_message hdr bm body"
  have tr: "baker_trace E ?w Rates body screens" and fl: "baker_flags ?w c" and hs: "header_shown E hdr s" "length bm = 2"
    using a by (simp_all add: baker_at_def)
  have len: "length (bk_transactionFeeCommissionRate (bk_commissionRates c)) = 8"
    "length (bk_bakingRewardCommissionRate (bk_commissionRates c)) = 8"
    "length (bk_finalizationRewardCommissionRate (bk_commissionRates c)) = 8"
    using wf(2) by (simp_all add: wf_baker_def cbuf_def)
  show ?thesis
    unfolding handleCommissionRates_def wp_bind at_baker_simps
  proof (rule wp_mono [OF commission_rate_wp [where get_text = bk_transactionFeeCommissionRate, OF E wf len(1)]], goal_cases)
    case (3 cur u)
    then obtain tf r1 d1 where c1: "cur = (r1, length r1)" "rate_field (bk_hasTransactionFeeCommission c) tf"
      "wf_baker (c\<lparr> bk_commissionRates := (bk_commissionRates c)\<lparr> bk_transactionFeeCommissionRate := d1 \<rparr> \<rparr>)"
      "u = at_baker s (?m @ tf) (c\<lparr> bk_commissionRates := (bk_commissionRates c)\<lparr> bk_transactionFeeCommissionRate := d1 \<rparr> \<rparr>)"
      "bk_hasTransactionFeeCommission c \<longrightarrow> cstr d1 = fpu_text (be_nat tf) 3 @ [37]" by blast
    let ?c1 = "c\<lparr> bk_commissionRates := (bk_commissionRates c)\<lparr> bk_transactionFeeCommissionRate := d1 \<rparr> \<rparr>"
    have len1: "length (bk_bakingRewardCommissionRate (bk_commissionRates ?c1)) = 8" using len by simp
    show ?case
      unfolding c1(1,4) at_baker_simps
    proof (rule wp_mono [OF commission_rate_wp [where get_text = bk_bakingRewardCommissionRate, OF E wf(1) c1(3) len1]], goal_cases)
      case (3 cur u)
      then obtain br r2 d2 where c2: "cur = (r2, length r2)" "rate_field (bk_hasBakingRewardCommission c) br"
        "wf_baker (?c1\<lparr> bk_commissionRates := (bk_commissionRates ?c1)\<lparr> bk_bakingRewardCommissionRate := d2 \<rparr> \<rparr>)"
        "u = at_baker s ((?m @ tf) @ br) (?c1\<lparr> bk_commissionRates := (bk_commissionRates ?c1)\<lparr> bk_bakingRewardCommissionRate := d2 \<rparr> \<rparr>)"
        "bk_hasBakingRewardCommission c \<longrightarrow> cstr d2 = fpu_text (be_nat br) 3 @ [37]" by auto
      let ?c2 = "?c1\<lparr> bk_commissionRates := (bk_commissionRates ?c1)\<lparr> bk_bakingRewardCommissionRate := d2 \<rparr> \<rparr>"
      have len2: "length (bk_finalizationRewardCommissionRate (bk_commissionRates ?c2)) = 8" using len by simp
      show ?case
        unfolding c2(1,4) at_baker_simps
      proof (rule wp_mono [OF commission_rate_wp [where get_text = bk_finalizationRewardCommissionRate, OF E wf(1) c2(3) len2]], goal_cases)
        case (3 cur u)
        then obtain fr r3 d3 where c3: "cur = (r3, length r3)" "rate_field (bk_hasFinalizationRewardCommission c) fr"
          "wf_baker (?c2\<lparr> bk_commissionRates := (bk_commissionRates ?c2)\<lparr> bk_finalizationRewardCommissionRate := d3 \<rparr> \<rparr>)"
          "u = at_baker s (((?m @ tf) @ br) @ fr) (?c2\<lparr> bk_commissionRates := (bk_commissionRates ?c2)\<lparr> bk_finalizationRewardCommissionRate := d3 \<rparr> \<rparr>)"
          "bk_hasFinalizationRewardCommission c \<longrightarrow> cstr d3 = fpu_text (be_nat fr) 3 @ [37]" by auto
        let ?c3 = "?c2\<lparr> bk_commissionRates := (bk_commissionRates ?c2)\<lparr> bk_finalizationRewardCommissionRate := d3 \<rparr> \<rparr>"
        have rf: "rate_field (bit ?w 5) tf" "rate_field (bit ?w 6) br" "rate_field (bit ?w 7) fr"
          using c1(2) c2(2) c3(2) fl by (simp_all add: baker_flags_def)
        have "baker_trace E ?w (rates_then ?w) (body @ tf @ br @ fr) (screens @ [rate_rows tf br fr])"
          using tr rf by (rule baker_trace.rates)
        moreover have fl3: "baker_flags ?w ?c3" using fl by simp
        ultimately have a3: "baker_at E s hdr bm (body @ tf @ br @ fr) (screens @ [rate_rows tf br fr]) (rates_then ?w) ?c3"
          using hs by (simp add: baker_at_def rates_then_def)
        note pr = present_rate [OF c1(2)] present_rate [OF c2(2)] present_rate [OF c3(2)]
        have has: "hasCommissionRate ?c3"
          using trace_Rates [OF tr refl] fl by (simp add: hasCommissionRate_def baker_flags_def)
        have m: "((?m @ tf) @ br) @ fr = baker_message hdr bm (body @ tf @ br @ fr)" by (simp add: baker_message_def)
        have nxt: "(if bk_hasSuspended c then CONFIGURE_BAKER_SUSPENDED else CONFIGURE_BAKER_END) = stage_state (rates_then ?w)"
          using fl by (simp add: baker_flags_def rates_then_def)
        have dr: "wp (startConfigureBakerCommissionDisplay (awaitConfigureBakerConfirm (stage_state (rates_then ?w))
            (at_baker s (baker_message hdr bm (body @ tf @ br @ fr)) ?c3)))
          (\<lambda>_ t. kept (baker_flow E log) s (t\<lparr> async_reply := True \<rparr>)) (refused s)"
          by (rule rates_drawn [OF a3 wf(1) c3(3) _ log has]) (use fd pr c1(5) c2(5) c3(5) in simp_all)
        show ?case
          unfolding c3(1,4) at_baker_simps m prod.case
          using dr nxt wf(1) by (auto split: if_splits)
      qed (use c2(3) in \<open>simp_all add: wf_baker_def\<close>)
    qed (use c1(3) in \<open>simp_all add: wf_baker_def\<close>)
  qed (use wf(2) in \<open>simp_all add: wf_baker_def\<close>)
qed

subsection \<open>Suspension\<close>

lemma baker_suspended:
  assumes wf: "wf_app s" "wf_baker c"
    and a: "baker_at E s hdr bm body screens Suspended c" and fd: "bk_firstDisplay c = (screens = [])"
    and log: "log = led_by (baker_lead E s hdr) screens"
  shows "wp (baker_suspended_packet E cdata (at_baker s (baker_message hdr bm body) c))
    (\<lambda>_ t. kept (baker_flow E log) s t) (refused s)"
proof (cases "\<exists>b. cdata = [b] \<and> (b = 0 \<or> b = 1)")
  case True
  then obtain b where b: "cdata = [b]" "b = 0 \<or> b = 1" by blast
  let ?w = "bitmap_of bm"
  have tr: "baker_trace E ?w Suspended body screens" and fl: "baker_flags ?w c" and hs: "header_shown E hdr s" "length bm = 2"
    using a by (simp_all add: baker_at_def)
  have dr: "wp (startConfigureBakerSuspendedDisplay (awaitConfigureBakerConfirm CONFIGURE_BAKER_END
      (at_baker s (baker_message hdr bm body @ [b]) (c\<lparr> bk_suspended := d \<rparr>))))
      (\<lambda>_ t. kept (baker_flow E log) s (t\<lparr> async_reply := True \<rparr>)) (refused s)"
    if d: "cbuf 18 d" "cstr d = status_text [b]" for d
  proof -
    let ?c = "c\<lparr> bk_suspended := d \<rparr>"
    let ?c' = "?c\<lparr> bk_state := CONFIGURE_BAKER_AWAITING_CONFIRM, bk_pendingState := CONFIGURE_BAKER_END \<rparr>"
    let ?u = "at_baker s (baker_message hdr bm (body @ [b])) ?c'"
    have "baker_trace E ?w Done (body @ [b]) (screens @ [[(ascii ''Validator status'', status_text [b])]])"
      using tr b(2) by (intro baker_trace.suspended) auto
    then have a': "baker_at E s hdr bm (body @ [b]) (screens @ [[(ascii ''Validator status'', status_text [b])]]) Done ?c'"
      using fl hs by (simp add: baker_at_def)
    have bufs: "drawable [(lit ''Validator status'', d)]" "shown_rows [(lit ''Validator status'', d)] = [(ascii ''Validator status'', status_text [b])]"
      using d by (simp_all add: cbuf_def)
    have "wp (baker_review False (baker_header ?u @ [(lit ''Validator status'', d)]) (set_baker (\<lambda>c. c\<lparr> bk_firstDisplay := False \<rparr>) ?u))
        (\<lambda>_ t. kept (baker_flow E log) s (t\<lparr> async_reply := True \<rparr>)) (refused s)"
      by (rule draw_stage [OF a' wf(1) _ _ _ _ log bufs _ _ refl]) (use wf(2) d fd in \<open>simp_all add: wf_baker_def\<close>)
    then show ?thesis
      by (simp add: awaitConfigureBakerConfirm_def startConfigureBakerSuspendedDisplay_def Let_def baker_message_def)
  qed
  have l: "length (bk_suspended c) = 18" using wf(2) by (simp add: wf_baker_def cbuf_def)
  have tx: "put (bk_suspended c) 0 (lit ''Resume validator'') = Ok (ascii ''Resume validator'' @ 0 # drop 17 (bk_suspended c))"
    "put (bk_suspended c) 0 (lit ''Suspend validator'') = Ok (ascii ''Suspend validator'' @ [0])"
    using l by (simp_all add: put_Ok lit_def eval_nat_numeral)
  show ?thesis
    using b wf(1) l dr [of "ascii ''Resume validator'' @ 0 # drop 17 (bk_suspended c)"] dr [of "ascii ''Suspend validator'' @ [0]"]
    by (auto simp: baker_suspended_packet_def byte_at_def Let_def tx status_text_def simp del: rwp_put)
next
  case False
  then show ?thesis
    using wf(1) by (cases cdata) (auto simp: baker_suspended_packet_def byte_at_def Let_def simp del: rwp_put)
qed

subsection \<open>The packets of the flow\<close>

lemma baker_open:
  assumes E: "platform E" and wf: "wf_app s" "\<not> awaiting s" and len: "length cdata < 256"
    and st: "bk_state (baker s) = CONFIGURE_BAKER_INITIAL"
  shows "wp (baker_open_packet E cdata s) (\<lambda>_ t. kept (baker_flow E []) s t) (refused s)"
  unfolding baker_open_packet_def wp_bind
proof (rule wp_mono [OF open_account_wp [OF E wf(1) len]], goal_cases)
  case (1 a t)
  obtain rest n where a: "a = (rest, n)" by (cases a)
  from 1 a obtain ns hdr where n: "n = length rest" and h: "header_done E ns hdr (hdr @ [CONFIGURE_BAKER]) s t"
    by auto
  note hd = header_doneD [OF h]
  have ss: "kept f t = kept f s" "refused t = refused s" for f using same_start [of t s] hd by simp_all
  have aw: "\<not> awaiting t" using wf(2) hd by (simp add: awaiting_def)
  define c where "c = (baker t)\<lparr> bk_firstDisplay := True \<rparr>"
  have wc: "wf_baker c" and stc: "bk_state c = CONFIGURE_BAKER_INITIAL"
    using wf_baker_app [OF hd(5)] st hd(6) by (simp_all add: c_def)
  have t: "set_baker (\<lambda>c. c\<lparr> bk_firstDisplay := True \<rparr>) t = at_baker t (hdr @ [CONFIGURE_BAKER]) c"
    by (subst (1) at_baker_self [OF hd(4), symmetric]) (simp add: c_def)
  show ?case
  proof (cases "2 \<le> length rest")
    case True
    let ?bm = "take 2 rest"
    define w where "w = (of_nat (be_nat ?bm) :: u16)"
    have U: "U2BE rest 0 = Ok w" using True by (simp add: U2BE_def slice_Ok w_def)
    define k where "k = announce w c"
    have k: "wf_baker k" "baker_flags w k" "bk_firstDisplay k" "bk_state k = CONFIGURE_BAKER_INITIAL"
      using wc stc by (auto simp: k_def announce_def wf_baker_def baker_flags_def cbuf_def c_def)
    let ?m = "baker_message hdr ?bm []"
    have m: "(hdr @ [CONFIGURE_BAKER]) @ ?bm = ?m" by (simp add: baker_message_def)
    have fin: "wp (send_success_no_idle (at_baker t ?m (k'\<lparr> bk_state := first_state k' \<rparr>)))
        (\<lambda>_ v. kept (baker_flow E []) s v) (refused s)"
      if k': "wf_baker k'" "baker_flags w k'" "bk_firstDisplay k'" "bk_state k' = CONFIGURE_BAKER_INITIAL"
        "bk_hasKeys k' \<longrightarrow> bk_keysHashCtx k' = Some []" for k'
    proof (cases "first_stage w = Done")
      case True
      then have no: "\<not> bit w 0" "\<not> bit w 1" "\<not> bit w 2" "\<not> bit w 3" "\<not> bit w 4" "\<not> bit w 5" "\<not> bit w 6" "\<not> bit w 7" "\<not> bit w 8"
        by (auto simp: first_stage_def batch_then_def url_then_def rates_then_def split: if_splits)
      let ?t = "(at_baker t ?m k')\<lparr> replies := replies t @ [([], SWO_SUCCESS)] \<rparr>"
      have id: "k'\<lparr> bk_state := CONFIGURE_BAKER_INITIAL \<rparr> = k'" using k'(4) by (cases k') simp
      have na: "\<not> awaiting ?t" using aw by (simp add: awaiting_def)
      then have "baker_flow E [] ?t" unfolding baker_flow_def if_not_P [OF na] using k'(4) by simp
      moreover note na
      ultimately have "kept (baker_flow E []) t ?t" using hd(5) k'(1) by (intro kept_reply) simp_all
      then show ?thesis using no k'(2,4) by (simp add: first_state_def baker_flags_def hasCommissionRate_def id ss)
    next
      case False
      have s: "first_state k' = stage_state (first_stage w)"
        using False k'(2) by (cases "bit w 0 \<or> bit w 1 \<or> bit w 2 \<or> bit w 3"; cases "bit w 4";
            cases "bit w 5 \<or> bit w 6 \<or> bit w 7"; cases "bit w 8")
          (simp_all add: first_state_def baker_flags_def hasCommissionRate_def first_stage_def batch_then_def
            url_then_def rates_then_def)
      have keep: "stage_kept k' (first_stage w)"
        using k'(2,5) by (simp add: first_stage_def batch_then_def url_then_def rates_then_def)
      have "baker_trace E w (first_stage w) [] []" using False by (rule baker_trace.bitmap)
      then have "baker_at E t hdr ?bm [] [] (first_stage w) (k'\<lparr> bk_state := first_state k' \<rparr>)"
        using hd(3) True k'(2) keep by (simp add: baker_at_def flip: w_def)
      from send_stage [OF this False hd(5) _ aw] k' s show ?thesis by (simp add: led_by_def ss)
    qed
    have r: "refused s e (at_baker t m' c')" if "status_word e" for e m' c'
      using refused_at_baker [OF hd(5) that] ss(2) by simp
    have fs: "first_state (k\<lparr> bk_keysHashCtx := h \<rparr>) = first_state k" for h
      by (simp add: first_state_def hasCommissionRate_def)
    have keys: ?thesis if "bk_hasKeys k"
      unfolding a prod.case t Let_def n
      using True fin [of "k\<lparr> bk_keysHashCtx := Some [] \<rparr>"] k that r by (simp add: U fs baker_message_def flip: k_def)
    have nokeys: ?thesis if "\<not> bk_hasKeys k"
      unfolding a prod.case t Let_def n
      using True fin [of k] k that r by (simp add: U fs baker_message_def flip: k_def)
    show ?thesis using keys nokeys by blast
  next
    case False
    have "refused s e (at_baker t m' c')" if "status_word e" for e m' c'
      using refused_at_baker [OF hd(5) that] ss(2) by simp
    then show ?thesis using False by (simp add: a n t)
  qed
qed simp

lemma baker_handle:
  assumes E: "platform E" and wf: "wf_app s" "\<not> awaiting s" and len: "length (cmd_data c) < 256"
    and inv: "if initial then global s = wiped \<and> log = [] else baker_flow E log s"
  shows "wp (handle_sign_configure_baker E c initial s) (\<lambda>_ t. kept (baker_flow E log) s t) (refused s)"
proof -
  define u where "u = (if initial then set_baker (\<lambda>c. c\<lparr> bk_state := CONFIGURE_BAKER_INITIAL \<rparr>) s else s)"
  have u: "wf_app u" "\<not> awaiting u" "replies u = replies s" "screen u = screen s" "currentInstruction u = currentInstruction s"
    using wf by (simp_all add: u_def set_baker_def wf_app_def wf_context_def awaiting_def)
  note ss = same_start [OF u(3-5)]
  note wc = wf_baker_app [OF u(1)]
  have start: "bk_state (baker u) = CONFIGURE_BAKER_INITIAL \<and> log = [] \<or> bk_state (baker u) = CONFIGURE_BAKER_ZERO \<or> baker_ready E log u"
    using inv wf(2) by (cases initial) (auto simp: u_def set_baker_def baker_flow_def)
  have h: "handle_sign_configure_baker E c initial s = handle_sign_configure_baker E c False u"
    by (simp add: handle_sign_configure_baker_def u_def)
  note hu = handle_sign_configure_baker_def [of E c False u, unfolded Let_def if_False]
  have nomatch: "wp (handle_sign_configure_baker E c False u) Q (refused s)" if "bk_state (baker u) = CONFIGURE_BAKER_ZERO" for Q
    using that refused_self(1) [OF u(1)] by (simp add: hu flip: ss(2))
  show ?thesis
  proof (cases "bk_state (baker u) = CONFIGURE_BAKER_INITIAL \<and> log = []")
    case True
    then show ?thesis
      unfolding h hu
      using baker_open [OF E u(1,2) len] refused_self(1) [OF u(1)] by (simp add: ss)
  next
    case False
    show ?thesis
    proof (cases "baker_ready E log u")
      case True
      then obtain hdr bm body screens st where
        a: "baker_at E u hdr bm body screens st (baker u)" and m: "tx_hash u = Some (baker_message hdr bm body)"
        and log: "log = led_by (baker_lead E u hdr) screens" and fd: "bk_firstDisplay (baker u) = (screens = [])"
        and st: "bk_state (baker u) = stage_state st" "st \<noteq> Done"
        unfolding baker_ready_def by blast
      have tr: "baker_trace E (bitmap_of bm) st body screens" using a by (simp add: baker_at_def)
      have at: "at_baker u (baker_message hdr bm body) (baker u) = u" by (rule at_baker_self [OF m])
      note r = refused_self(1) [OF u(1), unfolded ss(2)]
      show ?thesis
      proof (cases st)
        case Batch
        note b0 = trace_Batch [OF tr [unfolded Batch]]
        then have l: "log = []" using log by (simp add: led_by_def)
        from baker_batch [OF E u(1) wc u(2) a [unfolded Batch], of "cmd_data c", unfolded at ss] fd b0 st(1) r l
        show ?thesis unfolding h hu by (simp add: Batch)
      next
        case (Aggregation cap res pool ks)
        note b0 = trace_Aggregation [OF tr [unfolded Aggregation]]
        then have l: "log = []" using log by (simp add: led_by_def)
        from baker_aggregation [OF E u(1) wc u(2) a [unfolded Aggregation], of "cmd_data c", unfolded at ss] fd b0 st(1) r l
        show ?thesis unfolding h hu by (simp add: Aggregation)
      next
        case UrlLength
        from baker_url_length [OF u(1) wc u(2) a [unfolded UrlLength] fd log, of "cmd_data c", unfolded at ss] st(1) r
        show ?thesis unfolding h hu by (simp add: UrlLength)
      next
        case (Url n)
        from baker_url [OF u(1) wc u(2) len a [unfolded Url] fd log, unfolded at ss] st(1) r
        show ?thesis unfolding h hu by (simp add: Url)
      next
        case Rates
        from baker_rates [OF E u(1) wc a [unfolded Rates] fd log, of "cmd_data c", unfolded at ss] st(1) r
        show ?thesis unfolding h hu by (simp add: Rates)
      next
        case Suspended
        from baker_suspended [OF u(1) wc a [unfolded Suspended] fd log, of "cmd_data c", unfolded at ss] st(1) r
        show ?thesis unfolding h hu by (simp add: Suspended)
      qed (use st(2) in simp)
    next
      case no: False
      then have "bk_state (baker u) = CONFIGURE_BAKER_ZERO" using start False by blast
      then show ?thesis unfolding h by (rule nomatch)
    qed
  qed
qed

text \<open>The two callbacks: a parked stage is released to the stage it remembers, or its review was the last and
  signs.\<close>

lemma baker_stage_choice:
  assumes "wf_app s" "\<not> awaiting s" "baker_parked E log (s\<lparr> screen := Some rv \<rparr>)"
    "rv_callback rv = confirmConfigureBakerStageCallback"
  shows "wp (choose_baker_stage confirm s) (\<lambda>_ t. decided confirm (baker_flow E (log @ [rv_pairs rv])) s t) (\<lambda>_ _. False)"
proof (cases confirm)
  case True
  let ?t = "(set_baker (\<lambda>c. c\<lparr> bk_state := bk_pendingState c \<rparr>) s)\<lparr> replies := replies s @ [([], SWO_SUCCESS)] \<rparr>"
  from assms(3,4) obtain hdr bm body screens st where p: "baker_at E s hdr bm body screens st (baker s)"
    "tx_hash s = Some (baker_message hdr bm body)" "log @ [rv_pairs rv] = led_by (baker_lead E s hdr) screens"
    "\<not> bk_firstDisplay (baker s)" "bk_pendingState (baker s) = stage_state st" "st \<noteq> Done"
    unfolding baker_parked_def by (auto simp: baker_at_def baker_lead_def header_shown_def split: if_splits)
  have at: "at_baker s (baker_message hdr bm body) (baker s) = s" by (rule at_baker_self [OF p(2)])
  have t: "?t = (at_baker s (baker_message hdr bm body) ((baker s)\<lparr> bk_state := stage_state st \<rparr>))\<lparr> replies := replies s @ [([], SWO_SUCCESS)] \<rparr>"
    by (subst (1) at [symmetric]) (simp add: p(5))
  have "screens \<noteq> []" using p(3) by (auto simp: led_by_def)
  then have "baker_ready E (log @ [rv_pairs rv]) ?t"
    unfolding t baker_ready_def using p
    by (intro exI [of _ hdr] exI [of _ bm] exI [of _ body] exI [of _ screens] exI [of _ st]) simp
  moreover have na: "\<not> awaiting ?t" using assms(2) by (simp add: t awaiting_def)
  ultimately have "kept (baker_flow E (log @ [rv_pairs rv])) s ?t"
    using wf_baker_app [OF assms(1)] assms(1) by (intro kept_reply) (simp_all add: t baker_flow_def)
  then have "wp (confirmConfigureBakerStage s) (\<lambda>_ t. decided True (baker_flow E (log @ [rv_pairs rv])) s t) (\<lambda>_ _. False)"
    using kept_decided by (simp add: confirmConfigureBakerStage_def set_baker_def)
  then show ?thesis
    unfolding choose_baker_stage_def using True by (auto intro!: wp_ux_run_guarded elim!: wp_mono)
next
  case False
  then show ?thesis
    using rejection_decided [of "s\<lparr> currentInstruction := INSTRUCTION_NONE \<rparr>"] assms(1,2)
    by (simp add: choose_baker_stage_def rejectStagedReview_def decided_defs awaiting_def claimed_def)
qed

lemma baker_choice:
  assumes "platform E" "wf_app s" "\<not> awaiting s" "awaiting (s\<lparr> screen := Some rv \<rparr>)" "baker_flow E log (s\<lparr> screen := Some rv \<rparr>)"
  shows "rv_callback rv \<in> {review_choice_sign, confirmConfigureBakerStageCallback}"
    "rv_callback rv = review_choice_sign \<Longrightarrow>
      wp (choose_sign E confirm s) (\<lambda>_ t. decided confirm (baker_flow E (log @ [rv_pairs rv])) s t) (\<lambda>_ _. False)"
    "rv_callback rv = confirmConfigureBakerStageCallback \<Longrightarrow>
      wp (choose_baker_stage confirm s) (\<lambda>_ t. decided confirm (baker_flow E (log @ [rv_pairs rv])) s t) (\<lambda>_ _. False)"
proof -
  have p: "baker_parked E log (s\<lparr> screen := Some rv \<rparr>)" using assms(4,5) by (simp add: baker_flow_def)
  then obtain hdr bm body where m: "tx_hash s = Some (baker_message hdr bm body)"
    and cb: "rv_callback rv \<in> {review_choice_sign, confirmConfigureBakerStageCallback}"
    unfolding baker_parked_def by (auto split: if_splits)
  show "rv_callback rv \<in> {review_choice_sign, confirmConfigureBakerStageCallback}" by (rule cb)
  show "wp (choose_baker_stage confirm s) (\<lambda>_ t. decided confirm (baker_flow E (log @ [rv_pairs rv])) s t) (\<lambda>_ _. False)"
    if "rv_callback rv = confirmConfigureBakerStageCallback"
    by (rule baker_stage_choice [OF assms(2,3) p that])
  show "wp (choose_sign E confirm s) (\<lambda>_ t. decided confirm (baker_flow E (log @ [rv_pairs rv])) s t) (\<lambda>_ _. False)"
    by (rule wp_mono [OF choose_sign_wp [OF assms(1,2) m assms(3)]]) (simp_all add: decided_def settled_def)
qed

text \<open>What the flow does not depend on, and how it starts.\<close>

lemma baker_flow_frame:
  assumes "baker_flow E log s" "\<not> awaiting s"
  shows "baker_flow E log (s\<lparr> screen := None, status_page := b \<rparr>)" "baker_flow E log (s\<lparr> replies := r \<rparr>)"
proof -
  have na: "\<not> awaiting (s\<lparr> screen := None, status_page := b \<rparr>)" "\<not> awaiting (s\<lparr> replies := r \<rparr>)"
    using assms(2) by (simp_all add: awaiting_def)
  note d = assms(1) [unfolded baker_flow_def if_not_P [OF assms(2)]]
  show "baker_flow E log (s\<lparr> screen := None, status_page := b \<rparr>)"
    unfolding baker_flow_def if_not_P [OF na(1)] using d by (simp add: baker_ready_def)
  show "baker_flow E log (s\<lparr> replies := r \<rparr>)"
    unfolding baker_flow_def if_not_P [OF na(2)] using d by (simp add: baker_ready_def)
qed

lemma baker_flow_fresh: "global s = wiped \<Longrightarrow> \<not> awaiting s \<Longrightarrow> baker_flow E [] s"
  by (simp add: baker_flow_def wiped_def wiped_baker_def)

end
