(* ===== verification/Parts.thy ===== *)
theory Parts
  imports Payload
begin

text \<open>
  One member of the union of contexts.

  A handler works on the running transaction hash and on the member of its instruction, and on nothing
  else until it answers or draws.  \<open>at_part store s m c\<close> is the state s with the hash m and the
  member c; the locale \<open>context_part\<close> states what makes a pair of functions a member, and proves once how the
  operations of the handlers act on such states.
\<close>

definition change_part :: "(instructionContext \<Rightarrow> 'c) \<Rightarrow> ('c \<Rightarrow> instructionContext \<Rightarrow> instructionContext) \<Rightarrow>
    ('c \<Rightarrow> 'c) \<Rightarrow> app \<Rightarrow> app" where
  "change_part get store f s = s\<lparr> global := store (f (get (global s))) (global s) \<rparr>"

definition at_part :: "('c \<Rightarrow> instructionContext \<Rightarrow> instructionContext) \<Rightarrow> app \<Rightarrow> bytes \<Rightarrow> 'c \<Rightarrow> app" where
  "at_part store s m c = s\<lparr> tx_hash := Some m, global := store c (global s) \<rparr>"

lemma at_part_frame [simp]:
  "tx_hash (at_part store s m c) = Some m" "replies (at_part store s m c) = replies s"
  "screen (at_part store s m c) = screen s" "currentInstruction (at_part store s m c) = currentInstruction s"
  "global_derivation_path (at_part store s m c) = global_derivation_path s"
  "global_account_sender (at_part store s m c) = global_account_sender s"
  "header_shown E hdr (at_part store s m c) = header_shown E hdr s" "awaiting (at_part store s m c) = awaiting s"
  "(at_part store s m c)\<lparr> tx_hash := Some m' \<rparr> = at_part store s m' c"
  by (simp_all add: at_part_def awaiting_def)

lemma wp_hash_part [simp]:
  "wp (hash_data E cdata off n (at_part store s m c)) Q X \<longleftrightarrow> off + n \<le> length cdata \<and>
    (if sdk_hash_update E m (take n (drop off cdata)) then Q () (at_part store s (m @ take n (drop off cdata)) c)
     else X ERROR_FAILED_CX_OPERATION (at_part store s m c))"
  by (simp add: hash_data_def)

lemma refused_at_part [simp]: "wf_app s \<Longrightarrow> status_word e \<Longrightarrow> refused s e (at_part store s m c)"
  by (simp add: at_part_def refused_def wf_app_def)

locale context_part =
  fixes get :: "instructionContext \<Rightarrow> 'c" and store :: "'c \<Rightarrow> instructionContext \<Rightarrow> instructionContext"
    and wf_part :: "'c \<Rightarrow> bool"
  assumes get_store: "get (store c g) = c"
    and store_get: "store (get g) g = g"
    and store_store: "store c (store c' g) = store c g"
    and wf_get: "wf_context g \<Longrightarrow> wf_part (get g)"
    and wf_store: "wf_context g \<Longrightarrow> wf_part c \<Longrightarrow> wf_context (store c g)"
begin

lemma self: "tx_hash s = Some m \<Longrightarrow> at_part store s m (get (global s)) = s"
  by (cases s) (simp add: at_part_def store_get)

lemma started: "at_part store s m (get (global s)) = s\<lparr> tx_hash := Some m \<rparr>"
  by (cases s) (simp add: at_part_def store_get)

lemma got [simp]: "get (global (at_part store s m c)) = c"
  by (simp add: at_part_def get_store)

lemma changed [simp]: "change_part get store f (at_part store s m c) = at_part store s m (f c)"
  by (simp add: at_part_def change_part_def get_store store_store)

lemma wf_at [simp]: "wf_app s \<Longrightarrow> wf_part c \<Longrightarrow> wf_app (at_part store s m c)"
  by (simp add: at_part_def wf_app_def wf_store)

lemma wf_member: "wf_app s \<Longrightarrow> wf_part (get (global s))"
  by (simp add: wf_app_def wf_get)

end

text \<open>A light review is drawn over a state, and the packet waits for the user.\<close>

lemma continue_review_wp:
  assumes "drawable rows" "length rows \<le> 10" "0 \<in> set title" "0 \<in> set fin" "shown_rows rows = shown"
  shows "wp (nbgl_useCaseReviewLight ty rows title subtitle fin cb s)
    (\<lambda>_ t. (\<exists>rv. screen t = Some rv \<and> rv_pairs rv = shown \<and> rv_callback rv = cb) \<and>
      t = s\<lparr> screen := screen t, status_page := False \<rparr>) X"
  using assms by (simp add: use_case_defs)

text \<open>A key of 32 bytes on its four lines fills the buffers that are meant for it.\<close>

lemma paginated_key:
  assumes "length key = 32" "length dst = 68"
  shows "to_paginated_hex key dst = Ok (hex_pages key @ [0])" "length (hex_pages key) = 67"
proof -
  have n: "key \<noteq> []" using assms(1) by auto
  then show l: "length (hex_pages key) = 67"
    using assms(1) length_hex_from [of key 0] by (simp add: hex_from_pages)
  show "to_paginated_hex key dst = Ok (hex_pages key @ [0])"
    using assms n l to_paginated_hex_Ok [of key dst] by fastforce
qed

end
