(* ===== verification/PublicInfo.thy ===== *)
theory PublicInfo
  imports Parts
begin

text \<open>
  The information for an identity provider: src/src/handler/sign_public_information_for_ip.c.

  The first packet brings two group elements and the number of keys; each key but the last is reviewed when it
  arrives, the first together with the elements; the threshold brings the last key and itself on
  the signing screen.
\<close>

subsection \<open>Operations\<close>

abbreviation info :: "app \<Rightarrow> signPublicInformationForIp" where
  "info s \<equiv> signPublicInformationForIp (global s)"

abbreviation put_info :: "signPublicInformationForIp \<Rightarrow> instructionContext \<Rightarrow> instructionContext" where
  "put_info c \<equiv> signPublicInformationForIp_update (\<lambda>_. c)"

abbreviation set_info :: "(signPublicInformationForIp \<Rightarrow> signPublicInformationForIp) \<Rightarrow> app \<Rightarrow> app" where
  "set_info \<equiv> change_part signPublicInformationForIp put_info"

interpretation info: context_part signPublicInformationForIp put_info wf_public_info
  by unfold_locales (auto simp: wf_context_def)

text \<open>\<open>format_hex\<close> of n bytes, and the byte 0 the code writes after the text.\<close>

definition hex_field :: "sdk \<Rightarrow> bytes \<Rightarrow> nat \<Rightarrow> bytes \<Rightarrow> bytes result" where
  "hex_field E cdata n dst =
     rbind (slice cdata 0 n) (\<lambda>x. rbind (hex_into E SWO_INCORRECT_DATA x dst) (\<lambda>d. put d (2 * n) [0]))"

definition info_open_packet :: "sdk \<Rightarrow> bytes \<Rightarrow> app \<Rightarrow> unit act" where
  "info_open_packet E cdata s =
     bind (parse_path cdata s) (\<lambda>offset s.
     let remainingDataLength = sub8 (length cdata) offset; cdata = drop offset cdata in
     bind (init_tx_hash E s) (\<lambda>_ s.
     if remainingDataLength < 48 then Throw SWO_INCORRECT_DATA s
     else
       call (hex_field E cdata 48 (pi_idCredPub (info s))) s (\<lambda>d.
       let s = set_info (\<lambda>c. c\<lparr> pi_idCredPub := d \<rparr>) s in
       bind (hash_data E cdata 0 48 s) (\<lambda>_ s.
       let cdata = drop 48 cdata; remainingDataLength = sub8 remainingDataLength 48 in
       if remainingDataLength < 48 then Throw SWO_INCORRECT_DATA s
       else
         call (hex_field E cdata 48 (pi_credId (info s))) s (\<lambda>d.
         let s = set_info (\<lambda>c. c\<lparr> pi_credId := d \<rparr>) s in
         bind (hash_data E cdata 0 48 s) (\<lambda>_ s.
         let cdata = drop 48 cdata; remainingDataLength = sub8 remainingDataLength 48 in
         if remainingDataLength < 1 then Throw SWO_INCORRECT_DATA s
         else
           call (byte_at cdata 0) s (\<lambda>n.
           let s = set_info (\<lambda>c. c\<lparr> pi_publicKeysLength := unat n \<rparr>) s in
           bind (hash_data E cdata 0 1 s) (\<lambda>_ s.
           send_success_no_idle (set_info (\<lambda>c. c\<lparr> pi_showIntro := True,
             pi_state := TX_PUBLIC_INFO_FOR_IP_VERIFICATION_KEY \<rparr>) s)))))))))"

definition info_key_packet :: "sdk \<Rightarrow> bytes \<Rightarrow> app \<Rightarrow> unit act" where
  "info_key_packet E cdata s =
     (if pi_publicKeysLength (info s) = 0 then Throw ERROR_INVALID_STATE s
      else if length cdata < 1 then Throw SWO_INCORRECT_DATA s
      else
        call (hex_field E cdata 1 (pi_keyType (info s))) s (\<lambda>d.
        let s = set_info (\<lambda>c. c\<lparr> pi_keyType := d \<rparr>) s in
        bind (hash_data E cdata 0 1 s) (\<lambda>_ s.
        let remainingDataLength = sub8 (length cdata) 1; cdata = drop 1 cdata in
        if remainingDataLength < 1 then Throw SWO_INCORRECT_DATA s
        else
          bind (hash_data E cdata 0 1 s) (\<lambda>_ s.
          let remainingDataLength = sub8 remainingDataLength 1; cdata = drop 1 cdata in
          if remainingDataLength < 32 then Throw SWO_INCORRECT_DATA s
          else
            call (slice cdata 0 32) s (\<lambda>publicKey.
            bind (update_hash E publicKey s) (\<lambda>_ s.
            call (to_paginated_hex publicKey (pi_publicKey (info s))) s (\<lambda>d.
            let s = set_info (\<lambda>c. c\<lparr> pi_publicKey := d, pi_publicKeysLength := pi_publicKeysLength c - 1 \<rparr>) s in
            if 0 < pi_publicKeysLength (info s) then
              bind (if pi_showIntro (info s)
                    then uiReviewPublicInformationForIpDisplay (set_info (\<lambda>c. c\<lparr> pi_showIntro := False \<rparr>) s)
                    else uiSignPublicInformationForIpPublicKeyDisplay s) (\<lambda>_ s.
              request_async_reply s)
            else send_success_no_idle (set_info (\<lambda>c. c\<lparr> pi_state := TX_PUBLIC_INFO_FOR_IP_THRESHOLD \<rparr>) s))))))))"

definition info_threshold_packet :: "sdk \<Rightarrow> bytes \<Rightarrow> app \<Rightarrow> unit act" where
  "info_threshold_packet E cdata s =
     (if length cdata < 1 then Throw SWO_INCORRECT_DATA s
      else
        bind (hash_data E cdata 0 1 s) (\<lambda>_ s.
        call (byte_at cdata 0) s (\<lambda>threshold.
        call (bin_to_dec E (pi_threshold (info s)) (ucast threshold)) s (\<lambda>(d, _).
        let s = set_info (\<lambda>c. c\<lparr> pi_threshold := d \<rparr>) s in
        bind (if pi_showIntro (info s) then uiSignPublicInformationForIpCompleteDisplay s
              else uiSignPublicInformationForIpFinalDisplay s) (\<lambda>_ s.
        request_async_reply s)))))"

definition handle_sign_public_information_for_ip :: "sdk \<Rightarrow> command \<Rightarrow> bool \<Rightarrow> app \<Rightarrow> unit act" where
  "handle_sign_public_information_for_ip E cmd isInitialCall s =
     (let cdata = cmd_data cmd; p1 = cmd_p1 cmd;
          s = (if isInitialCall then set_info (\<lambda>c. c\<lparr> pi_state := TX_PUBLIC_INFO_FOR_IP_INITIAL \<rparr>) s else s);
          state = pi_state (info s) in
      if p1 = 0 \<and> state = TX_PUBLIC_INFO_FOR_IP_INITIAL then info_open_packet E cdata s
      else if p1 = 1 \<and> state = TX_PUBLIC_INFO_FOR_IP_VERIFICATION_KEY then info_key_packet E cdata s
      else if p1 = 2 \<and> state = TX_PUBLIC_INFO_FOR_IP_THRESHOLD then info_threshold_packet E cdata s
      else Throw ERROR_INVALID_STATE s)"

subsection \<open>The flow\<close>

text \<open>A key is its type, its index and its 32 bytes, in the order of the handler; the index is signed and
  not shown.  doc/ins_public_info_for_ip.md gives the index first: a host that follows it has its index shown as
  the key type.\<close>

definition is_key :: "bytes \<Rightarrow> bool" where
  "is_key k \<longleftrightarrow> length k = 34"

definition key_rows :: "bytes \<Rightarrow> (bytes \<times> bytes) list" where
  "key_rows k = [(ascii ''Public key'', hex_pages (drop 2 k)), (ascii ''Key type'', upper_hex (take 1 k))]"

definition element_rows :: "bytes \<Rightarrow> bytes \<Rightarrow> (bytes \<times> bytes) list" where
  "element_rows icp cid = [(ascii ''Id Cred Pub'', upper_hex icp), (ascii ''Credential ID'', upper_hex cid)]"

definition info_screens :: "bytes \<Rightarrow> bytes \<Rightarrow> bytes list \<Rightarrow> log" where
  "info_screens icp cid keys = (case keys of [] \<Rightarrow> []
     | k # ks \<Rightarrow> (key_rows k @ element_rows icp cid) # map key_rows ks)"

definition info_final_rows :: "bytes \<Rightarrow> bytes \<Rightarrow> bytes list \<Rightarrow> bytes \<Rightarrow> u8 \<Rightarrow> (bytes \<times> bytes) list" where
  "info_final_rows icp cid keys k threshold =
     key_rows k @ [(ascii ''Signature threshold'', dec (unat threshold))] @
     (if keys = [] then element_rows icp cid else [])"

definition info_message :: "bytes \<Rightarrow> bytes \<Rightarrow> nat \<Rightarrow> bytes list \<Rightarrow> bytes" where
  "info_message icp cid n keys = icp @ cid @ [of_nat n] @ concat keys"

text \<open>The context after the keys received so far.\<close>

definition info_at :: "app \<Rightarrow> signPublicInformationForIp \<Rightarrow> bytes \<Rightarrow> bytes \<Rightarrow> nat \<Rightarrow> bytes list \<Rightarrow> bool" where
  "info_at s c icp cid n keys \<longleftrightarrow> signing_path (global_derivation_path s) \<and> length icp = 48 \<and> length cid = 48 \<and>
     n < 256 \<and> length keys + pi_publicKeysLength c = n \<and> (\<forall>k \<in> set keys. is_key k) \<and>
     cstr (pi_idCredPub c) = upper_hex icp \<and> cstr (pi_credId c) = upper_hex cid"

definition last_key :: "signPublicInformationForIp \<Rightarrow> bytes \<Rightarrow> bool" where
  "last_key c k \<longleftrightarrow> cstr (pi_publicKey c) = hex_pages (drop 2 k) \<and> cstr (pi_keyType c) = upper_hex (take 1 k)"

definition info_waiting :: "log \<Rightarrow> app \<Rightarrow> bool" where
  "info_waiting log s \<longleftrightarrow> (\<exists>icp cid n keys. info_at s (info s) icp cid n keys \<and>
     tx_hash s = Some (info_message icp cid n keys) \<and> log = info_screens icp cid keys \<and>
     pi_showIntro (info s) = (keys = []) \<and> pi_state (info s) = TX_PUBLIC_INFO_FOR_IP_VERIFICATION_KEY)"

definition info_complete :: "log \<Rightarrow> app \<Rightarrow> bool" where
  "info_complete log s \<longleftrightarrow> (\<exists>icp cid n keys k. info_at s (info s) icp cid n (keys @ [k]) \<and>
     pi_publicKeysLength (info s) = 0 \<and> tx_hash s = Some (info_message icp cid n (keys @ [k])) \<and>
     log = info_screens icp cid keys \<and> pi_showIntro (info s) = (keys = []) \<and> last_key (info s) k \<and>
     pi_state (info s) = TX_PUBLIC_INFO_FOR_IP_THRESHOLD)"

definition info_asked :: "log \<Rightarrow> app \<Rightarrow> bytes \<Rightarrow> bytes \<Rightarrow> nat \<Rightarrow> bytes list \<Rightarrow> bytes \<Rightarrow> u8 \<Rightarrow> bool" where
  "info_asked log s icp cid n keys k threshold \<longleftrightarrow> signing_path (global_derivation_path s) \<and>
     length icp = 48 \<and> length cid = 48 \<and> n < 256 \<and> n = length keys + 1 \<and> (\<forall>x \<in> set (keys @ [k]). is_key x) \<and>
     log = info_screens icp cid keys \<and>
     asks_to_sign s (info_message icp cid n (keys @ [k]) @ [threshold]) (info_final_rows icp cid keys k threshold)"

definition info_flow :: "log \<Rightarrow> app \<Rightarrow> bool" where
  "info_flow log s \<longleftrightarrow>
     (if awaiting s
      then (\<exists>rv. screen s = Some rv \<and> rv_callback rv = sendSuccessNoIdleCallback \<and> info_waiting (log @ [rv_pairs rv]) s) \<or>
           (\<exists>icp cid n keys k threshold. info_asked log s icp cid n keys k threshold)
      else pi_state (info s) \<in> {PUBLIC_INFO_FOR_IP_ZERO, TX_PUBLIC_INFO_FOR_IP_INITIAL} \<and> log = [] \<or>
           info_waiting log s \<or> info_complete log s)"

subsection \<open>Lemmas\<close>

abbreviation at_info :: "app \<Rightarrow> bytes \<Rightarrow> signPublicInformationForIp \<Rightarrow> app" where
  "at_info \<equiv> at_part put_info"

lemma hex_field_Ok:
  assumes "formats_hex E" "n \<le> length cdata" "length dst = 2 * n + 1"
  shows "hex_field E cdata n dst = Ok (upper_hex (take n cdata) @ [0])"
  using assms by (simp add: hex_field_def slice_Ok hex_into_Ok put_Ok)

lemma info_items [simp]:
  "0 \<notin> set (ascii ''Public key'')" "0 \<notin> set (ascii ''Key type'')" "0 \<notin> set (ascii ''Id Cred Pub'')"
  "0 \<notin> set (ascii ''Credential ID'')" "0 \<notin> set (ascii ''Signature threshold'')"
  by (simp_all add: ascii_def)

lemma info_at_updates [simp]:
  "info_at s (c\<lparr> pi_showIntro := b \<rparr>) = info_at s c" "info_at s (c\<lparr> pi_state := st \<rparr>) = info_at s c"
  "info_at s (c\<lparr> pi_threshold := d \<rparr>) = info_at s c" "info_at (at_info s m c') = info_at s"
  "info_at (s\<lparr> replies := r \<rparr>) = info_at s" "info_at (s\<lparr> screen := sc \<rparr>) = info_at s"
  "info_at (s\<lparr> status_page := x \<rparr>) = info_at s" "info_at (s\<lparr> async_reply := a \<rparr>) = info_at s"
  by (simp_all add: info_at_def fun_eq_iff)

lemma last_key_updates [simp]:
  "last_key (c\<lparr> pi_showIntro := b \<rparr>) = last_key c" "last_key (c\<lparr> pi_state := st \<rparr>) = last_key c"
  "last_key (c\<lparr> pi_threshold := d \<rparr>) = last_key c"
  by (simp_all add: last_key_def fun_eq_iff)

lemma info_screens_snoc:
  "info_screens icp cid (keys @ [k]) = info_screens icp cid keys @ [key_rows k @ (if keys = [] then element_rows icp cid else [])]"
  by (cases keys) (simp_all add: info_screens_def)

lemma wf_info:
  assumes "wf_public_info c"
  shows "length (pi_idCredPub c) = 97" "length (pi_credId c) = 97" "length (pi_keyType c) = 3"
    "length (pi_publicKey c) = 68" "length (pi_threshold c) = 4"
    "0 \<in> set (pi_idCredPub c)" "0 \<in> set (pi_credId c)" "0 \<in> set (pi_keyType c)" "0 \<in> set (pi_publicKey c)" "0 \<in> set (pi_threshold c)"
  using assms by (simp_all add: wf_public_info_def cbuf_def)

subsection \<open>The first packet\<close>

lemma info_open:
  assumes E: "platform E" and wf: "wf_app s" "\<not> awaiting s" and len: "length cdata < 256"
  shows "wp (info_open_packet E cdata s) (\<lambda>_ t. kept (info_flow []) s t) (refused s)"
  unfolding info_open_packet_def wp_bind
proof (rule wp_mono [OF path_step [OF wf(1)]], goal_cases)
  case (1 n t)
  then obtain ns where p: "path_done cdata s ns n t" by blast
  note pd = path_doneD [OF p wf(1)]
  have sp: "signing_path (global_derivation_path t)" using p by (simp add: path_done_def)
  have ss: "kept f t = kept f s" "refused t = refused s" for f
    using same_start [of t s] pd(2) by (simp_all add: same_ui_def)
  have aw: "\<not> awaiting t" using wf(2) pd(2) by (simp add: awaiting_def same_ui_def)
  define rest where "rest = drop n cdata"
  have rem: "sub8 (length cdata) n = length rest" "length rest < 256" using pd(5) len by (simp_all add: rest_def)
  have r: "refused s e (at_info t m c)" if "status_word e" for e m c
    using refused_at_part [OF pd(1) that] ss(2) by simp
  note r0 = pd(7)
  note i = wf_info [OF info.wf_member [OF pd(1)]]
  have st: "t\<lparr> tx_hash := Some [] \<rparr> = at_info t [] (info t)" by (rule info.started [symmetric])
  note h = hex_field_Ok [OF platformD(5) [OF E]]
  show ?case
  proof (cases "97 \<le> length rest")
    case True
    let ?icp = "take 48 rest" and ?cid = "take 48 (drop 48 rest)" and ?n = "rest ! 96"
    let ?c = "(info t)\<lparr> pi_idCredPub := upper_hex ?icp @ [0], pi_credId := upper_hex ?cid @ [0],
      pi_publicKeysLength := unat ?n, pi_showIntro := True, pi_state := TX_PUBLIC_INFO_FOR_IP_VERIFICATION_KEY \<rparr>"
    let ?t = "(at_info t (?icp @ ?cid @ [?n]) ?c)\<lparr> replies := replies t @ [([], SWO_SUCCESS)] \<rparr>"
    have wc: "wf_public_info ?c"
      using info.wf_member [OF pd(1)] True by (simp add: wf_public_info_def cbuf_def)
    have "info_at t ?c ?icp ?cid (unat ?n) []"
      using sp True unat_bounds(1) [of ?n] by (simp add: info_at_def)
    then have "info_waiting [] ?t"
      unfolding info_waiting_def
      by (intro exI [of _ ?icp] exI [of _ ?cid] exI [of _ "unat ?n"] exI [of _ "[]"])
        (simp add: info_message_def info_screens_def)
    moreover have na: "\<not> awaiting ?t" using aw by (simp add: awaiting_def)
    ultimately have "info_flow [] ?t" unfolding info_flow_def if_not_P [OF na] by blast
    then have "kept (info_flow []) t ?t" using na pd(1,2) wc by (intro kept_reply) (simp_all add: same_ui_def)
    then have k: "kept (info_flow []) s ?t" using ss by simp
    have d1: "take (Suc 0) (drop 96 rest) = [?n]"
      using True take_Suc_conv_app_nth [of 0 "drop 96 rest"] by simp
    have sub: "sub8 (length rest) 48 = length rest - 48" "sub8 (length rest - 48) 48 = length rest - 96"
      "Suc 0 \<le> length rest - 96"
      using True rem by auto
    show ?thesis
      unfolding Let_def rem rest_def [symmetric]
      using True i pd(1) k sub by (simp add: st h byte_at_def d1 r r0)
  next
    case False
    show ?thesis
    proof (cases "48 \<le> length rest")
      case True
      then have sub: "sub8 (length rest) 48 = length rest - 48" and
        "\<not> length rest - 48 < 48 \<Longrightarrow> sub8 (length rest - 48) 48 < 1"
        using False rem by auto
      show ?thesis
      unfolding Let_def rem rest_def [symmetric]
      using False True i pd(1) sub by (simp add: st h byte_at_def r r0)
    next
    case False
    then show ?thesis
      unfolding Let_def rem rest_def [symmetric] by (simp add: st r r0)
    qed
  qed
qed simp

subsection \<open>A key\<close>

text \<open>A key that is reviewed at once, and the last one, which waits for the threshold.\<close>

lemma info_reviewed:
  assumes wf: "wf_app s" "wf_public_info c" and a: "info_at s c icp cid n (keys @ [k])"
    and c: "\<not> pi_showIntro c" "pi_state c = TX_PUBLIC_INFO_FOR_IP_VERIFICATION_KEY"
    and rv: "rv_pairs rv = key_rows k @ (if keys = [] then element_rows icp cid else [])"
      "rv_callback rv = sendSuccessNoIdleCallback"
  shows "kept (info_flow (info_screens icp cid keys)) s ((at_info s (info_message icp cid n (keys @ [k])) c)
      \<lparr> screen := Some rv, status_page := False, async_reply := True \<rparr>)"
proof -
  let ?t = "(at_info s (info_message icp cid n (keys @ [k])) c)\<lparr> screen := Some rv, status_page := False, async_reply := True \<rparr>"
  have aw: "awaiting ?t" using rv(2) by (simp add: awaiting_def)
  have "info_waiting (info_screens icp cid keys @ [rv_pairs rv]) ?t"
    unfolding info_waiting_def
    by (intro exI [of _ icp] exI [of _ cid] exI [of _ n] exI [of _ "keys @ [k]"])
      (use a c rv(1) in \<open>simp add: info_screens_snoc\<close>)
  then have "info_flow (info_screens icp cid keys) ?t"
    unfolding info_flow_def if_P [OF aw] using rv(2) by (intro disjI1 exI [of _ rv]) simp
  then show ?thesis using aw wf by (intro kept_review) simp_all
qed

lemma info_last:
  assumes wf: "wf_app s" "wf_public_info c" "\<not> awaiting s" and a: "info_at s c icp cid n (keys @ [k])"
    and c: "pi_showIntro c = (keys = [])" "pi_publicKeysLength c = 0" "last_key c k"
  shows "kept (info_flow (info_screens icp cid keys)) s
    ((at_info s (info_message icp cid n (keys @ [k])) (c\<lparr> pi_state := TX_PUBLIC_INFO_FOR_IP_THRESHOLD \<rparr>))
      \<lparr> replies := replies s @ [([], SWO_SUCCESS)] \<rparr>)"
proof -
  let ?t = "(at_info s (info_message icp cid n (keys @ [k])) (c\<lparr> pi_state := TX_PUBLIC_INFO_FOR_IP_THRESHOLD \<rparr>))
      \<lparr> replies := replies s @ [([], SWO_SUCCESS)] \<rparr>"
  have na: "\<not> awaiting ?t" using wf(3) by (simp add: awaiting_def)
  have "info_complete (info_screens icp cid keys) ?t"
    unfolding info_complete_def
    by (intro exI [of _ icp] exI [of _ cid] exI [of _ n] exI [of _ keys] exI [of _ k]) (use a c in simp)
  then have "info_flow (info_screens icp cid keys) ?t"
    unfolding info_flow_def if_not_P [OF na] by blast
  then show ?thesis using na wf by (intro kept_reply) (simp_all add: wf_public_info_def)
qed

lemma key_texts:
  assumes "34 \<le> length cdata" "length dst = 68"
  shows "to_paginated_hex (take 32 (drop 2 cdata)) dst = Ok (hex_pages (drop 2 (take 34 cdata)) @ [0])"
    "length (hex_pages (drop 2 (take 34 cdata))) = 67"
  using paginated_key [of "take 32 (drop 2 cdata)" dst] assms by (simp_all add: drop_take)

lemma info_key:
  assumes E: "platform E" and wf: "wf_app s" "\<not> awaiting s" and len: "length cdata < 256"
    and w: "info_waiting log s"
  shows "wp (info_key_packet E cdata s) (\<lambda>_ t. kept (info_flow log) s t) (refused s)"
proof -
  from w obtain icp cid n keys where a: "info_at s (info s) icp cid n keys"
    and m: "tx_hash s = Some (info_message icp cid n keys)" and log: "log = info_screens icp cid keys"
    and st: "pi_showIntro (info s) = (keys = [])" "pi_state (info s) = TX_PUBLIC_INFO_FOR_IP_VERIFICATION_KEY"
    unfolding info_waiting_def by blast
  define c where "c = info s"
  have s: "s = at_info s (info_message icp cid n keys) c" unfolding c_def by (rule info.self [OF m, symmetric])
  note wc = info.wf_member [OF wf(1), folded c_def]
  note i = wf_info [OF wc]
  note h = hex_field_Ok [OF platformD(5) [OF E]]
  note r = refused_at_part [OF wf(1)]
  show ?thesis
  proof (cases "pi_publicKeysLength c \<noteq> 0 \<and> (\<exists>b j rest. cdata = b # j # rest \<and> 32 \<le> length rest)")
    case True
    then obtain b j rest where cd: "cdata = b # j # rest" "32 \<le> length rest" and n0: "0 < pi_publicKeysLength c" by auto
    let ?key = "take 32 rest"
    let ?k = "b # j # ?key"
    let ?m = "info_message icp cid n (keys @ [?k])"
    let ?c = "c\<lparr> pi_keyType := upper_hex [b] @ [0], pi_publicKey := hex_pages ?key @ [0],
      pi_publicKeysLength := pi_publicKeysLength c - 1 \<rparr>"
    have tx: "to_paginated_hex ?key (pi_publicKey c) = Ok (hex_pages ?key @ [0])" "length (hex_pages ?key) = 67"
      using paginated_key [of ?key "pi_publicKey c"] cd(2) i(4) by simp_all
    have wk: "wf_public_info ?c" using wc tx(2) by (simp add: wf_public_info_def cbuf_def)
    have a': "info_at s ?c icp cid n (keys @ [?k])"
      using a cd(2) n0 by (auto simp: info_at_def is_key_def c_def)
    have lk: "last_key ?c ?k" by (simp add: last_key_def)
    have sub: "sub8 (Suc (Suc (length rest))) (Suc 0) = Suc (length rest)" "sub8 (Suc (length rest)) (Suc 0) = length rest"
      using len cd by auto
    define F where "F = kept (info_flow log) s"
    have last: "F ((at_info s ?m (?c\<lparr> pi_state := TX_PUBLIC_INFO_FOR_IP_THRESHOLD \<rparr>))
        \<lparr> replies := replies s @ [([], SWO_SUCCESS)] \<rparr>)" if "pi_publicKeysLength c = 1"
      unfolding F_def log by (rule info_last [OF wf(1) wk wf(2) a']) (use st(1) that lk in \<open>simp_all add: c_def\<close>)
    have shown: "F ((at_info s ?m (?c\<lparr> pi_showIntro := False \<rparr>))\<lparr> screen := Some rv, status_page := False, async_reply := True \<rparr>)"
      if "rv_pairs rv = key_rows ?k @ (if keys = [] then element_rows icp cid else [])" "rv_callback rv = sendSuccessNoIdleCallback" for rv
      unfolding F_def log
      by (rule info_reviewed [OF wf(1)]) (use wk a' that st(2) in \<open>simp_all add: c_def wf_public_info_def\<close>)
    have tx': "rwp (to_paginated_hex ?key (pi_publicKey c)) Q X = Q (hex_pages ?key @ [0])" for Q X
      by (simp only: tx rwp.simps)
    have cs: "cstr (pi_idCredPub c) = upper_hex icp" "cstr (pi_credId c) = upper_hex cid" "pi_showIntro c = (keys = [])"
      using a st(1) by (simp_all add: info_at_def c_def)
    have "wp (info_key_packet E cdata (at_info s (info_message icp cid n keys) c)) (\<lambda>_. F) (refused s)"
    proof (cases "pi_publicKeysLength c = 1")
      case one: True
      then show ?thesis
        using cd n0 i wf(1) last by (simp add: info_key_packet_def sub h Let_def tx' tx info_message_def)
    next
      case False
      have d1: "wp (uiReviewPublicInformationForIpDisplay (at_info s ?m (?c\<lparr> pi_showIntro := False \<rparr>)))
          (\<lambda>_ t. F (t\<lparr> async_reply := True \<rparr>)) (refused s)" if "keys = []"
        using that shown i cs tx(2) unfolding uiReviewPublicInformationForIpDisplay_def Let_def
        by (simp add: use_case_defs key_rows_def element_rows_def)
      have hidden: "?c\<lparr> pi_showIntro := False \<rparr> = ?c" if "keys \<noteq> []" using that cs(3) by (cases c) simp
      have d2: "wp (uiSignPublicInformationForIpPublicKeyDisplay (at_info s ?m ?c))
          (\<lambda>_ t. F (t\<lparr> async_reply := True \<rparr>)) (refused s)" if "keys \<noteq> []"
        using that shown [unfolded hidden [OF that]] i cs tx(2) unfolding uiSignPublicInformationForIpPublicKeyDisplay_def Let_def
        by (simp add: use_case_defs key_rows_def element_rows_def)
      show ?thesis
        using cd n0 i wf(1) False d1 d2 cs(3) by (simp add: info_key_packet_def sub h Let_def tx' tx info_message_def)
    qed
    then show ?thesis by (simp add: F_def flip: s)
  next
    case False
    show ?thesis
    proof (cases "pi_publicKeysLength c = 0")
      case True
      then show ?thesis using refused_self(1) [OF wf(1)] by (simp add: info_key_packet_def c_def)
    next
      case n0: False
      have "wp (info_key_packet E cdata (at_info s (info_message icp cid n keys) c)) (\<lambda>_. F) (refused s)" for F
      proof (cases cdata)
        case (Cons b xs)
        show ?thesis
        proof (cases xs)
          case (Cons j rest)
          then have "\<not> 32 \<le> length rest" using False n0 \<open>cdata = b # xs\<close> by auto
          then show ?thesis
            using Cons \<open>cdata = b # xs\<close> n0 i wf(1) r len by (auto simp: info_key_packet_def h Let_def)
        qed (use Cons n0 i wf(1) r in \<open>simp add: info_key_packet_def h Let_def\<close>)
      qed (use n0 wf(1) in \<open>simp add: info_key_packet_def\<close>)
      then show ?thesis by (simp flip: s)
    qed
  qed
qed

subsection \<open>The threshold\<close>

lemma dec_byte: "length (dec (unat (b :: u8))) \<le> 3"
  using unat_bounds(1) [of b] by (intro length_dec_le) simp_all

lemma info_threshold:
  assumes E: "platform E" and wf: "wf_app s" "\<not> awaiting s" and w: "info_complete log s"
  shows "wp (info_threshold_packet E cdata s) (\<lambda>_ t. kept (info_flow log) s t) (refused s)"
proof -
  from w obtain icp cid n keys k where a: "info_at s (info s) icp cid n (keys @ [k])" "pi_publicKeysLength (info s) = 0"
    and m: "tx_hash s = Some (info_message icp cid n (keys @ [k]))" and log: "log = info_screens icp cid keys"
    and st: "pi_showIntro (info s) = (keys = [])" and lk: "last_key (info s) k"
    unfolding info_complete_def by blast
  define c where "c = info s"
  have s: "s = at_info s (info_message icp cid n (keys @ [k])) c" unfolding c_def by (rule info.self [OF m, symmetric])
  note wc = info.wf_member [OF wf(1), folded c_def]
  note i = wf_info [OF wc]
  show ?thesis
  proof (cases cdata)
    case Nil
    then show ?thesis using refused_self(1) [OF wf(1)] by (simp add: info_threshold_packet_def)
  next
    case (Cons b rest)
    let ?m = "info_message icp cid n (keys @ [k]) @ [b]" and ?d = "dec (unat b)"
    let ?dst = "?d @ 0 # drop (length ?d + 1) (pi_threshold c)"
    let ?c = "c\<lparr> pi_threshold := ?dst \<rparr>"
    have l: "length ?d \<le> 3" by (rule dec_byte)
    have bd: "bin_to_dec E (pi_threshold c) (ucast b) = Ok (?dst, length ?d + 1)"
      using bin_to_dec_wp [OF platformD(4) [OF E], of "pi_threshold c" "ucast b"] l i(5)
      by (cases "bin_to_dec E (pi_threshold c) (ucast b)") auto
    have wk: "wf_public_info ?c" using wc l by (simp add: wf_public_info_def cbuf_def)
    have cs: "cstr (pi_idCredPub c) = upper_hex icp" "cstr (pi_credId c) = upper_hex cid" "pi_showIntro c = (keys = [])"
      "cstr (pi_publicKey c) = hex_pages (drop 2 k)" "cstr (pi_keyType c) = upper_hex (take 1 k)" "cstr ?dst = ?d"
      using a(1) st lk by (simp_all add: info_at_def last_key_def c_def)
    have shown: "kept (info_flow log) s ((at_info s ?m ?c)\<lparr> screen := Some rv, status_page := False, async_reply := True \<rparr>)"
      if "rv_pairs rv = info_final_rows icp cid keys k b" "rv_callback rv = review_choice_sign" for rv
    proof -
      let ?t = "(at_info s ?m ?c)\<lparr> screen := Some rv, status_page := False, async_reply := True \<rparr>"
      have aw: "awaiting ?t" using that(2) by (simp add: awaiting_def)
      have "info_asked log ?t icp cid n keys k b"
        using a that log by (simp add: info_asked_def info_at_def asks_to_sign_def)
      then have "info_flow log ?t" unfolding info_flow_def if_P [OF aw] by blast
      then show ?thesis using aw wf wk by (intro kept_review) simp_all
    qed
    define F where "F = kept (info_flow log) s"
    note shown = shown [folded F_def]
    have d1: "wp (uiSignPublicInformationForIpCompleteDisplay (at_info s ?m ?c)) (\<lambda>_ t. F (t\<lparr> async_reply := True \<rparr>)) (refused s)"
      if "keys = []"
      using that shown i cs l unfolding uiSignPublicInformationForIpCompleteDisplay_def Let_def
      by (simp add: use_case_defs info_final_rows_def key_rows_def element_rows_def)
    have d2: "wp (uiSignPublicInformationForIpFinalDisplay (at_info s ?m ?c)) (\<lambda>_ t. F (t\<lparr> async_reply := True \<rparr>)) (refused s)"
      if "keys \<noteq> []"
      using that shown i cs l unfolding uiSignPublicInformationForIpFinalDisplay_def Let_def
      by (simp add: use_case_defs info_final_rows_def key_rows_def)
    have "wp (info_threshold_packet E cdata (at_info s (info_message icp cid n (keys @ [k])) c)) (\<lambda>_. F) (refused s)"
      using Cons d1 d2 cs(3) wf(1) by (simp add: info_threshold_packet_def byte_at_def bd Let_def)
    then show ?thesis by (simp add: F_def flip: s)
  qed
qed

subsection \<open>The packets of the flow\<close>

lemma info_handle:
  assumes E: "platform E" and wf: "wf_app s" "\<not> awaiting s" and len: "length (cmd_data c) < 256"
    and inv: "if initial then global s = wiped \<and> log = [] else info_flow log s"
  shows "wp (handle_sign_public_information_for_ip E c initial s) (\<lambda>_ t. kept (info_flow log) s t) (refused s)"
proof -
  define u where "u = (if initial then set_info (\<lambda>c. c\<lparr> pi_state := TX_PUBLIC_INFO_FOR_IP_INITIAL \<rparr>) s else s)"
  have u: "wf_app u" "\<not> awaiting u" "replies u = replies s" "screen u = screen s" "currentInstruction u = currentInstruction s"
    using wf by (simp_all add: u_def change_part_def wf_app_def wf_context_def wf_public_info_def awaiting_def)
  note ss = same_start [OF u(3-5)]
  note r = refused_self(1) [OF u(1), unfolded ss(2)]
  have start: "pi_state (info u) \<in> {PUBLIC_INFO_FOR_IP_ZERO, TX_PUBLIC_INFO_FOR_IP_INITIAL} \<and> log = [] \<or>
      info_waiting log u \<or> info_complete log u"
    using inv wf(2) by (cases initial) (auto simp: u_def change_part_def info_flow_def)
  have h: "handle_sign_public_information_for_ip E c initial s = handle_sign_public_information_for_ip E c False u"
    by (simp add: handle_sign_public_information_for_ip_def u_def)
  note hu = h handle_sign_public_information_for_ip_def [of E c False u, unfolded Let_def if_False]
  from start show ?thesis
  proof (elim disjE)
    assume "pi_state (info u) \<in> {PUBLIC_INFO_FOR_IP_ZERO, TX_PUBLIC_INFO_FOR_IP_INITIAL} \<and> log = []"
    then show ?thesis unfolding hu using info_open [OF E u(1,2) len] r by (auto simp: ss)
  next
    assume w: "info_waiting log u"
    then have "pi_state (info u) = TX_PUBLIC_INFO_FOR_IP_VERIFICATION_KEY" by (auto simp: info_waiting_def)
    then show ?thesis unfolding hu using info_key [OF E u(1,2) len w] r by (simp add: ss)
  next
    assume w: "info_complete log u"
    then have "pi_state (info u) = TX_PUBLIC_INFO_FOR_IP_THRESHOLD" by (auto simp: info_complete_def)
    then show ?thesis unfolding hu using info_threshold [OF E u(1,2) w] r by (simp add: ss)
  qed
qed

lemma info_choice:
  assumes "platform E" "wf_app s" "\<not> awaiting s" "awaiting (s\<lparr> screen := Some rv \<rparr>)" "info_flow log (s\<lparr> screen := Some rv \<rparr>)"
  shows "rv_callback rv \<in> {review_choice_sign, sendSuccessNoIdleCallback}"
    "rv_callback rv = review_choice_sign \<Longrightarrow>
      wp (choose_sign E confirm s) (\<lambda>_ t. decided confirm (info_flow (log @ [rv_pairs rv])) s t) (\<lambda>_ _. False)"
    "rv_callback rv = sendSuccessNoIdleCallback \<Longrightarrow>
      wp (choose_continue confirm s) (\<lambda>_ t. decided confirm (info_flow (log @ [rv_pairs rv])) s t) (\<lambda>_ _. False)"
proof -
  from assms(4,5) have up: "rv_callback rv = sendSuccessNoIdleCallback \<and> info_waiting (log @ [rv_pairs rv]) s \<or>
      (\<exists>m. tx_hash s = Some m) \<and> rv_callback rv = review_choice_sign"
    unfolding info_flow_def by (auto simp: info_waiting_def info_asked_def asks_to_sign_def)
  then show "rv_callback rv \<in> {review_choice_sign, sendSuccessNoIdleCallback}" by auto
  show "wp (choose_sign E confirm s) (\<lambda>_ t. decided confirm (info_flow (log @ [rv_pairs rv])) s t) (\<lambda>_ _. False)"
    if "rv_callback rv = review_choice_sign"
  proof -
    from up that obtain m where m: "tx_hash s = Some m" by auto
    show ?thesis
      by (rule wp_mono [OF choose_sign_wp [OF assms(1,2) m assms(3)]]) (simp_all add: decided_def settled_def)
  qed
  show "wp (choose_continue confirm s) (\<lambda>_ t. decided confirm (info_flow (log @ [rv_pairs rv])) s t) (\<lambda>_ _. False)"
    if "rv_callback rv = sendSuccessNoIdleCallback"
  proof (cases confirm)
    case True
    let ?t = "s\<lparr> replies := replies s @ [([], SWO_SUCCESS)] \<rparr>"
    have na: "\<not> awaiting ?t" using assms(3) by (simp add: awaiting_def)
    have "info_flow (log @ [rv_pairs rv]) ?t"
      unfolding info_flow_def if_not_P [OF na] using up that by (simp add: info_waiting_def)
    then have "kept (info_flow (log @ [rv_pairs rv])) s ?t"
      using na assms(2) by (intro kept_reply) (simp_all add: wf_app_def)
    then show ?thesis using True kept_decided by (simp add: choose_continue_def)
  next
    case False
    then show ?thesis
      using rejection_decided [of "s\<lparr> currentInstruction := INSTRUCTION_NONE \<rparr>"] assms(2,3)
      by (simp add: choose_continue_def rejectStagedReview_def decided_defs awaiting_def claimed_def)
  qed
qed

lemma info_flow_frame:
  assumes "info_flow log s" "\<not> awaiting s"
  shows "info_flow log (s\<lparr> screen := None, status_page := b \<rparr>)" "info_flow log (s\<lparr> replies := r \<rparr>)"
proof -
  have na: "\<not> awaiting (s\<lparr> screen := None, status_page := b \<rparr>)" "\<not> awaiting (s\<lparr> replies := r \<rparr>)"
    using assms(2) by (simp_all add: awaiting_def)
  note d = assms(1) [unfolded info_flow_def if_not_P [OF assms(2)]]
  show "info_flow log (s\<lparr> screen := None, status_page := b \<rparr>)"
    unfolding info_flow_def if_not_P [OF na(1)] using d by (simp add: info_waiting_def info_complete_def)
  show "info_flow log (s\<lparr> replies := r \<rparr>)"
    unfolding info_flow_def if_not_P [OF na(2)] using d by (simp add: info_waiting_def info_complete_def)
qed

lemma info_flow_fresh: "global s = wiped \<Longrightarrow> \<not> awaiting s \<Longrightarrow> info_flow [] s"
  by (simp add: info_flow_def wiped_def wiped_public_info_def)

end
