(* ===== verification/Credential.thy ===== *)
theory Credential
  imports PublicInfo
begin

text \<open>
  The deployment of a credential: src/src/handler/sign_credential_deployment.c.

  The same parser serves two instructions: on its own it signs a credential that is deployed on a new or an
  existing account, and inside an update of the credentials of an account (UpdateCredential) it adds one.
  The credential arrives in about ten kinds of packets.  \<open>parts\<close> collects what has arrived; the invariant says
  what the context holds for it, and which screens the user has seen.
\<close>

subsection \<open>Operations\<close>

abbreviation cred :: "app \<Rightarrow> signCredentialDeploymentContext" where
  "cred s \<equiv> signCredentialDeploymentContext (global s)"

abbreviation put_cred :: "signCredentialDeploymentContext \<Rightarrow> instructionContext \<Rightarrow> instructionContext" where
  "put_cred c \<equiv> signCredentialDeploymentContext_update (\<lambda>_. c)"

abbreviation set_cred :: "(signCredentialDeploymentContext \<Rightarrow> signCredentialDeploymentContext) \<Rightarrow> app \<Rightarrow> app" where
  "set_cred \<equiv> change_part signCredentialDeploymentContext put_cred"

interpretation cred: context_part signCredentialDeploymentContext put_cred wf_credential
  by unfold_locales (auto simp: wf_context_def)

definition processNextVerificationKey :: "app \<Rightarrow> unit act" where
  "processNextVerificationKey s =
     send_success_no_idle (set_cred (\<lambda>c. c\<lparr> cd_state :=
       if cd_numberOfVerificationKeys c = 0 then TX_CREDENTIAL_DEPLOYMENT_SIGNATURE_THRESHOLD
       else TX_CREDENTIAL_DEPLOYMENT_VERIFICATION_KEY \<rparr>) s)"

definition ATTRIBUTE_NAMES :: "string list" where
  "ATTRIBUTE_NAMES = [''First name'', ''Last name'', ''Sex'', ''Date of birth'', ''Country of residence'',
     ''Nationality'', ''ID doc type'', ''ID doc number'', ''ID doc issuer'', ''ID doc issued at'',
     ''ID doc expires at'', ''National ID number'', ''Tax ID number'']"

definition attribute_name_for_tag :: "sdk \<Rightarrow> u8 \<Rightarrow> bytes \<Rightarrow> bytes result" where
  "attribute_name_for_tag E tag dst =
     (let dst = zeros (length dst) in
      if unat tag < length ATTRIBUTE_NAMES then
        let name = ascii (ATTRIBUTE_NAMES ! unat tag) in
        if length dst \<le> length name then Err ERROR_BUFFER_OVERFLOW else put dst 0 name
      else
        let prefix = ascii ''Attribute #'' in
        if length dst < length prefix + 4 then Err ERROR_BUFFER_OVERFLOW
        else rbind (put dst 0 prefix) (\<lambda>dst.
             rbind (at_offset dst (length prefix) (\<lambda>d. bin_to_dec E d (ucast tag))) (\<lambda>(dst, _). Ok dst)))"

definition confirmAttribute :: "app \<Rightarrow> unit act" where
  "confirmAttribute s =
     (if cd_attributeListLength (cred s) = 0 then Throw ERROR_INVALID_STATE s
      else
        let s = set_cred (\<lambda>c. c\<lparr> cd_attributeListLength := cd_attributeListLength c - 1 \<rparr>) s in
        send_success_no_idle (set_cred (\<lambda>c. c\<lparr> cd_state :=
          if cd_attributeListLength c = 0 then TX_CREDENTIAL_DEPLOYMENT_LENGTH_OF_PROOFS
          else TX_CREDENTIAL_DEPLOYMENT_ATTRIBUTE_TAG \<rparr>) s))"

definition confirmAddedCredential :: "app \<Rightarrow> unit act" where
  "confirmAddedCredential s =
     (if cd_credentialDeploymentCount (cred s) = 0 then Throw ERROR_INVALID_STATE s
      else
        let s = set_cred (\<lambda>c. c\<lparr> cd_credentialDeploymentCount := cd_credentialDeploymentCount c - 1 \<rparr>) s in
        send_success_no_idle (set_cred (\<lambda>c.
          if cd_credentialDeploymentCount c = 0
          then c\<lparr> cd_updateCredentialState := TX_UPDATE_CREDENTIAL_ID_COUNT, cd_state := CREDENTIAL_DEPLOYMENT_ZERO \<rparr>
          else c\<lparr> cd_updateCredentialState := TX_UPDATE_CREDENTIAL_CREDENTIAL_INDEX,
            cd_state := TX_CREDENTIAL_DEPLOYMENT_VERIFICATION_KEYS_LENGTH \<rparr>) s))"

text \<open>The callbacks of src/src/ui/display_nbgl.c.\<close>

definition choose_next_key :: "bool \<Rightarrow> app \<Rightarrow> unit act" where
  "choose_next_key confirm s =
     (if \<not> confirm then rejectStagedReview s else ux_run_guarded processNextVerificationKey s)"

definition choose_attribute :: "bool \<Rightarrow> app \<Rightarrow> unit act" where
  "choose_attribute confirm s =
     (if confirm then ux_run_guarded confirmAttribute s else send_user_rejection s)"

definition choose_added_credential :: "bool \<Rightarrow> app \<Rightarrow> unit act" where
  "choose_added_credential confirm s =
     (if confirm then ux_run_guarded confirmAddedCredential s else send_user_rejection s)"

definition parseVerificationKey :: "sdk \<Rightarrow> bytes \<Rightarrow> app \<Rightarrow> unit act" where
  "parseVerificationKey E buffer s =
     (if length buffer < 34 then Throw SWO_INCORRECT_DATA s
      else
        bind (hash_data E buffer 0 1 s) (\<lambda>_ s.
        bind (hash_data E buffer 1 1 s) (\<lambda>_ s.
        call (slice buffer 2 32) s (\<lambda>verificationKey.
        bind (update_hash E verificationKey s) (\<lambda>_ s.
        call (to_paginated_hex verificationKey (cd_accountVerificationKey (cred s))) s (\<lambda>d.
        Ret () (set_cred (\<lambda>c. c\<lparr> cd_accountVerificationKey := d,
          cd_numberOfVerificationKeys := cd_numberOfVerificationKeys c - 1 \<rparr>) s)))))))"

definition cred_initial_packet :: "sdk \<Rightarrow> bytes \<Rightarrow> app \<Rightarrow> unit act" where
  "cred_initial_packet E data s =
     bind (parse_path data s) (\<lambda>_ s.
     bind (init_tx_hash E s) (\<lambda>_ s.
     send_success_no_idle (set_cred (\<lambda>c. c\<lparr> cd_state := TX_CREDENTIAL_DEPLOYMENT_VERIFICATION_KEYS_LENGTH,
       cd_showIntro := True \<rparr>) s)))"

definition cred_key_count_packet :: "sdk \<Rightarrow> bytes \<Rightarrow> app \<Rightarrow> unit act" where
  "cred_key_count_packet E data s =
     (if length data < 1 then Throw SWO_INCORRECT_DATA s
      else
        call (byte_at data 0) s (\<lambda>n.
        let s = set_cred (\<lambda>c. c\<lparr> cd_numberOfVerificationKeys := unat n \<rparr>) s in
        bind (hash_data E data 0 1 s) (\<lambda>_ s.
        send_success_no_idle (set_cred (\<lambda>c. c\<lparr> cd_state := TX_CREDENTIAL_DEPLOYMENT_VERIFICATION_KEY \<rparr>) s))))"

definition cred_key_packet :: "sdk \<Rightarrow> bytes \<Rightarrow> app \<Rightarrow> unit act" where
  "cred_key_packet E data s =
     (if 0 < cd_numberOfVerificationKeys (cred s) \<and> cd_state (cred s) = TX_CREDENTIAL_DEPLOYMENT_VERIFICATION_KEY
      then
        bind (parseVerificationKey E data s) (\<lambda>_ s.
        if 0 < cd_numberOfVerificationKeys (cred s) then
          let s = set_cred (\<lambda>c. c\<lparr> cd_state := TX_CREDENTIAL_DEPLOYMENT_AWAITING_VERIFICATION_KEY_CONFIRM \<rparr>) s in
          if cd_showIntro (cred s)
          then uiSignCredentialDeploymentVerificationKeyDisplay (set_cred (\<lambda>c. c\<lparr> cd_showIntro := False \<rparr>) s)
          else uiSignCredentialDeploymentVerificationKeyFlowDisplay s
        else
          send_success_no_idle (set_cred (\<lambda>c. c\<lparr> cd_state := TX_CREDENTIAL_DEPLOYMENT_SIGNATURE_THRESHOLD \<rparr>) s))
      else Throw ERROR_INVALID_STATE s)"

text \<open>The anonymity revocation threshold and, after it, \<open> out of \<close>: the buffer and the offset behind them.\<close>

definition revocation_threshold :: "sdk \<Rightarrow> u8 \<Rightarrow> bytes \<Rightarrow> (bytes \<times> nat) result" where
  "revocation_threshold E threshold dst =
     rbind (number_to_text E dst (ucast threshold)) (\<lambda>(dst, offset).
     if length dst < offset + 8 then Err SWO_INCORRECT_DATA
     else rbind (put dst offset (ascii '' out of '')) (\<lambda>dst. Ok (dst, offset + 8)))"

definition cred_threshold_packet :: "sdk \<Rightarrow> bytes \<Rightarrow> app \<Rightarrow> unit act" where
  "cred_threshold_packet E data s =
     (if cd_numberOfVerificationKeys (cred s) \<noteq> 0 then Throw ERROR_INVALID_STATE s
      else if length data < 1 then Throw SWO_INCORRECT_DATA s
      else
        call (byte_at data 0) s (\<lambda>n.
        call (bin_to_dec E (cd_signatureThreshold (cred s)) (ucast n)) s (\<lambda>(d, _).
        let s = set_cred (\<lambda>c. c\<lparr> cd_signatureThreshold := d \<rparr>) s in
        bind (hash_data E data 0 1 s) (\<lambda>_ s.
        let remaining = sub8 (length data) 1; data = drop 1 data in
        if remaining < 48 then Throw SWO_INCORRECT_DATA s
        else
          call (hex_field E data 48 (cd_regIdCred (cred s))) s (\<lambda>d.
          let s = set_cred (\<lambda>c. c\<lparr> cd_regIdCred := d \<rparr>) s in
          bind (hash_data E data 0 48 s) (\<lambda>_ s.
          let remaining = sub8 remaining 48; data = drop 48 data in
          if remaining < 4 then Throw SWO_INCORRECT_DATA s
          else
            call (U4BE data 0) s (\<lambda>index.
            call (number_to_text E (cd_identityProviderIndex (cred s)) (ucast index)) s (\<lambda>(d, _).
            let s = set_cred (\<lambda>c. c\<lparr> cd_identityProviderIndex := d \<rparr>) s in
            bind (hash_data E data 0 4 s) (\<lambda>_ s.
            let remaining = sub8 remaining 4; data = drop 4 data in
            if remaining < 1 then Throw SWO_INCORRECT_DATA s
            else
              call (byte_at data 0) s (\<lambda>n.
              call (revocation_threshold E n (cd_anonymityRevocationThreshold (cred s))) s (\<lambda>(d, offset).
              let s = set_cred (\<lambda>c. c\<lparr> cd_anonymityRevocationThreshold := d \<rparr>) s in
              bind (hash_data E data 0 1 s) (\<lambda>_ s.
              let remaining = sub8 remaining 1; data = drop 1 data in
              if remaining < 2 then Throw SWO_INCORRECT_DATA s
              else
                call (U2BE data 0) s (\<lambda>n.
                let s = set_cred (\<lambda>c. c\<lparr> cd_anonymityRevocationListLength := unat n,
                  cd_arListHashDisplay := zeros (length (cd_arListHashDisplay c)) \<rparr>) s in
                call (new_hash E) s (\<lambda>h.
                let s = set_cred (\<lambda>c. c\<lparr> cd_arListHashCtx := h \<rparr>) s in
                bind (hash_data E data 0 2 s) (\<lambda>_ s.
                call (at_offset (cd_anonymityRevocationThreshold (cred s)) offset (\<lambda>d. bin_to_dec E d (ucast n))) s (\<lambda>(d, _).
                let s = set_cred (\<lambda>c. c\<lparr> cd_anonymityRevocationThreshold := d \<rparr>) s in
                send_success_no_idle (set_cred (\<lambda>c. c\<lparr> cd_state := TX_CREDENTIAL_DEPLOYMENT_AR_IDENTITY \<rparr>) s)))))))))))))))))"

text \<open>A part of the packet that goes into the transaction hash and into the digest of the revokers.\<close>

definition revoker_bytes :: "sdk \<Rightarrow> bytes \<Rightarrow> nat \<Rightarrow> app \<Rightarrow> unit act" where
  "revoker_bytes E data n s =
     bind (hash_data E data 0 n s) (\<lambda>_ s.
     call (slice data 0 n) s (\<lambda>d.
     call (update_ctx E (cd_arListHashCtx (cred s)) d) s (\<lambda>h.
     Ret () (set_cred (\<lambda>c. c\<lparr> cd_arListHashCtx := h \<rparr>) s))))"

definition cred_revoker_packet :: "sdk \<Rightarrow> bytes \<Rightarrow> app \<Rightarrow> unit act" where
  "cred_revoker_packet E data s =
     (if cd_anonymityRevocationListLength (cred s) = 0 then Throw ERROR_INVALID_STATE s
      else if length data < 4 then Throw SWO_INCORRECT_DATA s
      else
        call (hex_field E data 4 (cd_arIdentity (cred s))) s (\<lambda>d.
        let s = set_cred (\<lambda>c. c\<lparr> cd_arIdentity := d \<rparr>) s in
        bind (revoker_bytes E data 4 s) (\<lambda>_ s.
        let remaining = sub8 (length data) 4; data = drop 4 data in
        if remaining < 96 then Throw SWO_INCORRECT_DATA s
        else
          call (hex_field E data 96 (cd_encIdCredPubShare (cred s))) s (\<lambda>d.
          let s = set_cred (\<lambda>c. c\<lparr> cd_encIdCredPubShare := d \<rparr>) s in
          bind (revoker_bytes E data 96 s) (\<lambda>_ s.
          bind (if cd_anonymityRevocationListLength (cred s) = 1 then
                  call (final_ctx E (cd_arListHashCtx (cred s))) s (\<lambda>arListHash.
                  let s = set_cred (\<lambda>c. c\<lparr> cd_arListHashCtx := None \<rparr>) s in
                  call (hex_into E ERROR_BUFFER_OVERFLOW arListHash (cd_arListHashDisplay (cred s))) s (\<lambda>d.
                  Ret () (set_cred (\<lambda>c. c\<lparr> cd_arListHashDisplay := d, cd_state := TX_CREDENTIAL_DEPLOYMENT_CREDENTIAL_DATES \<rparr>) s)))
                else Ret () s) (\<lambda>_ s.
          send_success_no_idle (set_cred (\<lambda>c. c\<lparr> cd_anonymityRevocationListLength :=
            cd_anonymityRevocationListLength c - 1 \<rparr>) s)))))))"

definition cred_dates_packet :: "sdk \<Rightarrow> bytes \<Rightarrow> app \<Rightarrow> unit act" where
  "cred_dates_packet E data s =
     (if length data < 6 then Throw SWO_INCORRECT_DATA s
      else
        bind (hash_data E data 0 6 s) (\<lambda>_ s.
        let remaining = sub8 (length data) 6; data = drop 6 data in
        if remaining < 2 then Throw SWO_INCORRECT_DATA s
        else
          call (U2BE data 0) s (\<lambda>n.
          let s = set_cred (\<lambda>c. c\<lparr> cd_attributeListLength := unat n \<rparr>) s in
          bind (hash_data E data 0 2 s) (\<lambda>_ s.
          send_success_no_idle (set_cred (\<lambda>c. c\<lparr> cd_state :=
            if cd_attributeListLength c = 0 then TX_CREDENTIAL_DEPLOYMENT_LENGTH_OF_PROOFS
            else TX_CREDENTIAL_DEPLOYMENT_ATTRIBUTE_TAG \<rparr>) s)))))"

definition cred_attribute_tag_packet :: "sdk \<Rightarrow> bytes \<Rightarrow> app \<Rightarrow> unit act" where
  "cred_attribute_tag_packet E data s =
     (if cd_attributeListLength (cred s) = 0 then Throw ERROR_INVALID_STATE s
      else if length data < 1 then Throw SWO_INCORRECT_DATA s
      else
        call (byte_at data 0) s (\<lambda>tag.
        bind (hash_data E data 0 1 s) (\<lambda>_ s.
        call (attribute_name_for_tag E tag (cd_attributeName (cred s))) s (\<lambda>d.
        let s = set_cred (\<lambda>c. c\<lparr> cd_attributeName := d \<rparr>) s;
            remaining = sub8 (length data) 1; data = drop 1 data in
        if remaining < 1 then Throw SWO_INCORRECT_DATA s
        else
          call (byte_at data 0) s (\<lambda>n.
          let s = set_cred (\<lambda>c. c\<lparr> cd_attributeValueLength := unat n \<rparr>) s in
          bind (hash_data E data 0 1 s) (\<lambda>_ s.
          send_success_no_idle (set_cred (\<lambda>c. c\<lparr> cd_state := TX_CREDENTIAL_DEPLOYMENT_ATTRIBUTE_VALUE \<rparr>) s)))))))"

definition cred_attribute_value_packet :: "sdk \<Rightarrow> bytes \<Rightarrow> app \<Rightarrow> unit act" where
  "cred_attribute_value_packet E data s =
     (let n = cd_attributeValueLength (cred s) in
      if length data < n then Throw SWO_INCORRECT_DATA s
      else
        bind (hash_data E data 0 n s) (\<lambda>_ s.
        call (slice data 0 n) s (\<lambda>value.
        if \<exists>b \<in> set value. b < 0x20 \<or> b = 0x7f then Throw ERROR_INVALID_TRANSACTION s
        else
          call (rbind (put (zeros (length (cd_attributeValue (cred s)))) 0 value) (\<lambda>d. put d n [0])) s (\<lambda>d.
          uiSignCredentialDeploymentAttributeDisplay (set_cred (\<lambda>c. c\<lparr> cd_attributeValue := d \<rparr>) s)))))"

text \<open>The length of the proofs is signed in an update only; it is p2 that tells.\<close>

definition cred_proof_length_packet :: "sdk \<Rightarrow> u8 \<Rightarrow> bytes \<Rightarrow> app \<Rightarrow> unit act" where
  "cred_proof_length_packet E p2 data s =
     (if length data < 4 then Throw SWO_INCORRECT_DATA s
      else
        call (U4BE data 0) s (\<lambda>n.
        let s = set_cred (\<lambda>c. c\<lparr> cd_proofLength := unat n \<rparr>) s in
        bind (if p2 = 2 then hash_data E data 0 4 s else Ret () s) (\<lambda>_ s.
        send_success_no_idle (set_cred (\<lambda>c. c\<lparr> cd_state := TX_CREDENTIAL_DEPLOYMENT_PROOFS \<rparr>) s))))"

definition cred_proofs_packet :: "sdk \<Rightarrow> u8 \<Rightarrow> bytes \<Rightarrow> app \<Rightarrow> unit act" where
  "cred_proofs_packet E p2 data s =
     (if 255 < cd_proofLength (cred s) then
        if length data < 255 then Throw SWO_INCORRECT_DATA s
        else
          bind (hash_data E data 0 255 s) (\<lambda>_ s.
          send_success_no_idle (set_cred (\<lambda>c. c\<lparr> cd_proofLength := cd_proofLength c - 255 \<rparr>) s))
      else if length data < cd_proofLength (cred s) then Throw SWO_INCORRECT_DATA s
      else
        bind (hash_data E data 0 (cd_proofLength (cred s)) s) (\<lambda>_ s.
        if p2 = 2 \<and> cd_updateCredentialState (cred s) = TX_UPDATE_CREDENTIAL_CREDENTIAL \<and>
           0 < cd_credentialDeploymentCount (cred s)
        then uiSignUpdateCredentialAddedCredentialDisplay s
        else send_success_no_idle (set_cred (\<lambda>c. c\<lparr> cd_state := TX_CREDENTIAL_DEPLOYMENT_NEW_OR_EXISTING \<rparr>) s)))"

definition cred_account_packet :: "sdk \<Rightarrow> bytes \<Rightarrow> app \<Rightarrow> unit act" where
  "cred_account_packet E data s =
     (if length data < 1 then Throw SWO_INCORRECT_DATA s
      else
        call (byte_at data 0) s (\<lambda>newOrExisting.
        bind (hash_data E data 0 1 s) (\<lambda>_ s.
        let remaining = sub8 (length data) 1; data = drop 1 data in
        bind (if newOrExisting = 0 then
                if remaining < 8 then Throw SWO_INCORRECT_DATA s
                else
                  bind (hash_data E data 0 8 s) (\<lambda>_ s.
                  if cd_showIntro (cred s) then uiSignCredentialDeploymentNewIntroDisplay s
                  else uiSignCredentialDeploymentNewDisplay s)
              else if newOrExisting = 1 then
                if remaining < 32 then Throw SWO_INCORRECT_DATA s
                else
                  call (slice data 0 32) s (\<lambda>accountAddress.
                  call (encode_address E accountAddress (cd_accountAddress (cred s))) s (\<lambda>d.
                  let s = set_cred (\<lambda>c. c\<lparr> cd_accountAddress := d \<rparr>) s in
                  bind (hash_data E data 0 32 s) (\<lambda>_ s.
                  if cd_showIntro (cred s) then uiSignCredentialDeploymentExistingIntroDisplay s
                  else uiSignCredentialDeploymentExistingDisplay s)))
              else Throw ERROR_INVALID_TRANSACTION s) (\<lambda>_ s.
        request_async_reply s))))"

definition handle_sign_credential_deployment :: "sdk \<Rightarrow> command \<Rightarrow> bool \<Rightarrow> app \<Rightarrow> unit act" where
  "handle_sign_credential_deployment E cmd isInitialCall s =
     (let data = cmd_data cmd; p1 = cmd_p1 cmd; p2 = cmd_p2 cmd;
          s = (if isInitialCall then set_cred (\<lambda>c. c\<lparr> cd_state := TX_CREDENTIAL_DEPLOYMENT_INITIAL \<rparr>) s else s);
          state = cd_state (cred s) in
      if p1 = 0 \<and> state = TX_CREDENTIAL_DEPLOYMENT_INITIAL then cred_initial_packet E data s
      else if p1 = 10 \<and> state = TX_CREDENTIAL_DEPLOYMENT_VERIFICATION_KEYS_LENGTH then cred_key_count_packet E data s
      else if p1 = 1 then cred_key_packet E data s
      else if p1 = 2 \<and> state = TX_CREDENTIAL_DEPLOYMENT_SIGNATURE_THRESHOLD then cred_threshold_packet E data s
      else if p1 = 3 \<and> state = TX_CREDENTIAL_DEPLOYMENT_AR_IDENTITY then cred_revoker_packet E data s
      else if p1 = 4 \<and> state = TX_CREDENTIAL_DEPLOYMENT_CREDENTIAL_DATES then cred_dates_packet E data s
      else if p1 = 5 \<and> state = TX_CREDENTIAL_DEPLOYMENT_ATTRIBUTE_TAG then cred_attribute_tag_packet E data s
      else if p1 = 6 \<and> state = TX_CREDENTIAL_DEPLOYMENT_ATTRIBUTE_VALUE then cred_attribute_value_packet E data s
      else if p1 = 7 \<and> state = TX_CREDENTIAL_DEPLOYMENT_LENGTH_OF_PROOFS then cred_proof_length_packet E p2 data s
      else if p1 = 8 \<and> state = TX_CREDENTIAL_DEPLOYMENT_PROOFS then cred_proofs_packet E p2 data s
      else if p1 = 9 \<and> state = TX_CREDENTIAL_DEPLOYMENT_NEW_OR_EXISTING then cred_account_packet E data s
      else Throw ERROR_INVALID_STATE s)"

subsection \<open>What has arrived\<close>

text \<open>The parts of a credential, in the order in which they are signed.  \<open>p_half\<close> is the head of an attribute
  whose value has not arrived; \<open>p_length\<close> is the length of the proofs if it was absorbed.\<close>

record parts =
  p_count :: bytes
  p_keys :: "bytes list"
  p_details :: bytes
  p_revokers :: "bytes list"
  p_dates :: bytes
  p_attributes :: "bytes list"
  p_half :: bytes
  p_length :: bytes
  p_proofs :: bytes

definition no_parts :: parts where
  "no_parts = \<lparr> p_count = [], p_keys = [], p_details = [], p_revokers = [], p_dates = [], p_attributes = [],
     p_half = [], p_length = [], p_proofs = [] \<rparr>"

definition credential_bytes :: "parts \<Rightarrow> bytes" where
  "credential_bytes p = p_count p @ concat (p_keys p) @ p_details p @ concat (p_revokers p) @ p_dates p @
     concat (p_attributes p) @ p_half p @ p_length p @ p_proofs p"

text \<open>The fields of the details: the signature threshold, the registration id, the index of the identity
  provider, the revocation threshold and the number of revokers.\<close>

definition provider_index :: "bytes \<Rightarrow> nat" where
  "provider_index d = be_nat (take 4 (drop 49 d))"

definition revocation_text :: "bytes \<Rightarrow> bytes" where
  "revocation_text d = dec (unat (d ! 53)) @ ascii '' out of '' @ dec (be_nat (drop 54 d))"

definition attribute_name :: "u8 \<Rightarrow> bytes" where
  "attribute_name tag = (if unat tag < length ATTRIBUTE_NAMES then ascii (ATTRIBUTE_NAMES ! unat tag)
     else ascii ''Attribute #'' @ dec (unat tag))"

definition is_attribute :: "bytes \<Rightarrow> bool" where
  "is_attribute a \<longleftrightarrow> 2 \<le> length a \<and> length (drop 2 a) = unat (a ! 1) \<and> (\<forall>b \<in> set (drop 2 a). \<not> b < 0x20 \<and> b \<noteq> 0x7f)"

text \<open>How far the credential has come.\<close>

definition no_proofs :: "parts \<Rightarrow> bool" where
  "no_proofs p \<longleftrightarrow> p_length p = [] \<and> p_proofs p = []"

definition no_attributes :: "parts \<Rightarrow> bool" where
  "no_attributes p \<longleftrightarrow> p_attributes p = [] \<and> p_half p = [] \<and> no_proofs p"

definition no_revokers :: "parts \<Rightarrow> bool" where
  "no_revokers p \<longleftrightarrow> p_revokers p = [] \<and> p_dates p = [] \<and> no_attributes p"

definition keyed :: "parts \<Rightarrow> nat \<Rightarrow> bool" where
  "keyed p n \<longleftrightarrow> p_count p = [of_nat n] \<and> n < 256 \<and> (\<forall>k \<in> set (p_keys p). is_key k)"

definition detailed :: "parts \<Rightarrow> bool" where
  "detailed p \<longleftrightarrow> keyed p (length (p_keys p)) \<and> p_keys p \<noteq> [] \<and> length (p_details p) = 56 \<and>
     (\<forall>r \<in> set (p_revokers p). length r = 100)"

definition revoked :: "parts \<Rightarrow> bool" where
  "revoked p \<longleftrightarrow> detailed p \<and> p_revokers p \<noteq> [] \<and> length (p_revokers p) = be_nat (drop 54 (p_details p))"

definition dated :: "parts \<Rightarrow> nat \<Rightarrow> bool" where
  "dated p left \<longleftrightarrow> revoked p \<and> length (p_dates p) = 8 \<and> (\<forall>a \<in> set (p_attributes p). is_attribute a) \<and>
     length (p_attributes p) + left = be_nat (drop 6 (p_dates p))"

definition proving :: "bool \<Rightarrow> parts \<Rightarrow> nat \<Rightarrow> bool" where
  "proving alone p left \<longleftrightarrow> dated p 0 \<and> p_half p = [] \<and>
     (alone \<and> p_length p = [] \<or> length (p_length p) = 4 \<and> length (p_proofs p) + left = be_nat (p_length p))"

subsection \<open>What the context shows\<close>

definition key_up :: "signCredentialDeploymentContext \<Rightarrow> parts \<Rightarrow> bool" where
  "key_up c p \<longleftrightarrow> cstr (cd_accountVerificationKey c) = hex_pages (drop 2 (last (p_keys p)))"

text \<open>The index of the provider is written over what the buffer held before, without a NUL.  In a deployment
  on its own (\<open>alone\<close>) the buffer had never been written.\<close>

definition provider_up :: "bool \<Rightarrow> bytes \<Rightarrow> bytes \<Rightarrow> bool" where
  "provider_up alone buf digits \<longleftrightarrow> (\<exists>old. buf = digits @ old \<and> (alone \<longrightarrow> old = zeros (length old)))"

definition details_up :: "bool \<Rightarrow> signCredentialDeploymentContext \<Rightarrow> parts \<Rightarrow> bool" where
  "details_up alone c p \<longleftrightarrow> (let d = p_details p in
     cstr (cd_signatureThreshold c) = dec (unat (d ! 0)) \<and> cstr (cd_regIdCred c) = upper_hex (take 48 (drop 1 d)) \<and>
     provider_up alone (cd_identityProviderIndex c) (dec (provider_index d)) \<and>
     cstr (cd_anonymityRevocationThreshold c) = revocation_text d)"

definition digest_up :: "sdk \<Rightarrow> signCredentialDeploymentContext \<Rightarrow> parts \<Rightarrow> bool" where
  "digest_up E c p \<longleftrightarrow> (\<exists>digest. sdk_hash_final E (concat (p_revokers p)) = Some digest \<and>
     cstr (cd_arListHashDisplay c) = upper_hex digest) \<and>
     cd_arIdentity c = upper_hex (take 4 (last (p_revokers p))) @ [0]"

definition all_up :: "sdk \<Rightarrow> bool \<Rightarrow> signCredentialDeploymentContext \<Rightarrow> parts \<Rightarrow> bool" where
  "all_up E alone c p \<longleftrightarrow> key_up c p \<and> details_up alone c p \<and> digest_up E c p"

text \<open>The screens of a credential: one for each key but the last, one for each attribute.\<close>

definition key_screen :: "bytes \<Rightarrow> (bytes \<times> bytes) list" where
  "key_screen k = [(ascii ''Public key'', hex_pages (drop 2 k))]"

definition attribute_screen :: "bytes \<Rightarrow> (bytes \<times> bytes) list" where
  "attribute_screen a = [(attribute_name (a ! 0), drop 2 a)]"

definition credential_screens :: "parts \<Rightarrow> log" where
  "credential_screens p = map key_screen (take (be_nat (p_count p) - 1) (p_keys p)) @ map attribute_screen (p_attributes p)"

subsection \<open>The invariant\<close>

text \<open>Between two packets, in the state the context is in.\<close>

fun arrived :: "sdk \<Rightarrow> bool \<Rightarrow> protocolState \<Rightarrow> signCredentialDeploymentContext \<Rightarrow> parts \<Rightarrow> bool" where
  "arrived E alone TX_CREDENTIAL_DEPLOYMENT_VERIFICATION_KEYS_LENGTH c p =
     (p = no_parts \<and> provider_up alone (cd_identityProviderIndex c) [])"
| "arrived E alone TX_CREDENTIAL_DEPLOYMENT_VERIFICATION_KEY c p =
     (keyed p (length (p_keys p) + cd_numberOfVerificationKeys c) \<and> p_details p = [] \<and> no_revokers p \<and>
      provider_up alone (cd_identityProviderIndex c) [])"
| "arrived E alone TX_CREDENTIAL_DEPLOYMENT_SIGNATURE_THRESHOLD c p =
     (keyed p (length (p_keys p)) \<and> p_keys p \<noteq> [] \<and> p_details p = [] \<and> no_revokers p \<and> key_up c p \<and>
      provider_up alone (cd_identityProviderIndex c) [])"
| "arrived E alone TX_CREDENTIAL_DEPLOYMENT_AR_IDENTITY c p =
     (detailed p \<and> length (p_revokers p) + cd_anonymityRevocationListLength c = be_nat (drop 54 (p_details p)) \<and>
      p_dates p = [] \<and> no_attributes p \<and> key_up c p \<and> details_up alone c p \<and>
      cd_arListHashCtx c = Some (concat (p_revokers p)))"
| "arrived E alone TX_CREDENTIAL_DEPLOYMENT_CREDENTIAL_DATES c p =
     (revoked p \<and> p_dates p = [] \<and> no_attributes p \<and> all_up E alone c p)"
| "arrived E alone TX_CREDENTIAL_DEPLOYMENT_ATTRIBUTE_TAG c p =
     (dated p (cd_attributeListLength c) \<and> p_half p = [] \<and> no_proofs p \<and> all_up E alone c p)"
| "arrived E alone TX_CREDENTIAL_DEPLOYMENT_ATTRIBUTE_VALUE c p =
     (dated p (cd_attributeListLength c) \<and> 0 < cd_attributeListLength c \<and> no_proofs p \<and> all_up E alone c p \<and>
      length (p_half p) = 2 \<and> cd_attributeValueLength c = unat (p_half p ! 1) \<and>
      cstr (cd_attributeName c) = attribute_name (p_half p ! 0))"
| "arrived E alone TX_CREDENTIAL_DEPLOYMENT_LENGTH_OF_PROOFS c p =
     (dated p 0 \<and> p_half p = [] \<and> no_proofs p \<and> all_up E alone c p)"
| "arrived E alone TX_CREDENTIAL_DEPLOYMENT_PROOFS c p = (proving alone p (cd_proofLength c) \<and> all_up E alone c p)"
| "arrived E alone TX_CREDENTIAL_DEPLOYMENT_NEW_OR_EXISTING c p = (alone \<and> proving alone p 0 \<and> all_up E alone c p)"
| "arrived E alone _ c p = False"

text \<open>While a key, an attribute or an added credential is on screen.\<close>

text \<open>The row of the identity provider starts with its index.  Nine digits fill the buffer, and the member behind
  it, the identity of the last revoker, runs on in the row; fewer are followed by what the buffer held before,
  which is nothing in a deployment on its own.\<close>

definition provider_tail :: "parts \<Rightarrow> bytes" where
  "provider_tail p = (if provider_index (p_details p) < 10 ^ 8 then [] else upper_hex (take 4 (last (p_revokers p))))"

definition provider_rows :: "sdk \<Rightarrow> bool \<Rightarrow> parts \<Rightarrow> bytes \<Rightarrow> bool" where
  "provider_rows E alone p provider \<longleftrightarrow> (\<exists>tail. provider = dec (provider_index (p_details p)) @ tail \<and>
     provider_index (p_details p) < 10 ^ 9 \<and>
     (alone \<or> 10 ^ 8 \<le> provider_index (p_details p) \<longrightarrow> tail = provider_tail p))"

definition added_rows :: "sdk \<Rightarrow> parts \<Rightarrow> bytes \<Rightarrow> (bytes \<times> bytes) list" where
  "added_rows E p provider = (let d = p_details p in
     [(ascii ''Public key'', hex_pages (drop 2 (last (p_keys p)))),
      (ascii ''Signature threshold'', dec (unat (d ! 0))),
      (ascii ''AR threshold'', revocation_text d), (ascii ''RegIdCred'', upper_hex (take 48 (drop 1 d))),
      (ascii ''Identity provider'', provider),
      (ascii ''AR list hash'', upper_hex (the (sdk_hash_final E (concat (p_revokers p)))))])"

definition key_on_screen :: "bool \<Rightarrow> signCredentialDeploymentContext \<Rightarrow> parts \<Rightarrow> review \<Rightarrow> bool" where
  "key_on_screen alone c p rv \<longleftrightarrow> cd_state c = TX_CREDENTIAL_DEPLOYMENT_AWAITING_VERIFICATION_KEY_CONFIRM \<and>
     keyed p (length (p_keys p) + cd_numberOfVerificationKeys c) \<and> p_keys p \<noteq> [] \<and> 0 < cd_numberOfVerificationKeys c \<and>
     p_details p = [] \<and> no_revokers p \<and> provider_up alone (cd_identityProviderIndex c) [] \<and>
     rv_callback rv = processNextVerificationKeyNoIdleCallback \<and> rv_pairs rv = key_screen (last (p_keys p))"

definition attribute_on_screen :: "sdk \<Rightarrow> bool \<Rightarrow> signCredentialDeploymentContext \<Rightarrow> parts \<Rightarrow> review \<Rightarrow> bool" where
  "attribute_on_screen E alone c p rv \<longleftrightarrow> 0 < cd_attributeListLength c \<and> dated p (cd_attributeListLength c - 1) \<and>
     p_attributes p \<noteq> [] \<and> p_half p = [] \<and> no_proofs p \<and> all_up E alone c p \<and>
     cd_state c = TX_CREDENTIAL_DEPLOYMENT_ATTRIBUTE_VALUE \<and> cd_attributeValueLength c = length (drop 2 (last (p_attributes p))) \<and>
     rv_callback rv = review_credential_attribute \<and> rv_pairs rv = attribute_screen (last (p_attributes p))"

definition added_on_screen :: "sdk \<Rightarrow> bool \<Rightarrow> signCredentialDeploymentContext \<Rightarrow> parts \<Rightarrow> review \<Rightarrow> bool" where
  "added_on_screen E alone c p rv \<longleftrightarrow> \<not> alone \<and> proving alone p 0 \<and> 0 < cd_credentialDeploymentCount c \<and>
     rv_callback rv = review_added_credential \<and>
     (\<exists>provider. provider_rows E alone p provider \<and> rv_pairs rv = added_rows E p provider)"

subsection \<open>Steps\<close>

abbreviation at_cred :: "app \<Rightarrow> bytes \<Rightarrow> signCredentialDeploymentContext \<Rightarrow> app" where
  "at_cred \<equiv> at_part put_cred"

text \<open>A packet is answered, or a review is up; R relates the review, the absorbed bytes and the context.\<close>

definition cred_step :: "app \<Rightarrow> (review option \<Rightarrow> bytes \<Rightarrow> signCredentialDeploymentContext \<Rightarrow> bool) \<Rightarrow> app \<Rightarrow> bool" where
  "cred_step s R t \<longleftrightarrow> (\<exists>m c. wf_credential c \<and>
     (t = (at_cred s m c)\<lparr> replies := replies s @ [([], SWO_SUCCESS)] \<rparr> \<and> R None m c \<or>
      (\<exists>rv. t = (at_cred s m c)\<lparr> screen := Some rv, status_page := False, async_reply := True \<rparr> \<and> R (Some rv) m c)))"

text \<open>The counters of an update are left alone by the parser.\<close>

definition counters :: "signCredentialDeploymentContext \<Rightarrow> updateCredentialState \<times> nat \<times> nat" where
  "counters c = (cd_updateCredentialState c, cd_credentialDeploymentCount c, cd_credentialIdCount c)"

definition moved :: "sdk \<Rightarrow> bool \<Rightarrow> bytes \<Rightarrow> parts \<Rightarrow> signCredentialDeploymentContext \<Rightarrow>
    review option \<Rightarrow> bytes \<Rightarrow> signCredentialDeploymentContext \<Rightarrow> bool" where
  "moved E alone pre p0 c0 up m c \<longleftrightarrow> counters c = counters c0 \<and> (\<exists>p. m = pre @ credential_bytes p \<and>
     (case up of
        None \<Rightarrow> arrived E alone (cd_state c) c p \<and> credential_screens p = credential_screens p0
      | Some rv \<Rightarrow>
          (key_on_screen alone c p rv \<or> attribute_on_screen E alone c p rv) \<and>
            credential_screens p = credential_screens p0 @ [rv_pairs rv] \<or>
          added_on_screen E alone c p rv \<and> credential_screens p = credential_screens p0))"

lemma counters_simps [simp]:
  "counters (c\<lparr> cd_numberOfVerificationKeys := n \<rparr>) = counters c" "counters (c\<lparr> cd_state := st \<rparr>) = counters c"
  "counters (c\<lparr> cd_accountVerificationKey := d \<rparr>) = counters c" "counters (c\<lparr> cd_showIntro := b \<rparr>) = counters c"
  "counters (c\<lparr> cd_signatureThreshold := d \<rparr>) = counters c" "counters (c\<lparr> cd_regIdCred := d \<rparr>) = counters c"
  "counters (c\<lparr> cd_identityProviderIndex := d \<rparr>) = counters c" "counters (c\<lparr> cd_anonymityRevocationThreshold := d \<rparr>) = counters c"
  "counters (c\<lparr> cd_anonymityRevocationListLength := n \<rparr>) = counters c" "counters (c\<lparr> cd_arListHashDisplay := d \<rparr>) = counters c"
  "counters (c\<lparr> cd_arListHashCtx := h \<rparr>) = counters c" "counters (c\<lparr> cd_arIdentity := d \<rparr>) = counters c"
  "counters (c\<lparr> cd_encIdCredPubShare := d \<rparr>) = counters c" "counters (c\<lparr> cd_attributeListLength := n \<rparr>) = counters c"
  "counters (c\<lparr> cd_attributeName := d \<rparr>) = counters c" "counters (c\<lparr> cd_attributeValueLength := n \<rparr>) = counters c"
  "counters (c\<lparr> cd_attributeValue := d \<rparr>) = counters c" "counters (c\<lparr> cd_proofLength := n \<rparr>) = counters c"
  "counters (c\<lparr> cd_accountAddress := d \<rparr>) = counters c"
  by (simp_all add: counters_def)

lemma cred_step_replied:
  "wf_credential c \<Longrightarrow> R None m c \<Longrightarrow> cred_step s R ((at_cred s m c)\<lparr> replies := replies s @ [([], SWO_SUCCESS)] \<rparr>)"
  unfolding cred_step_def by blast

lemma cred_step_drawn:
  "wf_credential c \<Longrightarrow> R (Some rv) m c \<Longrightarrow>
    cred_step s R ((at_cred s m c)\<lparr> screen := Some rv, status_page := False, async_reply := True \<rparr>)"
  unfolding cred_step_def by blast

lemma cred_items [simp]:
  "0 \<notin> set (ascii ''RegIdCred'')" "0 \<notin> set (ascii ''Identity provider'')" "0 \<notin> set (ascii ''AR threshold'')"
  "0 \<notin> set (ascii ''AR list hash'')" "0 \<notin> set (ascii ''Address'')" "0 \<notin> set (ascii '' out of '')"
  "0 \<notin> set (ascii ''Attribute #'')" "0 \<notin> set (ascii ''Threshold'')"
  by (simp_all add: ascii_def)

lemmas cred_shapes = keyed_def detailed_def revoked_def dated_def proving_def no_proofs_def no_attributes_def no_revokers_def
lemmas cred_ups = key_up_def details_up_def digest_up_def all_up_def provider_up_def

lemma wf_cred:
  assumes "wf_credential c"
  shows "length (cd_accountVerificationKey c) = 68" "length (cd_signatureThreshold c) = 4" "length (cd_regIdCred c) = 97"
    "length (cd_identityProviderIndex c) = 9" "length (cd_anonymityRevocationThreshold c) = 17" "length (cd_arIdentity c) = 9"
    "length (cd_encIdCredPubShare c) = 193" "length (cd_arListHashDisplay c) = 65" "length (cd_attributeName c) = 24"
    "length (cd_attributeValue c) = 256" "address_buffer (cd_accountAddress c)" "length (cd_threshold c) = 4" "length (cd_credentialId c) = 102"
    "0 \<in> set (cd_accountVerificationKey c)" "0 \<in> set (cd_signatureThreshold c)" "0 \<in> set (cd_regIdCred c)"
    "0 \<in> set (cd_anonymityRevocationThreshold c)" "0 \<in> set (cd_arIdentity c)" "0 \<in> set (cd_arListHashDisplay c)"
    "0 \<in> set (cd_attributeName c)" "0 \<in> set (cd_attributeValue c)" "0 \<in> set (cd_threshold c)" "0 \<in> set (cd_credentialId c)"
  using assms by (simp_all add: wf_credential_def cbuf_def)

subsection \<open>The keys\<close>

lemma cred_key_count:
  assumes wf: "wf_app s" "wf_credential c" and st: "cd_state c = TX_CREDENTIAL_DEPLOYMENT_VERIFICATION_KEYS_LENGTH"
    and a: "arrived E alone (cd_state c) c p"
  shows "wp (cred_key_count_packet E data (at_cred s (pre @ credential_bytes p) c))
    (\<lambda>_. cred_step s (moved E alone pre p c)) (refused s)"
proof (cases data)
  case Nil
  then show ?thesis using wf(1) by (simp add: cred_key_count_packet_def)
next
  case (Cons n rest)
  let ?c = "c\<lparr> cd_numberOfVerificationKeys := unat n, cd_state := TX_CREDENTIAL_DEPLOYMENT_VERIFICATION_KEY \<rparr>"
  let ?p = "no_parts\<lparr> p_count := [n] \<rparr>"
  have p: "p = no_parts" "provider_up alone (cd_identityProviderIndex c) []" using a st by simp_all
  have "arrived E alone (cd_state ?c) ?c ?p"
    using p(2) unat_bounds(1) [of n] by (simp add: cred_shapes no_parts_def)
  moreover have "credential_screens ?p = credential_screens p" by (simp add: p(1) credential_screens_def no_parts_def)
  moreover have "pre @ credential_bytes p @ [n] = pre @ credential_bytes ?p" by (simp add: p(1) credential_bytes_def no_parts_def)
  ultimately have "moved E alone pre p c None (pre @ credential_bytes p @ [n]) ?c"
    unfolding moved_def by (auto simp: counters_def)
  moreover have "wf_credential ?c" using wf(2) by (simp add: wf_credential_def)
  ultimately have "cred_step s (moved E alone pre p c) ((at_cred s (pre @ credential_bytes p @ [n]) ?c)\<lparr> replies := replies s @ [([], SWO_SUCCESS)] \<rparr>)"
    by (intro cred_step_replied)
  then show ?thesis using wf(1) Cons by (simp add: cred_key_count_packet_def byte_at_def Let_def)
qed

lemma keyed_snoc: "keyed p n \<Longrightarrow> is_key k \<Longrightarrow> keyed (p\<lparr> p_keys := p_keys p @ [k] \<rparr>) n"
  by (auto simp: keyed_def)

lemma keyed_total: "keyed p n \<Longrightarrow> be_nat (p_count p) = n"
  by (auto simp: keyed_def be_nat_def unat_of_nat)

lemma screens_key:
  assumes "keyed p (length (p_keys p) + n)" "0 < n" "p_attributes p = []"
  shows "credential_screens (p\<lparr> p_keys := p_keys p @ [k] \<rparr>) = credential_screens p @ (if n = 1 then [] else [key_screen k])"
  using keyed_total [OF assms(1)] assms(2,3) by (cases n) (auto simp: credential_screens_def)

lemma no_parts_after_keys:
  "p_details p = [] \<Longrightarrow> no_revokers p \<Longrightarrow>
    credential_bytes (p\<lparr> p_keys := p_keys p @ [k] \<rparr>) = credential_bytes p @ k"
  by (simp add: credential_bytes_def cred_shapes)

lemma parse_key:
  assumes wf: "wf_app s" "wf_credential c" and n: "0 < cd_numberOfVerificationKeys c"
    and Q: "\<And>k d. is_key k \<Longrightarrow> wf_credential (c\<lparr> cd_accountVerificationKey := d \<rparr>) \<Longrightarrow> cstr d = hex_pages (drop 2 k) \<Longrightarrow>
      Q () (at_cred s (m @ k) (c\<lparr> cd_accountVerificationKey := d, cd_numberOfVerificationKeys := cd_numberOfVerificationKeys c - 1 \<rparr>))"
    and X: "\<And>e m c. status_word e \<Longrightarrow> X e (at_cred s m c)"
  shows "wp (parseVerificationKey E data (at_cred s m c)) Q X"
proof (cases "\<exists>b j rest. data = b # j # rest \<and> 32 \<le> length rest")
  case True
  then obtain b j rest where d: "data = b # j # rest" "32 \<le> length rest" by blast
  note i = wf_cred [OF wf(2)]
  let ?k = "b # j # take 32 rest"
  have tx: "to_paginated_hex (take 32 rest) (cd_accountVerificationKey c) = Ok (hex_pages (take 32 rest) @ [0])"
    "length (hex_pages (take 32 rest)) = 67"
    using paginated_key [of "take 32 rest"] d(2) i(1) by simp_all
  have tx': "rwp (to_paginated_hex (take 32 rest) (cd_accountVerificationKey c)) P Y = P (hex_pages (take 32 rest) @ [0])" for P Y
    by (simp only: tx rwp.simps)
  have "Q () (at_cred s (m @ ?k) (c\<lparr> cd_accountVerificationKey := hex_pages (take 32 rest) @ [0],
      cd_numberOfVerificationKeys := cd_numberOfVerificationKeys c - 1 \<rparr>))"
    by (rule Q) (use d(2) wf(2) tx(2) in \<open>simp_all add: is_key_def wf_credential_def\<close>)
  then show ?thesis
    using d X by (simp add: parseVerificationKey_def tx')
next
  case False
  then have "length data < 34" by (cases data; cases "tl data") auto
  then show ?thesis using X by (simp add: parseVerificationKey_def)
qed

lemma cred_key:
  assumes wf: "wf_app s" "wf_credential c"
    and a: "arrived E alone TX_CREDENTIAL_DEPLOYMENT_VERIFICATION_KEY c p" "cd_state c = TX_CREDENTIAL_DEPLOYMENT_VERIFICATION_KEY"
  shows "wp (cred_key_packet E data (at_cred s (pre @ credential_bytes p) c))
    (\<lambda>_. cred_step s (moved E alone pre p c)) (refused s)"
proof (cases "cd_numberOfVerificationKeys c = 0")
  case True
  then show ?thesis using wf(1) by (simp add: cred_key_packet_def)
next
  case False
  note i = wf_cred [OF wf(2)]
  have p: "keyed p (length (p_keys p) + cd_numberOfVerificationKeys c)" "p_details p = []" "no_revokers p"
    "provider_up alone (cd_identityProviderIndex c) []" using a by simp_all
  have na: "p_attributes p = []" using p(3) by (simp add: cred_shapes)
  note bytes = no_parts_after_keys [OF p(2,3)] and scr = screens_key [OF p(1) _ na]
  have g: "0 < cd_numberOfVerificationKeys (cred (at_cred s (pre @ credential_bytes p) c)) \<and>
      cd_state (cred (at_cred s (pre @ credential_bytes p) c)) = TX_CREDENTIAL_DEPLOYMENT_VERIFICATION_KEY"
    using False a(2) by simp
  show ?thesis
    unfolding cred_key_packet_def if_P [OF g] wp_bind
  proof (rule parse_key [OF wf], goal_cases)
    case (2 k d)
    let ?n = "cd_numberOfVerificationKeys c - 1"
    let ?p = "p\<lparr> p_keys := p_keys p @ [k] \<rparr>"
    let ?c = "c\<lparr> cd_accountVerificationKey := d, cd_numberOfVerificationKeys := ?n \<rparr>"
    have ky: "keyed ?p (length (p_keys ?p) + ?n)" using keyed_snoc [OF p(1) 2(1)] False by simp
    have rest: "p_details ?p = []" "no_revokers ?p" using p(2,3) by (simp_all add: cred_shapes)
    define C where "C = cred_step s (moved E alone pre p c)"
    have wc: "wf_credential (?c\<lparr> cd_state := st \<rparr>)" "wf_credential (?c\<lparr> cd_state := st, cd_showIntro := b \<rparr>)" for st b
      using 2(2) by (simp_all add: wf_credential_def)
    have last: "C ((at_cred s (pre @ credential_bytes p @ k) (?c\<lparr> cd_state := TX_CREDENTIAL_DEPLOYMENT_SIGNATURE_THRESHOLD \<rparr>))
        \<lparr> replies := replies s @ [([], SWO_SUCCESS)] \<rparr>)" if "?n = 0"
      unfolding C_def
    proof (rule cred_step_replied [OF wc(1)])
      have "arrived E alone TX_CREDENTIAL_DEPLOYMENT_SIGNATURE_THRESHOLD (?c\<lparr> cd_state := TX_CREDENTIAL_DEPLOYMENT_SIGNATURE_THRESHOLD \<rparr>) ?p"
        using ky rest that 2(3) p(4) by (simp add: key_up_def)
      then show "moved E alone pre p c None (pre @ credential_bytes p @ k) (?c\<lparr> cd_state := TX_CREDENTIAL_DEPLOYMENT_SIGNATURE_THRESHOLD \<rparr>)"
        unfolding moved_def using bytes [of k] scr [of k] False that by (intro conjI exI [of _ ?p]) simp_all
    qed
    have nxt: "C ((at_cred s (pre @ credential_bytes p @ k) c')\<lparr> screen := Some rv, status_page := False, async_reply := True \<rparr>)"
      if "?n \<noteq> 0" "rv_callback rv = processNextVerificationKeyNoIdleCallback" "rv_pairs rv = key_screen k"
        "c' = ?c\<lparr> cd_state := TX_CREDENTIAL_DEPLOYMENT_AWAITING_VERIFICATION_KEY_CONFIRM \<rparr> \<or>
         c' = ?c\<lparr> cd_state := TX_CREDENTIAL_DEPLOYMENT_AWAITING_VERIFICATION_KEY_CONFIRM, cd_showIntro := False \<rparr>" for rv c'
      unfolding C_def
    proof (rule cred_step_drawn)
      show "wf_credential c'" using wc that(4) by blast
      have "key_on_screen alone c' ?p rv" using ky rest that p(4) by (auto simp: key_on_screen_def)
      moreover have "counters c' = counters c" using that(4) by auto
      ultimately show "moved E alone pre p c (Some rv) (pre @ credential_bytes p @ k) c'"
        unfolding moved_def using bytes [of k] scr [of k] False that by (intro conjI exI [of _ ?p]) simp_all
    qed
    have dr: "0 \<in> set d" using 2(2) by (simp add: wf_credential_def cbuf_def)
    show ?case
      using False last nxt dr 2(3) unfolding C_def [symmetric]
      by (auto simp: Let_def uiSignCredentialDeploymentVerificationKeyDisplay_def
          uiSignCredentialDeploymentVerificationKeyFlowDisplay_def use_case_defs key_screen_def request_async_reply_def)
  qed (use False a(2) wf(1) in simp_all)
qed

subsection \<open>The details\<close>

lemma revocation_threshold_Ok:
  assumes E: "formats_numbers E" and l: "length dst = 17"
  shows "revocation_threshold E n dst = Ok (dec (unat n) @ ascii '' out of '' @ drop (length (dec (unat n)) + 8) dst, length (dec (unat n)) + 8)"
proof -
  have d: "length (dec (unat n)) \<le> 3" by (rule dec_byte)
  have "number_to_text E dst (ucast n) = Ok (dec (unat n) @ drop (length (dec (unat n))) dst, length (dec (unat n)))"
    using number_to_text_wp [OF E, of dst "ucast n"] d l by (cases "number_to_text E dst (ucast n)") auto
  then show ?thesis using d l put_append [of "ascii '' out of ''" "drop (length (dec (unat n))) dst" "dec (unat n)"]
    by (simp add: revocation_threshold_def eval_nat_numeral)
qed

lemma revocation_count_Ok:
  assumes E: "formats_numbers E" and l: "length dst = 17"
  shows "at_offset (dec (unat (n :: u8)) @ ascii '' out of '' @ drop (length (dec (unat n)) + 8) dst) (length (dec (unat n)) + 8)
      (\<lambda>d. bin_to_dec E d (ucast (m :: u16))) =
    Ok ((dec (unat n) @ ascii '' out of '') @ dec (unat m) @ 0 # drop (length (dec (unat m)) + 1) (drop (length (dec (unat n)) + 8) dst),
      length (dec (unat m)) + 1)"
proof -
  have d: "length (dec (unat (n :: u8))) \<le> 3" "length (dec (unat m)) \<le> 5"
    using dec_byte [of n] length_dec_u16 [of m] by simp_all
  then show ?thesis
    using decimal_at_offset [OF E, of "ucast m" "drop (length (dec (unat n)) + 8) dst" "length (dec (unat n)) + 8" "dec (unat n) @ ascii '' out of ''"] l
    by (simp add: eval_nat_numeral)
qed

lemma length_dec_9: "length (dec n) \<le> 8 \<longleftrightarrow> n < 10 ^ 8"
  using length_dec_le [of n 8] length_dec_ge [of 8 n] by (cases "n < 10 ^ 8") force+

text \<open>Everything of the details is on its way to the screen, the digest of the revokers is started.\<close>

lemma details_arrived:
  assumes wf: "wf_credential c" and a: "arrived E alone TX_CREDENTIAL_DEPLOYMENT_SIGNATURE_THRESHOLD c p"
    and d: "length d = 56" "length (dec (provider_index d)) \<le> 9"
    and c': "c' = c\<lparr> cd_signatureThreshold := dec (unat (d ! 0)) @ 0 # r1, cd_regIdCred := upper_hex (take 48 (drop 1 d)) @ [0],
      cd_identityProviderIndex := dec (provider_index d) @ drop (length (dec (provider_index d))) (cd_identityProviderIndex c),
      cd_anonymityRevocationListLength := be_nat (drop 54 d), cd_arListHashDisplay := zeros 65, cd_arListHashCtx := Some [],
      cd_anonymityRevocationThreshold := (dec (unat (d ! 53)) @ ascii '' out of '') @ dec (be_nat (drop 54 d)) @ 0 # r2,
      cd_state := TX_CREDENTIAL_DEPLOYMENT_AR_IDENTITY \<rparr>"
    and l: "length (dec (unat (d ! 0)) @ 0 # r1) = 4"
      "length ((dec (unat (d ! 53)) @ ascii '' out of '') @ dec (be_nat (drop 54 d)) @ 0 # r2) = 17"
  shows "wf_credential c'" "moved E alone pre p c None (pre @ credential_bytes p @ d) c'"
proof -
  note i = wf_cred [OF wf]
  show "wf_credential c'"
    using wf l d by (simp add: c' wf_credential_def cbuf_def)
  let ?p = "p\<lparr> p_details := d \<rparr>"
  have p: "keyed p (length (p_keys p))" "p_keys p \<noteq> []" "p_details p = []" "no_revokers p" "key_up c p"
    "provider_up alone (cd_identityProviderIndex c) []" using a by simp_all
  obtain old where old: "cd_identityProviderIndex c = old" "alone \<longrightarrow> old = zeros 9"
    using p(6) i(4) by (auto simp: provider_up_def)
  have "provider_up alone (cd_identityProviderIndex c') (dec (provider_index d))"
    unfolding provider_up_def c' using old by (auto simp: zeros_def)
  moreover have "cstr (cd_anonymityRevocationThreshold c') = revocation_text d"
    using cstr_NUL [of "(dec (unat (d ! 53)) @ ascii '' out of '') @ dec (be_nat (drop 54 d))" r2]
    by (simp add: c' revocation_text_def)
  ultimately have "details_up alone c' ?p"
    by (simp add: details_up_def Let_def c')
  moreover have "detailed ?p" "p_dates ?p = []" "no_attributes ?p" "key_up c' ?p"
    using p d by (simp_all add: cred_shapes key_up_def c')
  ultimately have "arrived E alone (cd_state c') c' ?p"
    using p(4) by (simp add: c' cred_shapes)
  moreover have "pre @ credential_bytes p @ d = pre @ credential_bytes ?p"
    using p(3,4) by (simp add: credential_bytes_def cred_shapes)
  moreover have "credential_screens ?p = credential_screens p" by (simp add: credential_screens_def)
  ultimately show "moved E alone pre p c None (pre @ credential_bytes p @ d) c'"
    unfolding moved_def by (intro conjI exI [of _ ?p]) (simp_all add: c')
qed

lemma byte_text:
  assumes "formats_numbers E" "length dst = 4"
  shows "bin_to_dec E dst (ucast (n :: u8)) = Ok (dec (unat n) @ 0 # drop (length (dec (unat n)) + 1) dst, length (dec (unat n)) + 1)"
  using bin_to_dec_wp [OF assms(1), of dst "ucast n"] length_dec_u8 [of n] assms(2) by (cases "bin_to_dec E dst (ucast n)") auto

lemma index_text:
  assumes "formats_numbers E" "length dst = 9"
  shows "number_to_text E dst (ucast (v :: u32)) =
    (if length (dec (unat v)) \<le> 9 then Ok (dec (unat v) @ drop (length (dec (unat v))) dst, length (dec (unat v)))
     else Err ERROR_BUFFER_OVERFLOW)"
  using number_to_text_wp [OF assms(1), of dst "ucast v"] assms(2) by (cases "number_to_text E dst (ucast v)") auto

lemma cred_threshold:
  assumes E: "platform E" and wf: "wf_app s" "wf_credential c" and len: "length data < 256"
    and a: "arrived E alone TX_CREDENTIAL_DEPLOYMENT_SIGNATURE_THRESHOLD c p"
  shows "wp (cred_threshold_packet E data (at_cred s (pre @ credential_bytes p) c))
    (\<lambda>_. cred_step s (moved E alone pre p c)) (refused s)"
proof -
  note i = wf_cred [OF wf(2)] and F = platformD(4) [OF E] and h = hex_field_Ok [OF platformD(5) [OF E]]
  define C where "C = cred_step s (moved E alone pre p c)"
  define d where "d = take 56 data"
  define idx where "idx = (of_nat (be_nat (take 4 (drop 49 data))) :: u32)"
  have n3: "length (dec (unat (n :: u8))) \<le> 3" for n by (rule length_dec_u8)
  note bd = byte_text [OF F i(2)] and nt = index_text [OF F i(4)]
  have art: "revocation_threshold E n (cd_anonymityRevocationThreshold c) =
      Ok (dec (unat n) @ ascii '' out of '' @ drop (length (dec (unat n)) + 8) (cd_anonymityRevocationThreshold c), length (dec (unat n)) + 8)" for n
    by (rule revocation_threshold_Ok [OF F i(5)])
  have cnt: "at_offset (dec (unat (n :: u8)) @ ascii '' out of '' @ drop (length (dec (unat n)) + 8) (cd_anonymityRevocationThreshold c)) (length (dec (unat n)) + 8)
      (\<lambda>d. bin_to_dec E d (ucast (m :: u16))) =
    Ok ((dec (unat n) @ ascii '' out of '') @ dec (unat m) @ 0 # drop (length (dec (unat m)) + 1) (drop (length (dec (unat n)) + 8) (cd_anonymityRevocationThreshold c)),
      length (dec (unat m)) + 1)" for n m
    by (rule revocation_count_Ok [OF F i(5)])
  have last_byte: "54 \<le> length data \<Longrightarrow> Suc 0 \<le> length data - 53" by simp
  show ?thesis
  proof (cases "56 \<le> length data")
    case True
    have pos: "data \<noteq> []" "\<not> length data - Suc 0 < 48" "\<not> length data - 49 < 4" "\<not> length data - 54 < 2" "Suc 0 \<le> length data - 53"
      using True by auto
    have d: "length d = 56" "d ! 0 = data ! 0" "take 48 (drop 1 d) = take 48 (drop (Suc 0) data)" "take 4 (drop 49 d) = take 4 (drop 49 data)"
      "d ! 53 = data ! 53" "drop 54 d = take 2 (drop 54 data)"
      using True by (simp_all add: d_def drop_take)
    have ix: "provider_index d = unat idx" "unat (of_nat (be_nat (take 2 (drop 54 data))) :: u16) = be_nat (take 2 (drop 54 data))"
      using True by (simp_all add: provider_index_def d(4) idx_def unat_be_nat_4 unat_be_nat_2)
    have split: "take (Suc 0) data @ take 48 (drop (Suc 0) data) @ take 4 (drop 49 data) @ take (Suc 0) (drop 53 data) @ take 2 (drop 54 data) = d"
    proof -
      have "take (1 + (48 + (4 + (1 + 2)))) data = d" by (simp add: d_def)
      then show ?thesis unfolding take_add by (simp add: add.commute)
    qed
    let ?m = "of_nat (be_nat (take 2 (drop 54 data))) :: u16"
    have fin: "C ((at_cred s (pre @ credential_bytes p @ d) (c\<lparr> cd_signatureThreshold := dec (unat (d ! 0)) @ 0 # drop (length (dec (unat (d ! 0))) + 1) (cd_signatureThreshold c),
        cd_regIdCred := upper_hex (take 48 (drop 1 d)) @ [0],
        cd_identityProviderIndex := dec (provider_index d) @ drop (length (dec (provider_index d))) (cd_identityProviderIndex c),
        cd_anonymityRevocationListLength := be_nat (drop 54 d), cd_arListHashDisplay := zeros 65, cd_arListHashCtx := Some [],
        cd_anonymityRevocationThreshold := (dec (unat (d ! 53)) @ ascii '' out of '') @ dec (be_nat (drop 54 d)) @ 0 #
          drop (length (dec (be_nat (drop 54 d))) + 1) (drop (length (dec (unat (d ! 53))) + 8) (cd_anonymityRevocationThreshold c)),
        cd_state := TX_CREDENTIAL_DEPLOYMENT_AR_IDENTITY \<rparr>))\<lparr> replies := replies s @ [([], SWO_SUCCESS)] \<rparr>)"
      if "length (dec (unat idx)) \<le> 9"
    proof -
      have n5: "length (dec (be_nat (drop 54 d))) \<le> 5" using length_dec_u16 [of ?m] unfolding d(6) ix(2) .
      show ?thesis
        unfolding C_def
        by (rule cred_step_replied; rule details_arrived [OF wf(2) a d(1) _ refl])
          (use that ix(1) n5 n3 [of "d ! 0"] n3 [of "d ! 53"] i(2,5) in \<open>simp_all add: eval_nat_numeral\<close>)
    qed
    note fin' = fin [unfolded d(2,3,5,6) ix(1), folded split]
    show ?thesis
      unfolding C_def [symmetric]
      using True i(2-5,8) wf(1) len pos fin'
      by (simp add: cred_threshold_packet_def Let_def byte_at_def bd h art cnt idx_def [symmetric] nt ix(2))
  next
    case False
    then consider "length data < 1" | "1 \<le> length data" "length data < 49" | "49 \<le> length data" "length data < 53"
      | "53 \<le> length data" "length data < 54" | "54 \<le> length data" "length data < 56" by linarith
    then show ?thesis
      unfolding C_def [symmetric]
      using i(2-5,8) wf(1) len last_byte
      by cases (simp_all add: cred_threshold_packet_def Let_def byte_at_def bd h art nt idx_def [symmetric])
  qed
qed

subsection \<open>The revokers\<close>

lemma wp_revoker_bytes:
  assumes "cd_arListHashCtx c = Some h"
  shows "wp (revoker_bytes E data n (at_cred s m c)) Q X \<longleftrightarrow> n \<le> length data \<and>
    (if sdk_hash_update E m (take n data) then
       if sdk_hash_update E h (take n data)
       then Q () (at_cred s (m @ take n data) (c\<lparr> cd_arListHashCtx := Some (h @ take n data) \<rparr>))
       else X ERROR_FAILED_CX_OPERATION (at_cred s (m @ take n data) c)
     else X ERROR_FAILED_CX_OPERATION (at_cred s m c))"
  using assms by (auto simp: revoker_bytes_def update_ctx_def slice_Ok)

lemma screens_frame [simp]:
  "credential_screens (p\<lparr> p_details := d \<rparr>) = credential_screens p" "credential_screens (p\<lparr> p_revokers := rs \<rparr>) = credential_screens p"
  "credential_screens (p\<lparr> p_dates := d \<rparr>) = credential_screens p" "credential_screens (p\<lparr> p_half := d \<rparr>) = credential_screens p"
  "credential_screens (p\<lparr> p_length := d \<rparr>) = credential_screens p" "credential_screens (p\<lparr> p_proofs := d \<rparr>) = credential_screens p"
  by (simp_all add: credential_screens_def)

lemma cred_revoker:
  assumes E: "platform E" and wf: "wf_app s" "wf_credential c" and len: "length data < 256"
    and a: "arrived E alone TX_CREDENTIAL_DEPLOYMENT_AR_IDENTITY c p" "cd_state c = TX_CREDENTIAL_DEPLOYMENT_AR_IDENTITY"
  shows "wp (cred_revoker_packet E data (at_cred s (pre @ credential_bytes p) c))
    (\<lambda>_. cred_step s (moved E alone pre p c)) (refused s)"
proof -
  note i = wf_cred [OF wf(2)] and h = hex_field_Ok [OF platformD(5) [OF E]]
  have ctx: "cd_arListHashCtx c = Some (concat (p_revokers p))" using a(1) by simp
  show ?thesis
  proof (cases "cd_anonymityRevocationListLength c \<noteq> 0 \<and> 100 \<le> length data")
    case True
    let ?r = "take 100 data"
    let ?p = "p\<lparr> p_revokers := p_revokers p @ [?r] \<rparr>"
    let ?n = "cd_anonymityRevocationListLength c - 1"
    have r: "take 4 data @ take 96 (drop 4 data) = ?r" by (simp flip: take_add)
    have w: "min (length data) 4 = 4" "min (length data - 4) 96 = 96" using True by auto
    let ?c = "c\<lparr> cd_arIdentity := upper_hex (take 4 data) @ [0], cd_encIdCredPubShare := upper_hex (take 96 (drop 4 data)) @ [0] \<rparr>"
    have det: "detailed ?p" "p_dates ?p = []" "no_attributes ?p" using a(1) True by (auto simp: cred_shapes)
    have bytes: "pre @ credential_bytes p @ ?r = pre @ credential_bytes ?p"
      using a(1) by (simp add: credential_bytes_def cred_shapes)
    have ups: "key_up c' ?p" "details_up alone c' ?p"
      if "cd_accountVerificationKey c' = cd_accountVerificationKey c" "cd_signatureThreshold c' = cd_signatureThreshold c"
        "cd_regIdCred c' = cd_regIdCred c" "cd_identityProviderIndex c' = cd_identityProviderIndex c"
        "cd_anonymityRevocationThreshold c' = cd_anonymityRevocationThreshold c" for c'
      using a(1) that by (simp_all add: cred_ups)
    have more_c: "?n + length (p_revokers ?p) = be_nat (drop 54 (p_details ?p))" using a(1) True by simp
    define C where "C = cred_step s (moved E alone pre p c)"
    have more_up: "C ((at_cred s (pre @ credential_bytes p @ ?r)
        (?c\<lparr> cd_arListHashCtx := Some (concat (p_revokers p) @ ?r), cd_anonymityRevocationListLength := ?n \<rparr>))
        \<lparr> replies := replies s @ [([], SWO_SUCCESS)] \<rparr>)"
      unfolding C_def
    proof (rule cred_step_replied)
      let ?d = "?c\<lparr> cd_arListHashCtx := Some (concat (p_revokers p) @ ?r), cd_anonymityRevocationListLength := ?n \<rparr>"
      show "wf_credential ?d" using wf(2) w by (simp add: wf_credential_def cbuf_def)
      have "arrived E alone (cd_state ?d) ?d ?p" using det more_c ups [of ?d] a(2) by simp
      then show "moved E alone pre p c None (pre @ credential_bytes p @ ?r) ?d"
        unfolding moved_def using bytes by (intro conjI exI [of _ ?p]) simp_all
    qed
    have last_up: "C ((at_cred s (pre @ credential_bytes p @ ?r)
        (?c\<lparr> cd_arListHashCtx := None, cd_arListHashDisplay := upper_hex digest @ [0],
          cd_state := TX_CREDENTIAL_DEPLOYMENT_CREDENTIAL_DATES, cd_anonymityRevocationListLength := 0 \<rparr>))
        \<lparr> replies := replies s @ [([], SWO_SUCCESS)] \<rparr>)"
      if dg: "sdk_hash_final E (concat (p_revokers p) @ ?r) = Some digest" "length digest = 32" and n1: "?n = 0" for digest
      unfolding C_def
    proof (rule cred_step_replied)
      let ?d = "?c\<lparr> cd_arListHashCtx := None, cd_arListHashDisplay := upper_hex digest @ [0],
          cd_state := TX_CREDENTIAL_DEPLOYMENT_CREDENTIAL_DATES, cd_anonymityRevocationListLength := 0 \<rparr>"
      show "wf_credential ?d" using wf(2) w dg(2) by (simp add: wf_credential_def cbuf_def)
      have "revoked ?p" using det(1) more_c n1 by (simp add: revoked_def)
      moreover have "digest_up E ?d ?p" using dg(1) by (simp add: digest_up_def min_def)
      ultimately have "arrived E alone (cd_state ?d) ?d ?p" using det ups [of ?d] by (simp add: all_up_def)
      then show "moved E alone pre p c None (pre @ credential_bytes p @ ?r) ?d"
        unfolding moved_def using bytes by (intro conjI exI [of _ ?p]) simp_all
    qed
    have fin: "final_ctx E (Some (concat (p_revokers p) @ ?r)) =
        (case sdk_hash_final E (concat (p_revokers p) @ ?r) of None \<Rightarrow> Err ERROR_FAILED_CX_OPERATION | Some d \<Rightarrow> Ok d)"
      by (simp add: final_ctx_def)
    have dl: "length d = 32" if "sdk_hash_final E m = Some d" for m d
      using platformD(6) [OF E] that by (simp add: digests_def)
    have hx: "hex_into E e d (cd_arListHashDisplay c) = Ok (upper_hex d @ [0])" if "length d = 32" for e d
      using hex_into_Ok [OF platformD(5) [OF E], of d "cd_arListHashDisplay c"] that i(8) by simp
    have sub: "sub8 (length data) 4 = length data - 4" "\<not> length data - 4 < 96" "96 \<le> length data - 4" using True len by auto
    show ?thesis
      unfolding C_def [symmetric]
      using True i(6,7) wf(1) sub more_up last_up
      by (auto simp: cred_revoker_packet_def Let_def h wp_revoker_bytes ctx r fin dl hx split: option.splits)
  next
    case False
    then consider "cd_anonymityRevocationListLength c = 0" | "length data < 4" "cd_anonymityRevocationListLength c \<noteq> 0"
      | "4 \<le> length data" "length data - 4 < 96" "cd_anonymityRevocationListLength c \<noteq> 0" by linarith
    then show ?thesis
      using i(6,7) wf(1) len by cases (simp_all add: cred_revoker_packet_def Let_def h wp_revoker_bytes ctx)
  qed
qed

end
