(* ===== verification/CredentialFlow.thy ===== *)
theory CredentialFlow
  imports Credential
begin

text \<open>
  The packets of a credential behind its revokers, and the two instructions' common contract: whatever
  packet comes, the context goes on to hold what has arrived.
\<close>

subsection \<open>Dates and attributes\<close>

lemma drop_zeros: "drop k (zeros n) = zeros (n - k)"
  by (simp add: zeros_def)

lemma cstr_front: "0 \<notin> set a \<Longrightarrow> cstr (a @ b) = a @ cstr b"
  by (induction a) (auto simp: cstr_def)

lemma put_zeros: "length src \<le> n \<Longrightarrow> put (zeros n) 0 src = Ok (src @ zeros (n - length src))"
  by (simp add: put_def drop_zeros)

lemma attribute_names:
  "name \<in> set ATTRIBUTE_NAMES \<Longrightarrow> length name < 24 \<and> 0 \<notin> set (ascii name)"
  by (auto simp: ATTRIBUTE_NAMES_def ascii_def)

lemma attribute_name_Ok:
  assumes E: "formats_numbers E" and l: "length dst = 24"
  obtains d where "attribute_name_for_tag E tag dst = Ok d" "cbuf 24 d" "cstr d = attribute_name tag"
proof (cases "unat tag < length ATTRIBUTE_NAMES")
  case True
  let ?name = "ascii (ATTRIBUTE_NAMES ! unat tag)"
  have n: "length ?name < 24" "0 \<notin> set ?name" using attribute_names [OF nth_mem [OF True]] by simp_all
  have "attribute_name_for_tag E tag dst = Ok (?name @ zeros (24 - length ?name))"
    using True n l by (simp add: attribute_name_for_tag_def Let_def put_zeros)
  moreover have "cbuf 24 (?name @ zeros (24 - length ?name))" "cstr (?name @ zeros (24 - length ?name)) = ?name"
    using n by simp_all
  ultimately show ?thesis using that True by (simp add: attribute_name_def)
next
  case False
  let ?pre = "ascii ''Attribute #''" and ?n = "dec (unat tag)"
  have n: "length ?n \<le> 3" "0 \<notin> set (?pre @ ?n)" using length_dec_u8 by simp_all
  have lp: "length ?pre = 11" by (simp add: eval_nat_numeral)
  have "put (zeros 24) 0 ?pre = Ok (?pre @ zeros 13)" using put_zeros [of ?pre 24] lp by simp
  moreover have "at_offset (?pre @ zeros 13) 11 (\<lambda>d. bin_to_dec E d (ucast tag)) =
      Ok (?pre @ ?n @ 0 # zeros (12 - length ?n), length ?n + 1)"
    using decimal_at_offset [OF E, of "ucast tag" "zeros 13" 11 ?pre] n(1) lp by (simp add: drop_zeros)
  ultimately have "attribute_name_for_tag E tag dst = Ok (?pre @ ?n @ 0 # zeros (12 - length ?n))"
    using False l lp by (simp add: attribute_name_for_tag_def Let_def del: length_ascii)
  moreover have "cstr (?pre @ ?n @ 0 # zeros (12 - length ?n)) = ?pre @ ?n"
    using cstr_NUL [OF n(2), of "zeros (12 - length ?n)"] by simp
  moreover have "cbuf 24 ((?pre @ ?n) @ 0 # zeros (12 - length ?n))" using n(1) unfolding cbuf_NUL by (simp add: eval_nat_numeral)
  ultimately show ?thesis using that False by (simp add: attribute_name_def)
qed

lemma all_up_frame:
  assumes "all_up E alone c p"
    "cd_accountVerificationKey c' = cd_accountVerificationKey c" "cd_signatureThreshold c' = cd_signatureThreshold c"
    "cd_regIdCred c' = cd_regIdCred c" "cd_identityProviderIndex c' = cd_identityProviderIndex c"
    "cd_anonymityRevocationThreshold c' = cd_anonymityRevocationThreshold c" "cd_arListHashDisplay c' = cd_arListHashDisplay c"
    "cd_arIdentity c' = cd_arIdentity c" "p_keys p' = p_keys p" "p_details p' = p_details p" "p_revokers p' = p_revokers p"
  shows "all_up E alone c' p'"
  using assms by (simp add: cred_ups)

lemma cred_dates:
  assumes wf: "wf_app s" "wf_credential c" and len: "length data < 256"
    and a: "arrived E alone TX_CREDENTIAL_DEPLOYMENT_CREDENTIAL_DATES c p"
  shows "wp (cred_dates_packet E data (at_cred s (pre @ credential_bytes p) c))
    (\<lambda>_. cred_step s (moved E alone pre p c)) (refused s)"
proof (cases "8 \<le> length data")
  case True
  let ?d = "take 8 data" and ?n = "be_nat (take 2 (drop 6 data))"
  let ?st = "if ?n = 0 then TX_CREDENTIAL_DEPLOYMENT_LENGTH_OF_PROOFS else TX_CREDENTIAL_DEPLOYMENT_ATTRIBUTE_TAG"
  let ?p = "p\<lparr> p_dates := ?d \<rparr>" and ?c = "c\<lparr> cd_attributeListLength := ?n, cd_state := ?st \<rparr>"
  have d: "take 6 data @ take 2 (drop 6 data) = ?d" by (simp flip: take_add)
  have n: "unat (of_nat ?n :: u16) = ?n" "drop 6 ?d = take 2 (drop 6 data)" using True by (simp_all add: unat_be_nat_2 drop_take)
  have "dated ?p ?n" "p_half ?p = []" "no_proofs ?p" using a True n(2) by (auto simp: cred_shapes)
  moreover have "all_up E alone ?c ?p" by (rule all_up_frame [of E alone c p]) (use a in simp_all)
  ultimately have "arrived E alone (cd_state ?c) ?c ?p" by (cases "?n = 0") simp_all
  moreover have "pre @ credential_bytes p @ ?d = pre @ credential_bytes ?p" using a by (simp add: credential_bytes_def cred_shapes)
  ultimately have "moved E alone pre p c None (pre @ credential_bytes p @ ?d) ?c"
    unfolding moved_def by (intro conjI exI [of _ ?p]) simp_all
  moreover have "wf_credential ?c" using wf(2) by (simp add: wf_credential_def)
  ultimately have fin: "cred_step s (moved E alone pre p c) ((at_cred s (pre @ credential_bytes p @ ?d) ?c)\<lparr> replies := replies s @ [([], SWO_SUCCESS)] \<rparr>)"
    by (intro cred_step_replied)
  have pos: "\<not> length data - 6 < 2" "2 \<le> length data - 6" using True by auto
  define C where "C = cred_step s (moved E alone pre p c)"
  show ?thesis
    using True pos len wf(1) fin unfolding C_def [symmetric] by (simp add: cred_dates_packet_def Let_def n(1) d)
next
  case False
  then consider "length data < 6" | "6 \<le> length data" "length data - 6 < 2" by linarith
  then show ?thesis using wf(1) len by cases (simp_all add: cred_dates_packet_def Let_def)
qed

lemma cred_attribute_tag:
  assumes E: "platform E" and wf: "wf_app s" "wf_credential c" and len: "length data < 256"
    and a: "arrived E alone TX_CREDENTIAL_DEPLOYMENT_ATTRIBUTE_TAG c p"
  shows "wp (cred_attribute_tag_packet E data (at_cred s (pre @ credential_bytes p) c))
    (\<lambda>_. cred_step s (moved E alone pre p c)) (refused s)"
proof (cases "cd_attributeListLength c \<noteq> 0 \<and> (\<exists>tag n rest. data = tag # n # rest)")
  case True
  then obtain tag n rest where d: "data = tag # n # rest" by blast
  obtain nm where nm: "attribute_name_for_tag E tag (cd_attributeName c) = Ok nm" "cbuf 24 nm" "cstr nm = attribute_name tag"
    by (rule attribute_name_Ok [OF platformD(4) [OF E] wf_cred(9) [OF wf(2)]])
  let ?p = "p\<lparr> p_half := [tag, n] \<rparr>"
  let ?c = "c\<lparr> cd_attributeName := nm, cd_attributeValueLength := unat n, cd_state := TX_CREDENTIAL_DEPLOYMENT_ATTRIBUTE_VALUE \<rparr>"
  have "dated ?p (cd_attributeListLength ?c)" "no_proofs ?p" using a by (auto simp: cred_shapes)
  moreover have "all_up E alone ?c ?p" by (rule all_up_frame [of E alone c p]) (use a in simp_all)
  ultimately have "arrived E alone (cd_state ?c) ?c ?p" using True nm(3) by simp
  moreover have "pre @ credential_bytes p @ [tag, n] = pre @ credential_bytes ?p" using a by (simp add: credential_bytes_def cred_shapes)
  ultimately have "moved E alone pre p c None (pre @ credential_bytes p @ [tag, n]) ?c"
    unfolding moved_def by (intro conjI exI [of _ ?p]) simp_all
  moreover have "wf_credential ?c" using wf(2) nm(2) by (simp add: wf_credential_def)
  ultimately have fin: "cred_step s (moved E alone pre p c) ((at_cred s (pre @ credential_bytes p @ [tag, n]) ?c)\<lparr> replies := replies s @ [([], SWO_SUCCESS)] \<rparr>)"
    by (intro cred_step_replied)
  have sub: "sub8 (Suc (Suc (length rest))) (Suc 0) = Suc (length rest)" using len d by simp
  define C where "C = cred_step s (moved E alone pre p c)"
  show ?thesis
    using True d wf(1) fin unfolding C_def [symmetric] by (simp add: cred_attribute_tag_packet_def byte_at_def Let_def nm(1) sub)
next
  case False
  have "\<exists>d. attribute_name_for_tag E tag (cd_attributeName c) = Ok d" for tag
    by (rule attribute_name_Ok [OF platformD(4) [OF E] wf_cred(9) [OF wf(2)]]) blast
  then obtain nm where nm: "attribute_name_for_tag E tag (cd_attributeName c) = Ok (nm tag)" for tag by metis
  from False consider "cd_attributeListLength c = 0" | "data = []" | tag where "data = [tag]" by (cases data; cases "tl data") auto
  then show ?thesis using wf(1) by cases (simp_all add: cred_attribute_tag_packet_def byte_at_def Let_def nm)
qed

lemma cred_attribute_value:
  assumes wf: "wf_app s" "wf_credential c" and len: "length data < 256"
    and a: "arrived E alone TX_CREDENTIAL_DEPLOYMENT_ATTRIBUTE_VALUE c p" "cd_state c = TX_CREDENTIAL_DEPLOYMENT_ATTRIBUTE_VALUE"
  shows "wp (cred_attribute_value_packet E data (at_cred s (pre @ credential_bytes p) c))
    (\<lambda>_. cred_step s (moved E alone pre p c)) (refused s)"
proof -
  let ?n = "cd_attributeValueLength c"
  let ?v = "take ?n data"
  show ?thesis
  proof (cases "?n \<le> length data \<and> \<not> (\<exists>b \<in> set ?v. b < 0x20 \<or> b = 0x7f)")
    case True
    have n: "?n < 256" "length (cd_attributeValue c) = 256" using a(1) unat_bounds(1) wf_cred(10) [OF wf(2)] by auto
    let ?a = "p_half p @ ?v"
    let ?p = "p\<lparr> p_attributes := p_attributes p @ [?a], p_half := [] \<rparr>"
    let ?c = "c\<lparr> cd_attributeValue := ?v @ 0 # zeros (255 - ?n) \<rparr>"
    have lv: "length ?v = ?n" using True by simp
    have z: "0 \<notin> set ?v" using True by (auto dest: bspec [of _ _ 0])
    have half: "drop 2 ?a = ?v" "?a ! 0 = p_half p ! 0" "?a ! 1 = p_half p ! 1" "2 \<le> length ?a"
      using a(1) by (simp_all add: nth_append)
    have at: "is_attribute ?a" unfolding is_attribute_def half using a(1) True half(4) by auto
    have "dated ?p (cd_attributeListLength ?c - 1)" using a(1) at by (auto simp: cred_shapes)
    moreover have "all_up E alone ?c ?p" by (rule all_up_frame [of E alone c p]) (use a in simp_all)
    ultimately have up: "attribute_on_screen E alone ?c ?p rv"
      if "rv_callback rv = review_credential_attribute" "rv_pairs rv = attribute_screen ?a" for rv
      using a that lv half(1) by (simp add: attribute_on_screen_def cred_shapes)
    have bytes: "pre @ credential_bytes p @ ?v = pre @ credential_bytes ?p" using a(1) by (simp add: credential_bytes_def cred_shapes)
    have scr: "credential_screens ?p = credential_screens p @ [attribute_screen ?a]" by (simp add: credential_screens_def)
    have wc: "wf_credential ?c" using wf(2) True n by (simp add: wf_credential_def)
    have fin: "cred_step s (moved E alone pre p c) ((at_cred s (pre @ credential_bytes p @ ?v) ?c)
        \<lparr> screen := Some rv, status_page := False, async_reply := True \<rparr>)"
      if "rv_callback rv = review_credential_attribute" "rv_pairs rv = attribute_screen ?a" for rv
    proof (rule cred_step_drawn [OF wc])
      show "moved E alone pre p c (Some rv) (pre @ credential_bytes p @ ?v) ?c"
        unfolding moved_def using up [OF that] bytes scr that(2) by (intro conjI exI [of _ ?p]) simp_all
    qed
    define buf where "buf = ?v @ 0 # zeros (255 - ?n)"
    have pt: "rbind (put (zeros (length (cd_attributeValue c))) 0 ?v) (\<lambda>d. put d ?n [0]) = Ok buf"
      using lv n put_zeros [of ?v 256] put_append [of "[0]" "zeros (256 - ?n)" ?v] by (simp add: drop_zeros buf_def del: rwp_put)
    have cs: "cstr buf = ?v" "0 \<in> set buf" unfolding buf_def by (rule cstr_NUL [OF z]) simp
    have nm: "0 \<in> set (cd_attributeName c)" "cstr (cd_attributeName c) = attribute_name (p_half p ! 0)"
      using wf_cred(20) [OF wf(2)] a(1) by simp_all
    define C where "C = cred_step s (moved E alone pre p c)"
    note fin = fin [folded C_def buf_def]
    have pt': "rwp (rbind (put (zeros (length (cd_attributeValue c))) 0 ?v) (\<lambda>d. put d ?n [0])) P X = P buf" for P X
      by (simp only: pt rwp.simps)
    have clean: "\<not> (\<exists>b \<in> set ?v. b < 0x20 \<or> b = 0x7f)" using True by blast
    have hl: "length (p_half p) = 2" using a(1) by simp
    show ?thesis
      using True wf(1) fin nm(1) unfolding C_def [symmetric]
      by (simp add: cred_attribute_value_packet_def Let_def pt' cs nm(2) uiSignCredentialDeploymentAttributeDisplay_def
          use_case_defs attribute_screen_def half(1,2) hl request_async_reply_def if_not_P [OF clean] del: rwp_put rwp_bind)
  next
    case False
    then consider "length data < ?n" | "?n \<le> length data" "\<exists>b \<in> set ?v. b < 0x20 \<or> b = 0x7f" by fastforce
    then show ?thesis using wf(1) by cases (auto simp: cred_attribute_value_packet_def Let_def)
  qed
qed

subsection \<open>Proofs\<close>

lemma cred_proof_length:
  assumes wf: "wf_app s" "wf_credential c" and p2: "alone \<or> p2 = 2"
    and a: "arrived E alone TX_CREDENTIAL_DEPLOYMENT_LENGTH_OF_PROOFS c p"
  shows "wp (cred_proof_length_packet E p2 data (at_cred s (pre @ credential_bytes p) c))
    (\<lambda>_. cred_step s (moved E alone pre p c)) (refused s)"
proof (cases "4 \<le> length data")
  case True
  let ?d = "take 4 data" and ?c = "c\<lparr> cd_proofLength := be_nat (take 4 data), cd_state := TX_CREDENTIAL_DEPLOYMENT_PROOFS \<rparr>"
  let ?p = "p\<lparr> p_length := if p2 = 2 then ?d else [] \<rparr>"
  have n: "unat (of_nat (be_nat ?d) :: u32) = be_nat ?d" using True by (simp add: unat_be_nat_4)
  have "proving alone ?p (cd_proofLength ?c)" using a p2 True by (auto simp: cred_shapes)
  moreover have "all_up E alone ?c ?p" by (rule all_up_frame [of E alone c p]) (use a in simp_all)
  ultimately have "arrived E alone (cd_state ?c) ?c ?p" by simp
  moreover have "pre @ credential_bytes p @ p_length ?p = pre @ credential_bytes ?p" using a by (simp add: credential_bytes_def cred_shapes)
  ultimately have "moved E alone pre p c None (pre @ credential_bytes p @ p_length ?p) ?c"
    unfolding moved_def by (intro conjI exI [of _ ?p]) simp_all
  moreover have "wf_credential ?c" using wf(2) by (simp add: wf_credential_def)
  ultimately have fin: "cred_step s (moved E alone pre p c) ((at_cred s (pre @ credential_bytes p @ p_length ?p) ?c)\<lparr> replies := replies s @ [([], SWO_SUCCESS)] \<rparr>)"
    by (intro cred_step_replied)
  define C where "C = cred_step s (moved E alone pre p c)"
  show ?thesis
    using True wf(1) fin unfolding C_def [symmetric] by (cases "p2 = 2") (simp_all add: cred_proof_length_packet_def Let_def n)
next
  case False
  then show ?thesis using wf(1) by (simp add: cred_proof_length_packet_def)
qed

lemma proving_chunk:
  assumes "proving alone p n" "length d \<le> n"
  shows "proving alone (p\<lparr> p_proofs := p_proofs p @ d \<rparr>) (n - length d)"
    "credential_bytes (p\<lparr> p_proofs := p_proofs p @ d \<rparr>) = credential_bytes p @ d"
  using assms by (auto simp: cred_shapes credential_bytes_def)

text \<open>The text of the identity provider: its index, and what the buffers behind it hold.\<close>

lemma provider_shown:
  assumes wf: "wf_credential c" and a: "all_up E alone c p"
  shows "0 \<in> set (provider_text c)" "provider_rows E alone p (cstr (provider_text c))"
proof -
  note i = wf_cred [OF wf]
  show "0 \<in> set (provider_text c)" using i(18) by (simp add: provider_text_def)
  let ?d = "dec (provider_index (p_details p))"
  obtain old where old: "cd_identityProviderIndex c = ?d @ old" "alone \<longrightarrow> old = zeros (length old)"
    using a by (auto simp: all_up_def details_up_def provider_up_def Let_def)
  have cs: "cstr (provider_text c) = ?d @ cstr (old @ cd_arIdentity c)"
    by (simp add: provider_text_def old cstr_front)
  have l: "length (dec (provider_index (p_details p))) \<le> 9" using i(4) arg_cong [OF old(1), of length] by simp
  then have l9: "provider_index (p_details p) < 10 ^ 9" using length_dec_ge [of 9 "provider_index (p_details p)"] by force
  have "cstr (old @ cd_arIdentity c) = provider_tail p" if al: "10 ^ 8 \<le> provider_index (p_details p)"
  proof -
    have "9 \<le> length ?d" using al length_dec_9 [of "provider_index (p_details p)"] by linarith
    moreover have "length ?d + length old = 9" using i(4) arg_cong [OF old(1), of length] by simp
    ultimately have "old = []" by (metis add_le_same_cancel1 le_zero_eq length_0_conv)
    moreover have "cd_arIdentity c = upper_hex (take 4 (last (p_revokers p))) @ [0]"
      using a by (simp add: all_up_def digest_up_def)
    ultimately show ?thesis using al by (simp add: provider_tail_def)
  qed
  moreover have "cstr (old @ cd_arIdentity c) = provider_tail p" if al: "alone" "provider_index (p_details p) < 10 ^ 8"
  proof -
    have "length ?d \<le> 8" using that(2) length_dec_9 by blast
    then have "old \<noteq> []" using i(4) old(1) by auto
    then obtain n where "length old = Suc n" by (cases old) auto
    then have "old = 0 # zeros n" using old(2) al(1) by (simp add: zeros_def)
    then show ?thesis using al(2) by (simp add: cstr_def provider_tail_def)
  qed
  ultimately show "provider_rows E alone p (cstr (provider_text c))" unfolding provider_rows_def cs using l9
    by (intro exI [of _ "cstr (old @ cd_arIdentity c)"], cases "provider_index (p_details p) < 10 ^ 8") auto
qed

lemma provider_alone:
  "provider_rows E True p provider \<longleftrightarrow>
    provider = dec (provider_index (p_details p)) @ provider_tail p \<and> provider_index (p_details p) < 10 ^ 9"
  by (auto simp: provider_rows_def)

lemma cred_proofs:
  assumes wf: "wf_app s" "wf_credential c"
    and a: "arrived E alone TX_CREDENTIAL_DEPLOYMENT_PROOFS c p" "cd_state c = TX_CREDENTIAL_DEPLOYMENT_PROOFS"
    and up: "alone \<Longrightarrow> cd_updateCredentialState c \<noteq> TX_UPDATE_CREDENTIAL_CREDENTIAL"
      "\<not> alone \<Longrightarrow> p2 = 2 \<and> cd_updateCredentialState c = TX_UPDATE_CREDENTIAL_CREDENTIAL \<and> 0 < cd_credentialDeploymentCount c"
  shows "wp (cred_proofs_packet E p2 data (at_cred s (pre @ credential_bytes p) c))
    (\<lambda>_. cred_step s (moved E alone pre p c)) (refused s)"
proof -
  let ?n = "cd_proofLength c"
  have a': "proving alone p ?n" "all_up E alone c p" using a(1) by simp_all
  define C where "C = cred_step s (moved E alone pre p c)"
  consider "255 < ?n" "length data < 255" | "255 < ?n" "255 \<le> length data" | "?n \<le> 255" "length data < ?n"
    | "?n \<le> 255" "?n \<le> length data" by linarith
  then show ?thesis
  proof cases
    case 2
    let ?d = "take 255 data" and ?c = "c\<lparr> cd_proofLength := ?n - 255 \<rparr>"
    let ?p = "p\<lparr> p_proofs := p_proofs p @ ?d \<rparr>"
    have l: "length ?d = 255" using 2 by simp
    note ch = proving_chunk [OF a'(1), of ?d, unfolded l, OF less_imp_le [OF 2(1)]]
    have "all_up E alone ?c ?p" by (rule all_up_frame [OF a'(2)]) simp_all
    then have "arrived E alone (cd_state ?c) ?c ?p" using a(2) ch(1) by simp
    then have "moved E alone pre p c None (pre @ credential_bytes p @ ?d) ?c"
      unfolding moved_def using ch(2) by (intro conjI exI [of _ ?p]) simp_all
    moreover have "wf_credential ?c" using wf(2) by (simp add: wf_credential_def)
    ultimately have fin: "C ((at_cred s (pre @ credential_bytes p @ ?d) ?c)\<lparr> replies := replies s @ [([], SWO_SUCCESS)] \<rparr>)"
      unfolding C_def by (intro cred_step_replied)
    show ?thesis using 2 wf(1) fin unfolding C_def [symmetric] by (simp add: cred_proofs_packet_def)
  next
    case 4
    let ?d = "take ?n data" and ?c = "c\<lparr> cd_state := TX_CREDENTIAL_DEPLOYMENT_NEW_OR_EXISTING \<rparr>"
    let ?p = "p\<lparr> p_proofs := p_proofs p @ ?d \<rparr>"
    have l: "length ?d = ?n" using 4 by simp
    note ch = proving_chunk [OF a'(1), of ?d, unfolded l diff_self_eq_0, OF order_refl]
    have au: "all_up E alone ?c ?p" "all_up E alone c ?p" by (rule all_up_frame [OF a'(2)]; simp)+
    have fin1: "C ((at_cred s (pre @ credential_bytes p @ ?d) ?c)\<lparr> replies := replies s @ [([], SWO_SUCCESS)] \<rparr>)" if "alone"
      unfolding C_def
    proof (rule cred_step_replied)
      have "arrived E alone (cd_state ?c) ?c ?p" using that ch(1) au by simp
      then show "moved E alone pre p c None (pre @ credential_bytes p @ ?d) ?c"
        unfolding moved_def using ch(2) by (intro conjI exI [of _ ?p]) (simp_all del: arrived.simps)
      show "wf_credential ?c" using wf(2) by (simp add: wf_credential_def)
    qed
    have fin2: "C ((at_cred s (pre @ credential_bytes p @ ?d) c)\<lparr> screen := Some rv, status_page := False, async_reply := True \<rparr>)"
      if "\<not> alone" "rv_callback rv = review_added_credential" "rv_pairs rv = added_rows E ?p (cstr (provider_text c))" for rv
      unfolding C_def
    proof (rule cred_step_drawn [OF wf(2)])
      have "added_on_screen E alone c ?p rv"
        using ch(1) that up(2) provider_shown(2) [OF wf(2) au(2)] unfolding added_on_screen_def by blast
      then show "moved E alone pre p c (Some rv) (pre @ credential_bytes p @ ?d) c"
        unfolding moved_def using ch(2) by (intro conjI exI [of _ ?p]) simp_all
    qed
    have rows: "cstr (cd_accountVerificationKey c) = hex_pages (drop 2 (last (p_keys p)))"
      "cstr (cd_signatureThreshold c) = dec (unat (p_details p ! 0))" "cstr (cd_regIdCred c) = upper_hex (take 48 (drop 1 (p_details p)))"
      "cstr (cd_anonymityRevocationThreshold c) = revocation_text (p_details p)"
      "cstr (cd_arListHashDisplay c) = upper_hex (the (sdk_hash_final E (concat (p_revokers p))))"
      using a'(2) by (auto simp: all_up_def key_up_def details_up_def digest_up_def Let_def)
    note i = wf_cred [OF wf(2)] provider_shown(1) [OF wf(2) a'(2)]
    have draw: "wp (uiSignUpdateCredentialAddedCredentialDisplay (at_cred s (pre @ credential_bytes p @ ?d) c)) (\<lambda>_. C) (refused s)"
      if "\<not> alone"
      using fin2 [OF that] i rows
      by (simp add: uiSignUpdateCredentialAddedCredentialDisplay_def Let_def use_case_defs added_rows_def request_async_reply_def)
    show ?thesis
    proof (cases alone)
      case True
      then show ?thesis using 4 wf(1) fin1 up unfolding C_def [symmetric] by (simp add: cred_proofs_packet_def)
    next
      case False
      then show ?thesis using 4 wf(1) draw up unfolding C_def [symmetric] by (simp add: cred_proofs_packet_def)
    qed
  qed (use wf(1) in \<open>simp_all add: cred_proofs_packet_def\<close>)
qed

subsection \<open>The account\<close>

text \<open>What a deployment ends with: a new account, with eight bytes of data that no screen shows, or the
  address of an account.\<close>

datatype deployed_on = New_account bytes | Existing_account bytes

fun account_ok :: "sdk \<Rightarrow> deployed_on \<Rightarrow> bool" where
  "account_ok E (New_account d) = (length d = 8)"
| "account_ok E (Existing_account addr) = (length addr = 32 \<and> address_text E addr \<noteq> None)"

fun account_bytes :: "deployed_on \<Rightarrow> bytes" where
  "account_bytes (New_account d) = 0 # d"
| "account_bytes (Existing_account addr) = 1 # addr"

fun account_rows :: "sdk \<Rightarrow> deployed_on \<Rightarrow> (bytes \<times> bytes) list" where
  "account_rows E (New_account d) = []"
| "account_rows E (Existing_account addr) = [(ascii ''Address'', the (address_text E addr))]"

definition deployment_rows :: "sdk \<Rightarrow> parts \<Rightarrow> bytes \<Rightarrow> deployed_on \<Rightarrow> (bytes \<times> bytes) list" where
  "deployment_rows E p provider acc = (let d = p_details p in
     [(ascii ''Public key'', hex_pages (drop 2 (last (p_keys p)))),
      (ascii ''Signature threshold'', dec (unat (d ! 0))), (ascii ''RegIdCred'', upper_hex (take 48 (drop 1 d))),
      (ascii ''Identity provider'', provider), (ascii ''AR threshold'', revocation_text d),
      (ascii ''AR list hash'', upper_hex (the (sdk_hash_final E (concat (p_revokers p)))))] @ account_rows E acc)"

definition asked :: "sdk \<Rightarrow> bool \<Rightarrow> bytes \<Rightarrow> parts \<Rightarrow> signCredentialDeploymentContext \<Rightarrow>
    review option \<Rightarrow> bytes \<Rightarrow> signCredentialDeploymentContext \<Rightarrow> bool" where
  "asked E alone pre p c0 up m c \<longleftrightarrow> counters c = counters c0 \<and> (\<exists>rv acc provider. up = Some rv \<and> account_ok E acc \<and>
     m = pre @ credential_bytes p @ account_bytes acc \<and> provider_rows E alone p provider \<and>
     rv_callback rv = review_choice_sign \<and> rv_pairs rv = deployment_rows E p provider acc)"

lemma asked_step:
  assumes "wf_credential c'" "counters c' = counters c" "account_ok E acc" "provider_rows E alone p provider"
    "m = pre @ credential_bytes p @ account_bytes acc" "rv_callback rv = review_choice_sign" "rv_pairs rv = deployment_rows E p provider acc"
  shows "cred_step s (asked E alone pre p c) ((at_cred s m c')\<lparr> screen := Some rv, status_page := False, async_reply := True \<rparr>)"
  by (rule cred_step_drawn [OF assms(1)]) (use assms(2-) in \<open>auto simp: asked_def\<close>)

lemma credential_rows_shown:
  assumes wf: "wf_credential c" and a: "all_up E alone c p"
  shows "drawable (credential_rows c)" "length (credential_rows c) = 6"
    "shown_rows (credential_rows c) @ account_rows E acc = deployment_rows E p (cstr (provider_text c)) acc"
  using a wf_cred [OF wf] provider_shown(1) [OF wf a]
  by (auto simp: credential_rows_def deployment_rows_def all_up_def key_up_def details_up_def digest_up_def Let_def)

lemma cred_account:
  assumes E: "platform E" and wf: "wf_app s" "wf_credential c" and len: "length data < 256"
    and a: "arrived E alone TX_CREDENTIAL_DEPLOYMENT_NEW_OR_EXISTING c p"
  shows "wp (cred_account_packet E data (at_cred s (pre @ credential_bytes p) c))
    (\<lambda>_. cred_step s (asked E alone pre p c)) (refused s)"
proof (cases data)
  case Nil
  then show ?thesis using wf(1) by (simp add: cred_account_packet_def)
next
  case (Cons b rest)
  have au: "all_up E alone c p" using a by (cases alone) simp_all
  note i = wf_cred [OF wf(2)]
  note pr = provider_shown(2) [OF wf(2) au] and rows = credential_rows_shown [OF wf(2) au]
  have sub: "sub8 (Suc (length rest)) (Suc 0) = length rest" "sub8 (Suc (length rest)) 1 = length rest" using len Cons by simp_all
  define C where "C = cred_step s (asked E alone pre p c)"
  have new: "C ((at_cred s (pre @ credential_bytes p @ 0 # take 8 rest) c)\<lparr> screen := Some rv, status_page := False, async_reply := True \<rparr>)"
    if "8 \<le> length rest" "rv_callback rv = review_choice_sign" "rv_pairs rv = shown_rows (credential_rows c)" for rv
    unfolding C_def
    by (rule asked_step [OF wf(2), where acc = "New_account (take 8 rest)" and provider = "cstr (provider_text c)"])
      (use that pr rows(3) [of "New_account (take 8 rest)"] in simp_all)
  have existing: "C ((at_cred s (pre @ credential_bytes p @ 1 # take 32 rest) (c\<lparr> cd_accountAddress := t @ zeros 7 \<rparr>))
      \<lparr> screen := Some rv, status_page := False, async_reply := True \<rparr>)"
    if "32 \<le> length rest" "address_text E (take 32 rest) = Some t" "length t = 50" "0 \<notin> set t"
      "rv_callback rv = review_choice_sign" "rv_pairs rv = shown_rows (credential_rows c) @ [(ascii ''Address'', t)]" for rv t
    unfolding C_def
    by (rule asked_step [where acc = "Existing_account (take 32 rest)" and provider = "cstr (provider_text c)"])
      (use that pr rows(3) [of "Existing_account (take 32 rest)"] wf(2) in \<open>simp_all add: wf_credential_def address_buffer_def\<close>)
  have t: "length t = 50 \<and> 0 \<notin> set t" if "address_text E (take 32 rest) = Some t" "32 \<le> length rest" for t
    using address_text_Some [OF _ _ _ that(1)] sdk_okD [OF platformD(1) [OF E]] that(2) by simp
  note enc = encode_address_eq [OF platformD(1) [OF E] _ i(11)]
  consider "b = 0" | "b = 1" | "b \<noteq> 0" "b \<noteq> 1" by blast
  then show ?thesis
  proof cases
    case 1
    then show ?thesis
      using Cons wf(1) new rows unfolding C_def [symmetric]
      by (simp add: cred_account_packet_def byte_at_def Let_def sub uiSignCredentialDeploymentNewIntroDisplay_def
          uiSignCredentialDeploymentNewDisplay_def use_case_defs)
  next
    case 2
    show ?thesis
    proof (cases "32 \<le> length rest")
      case True
      show ?thesis
      proof (cases "address_text E (take 32 rest)")
        case None
        then show ?thesis
          using Cons 2 True wf(1) by (simp add: cred_account_packet_def byte_at_def Let_def sub enc)
      next
        case (Some tx)
        note tt = t [OF Some True]
        show ?thesis
          using Cons 2 True wf(1) existing [OF True Some] rows tt Some unfolding C_def [symmetric]
          by (simp add: cred_account_packet_def byte_at_def Let_def sub enc uiSignCredentialDeploymentExistingIntroDisplay_def
              uiSignCredentialDeploymentExistingDisplay_def use_case_defs credential_rows_def provider_text_def)
      qed
    next
      case False
      then show ?thesis using Cons 2 wf(1) by (simp add: cred_account_packet_def byte_at_def Let_def sub)
    qed
  next
    case 3
    then show ?thesis using Cons wf(1) by (simp add: cred_account_packet_def byte_at_def Let_def)
  qed
qed

subsection \<open>The packets of a credential\<close>

definition cred_next :: "sdk \<Rightarrow> bool \<Rightarrow> bytes \<Rightarrow> parts \<Rightarrow> signCredentialDeploymentContext \<Rightarrow> app \<Rightarrow> app \<Rightarrow> bool" where
  "cred_next E alone pre p c s t \<longleftrightarrow> cred_step s (moved E alone pre p c) t \<or>
     alone \<and> proving alone p 0 \<and> cred_step s (asked E alone pre p c) t"

lemma cred_stepE:
  assumes "cred_step s R t"
  obtains (replied) m c where "wf_credential c" "t = (at_cred s m c)\<lparr> replies := replies s @ [([], SWO_SUCCESS)] \<rparr>" "R None m c"
    | (drawn) m c rv where "wf_credential c"
        "t = (at_cred s m c)\<lparr> screen := Some rv, status_page := False, async_reply := True \<rparr>" "R (Some rv) m c"
  using assms unfolding cred_step_def by blast

lemma cred_nextE:
  assumes "cred_next E alone pre p c s t"
  obtains (reply) m c' where "wf_credential c'" "t = (at_cred s m c')\<lparr> replies := replies s @ [([], SWO_SUCCESS)] \<rparr>"
        "moved E alone pre p c None m c'"
    | (drawn) m c' rv where "wf_credential c'"
        "t = (at_cred s m c')\<lparr> screen := Some rv, status_page := False, async_reply := True \<rparr>" "moved E alone pre p c (Some rv) m c'"
    | (last) m c' rv where "alone" "proving alone p 0" "wf_credential c'"
        "t = (at_cred s m c')\<lparr> screen := Some rv, status_page := False, async_reply := True \<rparr>" "asked E alone pre p c (Some rv) m c'"
proof -
  have n: "\<not> asked E alone pre p c None m c'" for m c' by (simp add: asked_def)
  from assms show ?thesis
    unfolding cred_next_def by (elim disjE conjE cred_stepE) (use that n in blast)+
qed

lemma cred_packet:
  assumes E: "platform E" and wf: "wf_app s" "wf_credential c" and len: "length (cmd_data cmd) < 256"
    and a: "arrived E alone (cd_state c) c p"
    and up: "alone \<Longrightarrow> cd_updateCredentialState c \<noteq> TX_UPDATE_CREDENTIAL_CREDENTIAL"
      "\<not> alone \<Longrightarrow> cmd_p2 cmd = 2 \<and> cd_updateCredentialState c = TX_UPDATE_CREDENTIAL_CREDENTIAL \<and> 0 < cd_credentialDeploymentCount c"
  shows "wp (handle_sign_credential_deployment E cmd False (at_cred s (pre @ credential_bytes p) c))
    (\<lambda>_ t. cred_next E alone pre p c s t) (refused s)"
proof -
  have step: "wp r (\<lambda>_ t. cred_next E alone pre p c s t) (refused s)"
    if "wp r (\<lambda>_. cred_step s (moved E alone pre p c)) (refused s)" for r
    by (rule wp_mono [OF that]) (simp_all add: cred_next_def)
  have p2: "alone \<or> cmd_p2 cmd = 2" using up(2) by blast
  have bad: "wp (Throw ERROR_INVALID_STATE (at_cred s (pre @ credential_bytes p) c)) (\<lambda>_ t. cred_next E alone pre p c s t) (refused s)"
    using wf(1) by simp
  note h = handle_sign_credential_deployment_def [of E cmd False, unfolded Let_def if_False]
  define Q where "Q = cred_next E alone pre p c s"
  show ?thesis
  proof (cases "cd_state c")
    case TX_CREDENTIAL_DEPLOYMENT_VERIFICATION_KEYS_LENGTH
    then show ?thesis unfolding h
      using step [OF cred_key_count [OF wf, of E alone p "cmd_data cmd" pre]] a bad
      by (cases "cmd_p1 cmd = 1") (simp_all add: cred_key_packet_def flip: Q_def del: arrived.simps)
  next
    case TX_CREDENTIAL_DEPLOYMENT_VERIFICATION_KEY
    then show ?thesis unfolding h
      using step [OF cred_key [OF wf, of E alone p "cmd_data cmd" pre]] a bad by (simp flip: Q_def del: arrived.simps)
  next
    case TX_CREDENTIAL_DEPLOYMENT_SIGNATURE_THRESHOLD
    then show ?thesis unfolding h
      using step [OF cred_threshold [OF E wf len, of alone p pre]] a bad
      by (cases "cmd_p1 cmd = 1") (simp_all add: cred_key_packet_def flip: Q_def del: arrived.simps)
  next
    case TX_CREDENTIAL_DEPLOYMENT_AR_IDENTITY
    then show ?thesis unfolding h
      using step [OF cred_revoker [OF E wf len, of alone p pre]] a bad
      by (cases "cmd_p1 cmd = 1") (simp_all add: cred_key_packet_def flip: Q_def del: arrived.simps)
  next
    case TX_CREDENTIAL_DEPLOYMENT_CREDENTIAL_DATES
    then show ?thesis unfolding h
      using step [OF cred_dates [OF wf len, of E alone p pre]] a bad
      by (cases "cmd_p1 cmd = 1") (simp_all add: cred_key_packet_def flip: Q_def del: arrived.simps)
  next
    case TX_CREDENTIAL_DEPLOYMENT_ATTRIBUTE_TAG
    then show ?thesis unfolding h
      using step [OF cred_attribute_tag [OF E wf len, of alone p pre]] a bad
      by (cases "cmd_p1 cmd = 1") (simp_all add: cred_key_packet_def flip: Q_def del: arrived.simps)
  next
    case TX_CREDENTIAL_DEPLOYMENT_ATTRIBUTE_VALUE
    then show ?thesis unfolding h
      using step [OF cred_attribute_value [OF wf len, of E alone p pre]] a bad
      by (cases "cmd_p1 cmd = 1") (simp_all add: cred_key_packet_def flip: Q_def del: arrived.simps)
  next
    case TX_CREDENTIAL_DEPLOYMENT_LENGTH_OF_PROOFS
    then show ?thesis unfolding h
      using step [OF cred_proof_length [OF wf p2, of E p "cmd_data cmd" pre]] a bad
      by (cases "cmd_p1 cmd = 1") (simp_all add: cred_key_packet_def flip: Q_def del: arrived.simps)
  next
    case TX_CREDENTIAL_DEPLOYMENT_PROOFS
    have "wp (cred_proofs_packet E (cmd_p2 cmd) (cmd_data cmd) (at_cred s (pre @ credential_bytes p) c))
        (\<lambda>_ t. cred_next E alone pre p c s t) (refused s)"
      by (rule step [OF cred_proofs [OF wf _ _ up]]) (use a TX_CREDENTIAL_DEPLOYMENT_PROOFS in simp_all)
    then show ?thesis unfolding h
      using TX_CREDENTIAL_DEPLOYMENT_PROOFS bad
      by (cases "cmd_p1 cmd = 1") (simp_all add: cred_key_packet_def flip: Q_def del: arrived.simps)
  next
    case TX_CREDENTIAL_DEPLOYMENT_NEW_OR_EXISTING
    have "wp (cred_account_packet E (cmd_data cmd) (at_cred s (pre @ credential_bytes p) c))
        (\<lambda>_ t. cred_next E alone pre p c s t) (refused s)"
      by (rule wp_mono [OF cred_account [OF E wf len, of alone p pre]])
        (use a TX_CREDENTIAL_DEPLOYMENT_NEW_OR_EXISTING in \<open>auto simp: cred_next_def\<close>)
    then show ?thesis unfolding h
      using TX_CREDENTIAL_DEPLOYMENT_NEW_OR_EXISTING bad
      by (cases "cmd_p1 cmd = 1") (simp_all add: cred_key_packet_def flip: Q_def del: arrived.simps)
  qed (use a in simp_all)
qed

subsection \<open>The choices\<close>

text \<open>An approval takes the context from the screen to the state in which the next packet is expected.\<close>

definition cred_up :: "sdk \<Rightarrow> bool \<Rightarrow> signCredentialDeploymentContext \<Rightarrow> parts \<Rightarrow> review \<Rightarrow> bool" where
  "cred_up E alone c p rv \<longleftrightarrow> key_on_screen alone c p rv \<or> attribute_on_screen E alone c p rv"

definition resumed :: "sdk \<Rightarrow> bool \<Rightarrow> bytes \<Rightarrow> parts \<Rightarrow> signCredentialDeploymentContext \<Rightarrow>
    review option \<Rightarrow> bytes \<Rightarrow> signCredentialDeploymentContext \<Rightarrow> bool" where
  "resumed E alone m p c0 up m' c \<longleftrightarrow> up = None \<and> m' = m \<and> counters c = counters c0 \<and> arrived E alone (cd_state c) c p"

lemma key_accepted:
  assumes wf: "wf_credential c" and k: "key_on_screen alone c p rv"
  shows "wp (processNextVerificationKey (at_cred s m c)) (\<lambda>_. cred_step s (resumed E alone m p c)) X"
proof -
  let ?c = "c\<lparr> cd_state := TX_CREDENTIAL_DEPLOYMENT_VERIFICATION_KEY \<rparr>"
  have "resumed E alone m p c None m ?c" using k by (simp add: resumed_def key_on_screen_def)
  moreover have "wf_credential ?c" using wf by (simp add: wf_credential_def)
  ultimately have "cred_step s (resumed E alone m p c) ((at_cred s m ?c)\<lparr> replies := replies s @ [([], SWO_SUCCESS)] \<rparr>)"
    by (intro cred_step_replied)
  moreover have "0 < cd_numberOfVerificationKeys c" using k by (simp add: key_on_screen_def)
  ultimately show ?thesis by (simp add: processNextVerificationKey_def)
qed

lemma attribute_accepted:
  assumes wf: "wf_credential c" and k: "attribute_on_screen E alone c p rv"
  shows "wp (confirmAttribute (at_cred s m c)) (\<lambda>_. cred_step s (resumed E alone m p c)) X"
proof -
  let ?n = "cd_attributeListLength c - 1"
  let ?st = "if ?n = 0 then TX_CREDENTIAL_DEPLOYMENT_LENGTH_OF_PROOFS else TX_CREDENTIAL_DEPLOYMENT_ATTRIBUTE_TAG"
  let ?c = "c\<lparr> cd_attributeListLength := ?n, cd_state := ?st \<rparr>"
  have k': "0 < cd_attributeListLength c" "dated p ?n" "p_half p = []" "no_proofs p" "all_up E alone c p"
    using k by (simp_all add: attribute_on_screen_def)
  have "all_up E alone ?c p" by (rule all_up_frame [OF k'(5)]) simp_all
  then have "arrived E alone (cd_state ?c) ?c p" using k' by (cases "?n = 0") simp_all
  then have "resumed E alone m p c None m ?c" by (simp add: resumed_def del: arrived.simps)
  moreover have "wf_credential ?c" using wf by (simp add: wf_credential_def)
  ultimately have "cred_step s (resumed E alone m p c) ((at_cred s m ?c)\<lparr> replies := replies s @ [([], SWO_SUCCESS)] \<rparr>)"
    by (intro cred_step_replied)
  moreover have "cd_attributeListLength c \<noteq> 0" using k'(1) by simp
  ultimately show ?thesis by (simp add: confirmAttribute_def Let_def)
qed

lemma cred_up_callback: "cred_up E alone c p rv \<Longrightarrow>
    rv_callback rv \<in> {processNextVerificationKeyNoIdleCallback, review_credential_attribute}"
  by (auto simp: cred_up_def key_on_screen_def attribute_on_screen_def)

lemma cred_accepted:
  assumes "wf_credential c" "cred_up E alone c p rv" "cb = rv_callback rv"
  shows "cb = processNextVerificationKeyNoIdleCallback \<Longrightarrow>
      wp (choose_next_key True (at_cred s m c)) (\<lambda>_. cred_step s (resumed E alone m p c)) (\<lambda>_ _. False)"
    "cb = review_credential_attribute \<Longrightarrow>
      wp (choose_attribute True (at_cred s m c)) (\<lambda>_. cred_step s (resumed E alone m p c)) (\<lambda>_ _. False)"
proof -
  show "wp (choose_next_key True (at_cred s m c)) (\<lambda>_. cred_step s (resumed E alone m p c)) (\<lambda>_ _. False)"
    if "cb = processNextVerificationKeyNoIdleCallback"
  proof -
    have "key_on_screen alone c p rv" using assms that by (auto simp: cred_up_def attribute_on_screen_def)
    then show ?thesis unfolding choose_next_key_def by simp (rule wp_ux_run_guarded, rule key_accepted [OF assms(1)])
  qed
  show "wp (choose_attribute True (at_cred s m c)) (\<lambda>_. cred_step s (resumed E alone m p c)) (\<lambda>_ _. False)"
    if "cb = review_credential_attribute"
  proof -
    have "attribute_on_screen E alone c p rv" using assms that by (auto simp: cred_up_def key_on_screen_def)
    then show ?thesis unfolding choose_attribute_def by simp (rule wp_ux_run_guarded, rule attribute_accepted [OF assms(1)])
  qed
qed

lemma cred_refused:
  assumes "wf_app s" "\<not> awaiting s"
  shows "wp (choose_next_key False s) (\<lambda>_ t. decided False I s t) X" "wp (choose_attribute False s) (\<lambda>_ t. decided False I s t) X"
    "wp (choose_added_credential False s) (\<lambda>_ t. decided False I s t) X"
proof -
  show "wp (choose_next_key False s) (\<lambda>_ t. decided False I s t) X"
    using rejection_decided [of "s\<lparr> currentInstruction := INSTRUCTION_NONE \<rparr>"] assms
    by (simp add: choose_next_key_def rejectStagedReview_def decided_defs awaiting_def claimed_def)
qed (use rejection_decided [OF assms] in \<open>simp_all add: choose_attribute_def choose_added_credential_def\<close>)

end
