(* ===== verification/DeployCredential.thy ===== *)
theory DeployCredential
  imports CredentialFlow
begin

text \<open>
  A credential that is deployed on its own: \<open>handle_sign_credential_deployment\<close> behind
  \<open>INS_CREDENTIAL_DEPLOYMENT\<close>.  The transaction has no header; the hash starts with the number of keys.
\<close>

subsection \<open>The flow\<close>

definition deploying :: "app \<Rightarrow> parts \<Rightarrow> bool" where
  "deploying s p \<longleftrightarrow> tx_hash s = Some (credential_bytes p) \<and> signing_path (global_derivation_path s) \<and>
     cd_updateCredentialState (cred s) = TX_UPDATE_CREDENTIAL_INITIAL"

definition deployment_asked :: "sdk \<Rightarrow> log \<Rightarrow> app \<Rightarrow> parts \<Rightarrow> bytes \<Rightarrow> deployed_on \<Rightarrow> bool" where
  "deployment_asked E log s p provider acc \<longleftrightarrow> signing_path (global_derivation_path s) \<and> proving True p 0 \<and>
     account_ok E acc \<and> provider_rows E True p provider \<and> log = credential_screens p \<and>
     asks_to_sign s (credential_bytes p @ account_bytes acc) (deployment_rows E p provider acc)"

definition deployment_up :: "sdk \<Rightarrow> log \<Rightarrow> app \<Rightarrow> bool" where
  "deployment_up E log s \<longleftrightarrow> (\<exists>p rv. deploying s p \<and> screen s = Some rv \<and> cred_up E True (cred s) p rv \<and>
     log @ [rv_pairs rv] = credential_screens p)"

definition deployment_flow :: "sdk \<Rightarrow> log \<Rightarrow> app \<Rightarrow> bool" where
  "deployment_flow E log s \<longleftrightarrow>
     (if awaiting s then deployment_up E log s \<or> (\<exists>p provider acc. deployment_asked E log s p provider acc)
      else cd_state (cred s) \<in> {CREDENTIAL_DEPLOYMENT_ZERO, TX_CREDENTIAL_DEPLOYMENT_INITIAL} \<and> log = [] \<and>
           cd_updateCredentialState (cred s) = TX_UPDATE_CREDENTIAL_INITIAL \<and>
           cd_identityProviderIndex (cred s) = zeros 9 \<or>
         (\<exists>p. deploying s p \<and> arrived E True (cd_state (cred s)) (cred s) p \<and> log = credential_screens p))"

subsection \<open>Lemmas\<close>

lemma no_parts_bytes [simp]: "credential_bytes no_parts = []" "credential_screens no_parts = []"
  by (simp_all add: no_parts_def credential_bytes_def credential_screens_def)

lemma deploying_updates [simp]:
  "deploying (s\<lparr> replies := r \<rparr>) = deploying s" "deploying (s\<lparr> screen := sc \<rparr>) = deploying s"
  "deploying (s\<lparr> status_page := b \<rparr>) = deploying s" "deploying (s\<lparr> async_reply := b \<rparr>) = deploying s"
  by (simp_all add: deploying_def fun_eq_iff)

lemma deploying_at: "deploying (at_cred s m c) p \<longleftrightarrow> m = credential_bytes p \<and>
    signing_path (global_derivation_path s) \<and> cd_updateCredentialState c = TX_UPDATE_CREDENTIAL_INITIAL"
  by (simp add: deploying_def)

lemma deployment_next:
  assumes wf: "wf_app s" "\<not> awaiting s" and sp: "signing_path (global_derivation_path s)"
    and u: "cd_updateCredentialState c = TX_UPDATE_CREDENTIAL_INITIAL" and log: "log = credential_screens p"
    and n: "cred_next E True [] p c s t"
  shows "kept (deployment_flow E log) s t"
proof -
  have up: "cd_updateCredentialState c' = TX_UPDATE_CREDENTIAL_INITIAL" if "counters c' = counters c" for c'
    using that u by (simp add: counters_def)
  from n show ?thesis
  proof (cases rule: cred_nextE)
    case (reply m c')
    then obtain p' where p: "m = credential_bytes p'" "arrived E True (cd_state c') c' p'" "credential_screens p' = credential_screens p"
      "counters c' = counters c" by (auto simp: moved_def)
    have na: "\<not> awaiting t" using wf(2) reply(2) by (simp add: awaiting_def)
    have "deployment_flow E log t"
      unfolding deployment_flow_def if_not_P [OF na] using p sp up [OF p(4)] log reply(2) by (auto simp: deploying_at)
    then show ?thesis using na reply wf by (intro kept_reply) simp_all
  next
    case (drawn m c' rv)
    then obtain p' where p: "m = credential_bytes p'" "cred_up E True c' p' rv" "credential_screens p' = credential_screens p @ [rv_pairs rv]"
      "counters c' = counters c" by (auto simp: moved_def cred_up_def added_on_screen_def)
    have aw: "awaiting t" using cred_up_callback [OF p(2)] drawn(2) by (auto simp: awaiting_def)
    have "deployment_up E log t"
      unfolding deployment_up_def using p sp up [OF p(4)] log drawn(2)
      by (intro exI [of _ p'] exI [of _ rv]) (simp add: deploying_at)
    then have "deployment_flow E log t" unfolding deployment_flow_def if_P [OF aw] by blast
    then show ?thesis using aw drawn wf by (intro kept_review) simp_all
  next
    case (last m c' rv)
    then obtain acc provider where p: "account_ok E acc" "m = credential_bytes p @ account_bytes acc" "provider_rows E True p provider"
      "rv_callback rv = review_choice_sign" "rv_pairs rv = deployment_rows E p provider acc" by (auto simp: asked_def)
    have aw: "awaiting t" using p(4) last(4) by (simp add: awaiting_def)
    have "deployment_asked E log t p provider acc"
      using p sp log last by (simp add: deployment_asked_def asks_to_sign_def)
    then have "deployment_flow E log t" unfolding deployment_flow_def if_P [OF aw] by blast
    then show ?thesis using aw last wf by (intro kept_review) simp_all
  qed
qed

lemma deployment_open:
  assumes wf: "wf_app s" "\<not> awaiting s" and u: "cd_updateCredentialState (cred s) = TX_UPDATE_CREDENTIAL_INITIAL"
    "cd_identityProviderIndex (cred s) = zeros 9"
  shows "wp (cred_initial_packet E data s) (\<lambda>_ t. kept (deployment_flow E []) s t) (refused s)"
  unfolding cred_initial_packet_def wp_bind
proof (rule wp_mono [OF path_step [OF wf(1)]], goal_cases)
  case (1 n t)
  then obtain ns where p: "path_done data s ns n t" by blast
  note pd = path_doneD [OF p wf(1)]
  have sp: "signing_path (global_derivation_path t)" using p by (simp add: path_done_def)
  have ss: "kept f t = kept f s" "refused t = refused s" for f
    using same_start [of t s] pd(2) by (simp_all add: same_ui_def)
  have aw: "\<not> awaiting t" using wf(2) pd(2) by (simp add: awaiting_def same_ui_def)
  let ?c = "(cred t)\<lparr> cd_state := TX_CREDENTIAL_DEPLOYMENT_VERIFICATION_KEYS_LENGTH, cd_showIntro := True \<rparr>"
  let ?t = "(at_cred t [] ?c)\<lparr> replies := replies t @ [([], SWO_SUCCESS)] \<rparr>"
  have ut: "cd_updateCredentialState ?c = TX_UPDATE_CREDENTIAL_INITIAL" "cd_identityProviderIndex ?c = zeros 9" using u pd(3) by simp_all
  have na: "\<not> awaiting ?t" using aw by (simp add: awaiting_def)
  have "provider_up True (zeros 9) []" by (auto simp: provider_up_def)
  then have "arrived E True (cd_state ?c) ?c no_parts" using ut by simp
  then have "deployment_flow E [] ?t"
    unfolding deployment_flow_def if_not_P [OF na] using ut sp
    by (intro disjI2 exI [of _ no_parts]) (simp add: deploying_at)
  moreover have "wf_app ?t" using cred.wf_member [OF pd(1)] pd(1) by (simp add: wf_credential_def)
  ultimately have k: "kept (deployment_flow E []) t ?t" using na by (intro kept_reply) simp_all
  have st: "t\<lparr> tx_hash := Some [] \<rparr> = at_cred t [] (cred t)" by (rule cred.started [symmetric])
  define F where "F = kept (deployment_flow E []) s"
  show ?case using k [unfolded ss, folded F_def] pd(7) unfolding F_def [symmetric] by (simp add: st)
qed (simp add: assms)

lemma deployment_handle:
  assumes E: "platform E" and wf: "wf_app s" "\<not> awaiting s" and len: "length (cmd_data c) < 256"
    and start: "if initial then global s = wiped \<and> log = [] else deployment_flow E log s"
  shows "wp (handle_sign_credential_deployment E c initial s) (\<lambda>_ t. kept (deployment_flow E log) s t) (refused s)"
proof -
  define u where "u = (if initial then set_cred (\<lambda>c. c\<lparr> cd_state := TX_CREDENTIAL_DEPLOYMENT_INITIAL \<rparr>) s else s)"
  have u: "wf_app u" "\<not> awaiting u" "replies u = replies s" "screen u = screen s" "currentInstruction u = currentInstruction s"
    using wf by (simp_all add: u_def change_part_def wf_app_def wf_context_def wf_credential_def awaiting_def)
  note ss = same_start [OF u(3-5)]
  note r = refused_self(1) [OF u(1), unfolded ss(2)]
  have d: "cd_state (cred u) \<in> {CREDENTIAL_DEPLOYMENT_ZERO, TX_CREDENTIAL_DEPLOYMENT_INITIAL} \<and> log = [] \<and>
        cd_updateCredentialState (cred u) = TX_UPDATE_CREDENTIAL_INITIAL \<and> cd_identityProviderIndex (cred u) = zeros 9 \<or>
      (\<exists>p. deploying u p \<and> arrived E True (cd_state (cred u)) (cred u) p \<and> log = credential_screens p)"
  proof (cases initial)
    case True
    then show ?thesis using start by (simp add: u_def change_part_def wiped_def wiped_credential_def)
  next
    case False
    then have "deployment_flow E log s" using start by simp
    then show ?thesis unfolding deployment_flow_def if_not_P [OF wf(2)] using False by (simp add: u_def del: arrived.simps)
  qed
  have h: "handle_sign_credential_deployment E c initial s = handle_sign_credential_deployment E c False u"
    by (simp add: handle_sign_credential_deployment_def u_def)
  from d show ?thesis
  proof (elim disjE exE conjE)
    assume a: "cd_state (cred u) \<in> {CREDENTIAL_DEPLOYMENT_ZERO, TX_CREDENTIAL_DEPLOYMENT_INITIAL}" "log = []"
      "cd_updateCredentialState (cred u) = TX_UPDATE_CREDENTIAL_INITIAL" "cd_identityProviderIndex (cred u) = zeros 9"
    define Q where "Q = kept (deployment_flow E log) s"
    have op: "wp (cred_initial_packet E (cmd_data c) u) (\<lambda>_. Q) (refused s)"
      using deployment_open [OF u(1,2) a(3,4)] by (simp add: Q_def ss a(2))
    have bad: "wp (Throw ERROR_INVALID_STATE u) (\<lambda>_. Q) (refused s)" using r by simp
    have st: "cd_state (cred u) = CREDENTIAL_DEPLOYMENT_ZERO \<or> cd_state (cred u) = TX_CREDENTIAL_DEPLOYMENT_INITIAL" using a(1) by simp
    have "wp (handle_sign_credential_deployment E c False u) (\<lambda>_. Q) (refused s)"
      unfolding handle_sign_credential_deployment_def [of E c False u, unfolded Let_def if_False]
      using st by (rule disjE) (use op bad in \<open>simp_all add: cred_key_packet_def\<close>)
    then show ?thesis unfolding h Q_def .
  next
    fix p assume a: "deploying u p" "arrived E True (cd_state (cred u)) (cred u) p" "log = credential_screens p"
    note d = a(1) [unfolded deploying_def]
    have self: "at_cred u ([] @ credential_bytes p) (cred u) = u" using cred.self d by simp
    have "wp (handle_sign_credential_deployment E c False u) (\<lambda>_ t. cred_next E True [] p (cred u) u t) (refused u)"
      using cred_packet [OF E u(1) cred.wf_member [OF u(1)] len a(2), of "[]"] d unfolding self by simp
    then show ?thesis
      unfolding h ss(1,2) [symmetric]
      by (rule wp_mono) (use deployment_next [OF u(1,2) _ _ a(3)] d in blast)+
  qed
qed

lemma deployment_choice:
  assumes "platform E" "wf_app s" "\<not> awaiting s" "awaiting (s\<lparr> screen := Some rv \<rparr>)" "deployment_flow E log (s\<lparr> screen := Some rv \<rparr>)"
  shows "rv_callback rv \<in> {review_choice_sign, processNextVerificationKeyNoIdleCallback, review_credential_attribute}"
    "rv_callback rv = review_choice_sign \<Longrightarrow>
      wp (choose_sign E confirm s) (\<lambda>_ t. decided confirm (deployment_flow E (log @ [rv_pairs rv])) s t) (\<lambda>_ _. False)"
    "rv_callback rv = processNextVerificationKeyNoIdleCallback \<Longrightarrow>
      wp (choose_next_key confirm s) (\<lambda>_ t. decided confirm (deployment_flow E (log @ [rv_pairs rv])) s t) (\<lambda>_ _. False)"
    "rv_callback rv = review_credential_attribute \<Longrightarrow>
      wp (choose_attribute confirm s) (\<lambda>_ t. decided confirm (deployment_flow E (log @ [rv_pairs rv])) s t) (\<lambda>_ _. False)"
proof -
  have up: "(\<exists>p. deploying s p \<and> cred_up E True (cred s) p rv \<and> log @ [rv_pairs rv] = credential_screens p) \<or>
      (\<exists>m. tx_hash s = Some m) \<and> rv_callback rv = review_choice_sign"
    using assms(5) unfolding deployment_flow_def if_P [OF assms(4)]
    by (auto simp: deployment_up_def deployment_asked_def asks_to_sign_def)
  then show "rv_callback rv \<in> {review_choice_sign, processNextVerificationKeyNoIdleCallback, review_credential_attribute}"
    using cred_up_callback by blast
  show "wp (choose_sign E confirm s) (\<lambda>_ t. decided confirm (deployment_flow E (log @ [rv_pairs rv])) s t) (\<lambda>_ _. False)"
    if "rv_callback rv = review_choice_sign"
  proof -
    from up that obtain m where m: "tx_hash s = Some m" by (auto simp: deploying_def)
    show ?thesis
      by (rule wp_mono [OF choose_sign_wp [OF assms(1,2) m assms(3)]]) (simp_all add: decided_def settled_def)
  qed
  have resume: "decided True (deployment_flow E (log @ [rv_pairs rv])) s t"
    if "deploying s p" "log @ [rv_pairs rv] = credential_screens p" "cred_step s (resumed E True (credential_bytes p) p (cred s)) t" for p t
  proof -
    have d: "cd_updateCredentialState (cred s) = TX_UPDATE_CREDENTIAL_INITIAL" "signing_path (global_derivation_path s)"
      using that(1) by (simp_all add: deploying_def)
    have "cred_step s (moved E True [] p (cred s)) t"
      using that(3) unfolding cred_step_def by (auto simp: resumed_def moved_def simp del: arrived.simps)
    then have "cred_next E True [] p (cred s) s t" by (simp add: cred_next_def)
    from kept_decided [OF deployment_next [OF assms(2,3) d(2,1) that(2) this]] show ?thesis .
  qed
  have self: "at_cred s (credential_bytes p) (cred s) = s" if "deploying s p" for p
    using that cred.self by (simp add: deploying_def)
  note wc = cred.wf_member [OF assms(2)] and no = cred_refused [OF assms(2,3)]
  show "wp (choose_next_key confirm s) (\<lambda>_ t. decided confirm (deployment_flow E (log @ [rv_pairs rv])) s t) (\<lambda>_ _. False)"
    if "rv_callback rv = processNextVerificationKeyNoIdleCallback"
  proof (cases confirm)
    case True
    from up that obtain p where p: "deploying s p" "cred_up E True (cred s) p rv" "log @ [rv_pairs rv] = credential_screens p" by auto
    show ?thesis
      unfolding eqTrueI [OF True]
      by (rule wp_mono [OF cred_accepted(1) [OF wc p(2) refl that, where s = s and m = "credential_bytes p", unfolded self [OF p(1)]]])
        (use resume [OF p(1,3)] in blast)+
  qed (use no(1) in simp)
  show "wp (choose_attribute confirm s) (\<lambda>_ t. decided confirm (deployment_flow E (log @ [rv_pairs rv])) s t) (\<lambda>_ _. False)"
    if "rv_callback rv = review_credential_attribute"
  proof (cases confirm)
    case True
    from up that obtain p where p: "deploying s p" "cred_up E True (cred s) p rv" "log @ [rv_pairs rv] = credential_screens p" by auto
    show ?thesis
      unfolding eqTrueI [OF True]
      by (rule wp_mono [OF cred_accepted(2) [OF wc p(2) refl that, where s = s and m = "credential_bytes p", unfolded self [OF p(1)]]])
        (use resume [OF p(1,3)] in blast)+
  qed (use no(2) in simp)
qed

lemma deployment_flow_frame:
  assumes "deployment_flow E log s" "\<not> awaiting s"
  shows "deployment_flow E log (s\<lparr> screen := None, status_page := b \<rparr>)" "deployment_flow E log (s\<lparr> replies := r \<rparr>)"
proof -
  have na: "\<not> awaiting (s\<lparr> screen := None, status_page := b \<rparr>)" "\<not> awaiting (s\<lparr> replies := r \<rparr>)"
    using assms(2) by (simp_all add: awaiting_def)
  note d = assms(1) [unfolded deployment_flow_def if_not_P [OF assms(2)]]
  show "deployment_flow E log (s\<lparr> screen := None, status_page := b \<rparr>)"
    unfolding deployment_flow_def if_not_P [OF na(1)] using d by simp
  show "deployment_flow E log (s\<lparr> replies := r \<rparr>)"
    unfolding deployment_flow_def if_not_P [OF na(2)] using d by simp
qed

lemma deployment_flow_fresh: "global s = wiped \<Longrightarrow> \<not> awaiting s \<Longrightarrow> deployment_flow E [] s"
  by (simp add: deployment_flow_def wiped_def wiped_credential_def)

end
