(* ===== verification/UpdateCredential.thy ===== *)
theory UpdateCredential
  imports CredentialFlow
begin

text \<open>
  The update of an account's credentials: src/src/handler/sign_update_credential.c.

  Behind the header come the credentials that are added, each parsed by the handler of
  CredentialFlow and confirmed as a whole, then the ids of the credentials that are removed,
  each on its own screen, and the new threshold on the screen that asks for the signature.
\<close>

subsection \<open>Operations\<close>

definition creds_initial_packet :: "sdk \<Rightarrow> bytes \<Rightarrow> app \<Rightarrow> unit act" where
  "creds_initial_packet E data s =
     bind (parse_path data s) (\<lambda>offset s.
     let remaining = sub8 (length data) offset; data = drop offset data in
     bind (init_tx_hash E s) (\<lambda>_ s.
     bind (hashAccountTransactionHeaderAndKind E data UPDATE_CREDENTIALS s) (\<lambda>offset s.
     let remaining = sub8 remaining offset; data = drop offset data in
     if remaining < 1 then Throw SWO_INCORRECT_DATA s
     else
       call (byte_at data 0) s (\<lambda>n.
       let s = set_cred (\<lambda>c. c\<lparr> cd_credentialDeploymentCount := unat n \<rparr>) s in
       bind (hash_data E data 0 1 s) (\<lambda>_ s.
       uiSignUpdateCredentialInitialDisplay (set_cred (\<lambda>c. c\<lparr> cd_updateCredentialState :=
         if cd_credentialDeploymentCount c = 0 then TX_UPDATE_CREDENTIAL_ID_COUNT
         else TX_UPDATE_CREDENTIAL_CREDENTIAL_INDEX \<rparr>) s))))))"

definition creds_index_packet :: "sdk \<Rightarrow> bytes \<Rightarrow> app \<Rightarrow> unit act" where
  "creds_index_packet E data s =
     (if length data < 1 then Throw SWO_INCORRECT_DATA s
      else
        bind (hash_data E data 0 1 s) (\<lambda>_ s.
        send_success_no_idle (set_cred (\<lambda>c. c\<lparr> cd_updateCredentialState := TX_UPDATE_CREDENTIAL_CREDENTIAL,
          cd_state := TX_CREDENTIAL_DEPLOYMENT_VERIFICATION_KEYS_LENGTH \<rparr>) s)))"

definition creds_id_count_packet :: "sdk \<Rightarrow> bytes \<Rightarrow> app \<Rightarrow> unit act" where
  "creds_id_count_packet E data s =
     (if length data < 1 then Throw SWO_INCORRECT_DATA s
      else
        call (byte_at data 0) s (\<lambda>n.
        let s = set_cred (\<lambda>c. c\<lparr> cd_credentialIdCount := unat n \<rparr>) s in
        bind (hash_data E data 0 1 s) (\<lambda>_ s.
        send_success_no_idle (set_cred (\<lambda>c. c\<lparr> cd_updateCredentialState :=
          if cd_credentialIdCount c = 0 then TX_UPDATE_CREDENTIAL_THRESHOLD else TX_UPDATE_CREDENTIAL_ID \<rparr>) s))))"

definition creds_id_packet :: "sdk \<Rightarrow> bytes \<Rightarrow> app \<Rightarrow> unit act" where
  "creds_id_packet E data s =
     (if length data < 48 then Throw SWO_INCORRECT_DATA s
      else
        bind (hash_data E data 0 48 s) (\<lambda>_ s.
        call (slice data 0 48) s (\<lambda>credId.
        call (to_paginated_hex credId (cd_credentialId (cred s))) s (\<lambda>d.
        let s = set_cred (\<lambda>c. c\<lparr> cd_credentialId := d, cd_credentialIdCount := sub8 (cd_credentialIdCount c) 1 \<rparr>) s in
        uiSignUpdateCredentialIdDisplay (set_cred (\<lambda>c. c\<lparr> cd_updateCredentialState :=
          if cd_credentialIdCount c = 0 then TX_UPDATE_CREDENTIAL_THRESHOLD else cd_updateCredentialState c \<rparr>) s)))))"

definition creds_threshold_packet :: "sdk \<Rightarrow> bytes \<Rightarrow> app \<Rightarrow> unit act" where
  "creds_threshold_packet E data s =
     (if length data < 1 then Throw SWO_INCORRECT_DATA s
      else
        call (byte_at data 0) s (\<lambda>threshold.
        call (bin_to_dec E (cd_threshold (cred s)) (ucast threshold)) s (\<lambda>(d, _).
        let s = set_cred (\<lambda>c. c\<lparr> cd_threshold := d \<rparr>) s in
        bind (hash_data E data 0 1 s) (\<lambda>_ s.
        uiSignUpdateCredentialThresholdDisplay s))))"

definition handle_sign_update_credential :: "sdk \<Rightarrow> command \<Rightarrow> bool \<Rightarrow> app \<Rightarrow> unit act" where
  "handle_sign_update_credential E cmd isInitialCall s =
     (let data = cmd_data cmd; p2 = cmd_p2 cmd;
          s = (if isInitialCall then set_cred (\<lambda>c. c\<lparr> cd_updateCredentialState := TX_UPDATE_CREDENTIAL_INITIAL \<rparr>) s else s);
          state = cd_updateCredentialState (cred s); count = cd_credentialDeploymentCount (cred s) in
      if p2 = 0 \<and> state = TX_UPDATE_CREDENTIAL_INITIAL then creds_initial_packet E data s
      else if p2 = 1 \<and> state = TX_UPDATE_CREDENTIAL_CREDENTIAL_INDEX \<and> 0 < count then creds_index_packet E data s
      else if p2 = 2 \<and> state = TX_UPDATE_CREDENTIAL_CREDENTIAL \<and> 0 < count
      then handle_sign_credential_deployment E cmd False s
      else if p2 = 3 \<and> state = TX_UPDATE_CREDENTIAL_ID_COUNT then creds_id_count_packet E data s
      else if p2 = 4 \<and> state = TX_UPDATE_CREDENTIAL_ID then creds_id_packet E data s
      else if p2 = 5 \<and> state = TX_UPDATE_CREDENTIAL_THRESHOLD then creds_threshold_packet E data s
      else Throw ERROR_INVALID_STATE s)"

subsection \<open>The flow\<close>

text \<open>A credential that was added: its index, what arrived of it, and the provider its screen named.\<close>

type_synonym added = "u8 \<times> parts \<times> bytes"

definition is_added :: "sdk \<Rightarrow> added \<Rightarrow> bool" where
  "is_added E = (\<lambda>(i, p, provider). proving False p 0 \<and> provider_rows E False p provider)"

definition added_bytes :: "added \<Rightarrow> bytes" where
  "added_bytes = (\<lambda>(i, p, provider). i # credential_bytes p)"

definition added_screens :: "sdk \<Rightarrow> added \<Rightarrow> log" where
  "added_screens E = (\<lambda>(i, p, provider). credential_screens p @ [added_rows E p provider])"

definition creds_bytes :: "bytes \<Rightarrow> nat \<Rightarrow> added list \<Rightarrow> bytes" where
  "creds_bytes hdr n creds = hdr @ [UPDATE_CREDENTIALS] @ [of_nat n] @ concat (map added_bytes creds)"

definition creds_screens :: "sdk \<Rightarrow> app \<Rightarrow> bytes \<Rightarrow> added list \<Rightarrow> log" where
  "creds_screens E s hdr creds =
     header_pairs E ''Sender'' hdr (global_derivation_path s) # concat (map (added_screens E) creds)"

definition id_screen :: "bytes \<Rightarrow> (bytes \<times> bytes) list" where
  "id_screen i = [(ascii ''Credential ID'', hex_pages i)]"

definition creds_at :: "sdk \<Rightarrow> app \<Rightarrow> signCredentialDeploymentContext \<Rightarrow> bytes \<Rightarrow> nat \<Rightarrow> added list \<Rightarrow> bool" where
  "creds_at E s c hdr n creds \<longleftrightarrow> header_shown E hdr s \<and> n < 256 \<and> (\<forall>x \<in> set creds. is_added E x) \<and>
     length creds + cd_credentialDeploymentCount c = n"

text \<open>The ids that arrived behind the credentials, and their number.\<close>

definition ids_at :: "signCredentialDeploymentContext \<Rightarrow> bytes \<Rightarrow> log \<Rightarrow> bytes \<Rightarrow> log \<Rightarrow> bytes list \<Rightarrow> bool" where
  "ids_at c pre shown m log ids \<longleftrightarrow> cd_credentialDeploymentCount c = 0 \<and> length ids + cd_credentialIdCount c < 256 \<and>
     (\<forall>i \<in> set ids. length i = 48) \<and>
     m = pre @ [of_nat (length ids + cd_credentialIdCount c)] @ concat ids \<and> log = shown @ map id_screen ids"

fun creds_stage :: "sdk \<Rightarrow> updateCredentialState \<Rightarrow> signCredentialDeploymentContext \<Rightarrow> bytes \<Rightarrow> log \<Rightarrow> bytes \<Rightarrow> log \<Rightarrow> bool" where
  "creds_stage E TX_UPDATE_CREDENTIAL_INITIAL c pre shown m log = False"
| "creds_stage E TX_UPDATE_CREDENTIAL_CREDENTIAL_INDEX c pre shown m log =
     (0 < cd_credentialDeploymentCount c \<and> m = pre \<and> log = shown)"
| "creds_stage E TX_UPDATE_CREDENTIAL_CREDENTIAL c pre shown m log =
     (0 < cd_credentialDeploymentCount c \<and> (\<exists>i p. m = (pre @ [i]) @ credential_bytes p \<and>
       arrived E False (cd_state c) c p \<and> log = shown @ credential_screens p))"
| "creds_stage E TX_UPDATE_CREDENTIAL_ID_COUNT c pre shown m log =
     (cd_credentialDeploymentCount c = 0 \<and> m = pre \<and> log = shown)"
| "creds_stage E TX_UPDATE_CREDENTIAL_ID c pre shown m log =
     (0 < cd_credentialIdCount c \<and> (\<exists>ids. ids_at c pre shown m log ids))"
| "creds_stage E TX_UPDATE_CREDENTIAL_THRESHOLD c pre shown m log =
     (cd_credentialIdCount c = 0 \<and> (\<exists>ids. ids_at c pre shown m log ids))"

definition creds_ready :: "sdk \<Rightarrow> log \<Rightarrow> app \<Rightarrow> bool" where
  "creds_ready E log s \<longleftrightarrow> (\<exists>hdr n creds m. tx_hash s = Some m \<and> creds_at E s (cred s) hdr n creds \<and>
     creds_stage E (cd_updateCredentialState (cred s)) (cred s) (creds_bytes hdr n creds) (creds_screens E s hdr creds) m log)"

text \<open>A screen of the credential that is being added is up.\<close>

definition creds_parsing :: "sdk \<Rightarrow> log \<Rightarrow> app \<Rightarrow> review \<Rightarrow> bytes \<Rightarrow> nat \<Rightarrow> added list \<Rightarrow> u8 \<Rightarrow> parts \<Rightarrow> bool" where
  "creds_parsing E log s rv hdr n creds i p \<longleftrightarrow>
     cd_updateCredentialState (cred s) = TX_UPDATE_CREDENTIAL_CREDENTIAL \<and> 0 < cd_credentialDeploymentCount (cred s) \<and>
     creds_at E s (cred s) hdr n creds \<and> tx_hash s = Some ((creds_bytes hdr n creds @ [i]) @ credential_bytes p) \<and>
     (cred_up E False (cred s) p rv \<and> log @ [rv_pairs rv] = creds_screens E s hdr creds @ credential_screens p \<or>
      added_on_screen E False (cred s) p rv \<and> log = creds_screens E s hdr creds @ credential_screens p)"

definition creds_asked :: "sdk \<Rightarrow> log \<Rightarrow> app \<Rightarrow> bytes \<Rightarrow> added list \<Rightarrow> bytes list \<Rightarrow> u8 \<Rightarrow> bool" where
  "creds_asked E log s hdr creds ids threshold \<longleftrightarrow> header_shown E hdr s \<and> length creds < 256 \<and> length ids < 256 \<and>
     (\<forall>x \<in> set creds. is_added E x) \<and> (\<forall>i \<in> set ids. length i = 48) \<and>
     log = creds_screens E s hdr creds @ map id_screen ids \<and>
     asks_to_sign s (creds_bytes hdr (length creds) creds @ [of_nat (length ids)] @ concat ids @ [threshold])
       [(ascii ''Threshold'', dec (unat threshold))]"

definition creds_flow :: "sdk \<Rightarrow> log \<Rightarrow> app \<Rightarrow> bool" where
  "creds_flow E log s \<longleftrightarrow>
     (if awaiting s
      then (\<exists>rv. screen s = Some rv \<and>
              (rv_callback rv = sendSuccessNoIdleCallback \<and> creds_ready E (log @ [rv_pairs rv]) s \<or>
               (\<exists>hdr n creds i p. creds_parsing E log s rv hdr n creds i p))) \<or>
           (\<exists>hdr creds ids threshold. creds_asked E log s hdr creds ids threshold)
      else cd_updateCredentialState (cred s) = TX_UPDATE_CREDENTIAL_INITIAL \<and> log = [] \<or> creds_ready E log s)"

subsection \<open>Lemmas\<close>

lemma creds_at_frame [simp]:
  "creds_at E (at_cred s m c') = creds_at E s" "creds_at E (s\<lparr> replies := r \<rparr>) = creds_at E s"
  "creds_at E (s\<lparr> screen := sc \<rparr>) = creds_at E s" "creds_at E (s\<lparr> status_page := b \<rparr>) = creds_at E s"
  "creds_at E (s\<lparr> async_reply := a \<rparr>) = creds_at E s"
  "creds_at E s (c\<lparr> cd_updateCredentialState := st \<rparr>) = creds_at E s c"
  "creds_at E s (c\<lparr> cd_state := x \<rparr>) = creds_at E s c" "creds_at E s (c\<lparr> cd_credentialIdCount := k \<rparr>) = creds_at E s c"
  "creds_at E s (c\<lparr> cd_credentialId := d \<rparr>) = creds_at E s c" "creds_at E s (c\<lparr> cd_threshold := d \<rparr>) = creds_at E s c"
  by (simp_all add: creds_at_def fun_eq_iff)

lemma creds_screens_frame [simp]:
  "creds_screens E (at_cred s m c) = creds_screens E s" "creds_screens E (s\<lparr> replies := r \<rparr>) = creds_screens E s"
  "creds_screens E (s\<lparr> screen := sc \<rparr>) = creds_screens E s" "creds_screens E (s\<lparr> status_page := b \<rparr>) = creds_screens E s"
  "creds_screens E (s\<lparr> async_reply := a \<rparr>) = creds_screens E s"
  by (simp_all add: creds_screens_def fun_eq_iff)

lemma creds_at_counters: "counters c' = counters c \<Longrightarrow> creds_at E s c' = creds_at E s c"
  by (simp add: creds_at_def counters_def fun_eq_iff)

lemma creds_ready_frame [simp]:
  "creds_ready E log (s\<lparr> screen := sc \<rparr>) = creds_ready E log s" "creds_ready E log (s\<lparr> replies := r \<rparr>) = creds_ready E log s"
  "creds_ready E log (s\<lparr> status_page := b \<rparr>) = creds_ready E log s" "creds_ready E log (s\<lparr> async_reply := a \<rparr>) = creds_ready E log s"
  by (simp_all add: creds_ready_def)

lemma creds_ready_at:
  "creds_at E s c hdr n creds \<Longrightarrow>
    creds_stage E (cd_updateCredentialState c) c (creds_bytes hdr n creds) (creds_screens E s hdr creds) m log \<Longrightarrow>
    creds_ready E log (at_cred s m c)"
  by (auto simp: creds_ready_def)

text \<open>Two ways to end a packet: with an answer, or with a screen that a plain approval takes down.\<close>

lemma creds_replied:
  assumes "wf_app s" "\<not> awaiting s" "wf_credential c" "creds_ready E log (at_cred s m c)"
  shows "kept (creds_flow E log) s ((at_cred s m c)\<lparr> replies := replies s @ [([], SWO_SUCCESS)] \<rparr>)"
proof -
  have na: "\<not> awaiting ((at_cred s m c)\<lparr> replies := replies s @ [([], SWO_SUCCESS)] \<rparr>)" using assms(2) by (simp add: awaiting_def)
  then have "creds_flow E log ((at_cred s m c)\<lparr> replies := replies s @ [([], SWO_SUCCESS)] \<rparr>)"
    unfolding creds_flow_def if_not_P [OF na] using assms(4) by simp
  then show ?thesis using na assms by (intro kept_reply) simp_all
qed

lemma creds_drawn:
  assumes "wf_app s" "\<not> awaiting s" "wf_credential c" "rv_callback rv = sendSuccessNoIdleCallback"
    "creds_ready E (log @ [rv_pairs rv]) (at_cred s m c)"
  shows "kept (creds_flow E log) s ((at_cred s m c)\<lparr> screen := Some rv, status_page := False, async_reply := True \<rparr>)"
proof -
  let ?t = "(at_cred s m c)\<lparr> screen := Some rv, status_page := False, async_reply := True \<rparr>"
  have aw: "awaiting ?t" using assms(4) by (simp add: awaiting_def)
  then have "creds_flow E log ?t" unfolding creds_flow_def if_P [OF aw] using assms(4,5) by simp
  then show ?thesis using aw assms by (intro kept_review) simp_all
qed

lemma creds_index:
  assumes wf: "wf_app s" "\<not> awaiting s" "wf_credential c" and u: "creds_at E s c hdr n creds"
    and st: "creds_stage E TX_UPDATE_CREDENTIAL_CREDENTIAL_INDEX c (creds_bytes hdr n creds) (creds_screens E s hdr creds) m log"
  shows "wp (creds_index_packet E data (at_cred s m c)) (\<lambda>_. kept (creds_flow E log) s) (refused s)"
proof (cases data)
  case Nil
  then show ?thesis using wf(1) by (simp add: creds_index_packet_def)
next
  case (Cons i rest)
  let ?c = "c\<lparr> cd_updateCredentialState := TX_UPDATE_CREDENTIAL_CREDENTIAL, cd_state := TX_CREDENTIAL_DEPLOYMENT_VERIFICATION_KEYS_LENGTH \<rparr>"
  have pu: "provider_up False (cd_identityProviderIndex ?c) []" by (auto simp: provider_up_def)
  have a: "arrived E False (cd_state ?c) ?c no_parts" using pu by simp
  have b: "credential_bytes no_parts = []" "credential_screens no_parts = []"
    by (simp_all add: no_parts_def credential_bytes_def credential_screens_def)
  have "creds_stage E (cd_updateCredentialState ?c) ?c (creds_bytes hdr n creds) (creds_screens E s hdr creds) (m @ [i]) log"
    using st a b by (auto intro!: exI [of _ no_parts])
  then have "creds_ready E log (at_cred s (m @ [i]) ?c)" by (rule creds_ready_at [rotated]) (use u in simp)
  then have fin: "kept (creds_flow E log) s ((at_cred s (m @ [i]) ?c)\<lparr> replies := replies s @ [([], SWO_SUCCESS)] \<rparr>)"
    using wf by (intro creds_replied) (simp_all add: wf_credential_def)
  define C where "C = kept (creds_flow E log) s"
  show ?thesis using Cons wf(1) fin unfolding C_def [symmetric] by (simp add: creds_index_packet_def)
qed

lemma creds_id_count:
  assumes wf: "wf_app s" "\<not> awaiting s" "wf_credential c" and u: "creds_at E s c hdr n creds"
    and st: "creds_stage E TX_UPDATE_CREDENTIAL_ID_COUNT c (creds_bytes hdr n creds) (creds_screens E s hdr creds) m log"
  shows "wp (creds_id_count_packet E data (at_cred s m c)) (\<lambda>_. kept (creds_flow E log) s) (refused s)"
proof (cases data)
  case Nil
  then show ?thesis using wf(1) by (simp add: creds_id_count_packet_def)
next
  case (Cons k rest)
  let ?st = "if unat k = 0 then TX_UPDATE_CREDENTIAL_THRESHOLD else TX_UPDATE_CREDENTIAL_ID"
  let ?c = "c\<lparr> cd_credentialIdCount := unat k, cd_updateCredentialState := ?st \<rparr>"
  have "ids_at ?c (creds_bytes hdr n creds) (creds_screens E s hdr creds) (m @ [k]) log []"
    using st unat_bounds(1) [of k] by (simp add: ids_at_def)
  then have "creds_stage E (cd_updateCredentialState ?c) ?c (creds_bytes hdr n creds) (creds_screens E s hdr creds) (m @ [k]) log"
    by (cases "unat k = 0") auto
  then have "creds_ready E log (at_cred s (m @ [k]) ?c)" by (rule creds_ready_at [rotated]) (use u in simp)
  then have fin: "kept (creds_flow E log) s ((at_cred s (m @ [k]) ?c)\<lparr> replies := replies s @ [([], SWO_SUCCESS)] \<rparr>)"
    using wf by (intro creds_replied) (simp_all add: wf_credential_def)
  define C where "C = kept (creds_flow E log) s"
  show ?thesis using Cons wf(1) fin unfolding C_def [symmetric] by (simp add: creds_id_count_packet_def byte_at_def Let_def)
qed

lemma creds_id:
  assumes wf: "wf_app s" "\<not> awaiting s" "wf_credential c" and u: "creds_at E s c hdr n creds"
    and us: "cd_updateCredentialState c = TX_UPDATE_CREDENTIAL_ID"
    and st: "creds_stage E TX_UPDATE_CREDENTIAL_ID c (creds_bytes hdr n creds) (creds_screens E s hdr creds) m log"
  shows "wp (creds_id_packet E data (at_cred s m c)) (\<lambda>_. kept (creds_flow E log) s) (refused s)"
proof (cases "48 \<le> length data")
  case False
  then show ?thesis using wf(1) by (simp add: creds_id_packet_def)
next
  case True
  from st obtain ids where ids: "ids_at c (creds_bytes hdr n creds) (creds_screens E s hdr creds) m log ids"
    and pos: "0 < cd_credentialIdCount c" by auto
  let ?i = "take 48 data" and ?k = "cd_credentialIdCount c - 1"
  define d where "d = hex_pages ?i @ 0 # drop (length (hex_pages ?i) + 1) (cd_credentialId c)"
  note i = wf_cred [OF wf(3)]
  have ne: "?i \<noteq> []" using True by auto
  have lp: "length (hex_pages ?i) = 101"
    using length_hex_from [OF ne, of 0] True by (simp add: hex_from_pages)
  have tx: "to_paginated_hex ?i (cd_credentialId c) = Ok d"
    unfolding d_def by (rule to_paginated_hex_Ok [OF ne]) (use True i(13) in simp_all)
  have tx': "rwp (to_paginated_hex ?i (cd_credentialId c)) P Y = P d" for P Y by (simp only: tx rwp.simps)
  have dd: "cstr d = hex_pages ?i" "cbuf 102 d" unfolding d_def using i(13) lp by (simp_all add: cbuf_def)
  have k: "sub8 (cd_credentialIdCount c) 1 = ?k" using pos ids by (simp add: ids_at_def)
  let ?st = "if ?k = 0 then TX_UPDATE_CREDENTIAL_THRESHOLD else TX_UPDATE_CREDENTIAL_ID"
  let ?c = "c\<lparr> cd_credentialId := d, cd_credentialIdCount := ?k, cd_updateCredentialState := ?st \<rparr>"
  have "ids_at ?c (creds_bytes hdr n creds) (creds_screens E s hdr creds) (m @ ?i) (log @ [id_screen ?i]) (ids @ [?i])"
    using ids pos True by (auto simp: ids_at_def)
  then have stage: "creds_stage E (cd_updateCredentialState ?c) ?c (creds_bytes hdr n creds) (creds_screens E s hdr creds)
      (m @ ?i) (log @ [id_screen ?i])"
    by (cases "?k = 0") auto
  have "creds_ready E (log @ [id_screen ?i]) (at_cred s (m @ ?i) ?c)" by (rule creds_ready_at [OF _ stage]) (use u in simp)
  moreover have "wf_credential ?c" using wf(3) dd(2) by (simp add: wf_credential_def)
  ultimately have fin: "kept (creds_flow E log) s ((at_cred s (m @ ?i) ?c)\<lparr> screen := Some rv, status_page := False, async_reply := True \<rparr>)"
    if "rv_callback rv = sendSuccessNoIdleCallback" "rv_pairs rv = id_screen ?i" for rv
    using that wf by (intro creds_drawn) simp_all
  have dr: "0 \<in> set d" using dd(2) by (simp add: cbuf_def)
  define C where "C = kept (creds_flow E log) s"
  note fin = fin [folded C_def]
  have same: "(c\<lparr> cd_credentialId := d, cd_credentialIdCount := ?k, cd_updateCredentialState := TX_UPDATE_CREDENTIAL_ID \<rparr>) =
      c\<lparr> cd_credentialId := d, cd_credentialIdCount := ?k \<rparr>" using us by (cases c) simp
  show ?thesis
    using True wf(1) fin dr dd(1) us same unfolding C_def [symmetric]
    by (cases "?k = 0") (simp_all add: creds_id_packet_def slice_Ok tx' k [simplified] Let_def uiSignUpdateCredentialIdDisplay_def use_case_defs id_screen_def
        request_async_reply_def)
qed

lemma creds_threshold:
  assumes E: "platform E" and wf: "wf_app s" "\<not> awaiting s" "wf_credential c" and u: "creds_at E s c hdr n creds"
    and st: "creds_stage E TX_UPDATE_CREDENTIAL_THRESHOLD c (creds_bytes hdr n creds) (creds_screens E s hdr creds) m log"
  shows "wp (creds_threshold_packet E data (at_cred s m c)) (\<lambda>_. kept (creds_flow E log) s) (refused s)"
proof (cases data)
  case Nil
  then show ?thesis using wf(1) by (simp add: creds_threshold_packet_def)
next
  case (Cons b rest)
  from st obtain ids where ids: "ids_at c (creds_bytes hdr n creds) (creds_screens E s hdr creds) m log ids"
    and k: "cd_credentialIdCount c = 0" by auto
  let ?d = "dec (unat b)"
  let ?dst = "?d @ 0 # drop (length ?d + 1) (cd_threshold c)"
  let ?c = "c\<lparr> cd_threshold := ?dst \<rparr>"
  note i = wf_cred [OF wf(3)]
  have l: "length ?d \<le> 3" by (rule dec_byte)
  have bd: "bin_to_dec E (cd_threshold c) (ucast b) = Ok (?dst, length ?d + 1)"
    by (rule byte_text [OF platformD(4) [OF E] i(12)])
  have wc: "wf_credential ?c" using wf(3) l by (simp add: wf_credential_def cbuf_def)
  have fin: "kept (creds_flow E log) s ((at_cred s (m @ [b]) ?c)\<lparr> screen := Some rv, status_page := False, async_reply := True \<rparr>)"
    if "rv_callback rv = review_choice_sign" "rv_pairs rv = [(ascii ''Threshold'', ?d)]" for rv
  proof -
    let ?t = "(at_cred s (m @ [b]) ?c)\<lparr> screen := Some rv, status_page := False, async_reply := True \<rparr>"
    have aw: "awaiting ?t" using that(1) by (simp add: awaiting_def)
    have n: "n = length creds" "n < 256" using u ids by (simp_all add: creds_at_def ids_at_def)
    have "creds_asked E log ?t hdr creds ids b"
      using u ids k n that by (simp add: creds_asked_def creds_at_def ids_at_def asks_to_sign_def)
    then have "creds_flow E log ?t" unfolding creds_flow_def if_P [OF aw] by blast
    then show ?thesis using aw wf wc by (intro kept_review) simp_all
  qed
  have cs: "cstr ?dst = ?d" by simp
  define C where "C = kept (creds_flow E log) s"
  note fin = fin [folded C_def]
  show ?thesis
    using Cons wf(1) fin unfolding C_def [symmetric]
    by (simp add: creds_threshold_packet_def byte_at_def Let_def bd uiSignUpdateCredentialThresholdDisplay_def use_case_defs request_async_reply_def)
qed

lemma creds_credential:
  assumes E: "platform E" and wf: "wf_app s" "\<not> awaiting s" "wf_credential c" and len: "length (cmd_data cmd) < 256"
    and u: "creds_at E s c hdr n creds" and p2: "cmd_p2 cmd = 2"
    and us: "cd_updateCredentialState c = TX_UPDATE_CREDENTIAL_CREDENTIAL"
    and st: "creds_stage E TX_UPDATE_CREDENTIAL_CREDENTIAL c (creds_bytes hdr n creds) (creds_screens E s hdr creds) m log"
  shows "wp (handle_sign_credential_deployment E cmd False (at_cred s m c)) (\<lambda>_. kept (creds_flow E log) s) (refused s)"
proof -
  from st obtain i p where m: "m = (creds_bytes hdr n creds @ [i]) @ credential_bytes p" and a: "arrived E False (cd_state c) c p"
    and log: "log = creds_screens E s hdr creds @ credential_screens p" and pos: "0 < cd_credentialDeploymentCount c" by auto
  let ?pre = "creds_bytes hdr n creds @ [i]"
  have "kept (creds_flow E log) s t" if "cred_next E False ?pre p c s t" for t
    using that
  proof (cases rule: cred_nextE)
    case (reply m' c')
    then obtain p' where p: "m' = ?pre @ credential_bytes p'" "arrived E False (cd_state c') c' p'" "credential_screens p' = credential_screens p"
      "counters c' = counters c" by (auto simp: moved_def)
    have us': "cd_updateCredentialState c' = TX_UPDATE_CREDENTIAL_CREDENTIAL" "0 < cd_credentialDeploymentCount c'"
      using p(4) us pos by (simp_all add: counters_def)
    have "creds_stage E (cd_updateCredentialState c') c' (creds_bytes hdr n creds) (creds_screens E s hdr creds) m' log"
      using p us' log by (auto intro!: exI [of _ p'])
    then have "creds_ready E log (at_cred s m' c')"
      by (rule creds_ready_at [rotated]) (use u creds_at_counters [OF p(4)] in simp)
    then show ?thesis unfolding reply(2) using wf reply(1) by (intro creds_replied) simp_all
  next
    case (drawn m' c' rv)
    then obtain p' where p: "m' = ?pre @ credential_bytes p'"
      "cred_up E False c' p' rv \<and> credential_screens p' = credential_screens p @ [rv_pairs rv] \<or>
       added_on_screen E False c' p' rv \<and> credential_screens p' = credential_screens p"
      "counters c' = counters c" by (auto simp: moved_def cred_up_def)
    have us': "cd_updateCredentialState c' = TX_UPDATE_CREDENTIAL_CREDENTIAL" "0 < cd_credentialDeploymentCount c'"
      using p(3) us pos by (simp_all add: counters_def)
    have "rv_callback rv \<noteq> review_choice" using p(2) cred_up_callback by (fastforce simp: added_on_screen_def)
    then have aw: "awaiting t" using drawn(2) by (simp add: awaiting_def)
    have "creds_parsing E log t rv hdr n creds i p'"
      unfolding creds_parsing_def using p us' log u creds_at_counters [OF p(3)] drawn(2) by auto
    then have "creds_flow E log t" unfolding creds_flow_def if_P [OF aw] using drawn(2) by auto
    then show ?thesis using aw drawn wf by (intro kept_review) simp_all
  qed simp
  then show ?thesis
    unfolding m
    by (intro wp_mono [OF cred_packet [OF E wf(1,3) len a, of ?pre]]) (use us p2 pos in simp_all)
qed

lemma creds_initial:
  assumes E: "platform E" and wf: "wf_app s" "\<not> awaiting s" and len: "length data < 256"
  shows "wp (creds_initial_packet E data s) (\<lambda>_. kept (creds_flow E []) s) (refused s)"
  unfolding creds_initial_packet_def Let_def wp_bind
proof (rule wp_mono [OF path_step [OF wf(1)]], goal_cases)
  case (1 n t)
  then obtain ns where p: "path_done data s ns n t" by blast
  note pd = path_doneD [OF p wf(1)]
  show ?case
  proof (rule wp_init_step, goal_cases)
    case 1
    have h0: "tx_hash (t\<lparr> tx_hash := Some [] \<rparr>) = Some []" "t\<lparr> tx_hash := Some [] \<rparr> = t \<or> t\<lparr> tx_hash := Some [] \<rparr> = t\<lparr> tx_hash := Some [] \<rparr>" by simp_all
    show ?case
    proof (rule wp_mono [OF account_header_step [OF E wf(1) len p h0]], goal_cases)
      case (1 k v)
      then obtain hdr rest where h: "header_done E ns hdr (hdr @ [UPDATE_CREDENTIALS]) s v" and r: "drop (k + n) data = rest"
        "sub8 (sub8 (length data) n) k = length rest" by auto
      note hd = header_doneD [OF h]
      have ss: "kept f v = kept f s" "refused v = refused s" for f using same_start [of v s] hd by simp_all
      have aw: "\<not> awaiting v" using wf(2) hd by (simp add: awaiting_def)
      have v: "at_cred v (hdr @ [UPDATE_CREDENTIALS]) (cred v) = v" by (rule cred.self [OF hd(4)])
      show ?case
      proof (cases rest)
        case Nil
        then show ?thesis using r refused_self(1) [OF hd(5)] ss by simp
      next
        case (Cons b xs)
        let ?st = "if unat b = 0 then TX_UPDATE_CREDENTIAL_ID_COUNT else TX_UPDATE_CREDENTIAL_CREDENTIAL_INDEX"
        let ?c = "(cred v)\<lparr> cd_credentialDeploymentCount := unat b, cd_updateCredentialState := ?st \<rparr>"
        let ?m = "hdr @ [UPDATE_CREDENTIALS, b]"
        have m: "?m = creds_bytes hdr (unat b) []" by (simp add: creds_bytes_def)
        have at: "creds_at E v ?c hdr (unat b) []" using hd(3) unat_bounds(1) [of b] by (simp add: creds_at_def)
        let ?rows = "header_pairs E ''Sender'' hdr (global_derivation_path v)"
        have stage: "creds_stage E (cd_updateCredentialState ?c) ?c (creds_bytes hdr (unat b) []) (creds_screens E v hdr []) ?m [?rows]"
          unfolding m by (cases "unat b = 0") (simp_all add: creds_screens_def)
        have "creds_ready E ([] @ [?rows]) (at_cred v ?m ?c)" using creds_ready_at [OF at stage] by simp
        moreover have "wf_credential ?c" using cred.wf_member [OF hd(5)] by (simp add: wf_credential_def)
        ultimately have fin: "kept (creds_flow E []) s ((at_cred v ?m ?c)\<lparr> screen := Some rv, status_page := False, async_reply := True \<rparr>)"
          if "rv_callback rv = sendSuccessNoIdleCallback" "rv_pairs rv = ?rows" for rv
          using that creds_drawn [OF hd(5) aw, of ?c rv E "[]"] by (simp add: ss)
        have sender: "wf_sender (global_account_sender (at_cred v ?m ?c))" using hd(5) by (simp add: wf_app_def)
        have rows: "drawable (addAccountHeaderPairs ''Sender'' (at_cred v ?m ?c))"
          "shown_rows (addAccountHeaderPairs ''Sender'' (at_cred v ?m ?c)) = ?rows"
          using sender header_shown_pairs [of E hdr "at_cred v ?m ?c" "''Sender''"] hd(3) by simp_all
        define F where "F = kept (creds_flow E []) s"
        have draw: "wp (uiSignUpdateCredentialInitialDisplay (at_cred v ?m ?c)) (\<lambda>_. F) (refused s)"
          using fin rows by (simp add: uiSignUpdateCredentialInitialDisplay_def use_case_defs request_async_reply_def flip: F_def)
        have "wp (creds_initial_tail) (\<lambda>_. F) (refused s)" if "creds_initial_tail =
            (call (byte_at rest 0) (at_cred v (hdr @ [UPDATE_CREDENTIALS]) (cred v)) (\<lambda>n.
             bind (hash_data E rest 0 1 (set_cred (\<lambda>c. c\<lparr> cd_credentialDeploymentCount := unat n \<rparr>) (at_cred v (hdr @ [UPDATE_CREDENTIALS]) (cred v)))) (\<lambda>_ s.
             uiSignUpdateCredentialInitialDisplay (set_cred (\<lambda>c. c\<lparr> cd_updateCredentialState :=
               if cd_credentialDeploymentCount c = 0 then TX_UPDATE_CREDENTIAL_ID_COUNT
               else TX_UPDATE_CREDENTIAL_CREDENTIAL_INDEX \<rparr>) s))))" for creds_initial_tail
          unfolding that using Cons draw refused_at_part [OF hd(5), where store = put_cred] by (simp add: byte_at_def ss)
        from this [OF refl, unfolded v] show ?thesis
          using r Cons by (simp add: F_def)
      qed
    qed (simp_all add: pd)
  qed (use pd(7) in simp)
qed simp

lemma creds_handle:
  assumes E: "platform E" and wf: "wf_app s" "\<not> awaiting s" and len: "length (cmd_data c) < 256"
    and start: "if initial then global s = wiped \<and> log = [] else creds_flow E log s"
  shows "wp (handle_sign_update_credential E c initial s) (\<lambda>_ t. kept (creds_flow E log) s t) (refused s)"
proof -
  define u where "u = (if initial then set_cred (\<lambda>c. c\<lparr> cd_updateCredentialState := TX_UPDATE_CREDENTIAL_INITIAL \<rparr>) s else s)"
  have u: "wf_app u" "\<not> awaiting u" "replies u = replies s" "screen u = screen s" "currentInstruction u = currentInstruction s"
    using wf by (simp_all add: u_def change_part_def wf_app_def wf_context_def wf_credential_def awaiting_def)
  note ss = same_start [OF u(3-5)]
  have h: "handle_sign_update_credential E c initial s = handle_sign_update_credential E c False u"
    by (simp add: handle_sign_update_credential_def u_def)
  have d: "cd_updateCredentialState (cred u) = TX_UPDATE_CREDENTIAL_INITIAL \<and> log = [] \<or> creds_ready E log u"
  proof (cases initial)
    case True
    then show ?thesis using start by (simp add: u_def change_part_def)
  next
    case False
    then have "creds_flow E log s" using start by simp
    then show ?thesis unfolding creds_flow_def if_not_P [OF wf(2)] using False by (simp add: u_def)
  qed
  define F where "F = kept (creds_flow E log) u"
  have bad: "wp (Throw ERROR_INVALID_STATE u) (\<lambda>_. F) (refused u)" using refused_self(1) [OF u(1)] by simp
  note hu = handle_sign_update_credential_def [of E c False u, unfolded Let_def if_False]
  have "wp (handle_sign_update_credential E c False u) (\<lambda>_. F) (refused u)"
    using d
  proof (elim disjE conjE)
    assume a: "cd_updateCredentialState (cred u) = TX_UPDATE_CREDENTIAL_INITIAL" "log = []"
    then show ?thesis unfolding hu using creds_initial [OF E u(1,2) len] bad by (simp add: F_def)
  next
    assume "creds_ready E log u"
    then obtain hdr n creds m where m: "tx_hash u = Some m" and a: "creds_at E u (cred u) hdr n creds" and
      st: "creds_stage E (cd_updateCredentialState (cred u)) (cred u) (creds_bytes hdr n creds) (creds_screens E u hdr creds) m log"
      unfolding creds_ready_def by blast
    have self: "at_cred u m (cred u) = u" by (rule cred.self [OF m])
    note k = u(1,2) cred.wf_member [OF u(1)] a
    show ?thesis
    proof (cases "cd_updateCredentialState (cred u)")
      case TX_UPDATE_CREDENTIAL_INITIAL
      then show ?thesis using st by simp
    next
      case TX_UPDATE_CREDENTIAL_CREDENTIAL_INDEX
      have "wp (creds_index_packet E (cmd_data c) u) (\<lambda>_. F) (refused u)"
        using creds_index [OF k, of m log "cmd_data c"] st TX_UPDATE_CREDENTIAL_CREDENTIAL_INDEX unfolding self F_def by (simp del: creds_stage.simps)
      then show ?thesis unfolding hu using TX_UPDATE_CREDENTIAL_CREDENTIAL_INDEX bad by simp
    next
      case TX_UPDATE_CREDENTIAL_CREDENTIAL
      have "wp (handle_sign_credential_deployment E c False u) (\<lambda>_. F) (refused u)" if "cmd_p2 c = 2"
        using creds_credential [OF E k(1-3) len a that, of m log] st TX_UPDATE_CREDENTIAL_CREDENTIAL unfolding self F_def by (simp del: creds_stage.simps)
      then show ?thesis unfolding hu using TX_UPDATE_CREDENTIAL_CREDENTIAL bad by simp
    next
      case TX_UPDATE_CREDENTIAL_ID_COUNT
      have "wp (creds_id_count_packet E (cmd_data c) u) (\<lambda>_. F) (refused u)"
        using creds_id_count [OF k, of m log "cmd_data c"] st TX_UPDATE_CREDENTIAL_ID_COUNT unfolding self F_def by (simp del: creds_stage.simps)
      then show ?thesis unfolding hu using TX_UPDATE_CREDENTIAL_ID_COUNT bad by simp
    next
      case TX_UPDATE_CREDENTIAL_ID
      have "wp (creds_id_packet E (cmd_data c) u) (\<lambda>_. F) (refused u)"
        using creds_id [OF k TX_UPDATE_CREDENTIAL_ID, of m log "cmd_data c"] st TX_UPDATE_CREDENTIAL_ID unfolding self F_def by (simp del: creds_stage.simps)
      then show ?thesis unfolding hu using TX_UPDATE_CREDENTIAL_ID bad by simp
    next
      case TX_UPDATE_CREDENTIAL_THRESHOLD
      have "wp (creds_threshold_packet E (cmd_data c) u) (\<lambda>_. F) (refused u)"
        using creds_threshold [OF E k, of m log "cmd_data c"] st TX_UPDATE_CREDENTIAL_THRESHOLD unfolding self F_def by (simp del: creds_stage.simps)
      then show ?thesis unfolding hu using TX_UPDATE_CREDENTIAL_THRESHOLD bad by simp
    qed
  qed
  then show ?thesis unfolding h F_def ss .
qed

subsection \<open>The choices\<close>

lemma added_accepted:
  assumes wf: "wf_app s" "\<not> awaiting s" and p: "creds_parsing E log s rv hdr n creds i p" and a: "added_on_screen E False (cred s) p rv"
  shows "wp (confirmAddedCredential s) (\<lambda>_. kept (creds_flow E (log @ [rv_pairs rv])) s) X"
proof -
  let ?c = "cred s"
  have u: "creds_at E s ?c hdr n creds" "tx_hash s = Some ((creds_bytes hdr n creds @ [i]) @ credential_bytes p)"
    "0 < cd_credentialDeploymentCount ?c" using p by (simp_all add: creds_parsing_def)
  have "rv_callback rv = review_added_credential" using a by (simp add: added_on_screen_def)
  then have "\<not> cred_up E False ?c p rv" using cred_up_callback by fastforce
  then have log: "log = creds_screens E s hdr creds @ credential_screens p" using p by (simp add: creds_parsing_def)
  obtain provider where pr: "provider_rows E False p provider" "rv_pairs rv = added_rows E p provider" "proving False p 0"
    using a by (auto simp: added_on_screen_def)
  let ?creds = "creds @ [(i, p, provider)]" and ?k = "cd_credentialDeploymentCount ?c - 1"
  let ?d = "if ?k = 0 then ?c\<lparr> cd_credentialDeploymentCount := 0, cd_updateCredentialState := TX_UPDATE_CREDENTIAL_ID_COUNT, cd_state := CREDENTIAL_DEPLOYMENT_ZERO \<rparr>
    else ?c\<lparr> cd_credentialDeploymentCount := ?k, cd_updateCredentialState := TX_UPDATE_CREDENTIAL_CREDENTIAL_INDEX,
      cd_state := TX_CREDENTIAL_DEPLOYMENT_VERIFICATION_KEYS_LENGTH \<rparr>"
  have m: "(creds_bytes hdr n creds @ [i]) @ credential_bytes p = creds_bytes hdr n ?creds"
    by (simp add: creds_bytes_def added_bytes_def)
  have l: "log @ [rv_pairs rv] = creds_screens E s hdr ?creds" by (simp add: log pr(2) creds_screens_def added_screens_def)
  have at: "creds_at E s ?d hdr n ?creds" using u(1,3) pr by (auto simp: creds_at_def is_added_def)
  have stage: "creds_stage E (cd_updateCredentialState ?d) ?d (creds_bytes hdr n ?creds) (creds_screens E s hdr ?creds)
      (creds_bytes hdr n ?creds) (log @ [rv_pairs rv])"
    unfolding l by (cases "?k = 0") simp_all
  have wd: "wf_credential ?d" using cred.wf_member [OF wf(1)] by (simp add: wf_credential_def)
  note fin = creds_replied [OF wf wd creds_ready_at [OF at stage]]
  define t where "t = at_cred s (creds_bytes hdr n ?creds) ?c"
  have s: "s = t" unfolding t_def m [symmetric] by (rule cred.self [OF u(2), symmetric])
  define F where "F = kept (creds_flow E (log @ [rv_pairs rv])) s"
  have "wp (confirmAddedCredential t) (\<lambda>_. F) X"
    using fin u(3) unfolding F_def [symmetric] t_def by (cases "?k = 0") (simp_all add: confirmAddedCredential_def Let_def)
  then show ?thesis unfolding F_def s [symmetric] .
qed

lemma parsing_accepted:
  assumes E: "platform E" and wf: "wf_app s" "\<not> awaiting s" and p: "creds_parsing E log s rv hdr n creds i p" and k: "cred_up E False (cred s) p rv"
    and t: "cred_step s (resumed E False ((creds_bytes hdr n creds @ [i]) @ credential_bytes p) p (cred s)) t"
  shows "decided True (creds_flow E (log @ [rv_pairs rv])) s t"
proof -
  let ?c = "cred s" and ?m = "(creds_bytes hdr n creds @ [i]) @ credential_bytes p"
  have u: "creds_at E s ?c hdr n creds" "cd_updateCredentialState ?c = TX_UPDATE_CREDENTIAL_CREDENTIAL" "0 < cd_credentialDeploymentCount ?c"
    using p by (simp_all add: creds_parsing_def)
  have "\<not> added_on_screen E False ?c p rv" using k cred_up_callback by (fastforce simp: added_on_screen_def)
  then have log: "log @ [rv_pairs rv] = creds_screens E s hdr creds @ credential_screens p" using p by (simp add: creds_parsing_def)
  from t show ?thesis
  proof (cases rule: cred_stepE)
    case (replied m c)
    then have r: "m = ?m" "counters c = counters ?c" "arrived E False (cd_state c) c p" by (simp_all add: resumed_def)
    have us: "cd_updateCredentialState c = TX_UPDATE_CREDENTIAL_CREDENTIAL" "0 < cd_credentialDeploymentCount c"
      using r(2) u by (simp_all add: counters_def)
    have "creds_stage E (cd_updateCredentialState c) c (creds_bytes hdr n creds) (creds_screens E s hdr creds) m (log @ [rv_pairs rv])"
      unfolding log using r us by auto
    then have "creds_ready E (log @ [rv_pairs rv]) (at_cred s m c)"
      by (rule creds_ready_at [rotated]) (use u creds_at_counters [OF r(2)] in simp)
    then show ?thesis unfolding replied(2) using wf replied(1) by (intro kept_decided creds_replied) simp_all
  qed (simp add: resumed_def)
qed

lemma creds_choice:
  assumes "platform E" "wf_app s" "\<not> awaiting s" "awaiting (s\<lparr> screen := Some rv \<rparr>)" "creds_flow E log (s\<lparr> screen := Some rv \<rparr>)"
  shows "rv_callback rv \<in> {review_choice_sign, sendSuccessNoIdleCallback, processNextVerificationKeyNoIdleCallback,
      review_credential_attribute, review_added_credential}"
    "rv_callback rv = review_choice_sign \<Longrightarrow>
      wp (choose_sign E confirm s) (\<lambda>_ t. decided confirm (creds_flow E (log @ [rv_pairs rv])) s t) (\<lambda>_ _. False)"
    "rv_callback rv = sendSuccessNoIdleCallback \<Longrightarrow>
      wp (choose_continue confirm s) (\<lambda>_ t. decided confirm (creds_flow E (log @ [rv_pairs rv])) s t) (\<lambda>_ _. False)"
    "rv_callback rv = processNextVerificationKeyNoIdleCallback \<Longrightarrow>
      wp (choose_next_key confirm s) (\<lambda>_ t. decided confirm (creds_flow E (log @ [rv_pairs rv])) s t) (\<lambda>_ _. False)"
    "rv_callback rv = review_credential_attribute \<Longrightarrow>
      wp (choose_attribute confirm s) (\<lambda>_ t. decided confirm (creds_flow E (log @ [rv_pairs rv])) s t) (\<lambda>_ _. False)"
    "rv_callback rv = review_added_credential \<Longrightarrow>
      wp (choose_added_credential confirm s) (\<lambda>_ t. decided confirm (creds_flow E (log @ [rv_pairs rv])) s t) (\<lambda>_ _. False)"
proof -
  let ?d = "\<lambda>t. decided confirm (creds_flow E (log @ [rv_pairs rv])) s t"
  have fr: "creds_parsing E log (s\<lparr> screen := Some rv \<rparr>) rv hdr n creds i p = creds_parsing E log s rv hdr n creds i p" for hdr n creds i p
    by (simp add: creds_parsing_def)
  have up: "rv_callback rv = sendSuccessNoIdleCallback \<and> creds_ready E (log @ [rv_pairs rv]) s \<or>
      (\<exists>hdr n creds i p. creds_parsing E log s rv hdr n creds i p) \<or> (\<exists>m. tx_hash s = Some m) \<and> rv_callback rv = review_choice_sign"
    using assms(5) unfolding creds_flow_def if_P [OF assms(4)]
    by (auto simp: fr creds_asked_def asks_to_sign_def)
  have parsing_cb: "rv_callback rv \<in> {processNextVerificationKeyNoIdleCallback, review_credential_attribute, review_added_credential}"
    if "creds_parsing E log s rv hdr n creds i p" for hdr n creds i p
    using that cred_up_callback [of E False "cred s" p rv] by (auto simp: creds_parsing_def added_on_screen_def)
  then show "rv_callback rv \<in> {review_choice_sign, sendSuccessNoIdleCallback, processNextVerificationKeyNoIdleCallback,
      review_credential_attribute, review_added_credential}" using up by blast
  show "wp (choose_sign E confirm s) (\<lambda>_. ?d) (\<lambda>_ _. False)" if "rv_callback rv = review_choice_sign"
  proof -
    from up that parsing_cb obtain m where m: "tx_hash s = Some m" by fastforce
    show ?thesis
      by (rule wp_mono [OF choose_sign_wp [OF assms(1,2) m assms(3)]]) (simp_all add: decided_def settled_def)
  qed
  note no = cred_refused [OF assms(2,3)]
  show "wp (choose_continue confirm s) (\<lambda>_. ?d) (\<lambda>_ _. False)" if cb: "rv_callback rv = sendSuccessNoIdleCallback"
  proof (cases confirm)
    case True
    have rd: "creds_ready E (log @ [rv_pairs rv]) s" using up cb parsing_cb by fastforce
    let ?t = "s\<lparr> replies := replies s @ [([], SWO_SUCCESS)] \<rparr>"
    have na: "\<not> awaiting ?t" using assms(3) by (simp add: awaiting_def)
    have "creds_flow E (log @ [rv_pairs rv]) ?t"
      unfolding creds_flow_def if_not_P [OF na] using rd by simp
    then have "kept (creds_flow E (log @ [rv_pairs rv])) s ?t"
      using na assms(2) by (intro kept_reply) (simp_all add: wf_app_def)
    then show ?thesis using True kept_decided by (simp add: choose_continue_def)
  next
    case False
    then show ?thesis using no(1) by (simp add: choose_continue_def choose_next_key_def)
  qed
  note wc = cred.wf_member [OF assms(2)]
  have self: "at_cred s ((creds_bytes hdr n creds @ [i]) @ credential_bytes p) (cred s) = s"
    if "creds_parsing E log s rv hdr n creds i p" for hdr n creds i p
    using that cred.self by (simp add: creds_parsing_def)
  show "wp (choose_next_key confirm s) (\<lambda>_. ?d) (\<lambda>_ _. False)" if cb: "rv_callback rv = processNextVerificationKeyNoIdleCallback"
  proof (cases confirm)
    case True
    from up cb obtain hdr n creds i p where p: "creds_parsing E log s rv hdr n creds i p" by auto
    then have k: "cred_up E False (cred s) p rv" using cb by (auto simp: creds_parsing_def added_on_screen_def)
    show ?thesis
      unfolding eqTrueI [OF True]
      by (rule wp_mono [OF cred_accepted(1) [OF wc k refl cb, where s = s and m = "(creds_bytes hdr n creds @ [i]) @ credential_bytes p", unfolded self [OF p]]])
        (use parsing_accepted [OF assms(1-3) p k] in blast)+
  qed (use no(1) in simp)
  show "wp (choose_attribute confirm s) (\<lambda>_. ?d) (\<lambda>_ _. False)" if cb: "rv_callback rv = review_credential_attribute"
  proof (cases confirm)
    case True
    from up cb obtain hdr n creds i p where p: "creds_parsing E log s rv hdr n creds i p" by auto
    then have k: "cred_up E False (cred s) p rv" using cb by (auto simp: creds_parsing_def added_on_screen_def)
    show ?thesis
      unfolding eqTrueI [OF True]
      by (rule wp_mono [OF cred_accepted(2) [OF wc k refl cb, where s = s and m = "(creds_bytes hdr n creds @ [i]) @ credential_bytes p", unfolded self [OF p]]])
        (use parsing_accepted [OF assms(1-3) p k] in blast)+
  qed (use no(2) in simp)
  show "wp (choose_added_credential confirm s) (\<lambda>_. ?d) (\<lambda>_ _. False)" if cb: "rv_callback rv = review_added_credential"
  proof (cases confirm)
    case True
    from up cb obtain hdr n creds i p where p: "creds_parsing E log s rv hdr n creds i p" by auto
    then have a: "added_on_screen E False (cred s) p rv"
      using cb cred_up_callback [of E False "cred s" p rv] by (auto simp: creds_parsing_def)
    have "wp (ux_run_guarded confirmAddedCredential s) (\<lambda>_ t. decided True (creds_flow E (log @ [rv_pairs rv])) s t) (\<lambda>_ _. False)"
      by (rule wp_ux_run_guarded, rule wp_mono [OF added_accepted [OF assms(2,3) p a, where X = "\<lambda>_ _. False"]])
        (simp_all add: kept_decided)
    then show ?thesis using True by (simp add: choose_added_credential_def)
  qed (use no(3) in simp)
qed

lemma creds_flow_frame:
  assumes "creds_flow E log s" "\<not> awaiting s"
  shows "creds_flow E log (s\<lparr> screen := None, status_page := b \<rparr>)" "creds_flow E log (s\<lparr> replies := r \<rparr>)"
proof -
  have na: "\<not> awaiting (s\<lparr> screen := None, status_page := b \<rparr>)" "\<not> awaiting (s\<lparr> replies := r \<rparr>)"
    using assms(2) by (simp_all add: awaiting_def)
  note d = assms(1) [unfolded creds_flow_def if_not_P [OF assms(2)]]
  show "creds_flow E log (s\<lparr> screen := None, status_page := b \<rparr>)"
    unfolding creds_flow_def if_not_P [OF na(1)] using d by simp
  show "creds_flow E log (s\<lparr> replies := r \<rparr>)"
    unfolding creds_flow_def if_not_P [OF na(2)] using d by simp
qed

lemma creds_flow_fresh: "global s = wiped \<Longrightarrow> \<not> awaiting s \<Longrightarrow> creds_flow E [] s"
  by (simp add: creds_flow_def wiped_def wiped_credential_def)

end
