(* ===== verification/Dispatcher.thy ===== *)
theory Dispatcher
  imports InitContract Delegation ExportNewPath Baker DeployCredential UpdateCredential
begin

text \<open>
  The dispatcher and the receive loop: src/src/apdu/dispatcher.c, app_main.c, the instructions that
  reply at once (get_app_name.c, get_app_version.c), and the callbacks of ui/display_nbgl.c as one
  table.

  \<open>rest\<close> stands for the handlers that are not part of the model; a property
  is about the instructions whose handlers are.
\<close>

subsection \<open>Operations\<close>

record rest =
  rest_handler :: "u8 \<Rightarrow> command \<Rightarrow> bool \<Rightarrow> app \<Rightarrow> unit act"

text \<open>dispatcher.h\<close>

abbreviation INS_VERIFY_ADDRESS :: u8 where "INS_VERIFY_ADDRESS \<equiv> 0x00"
abbreviation INS_GET_PUBLIC_KEY :: u8 where "INS_GET_PUBLIC_KEY \<equiv> 0x01"
abbreviation INS_SIGN_TRANSFER :: u8 where "INS_SIGN_TRANSFER \<equiv> 0x02"
abbreviation INS_SIGN_TRANSFER_WITH_SCHEDULE :: u8 where "INS_SIGN_TRANSFER_WITH_SCHEDULE \<equiv> 0x03"
abbreviation INS_CREDENTIAL_DEPLOYMENT :: u8 where "INS_CREDENTIAL_DEPLOYMENT \<equiv> 0x04"
abbreviation INS_EXPORT_PRIVATE_KEY_LEGACY :: u8 where "INS_EXPORT_PRIVATE_KEY_LEGACY \<equiv> 0x05"
abbreviation INS_DEPLOY_MODULE :: u8 where "INS_DEPLOY_MODULE \<equiv> 0x06"
abbreviation INS_INIT_CONTRACT :: u8 where "INS_INIT_CONTRACT \<equiv> 0x07"
abbreviation INS_UPDATE_CONTRACT :: u8 where "INS_UPDATE_CONTRACT \<equiv> 0x08"
abbreviation INS_TRANSFER_TO_PUBLIC :: u8 where "INS_TRANSFER_TO_PUBLIC \<equiv> 0x12"
abbreviation INS_CONFIGURE_DELEGATION :: u8 where "INS_CONFIGURE_DELEGATION \<equiv> 0x17"
abbreviation INS_CONFIGURE_BAKER :: u8 where "INS_CONFIGURE_BAKER \<equiv> 0x18"
abbreviation INS_PUBLIC_INFO_FOR_IP :: u8 where "INS_PUBLIC_INFO_FOR_IP \<equiv> 0x20"
abbreviation INS_GET_APP_NAME :: u8 where "INS_GET_APP_NAME \<equiv> 0x21"
abbreviation INS_SET_TRUSTED_NAME :: u8 where "INS_SET_TRUSTED_NAME \<equiv> 0x22"
abbreviation INS_GET_CHALLENGE :: u8 where "INS_GET_CHALLENGE \<equiv> 0x23"
abbreviation INS_SIGN_PLT :: u8 where "INS_SIGN_PLT \<equiv> 0x27"
abbreviation INS_SIGN_UPDATE_CREDENTIAL :: u8 where "INS_SIGN_UPDATE_CREDENTIAL \<equiv> 0x31"
abbreviation INS_SIGN_TRANSFER_WITH_MEMO :: u8 where "INS_SIGN_TRANSFER_WITH_MEMO \<equiv> 0x32"
abbreviation INS_SIGN_TRANSFER_WITH_SCHEDULE_AND_MEMO :: u8 where
  "INS_SIGN_TRANSFER_WITH_SCHEDULE_AND_MEMO \<equiv> 0x34"
abbreviation INS_REGISTER_DATA :: u8 where "INS_REGISTER_DATA \<equiv> 0x35"
abbreviation INS_EXPORT_PRIVATE_KEY_NEW :: u8 where "INS_EXPORT_PRIVATE_KEY_NEW \<equiv> 0x37"
abbreviation INS_APP_VERSION :: u8 where "INS_APP_VERSION \<equiv> 0x40"
abbreviation APP_CLA :: u8 where "APP_CLA \<equiv> 0xE0"

text \<open>The name and the version are those of the Makefile.\<close>

definition handle_get_app_name :: "app \<Rightarrow> unit act" where
  "handle_get_app_name s = io_send_response (ascii ''Concordium'') SWO_SUCCESS s"

definition handle_get_app_version :: "app \<Rightarrow> unit act" where
  "handle_get_app_version s = io_send_response [5, 7, 0] SWO_SUCCESS s"

text \<open>An instruction that takes neither data nor parameters, and a query, which the dispatcher releases.\<close>

definition dispatch_bare :: "(app \<Rightarrow> unit act) \<Rightarrow> command \<Rightarrow> app \<Rightarrow> unit act" where
  "dispatch_bare handler cmd s =
     (if cmd_data cmd \<noteq> [] then io_send_sw SWO_WRONG_DATA_LENGTH s
      else if cmd_p1 cmd \<noteq> 0 \<or> cmd_p2 cmd \<noteq> 0 then io_send_sw SWO_INCORRECT_P1_P2 s
      else handler s)"

definition dispatch_query :: "(app \<Rightarrow> unit act) \<Rightarrow> command \<Rightarrow> app \<Rightarrow> unit act" where
  "dispatch_query handler =
     dispatch_bare (\<lambda>s. bind (handler s) (\<lambda>_ s. Ret () (s\<lparr> currentInstruction := INSTRUCTION_NONE \<rparr>)))"

text \<open>The handlers that demand data.\<close>

definition data_handler :: "sdk \<Rightarrow> rest \<Rightarrow> u8 \<Rightarrow> (command \<Rightarrow> bool \<Rightarrow> app \<Rightarrow> unit act) option" where
  "data_handler E R ins =
     (if ins = INS_GET_PUBLIC_KEY then Some (handle_get_public_key E)
      else if ins = INS_VERIFY_ADDRESS then Some (rest_handler R ins)
      else if ins = INS_SIGN_TRANSFER then Some (\<lambda>cmd initial. handle_sign_transfer E cmd)
      else if ins = INS_SIGN_TRANSFER_WITH_MEMO then Some (handle_sign_transfer_with_memo E)
      else if ins = INS_SIGN_TRANSFER_WITH_SCHEDULE then Some (handle_sign_transfer_with_schedule E)
      else if ins = INS_SIGN_TRANSFER_WITH_SCHEDULE_AND_MEMO
      then Some (handle_sign_transfer_with_schedule_and_memo E)
      else if ins = INS_CREDENTIAL_DEPLOYMENT then Some (handle_sign_credential_deployment E)
      else if ins = INS_EXPORT_PRIVATE_KEY_LEGACY then Some (handle_export_private_key_legacy_path E)
      else if ins = INS_EXPORT_PRIVATE_KEY_NEW then Some (handle_export_private_key_new_path E)
      else if ins = INS_TRANSFER_TO_PUBLIC then Some (handle_sign_transfer_to_public E)
      else if ins = INS_REGISTER_DATA then Some (handle_sign_register_data E)
      else if ins = INS_PUBLIC_INFO_FOR_IP then Some (handle_sign_public_information_for_ip E)
      else if ins = INS_CONFIGURE_BAKER then Some (handle_sign_configure_baker E)
      else if ins = INS_CONFIGURE_DELEGATION then Some (handle_sign_configure_delegation E)
      else if ins = INS_SIGN_UPDATE_CREDENTIAL then Some (handle_sign_update_credential E)
      else if ins = INS_DEPLOY_MODULE then Some (handle_deploy_module E)
      else if ins = INS_INIT_CONTRACT then Some (handle_init_contract E)
      else if ins = INS_UPDATE_CONTRACT then Some (handle_update_contract E)
      else None)"

definition apdu_dispatcher :: "sdk \<Rightarrow> rest \<Rightarrow> command \<Rightarrow> bool \<Rightarrow> app \<Rightarrow> unit act" where
  "apdu_dispatcher E R cmd isInitialCall s =
     (if currentInstruction s \<noteq> INSTRUCTION_NONE \<and> currentInstruction s \<noteq> int (unat (cmd_ins cmd))
      then io_send_sw ERROR_INVALID_STATE (s\<lparr> currentInstruction := INSTRUCTION_NONE \<rparr>)
      else case data_handler E R (cmd_ins cmd) of
        Some handler \<Rightarrow>
          if cmd_data cmd = [] then io_send_sw SWO_WRONG_DATA_LENGTH s else handler cmd isInitialCall s
      | None \<Rightarrow>
          if cmd_ins cmd = INS_GET_APP_NAME then dispatch_query handle_get_app_name cmd s
          else if cmd_ins cmd = INS_SET_TRUSTED_NAME then rest_handler R (cmd_ins cmd) cmd isInitialCall s
          else if cmd_ins cmd = INS_GET_CHALLENGE
          then dispatch_bare (rest_handler R (cmd_ins cmd) cmd isInitialCall) cmd s
          else if cmd_ins cmd = INS_SIGN_PLT then
            if cmd_data cmd = [] \<and> cmd_p1 cmd \<noteq> 1 then io_send_sw SWO_WRONG_DATA_LENGTH s
            else rest_handler R (cmd_ins cmd) cmd isInitialCall s
          else if cmd_ins cmd = INS_APP_VERSION then dispatch_query handle_get_app_version cmd s
          else send_rejection SWO_INVALID_INS s)"

text \<open>One turn of the loop of \<open>app_main\<close>; None is an APDU that \<open>apdu_parser\<close> refuses.\<close>

definition app_main_step :: "sdk \<Rightarrow> rest \<Rightarrow> command option \<Rightarrow> app \<Rightarrow> unit act" where
  "app_main_step E R apdu s =
     (case apdu of
        None \<Rightarrow> io_send_sw SWO_WRONG_DATA_LENGTH s
      | Some cmd \<Rightarrow>
          if cmd_cla cmd \<noteq> APP_CLA then io_send_sw SWO_INVALID_CLA s
          else if currentInstruction s = INSTRUCTION_NONE then
            dispatch_guarded (apdu_dispatcher E R cmd True)
              (s\<lparr> global := wiped, currentInstruction := int (unat (cmd_ins cmd)) \<rparr>)
          else dispatch_guarded (apdu_dispatcher E R cmd False) s)"

text \<open>\<open>review_verify_address\<close>, and the table of callbacks.\<close>

definition choose_verify_address :: "bool \<Rightarrow> app \<Rightarrow> unit act" where
  "choose_verify_address confirm s =
     bind (if confirm then send_success_result_no_idle [] s else send_user_rejection_no_idle s)
       (\<lambda>_ s. nbgl_useCaseReviewStatus s)"

fun run_callback :: "sdk \<Rightarrow> callback \<Rightarrow> bool \<Rightarrow> app \<Rightarrow> unit act" where
  "run_callback E review_choice confirm s = finish_review_choice confirm s"
| "run_callback E review_public_key_choice confirm s = choose_public_key E confirm s"
| "run_callback E review_verify_address confirm s = choose_verify_address confirm s"
| "run_callback E review_export_private_key confirm s = choose_export_legacy E confirm s"
| "run_callback E review_export_private_key_new_path confirm s = choose_export_new_path E confirm s"
| "run_callback E review_choice_sign confirm s = choose_sign E confirm s"
| "run_callback E confirm_initial_scheduled_transfer_callback confirm s = choose_initial_scheduled confirm s"
| "run_callback E sendSuccessNoIdleCallback confirm s = choose_continue confirm s"
| "run_callback E processNextScheduledAmountWrapper confirm s = choose_next_scheduled E confirm s"
| "run_callback E confirmConfigureBakerStageCallback confirm s = choose_baker_stage confirm s"
| "run_callback E processNextVerificationKeyNoIdleCallback confirm s = choose_next_key confirm s"
| "run_callback E review_credential_attribute confirm s = choose_attribute confirm s"
| "run_callback E review_added_credential confirm s = choose_added_credential confirm s"

subsection \<open>The instructions meet their contract\<close>

sublocale sign_flow \<subseteq> runs: instruction handler run_callback "\<lambda>E log s. flow E s" "\<lambda>_. False"
proof (unfold_locales, goal_cases)
  case (1 E s c initial log)
  then show ?case using sign_handle by (simp add: kept_def)
next
  case (2 E s rv log confirm)
  then show ?case using sign_choice [of E s rv confirm] by simp
next
  case (3 E log s b)
  then show ?case using sign_frame [of E s b] by blast
next
  case (4 E log s rs)
  then show ?case using sign_frame by blast
next
  case (5 s E)
  then show ?case using sign_fresh by blast
qed

interpretation schedule_runs: instruction handle_sign_transfer_with_schedule run_callback schedule_flow "\<lambda>_. False"
proof (unfold_locales, goal_cases)
  case (1 E s c initial log)
  then show ?case using schedule_handle [of E s c initial log] by (simp add: kept_def)
next
  case (2 E s rv log confirm)
  then show ?case
    using schedule_choices(1-3) [OF 2(1-3) 2(5,4), of confirm] schedule_choices(4) [OF 2(1-3) 2(5,4)] by auto
next
  case (3 E log s b)
  then show ?case by (cases "sc_state (schedule s)") (simp_all add: schedule_flow_defs)
next
  case (5 s E)
  then show ?case by (simp add: schedule_flow_def wiped_def wiped_schedule_def)
qed simp

interpretation schedule_memo_runs: instruction handle_sign_transfer_with_schedule_and_memo run_callback schedule_flow "\<lambda>_. False"
proof (unfold_locales, goal_cases)
  case (1 E s c initial log)
  then show ?case using schedule_memo_handle [of E s c initial log] by (simp add: kept_def)
qed (rule schedule_runs.choice schedule_runs.idle schedule_runs.answer schedule_runs.fresh; assumption)+

interpretation register_runs: instruction handle_sign_register_data run_callback register_flow "\<lambda>_. False"
proof (unfold_locales, goal_cases)
  case (1 E s c initial log)
  then show ?case using register_handle [of E s c initial log] by (simp add: kept_def)
next
  case (2 E s rv log confirm)
  then show ?case
    using register_choices(1,2) [OF 2(1-5), of confirm] register_choices(3) [OF 2(1-5)] by auto
next
  case (3 E log s b)
  then show ?case by (simp add: register_flow_def split: registerDataState.splits)
next
  case (4 E log s rs)
  then show ?case by (simp add: register_flow_def split: registerDataState.splits)
next
  case (5 s E)
  then show ?case by (simp add: register_flow_def wiped_def)
qed

interpretation baker_runs: instruction handle_sign_configure_baker run_callback baker_flow "\<lambda>_. False"
proof (unfold_locales, goal_cases)
  case (1 E s c initial log)
  then show ?case using baker_handle [of E s c initial log] by (simp add: kept_def)
next
  case (2 E s rv log confirm)
  then show ?case using baker_choice(1) [OF 2(1-5)] baker_choice(2,3) [OF 2(1-5), of confirm] by auto
qed (simp_all add: baker_flow_frame baker_flow_fresh)

interpretation info_runs: instruction handle_sign_public_information_for_ip run_callback "\<lambda>E. info_flow" "\<lambda>_. False"
proof (unfold_locales, goal_cases)
  case (1 E s c initial log)
  then show ?case using info_handle [of E s c initial log] by (simp add: kept_def)
next
  case (2 E s rv log confirm)
  then show ?case using info_choice(1) [OF 2(1-5)] info_choice(2,3) [OF 2(1-5), of confirm] by auto
qed (simp_all add: info_flow_frame info_flow_fresh)

interpretation deployment_runs: instruction handle_sign_credential_deployment run_callback deployment_flow "\<lambda>_. False"
proof (unfold_locales, goal_cases)
  case (1 E s c initial log)
  then show ?case using deployment_handle [of E s c initial log] by (simp add: kept_def)
next
  case (2 E s rv log confirm)
  then show ?case using deployment_choice(1) [OF 2(1-5)] deployment_choice(2-4) [OF 2(1-5), of confirm] by auto
qed (simp_all add: deployment_flow_frame deployment_flow_fresh)

interpretation creds_runs: instruction handle_sign_update_credential run_callback creds_flow "\<lambda>_. False"
proof (unfold_locales, goal_cases)
  case (1 E s c initial log)
  then show ?case using creds_handle [of E s c initial log] by (simp add: kept_def)
next
  case (2 E s rv log confirm)
  then show ?case using creds_choice(1) [OF 2(1-5)] creds_choice(2-6) [OF 2(1-5), of confirm] by auto
qed (simp_all add: creds_flow_frame creds_flow_fresh)

interpretation public_key_runs: instruction handle_get_public_key run_callback "\<lambda>E log s. key_flow E s"
  "\<lambda>c. cmd_p1 c = P1_SKIP_DISPLAY"
proof (unfold_locales, goal_cases)
  case (1 E s c initial log)
  then show ?case by (intro key_handle)
next
  case (2 E s rv log confirm)
  then show ?case using key_choice(1) [OF 2(1-5)] key_choice(2) [OF 2(1-5), of confirm] by simp
qed (simp_all add: key_flow_def)

interpretation legacy_export_runs: instruction handle_export_private_key_legacy_path run_callback
  "\<lambda>E log s. legacy_flow E s" "\<lambda>_. False"
proof (unfold_locales, goal_cases)
  case (1 E s c initial log)
  then show ?case using legacy_export_handle [of E s c initial] by (simp add: kept_def)
next
  case (2 E s rv log confirm)
  then show ?case
    using legacy_export_choice(1) [OF 2(1-5)] legacy_export_choice(2) [OF 2(1-5), of confirm] by simp
qed (simp_all add: legacy_flow_def)

interpretation new_export_runs: instruction handle_export_private_key_new_path run_callback
  "\<lambda>E log s. new_path_flow E s" "\<lambda>_. False"
proof (unfold_locales, goal_cases)
  case (1 E s c initial log)
  then show ?case using new_path_handle [of E s c initial] by (simp add: kept_def)
next
  case (2 E s rv log confirm)
  then show ?case using new_path_choice(1) [OF 2(1-5)] new_path_choice(2) [OF 2(1-5), of confirm] by simp
qed (simp_all add: new_path_flow_def)

subsection \<open>The table of flows\<close>

text \<open>The instructions whose handlers are part of the model, and the invariant of each.\<close>

definition flow_of :: "u8 \<Rightarrow> sdk \<Rightarrow> log \<Rightarrow> app \<Rightarrow> bool" where
  "flow_of ins E log s =
     (if ins = INS_GET_PUBLIC_KEY then key_flow E s
      else if ins = INS_SIGN_TRANSFER then awaiting s \<longrightarrow> transfer_flow E s
      else if ins = INS_SIGN_TRANSFER_WITH_MEMO then memo_flow E s
      else if ins \<in> {INS_SIGN_TRANSFER_WITH_SCHEDULE, INS_SIGN_TRANSFER_WITH_SCHEDULE_AND_MEMO}
      then schedule_flow E log s
      else if ins = INS_EXPORT_PRIVATE_KEY_LEGACY then legacy_flow E s
      else if ins = INS_EXPORT_PRIVATE_KEY_NEW then new_path_flow E s
      else if ins = INS_TRANSFER_TO_PUBLIC then public_flow E s
      else if ins = INS_REGISTER_DATA then register_flow E log s
      else if ins = INS_CONFIGURE_DELEGATION then awaiting s \<longrightarrow> deleg_flow E s
      else if ins = INS_DEPLOY_MODULE then deploy_flow E s
      else if ins = INS_INIT_CONTRACT then init_flow E s
      else if ins = INS_UPDATE_CONTRACT then update_flow E s
      else if ins = INS_CONFIGURE_BAKER then baker_flow E log s
      else if ins = INS_PUBLIC_INFO_FOR_IP then info_flow log s
      else if ins = INS_CREDENTIAL_DEPLOYMENT then deployment_flow E log s
      else if ins = INS_SIGN_UPDATE_CREDENTIAL then creds_flow E log s
      else \<not> awaiting s)"

text \<open>The packets that are answered with data at once: a public key without its display.\<close>

definition public :: "u8 \<Rightarrow> command \<Rightarrow> bool" where
  "public ins c \<longleftrightarrow> ins = INS_GET_PUBLIC_KEY \<and> cmd_p1 c = P1_SKIP_DISPLAY"

definition interactive :: "u8 set" where
  "interactive = {INS_GET_PUBLIC_KEY, INS_SIGN_TRANSFER, INS_SIGN_TRANSFER_WITH_MEMO,
     INS_SIGN_TRANSFER_WITH_SCHEDULE, INS_SIGN_TRANSFER_WITH_SCHEDULE_AND_MEMO, INS_EXPORT_PRIVATE_KEY_LEGACY,
     INS_EXPORT_PRIVATE_KEY_NEW, INS_TRANSFER_TO_PUBLIC, INS_REGISTER_DATA, INS_CONFIGURE_DELEGATION,
     INS_DEPLOY_MODULE, INS_INIT_CONTRACT, INS_UPDATE_CONTRACT, INS_CONFIGURE_BAKER, INS_PUBLIC_INFO_FOR_IP,
     INS_CREDENTIAL_DEPLOYMENT, INS_SIGN_UPDATE_CREDENTIAL}"

definition outside :: "u8 set" where
  "outside = {INS_VERIFY_ADDRESS, INS_SET_TRUSTED_NAME, INS_GET_CHALLENGE, INS_SIGN_PLT}"

lemma table:
  assumes "ins \<in> interactive"
  shows "\<exists>h. (\<forall>E. data_handler E R ins = Some (h E)) \<and> instruction h run_callback (flow_of ins) (public ins)"
proof -
  from assms consider "ins = 0x01" | "ins = 0x02" | "ins = 0x32" | "ins = 0x03" | "ins = 0x34" | "ins = 0x05"
    | "ins = 0x37" | "ins = 0x12" | "ins = 0x35" | "ins = 0x17" | "ins = 0x06" | "ins = 0x07" | "ins = 0x08"
    | "ins = 0x18" | "ins = 0x20" | "ins = 0x04" | "ins = 0x31"
    unfolding interactive_def by auto
  then show ?thesis
  proof cases
    case 1
    then have "flow_of ins = (\<lambda>E log s. key_flow E s)" "public ins = (\<lambda>c. cmd_p1 c = P1_SKIP_DISPLAY)" by (simp_all add: flow_of_def public_def fun_eq_iff)
    then show ?thesis using 1 public_key_runs.instruction_axioms by (auto simp: data_handler_def)
  next
    case 2
    then have "flow_of ins = (\<lambda>E log s. awaiting s \<longrightarrow> transfer_flow E s)" "public ins = (\<lambda>_. False)" by (simp_all add: flow_of_def public_def fun_eq_iff)
    then show ?thesis using 2 transfer_sign.runs.instruction_axioms
      by (intro exI [of _ "\<lambda>E c initial. handle_sign_transfer E c"]) (simp add: data_handler_def)
  next
    case 3
    then have "flow_of ins = (\<lambda>E log s. memo_flow E s)" "public ins = (\<lambda>_. False)" by (simp_all add: flow_of_def public_def fun_eq_iff)
    then show ?thesis using 3 memo_sign.runs.instruction_axioms by (auto simp: data_handler_def)
  next
    case 4
    then have "flow_of ins = schedule_flow" "public ins = (\<lambda>_. False)" by (simp_all add: flow_of_def public_def fun_eq_iff)
    then show ?thesis using 4 schedule_runs.instruction_axioms by (auto simp: data_handler_def)
  next
    case 5
    then have "flow_of ins = schedule_flow" "public ins = (\<lambda>_. False)" by (simp_all add: flow_of_def public_def fun_eq_iff)
    then show ?thesis using 5 schedule_memo_runs.instruction_axioms by (auto simp: data_handler_def)
  next
    case 6
    then have "flow_of ins = (\<lambda>E log s. legacy_flow E s)" "public ins = (\<lambda>_. False)" by (simp_all add: flow_of_def public_def fun_eq_iff)
    then show ?thesis using 6 legacy_export_runs.instruction_axioms by (auto simp: data_handler_def)
  next
    case 7
    then have "flow_of ins = (\<lambda>E log s. new_path_flow E s)" "public ins = (\<lambda>_. False)" by (simp_all add: flow_of_def public_def fun_eq_iff)
    then show ?thesis using 7 new_export_runs.instruction_axioms by (auto simp: data_handler_def)
  next
    case 8
    then have "flow_of ins = (\<lambda>E log s. public_flow E s)" "public ins = (\<lambda>_. False)" by (simp_all add: flow_of_def public_def fun_eq_iff)
    then show ?thesis using 8 public_sign.runs.instruction_axioms by (auto simp: data_handler_def)
  next
    case 9
    then have "flow_of ins = register_flow" "public ins = (\<lambda>_. False)" by (simp_all add: flow_of_def public_def fun_eq_iff)
    then show ?thesis using 9 register_runs.instruction_axioms by (auto simp: data_handler_def)
  next
    case 10
    then have "flow_of ins = (\<lambda>E log s. awaiting s \<longrightarrow> deleg_flow E s)" "public ins = (\<lambda>_. False)" by (simp_all add: flow_of_def public_def fun_eq_iff)
    then show ?thesis using 10 delegation_sign.runs.instruction_axioms by (auto simp: data_handler_def)
  next
    case 11
    then have "flow_of ins = (\<lambda>E log s. deploy_flow E s)" "public ins = (\<lambda>_. False)" by (simp_all add: flow_of_def public_def fun_eq_iff)
    then show ?thesis using 11 deploy_sign.runs.instruction_axioms by (auto simp: data_handler_def)
  next
    case 12
    then have "flow_of ins = (\<lambda>E log s. init_flow E s)" "public ins = (\<lambda>_. False)" by (simp_all add: flow_of_def public_def fun_eq_iff)
    then show ?thesis using 12 init_sign.runs.instruction_axioms by (auto simp: data_handler_def)
  next
    case 13
    then have "flow_of ins = (\<lambda>E log s. update_flow E s)" "public ins = (\<lambda>_. False)" by (simp_all add: flow_of_def public_def fun_eq_iff)
    then show ?thesis using 13 update_sign.runs.instruction_axioms by (auto simp: data_handler_def)
  next
    case 14
    then have "flow_of ins = baker_flow" "public ins = (\<lambda>_. False)" by (simp_all add: flow_of_def public_def fun_eq_iff)
    then show ?thesis using 14 baker_runs.instruction_axioms by (auto simp: data_handler_def)
  next
    case 15
    then have "flow_of ins = (\<lambda>E. info_flow)" "public ins = (\<lambda>_. False)" by (simp_all add: flow_of_def public_def fun_eq_iff)
    then show ?thesis using 15 info_runs.instruction_axioms by (auto simp: data_handler_def)
  next
    case 16
    then have "flow_of ins = deployment_flow" "public ins = (\<lambda>_. False)" by (simp_all add: flow_of_def public_def fun_eq_iff)
    then show ?thesis using 16 deployment_runs.instruction_axioms by (auto simp: data_handler_def)
  next
    case 17
    then have "flow_of ins = creds_flow" "public ins = (\<lambda>_. False)" by (simp_all add: flow_of_def public_def fun_eq_iff)
    then show ?thesis using 17 creds_runs.instruction_axioms by (auto simp: data_handler_def)
  qed
qed

end
