(* ===== verification/Session.thy ===== *)
theory Session
  imports Dispatcher
begin

text \<open>
  Whole sessions: the application from its start, under any sequence of APDUs, user choices and ends
  of status pages.

  The environment is the one of the SDK: no APDU arrives while a reply is pending, a choice is made on
  the review that is up, and the page shown after a review ends at some later time.  The log holds the
  rows of the reviews the user has answered since the open instruction was claimed.
\<close>

subsection \<open>Executions\<close>

datatype event = Apdu "command option" | Choice bool | StatusEnd

text \<open>The globals are zero at start; \<open>app_main\<close> then draws the menu.\<close>

definition loaded :: app where
  "loaded = \<lparr> currentInstruction = 0, tx_hash = None, transactionHash = zeros 32,
     global_derivation_path = \<lparr> nodes = replicate 8 0, path_len = 0, variant = DERIVATION_PATH_VARIANT_LEGACY \<rparr>,
     global_account_sender = \<lparr> as_sender = zeros 57, as_energyDisplay = zeros 21, as_network = zeros 24 \<rparr>,
     global_compare_public_key = \<lparr> ck_display = zeros 21, ck_publicKey = zeros 68 \<rparr>,
     global_reviewed_path = \<lparr> nodes = replicate 8 0, path_len = 0, variant = DERIVATION_PATH_VARIANT_LEGACY \<rparr>,
     global_public_key_review_pending = False,
     global = wiped, screen = None, status_page = False, replies = [], async_reply = False \<rparr>"

definition app_start :: "app \<Rightarrow> unit act" where
  "app_start s = ui_menu_main (s\<lparr> tx_hash := None, transactionHash := zeros 32, currentInstruction := 0 \<rparr>)"

fun app_step :: "sdk \<Rightarrow> rest \<Rightarrow> event \<Rightarrow> app \<Rightarrow> unit act" where
  "app_step E R (Apdu apdu) s = app_main_step E R apdu s"
| "app_step E R (Choice confirm) s =
     (case screen s of
        None \<Rightarrow> Ret () s
      | Some rv \<Rightarrow> run_callback E (rv_callback rv) confirm (s\<lparr> screen := None \<rparr>))"
| "app_step E R StatusEnd s = ui_menu_main s"

fun enabled :: "event \<Rightarrow> app \<Rightarrow> bool" where
  "enabled (Apdu apdu) s \<longleftrightarrow> \<not> awaiting s"
| "enabled (Choice confirm) s \<longleftrightarrow> screen s \<noteq> None"
| "enabled StatusEnd s \<longleftrightarrow> status_page s \<and> \<not> awaiting s"

text \<open>The instructions of this model; an APDU carries at most 255 bytes of data.\<close>

fun in_scope :: "event \<Rightarrow> bool" where
  "in_scope (Apdu (Some cmd)) \<longleftrightarrow> length (cmd_data cmd) < 256 \<and> cmd_ins cmd \<notin> outside"
| "in_scope _ \<longleftrightarrow> True"

fun log_step :: "event \<Rightarrow> app \<Rightarrow> log \<Rightarrow> log" where
  "log_step (Apdu (Some cmd)) s log =
     (if cmd_cla cmd = APP_CLA \<and> currentInstruction s = INSTRUCTION_NONE then [] else log)"
| "log_step (Choice confirm) s log =
     (case screen s of
        Some rv \<Rightarrow> if rv_callback rv = review_choice then log else log @ [rv_pairs rv]
      | None \<Rightarrow> log)"
| "log_step _ s log = log"

inductive session :: "sdk \<Rightarrow> rest \<Rightarrow> log \<Rightarrow> app \<Rightarrow> bool" for E R where
  start: "app_start loaded = Ret () s \<Longrightarrow> session E R [] s"
| step: "session E R log s \<Longrightarrow> enabled ev s \<Longrightarrow> in_scope ev \<Longrightarrow> app_step E R ev s = Ret () t \<Longrightarrow>
    session E R (log_step ev s log) t"

inductive_cases session_start: "session E R [] s"

subsection \<open>The invariant\<close>

definition session_inv :: "sdk \<Rightarrow> log \<Rightarrow> app \<Rightarrow> bool" where
  "session_inv E log s \<longleftrightarrow> wf_app s \<and>
     (if claimed s
      then \<exists>ins. ins \<notin> outside \<and> currentInstruction s = int (unat ins) \<and> flow_of ins E log s
      else \<not> awaiting s)"

text \<open>What a step answers: the host has one more reply, or the user has a review to decide.\<close>

definition responded :: "app \<Rightarrow> app \<Rightarrow> bool" where
  "responded s t \<longleftrightarrow> (\<exists>r. replies t = replies s @ [r]) \<and> \<not> awaiting t \<or> replies t = replies s \<and> awaiting t"

text \<open>The packets that ask for what is public, and the answers that hold a status word and no data.\<close>

definition public_query :: "command \<Rightarrow> bool" where
  "public_query c \<longleftrightarrow> public (cmd_ins c) c \<or> cmd_ins c \<in> {INS_GET_APP_NAME, INS_APP_VERSION}"

definition discreet :: "command option \<Rightarrow> app \<Rightarrow> app \<Rightarrow> bool" where
  "discreet a s t \<longleftrightarrow> responded s t \<and> (silent s t \<or> (\<exists>c. a = Some c \<and> public_query c))"

lemma wf_loaded: "wf_app loaded"
  by (simp add: loaded_def wf_app_def wf_path_def wf_sender_def)

lemma session_inv_start:
  assumes "app_start loaded = Ret () s"
  shows "session_inv E [] s"
proof -
  have "wf_app s \<and> \<not> claimed s \<and> \<not> awaiting s"
    using assms wf_loaded
    by (auto simp: app_start_def ui_menu_main_def wf_app_def claimed_def awaiting_def)
  then show ?thesis by (simp add: session_inv_def)
qed

lemma flow_of_idle: "ins \<notin> interactive \<Longrightarrow> flow_of ins E log s \<longleftrightarrow> \<not> awaiting s"
  by (simp add: flow_of_def interactive_def)

text \<open>The laws of the table, for any instruction.\<close>

lemma flow_fresh: "global s = wiped \<Longrightarrow> \<not> awaiting s \<Longrightarrow> flow_of ins E [] s"
  using table [of ins] instruction.fresh flow_of_idle by (metis (mono_tags))

lemma flow_answer: "flow_of ins E log s \<Longrightarrow> \<not> awaiting s \<Longrightarrow> flow_of ins E log (s\<lparr> replies := rs \<rparr>)"
  using table [of ins] instruction.answer flow_of_idle by (metis (mono_tags) awaiting_screen)

lemma flow_idle: "flow_of ins E log s \<Longrightarrow> \<not> awaiting s \<Longrightarrow>
    flow_of ins E log (s\<lparr> screen := None, status_page := b \<rparr>)"
  using table [of ins] instruction.idle flow_of_idle by (metis (mono_tags) awaiting_screen(2,3))

lemma uint_claims [simp]: "uint (ins :: u8) \<noteq> - 1"
  using uint_ge_0 [of ins] by linarith

lemma settled_session:
  assumes "settled (flow_of ins E log) s t" "currentInstruction s = int (unat ins)" "ins \<notin> outside"
  shows "session_inv E log t \<and> responded s t"
proof -
  from assms(1) have k: "answered s t" "wf_app t" "claimed t \<Longrightarrow> flow_of ins E log t" by (simp_all add: settled_def)
  have "awaiting t \<Longrightarrow> claimed t"
    using k(1) assms(2) by (auto simp: answered_def claimed_def)
  then show ?thesis using k assms(2,3) by (auto simp: session_inv_def answered_def responded_def)
qed

lemma dispatch_guarded_cong: "f s = g s \<Longrightarrow> dispatch_guarded f s = dispatch_guarded g s"
  by (simp add: dispatch_guarded_def)

text \<open>A bare reply, and the end of an instruction.\<close>

lemma bare_session:
  assumes "wf_app s" "\<not> awaiting s" "claimed s \<longrightarrow> currentInstruction s = int (unat ins) \<and> ins \<notin> outside \<and> flow_of ins E log s"
  shows "session_inv E log (s\<lparr> replies := replies s @ [r] \<rparr>) \<and> responded s (s\<lparr> replies := replies s @ [r] \<rparr>)"
  using assms flow_answer [of ins E log s] by (auto simp: session_inv_def responded_def claimed_def)

lemma silent_status [simp]: "replies t = replies s @ [([], sw)] \<Longrightarrow> silent s t"
  by (simp add: silent_def)

lemma closed_session:
  assumes "wf_app t" "\<not> awaiting t" "\<not> claimed t" "\<exists>r. replies t = replies s @ [r]"
  shows "session_inv E log t \<and> responded s t"
  using assms by (simp add: session_inv_def responded_def)

lemma query_wp:
  assumes "wf_app s" "\<not> awaiting s" "currentInstruction s = int (unat (cmd_ins c))" "cmd_ins c \<notin> outside"
    "cmd_ins c \<notin> interactive" "handler s = io_send_response payload SWO_SUCCESS s"
    "public_query c"
  shows "wp (dispatch_query handler c s) (\<lambda>_ t. session_inv E log t \<and> discreet (Some c) s t) X"
proof -
  have f: "flow_of (cmd_ins c) E log s" using assms(2,5) by (simp add: flow_of_idle)
  have "session_inv E log (s\<lparr> replies := replies s @ [r] \<rparr>) \<and> responded s (s\<lparr> replies := replies s @ [r] \<rparr>)" for r
    by (rule bare_session [where ins = "cmd_ins c"]) (use assms f in simp_all)
  moreover have "session_inv E log (s\<lparr> replies := replies s @ [r], currentInstruction := INSTRUCTION_NONE \<rparr>) \<and>
      responded s (s\<lparr> replies := replies s @ [r], currentInstruction := INSTRUCTION_NONE \<rparr>)" for r
    by (rule closed_session) (use assms in \<open>simp_all add: claimed_def\<close>)
  ultimately show ?thesis using assms(6,7) by (simp add: dispatch_query_def dispatch_bare_def io_send_response_def discreet_def)
qed

lemma dispatch_session:
  assumes E: "platform E" and wf: "wf_app s" "\<not> awaiting s" and c: "length (cmd_data c) < 256" "cmd_ins c \<notin> outside"
    and i: "currentInstruction s = int (unat (cmd_ins c))"
    and st: "if initial then global s = wiped \<and> log = [] else flow_of (cmd_ins c) E log s"
  shows "wp (dispatch_guarded (apdu_dispatcher E R c initial) s)
    (\<lambda>_ t. session_inv E log t \<and> discreet (Some c) s t) (\<lambda>_ _. False)"
proof (cases "cmd_ins c \<in> interactive")
  case True
  then obtain h where h: "data_handler E R (cmd_ins c) = Some (h E)"
    and inst: "instruction h run_callback (flow_of (cmd_ins c)) (public (cmd_ins c))" using table by blast
  show ?thesis
  proof (cases "cmd_data c = []")
    case True
    have "dispatch_guarded (apdu_dispatcher E R c initial) s = dispatch_guarded (io_send_sw SWO_WRONG_DATA_LENGTH) s"
      using True i h by (intro dispatch_guarded_cong) (simp add: apdu_dispatcher_def)
    moreover have "wp (dispatch_guarded (io_send_sw SWO_WRONG_DATA_LENGTH) s)
        (\<lambda>_ t. session_inv E log t \<and> discreet (Some c) s t) (\<lambda>_ _. False)"
      using instruction.bare_refusal [OF inst wf st] settled_session [OF _ i c(2)]
      by (intro wp_dispatch_guarded) (auto elim!: wp_mono simp: kept_def discreet_def)
    ultimately show ?thesis by simp
  next
    case False
    have "dispatch_guarded (apdu_dispatcher E R c initial) s = dispatch_guarded (h E c initial) s"
      using False i h by (intro dispatch_guarded_cong) (simp add: apdu_dispatcher_def)
    moreover have "wp (dispatch_guarded (h E c initial) s)
        (\<lambda>_ t. session_inv E log t \<and> discreet (Some c) s t) (\<lambda>_ _. False)"
      using instruction.packet [OF inst E wf False c(1) st] settled_session [OF _ i c(2)]
      by (auto elim!: wp_mono simp: discreet_def public_query_def)
    ultimately show ?thesis by simp
  qed
next
  case False
  have d: "data_handler E R (cmd_ins c) = None"
    using False c(2) by (auto simp: data_handler_def interactive_def outside_def)
  have n: "cmd_ins c \<noteq> INS_SET_TRUSTED_NAME" "cmd_ins c \<noteq> INS_GET_CHALLENGE" "cmd_ins c \<noteq> INS_SIGN_PLT"
    using c(2) by (auto simp: outside_def)
  have "cmd_ins c = INS_GET_APP_NAME \<Longrightarrow>
      wp (dispatch_query handle_get_app_name c s) (\<lambda>_ t. session_inv E log t \<and> discreet (Some c) s t) X"
    "cmd_ins c = INS_APP_VERSION \<Longrightarrow>
      wp (dispatch_query handle_get_app_version c s) (\<lambda>_ t. session_inv E log t \<and> discreet (Some c) s t) X" for X
    by (rule query_wp [OF wf i c(2) False]; simp add: public_query_def handle_get_app_name_def handle_get_app_version_def)+
  moreover have "wp (send_rejection SWO_INVALID_INS s) (\<lambda>_ t. session_inv E log t \<and> discreet (Some c) s t) X" for X
    using closed_session [of "s\<lparr> currentInstruction := INSTRUCTION_NONE, replies := replies s @ [([], SWO_INVALID_INS)] \<rparr>" s E log] wf
    by (simp add: claimed_def discreet_def)
  ultimately show ?thesis
    using i d n by (intro wp_dispatch_guarded) (simp add: apdu_dispatcher_def)
qed

text \<open>What a handler throws it throws before it has answered or drawn anything.\<close>

lemma dispatch_throws:
  assumes E: "platform E" and wf: "wf_app s" "\<not> awaiting s" and c: "length (cmd_data c) < 256" "cmd_ins c \<notin> outside"
    and st: "if initial then global s = wiped \<and> log = [] else flow_of (cmd_ins c) E log s"
    and th: "apdu_dispatcher E R c initial s = Throw e t"
  shows "refused s e t"
proof (cases "cmd_ins c \<in> interactive")
  case True
  then obtain h where h: "data_handler E R (cmd_ins c) = Some (h E)"
    and inst: "instruction h run_callback (flow_of (cmd_ins c)) (public (cmd_ins c))" using table by blast
  have d: "cmd_data c \<noteq> []" "h E c initial s = Throw e t"
    using th h by (auto simp: apdu_dispatcher_def io_send_sw_def io_send_response_def split: if_splits)
  show ?thesis using instruction.handle [OF inst E wf d(1) c(1) st] unfolding d(2) by simp
next
  case False
  have "data_handler E R (cmd_ins c) = None"
    using False c(2) by (auto simp: data_handler_def interactive_def outside_def)
  then show ?thesis
    using th c(2) by (auto simp: apdu_dispatcher_def dispatch_query_def dispatch_bare_def outside_def
        handle_get_app_name_def handle_get_app_version_def io_send_sw_def io_send_response_def send_rejection_def
        split: if_splits)
qed

lemma apdu_session:
  assumes E: "platform E" and inv: "session_inv E log s" and en: "\<not> awaiting s" "in_scope (Apdu a)"
  shows "wp (app_main_step E R a s) (\<lambda>_ t. session_inv E (log_step (Apdu a) s log) t \<and> discreet a s t) (\<lambda>_ _. False)"
proof -
  have wf: "wf_app s" using inv by (simp add: session_inv_def)
  have bare: "session_inv E log (s\<lparr> replies := replies s @ [r] \<rparr>) \<and> responded s (s\<lparr> replies := replies s @ [r] \<rparr>)" for r
  proof (cases "claimed s")
    case True
    then obtain ins where "ins \<notin> outside" "currentInstruction s = int (unat ins)" "flow_of ins E log s"
      using inv by (auto simp: session_inv_def)
    then show ?thesis using bare_session [OF wf en(1)] by blast
  qed (use bare_session [OF wf en(1)] in blast)
  show ?thesis
  proof (cases a)
    case None
    then show ?thesis using bare by (simp add: app_main_step_def discreet_def)
  next
    case (Some c)
    have c: "length (cmd_data c) < 256" "cmd_ins c \<notin> outside" using en(2) Some by simp_all
    show ?thesis
    proof (cases "cmd_cla c = APP_CLA")
      case False
      then show ?thesis using Some bare by (simp add: app_main_step_def discreet_def)
    next
      case cla: True
      show ?thesis
      proof (cases "currentInstruction s = INSTRUCTION_NONE")
        case True
        let ?s = "s\<lparr> global := wiped, currentInstruction := int (unat (cmd_ins c)) \<rparr>"
        have "wf_app ?s" using wf by (simp add: wf_app_def)
        then have "wp (dispatch_guarded (apdu_dispatcher E R c True) ?s)
            (\<lambda>_ t. session_inv E [] t \<and> discreet a ?s t) (\<lambda>_ _. False)"
          unfolding Some using en(1) by (intro dispatch_session [OF E _ _ c]) simp_all
        then show ?thesis
          using Some cla True by (simp add: app_main_step_def discreet_def responded_def silent_def)
      next
        case False
        then obtain ins where i: "ins \<notin> outside" "currentInstruction s = int (unat ins)" "flow_of ins E log s"
          using inv by (auto simp: session_inv_def claimed_def)
        show ?thesis
        proof (cases "ins = cmd_ins c")
          case True
          then show ?thesis
            using dispatch_session [OF E wf en(1) c, of False log] i Some cla False by (simp add: app_main_step_def)
        next
          case ne: False
          then have "currentInstruction s \<noteq> int (unat (cmd_ins c))" using i(2) by (simp add: word_uint_eq_iff)
          then have "dispatch_guarded (apdu_dispatcher E R c False) s =
              Ret () (s\<lparr> currentInstruction := INSTRUCTION_NONE, replies := replies s @ [([], ERROR_INVALID_STATE)] \<rparr>)"
            using False by (simp add: dispatch_guarded_def apdu_dispatcher_def io_send_sw_def io_send_response_def)
          then show ?thesis
            using Some cla False wf en(1)
              closed_session [of "s\<lparr> currentInstruction := INSTRUCTION_NONE, replies := replies s @ [([], ERROR_INVALID_STATE)] \<rparr>" s E log]
            by (simp add: app_main_step_def claimed_def discreet_def)
        qed
      qed
    qed
  qed
qed

lemma choice_session:
  assumes E: "platform E" and inv: "session_inv E log s" and sc: "screen s = Some rv"
  shows "wp (run_callback E (rv_callback rv) confirm (s\<lparr> screen := None \<rparr>))
    (\<lambda>_ t. session_inv E (log_step (Choice confirm) s log) t \<and>
      (if awaiting s then responded s t \<and> (\<not> confirm \<longrightarrow> declined s t)
       else replies t = replies s \<and> \<not> awaiting t)) (\<lambda>_ _. False)"
proof (cases "awaiting s")
  case True
  have wf: "wf_app s" using inv by (simp add: session_inv_def)
  obtain ins where i: "ins \<notin> outside" "currentInstruction s = int (unat ins)" "flow_of ins E log s"
    using inv True by (auto simp: session_inv_def split: if_splits)
  then have "ins \<in> interactive" using True flow_of_idle by blast
  then obtain h where inst: "instruction h run_callback (flow_of ins) (public ins)" using table by blast
  have cb: "rv_callback rv \<noteq> review_choice" using True sc by (simp add: awaiting_def)
  show ?thesis
  proof (rule wp_mono [OF instruction.choice_kept [OF inst E wf sc True i(3), of confirm]], goal_cases)
    case (1 a t)
    have "currentInstruction (s\<lparr> screen := None \<rparr>) = int (unat ins)" using i(2) by simp
    from settled_session [OF _ this i(1)] 1 have "session_inv E (log @ [rv_pairs rv]) t \<and> responded (s\<lparr> screen := None \<rparr>) t"
      unfolding decided_def by blast
    then show ?case using 1 True cb sc by (simp add: responded_def decided_def declined_def)
  qed simp
next
  case False
  then have cb: "rv_callback rv = review_choice" using sc by (auto simp: awaiting_def)
  let ?t = "s\<lparr> screen := None, status_page := True \<rparr>"
  have r: "run_callback E (rv_callback rv) confirm (s\<lparr> screen := None \<rparr>) = Ret () ?t"
    by (simp add: cb finish_review_choice_def nbgl_useCaseReviewStatus_def)
  have "session_inv E log ?t"
  proof (cases "claimed s")
    case True
    then obtain ins where i: "ins \<notin> outside" "currentInstruction s = int (unat ins)" "flow_of ins E log s"
      using inv by (auto simp: session_inv_def)
    have "flow_of ins E log ?t" by (rule flow_idle [OF i(3) False])
    then show ?thesis using i inv by (auto simp: session_inv_def claimed_def)
  qed (use inv in \<open>simp add: session_inv_def claimed_def\<close>)
  then show ?thesis unfolding r using False cb sc by (simp add: awaiting_def)
qed

text \<open>One step, of any kind.\<close>

definition step_answer :: "event \<Rightarrow> app \<Rightarrow> app \<Rightarrow> bool" where
  "step_answer ev s t \<longleftrightarrow>
     (case ev of
        Apdu a \<Rightarrow> discreet a s t
      | Choice confirm \<Rightarrow>
          if awaiting s then responded s t \<and> (\<not> confirm \<longrightarrow> declined s t)
          else replies t = replies s \<and> \<not> awaiting t
      | StatusEnd \<Rightarrow> replies t = replies s \<and> \<not> claimed t \<and> \<not> awaiting t)"

lemma wp_total: "wp m Q (\<lambda>_ _. False) \<Longrightarrow> \<exists>a t. m = Ret a t \<and> Q a t"
  by (cases m) simp_all

lemma step_session:
  assumes E: "platform E" and inv: "session_inv E log s" and en: "enabled ev s" "in_scope ev"
  obtains t where "app_step E R ev s = Ret () t" "session_inv E (log_step ev s log) t" "step_answer ev s t"
proof (cases ev)
  case (Apdu a)
  then have "\<not> awaiting s" using en(1) by simp
  from wp_total [OF apdu_session [OF E inv this, where R = R and a = a]] en(2) Apdu
  show thesis by (auto simp: step_answer_def intro: that)
next
  case (Choice confirm)
  then obtain rv where rv: "screen s = Some rv" using en(1) by auto
  from wp_total [OF choice_session [OF E inv rv, where confirm = confirm]] Choice rv
  show thesis by (auto simp: step_answer_def intro: that)
next
  case StatusEnd
  have "wp (ui_menu_main s) (\<lambda>_ t. session_inv E log t \<and> step_answer StatusEnd s t) (\<lambda>_ _. False)"
    using inv by (simp add: session_inv_def step_answer_def claimed_def awaiting_def)
  from wp_total [OF this] StatusEnd show thesis by (auto intro: that)
qed

lemma session_holds:
  assumes "platform E" "session E R log s"
  shows "session_inv E log s"
  using assms(2)
proof induction
  case (start s)
  then show ?case by (rule session_inv_start)
next
  case (step log s ev t)
  then show ?case using step_session [OF assms(1) step.IH step.hyps(2,3)] by (metis outcome.inject(1))
qed

text \<open>In a session, the review that is up is one of the open instruction's.\<close>

lemma session_flow:
  assumes "platform E" "session E R log s" "currentInstruction s = int (unat ins)"
  shows "flow_of ins E log s"
proof -
  have "claimed s" using assms(3) by (simp add: claimed_def)
  with session_holds [OF assms(1,2)] show ?thesis
    using assms(3) by (auto simp: session_inv_def word_uint_eq_iff [symmetric])
qed

subsection \<open>What a choice releases\<close>

text \<open>The answer to the approval of a signature over msg under a path: the signature, or the status word
  of the failure.\<close>

definition signature_reply :: "sdk \<Rightarrow> derivation_path \<Rightarrow> bytes \<Rightarrow> bytes \<times> u16 \<Rightarrow> bool" where
  "signature_reply E path msg r \<longleftrightarrow>
     (case signature_of E path msg of
        Some sg \<Rightarrow> length sg = 64 \<and> r = (sg, SWO_SUCCESS)
      | None \<Rightarrow> \<exists>e. status_word e \<and> r = ([], e))"

definition signs_on_approval :: "sdk \<Rightarrow> rest \<Rightarrow> app \<Rightarrow> bytes \<Rightarrow> bool" where
  "signs_on_approval E R s msg \<longleftrightarrow> (\<exists>t r. app_step E R (Choice True) s = Ret () t \<and>
     replies t = replies s @ [r] \<and> signature_reply E (global_derivation_path s) msg r \<and>
     \<not> claimed t \<and> screen t = None)"

lemma signs_on_approval:
  assumes E: "platform E" and a: "asks_to_sign s msg rows"
  shows "signs_on_approval E R s msg"
proof -
  obtain rv where rv: "screen s = Some rv" "rv_callback rv = review_choice_sign"
    and h: "tx_hash s = Some msg" using a by (auto simp: asks_to_sign_def)
  let ?s = "s\<lparr> screen := None \<rparr>"
  have "wp (ux_run_guarded (buildAndSignTransactionHash E) ?s)
    (\<lambda>_ t. (\<exists>r. replies t = replies s @ [r] \<and> signature_reply E (global_derivation_path s) msg r) \<and>
       \<not> claimed t \<and> screen t = None) (\<lambda>_ _. False)"
  proof (rule wp_ux_run_guarded, rule wp_mono [OF buildAndSign_wp [OF platformD(1) [OF E], of ?s msg]], goal_cases)
    case (3 e t)
    then show ?case by (auto simp: signature_reply_def ended_def same_ui_def claimed_def)
  qed (use h in \<open>auto simp: signature_reply_def claimed_def\<close>)
  then have "wp (app_step E R (Choice True) s)
    (\<lambda>_ t. (\<exists>r. replies t = replies s @ [r] \<and> signature_reply E (global_derivation_path s) msg r) \<and>
       \<not> claimed t \<and> screen t = None) (\<lambda>_ _. False)"
    using rv by (simp add: choose_sign_def)
  from wp_total [OF this] show ?thesis unfolding signs_on_approval_def by (metis (full_types) old.unit.exhaust)
qed

end
