(* ===== verification/Demo.thy ===== *)
theory Demo
  imports Session
begin

text \<open>
  Concrete sessions against the concrete SDK of Sdk: one packet after the other, up to the review that
  asks for the signature.  They show that the hypotheses of the properties about sessions hold.

  All packets use the empty path, the header of 60 zero bytes and the account of 32 zero bytes.
\<close>

subsection \<open>The start, and the steps\<close>

definition demo_rest :: rest where
  "demo_rest = \<lparr> rest_handler = \<lambda>_ _ _ s. Ret () s \<rparr>"

definition idle_app :: app where
  "idle_app = loaded\<lparr> currentInstruction := INSTRUCTION_NONE, screen := None \<rparr>"

lemma idle_app_simps [simp]:
  "currentInstruction idle_app = INSTRUCTION_NONE" "screen idle_app = None" "replies idle_app = []"
  "wf_sender (global_account_sender idle_app)" "global idle_app = wiped"
  by (simp_all add: idle_app_def loaded_def wf_sender_def)

lemma session_idle: "session E R [] idle_app"
  by (rule session.start) (simp add: app_start_def ui_menu_main_def idle_app_def loaded_def)

abbreviation app_packet :: "u8 \<Rightarrow> u8 \<Rightarrow> u8 \<Rightarrow> bytes \<Rightarrow> command" where
  "app_packet ins p1 p2 d \<equiv> \<lparr> cmd_cla = APP_CLA, cmd_ins = ins, cmd_p1 = p1, cmd_p2 = p2, cmd_data = d \<rparr>"

definition claimed_app :: "u8 \<Rightarrow> app" where
  "claimed_app ins = idle_app\<lparr> global := wiped, currentInstruction := int (unat ins) \<rparr>"

lemma first_packet:
  assumes "h (app_packet ins p1 p2 d) True (claimed_app ins) = Ret () t"
    "data_handler demo_sdk demo_rest ins = Some h" "d \<noteq> []" "length d < 256" "ins \<notin> outside"
  shows "session demo_sdk demo_rest [] t"
proof -
  let ?ev = "Apdu (Some (app_packet ins p1 p2 d))"
  have "app_step demo_sdk demo_rest ?ev idle_app = Ret () t"
    using assms by (simp add: app_main_step_def apdu_dispatcher_def dispatch_guarded_def claimed_app_def)
  then have "session demo_sdk demo_rest (log_step ?ev idle_app []) t"
    using assms by (intro session.step [OF session_idle]) (simp_all add: awaiting_def)
  then show ?thesis by simp
qed

lemma next_packet:
  assumes "session demo_sdk demo_rest log s" "h (app_packet ins p1 p2 d) False s = Ret () t"
    "data_handler demo_sdk demo_rest ins = Some h" "\<not> awaiting s" "currentInstruction s = int (unat ins)"
    "d \<noteq> []" "length d < 256" "ins \<notin> outside"
  shows "session demo_sdk demo_rest log t"
proof -
  let ?ev = "Apdu (Some (app_packet ins p1 p2 d))"
  have "app_step demo_sdk demo_rest ?ev s = Ret () t"
    using assms by (simp add: app_main_step_def apdu_dispatcher_def dispatch_guarded_def)
  then have "session demo_sdk demo_rest (log_step ?ev s log) t" using assms by (intro session.step) simp_all
  then show ?thesis using assms(5) by simp
qed

lemma approval:
  assumes "session E R log s" "screen s = Some rv" "rv_callback rv \<noteq> review_choice"
    "run_callback E (rv_callback rv) True (s\<lparr> screen := None \<rparr>) = Ret () t"
  shows "session E R (log @ [rv_pairs rv]) t"
proof -
  have "session E R (log_step (Choice True) s log) t" using assms by (intro session.step) simp_all
  then show ?thesis using assms(2,3) by simp
qed

subsection \<open>Bytes\<close>

lemma zeros_simps [simp]:
  "take n (zeros m) = zeros (min n m)" "drop n (zeros m) = zeros (m - n)" "be_nat (zeros m) = 0"
  "zeros 0 = []" "zeros m = [] \<longleftrightarrow> m = 0"
  by (simp_all add: zeros_def be_nat_eq_0)

lemma demo_fields [simp]: "sdk_sha256_init demo_sdk" "sdk_hash_update demo_sdk h d" "sdk_cbor demo_sdk = demo_cbor"
  by (simp_all add: demo_sdk_def)

subsection \<open>The header\<close>

definition demo_addr :: bytes where
  "demo_addr = the (address_text demo_sdk (zeros 32))"

lemma demo_addr: "address_text demo_sdk (zeros 32) = Some demo_addr" "length demo_addr = 50" "0 \<notin> set demo_addr"
proof -
  obtain t where "base58check_encode demo_sdk (zeros 32) 57 = Ok (Some t)" using demo_address by blast
  then have "address_text demo_sdk (zeros 32) = Some t" by (simp add: address_text_def)
  then show a: "address_text demo_sdk (zeros 32) = Some demo_addr" by (simp add: demo_addr_def)
  show "length demo_addr = 50" "0 \<notin> set demo_addr"
    using address_text_Some [OF demo_digests demo_encodes_base58 _ a] by simp_all
qed

lemma demo_encode: "address_buffer dst \<Longrightarrow> encode_address demo_sdk (zeros 32) dst = Ok (demo_addr @ zeros 7)"
  by (simp add: encode_address_eq demo_addr)

definition demo_path :: derivation_path where
  "demo_path = \<lparr> nodes = replicate 8 0, path_len = 0, variant = DERIVATION_PATH_VARIANT_INVALID \<rparr>"

definition demo_sender :: accountSender where
  "demo_sender = \<lparr> as_sender = demo_addr @ zeros 7, as_energyDisplay = 48 # 0 # zeros 19,
     as_network = network_label DERIVATION_PATH_NETWORK_UNKNOWN @ zeros 9 \<rparr>"

lemma demo_wf_sender [simp]: "wf_sender demo_sender"
  by (simp add: demo_sender_def wf_sender_def cbuf_def demo_addr)

lemma demo_parse_path: "parse_path (0 # r) s = Ret 1 (s\<lparr> global_derivation_path := demo_path \<rparr>)"
  by (simp add: parse_path_def parse_derivation_path_def parse_derivation_path_from_buffer_def byte_at_def
      read_u8_def init_derivation_path_def harden_derivation_path_def detect_derivation_path_variant_def
      reject_exportable_signing_path_def used_nodes_def demo_path_def)

lemma demo_header:
  assumes "tx_hash s = Some h" "wf_sender (global_account_sender s)" "global_derivation_path s = demo_path"
  shows "hashAccountTransactionHeaderAndKind demo_sdk (zeros 60 @ k # r) k s =
    Ret 61 (s\<lparr> global_account_sender := demo_sender, tx_hash := Some (h @ zeros 60 @ [k]) \<rparr>)"
proof -
  have e: "bin_to_dec demo_sdk (zeros 21) 0 = Ok (48 # 0 # zeros 19, 2)"
    using bin_to_dec_Ok [OF demo_formats_numbers, of "zeros 21" 0] by (simp add: dec.simps [of 0] digit_def)
  show ?thesis
    using assms
    by (simp add: hashAccountTransactionHeaderAndKind_def slice_Ok demo_encode U8BE_def wf_sender_def cbuf_def
        path_display_network_Ok hashHeaderAndType_def hash_data_def update_hash_def update_ctx_def byte_at_def
        nth_append e derivation_path_network_def demo_path_def)
      (simp add: demo_sender_def)
qed

lemma demo_to_address:
  assumes "wf_sender (global_account_sender s)" "address_buffer dst" "length r < 100"
  shows "handleHeaderAndToAddress demo_sdk (0 # zeros 60 @ k # zeros 32 @ r) k dst s =
    Ret (94, demo_addr @ zeros 7) (s\<lparr> global_derivation_path := demo_path, global_account_sender := demo_sender,
      tx_hash := Some (zeros 60 @ k # zeros 32) \<rparr>)"
  using assms
  by (simp add: handleHeaderAndToAddress_def demo_parse_path init_tx_hash_def demo_header
      slice_Ok update_hash_def update_ctx_def demo_encode)

text \<open>The amount 0.\<close>

lemma demo_amount:
  assumes "cbuf 30 dst"
  shows "amount_to_ccd_display demo_sdk dst 0 = Ok (ascii ''0 CCD'' @ 0 # drop 6 dst, 5)"
proof -
  have "ccd_text 0 = ascii ''0 CCD''" by (simp add: ccd_text_def fpu_text_def dec.simps [of 0] digit_def ascii_def trim_zeros_def)
  then show ?thesis using assms amount_to_ccd_display_Ok [OF demo_formats_numbers, of dst 0] by (simp add: cbuf_def ascii_def eval_nat_numeral)
qed

lemmas demo_screen_defs = use_case_defs show_review_def addAccountHeaderPairs_def lit_def request_async_reply_def drawn_def
  demo_sender_def

subsection \<open>Runs\<close>

abbreviation signing_up :: "app \<Rightarrow> bool" where
  "signing_up s \<equiv> \<exists>rv. screen s = Some rv \<and> rv_callback rv = review_choice_sign"

lemma wiped_transfer_simps [simp]:
  "signTransferContext (withDataBlob wiped) = wiped_transfer" "cborContext (withDataBlob wiped) = wiped_cbor"
  "signTransferWithScheduleContext (withDataBlob wiped) = wiped_schedule"
  by (simp_all add: wiped_def)

lemma U2BE_one: "U2BE (0 # 1 # r) 0 = Ok 1"
  by (simp add: U2BE_def slice_def be_nat_def)

lemma demo_numbers:
  "be_nat [0, 0, 0, 1] = 1" "be_nat [0, 0, 0, 0] = 0"
  "0 < n \<Longrightarrow> number_to_text demo_sdk (zeros n) 0 = Ok (48 # zeros (n - 1), 1)"
  "2 * length bs < length dst \<Longrightarrow> hex_into demo_sdk e bs dst = Ok (upper_hex bs @ 0 # drop (2 * length bs + 1) dst)"
  using number_text_zeros [OF demo_formats_numbers, of 0 n]
  by (simp_all add: be_nat_def hex_into_Ok dec.simps [of 0] digit_def)

lemma demo_final: "final_ctx demo_sdk (Some h) = Ok (demo_digest h)" "new_hash demo_sdk = Ok (Some [])"
  by (simp_all add: final_ctx_def demo_sdk_def new_hash_def)

lemmas demo_defs = demo_numbers demo_final claimed_app_def Let_def slice_Ok U8BE_def U2BE_one U4BE_def hash_data_def update_hash_def
  update_ctx_def init_tx_hash_def fee_suffix_def read_fee_def demo_amount send_success_no_idle_def
  send_success_result_no_idle_def io_send_response_def

lemma demo_transfer_run:
  "\<exists>t. handle_sign_transfer demo_sdk (app_packet INS_SIGN_TRANSFER 0 0 (0 # zeros 60 @ TRANSFER # zeros 32 @ zeros 8))
       (claimed_app INS_SIGN_TRANSFER) = Ret () t \<and>
     currentInstruction t = int (unat INS_SIGN_TRANSFER) \<and> signing_up t"
  by (simp add: handle_sign_transfer_def demo_to_address demo_defs wiped_transfer_def set_transfer_def set_blob_def
      startTransferDisplay_def demo_screen_defs)

lemma demo_item:
  "readCborInitial demo_sdk [0] \<lparr> cb_cborLength = Suc 0, cb_cborBuf = zeros 257, cb_cborBufLen = 0, cb_displayLen = 0,
     cb_display = zeros 256, cb_typeLabel = zeros 20 \<rparr> = Ok (SWO_SUCCESS, \<lparr> cb_cborLength = 0, cb_cborBuf = 0 # zeros 256,
     cb_cborBufLen = 1, cb_displayLen = 0, cb_display = 48 # 0 # zeros 254,
     cb_typeLabel = ascii ''Unsigned integer'' @ zeros 4 \<rparr>)"
proof -
  have "bin_to_dec demo_sdk (zeros 256) 0 = Ok (48 # 0 # zeros 254, 2)"
    using bin_to_dec_Ok [OF demo_formats_numbers, of "zeros 256" 0] by (simp add: dec.simps [of 0] digit_def)
  then show ?thesis
    by (simp add: readCborInitial_def put_def parse_complete_cbor_def demo_cbor_def cbor_head_def slice_Ok Let_def
        cbor_integer_argument_def cbor_argument_is_canonical_def byte_at_def cbor_set_type_label_def)
qed

lemma demo_memo_run:
  "\<exists>t. handle_sign_transfer_with_memo demo_sdk (app_packet INS_SIGN_TRANSFER_WITH_MEMO 1 0
        (0 # zeros 60 @ TRANSFER_WITH_MEMO # zeros 32 @ [0, 1])) True (claimed_app INS_SIGN_TRANSFER_WITH_MEMO) = Ret () t \<and>
     currentInstruction t = int (unat INS_SIGN_TRANSFER_WITH_MEMO) \<and> \<not> awaiting t \<and>
     (\<exists>u. handle_sign_transfer_with_memo demo_sdk (app_packet INS_SIGN_TRANSFER_WITH_MEMO 2 0 [0]) False t = Ret () u \<and>
       currentInstruction u = int (unat INS_SIGN_TRANSFER_WITH_MEMO) \<and> \<not> awaiting u \<and>
       (\<exists>v. handle_sign_transfer_with_memo demo_sdk (app_packet INS_SIGN_TRANSFER_WITH_MEMO 3 0 (zeros 8)) False u = Ret () v \<and>
         currentInstruction v = int (unat INS_SIGN_TRANSFER_WITH_MEMO) \<and> signing_up v))"
  by (simp add: handle_sign_transfer_with_memo_def memo_open_packet_def memo_first_packet_def memo_amount_packet_def
      demo_to_address demo_defs wiped_transfer_def set_transfer_def set_blob_def set_cbor_def read_cbor_def wiped_cbor_def
      demo_item finish_transfer_memo_def startTransferDisplay_def demo_screen_defs memo_rows_def awaiting_def)

lemma demo_register_run:
  "\<exists>t. handle_sign_register_data demo_sdk (app_packet INS_REGISTER_DATA 0 0
        (0 # zeros 60 @ REGISTER_DATA # [0, 1])) True (claimed_app INS_REGISTER_DATA) = Ret () t \<and>
     (\<exists>rv. screen t = Some rv \<and> rv_callback rv = sendSuccessNoIdleCallback \<and> sendSuccessNoIdleCallback \<noteq> review_choice \<and>
     (\<exists>u. run_callback demo_sdk sendSuccessNoIdleCallback True (t\<lparr> screen := None \<rparr>) = Ret () u \<and> currentInstruction u = int (unat INS_REGISTER_DATA) \<and> \<not> awaiting u \<and>
       (\<exists>v. handle_sign_register_data demo_sdk (app_packet INS_REGISTER_DATA 1 0 [0]) False u = Ret () v \<and>
         currentInstruction v = int (unat INS_REGISTER_DATA) \<and> signing_up v)))"
  by (simp add: handle_sign_register_data_def register_open_packet_def register_data_packet_def demo_parse_path demo_header
      demo_defs set_register_def set_blob_def set_cbor_def read_cbor_def wiped_cbor_def wiped_def choose_continue_def
      demo_item register_data_shown_def uiRegisterDataPayloadDisplay_def uiRegisterDataInitialDisplay_def demo_screen_defs memo_rows_def awaiting_def)

lemma demo_deploy_run:
  "\<exists>t. handle_deploy_module demo_sdk (app_packet INS_DEPLOY_MODULE 0 0
        (0 # zeros 60 @ DEPLOY_MODULE # [0, 0, 0, 0, 0, 0, 0, 1])) True (claimed_app INS_DEPLOY_MODULE) = Ret () t \<and>
       currentInstruction t = int (unat INS_DEPLOY_MODULE) \<and> \<not> awaiting t \<and>
       (\<exists>v. handle_deploy_module demo_sdk (app_packet INS_DEPLOY_MODULE 1 0 [0]) False t = Ret () v \<and>
         currentInstruction v = int (unat INS_DEPLOY_MODULE) \<and> signing_up v)"
  by (simp add: handle_deploy_module_def deploy_open_packet_def deploy_source_packet_def open_account_transaction_def demo_parse_path demo_header
      demo_defs set_deploy_def wiped_deploy_def wiped_def
      uiDeployModuleDisplay_def demo_screen_defs awaiting_def)

lemma demo_init_run:
  "\<exists>t. handle_init_contract demo_sdk (app_packet INS_INIT_CONTRACT 0 0
        (0 # zeros 60 @ INIT_CONTRACT # zeros 40)) True (claimed_app INS_INIT_CONTRACT) = Ret () t \<and>
       currentInstruction t = int (unat INS_INIT_CONTRACT) \<and> \<not> awaiting t \<and>
       (\<exists>u. handle_init_contract demo_sdk (app_packet INS_INIT_CONTRACT 1 0 [0, 1, 97]) False t = Ret () u \<and>
         currentInstruction u = int (unat INS_INIT_CONTRACT) \<and> \<not> awaiting u \<and>
         (\<exists>v. handle_init_contract demo_sdk (app_packet INS_INIT_CONTRACT 2 0 [0, 1, 0]) False u = Ret () v \<and>
           currentInstruction v = int (unat INS_INIT_CONTRACT) \<and> signing_up v))"
  by (simp add: handle_init_contract_def init_open_packet_def open_account_transaction_def demo_parse_path demo_header
      demo_defs set_init_def wiped_init_def wiped_def contract_start_input_def on_input_def set_init_input_def
      contract_name_packet_def contract_name_length_def contract_keep_name_def contract_end_name_def
      contract_params_packet_def contract_params_length_def contract_end_params_def init_input_def wiped_input_def
      put_def is_displayable_text_def uiInitContractDisplay_def demo_screen_defs awaiting_def)

lemma demo_to_public_run:
  "\<exists>t. handle_sign_transfer_to_public demo_sdk (app_packet INS_TRANSFER_TO_PUBLIC 0 0
        (0 # zeros 60 @ [TRANSFER_TO_PUBLIC])) True (claimed_app INS_TRANSFER_TO_PUBLIC) = Ret () t \<and>
       currentInstruction t = int (unat INS_TRANSFER_TO_PUBLIC) \<and> \<not> awaiting t \<and>
       (\<exists>u. handle_sign_transfer_to_public demo_sdk (app_packet INS_TRANSFER_TO_PUBLIC 1 0
            (zeros 200 @ zeros 32 @ zeros 8 @ [0, 1])) False t = Ret () u \<and>
         currentInstruction u = int (unat INS_TRANSFER_TO_PUBLIC) \<and> \<not> awaiting u \<and>
         (\<exists>v. handle_sign_transfer_to_public demo_sdk (app_packet INS_TRANSFER_TO_PUBLIC 2 0 [0]) False u = Ret () v \<and>
           currentInstruction v = int (unat INS_TRANSFER_TO_PUBLIC) \<and> signing_up v))"
  by (simp add: handle_sign_transfer_to_public_def public_open_packet_def public_amount_packet_def public_proof_packet_def
      demo_parse_path demo_header [where r = "[]", simplified] demo_defs set_public_def wiped_def encode_recipient_eq demo_addr
      uiSignTransferToPublicDisplay_def demo_screen_defs awaiting_def)

lemma demo_update_run:
  "\<exists>t. handle_update_contract demo_sdk (app_packet INS_UPDATE_CONTRACT 0 0
        (0 # zeros 60 @ UPDATE_CONTRACT # zeros 24)) True (claimed_app INS_UPDATE_CONTRACT) = Ret () t \<and>
       currentInstruction t = int (unat INS_UPDATE_CONTRACT) \<and> \<not> awaiting t \<and>
       (\<exists>u. handle_update_contract demo_sdk (app_packet INS_UPDATE_CONTRACT 1 0 [0, 1, 97]) False t = Ret () u \<and>
         currentInstruction u = int (unat INS_UPDATE_CONTRACT) \<and> \<not> awaiting u \<and>
         (\<exists>v. handle_update_contract demo_sdk (app_packet INS_UPDATE_CONTRACT 2 0 [0, 1, 0]) False u = Ret () v \<and>
           currentInstruction v = int (unat INS_UPDATE_CONTRACT) \<and> signing_up v))"
  by (simp add: handle_update_contract_def update_open_packet_def open_account_transaction_def demo_parse_path demo_header
      demo_defs set_update_def wiped_update_def wiped_def contract_start_input_def on_input_def set_update_input_def
      contract_name_packet_def contract_name_length_def contract_keep_name_def contract_end_name_def
      contract_params_packet_def contract_params_length_def contract_end_params_def update_input_def wiped_input_def
      put_def is_displayable_text_def uiUpdateContractDisplay_def demo_screen_defs awaiting_def)

lemma demo_delegation_run:
  "\<exists>v. handle_sign_configure_delegation demo_sdk (app_packet INS_CONFIGURE_DELEGATION 0 0
        (0 # zeros 60 @ CONFIGURE_DELEGATION # [0, 1] @ zeros 8)) True (claimed_app INS_CONFIGURE_DELEGATION) = Ret () v \<and>
       currentInstruction v = int (unat INS_CONFIGURE_DELEGATION) \<and> signing_up v"
  by (simp add: handle_sign_configure_delegation_def delegation_fields_def delegation_capital_def advance_def demo_parse_path demo_header
      demo_defs set_deleg_def wiped_def startConfigureDelegationDisplay_def demo_screen_defs awaiting_def)

lemma demo_time:
  obtains x d n d' where "secondsToTm 0 = Ok (Some x)" "tm_year x \<le> 9999"
    "timeToDisplayText demo_sdk x (zeros 25) = Ok (d, n)" "appendMilliseconds d 0 = Ok d'" "cbuf 25 d'"
proof -
  obtain x where x: "secondsToTm 0 = Ok (Some x)" and t: "tm_year x \<le> 9999 \<Longrightarrow> \<exists>d n d'. timeToDisplayText demo_sdk x (zeros 25) = Ok (d, n) \<and>
       appendMilliseconds d 0 = Ok d' \<and> cbuf 25 d' \<and> cstr d' = stamp_text 0"
    by (rule stamp_Ok [of demo_sdk "zeros 8" "zeros 25"]) simp_all
  have "case secondsToTm 0 of Ok (Some x) \<Rightarrow> tm_year x \<le> 9999 | _ \<Rightarrow> False" by code_simp
  then have "tm_year x \<le> 9999" using x by simp
  with x t that show thesis by blast
qed

lemma demo_schedule_run:
  "\<exists>t. handle_sign_transfer_with_schedule demo_sdk (app_packet INS_SIGN_TRANSFER_WITH_SCHEDULE 0 0
        (0 # zeros 60 @ TRANSFER_WITH_SCHEDULE # zeros 32 @ [1])) True (claimed_app INS_SIGN_TRANSFER_WITH_SCHEDULE) = Ret () t \<and>
     (\<exists>rv. screen t = Some rv \<and> rv_callback rv = confirm_initial_scheduled_transfer_callback \<and> confirm_initial_scheduled_transfer_callback \<noteq> review_choice \<and>
     (\<exists>u. run_callback demo_sdk confirm_initial_scheduled_transfer_callback True (t\<lparr> screen := None \<rparr>) = Ret () u \<and> currentInstruction u = int (unat INS_SIGN_TRANSFER_WITH_SCHEDULE) \<and> \<not> awaiting u \<and>
       (\<exists>v. handle_sign_transfer_with_schedule demo_sdk (app_packet INS_SIGN_TRANSFER_WITH_SCHEDULE 1 0 (zeros 16)) False u = Ret () v \<and>
         currentInstruction v = int (unat INS_SIGN_TRANSFER_WITH_SCHEDULE) \<and> signing_up v)))"
proof -
  obtain x d n d' where x: "secondsToTm 0 = Ok (Some x)" "\<not> 9999 < tm_year x"
    "timeToDisplayText demo_sdk x (zeros 25) = Ok (d, n)" "appendMilliseconds d 0 = Ok d'" "0 \<in> set d'"
    by (rule demo_time) (auto simp: cbuf_def)
  show ?thesis
    by (simp add: handle_sign_transfer_with_schedule_def schedule_open_packet_def demo_to_address
      demo_defs set_schedule_def set_blob_def wiped_schedule_def choose_initial_scheduled_def
      confirmInitialScheduledTransfer_def handle_transfer_pairs_def byte_at_def startInitialScheduledTransferDisplay_def
      put_Ok processNextScheduledAmount_def x uiSignScheduledTransferPairFlowSignDisplay_def release_rows_def
      demo_screen_defs memo_rows_def awaiting_def ux_run_guarded_def)
qed

lemma demo_bin_to_dec: "2 \<le> n \<Longrightarrow> bin_to_dec demo_sdk (zeros n) 0 = Ok (48 # 0 # zeros (n - 2), 2)"
  by (simp add: bin_to_dec_def u64_to_digits_no_nul_def demo_sdk_def dec.simps [of 0] digit_def put_def numeral_2_eq_2 Suc_le_eq)

lemma demo_legacy_run:
  "\<exists>t. handle_export_private_key_legacy_path demo_sdk (app_packet INS_EXPORT_PRIVATE_KEY_LEGACY 0 1 (zeros 4)) True
        (claimed_app INS_EXPORT_PRIVATE_KEY_LEGACY) = Ret () t \<and>
     currentInstruction t = int (unat INS_EXPORT_PRIVATE_KEY_LEGACY) \<and>
     (\<exists>rv. screen t = Some rv \<and> rv_callback rv = review_export_private_key)"
  by (simp add: handle_export_private_key_legacy_path_def demo_defs set_export_def legacy_texts_def legacy_credid_def
     wiped_def wiped_export_def put_def at_offset_def demo_bin_to_dec write_text_def legacy_verbs_def lit_def ascii_def
     uiExportPrivateKey_def compose_export_private_key_titles_def compose_title_def cstr_def drawn_def export_rows_def demo_screen_defs)

lemma demo_new_path_run:
  "\<exists>t. handle_export_private_key_new_path demo_sdk (app_packet INS_EXPORT_PRIVATE_KEY_NEW 0 0 (zeros 8)) True
        (claimed_app INS_EXPORT_PRIVATE_KEY_NEW) = Ret () t \<and>
     currentInstruction t = int (unat INS_EXPORT_PRIVATE_KEY_NEW) \<and> ek_newPathPurpose (export t) = 0 \<and>
     (\<exists>rv. screen t = Some rv \<and> rv_callback rv = review_export_private_key_new_path)"
  by (simp add: handle_export_private_key_new_path_def demo_defs set_export_def new_path_texts_def new_path_credid_def read_index_def
     wiped_def wiped_export_def put_def at_offset_def append_dec_def demo_bin_to_dec write_text_def new_path_purpose_texts_def lit_def ascii_def
     uiExportPrivateKeysNewPath_def compose_export_private_key_titles_def compose_title_def cstr_def drawn_def export_rows_def demo_screen_defs)

lemma demo_key: "\<exists>k. get_public_key demo_sdk demo_path = Ok k \<and> length k = 32"
proof -
  have "get_private_key demo_sdk demo_path = Ok (demo_digest (demo_digest []))"
    by (simp add: get_private_key_def demo_sdk_def demo_path_def used_nodes_def)
  then have "\<exists>k. get_public_key demo_sdk demo_path = Ok k"
    by (simp add: get_public_key_def demo_sdk_def Let_def)
  then show ?thesis using rwp_get_public_key [OF demo_derives_keys, of demo_path] by auto
qed

lemma demo_public_key_run:
  "\<exists>t. handle_get_public_key demo_sdk (app_packet INS_GET_PUBLIC_KEY 0 0 [0]) True
        (claimed_app INS_GET_PUBLIC_KEY) = Ret () t \<and>
     currentInstruction t = int (unat INS_GET_PUBLIC_KEY) \<and>
     (\<exists>rv. screen t = Some rv \<and> rv_callback rv = review_public_key_choice) \<and>
     (\<exists>key. key_reply demo_sdk t key []) \<and> \<not> pk_signPublicKey (pubkey t)"
proof -
  obtain k where k: "get_public_key demo_sdk demo_path = Ok k" "length k = 32" using demo_key by blast
  then have n: "k \<noteq> []" by auto
  have "to_paginated_hex k (zeros 68) = Ok (hex_pages k @ 0 # zeros (67 - length (hex_pages k)))"
    using to_paginated_hex_Ok [OF n, of "zeros 68"] k(2) by simp
  moreover have "public_key_display demo_sdk demo_path (zeros 21) = Ok (48 # 47 # 48 # 0 # zeros 17)"
    by (simp add: public_key_display_def demo_path_def path_display_legacy_def demo_numbers put_def at_offset_def
       bin_to_dec_def u64_to_digits_no_nul_def demo_sdk_def dec.simps [of 0] digit_def number_to_text_def)
  moreover have "unharden_derivation_path demo_path = demo_path" "harden_derivation_path demo_path = demo_path"
    by (simp_all add: unharden_derivation_path_def harden_derivation_path_def used_nodes_def demo_path_def)
  moreover have "\<not> global_public_key_review_pending idle_app" by (simp add: idle_app_def loaded_def)
  ultimately show ?thesis
  using k by (simp add: handle_get_public_key_def demo_parse_path demo_defs set_pubkey_def wiped_def uiGeneratePubkey_def demo_screen_defs
      key_reply_def)
qed

text \<open>The SDK of the demonstration derives every key.\<close>

lemma demo_bls_key: "32 \<le> n \<Longrightarrow> \<exists>k. get_bls_private_key demo_sdk p n = Some (Ok k)"
proof -
  assume n: "32 \<le> n"
  have "get_private_key demo_sdk p = Ok (demo_digest (demo_digest (concat (map (\<lambda>w. to_be 4 (unat w)) (used_nodes p)))))"
    by (simp add: get_private_key_def demo_sdk_def)
  moreover have "\<exists>k. blsKeygen_loop demo_sdk ikm salt = Some (Ok k)" for ikm salt
  proof -
    obtain sk where "bls_candidate demo_sdk ikm (bls_salt demo_sdk salt) = Some sk" "be_nat sk \<noteq> 0"
      using demo_candidate by blast
    moreover have "sdk_hash_sha256 demo_sdk salt = Some (demo_digest salt)" by (simp add: demo_sdk_def)
    ultimately show ?thesis
      by (subst blsKeygen_loop.simps) (auto simp: bls_candidate_def bls_salt_def be_nat_eq_0)
  qed
  ultimately show ?thesis using n by (simp add: get_bls_private_key_def blsKeygen_def)
qed

lemma demo_legacy_released: "\<exists>keys. list_all2 (released demo_sdk seed identity) ks keys"
proof (induction ks)
  case Nil
  then show ?case by (intro exI [of _ "[]"]) simp
next
  case (Cons k ks)
  then obtain keys where keys: "list_all2 (released demo_sdk seed identity) ks keys" by blast
  obtain key where "get_bls_private_key demo_sdk (path_of (legacy_base identity @ [hardened k])) 32 = Some (Ok key)"
    using demo_bls_key [of 32] by auto
  moreover have "\<exists>key. get_private_key demo_sdk (path_of (legacy_base identity @ [hardened k])) = Ok key"
    by (simp add: get_private_key_def demo_sdk_def)
  ultimately have "\<exists>key. released demo_sdk seed identity k key" by (cases seed) (auto simp: released_def)
  then obtain key' where "released demo_sdk seed identity k key'" by blast
  with keys have "list_all2 (released demo_sdk seed identity) (k # ks) (key' # keys)" by simp
  then show ?case by blast
qed

lemma demo_released:
  assumes "set ks \<subseteq> {2, 3, 4}"
  shows "\<exists>keys. list_all2 (new_released demo_sdk coin idp identity account) ks keys"
  using assms
proof (induction ks)
  case Nil
  then show ?case by (intro exI [of _ "[]"]) simp
next
  case (Cons k ks)
  then obtain keys where keys: "list_all2 (new_released demo_sdk coin idp identity account) ks keys" by auto
  obtain key where "get_bls_private_key demo_sdk (path_of (new_path_nodes coin idp identity account k)) 64 = Some (Ok key)"
    using demo_bls_key [of 64] by auto
  then have "new_released demo_sdk coin idp identity account k key"
    using Cons.prems by (auto simp: new_released_def)
  with keys have "list_all2 (new_released demo_sdk coin idp identity account) (k # ks) (key # keys)" by simp
  then show ?case by blast
qed

subsection \<open>Sessions\<close>

text \<open>A session of an instruction that has reached its signing review.\<close>

definition reaches_signing :: "u8 \<Rightarrow> log \<Rightarrow> app \<Rightarrow> bool" where
  "reaches_signing ins log s \<longleftrightarrow> session demo_sdk demo_rest log s \<and> currentInstruction s = int (unat ins) \<and> signing_up s"

lemmas demo_scope = data_handler_def outside_def

lemma one_packet:
  assumes "data_handler demo_sdk demo_rest ins = Some h" "ins \<notin> outside" "d \<noteq> []" "length d < 256"
    "\<exists>t. h (app_packet ins p1 p2 d) True (claimed_app ins) = Ret () t \<and> P t"
  shows "\<exists>s. session demo_sdk demo_rest [] s \<and> P s"
  using assms first_packet [of h ins p1 p2 d] by blast

lemma another_packet:
  assumes "data_handler demo_sdk demo_rest ins = Some h" "ins \<notin> outside" "d \<noteq> []" "length d < 256"
    "\<exists>s. session demo_sdk demo_rest log s \<and> currentInstruction s = int (unat ins) \<and> \<not> awaiting s \<and>
       (\<exists>t. h (app_packet ins p1 p2 d) False s = Ret () t \<and> P t)"
  shows "\<exists>s. session demo_sdk demo_rest log s \<and> P s"
  using assms next_packet [of log _ h ins p1 p2 d] by blast

lemma an_approval:
  assumes "\<exists>s. session demo_sdk demo_rest log s \<and> (\<exists>rv. screen s = Some rv \<and> rv_callback rv = cb \<and> cb \<noteq> review_choice \<and>
    (\<exists>t. run_callback demo_sdk cb True (s\<lparr> screen := None \<rparr>) = Ret () t \<and> P t))"
  shows "\<exists>log s. session demo_sdk demo_rest log s \<and> P s"
  using assms approval [of demo_sdk demo_rest log] by blast

lemma later_packet:
  assumes "data_handler demo_sdk demo_rest ins = Some h" "ins \<notin> outside" "d \<noteq> []" "length d < 256"
    "\<exists>log s. session demo_sdk demo_rest log s \<and> currentInstruction s = int (unat ins) \<and> \<not> awaiting s \<and>
       (\<exists>t. h (app_packet ins p1 p2 d) False s = Ret () t \<and> P t)"
  shows "\<exists>log s. session demo_sdk demo_rest log s \<and> P s"
  using assms next_packet [of _ _ h ins p1 p2 d] by blast

definition demo_transfer_packet :: command where
  "demo_transfer_packet = app_packet INS_SIGN_TRANSFER 0 0 (0 # zeros 60 @ TRANSFER # zeros 32 @ zeros 8)"

lemma demo_transfer_step:
  "\<exists>t. app_step demo_sdk demo_rest (Apdu (Some demo_transfer_packet)) idle_app = Ret () t \<and> signing_up t"
proof -
  obtain t where "handle_sign_transfer demo_sdk demo_transfer_packet (claimed_app INS_SIGN_TRANSFER) = Ret () t" "signing_up t"
    using demo_transfer_run unfolding demo_transfer_packet_def by blast
  then show ?thesis
    by (simp add: app_main_step_def apdu_dispatcher_def dispatch_guarded_def data_handler_def claimed_app_def
        demo_transfer_packet_def)
qed

lemma demo_transfer: "\<exists>s. reaches_signing INS_SIGN_TRANSFER [] s"
  unfolding reaches_signing_def
  by (rule one_packet [where h = "\<lambda>c initial. handle_sign_transfer demo_sdk c", OF _ _ _ _ demo_transfer_run])
    (simp_all add: demo_scope)

lemma demo_memo: "\<exists>s. reaches_signing INS_SIGN_TRANSFER_WITH_MEMO [] s"
  unfolding reaches_signing_def
  by (rule another_packet [where h = "handle_sign_transfer_with_memo demo_sdk", OF _ _ _ _
       another_packet [where h = "handle_sign_transfer_with_memo demo_sdk", OF _ _ _ _
       one_packet [where h = "handle_sign_transfer_with_memo demo_sdk", OF _ _ _ _ demo_memo_run]]])
    (simp_all add: demo_scope)

lemma demo_deploy: "\<exists>s. reaches_signing INS_DEPLOY_MODULE [] s"
  unfolding reaches_signing_def
  by (rule another_packet [where h = "handle_deploy_module demo_sdk", OF _ _ _ _
       one_packet [where h = "handle_deploy_module demo_sdk", OF _ _ _ _ demo_deploy_run]])
    (simp_all add: demo_scope)

lemma demo_init: "\<exists>s. reaches_signing INS_INIT_CONTRACT [] s"
  unfolding reaches_signing_def
  by (rule another_packet [where h = "handle_init_contract demo_sdk", OF _ _ _ _
       another_packet [where h = "handle_init_contract demo_sdk", OF _ _ _ _
       one_packet [where h = "handle_init_contract demo_sdk", OF _ _ _ _ demo_init_run]]])
    (simp_all add: demo_scope)

lemma demo_update: "\<exists>s. reaches_signing INS_UPDATE_CONTRACT [] s"
  unfolding reaches_signing_def
  by (rule another_packet [where h = "handle_update_contract demo_sdk", OF _ _ _ _
       another_packet [where h = "handle_update_contract demo_sdk", OF _ _ _ _
       one_packet [where h = "handle_update_contract demo_sdk", OF _ _ _ _ demo_update_run]]])
    (simp_all add: demo_scope)

lemma demo_to_public: "\<exists>s. reaches_signing INS_TRANSFER_TO_PUBLIC [] s"
  unfolding reaches_signing_def
  by (rule another_packet [where h = "handle_sign_transfer_to_public demo_sdk", OF _ _ _ _
       another_packet [where h = "handle_sign_transfer_to_public demo_sdk", OF _ _ _ _
       one_packet [where h = "handle_sign_transfer_to_public demo_sdk", OF _ _ _ _ demo_to_public_run]]])
    (simp_all add: demo_scope)

lemma demo_delegation: "\<exists>s. reaches_signing INS_CONFIGURE_DELEGATION [] s"
  unfolding reaches_signing_def
  by (rule one_packet [where h = "handle_sign_configure_delegation demo_sdk", OF _ _ _ _ demo_delegation_run])
    (simp_all add: demo_scope)

lemma demo_register: "\<exists>log s. reaches_signing INS_REGISTER_DATA log s"
  unfolding reaches_signing_def
  by (rule later_packet [where h = "handle_sign_register_data demo_sdk", OF _ _ _ _
       an_approval [OF one_packet [where h = "handle_sign_register_data demo_sdk", OF _ _ _ _ demo_register_run]]])
    (simp_all add: demo_scope)

lemma demo_schedule: "\<exists>log s. reaches_signing INS_SIGN_TRANSFER_WITH_SCHEDULE log s"
  unfolding reaches_signing_def
  by (rule later_packet [where h = "handle_sign_transfer_with_schedule demo_sdk", OF _ _ _ _
       an_approval [OF one_packet [where h = "handle_sign_transfer_with_schedule demo_sdk", OF _ _ _ _ demo_schedule_run]]])
    (simp_all add: demo_scope)

text \<open>A session of an export that waits for its approval.\<close>

definition reaches_export :: "u8 \<Rightarrow> callback \<Rightarrow> app \<Rightarrow> bool" where
  "reaches_export ins cb s \<longleftrightarrow> session demo_sdk demo_rest [] s \<and> currentInstruction s = int (unat ins) \<and>
     (\<exists>rv. screen s = Some rv \<and> rv_callback rv = cb)"

lemma demo_legacy: "\<exists>s. reaches_export INS_EXPORT_PRIVATE_KEY_LEGACY review_export_private_key s"
  unfolding reaches_export_def
  by (rule one_packet [where h = "handle_export_private_key_legacy_path demo_sdk", OF _ _ _ _ demo_legacy_run])
    (simp_all add: demo_scope)

lemma demo_new_path:
  "\<exists>s. session demo_sdk demo_rest [] s \<and> currentInstruction s = int (unat INS_EXPORT_PRIVATE_KEY_NEW) \<and>
     ek_newPathPurpose (export s) = 0 \<and> (\<exists>rv. screen s = Some rv \<and> rv_callback rv = review_export_private_key_new_path)"
  by (rule one_packet [where h = "handle_export_private_key_new_path demo_sdk", OF _ _ _ _ demo_new_path_run])
    (simp_all add: demo_scope)

lemma demo_public_key:
  "\<exists>s. session demo_sdk demo_rest [] s \<and> currentInstruction s = int (unat INS_GET_PUBLIC_KEY) \<and>
     (\<exists>rv. screen s = Some rv \<and> rv_callback rv = review_public_key_choice) \<and>
     (\<exists>key. key_reply demo_sdk s key []) \<and> \<not> pk_signPublicKey (pubkey s)"
  by (rule one_packet [where h = "handle_get_public_key demo_sdk", OF _ _ _ _ demo_public_key_run])
    (simp_all add: demo_scope)

end
