(* ===== verification/Guarantees.thy ===== *)
theory Guarantees
  imports Demo
begin

text \<open>
  What the application guarantees in every session, whatever the host sends and the user chooses: it
  never faults or leaves the receive loop, it answers every packet once, a packet alone is answered with
  a status word, and a review that is declined releases nothing.
\<close>

subsection \<open>Every session\<close>

lemma session_step:
  assumes "platform E" "session E R log s" "enabled ev s" "in_scope ev" "app_step E R ev s = Ret () t"
  shows "step_answer ev s t"
  using step_session [OF assms(1) session_holds [OF assms(1,2)] assms(3,4), of R] assms(5) by (metis outcome.inject(1))

text \<open>C1: In every session, each APDU, each choice and each end of a status page is processed to its
  end: no memory access out of bounds, no use of a hash context that was not started, and no exception
  that leaves the receive loop.\<close>

theorem session_never_faults:
  assumes "platform E" "session E R log s" "enabled ev s" "in_scope ev"
  shows "\<exists>t. app_step E R ev s = Ret () t"
  using step_session [OF assms(1) session_holds [OF assms(1,2)] assms(3,4), of R] by metis

lemma demo_signing_enabled: "reaches_signing ins log s \<Longrightarrow> enabled (Choice b) s \<and> in_scope (Choice b)"
  by (auto simp: reaches_signing_def)

lemma session_never_faults_witness:
  "\<exists>s. reaches_signing INS_SIGN_TRANSFER [] s \<and> (\<exists>t. app_step demo_sdk demo_rest (Choice True) s = Ret () t)"
proof -
  obtain s where s: "reaches_signing INS_SIGN_TRANSFER [] s" using demo_transfer by blast
  then have "session demo_sdk demo_rest [] s" by (simp add: reaches_signing_def)
  with session_never_faults [OF demo_platform this] demo_signing_enabled [OF s] s show ?thesis by blast
qed

text \<open>C2: In every session the buffers of all contexts keep their sizes and their terminating NULs; a
  review that waits for a decision belongs to the instruction that is open, and the open instruction
  satisfies its invariant: what the transaction hash has absorbed, what the review shows, and what the
  user has approved before agree.\<close>

theorem session_invariant:
  assumes "platform E" "session E R log s"
  shows "wf_app s \<and> (awaiting s \<longrightarrow> claimed s) \<and>
    (claimed s \<longrightarrow> (\<exists>ins. ins \<notin> outside \<and> currentInstruction s = int (unat ins) \<and> flow_of ins E log s))"
  using session_holds [OF assms] by (auto simp: session_inv_def split: if_splits)

lemma session_invariant_witness:
  "\<exists>s. reaches_signing INS_SIGN_TRANSFER [] s \<and> wf_app s \<and> (awaiting s \<longrightarrow> claimed s) \<and>
    (claimed s \<longrightarrow> (\<exists>ins. ins \<notin> outside \<and> currentInstruction s = int (unat ins) \<and> flow_of ins demo_sdk [] s))"
proof -
  obtain s where s: "reaches_signing INS_SIGN_TRANSFER [] s" using demo_transfer by blast
  then have "session demo_sdk demo_rest [] s" by (simp add: reaches_signing_def)
  with session_invariant [OF demo_platform this] s show ?thesis by blast
qed

text \<open>C8: Every APDU is answered exactly once, by a reply or by a review whose decision is answered
  exactly once: the host never hangs and never gets a second reply.\<close>

theorem packet_answered_once:
  assumes "platform E" "session E R log s" "enabled (Apdu a) s" "in_scope (Apdu a)"
  shows "\<exists>t. app_step E R (Apdu a) s = Ret () t \<and>
    (if awaiting t then replies t = replies s \<and> enabled (Choice True) t \<and> enabled (Choice False) t
     else \<exists>r. replies t = replies s @ [r])"
proof -
  obtain t where t: "app_step E R (Apdu a) s = Ret () t" "step_answer (Apdu a) s t"
    using step_session [OF assms(1) session_holds [OF assms(1,2)] assms(3,4), of R] by metis
  then show ?thesis by (auto simp: step_answer_def discreet_def responded_def awaiting_def)
qed

lemma packet_answered_once_witness:
  "\<exists>t. app_step demo_sdk demo_rest (Apdu None) idle_app = Ret () t \<and>
    (if awaiting t then replies t = replies idle_app \<and> enabled (Choice True) t \<and> enabled (Choice False) t
     else \<exists>r. replies t = replies idle_app @ [r])"
  by (rule packet_answered_once [OF demo_platform session_idle]) (simp_all add: awaiting_def)

text \<open>C9: A packet alone never makes the device send out a signature, a key or anything else: its reply
  is a status word, unless it asks for the application's name or version or for a public key without
  display.\<close>

theorem packet_discloses_nothing:
  assumes "platform E" "session E R log s" "enabled (Apdu a) s" "in_scope (Apdu a)"
    "app_step E R (Apdu a) s = Ret () t" "replies t = replies s @ [(payload, sw)]" "payload \<noteq> []"
  shows "\<exists>c. a = Some c \<and> public_query c"
  using session_step [OF assms(1-5)] assms(6,7) by (auto simp: step_answer_def discreet_def silent_def)

lemma packet_discloses_nothing_witness:
  "\<exists>t. app_step demo_sdk demo_rest (Apdu (Some (app_packet INS_GET_APP_NAME 0 0 []))) idle_app = Ret () t \<and>
    (\<exists>c. Some (app_packet INS_GET_APP_NAME 0 0 []) = Some c \<and> public_query c)"
proof -
  let ?a = "Some (app_packet INS_GET_APP_NAME 0 0 [])"
  let ?t = "idle_app\<lparr> global := wiped, replies := [(ascii ''Concordium'', SWO_SUCCESS)], currentInstruction := INSTRUCTION_NONE \<rparr>"
  have t: "app_step demo_sdk demo_rest (Apdu ?a) idle_app = Ret () ?t"
    by (simp add: app_main_step_def apdu_dispatcher_def dispatch_guarded_def data_handler_def dispatch_query_def dispatch_bare_def
        handle_get_app_name_def io_send_response_def)
  moreover have "\<exists>c. ?a = Some c \<and> public_query c"
    by (rule packet_discloses_nothing [OF demo_platform session_idle _ _ t, of "ascii ''Concordium''" SWO_SUCCESS])
      (simp_all add: awaiting_def outside_def ascii_def)
  ultimately show ?thesis by blast
qed

text \<open>C10: Declining any review ends the instruction: the host is told so, and nothing else leaves the
  device.\<close>

theorem declined_review_releases_nothing:
  assumes "platform E" "session E R log s" "awaiting s"
  shows "\<exists>t. app_step E R (Choice False) s = Ret () t \<and>
    replies t = replies s @ [([], SWO_CONDITIONS_NOT_SATISFIED)] \<and>
    currentInstruction t = INSTRUCTION_NONE \<and> \<not> awaiting t"
proof -
  have "enabled (Choice False) s" "in_scope (Choice False)" using assms(3) by (auto simp: awaiting_def)
  then obtain t where "app_step E R (Choice False) s = Ret () t" "step_answer (Choice False) s t"
    using step_session [OF assms(1) session_holds [OF assms(1,2)], of "Choice False" R] by metis
  then show ?thesis using assms(3) by (auto simp: step_answer_def declined_def claimed_def)
qed

lemma reaches_signing_awaiting: "reaches_signing ins log s \<Longrightarrow> awaiting s"
  by (auto simp: reaches_signing_def awaiting_def)

lemma declined_review_releases_nothing_witness:
  "\<exists>s t. reaches_signing INS_SIGN_TRANSFER [] s \<and> app_step demo_sdk demo_rest (Choice False) s = Ret () t \<and>
    replies t = replies s @ [([], SWO_CONDITIONS_NOT_SATISFIED)] \<and>
    currentInstruction t = INSTRUCTION_NONE \<and> \<not> awaiting t"
proof -
  obtain s where s: "reaches_signing INS_SIGN_TRANSFER [] s" using demo_transfer by blast
  then have "session demo_sdk demo_rest [] s" by (simp add: reaches_signing_def)
  with declined_review_releases_nothing [OF demo_platform this] reaches_signing_awaiting [OF s] s show ?thesis by blast
qed

text \<open>A packet that finds another instruction open.\<close>

lemma foreign_packet:
  assumes "currentInstruction s = int (unat ins)" "cmd_cla c = APP_CLA" "cmd_ins c \<noteq> ins"
  shows "app_step E R (Apdu (Some c)) s =
    Ret () (s\<lparr> currentInstruction := INSTRUCTION_NONE, replies := replies s @ [([], ERROR_INVALID_STATE)] \<rparr>)"
  using assms by (simp add: app_main_step_def apdu_dispatcher_def dispatch_guarded_def io_send_sw_def
      io_send_response_def word_uint_eq_iff)

text \<open>C23: While an instruction is open, a packet of another instruction is refused with
  \<open>ERROR_INVALID_STATE\<close> and closes the open one: no packet of one instruction ever reaches the state
  of another.\<close>

theorem other_instruction_refused:
  assumes "currentInstruction s = int (unat ins)" "cmd_cla c = APP_CLA" "cmd_ins c \<noteq> ins"
  shows "app_step E R (Apdu (Some c)) s =
    Ret () (s\<lparr> currentInstruction := INSTRUCTION_NONE, replies := replies s @ [([], ERROR_INVALID_STATE)] \<rparr>)"
  using assms by (rule foreign_packet)

lemma other_instruction_refused_witness:
  "app_step demo_sdk demo_rest (Apdu (Some (app_packet INS_DEPLOY_MODULE 0 0 [0]))) (claimed_app INS_SIGN_TRANSFER) =
    Ret () ((claimed_app INS_SIGN_TRANSFER)\<lparr> currentInstruction := INSTRUCTION_NONE,
      replies := replies (claimed_app INS_SIGN_TRANSFER) @ [([], ERROR_INVALID_STATE)] \<rparr>)"
  by (rule other_instruction_refused [of _ INS_SIGN_TRANSFER]) (simp_all add: claimed_app_def)

text \<open>The state a packet is dispatched on: an open instruction's, or a fresh one.\<close>

definition dispatched :: "command \<Rightarrow> app \<Rightarrow> app" where
  "dispatched c s = (if currentInstruction s = INSTRUCTION_NONE
     then s\<lparr> global := wiped, currentInstruction := int (unat (cmd_ins c)) \<rparr> else s)"

lemma dispatched_step:
  "cmd_cla c = APP_CLA \<Longrightarrow> app_step E R (Apdu (Some c)) s =
    dispatch_guarded (apdu_dispatcher E R c (currentInstruction s = INSTRUCTION_NONE)) (dispatched c s)"
  by (simp add: app_main_step_def dispatched_def)

lemma session_throws:
  assumes E: "platform E" and st: "session E R log s" "enabled (Apdu (Some c)) s" "in_scope (Apdu (Some c))"
    and th: "apdu_dispatcher E R c (currentInstruction s = INSTRUCTION_NONE) (dispatched c s) = Throw e t"
  shows "refused (dispatched c s) e t"
proof -
  have inv: "session_inv E log s" by (rule session_holds [OF E st(1)])
  have w: "wf_app (dispatched c s)" "\<not> awaiting (dispatched c s)"
    using inv st(2) by (auto simp: session_inv_def dispatched_def wf_app_def)
  have c: "length (cmd_data c) < 256" "cmd_ins c \<notin> outside" using st(3) by simp_all
  show ?thesis
  proof (cases "currentInstruction s = INSTRUCTION_NONE")
    case True
    have "global (dispatched c s) = wiped" using True by (simp add: dispatched_def)
    then show ?thesis using dispatch_throws [OF E w c, where initial = True and log = "[]"] th True by simp
  next
    case False
    then obtain ins where i: "currentInstruction s = int (unat ins)" "flow_of ins E log s"
      using inv by (auto simp: session_inv_def claimed_def)
    have d: "dispatched c s = s" using False by (simp add: dispatched_def)
    show ?thesis
    proof (cases "ins = cmd_ins c")
      case True
      then show ?thesis using dispatch_throws [OF E w c, where initial = False and log = log] th False i(2) d by simp
    next
      case ne: False
      then have "currentInstruction s \<noteq> int (unat (cmd_ins c))" using i(1) by (simp add: word_uint_eq_iff)
      then show ?thesis
        using th False d by (simp add: apdu_dispatcher_def io_send_sw_def io_send_response_def)
    qed
  qed
qed

text \<open>C27: When a packet makes its handler throw, the status word thrown is the one reply to the packet, without
  data, and nothing of the packet is left: no review is drawn, the union is wiped and the instruction
  released, so that the next packet starts afresh.\<close>

theorem thrown_status_word_replied:
  assumes "platform E" "session E R log s" "enabled (Apdu (Some c)) s" "in_scope (Apdu (Some c))" "cmd_cla c = APP_CLA"
    "apdu_dispatcher E R c (currentInstruction s = INSTRUCTION_NONE) (dispatched c s) = Throw e t"
  shows "\<exists>u. app_step E R (Apdu (Some c)) s = Ret () u \<and> status_word e \<and> replies u = replies s @ [([], e)] \<and>
    global u = wiped \<and> currentInstruction u = INSTRUCTION_NONE \<and> screen u = screen s \<and> \<not> awaiting u"
proof -
  have r: "refused (dispatched c s) e t" by (rule session_throws [OF assms(1-4,6)])
  have "wp (app_step E R (Apdu (Some c)) s) (\<lambda>_ u. status_word e \<and> replies u = replies s @ [([], e)] \<and>
    global u = wiped \<and> currentInstruction u = INSTRUCTION_NONE \<and> screen u = screen s \<and> \<not> awaiting u) (\<lambda>_ _. False)"
    unfolding dispatched_step [OF assms(5)]
    by (rule wp_dispatch_guarded) (use r assms(3,6) in \<open>auto simp: refused_def dispatched_def awaiting_def\<close>)
  from wp_total [OF this] show ?thesis by auto
qed

text \<open>A transfer with a bad P1, against the idle application.\<close>

lemma thrown_status_word_replied_witness:
  "\<exists>u. app_step demo_sdk demo_rest (Apdu (Some (app_packet INS_SIGN_TRANSFER 1 0 [0]))) idle_app = Ret () u \<and>
    replies u = replies idle_app @ [([], SWO_WRONG_P1_P2)] \<and> global u = wiped \<and> currentInstruction u = INSTRUCTION_NONE \<and>
    screen u = None \<and> \<not> awaiting u"
proof -
  let ?c = "app_packet INS_SIGN_TRANSFER 1 0 [0]"
  have "apdu_dispatcher demo_sdk demo_rest ?c (currentInstruction idle_app = INSTRUCTION_NONE) (dispatched ?c idle_app) =
      Throw SWO_WRONG_P1_P2 (dispatched ?c idle_app)"
    by (simp add: apdu_dispatcher_def data_handler_def handle_sign_transfer_def dispatched_def)
  from thrown_status_word_replied [OF demo_platform session_idle _ _ _ this] show ?thesis
    by (auto simp: awaiting_def outside_def)
qed

text \<open>C28: A first packet without data is refused, but the instruction it named stays claimed, although
  nothing of a flow was opened.  So the next packet of any other instruction, whatever it holds, is refused with
  \<open>ERROR_INVALID_STATE\<close>, and only that refusal releases the claim.\<close>

theorem missing_data_keeps_the_claim:
  assumes "currentInstruction s = INSTRUCTION_NONE" "cmd_cla c = APP_CLA" "cmd_data c = []"
    "data_handler E R (cmd_ins c) = Some h" "cmd_cla d = APP_CLA" "cmd_ins d \<noteq> cmd_ins c"
  shows "\<exists>t. app_step E R (Apdu (Some c)) s = Ret () t \<and>
    t = s\<lparr> global := wiped, currentInstruction := int (unat (cmd_ins c)),
      replies := replies s @ [([], SWO_WRONG_DATA_LENGTH)] \<rparr> \<and>
    app_step E R (Apdu (Some d)) t = Ret () (t\<lparr> currentInstruction := INSTRUCTION_NONE,
      replies := replies s @ [([], SWO_WRONG_DATA_LENGTH), ([], ERROR_INVALID_STATE)] \<rparr>)"
proof -
  let ?t = "s\<lparr> global := wiped, currentInstruction := int (unat (cmd_ins c)),
    replies := replies s @ [([], SWO_WRONG_DATA_LENGTH)] \<rparr>"
  have "app_step E R (Apdu (Some c)) s = Ret () ?t"
    using assms(1-4) by (simp add: app_main_step_def apdu_dispatcher_def dispatch_guarded_def io_send_sw_def
        io_send_response_def)
  moreover have "app_step E R (Apdu (Some d)) ?t = Ret () (?t\<lparr> currentInstruction := INSTRUCTION_NONE,
      replies := replies s @ [([], SWO_WRONG_DATA_LENGTH), ([], ERROR_INVALID_STATE)] \<rparr>)"
    using foreign_packet [of ?t "cmd_ins c" d E R] assms(5,6) by simp
  ultimately show ?thesis by blast
qed

text \<open>A deployment of a module without data keeps a complete transfer out.\<close>

lemma missing_data_keeps_the_claim_witness:
  "\<exists>t u. app_step demo_sdk demo_rest (Apdu (Some (app_packet INS_DEPLOY_MODULE 0 0 []))) idle_app = Ret () t \<and>
    app_step demo_sdk demo_rest (Apdu (Some (app_packet INS_SIGN_TRANSFER 0 0
      (0 # zeros 60 @ TRANSFER # zeros 32 @ zeros 8)))) t = Ret () u \<and>
    replies u = [([], SWO_WRONG_DATA_LENGTH), ([], ERROR_INVALID_STATE)]"
  using missing_data_keeps_the_claim [of idle_app "app_packet INS_DEPLOY_MODULE 0 0 []" demo_sdk demo_rest
      "handle_deploy_module demo_sdk" "app_packet INS_SIGN_TRANSFER 0 0 (0 # zeros 60 @ TRANSFER # zeros 32 @ zeros 8)"]
  by (auto simp: data_handler_def)

end
