(* ===== verification/Signing.thy ===== *)
theory Signing
  imports Guarantees
begin

text \<open>
  What you see is what you sign, instruction by instruction and in every session: the review that asks
  for a signature shows the fields of a transaction, and its approval answers with the signature over
  exactly that transaction, made with the key of the path the transaction was opened with.
\<close>

subsection \<open>The review that is up\<close>

lemma review_signs:
  assumes "platform E" "asks_to_sign s m rows" "screen s = Some rv"
  shows "rv_pairs rv = rows \<and> signs_on_approval E R s m"
  using assms signs_on_approval by (auto simp: asks_to_sign_def)

lemma signing_session:
  assumes "platform E" "session E R log s" "currentInstruction s = int (unat ins)" "screen s = Some rv"
    "rv_callback rv = review_choice_sign"
  shows "flow_of ins E log s" "awaiting s"
  using session_flow [OF assms(1-3)] assms(4,5) by (auto simp: awaiting_def)

lemma reaches_signingE:
  assumes "reaches_signing ins log s"
  obtains rv where "session demo_sdk demo_rest log s" "currentInstruction s = int (unat ins)" "screen s = Some rv"
    "rv_callback rv = review_choice_sign"
  using assms by (auto simp: reaches_signing_def)

text \<open>The header, of 60 bytes, is opened with a path that may sign.\<close>

definition opened_under :: "bytes \<Rightarrow> derivation_path \<Rightarrow> bool" where
  "opened_under hdr p \<longleftrightarrow> length hdr = 60 \<and> signing_path p"

lemma opened_under: "header_shown E hdr s \<Longrightarrow> opened_under hdr (global_derivation_path s)"
  by (simp add: opened_under_def header_shown_def)

subsection \<open>Transfers\<close>

definition transfer_packet :: "command \<Rightarrow> u32 list \<Rightarrow> bytes \<Rightarrow> bytes \<Rightarrow> bytes \<Rightarrow> bytes \<Rightarrow> bool" where
  "transfer_packet c ns hdr to amt fee \<longleftrightarrow> cmd_data c = path_bytes ns @ hdr @ [TRANSFER] @ to @ amt @ fee \<and>
     length ns \<le> 8 \<and> length hdr = 60 \<and> length to = 32 \<and> length amt = 8 \<and> length fee = fee_suffix (cmd_p2 c)"

lemma transfer_dispatch:
  assumes E: "platform E" and st: "session E R log s" "enabled (Apdu (Some c)) s" "in_scope (Apdu (Some c))"
    and c: "cmd_cla c = APP_CLA" "cmd_ins c = INS_SIGN_TRANSFER"
  shows "wp (app_step E R (Apdu (Some c)) s) (\<lambda>_ t. awaiting t \<longrightarrow> (\<exists>ns hdr to amt fee. transfer_packet c ns hdr to amt fee \<and>
      used_nodes (global_derivation_path t) = map hardened ns \<and> transfer_asked E t hdr to amt fee (cmd_p2 c))) X"
proof -
  let ?u = "dispatched c s" and ?initial = "currentInstruction s = INSTRUCTION_NONE"
  have wf: "wf_app ?u" "\<not> awaiting ?u"
    using session_holds [OF E st(1)] st(2) by (auto simp: session_inv_def dispatched_def wf_app_def)
  have len: "length (cmd_data c) < 256" using st(3) by simp
  define Q where "Q t \<longleftrightarrow> (awaiting t \<longrightarrow> (\<exists>ns hdr to amt fee. transfer_packet c ns hdr to amt fee \<and>
      used_nodes (global_derivation_path t) = map hardened ns \<and> transfer_asked E t hdr to amt fee (cmd_p2 c)))" for t
  have bare: "Q (?u\<lparr> replies := r \<rparr>)" "Q (?u\<lparr> currentInstruction := i, replies := r \<rparr>)" for r i
    using wf(2) by (auto simp: Q_def awaiting_def)
  have "wp (handle_sign_transfer E c ?u) (\<lambda>_. Q) (refused ?u)"
  proof (rule wp_mono [OF handle_sign_transfer_wp [OF E wf(1) len]], goal_cases)
    case (1 a t)
    then obtain ns hdr to amt fee where "cmd_data c = path_bytes ns @ hdr @ [TRANSFER] @ to @ amt @ fee" "length ns \<le> 8"
      "used_nodes (global_derivation_path t) = map hardened ns" "length fee = fee_suffix (cmd_p2 c)"
      and a: "transfer_asked E t hdr to amt fee (cmd_p2 c)" by blast
    moreover have "length hdr = 60" "length to = 32" "length amt = 8"
      using a by (simp_all add: transfer_asked_def header_shown_def)
    ultimately have "transfer_packet c ns hdr to amt fee" by (simp add: transfer_packet_def)
    then show ?case using \<open>used_nodes _ = _\<close> a unfolding Q_def by blast
  qed
  then have "wp (handle_sign_transfer E c ?u) (\<lambda>_. Q) (\<lambda>e t. status_word e \<and> Q (t\<lparr> global := wiped,
      currentInstruction := INSTRUCTION_NONE, async_reply := False, replies := replies t @ [([], e)] \<rparr>))"
    by (rule wp_mono) (use wf(2) in \<open>auto simp: Q_def refused_def awaiting_def\<close>)
  then have "wp (app_step E R (Apdu (Some c)) s) (\<lambda>_. Q) (\<lambda>_ _. False)"
    unfolding dispatched_step [OF c(1)] using bare c(2)
    by (intro wp_dispatch_guarded) (simp add: apdu_dispatcher_def data_handler_def)
  then show ?thesis unfolding Q_def by (rule wp_mono) simp_all
qed

text \<open>C3: A packet of a transfer that brings up a review consists of a path of at most eight nodes, the header,
  the recipient, the amount and, when P2 asks for it, an estimate of the fees; the review shows the sender, the
  energy limit, the network of that path, the amount and the recipient, and the estimate, which is not signed.  Its
  approval sends the signature over the header, the kind, the recipient and the amount of this packet, with the key
  of this packet's path, each node hardened.\<close>

theorem transfer_signs_what_it_shows:
  assumes "platform E" "session E R log s" "enabled (Apdu (Some c)) s" "in_scope (Apdu (Some c))"
    "cmd_cla c = APP_CLA" "cmd_ins c = INS_SIGN_TRANSFER" "app_step E R (Apdu (Some c)) s = Ret () t" "awaiting t"
  shows "\<exists>ns hdr to amt fee rv. transfer_packet c ns hdr to amt fee \<and>
    used_nodes (global_derivation_path t) = map hardened ns \<and> signing_path (global_derivation_path t) \<and>
    screen t = Some rv \<and> rv_callback rv = review_choice_sign \<and>
    rv_pairs rv = transfer_rows E hdr (global_derivation_path t) to amt None (fee_rows (cmd_p2 c) fee) \<and>
    signs_on_approval E R t (hdr @ [TRANSFER] @ to @ amt)"
proof -
  obtain ns hdr to amt fee where p: "transfer_packet c ns hdr to amt fee"
    "used_nodes (global_derivation_path t) = map hardened ns" and a: "transfer_asked E t hdr to amt fee (cmd_p2 c)"
    using transfer_dispatch [OF assms(1-6)] assms(8) unfolding assms(7) wp.simps by blast
  have s: "signing_path (global_derivation_path t)" using a by (simp add: transfer_asked_def header_shown_def)
  from a obtain rv where "screen t = Some rv" "rv_callback rv = review_choice_sign"
    "rv_pairs rv = transfer_rows E hdr (global_derivation_path t) to amt None (fee_rows (cmd_p2 c) fee)"
    by (auto simp: transfer_asked_def asks_to_sign_def)
  then show ?thesis
    using p s signs_on_approval [OF assms(1)] a unfolding transfer_asked_def by blast
qed

lemma transfer_signs_what_it_shows_witness:
  "\<exists>t ns hdr to amt fee rv. app_step demo_sdk demo_rest (Apdu (Some demo_transfer_packet)) idle_app = Ret () t \<and>
    transfer_packet demo_transfer_packet ns hdr to amt fee \<and>
    used_nodes (global_derivation_path t) = map hardened ns \<and> screen t = Some rv \<and>
    rv_pairs rv = transfer_rows demo_sdk hdr (global_derivation_path t) to amt None (fee_rows 0 fee) \<and>
    signs_on_approval demo_sdk demo_rest t (hdr @ [TRANSFER] @ to @ amt)"
proof -
  obtain t where t: "app_step demo_sdk demo_rest (Apdu (Some demo_transfer_packet)) idle_app = Ret () t" "signing_up t"
    using demo_transfer_step by blast
  then have "awaiting t" by (auto simp: awaiting_def)
  from transfer_signs_what_it_shows [OF demo_platform session_idle _ _ _ _ t(1) this] t(1) show ?thesis
    by (simp add: demo_transfer_packet_def awaiting_def outside_def) blast
qed

text \<open>C4: The review of a transfer with a memo shows in addition the kind and the value of the memo, which
  is the canonical encoding of one CBOR item; the bytes signed are header, recipient, memo length, that
  encoding and amount.\<close>

theorem memo_transfer_signs_what_it_shows:
  assumes "platform E" "session E R log s" "currentInstruction s = int (unat INS_SIGN_TRANSFER_WITH_MEMO)"
    "screen s = Some rv" "rv_callback rv = review_choice_sign"
  shows "\<exists>hdr to len item amt fee. opened_under hdr (global_derivation_path s) \<and> length to = 32 \<and>
    length len = 2 \<and> be_nat len = length (cbor_encode item) \<and> valid_item item \<and> length amt = 8 \<and>
    rv_pairs rv = transfer_rows E hdr (global_derivation_path s) to amt (Some item) fee \<and>
    signs_on_approval E R s (hdr @ [TRANSFER_WITH_MEMO] @ to @ len @ cbor_encode item @ amt)"
proof -
  have "memo_flow E s" and aw: "awaiting s" using signing_session [OF assms] by (simp_all add: flow_of_def)
  then obtain hdr to len item amt fee where "memo_asked E s hdr to len item amt fee"
    unfolding memo_flow_def if_P [OF aw] by blast
  then show ?thesis
    using review_signs [OF assms(1) _ assms(4)] opened_under unfolding memo_asked_def by blast
qed

lemma memo_transfer_signs_what_it_shows_witness:
  "\<exists>s rv hdr to len item amt fee. screen s = Some rv \<and>
    rv_pairs rv = transfer_rows demo_sdk hdr (global_derivation_path s) to amt (Some item) fee \<and>
    signs_on_approval demo_sdk demo_rest s (hdr @ [TRANSFER_WITH_MEMO] @ to @ len @ cbor_encode item @ amt)"
proof -
  obtain s where "reaches_signing INS_SIGN_TRANSFER_WITH_MEMO [] s" using demo_memo by blast
  then obtain rv where s: "session demo_sdk demo_rest [] s" "currentInstruction s = int (unat INS_SIGN_TRANSFER_WITH_MEMO)"
    "screen s = Some rv" "rv_callback rv = review_choice_sign" by (rule reaches_signingE)
  from memo_transfer_signs_what_it_shows [OF demo_platform s] s(3) show ?thesis by blast
qed

text \<open>C5: A transfer with a schedule, with or without a memo, is signed only after the user approved the
  recipient and then each release but the last, one by one and in the order of the payload; the review
  that asks for the signature shows the last release, and the signature is over the header, the recipient,
  the memo, the number of releases and exactly these releases.\<close>

theorem schedule_signs_what_it_showed:
  assumes "platform E" "session E R log s"
    "ins \<in> {INS_SIGN_TRANSFER_WITH_SCHEDULE, INS_SIGN_TRANSFER_WITH_SCHEDULE_AND_MEMO}"
    "currentInstruction s = int (unat ins)" "screen s = Some rv" "rv_callback rv = review_choice_sign"
  shows "\<exists>hdr to m fee rs r. opened_under hdr (global_derivation_path s) \<and> length to = 32 \<and>
    (\<forall>x \<in> set (rs @ [r]). length x = 16) \<and> length (rs @ [r]) < 256 \<and>
    log = schedule_rows E hdr (global_derivation_path s) to (map_option snd m) fee # map release_row rs \<and>
    rv_pairs rv = release_row r \<and>
    signs_on_approval E R s (schedule_prefix hdr to m (length (rs @ [r])) @ concat (rs @ [r]))"
proof -
  have fl: "schedule_flow E log s" and aw: "awaiting s"
    using signing_session [OF assms(1,2,4-6)] assms(3) by (auto simp: flow_of_def)
  have "schedule_release_up E log s rv"
    using fl assms(5,6) unfolding schedule_flow_def if_P [OF aw] by (auto simp: schedule_first_up_def)
  then obtain pre rows rs r where i: "schedule_opened E s pre rows (length (rs @ [r]))"
    "absorbed_releases s pre (rs @ [r])" "log = rows # map release_row rs" "rv_pairs rv = release_row r"
    using assms(6) unfolding schedule_release_up_def by (auto split: if_splits)
  have "asks_to_sign s (pre @ concat (rs @ [r])) (rv_pairs rv)"
    using i(2) assms(5,6) by (simp add: asks_to_sign_def absorbed_releases_def)
  then have "signs_on_approval E R s (pre @ concat (rs @ [r]))" by (rule signs_on_approval [OF assms(1)])
  then show ?thesis
    using i opened_under unfolding schedule_opened_def absorbed_releases_def by blast
qed

lemma schedule_signs_what_it_showed_witness:
  "\<exists>log s rv hdr to m fee rs r. screen s = Some rv \<and>
    log = schedule_rows demo_sdk hdr (global_derivation_path s) to (map_option snd m) fee # map release_row rs \<and>
    rv_pairs rv = release_row r \<and>
    signs_on_approval demo_sdk demo_rest s (schedule_prefix hdr to m (length (rs @ [r])) @ concat (rs @ [r]))"
proof -
  obtain log s where "reaches_signing INS_SIGN_TRANSFER_WITH_SCHEDULE log s" using demo_schedule by blast
  then obtain rv where s: "session demo_sdk demo_rest log s" "currentInstruction s = int (unat INS_SIGN_TRANSFER_WITH_SCHEDULE)"
    "screen s = Some rv" "rv_callback rv = review_choice_sign" by (rule reaches_signingE)
  from schedule_signs_what_it_showed [OF demo_platform s(1) _ s(2-4)] s(3) show ?thesis by blast
qed

text \<open>C16: Data is registered only after the user approved the header, and the review that asks for the
  signature shows the kind and the value of the CBOR item whose canonical encoding is the data signed.\<close>

theorem register_data_signs_what_it_showed:
  assumes "platform E" "session E R log s" "currentInstruction s = int (unat INS_REGISTER_DATA)"
    "screen s = Some rv" "rv_callback rv = review_choice_sign"
  shows "\<exists>hdr len item. opened_under hdr (global_derivation_path s) \<and> length len = 2 \<and>
    be_nat len = length (cbor_encode item) \<and> valid_item item \<and> log = [header_pairs E ''Sender'' hdr (global_derivation_path s)] \<and>
    rv_pairs rv = memo_item_rows ''Data type'' ''Data'' item \<and>
    signs_on_approval E R s (hdr @ [REGISTER_DATA] @ len @ cbor_encode item)"
proof -
  have "register_flow E log s" and aw: "awaiting s" using signing_session [OF assms] by (simp_all add: flow_of_def)
  then obtain hdr len item where "register_asked E log s hdr len item"
    using assms(4,5) unfolding register_flow_def if_P [OF aw] by (auto simp: register_first_up_def)
  then show ?thesis
    using review_signs [OF assms(1) _ assms(4)] opened_under unfolding register_asked_def by blast
qed

lemma register_data_signs_what_it_showed_witness:
  "\<exists>log s rv hdr len item. screen s = Some rv \<and> opened_under hdr (global_derivation_path s) \<and>
    rv_pairs rv = memo_item_rows ''Data type'' ''Data'' item \<and>
    signs_on_approval demo_sdk demo_rest s (hdr @ [REGISTER_DATA] @ len @ cbor_encode item)"
proof -
  obtain log s where "reaches_signing INS_REGISTER_DATA log s" using demo_register by blast
  then obtain rv where s: "session demo_sdk demo_rest log s" "currentInstruction s = int (unat INS_REGISTER_DATA)"
    "screen s = Some rv" "rv_callback rv = review_choice_sign" by (rule reaches_signingE)
  from register_data_signs_what_it_showed [OF demo_platform s] s(3) show ?thesis by blast
qed

text \<open>C13: The review of a module deployment shows the version and the digest of exactly the source whose
  signature its approval sends, however many packets the source came in.\<close>

theorem deploy_module_signs_what_it_shows:
  assumes "platform E" "session E R log s" "currentInstruction s = int (unat INS_DEPLOY_MODULE)"
    "screen s = Some rv" "rv_callback rv = review_choice_sign"
  shows "\<exists>hdr version len src digest. opened_under hdr (global_derivation_path s) \<and> length version = 4 \<and> length len = 4 \<and>
    be_nat len = length src \<and> sdk_hash_final E src = Some digest \<and>
    rv_pairs rv = deploy_rows E hdr (global_derivation_path s) version digest \<and>
    signs_on_approval E R s (hdr @ [DEPLOY_MODULE] @ version @ len @ src)"
proof -
  have "deploy_flow E s" and aw: "awaiting s" using signing_session [OF assms] by (simp_all add: flow_of_def)
  then obtain hdr version len src digest where "deploy_asked E s hdr version len src digest"
    unfolding deploy_flow_def if_P [OF aw] by blast
  then show ?thesis
    using review_signs [OF assms(1) _ assms(4)] opened_under unfolding deploy_asked_def by blast
qed

lemma deploy_module_signs_what_it_shows_witness:
  "\<exists>s rv hdr version len src digest. screen s = Some rv \<and> opened_under hdr (global_derivation_path s) \<and>
    rv_pairs rv = deploy_rows demo_sdk hdr (global_derivation_path s) version digest \<and>
    signs_on_approval demo_sdk demo_rest s (hdr @ [DEPLOY_MODULE] @ version @ len @ src)"
proof -
  obtain s where "reaches_signing INS_DEPLOY_MODULE [] s" using demo_deploy by blast
  then obtain rv where s: "session demo_sdk demo_rest [] s" "currentInstruction s = int (unat INS_DEPLOY_MODULE)"
    "screen s = Some rv" "rv_callback rv = review_choice_sign" by (rule reaches_signingE)
  from deploy_module_signs_what_it_shows [OF demo_platform s] s(3) show ?thesis by blast
qed

text \<open>C12: The review of a contract initialisation shows the amount, the module reference, the name of the
  contract and the digest of name and parameters that its approval signs; a name longer than the screen is
  covered by the digest.\<close>

theorem init_contract_signs_what_it_shows:
  assumes "platform E" "session E R log s" "currentInstruction s = int (unat INS_INIT_CONTRACT)"
    "screen s = Some rv" "rv_callback rv = review_choice_sign"
  shows "\<exists>hdr amt ref nl name pl ps digest. opened_under hdr (global_derivation_path s) \<and> length amt = 8 \<and> length ref = 32 \<and>
    input_bytes nl name pl ps digest E \<and>
    rv_pairs rv = init_rows E hdr (global_derivation_path s) amt ref name digest \<and>
    signs_on_approval E R s (hdr @ [INIT_CONTRACT] @ amt @ ref @ nl @ name @ pl @ ps)"
proof -
  have "init_flow E s" and aw: "awaiting s" using signing_session [OF assms] by (simp_all add: flow_of_def)
  then obtain hdr amt ref nl name pl ps digest where "init_asked E s hdr amt ref nl name pl ps digest"
    unfolding init_flow_def if_P [OF aw] by blast
  then show ?thesis
    using review_signs [OF assms(1) _ assms(4)] opened_under unfolding init_asked_def by blast
qed

lemma init_contract_signs_what_it_shows_witness:
  "\<exists>s rv hdr amt ref nl name pl ps digest. screen s = Some rv \<and> opened_under hdr (global_derivation_path s) \<and>
    rv_pairs rv = init_rows demo_sdk hdr (global_derivation_path s) amt ref name digest \<and>
    signs_on_approval demo_sdk demo_rest s (hdr @ [INIT_CONTRACT] @ amt @ ref @ nl @ name @ pl @ ps)"
proof -
  obtain s where "reaches_signing INS_INIT_CONTRACT [] s" using demo_init by blast
  then obtain rv where s: "session demo_sdk demo_rest [] s" "currentInstruction s = int (unat INS_INIT_CONTRACT)"
    "screen s = Some rv" "rv_callback rv = review_choice_sign" by (rule reaches_signingE)
  from init_contract_signs_what_it_shows [OF demo_platform s] s(3) show ?thesis by blast
qed

text \<open>C11: The review of a contract update shows the amount, index and subindex of the contract, the receive
  name and the digest of name and parameters that its approval signs.\<close>

theorem update_contract_signs_what_it_shows:
  assumes "platform E" "session E R log s" "currentInstruction s = int (unat INS_UPDATE_CONTRACT)"
    "screen s = Some rv" "rv_callback rv = review_choice_sign"
  shows "\<exists>hdr amt idx sub nl name pl ps digest. opened_under hdr (global_derivation_path s) \<and> length amt = 8 \<and> length idx = 8 \<and>
    length sub = 8 \<and> input_bytes nl name pl ps digest E \<and>
    rv_pairs rv = update_rows E hdr (global_derivation_path s) amt idx sub name digest \<and>
    signs_on_approval E R s (hdr @ [UPDATE_CONTRACT] @ amt @ idx @ sub @ nl @ name @ pl @ ps)"
proof -
  have "update_flow E s" and aw: "awaiting s" using signing_session [OF assms] by (simp_all add: flow_of_def)
  then obtain hdr amt idx sub nl name pl ps digest where "update_asked E s hdr amt idx sub nl name pl ps digest"
    unfolding update_flow_def if_P [OF aw] by blast
  then show ?thesis
    using review_signs [OF assms(1) _ assms(4)] opened_under unfolding update_asked_def by blast
qed

lemma update_contract_signs_what_it_shows_witness:
  "\<exists>s rv hdr amt idx sub nl name pl ps digest. screen s = Some rv \<and> opened_under hdr (global_derivation_path s) \<and>
    rv_pairs rv = update_rows demo_sdk hdr (global_derivation_path s) amt idx sub name digest \<and>
    signs_on_approval demo_sdk demo_rest s (hdr @ [UPDATE_CONTRACT] @ amt @ idx @ sub @ nl @ name @ pl @ ps)"
proof -
  obtain s where "reaches_signing INS_UPDATE_CONTRACT [] s" using demo_update by blast
  then obtain rv where s: "session demo_sdk demo_rest [] s" "currentInstruction s = int (unat INS_UPDATE_CONTRACT)"
    "screen s = Some rv" "rv_callback rv = review_choice_sign" by (rule reaches_signingE)
  from update_contract_signs_what_it_shows [OF demo_platform s] s(3) show ?thesis by blast
qed

text \<open>C15: The review of an unshielding shows the amount and the recipient whose signature its approval
  sends; the remaining encrypted amount, the index and the proof are signed as received.\<close>

theorem to_public_signs_what_it_shows:
  assumes "platform E" "session E R log s" "currentInstruction s = int (unat INS_TRANSFER_TO_PUBLIC)"
    "screen s = Some rv" "rv_callback rv = review_choice_sign"
  shows "\<exists>hdr rem amt to idx pf. opened_under hdr (global_derivation_path s) \<and> length rem = 192 \<and> length amt = 8 \<and>
    length to = 32 \<and> length idx = 8 \<and>
    rv_pairs rv = public_rows E hdr (global_derivation_path s) amt to \<and>
    signs_on_approval E R s (hdr @ [TRANSFER_TO_PUBLIC] @ rem @ amt @ to @ idx @ pf)"
proof -
  have "public_flow E s" and aw: "awaiting s" using signing_session [OF assms] by (simp_all add: flow_of_def)
  then obtain hdr rem amt to idx pf where "public_asked E s hdr rem amt to idx pf"
    unfolding public_flow_def if_P [OF aw] by blast
  then show ?thesis
    using review_signs [OF assms(1) _ assms(4)] opened_under unfolding public_asked_def by blast
qed

lemma to_public_signs_what_it_shows_witness:
  "\<exists>s rv hdr rem amt to idx pf. screen s = Some rv \<and> opened_under hdr (global_derivation_path s) \<and>
    rv_pairs rv = public_rows demo_sdk hdr (global_derivation_path s) amt to \<and>
    signs_on_approval demo_sdk demo_rest s (hdr @ [TRANSFER_TO_PUBLIC] @ rem @ amt @ to @ idx @ pf)"
proof -
  obtain s where "reaches_signing INS_TRANSFER_TO_PUBLIC [] s" using demo_to_public by blast
  then obtain rv where s: "session demo_sdk demo_rest [] s" "currentInstruction s = int (unat INS_TRANSFER_TO_PUBLIC)"
    "screen s = Some rv" "rv_callback rv = review_choice_sign" by (rule reaches_signingE)
  from to_public_signs_what_it_shows [OF demo_platform s] s(3) show ?thesis by blast
qed

text \<open>C14: The review of a delegation shows a row for each field the transaction carries, and its approval
  signs the bitmap and exactly these fields.\<close>

theorem delegation_signs_what_it_shows:
  assumes "platform E" "session E R log s" "currentInstruction s = int (unat INS_CONFIGURE_DELEGATION)"
    "screen s = Some rv" "rv_callback rv = review_choice_sign"
  shows "\<exists>hdr bm cap res tgt. opened_under hdr (global_derivation_path s) \<and> deleg_fields bm cap res tgt \<and>
    rv_pairs rv = deleg_rows E hdr (global_derivation_path s) cap res tgt \<and>
    signs_on_approval E R s (hdr @ [CONFIGURE_DELEGATION] @ bm @ cap @ res @ tgt)"
proof -
  have "awaiting s \<longrightarrow> deleg_flow E s" and aw: "awaiting s" using signing_session [OF assms] by (simp_all add: flow_of_def)
  then obtain hdr bm cap res tgt where "deleg_asked E s hdr bm cap res tgt"
    unfolding deleg_flow_def by blast
  then show ?thesis
    using review_signs [OF assms(1) _ assms(4)] opened_under unfolding deleg_asked_def by blast
qed

lemma delegation_signs_what_it_shows_witness:
  "\<exists>s rv hdr bm cap res tgt. screen s = Some rv \<and> opened_under hdr (global_derivation_path s) \<and>
    rv_pairs rv = deleg_rows demo_sdk hdr (global_derivation_path s) cap res tgt \<and>
    signs_on_approval demo_sdk demo_rest s (hdr @ [CONFIGURE_DELEGATION] @ bm @ cap @ res @ tgt)"
proof -
  obtain s where "reaches_signing INS_CONFIGURE_DELEGATION [] s" using demo_delegation by blast
  then obtain rv where s: "session demo_sdk demo_rest [] s" "currentInstruction s = int (unat INS_CONFIGURE_DELEGATION)"
    "screen s = Some rv" "rv_callback rv = review_choice_sign" by (rule reaches_signingE)
  from delegation_signs_what_it_shows [OF demo_platform s] s(3) show ?thesis by blast
qed

end
