(* ===== verification/Exports.thy ===== *)
theory Exports
  imports Signing
begin

text \<open>
  What leaves the device with an approved export, in every session: the keys the review names and no
  others.
\<close>

lemma approval_step:
  assumes "screen s = Some rv"
    "wp (run_callback E (rv_callback rv) True (s\<lparr> screen := None \<rparr>)) Q (\<lambda>_ _. False)"
  shows "\<exists>t. app_step E R (Choice True) s = Ret () t \<and> Q () t"
  using wp_total [OF assms(2)] assms(1) by auto

lemma reaches_exportE:
  assumes "reaches_export ins cb s"
  obtains rv where "session demo_sdk demo_rest [] s" "currentInstruction s = int (unat ins)" "screen s = Some rv"
    "rv_callback rv = cb"
  using assms by (auto simp: reaches_export_def)

text \<open>C21: An approved key export on a legacy path sends exactly the keys of the identity on the review,
  of the kinds the review lists, as seeds or as BLS keys as the review says; only if one of them cannot be
  derived is the answer a status word alone.\<close>

theorem legacy_export_releases_what_it_names:
  assumes "platform E" "session E R log s" "currentInstruction s = int (unat INS_EXPORT_PRIVATE_KEY_LEGACY)"
    "screen s = Some rv" "rv_callback rv = review_export_private_key"
  shows "\<exists>identity both seed. identity AND HARDENED_BIT = 0 \<and> rv_pairs rv = legacy_rows both seed identity \<and>
    (\<exists>t r. app_step E R (Choice True) s = Ret () t \<and> replies t = replies s @ [r] \<and> \<not> claimed t \<and>
      (if \<exists>keys. list_all2 (released E seed identity) (legacy_kinds both) keys
       then \<exists>keys. list_all2 (released E seed identity) (legacy_kinds both) keys \<and> r = (concat keys, SWO_SUCCESS)
       else r = ([], ERROR_FAILED_CX_OPERATION)))"
proof -
  have "legacy_flow E s" "awaiting s" using session_flow [OF assms(1-3)] assms(4,5) by (auto simp: flow_of_def awaiting_def)
  then obtain identity where a: "legacy_asked s identity" by (auto simp: legacy_flow_def)
  let ?both = "ek_exportBoth (export s)" and ?seed = "ek_exportSeed (export s)" and ?s = "s\<lparr> screen := None \<rparr>"
  have wf: "wf_app ?s" using session_holds [OF assms(1,2)] by (simp add: session_inv_def)
  define Q where "Q t \<longleftrightarrow> (\<exists>r. replies t = replies s @ [r] \<and> \<not> claimed t \<and>
      (if \<exists>keys. list_all2 (released E ?seed identity) (legacy_kinds ?both) keys
       then \<exists>keys. list_all2 (released E ?seed identity) (legacy_kinds ?both) keys \<and> r = (concat keys, SWO_SUCCESS)
       else r = ([], ERROR_FAILED_CX_OPERATION)))" for t
  have "wp (ux_run_guarded (exportPrivateKey E) ?s) (\<lambda>_. Q) (\<lambda>_ _. False)"
  proof (rule wp_ux_run_guarded, rule wp_mono [OF export_private_key_wp [OF assms(1) wf, of identity]], goal_cases)
    case (2 x t)
    then show ?case by (auto simp: Q_def)
  next
    case (3 e t)
    then show ?case by (auto simp: Q_def refused_def ended_def claimed_def)
  qed (use a in \<open>auto simp: legacy_asked_def\<close>)
  then have "wp (run_callback E (rv_callback rv) True ?s) (\<lambda>_. Q) (\<lambda>_ _. False)"
    using assms(5) by (simp add: choose_export_legacy_def)
  from approval_step [OF assms(4) this] obtain t where t: "app_step E R (Choice True) s = Ret () t" "Q t" by blast
  have "identity AND HARDENED_BIT = 0" "rv_pairs rv = legacy_rows ?both ?seed identity"
    using a assms(4) by (auto simp: legacy_asked_def)
  then show ?thesis using t unfolding Q_def by blast
qed

text \<open>A BLS key of the identity of the demonstration is sent.\<close>

lemma legacy_export_releases_what_it_names_witness:
  "\<exists>s rv identity both seed. screen s = Some rv \<and> rv_pairs rv = legacy_rows both seed identity \<and>
    (\<exists>t keys. app_step demo_sdk demo_rest (Choice True) s = Ret () t \<and>
      list_all2 (released demo_sdk seed identity) (legacy_kinds both) keys \<and>
      replies t = replies s @ [(concat keys, SWO_SUCCESS)])"
proof -
  obtain s where "reaches_export INS_EXPORT_PRIVATE_KEY_LEGACY review_export_private_key s" using demo_legacy by blast
  then obtain rv where s: "session demo_sdk demo_rest [] s" "currentInstruction s = int (unat INS_EXPORT_PRIVATE_KEY_LEGACY)"
    "screen s = Some rv" "rv_callback rv = review_export_private_key" by (rule reaches_exportE)
  have ex: "\<exists>keys. list_all2 (released demo_sdk seed identity) (legacy_kinds both) keys" for seed identity both
    by (rule demo_legacy_released)
  from legacy_export_releases_what_it_names [OF demo_platform s, unfolded if_P [OF ex]] s(3) show ?thesis by blast
qed

text \<open>C20: An approved key export on the new paths sends the keys of the identity provider, identity,
  account and network on the review: one for each kind that the text of the row of released keys names, in
  the order of that text and each behind its length.  If one of them cannot be derived, the answer is the status
  word alone.  The buffer the keys were derived into is cleared either way.\<close>

theorem new_path_export_releases_what_it_names:
  assumes "platform E" "session E R log s" "currentInstruction s = int (unat INS_EXPORT_PRIVATE_KEY_NEW)"
    "screen s = Some rv" "rv_callback rv = review_export_private_key_new_path"
  shows "valid_request (export s) \<and>
    rv_pairs rv = new_path_rows (ek_newPathPurpose (export s)) (ek_newPathNetwork (export s))
      (ek_newPathIdentityProvider (export s)) (ek_newPathIdentity (export s)) (ek_newPathAccount (export s)) \<and>
    (\<exists>kinds t r. (ascii ''Keys released'', kinds) \<in> set (rv_pairs rv) \<and>
      app_step E R (Choice True) s = Ret () t \<and> replies t = replies s @ [r] \<and> \<not> claimed t \<and>
      ek_outputPrivateKeys (export t) = zeros 195 \<and> export_reply E (export s) kinds r)"
proof -
  have "new_path_flow E s" "awaiting s" using session_flow [OF assms(1-3)] assms(4,5) by (auto simp: flow_of_def awaiting_def)
  then have a: "new_path_asked s" by (simp add: new_path_flow_def)
  let ?s = "s\<lparr> screen := None \<rparr>" and ?kinds = "purpose_kinds (ek_newPathPurpose (export s))"
  have wf: "wf_app ?s" using session_holds [OF assms(1,2)] by (simp add: session_inv_def)
  have v: "valid_request (export ?s)" using a by (simp add: new_path_asked_def)
  have "wp (ux_run_guarded (sendPrivateKeysNewPath E) ?s) (\<lambda>_ t. \<exists>r. replies t = replies s @ [r] \<and> \<not> claimed t \<and>
      ek_outputPrivateKeys (export t) = zeros 195 \<and> export_reply E (export s) ?kinds r) (\<lambda>_ _. False)"
    by (rule wp_ux_run_guarded, rule wp_mono [OF send_new_path_wp [OF assms(1) wf v]]) auto
  then have "wp (run_callback E (rv_callback rv) True ?s) (\<lambda>_ t. \<exists>r. replies t = replies s @ [r] \<and> \<not> claimed t \<and>
      ek_outputPrivateKeys (export t) = zeros 195 \<and> export_reply E (export s) ?kinds r) (\<lambda>_ _. False)"
    using assms(5) by (simp add: choose_export_new_path_def)
  from approval_step [OF assms(4) this] obtain t r where t: "app_step E R (Choice True) s = Ret () t"
    "replies t = replies s @ [r]" "\<not> claimed t" "ek_outputPrivateKeys (export t) = zeros 195" "export_reply E (export s) ?kinds r"
    by blast
  have rows: "rv_pairs rv = new_path_rows (ek_newPathPurpose (export s)) (ek_newPathNetwork (export s))
      (ek_newPathIdentityProvider (export s)) (ek_newPathIdentity (export s)) (ek_newPathAccount (export s))"
    using a assms(4) by (auto simp: new_path_asked_def)
  then have "(ascii ''Keys released'', ?kinds) \<in> set (rv_pairs rv)" by (simp add: new_path_rows_def export_pairs_def)
  then show ?thesis using t rows v by (intro conjI exI [of _ ?kinds] exI [of _ t] exI [of _ r]) simp_all
qed

text \<open>The demonstration asks for the keys of a new identity: three are named and three are sent.\<close>

lemma new_path_export_releases_what_it_names_witness:
  "\<exists>s rv t keys. screen s = Some rv \<and>
    (ascii ''Keys released'', ascii ''IdCredSec, PRF key, blinding'') \<in> set (rv_pairs rv) \<and>
    app_step demo_sdk demo_rest (Choice True) s = Ret () t \<and>
    replies t = replies s @ [(concat (map with_length keys), SWO_SUCCESS)] \<and>
    length keys = 3 \<and> request_released demo_sdk (export s) (ascii ''IdCredSec, PRF key, blinding'') keys"
proof -
  obtain s rv where s: "session demo_sdk demo_rest [] s" "currentInstruction s = int (unat INS_EXPORT_PRIVATE_KEY_NEW)"
    "screen s = Some rv" "rv_callback rv = review_export_private_key_new_path" and p: "ek_newPathPurpose (export s) = 0"
    using demo_new_path by blast
  from new_path_export_releases_what_it_names [OF demo_platform s] obtain kinds t r where r:
    "rv_pairs rv = new_path_rows 0 (ek_newPathNetwork (export s)) (ek_newPathIdentityProvider (export s))
      (ek_newPathIdentity (export s)) (ek_newPathAccount (export s))"
    "(ascii ''Keys released'', kinds) \<in> set (rv_pairs rv)" "app_step demo_sdk demo_rest (Choice True) s = Ret () t"
    "replies t = replies s @ [r]" "export_reply demo_sdk (export s) kinds r"
    unfolding p by blast
  have k: "kinds = ascii ''IdCredSec, PRF key, blinding''"
    using r(1,2) by (auto simp: new_path_rows_def export_pairs_def purpose_kinds_def ascii_def split: if_splits)
  have "\<exists>keys. request_released demo_sdk (export s) kinds keys"
    unfolding request_released_def k named_kinds_values by (rule demo_released) simp
  then obtain keys where keys: "request_released demo_sdk (export s) kinds keys"
    "r = (concat (map with_length keys), SWO_SUCCESS)" using r(5) by (auto simp: export_reply_def split: if_splits)
  moreover have "length keys = 3"
    using keys(1) unfolding request_released_def k named_kinds_values by (auto dest: list_all2_lengthD)
  ultimately show ?thesis using r(2-4) s(3) unfolding k by blast
qed

text \<open>C22: The review of a public key names the identity of the path of the request.  If the key of that path, and
  its signature when one was asked for, can be made, the approval sends the key with its signature and leaves the
  same key on the screen for comparison; if not, and only then, it sends the status word of the failure.\<close>

theorem public_key_review_names_the_key:
  assumes "platform E" "session E R log s" "currentInstruction s = int (unat INS_GET_PUBLIC_KEY)"
    "screen s = Some rv" "rv_callback rv = review_public_key_choice"
  shows "rv_pairs rv = [(ascii ''Identity'', key_label (unharden_derivation_path (global_reviewed_path s)))] \<and>
    (\<exists>t r. app_step E R (Choice True) s = Ret () t \<and> replies t = replies s @ [r] \<and> \<not> claimed t \<and>
      (if \<exists>key sg. key_reply E s key sg
       then \<exists>key sg rv'. key_reply E s key sg \<and> r = (key @ sg, SWO_SUCCESS) \<and> screen t = Some rv' \<and>
          rv_pairs rv' = rv_pairs rv @ [(ascii ''Public key'', hex_pages key)]
       else r = ([], ERROR_FAILED_CX_OPERATION)))"
proof -
  have "key_flow E s" "awaiting s" using session_flow [OF assms(1-3)] assms(4,5) by (auto simp: flow_of_def awaiting_def)
  then have a: "key_asked s" by (simp add: key_flow_def)
  then have rows: "rv_pairs rv = [(ascii ''Identity'', cstr (pk_display (pubkey s)))]"
    using assms(4) by (auto simp: key_asked_def)
  let ?s = "s\<lparr> screen := None \<rparr>"
  have wf: "wf_app ?s" using session_holds [OF assms(1,2)] by (simp add: session_inv_def)
  have k: "key_reply E ?s key sg \<longleftrightarrow> key_reply E s key sg" for key sg by (simp add: key_reply_def)
  define Q where "Q t \<longleftrightarrow> (\<exists>r. replies t = replies s @ [r] \<and> \<not> claimed t \<and>
      (if \<exists>key sg. key_reply E s key sg
       then \<exists>key sg rv'. key_reply E s key sg \<and> r = (key @ sg, SWO_SUCCESS) \<and> screen t = Some rv' \<and>
          rv_pairs rv' = rv_pairs rv @ [(ascii ''Public key'', hex_pages key)]
       else r = ([], ERROR_FAILED_CX_OPERATION)))" for t
  have "wp (ux_run_guarded (send_public_key E True) ?s) (\<lambda>_. Q) (\<lambda>_ _. False)"
  proof (rule wp_ux_run_guarded, rule wp_mono [OF send_public_key_wp [OF assms(1) wf]], goal_cases)
    case (1 a t)
    then show ?case unfolding k rows Q_def by auto blast
  next
    case (2 e t)
    then show ?case unfolding k Q_def by (auto simp: ended_def claimed_def)
  qed
  then have "wp (run_callback E (rv_callback rv) True ?s) (\<lambda>_. Q) (\<lambda>_ _. False)"
    using assms(5) by (simp add: choose_public_key_def)
  from approval_step [OF assms(4) this] show ?thesis
    using a assms(4) unfolding Q_def by (auto simp: key_asked_def)
qed

text \<open>With the demonstration SDK the key is sent, and is then on the screen.\<close>

lemma public_key_review_names_the_key_witness:
  "\<exists>s rv t key rv'. screen s = Some rv \<and>
    rv_pairs rv = [(ascii ''Identity'', key_label (unharden_derivation_path (global_reviewed_path s)))] \<and>
    app_step demo_sdk demo_rest (Choice True) s = Ret () t \<and>
    get_public_key demo_sdk (global_reviewed_path s) = Ok key \<and> replies t = replies s @ [(key, SWO_SUCCESS)] \<and>
    screen t = Some rv' \<and> rv_pairs rv' = rv_pairs rv @ [(ascii ''Public key'', hex_pages key)]"
proof -
  obtain s rv key where s: "session demo_sdk demo_rest [] s" "currentInstruction s = int (unat INS_GET_PUBLIC_KEY)"
    "screen s = Some rv" "rv_callback rv = review_public_key_choice"
    "key_reply demo_sdk s key []" "\<not> pk_signPublicKey (pubkey s)" using demo_public_key by blast
  have u: "key' = key \<and> sg = []" if "key_reply demo_sdk s key' sg" for key' sg
    using that s(5,6) by (simp add: key_reply_def)
  have ex: "\<exists>key sg. key_reply demo_sdk s key sg" using s(5) by blast
  from public_key_review_names_the_key [OF demo_platform s(1-4), unfolded if_P [OF ex]] obtain t key' sg rv' where t:
    "rv_pairs rv = [(ascii ''Identity'', key_label (unharden_derivation_path (global_reviewed_path s)))]"
    "app_step demo_sdk demo_rest (Choice True) s = Ret () t" "key_reply demo_sdk s key' sg"
    "replies t = replies s @ [(key' @ sg, SWO_SUCCESS)]" "screen t = Some rv'"
    "rv_pairs rv' = rv_pairs rv @ [(ascii ''Public key'', hex_pages key')]" by blast
  have "key' = key" "sg = []" using u [OF t(3)] by simp_all
  then have "replies t = replies s @ [(key, SWO_SUCCESS)]" "rv_pairs rv' = rv_pairs rv @ [(ascii ''Public key'', hex_pages key)]"
    using t(4,6) by simp_all
  moreover have "get_public_key demo_sdk (global_reviewed_path s) = Ok key" using s(5) by (simp add: key_reply_def)
  ultimately show ?thesis using t(1,2,5) s(3) by blast
qed

end
