(* ===== verification/StagedSigning.thy ===== *)
theory StagedSigning
  imports Signing
begin

text \<open>
  What you saw is what you sign, for the flows that put a transaction on several screens: the
  configuration of a validator and the information for an identity provider.
\<close>

subsection \<open>Sessions that reach the signature\<close>

lemma demo_bitmap: "be_nat [1, 2] = 258"
  by (simp add: be_nat_def)

lemma demo_baker_run:
  "\<exists>t. handle_sign_configure_baker demo_sdk (app_packet INS_CONFIGURE_BAKER 0 0
        (0 # zeros 60 @ CONFIGURE_BAKER # [1, 2])) True (claimed_app INS_CONFIGURE_BAKER) = Ret () t \<and>
     currentInstruction t = int (unat INS_CONFIGURE_BAKER) \<and> \<not> awaiting t \<and>
     (\<exists>u. handle_sign_configure_baker demo_sdk (app_packet INS_CONFIGURE_BAKER 1 0 [0]) False t = Ret () u \<and>
       (\<exists>rv. screen u = Some rv \<and> rv_callback rv = confirmConfigureBakerStageCallback \<and> confirmConfigureBakerStageCallback \<noteq> review_choice \<and>
       (\<exists>v. run_callback demo_sdk confirmConfigureBakerStageCallback True (u\<lparr> screen := None \<rparr>) = Ret () v \<and>
         currentInstruction v = int (unat INS_CONFIGURE_BAKER) \<and> \<not> awaiting v \<and>
         (\<exists>w. handle_sign_configure_baker demo_sdk (app_packet INS_CONFIGURE_BAKER 6 0 [0]) False v = Ret () w \<and>
           currentInstruction w = int (unat INS_CONFIGURE_BAKER) \<and> signing_up w))))"
  by (simp add: handle_sign_configure_baker_def baker_open_packet_def baker_batch_packet_def baker_suspended_packet_def
      open_account_transaction_def demo_parse_path demo_header demo_defs set_baker_def wiped_def wiped_baker_def
      U2BE_def announce_def first_state_def baker_capital_def baker_restake_def baker_pool_status_def byte_at_def put_def
      startConfigureBakerDisplay_def startConfigureBakerSuspendedDisplay_def awaitConfigureBakerConfirm_def after_batch_def after_url_def
      choose_baker_stage_def ux_run_guarded_def confirmConfigureBakerStage_def baker_review_def baker_header_def hasCommissionRate_def
      demo_screen_defs awaiting_def demo_bitmap)

lemma demo_hex_field:
  "n \<le> length cdata \<Longrightarrow> length dst = 2 * n + 1 \<Longrightarrow> hex_field demo_sdk cdata n dst = Ok (upper_hex (take n cdata) @ [0])"
  by (rule hex_field_Ok [OF platformD(5) [OF demo_platform]])

lemma demo_paginated: "to_paginated_hex (zeros 32) dst = Ok (hex_pages (zeros 32) @ [0])" if "length dst = 68"
  using paginated_key(1) [of "zeros 32" dst] that by simp

lemma demo_pages: "length (hex_pages (zeros 32)) = 67"
  using paginated_key(2) [of "zeros 32" "zeros 68"] by simp

lemma demo_info_run:
  "\<exists>t. handle_sign_public_information_for_ip demo_sdk (app_packet INS_PUBLIC_INFO_FOR_IP 0 0
        (0 # zeros 96 @ [2])) True (claimed_app INS_PUBLIC_INFO_FOR_IP) = Ret () t \<and>
     currentInstruction t = int (unat INS_PUBLIC_INFO_FOR_IP) \<and> \<not> awaiting t \<and>
     (\<exists>u. handle_sign_public_information_for_ip demo_sdk (app_packet INS_PUBLIC_INFO_FOR_IP 1 0 (zeros 34)) False t = Ret () u \<and>
       (\<exists>rv. screen u = Some rv \<and> rv_callback rv = sendSuccessNoIdleCallback \<and> sendSuccessNoIdleCallback \<noteq> review_choice \<and>
       (\<exists>v. run_callback demo_sdk sendSuccessNoIdleCallback True (u\<lparr> screen := None \<rparr>) = Ret () v \<and>
         currentInstruction v = int (unat INS_PUBLIC_INFO_FOR_IP) \<and> \<not> awaiting v \<and>
         (\<exists>w. handle_sign_public_information_for_ip demo_sdk (app_packet INS_PUBLIC_INFO_FOR_IP 1 0 (zeros 34)) False v = Ret () w \<and>
           currentInstruction w = int (unat INS_PUBLIC_INFO_FOR_IP) \<and> \<not> awaiting w \<and>
           (\<exists>x. handle_sign_public_information_for_ip demo_sdk (app_packet INS_PUBLIC_INFO_FOR_IP 2 0 [0]) False w = Ret () x \<and>
             currentInstruction x = int (unat INS_PUBLIC_INFO_FOR_IP) \<and> signing_up x)))))"
  by (simp add: handle_sign_public_information_for_ip_def info_open_packet_def info_key_packet_def info_threshold_packet_def
      demo_parse_path demo_defs change_part_def wiped_def wiped_public_info_def demo_hex_field demo_paginated demo_pages byte_at_def nth_append
      uiReviewPublicInformationForIpDisplay_def uiSignPublicInformationForIpFinalDisplay_def choose_continue_def demo_bin_to_dec
      demo_screen_defs awaiting_def)

lemma demo_baker: "\<exists>log s. reaches_signing INS_CONFIGURE_BAKER log s"
  unfolding reaches_signing_def
  by (rule later_packet [where h = "handle_sign_configure_baker demo_sdk", OF _ _ _ _
       an_approval [OF another_packet [where h = "handle_sign_configure_baker demo_sdk", OF _ _ _ _
       one_packet [where h = "handle_sign_configure_baker demo_sdk", OF _ _ _ _ demo_baker_run]]]])
    (simp_all add: demo_scope)

lemma demo_info: "\<exists>log s. reaches_signing INS_PUBLIC_INFO_FOR_IP log s"
  unfolding reaches_signing_def
  by (rule later_packet [where h = "handle_sign_public_information_for_ip demo_sdk", OF _ _ _ _
       later_packet [where h = "handle_sign_public_information_for_ip demo_sdk", OF _ _ _ _
       an_approval [OF another_packet [where h = "handle_sign_public_information_for_ip demo_sdk", OF _ _ _ _
       one_packet [where h = "handle_sign_public_information_for_ip demo_sdk", OF _ _ _ _ demo_info_run]]]]])
    (simp_all add: demo_scope)

subsection \<open>Configuration of a validator\<close>

text \<open>C6: A validator's configuration is signed only at the end of a run of its protocol: the screens the
  user approved and the one that asks for the signature are, in order, those that the protocol prescribes
  for the bitmap and the bytes that are signed, and the first of them begins with the header.  The protocol
  is that of the handler, which departs from doc/ins_configure_baker.md: nine bits of the bitmap are used, the
  header and the bitmap are a packet of their own, so that every later P1 is one higher than documented, a
  seventh P1 carries the suspension, and the hash of the keys is shown in upper case.\<close>

theorem baker_signs_what_it_showed:
  assumes "platform E" "session E R log s" "currentInstruction s = int (unat INS_CONFIGURE_BAKER)"
    "screen s = Some rv" "rv_callback rv = review_choice_sign"
  shows "\<exists>hdr bm body screens. opened_under hdr (global_derivation_path s) \<and> length bm = 2 \<and>
    baker_trace E (bitmap_of bm) Done body screens \<and>
    log @ [rv_pairs rv] = led_by (header_pairs E ''Sender'' hdr (global_derivation_path s)) screens \<and>
    signs_on_approval E R s (hdr @ [CONFIGURE_BAKER] @ bm @ body)"
proof -
  have "baker_flow E log s" and aw: "awaiting s" using signing_session [OF assms] by (simp_all add: flow_of_def)
  then have "baker_parked E log s" unfolding baker_flow_def if_P [OF aw] by blast
  then obtain hdr bm body screens where a: "baker_at E s hdr bm body screens Done (baker s)"
    and m: "tx_hash s = Some (baker_message hdr bm body)" "log @ [rv_pairs rv] = led_by (baker_lead E s hdr) screens"
    using assms(4,5) unfolding baker_parked_def by (auto split: if_splits)
  have "asks_to_sign s (baker_message hdr bm body) (rv_pairs rv)" using m(1) assms(4,5) by (simp add: asks_to_sign_def)
  then show ?thesis
    using a m(2) opened_under review_signs [OF assms(1) _ assms(4)]
    unfolding baker_at_def baker_lead_def baker_message_def by blast
qed

lemma baker_signs_what_it_showed_witness:
  "\<exists>log s rv hdr bm body screens. screen s = Some rv \<and> baker_trace demo_sdk (bitmap_of bm) Done body screens \<and>
    log @ [rv_pairs rv] = led_by (header_pairs demo_sdk ''Sender'' hdr (global_derivation_path s)) screens \<and>
    signs_on_approval demo_sdk demo_rest s (hdr @ [CONFIGURE_BAKER] @ bm @ body)"
proof -
  obtain log s where "reaches_signing INS_CONFIGURE_BAKER log s" using demo_baker by blast
  then obtain rv where s: "session demo_sdk demo_rest log s" "currentInstruction s = int (unat INS_CONFIGURE_BAKER)"
    "screen s = Some rv" "rv_callback rv = review_choice_sign" by (rule reaches_signingE)
  from baker_signs_what_it_showed [OF demo_platform s] s(3) show ?thesis by blast
qed

text \<open>C7: The context of a validator's configuration implements the protocol: at every moment of a session it
  either waits for its first packet, or a run of the protocol exists with the bytes absorbed so far and the
  screens shown so far, whose next stage is the state of the context, or, while a screen is up, the state
  that the context will resume.  As above, the stages and rows are those of the handler; where
  doc/ins_configure_baker.md differs (the ninth bit, the numbering of the packets, the case of the hash of the
  keys), the handler is what is modelled.\<close>

theorem baker_refines_its_protocol:
  assumes "platform E" "session E R log s" "currentInstruction s = int (unat INS_CONFIGURE_BAKER)"
    "bk_state (baker s) \<notin> {CONFIGURE_BAKER_ZERO, CONFIGURE_BAKER_INITIAL}"
  shows "\<exists>hdr bm body screens st. tx_hash s = Some (hdr @ [CONFIGURE_BAKER] @ bm @ body) \<and>
    baker_trace E (bitmap_of bm) st body screens \<and>
    (if awaiting s
     then bk_state (baker s) = CONFIGURE_BAKER_AWAITING_CONFIRM \<and> bk_pendingState (baker s) = stage_state st \<and>
       (\<exists>rv. screen s = Some rv \<and> log @ [rv_pairs rv] = led_by (header_pairs E ''Sender'' hdr (global_derivation_path s)) screens)
     else bk_state (baker s) = stage_state st \<and> st \<noteq> Done \<and>
       log = led_by (header_pairs E ''Sender'' hdr (global_derivation_path s)) screens)"
proof -
  have f: "baker_flow E log s" using session_flow [OF assms(1-3)] by (simp add: flow_of_def)
  show ?thesis
  proof (cases "awaiting s")
    case True
    then have "baker_parked E log s" using f by (simp add: baker_flow_def)
    then show ?thesis
      unfolding baker_parked_def baker_at_def baker_lead_def baker_message_def if_P [OF True] by blast
  next
    case False
    then have "baker_ready E log s" using f assms(4) by (simp add: baker_flow_def)
    then show ?thesis
      unfolding baker_ready_def baker_at_def baker_lead_def baker_message_def if_not_P [OF False] by blast
  qed
qed

lemma baker_refines_its_protocol_witness:
  "\<exists>log s hdr bm body screens st. tx_hash s = Some (hdr @ [CONFIGURE_BAKER] @ bm @ body) \<and> awaiting s \<and>
    baker_trace demo_sdk (bitmap_of bm) st body screens \<and>
    bk_state (baker s) = CONFIGURE_BAKER_AWAITING_CONFIRM \<and> bk_pendingState (baker s) = stage_state st"
proof -
  obtain log s where r: "reaches_signing INS_CONFIGURE_BAKER log s" using demo_baker by blast
  then obtain rv where s: "session demo_sdk demo_rest log s" "currentInstruction s = int (unat INS_CONFIGURE_BAKER)"
    "screen s = Some rv" "rv_callback rv = review_choice_sign" by (rule reaches_signingE)
  have aw: "awaiting s" using reaches_signing_awaiting [OF r] .
  have "baker_flow demo_sdk log s" using session_flow [OF demo_platform s(1,2)] by (simp add: flow_of_def)
  then have "bk_state (baker s) \<notin> {CONFIGURE_BAKER_ZERO, CONFIGURE_BAKER_INITIAL}"
    using aw by (auto simp: baker_flow_def baker_parked_def)
  from baker_refines_its_protocol [OF demo_platform s(1,2) this, unfolded if_P [OF aw]] aw show ?thesis by blast
qed

text \<open>C24: While a screen of a validator's configuration is up, the context is parked: a packet that the
  host pushes past the user is refused with \<open>ERROR_INVALID_STATE\<close>, absorbs nothing, and ends the flow.\<close>

theorem baker_refuses_pushed_packets:
  assumes "platform E" "session E R log s" "currentInstruction s = int (unat INS_CONFIGURE_BAKER)" "awaiting s"
    "cmd_cla c = APP_CLA" "cmd_ins c = INS_CONFIGURE_BAKER" "cmd_data c \<noteq> []"
  shows "app_step E R (Apdu (Some c)) s = Ret () (s\<lparr> global := wiped, currentInstruction := INSTRUCTION_NONE,
    async_reply := False, replies := replies s @ [([], ERROR_INVALID_STATE)] \<rparr>)"
proof -
  have "baker_parked E log s"
    using session_flow [OF assms(1-3)] assms(4) by (simp add: flow_of_def baker_flow_def)
  then have "bk_state (baker s) = CONFIGURE_BAKER_AWAITING_CONFIRM" by (auto simp: baker_parked_def)
  then show ?thesis
    using assms(3,5-7)
    by (simp add: app_main_step_def apdu_dispatcher_def dispatch_guarded_def data_handler_def
        handle_sign_configure_baker_def Let_def io_send_sw_def io_send_response_def)
qed

lemma baker_refuses_pushed_packets_witness:
  "\<exists>s. awaiting s \<and> app_step demo_sdk demo_rest (Apdu (Some (app_packet INS_CONFIGURE_BAKER 6 0 [1]))) s =
    Ret () (s\<lparr> global := wiped, currentInstruction := INSTRUCTION_NONE,
      async_reply := False, replies := replies s @ [([], ERROR_INVALID_STATE)] \<rparr>)"
proof -
  obtain log s where r: "reaches_signing INS_CONFIGURE_BAKER log s" using demo_baker by blast
  then have "session demo_sdk demo_rest log s" "currentInstruction s = int (unat INS_CONFIGURE_BAKER)"
    by (simp_all add: reaches_signing_def)
  from baker_refuses_pushed_packets [OF demo_platform this reaches_signing_awaiting [OF r]]
  show ?thesis using reaches_signing_awaiting [OF r] by auto
qed

subsection \<open>Information for an identity provider\<close>

text \<open>C17: Information for an identity provider is signed only after the user approved every key but the last,
  the first of them together with the two group elements; the screen that asks for the signature shows the
  last key and the threshold, and the signature is over the elements, the number of keys, the keys in
  this order and the threshold.  Of a key packet the handler shows the first byte as the key type, signs the
  second unseen, and shows the rest as the key; doc/ins_public_info_for_ip.md has the index first and the type
  second, so that a host that follows it has its key index shown as the key type.\<close>

theorem public_info_signs_what_it_showed:
  assumes "platform E" "session E R log s" "currentInstruction s = int (unat INS_PUBLIC_INFO_FOR_IP)"
    "screen s = Some rv" "rv_callback rv = review_choice_sign"
  shows "\<exists>icp cid keys k threshold. signing_path (global_derivation_path s) \<and> length icp = 48 \<and> length cid = 48 \<and>
    (\<forall>x \<in> set (keys @ [k]). is_key x) \<and> length (keys @ [k]) < 256 \<and> log = info_screens icp cid keys \<and>
    rv_pairs rv = info_final_rows icp cid keys k threshold \<and>
    signs_on_approval E R s (icp @ cid @ [of_nat (length (keys @ [k]))] @ concat (keys @ [k]) @ [threshold])"
proof -
  have "info_flow log s" and aw: "awaiting s" using signing_session [OF assms] by (simp_all add: flow_of_def)
  then obtain icp cid n keys k threshold where a: "info_asked log s icp cid n keys k threshold"
    using assms(4,5) unfolding info_flow_def if_P [OF aw] by auto
  then have n: "n = Suc (length keys)" and asks: "asks_to_sign s (info_message icp cid n (keys @ [k]) @ [threshold])
      (info_final_rows icp cid keys k threshold)"
    unfolding info_asked_def by (elim conjE, simp, blast)
  have m: "info_message icp cid n (keys @ [k]) @ [threshold] =
      icp @ cid @ [of_nat (length (keys @ [k]))] @ concat (keys @ [k]) @ [threshold]"
    by (simp add: info_message_def n)
  from a n review_signs [OF assms(1) asks assms(4)] show ?thesis
    unfolding info_asked_def m by (intro exI [of _ icp] exI [of _ cid] exI [of _ keys] exI [of _ k] exI [of _ threshold]) simp
qed

lemma public_info_signs_what_it_showed_witness:
  "\<exists>log s rv icp cid keys k threshold. screen s = Some rv \<and> log = info_screens icp cid keys \<and>
    rv_pairs rv = info_final_rows icp cid keys k threshold \<and>
    signs_on_approval demo_sdk demo_rest s (icp @ cid @ [of_nat (length (keys @ [k]))] @ concat (keys @ [k]) @ [threshold])"
proof -
  obtain log s where "reaches_signing INS_PUBLIC_INFO_FOR_IP log s" using demo_info by blast
  then obtain rv where s: "session demo_sdk demo_rest log s" "currentInstruction s = int (unat INS_PUBLIC_INFO_FOR_IP)"
    "screen s = Some rv" "rv_callback rv = review_choice_sign" by (rule reaches_signingE)
  from public_info_signs_what_it_showed [OF demo_platform s] s(3) show ?thesis by blast
qed

end
