(* ===== verification/CredentialSigning.thy ===== *)
theory CredentialSigning
  imports StagedSigning
begin

text \<open>
  What you saw is what you sign, for the deployment of a credential and for the update of the credentials of
  an account.
\<close>

subsection \<open>Sessions that reach the signature\<close>

text \<open>A context that waits for a packet; the packets below take a credential with one key, one revoker, one
  attribute and no proofs from one state to the next.\<close>

definition waits :: "u8 \<Rightarrow> (signCredentialDeploymentContext \<Rightarrow> bool) \<Rightarrow> app \<Rightarrow> bool" where
  "waits ins P s \<longleftrightarrow> currentInstruction s = int (unat ins) \<and> \<not> awaiting s \<and> (\<exists>b m c. s = at_cred b m c \<and> wf_credential c \<and> P c)"

lemma waits_replied:
  assumes "currentInstruction b = int (unat ins)" "\<not> awaiting b" "wf_credential c" "P c"
  shows "waits ins P ((at_cred b m c)\<lparr> replies := r \<rparr>)"
proof -
  have "(at_cred b m c)\<lparr> replies := r \<rparr> = at_cred (b\<lparr> replies := r \<rparr>) m c" by (simp add: at_part_def)
  moreover have "awaiting ((at_cred b m c)\<lparr> replies := r \<rparr>) = awaiting b" by (simp add: awaiting_def)
  ultimately show ?thesis using assms unfolding waits_def by auto
qed

lemma waitsE:
  assumes "waits ins P s"
  obtains b m c where "s = at_cred b m c" "currentInstruction b = int (unat ins)" "\<not> awaiting b" "wf_credential c" "P c"
  using assms by (auto simp: waits_def)

definition credential_packet :: "u8 \<Rightarrow> u8 \<Rightarrow> u8 \<Rightarrow> bytes \<Rightarrow> (signCredentialDeploymentContext \<Rightarrow> bool) \<Rightarrow> (app \<Rightarrow> bool) \<Rightarrow> bool" where
  "credential_packet ins p1 p2 d P Q \<longleftrightarrow> (\<forall>s. waits ins P s \<longrightarrow>
     (\<exists>t. handle_sign_credential_deployment demo_sdk (app_packet ins p1 p2 d) False s = Ret () t \<and> Q t))"

lemma credential_packetI:
  assumes "\<And>b m c. currentInstruction b = int (unat ins) \<Longrightarrow> \<not> awaiting b \<Longrightarrow> wf_credential c \<Longrightarrow> P c \<Longrightarrow>
    \<exists>t. handle_sign_credential_deployment demo_sdk (app_packet ins p1 p2 d) False (at_cred b m c) = Ret () t \<and> Q t"
  shows "credential_packet ins p1 p2 d P Q"
  using assms unfolding credential_packet_def by (metis waitsE)

lemma demo_hash_part [simp]:
  "off + n \<le> length cdata \<Longrightarrow> hash_data demo_sdk cdata off n (at_cred b m c) =
    Ret () (at_cred b (m @ take n (drop off cdata)) c)"
  by (simp add: hash_data_def update_hash_def update_ctx_def slice_Ok)

lemma demo_cred_key_count:
  "credential_packet ins 10 p2 [1]
     (\<lambda>c. counters c = k \<and> cd_state c = TX_CREDENTIAL_DEPLOYMENT_VERIFICATION_KEYS_LENGTH)
     (waits ins (\<lambda>c. counters c = k \<and> cd_numberOfVerificationKeys c = 1 \<and> cd_state c = TX_CREDENTIAL_DEPLOYMENT_VERIFICATION_KEY))"
  by (rule credential_packetI)
    (simp add: handle_sign_credential_deployment_def cred_key_count_packet_def byte_at_def send_success_no_idle_def
      send_success_result_no_idle_def io_send_response_def waits_replied wf_credential_def)

lemmas demo_packet_defs = handle_sign_credential_deployment_def byte_at_def send_success_no_idle_def Let_def
  send_success_result_no_idle_def io_send_response_def waits_replied

lemma demo_cred_key:
  "credential_packet ins 1 p2 (zeros 34)
     (\<lambda>c. counters c = k \<and> cd_numberOfVerificationKeys c = 1 \<and> cd_state c = TX_CREDENTIAL_DEPLOYMENT_VERIFICATION_KEY)
     (waits ins (\<lambda>c. counters c = k \<and> cd_numberOfVerificationKeys c = 0 \<and> cd_state c = TX_CREDENTIAL_DEPLOYMENT_SIGNATURE_THRESHOLD))"
proof (rule credential_packetI, goal_cases)
  case (1 b m c)
  have pg: "to_paginated_hex (zeros 32) (cd_accountVerificationKey c) = Ok (hex_pages (zeros 32) @ [0])"
    using demo_paginated wf_cred(1) [OF 1(3)] by simp
  have "wf_credential (c\<lparr> cd_accountVerificationKey := hex_pages (zeros 32) @ [0], cd_numberOfVerificationKeys := 0,
      cd_state := TX_CREDENTIAL_DEPLOYMENT_SIGNATURE_THRESHOLD \<rparr>)"
    using 1(3) demo_pages by (simp add: wf_credential_def cbuf_def)
  then show ?case
    using 1 pg by (simp add: demo_packet_defs cred_key_packet_def parseVerificationKey_def slice_Ok update_hash_def update_ctx_def)
qed

text \<open>The four bytes of the provider's index, and what is noted of the buffer they are drawn in.\<close>

definition index_noted :: "bytes \<Rightarrow> (bytes \<Rightarrow> bool) \<Rightarrow> bool" where
  "index_noted ib I \<longleftrightarrow> length ib = 4 \<and> length (dec (be_nat ib)) \<le> 9 \<and>
     (\<forall>old. length old = 9 \<longrightarrow> I (dec (be_nat ib) @ drop (length (dec (be_nat ib))) old))"

abbreviation noted :: "(bytes \<Rightarrow> bool) \<Rightarrow> signCredentialDeploymentContext \<Rightarrow> bool" where
  "noted I c \<equiv> I (cd_identityProviderIndex c) \<and> cd_arIdentity c = upper_hex (zeros 4) @ [0]"

lemma demo_details:
  assumes ib: "index_noted ib I"
  shows "credential_packet ins 2 p2 (zeros 49 @ ib @ [0, 0, 1])
     (\<lambda>c. counters c = k \<and> cd_numberOfVerificationKeys c = 0 \<and> cd_state c = TX_CREDENTIAL_DEPLOYMENT_SIGNATURE_THRESHOLD)
     (waits ins (\<lambda>c. counters c = k \<and> I (cd_identityProviderIndex c) \<and> cd_anonymityRevocationListLength c = 1 \<and> cd_arListHashCtx c \<noteq> None \<and>
       cd_state c = TX_CREDENTIAL_DEPLOYMENT_AR_IDENTITY))"
proof (rule credential_packetI, goal_cases)
  case (1 b m c)
  note i = wf_cred [OF 1(3)] and F = platformD(4) [OF demo_platform] and h = hex_field_Ok [OF platformD(5) [OF demo_platform]]
  have d0: "dec 0 = [48]" "dec (Suc 0) = [49]" by (simp_all add: dec.simps [of 0] dec.simps [of "Suc 0"] digit_def)
  have bd: "bin_to_dec demo_sdk (cd_signatureThreshold c) 0 = Ok (48 # 0 # drop 2 (cd_signatureThreshold c), 2)"
    using bin_to_dec_wp [OF F, of "cd_signatureThreshold c" 0] i(2)
    by (cases "bin_to_dec demo_sdk (cd_signatureThreshold c) 0") (auto simp: d0 numeral_2_eq_2)
  let ?t = "dec (be_nat ib)"
  have l: "length ib = 4" "length ?t \<le> 9" "I (?t @ drop (length ?t) (cd_identityProviderIndex c))"
    using ib i(4) by (simp_all add: index_noted_def)
  have u: "unat (of_nat (be_nat ib) :: u32) = be_nat ib" by (rule unat_be_nat_4 [OF l(1)])
  have nt: "number_to_text demo_sdk (cd_identityProviderIndex c) (ucast (of_nat (be_nat ib) :: u32)) =
      Ok (?t @ drop (length ?t) (cd_identityProviderIndex c), length ?t)"
    using index_text [OF F i(4), of "of_nat (be_nat ib)"] l(2) by (simp add: u)
  let ?d = "48 # ascii '' out of '' @ drop 9 (cd_anonymityRevocationThreshold c)"
  have art: "revocation_threshold demo_sdk 0 (cd_anonymityRevocationThreshold c) = Ok (?d, 9)"
    using revocation_threshold_Ok [OF F i(5), of 0] by (simp add: d0)
  have cnt: "at_offset ?d 9 (\<lambda>d. bin_to_dec demo_sdk d 1) =
      Ok (48 # ascii '' out of '' @ 49 # 0 # drop 11 (cd_anonymityRevocationThreshold c), 2)"
    using revocation_count_Ok [OF F i(5), of 0 1] by (simp add: d0)
  let ?c = "c\<lparr> cd_signatureThreshold := 48 # 0 # drop 2 (cd_signatureThreshold c), cd_regIdCred := upper_hex (zeros 48) @ [0],
    cd_identityProviderIndex := ?t @ drop (length ?t) (cd_identityProviderIndex c), cd_anonymityRevocationListLength := 1,
    cd_arListHashDisplay := zeros 65, cd_arListHashCtx := Some [],
    cd_anonymityRevocationThreshold := 48 # ascii '' out of '' @ 49 # 0 # drop 11 (cd_anonymityRevocationThreshold c),
    cd_state := TX_CREDENTIAL_DEPLOYMENT_AR_IDENTITY \<rparr>"
  have "wf_credential ?c" using 1(3) i l(2) by (simp add: wf_credential_def cbuf_def eval_nat_numeral)
  moreover have "(zeros 49 @ xs) ! 0 = 0" for xs by (simp add: zeros_def nth_append)
  ultimately show ?case
    using 1 bd nt art cnt i l
    by (simp add: demo_packet_defs cred_threshold_packet_def h U4BE_def U2BE_one slice_Ok new_hash_def nth_append)
qed

lemma demo_revoker:
  "credential_packet ins 3 p2 (zeros 100)
     (\<lambda>c. counters c = k \<and> I (cd_identityProviderIndex c) \<and> cd_anonymityRevocationListLength c = 1 \<and>
       cd_arListHashCtx c \<noteq> None \<and> cd_state c = TX_CREDENTIAL_DEPLOYMENT_AR_IDENTITY)
     (waits ins (\<lambda>c. counters c = k \<and> noted I c \<and> cd_state c = TX_CREDENTIAL_DEPLOYMENT_CREDENTIAL_DATES))"
proof (rule credential_packetI, goal_cases)
  case (1 b m c)
  note i = wf_cred [OF 1(3)] and h = hex_field_Ok [OF platformD(5) [OF demo_platform]]
  obtain x where x: "cd_arListHashCtx c = Some x" using 1(4) by blast
  have rb: "revoker_bytes demo_sdk d n (at_cred b m c') = Ret () (at_cred b (m @ take n d) (c'\<lparr> cd_arListHashCtx := Some (y @ take n d) \<rparr>))"
    if "cd_arListHashCtx c' = Some y" "n \<le> length d" for d n m c' y
    using that by (simp add: revoker_bytes_def slice_Ok update_ctx_def)
  have hx: "hex_into demo_sdk e (demo_digest y) (cd_arListHashDisplay c) = Ok (upper_hex (demo_digest y) @ [0])" for e y
    using hex_into_Ok [OF platformD(5) [OF demo_platform], of "demo_digest y" "cd_arListHashDisplay c"] i(8) by simp
  let ?c = "c\<lparr> cd_arIdentity := upper_hex (zeros 4) @ [0], cd_encIdCredPubShare := upper_hex (zeros 96) @ [0],
    cd_arListHashCtx := None, cd_arListHashDisplay := upper_hex (demo_digest (x @ zeros 4 @ zeros 96)) @ [0],
    cd_state := TX_CREDENTIAL_DEPLOYMENT_CREDENTIAL_DATES, cd_anonymityRevocationListLength := 0 \<rparr>"
  have "wf_credential ?c" using 1(3) i by (simp add: wf_credential_def cbuf_def)
  then show ?case
    using 1 i x by (simp add: demo_packet_defs cred_revoker_packet_def h rb hx demo_final)
qed

lemma demo_dates:
  "credential_packet ins 4 p2 (zeros 6 @ [0, 1])
     (\<lambda>c. counters c = k \<and> noted I c \<and> cd_state c = TX_CREDENTIAL_DEPLOYMENT_CREDENTIAL_DATES)
     (waits ins (\<lambda>c. counters c = k \<and> noted I c \<and> cd_attributeListLength c = 1 \<and> cd_state c = TX_CREDENTIAL_DEPLOYMENT_ATTRIBUTE_TAG))"
  by (rule credential_packetI) (simp add: demo_packet_defs cred_dates_packet_def U2BE_one slice_Ok wf_credential_def)

lemma demo_tag:
  "credential_packet ins 5 p2 [0, 1]
     (\<lambda>c. counters c = k \<and> noted I c \<and> cd_attributeListLength c = 1 \<and> cd_state c = TX_CREDENTIAL_DEPLOYMENT_ATTRIBUTE_TAG)
     (waits ins (\<lambda>c. counters c = k \<and> noted I c \<and> cd_attributeListLength c = 1 \<and> cd_attributeValueLength c = 1 \<and>
       cd_state c = TX_CREDENTIAL_DEPLOYMENT_ATTRIBUTE_VALUE))"
proof (rule credential_packetI, goal_cases)
  case (1 b m c)
  obtain nm where nm: "attribute_name_for_tag demo_sdk 0 (cd_attributeName c) = Ok nm" "cbuf 24 nm"
    by (rule attribute_name_Ok [OF platformD(4) [OF demo_platform] wf_cred(9) [OF 1(3)]])
  have "wf_credential (c\<lparr> cd_attributeName := nm, cd_attributeValueLength := 1, cd_state := TX_CREDENTIAL_DEPLOYMENT_ATTRIBUTE_VALUE \<rparr>)"
    using 1(3) nm(2) by (simp add: wf_credential_def)
  then show ?case using 1 nm(1) by (simp add: demo_packet_defs cred_attribute_tag_packet_def)
qed

lemma demo_proof_length:
  "credential_packet ins 7 p2 (zeros 4)
     (\<lambda>c. counters c = k \<and> noted I c \<and> cd_state c = TX_CREDENTIAL_DEPLOYMENT_LENGTH_OF_PROOFS)
     (waits ins (\<lambda>c. counters c = k \<and> noted I c \<and> cd_proofLength c = 0 \<and> cd_state c = TX_CREDENTIAL_DEPLOYMENT_PROOFS))"
  by (rule credential_packetI) (simp add: demo_packet_defs cred_proof_length_packet_def U4BE_def slice_Ok wf_credential_def)

lemma demo_proofs_alone:
  assumes "fst k \<noteq> TX_UPDATE_CREDENTIAL_CREDENTIAL"
  shows "credential_packet ins 8 p2 [0]
     (\<lambda>c. counters c = k \<and> noted I c \<and> cd_proofLength c = 0 \<and> cd_state c = TX_CREDENTIAL_DEPLOYMENT_PROOFS)
     (waits ins (\<lambda>c. counters c = k \<and> noted I c \<and> cd_state c = TX_CREDENTIAL_DEPLOYMENT_NEW_OR_EXISTING))"
proof (rule credential_packetI, goal_cases)
  case (1 b m c)
  have "cd_updateCredentialState c \<noteq> TX_UPDATE_CREDENTIAL_CREDENTIAL" using 1 assms by (auto simp: counters_def)
  then show ?case using 1 by (simp add: demo_packet_defs cred_proofs_packet_def wf_credential_def)
qed

lemma demo_account:
  "credential_packet ins 9 p2 (0 # zeros 8)
     (\<lambda>c. counters c = k \<and> noted I c \<and> cd_state c = TX_CREDENTIAL_DEPLOYMENT_NEW_OR_EXISTING)
     (\<lambda>s. currentInstruction s = int (unat ins) \<and> (\<exists>rv i. screen s = Some rv \<and> rv_callback rv = review_choice_sign \<and> I i \<and>
       (ascii ''Identity provider'', cstr (i @ upper_hex (zeros 4) @ [0])) \<in> set (rv_pairs rv)))"
proof (rule credential_packetI, goal_cases)
  case (1 b m c)
  have d: "drawable (credential_rows c)" "length (credential_rows c) = 6"
    using wf_cred [OF 1(3)] by (simp_all add: credential_rows_def provider_text_def)
  have "rwp (draw_rows (credential_rows c)) (\<lambda>r. r = shown_rows (credential_rows c)) (\<lambda>_. False)" using d(1) by simp
  then have dr: "draw_rows (credential_rows c) = Ok (shown_rows (credential_rows c))"
    by (cases "draw_rows (credential_rows c)") simp_all
  have "(ascii ''Identity provider'', cstr (cd_identityProviderIndex c @ upper_hex (zeros 4) @ [0])) \<in> set (shown_rows (credential_rows c))"
    using 1(4) by (simp add: credential_rows_def provider_text_def)
  then have "\<exists>i. I i \<and> (ascii ''Identity provider'', cstr (i @ upper_hex (zeros 4) @ [0])) \<in> set (shown_rows (credential_rows c))"
    using 1(4) by blast
  then show ?case
    using 1 d(2) dr by (simp add: demo_packet_defs cred_account_packet_def uiSignCredentialDeploymentNewIntroDisplay_def
        uiSignCredentialDeploymentNewDisplay_def demo_screen_defs)
qed

text \<open>The value of the attribute comes up on the screen, and the user approves it.\<close>

definition shows_screen :: "u8 \<Rightarrow> callback \<Rightarrow> (signCredentialDeploymentContext \<Rightarrow> bool) \<Rightarrow> app \<Rightarrow> bool" where
  "shows_screen ins cb P s \<longleftrightarrow> (\<exists>rv. screen s = Some rv \<and> rv_callback rv = cb) \<and> waits ins P (s\<lparr> screen := None \<rparr>)"

lemma shows_screenI:
  assumes "currentInstruction b = int (unat ins)" "wf_credential c" "P c" "rv_callback rv = cb"
  shows "shows_screen ins cb P ((at_cred b m c)\<lparr> screen := Some rv, status_page := x, async_reply := a \<rparr>)"
proof -
  have "(at_cred b m c)\<lparr> screen := Some rv, status_page := x, async_reply := a, screen := None \<rparr> =
      at_cred (b\<lparr> screen := None, status_page := x, async_reply := a \<rparr>) m c" by (simp add: at_part_def)
  then show ?thesis using assms unfolding shows_screen_def waits_def
    by (intro conjI exI [of _ rv] exI [of _ "b\<lparr> screen := None, status_page := x, async_reply := a \<rparr>"] exI [of _ m] exI [of _ c])
      (simp_all add: awaiting_def)
qed

lemma demo_value:
  "credential_packet ins 6 p2 [65]
     (\<lambda>c. counters c = k \<and> noted I c \<and> cd_attributeListLength c = 1 \<and> cd_attributeValueLength c = 1 \<and>
       cd_state c = TX_CREDENTIAL_DEPLOYMENT_ATTRIBUTE_VALUE)
     (shows_screen ins review_credential_attribute (\<lambda>c. counters c = k \<and> noted I c \<and> cd_attributeListLength c = 1 \<and> cd_attributeValueLength c = 1))"
proof (rule credential_packetI, goal_cases)
  case (1 b m c)
  have l: "length (cd_attributeValue c) = 256" "0 \<in> set (cd_attributeName c)" using wf_cred [OF 1(3)] by simp_all
  have p: "put (zeros 256) 0 [65] = Ok (65 # zeros 255)" "put (65 # zeros 255) 1 [0] = Ok (65 # 0 # zeros 254)"
    by (simp_all add: put_def)
  have "wf_credential (c\<lparr> cd_attributeValue := 65 # 0 # zeros 254 \<rparr>)" using 1(3) by (simp add: wf_credential_def cbuf_def)
  then show ?case
    using 1 l p by (simp add: demo_packet_defs cred_attribute_value_packet_def slice_Ok uiSignCredentialDeploymentAttributeDisplay_def
        use_case_defs show_review_def request_async_reply_def lit_def drawn_def shows_screenI)
qed

lemma demo_approval:
  assumes "shows_screen ins review_credential_attribute
    (\<lambda>c. counters c = k \<and> noted I c \<and> cd_attributeListLength c = 1 \<and> cd_attributeValueLength c = 1) s"
  shows "\<exists>t. run_callback demo_sdk review_credential_attribute True (s\<lparr> screen := None \<rparr>) = Ret () t \<and>
    waits ins (\<lambda>c. counters c = k \<and> noted I c \<and> cd_state c = TX_CREDENTIAL_DEPLOYMENT_LENGTH_OF_PROOFS) t"
proof -
  from assms obtain b m c where c: "s\<lparr> screen := None \<rparr> = at_cred b m c" "currentInstruction b = int (unat ins)" "\<not> awaiting b"
    "wf_credential c" "counters c = k" "cd_attributeListLength c = 1" "noted I c" unfolding shows_screen_def by (auto elim: waitsE)
  have "wf_credential (c\<lparr> cd_attributeListLength := 0, cd_state := TX_CREDENTIAL_DEPLOYMENT_LENGTH_OF_PROOFS \<rparr>)"
    using c(4) by (simp add: wf_credential_def)
  then show ?thesis
    unfolding c(1) using c(2-) by (simp add: choose_attribute_def ux_run_guarded_def confirmAttribute_def demo_packet_defs)
qed

text \<open>The chain of packets, for both instructions.\<close>

definition reached :: "(app \<Rightarrow> bool) \<Rightarrow> bool" where
  "reached Q \<longleftrightarrow> (\<exists>log s. session demo_sdk demo_rest log s \<and> Q s)"

lemma reached_packet:
  assumes "reached (waits ins P)" "data_handler demo_sdk demo_rest ins = Some h" "ins \<notin> outside" "d \<noteq> []" "length d < 256"
    "\<And>s. waits ins P s \<Longrightarrow> \<exists>t. h (app_packet ins p1 p2 d) False s = Ret () t \<and> Q t"
  shows "reached Q"
proof -
  obtain log s where s: "session demo_sdk demo_rest log s" "waits ins P s" using assms(1) by (auto simp: reached_def)
  obtain t where t: "h (app_packet ins p1 p2 d) False s = Ret () t" "Q t" using assms(6) [OF s(2)] by blast
  have "session demo_sdk demo_rest log t"
    using next_packet [OF s(1) t(1) assms(2) _ _ assms(4,5,3)] s(2) by (simp add: waits_def)
  then show ?thesis using t(2) unfolding reached_def by blast
qed

lemma reached_approval:
  assumes "reached (shows_screen ins cb P)" "cb \<noteq> review_choice"
    "\<And>s. shows_screen ins cb P s \<Longrightarrow> \<exists>t. run_callback demo_sdk cb True (s\<lparr> screen := None \<rparr>) = Ret () t \<and> Q t"
  shows "reached Q"
proof -
  obtain log s where s: "session demo_sdk demo_rest log s" "shows_screen ins cb P s" using assms(1) by (auto simp: reached_def)
  then obtain rv where "screen s = Some rv" "rv_callback rv = cb" by (auto simp: shows_screen_def)
  with s assms(2) assms(3) [OF s(2)] show ?thesis
    unfolding reached_def by (intro an_approval [where cb = cb]) blast
qed

definition credential_handler :: "u8 \<Rightarrow> u8 \<Rightarrow> updateCredentialState \<times> nat \<times> nat \<Rightarrow> bool" where
  "credential_handler ins p2 k \<longleftrightarrow> (\<exists>h. data_handler demo_sdk demo_rest ins = Some h) \<and> ins \<notin> outside \<and>
     (\<forall>h p1 d s. data_handler demo_sdk demo_rest ins = Some h \<longrightarrow> waits ins (\<lambda>c. counters c = k) s \<longrightarrow>
       h (app_packet ins p1 p2 d) False s = handle_sign_credential_deployment demo_sdk (app_packet ins p1 p2 d) False s)"

lemma credential_step:
  assumes "reached (waits ins P)" "credential_packet ins p1 p2 d P Q" "credential_handler ins p2 k"
    "\<And>c. P c \<Longrightarrow> counters c = k" "d \<noteq> []" "length d < 256"
  shows "reached Q"
proof -
  obtain h where h: "data_handler demo_sdk demo_rest ins = Some h" "ins \<notin> outside" using assms(3) by (auto simp: credential_handler_def)
  show ?thesis
  proof (rule reached_packet [OF assms(1) h assms(5,6)])
    fix s assume w: "waits ins P s"
    then have "waits ins (\<lambda>c. counters c = k) s" using assms(4) by (auto simp: waits_def)
    then have "h (app_packet ins p1 p2 d) False s = handle_sign_credential_deployment demo_sdk (app_packet ins p1 p2 d) False s"
      using assms(3) h unfolding credential_handler_def by blast
    then show "\<exists>t. h (app_packet ins p1 p2 d) False s = Ret () t \<and> Q t"
      using assms(2) w by (simp add: credential_packet_def)
  qed
qed

lemma credential_reviewed:
  assumes h: "credential_handler ins p2 k" and i: "index_noted ib I"
    and r: "reached (waits ins (\<lambda>c. counters c = k \<and> cd_state c = TX_CREDENTIAL_DEPLOYMENT_VERIFICATION_KEYS_LENGTH))"
  shows "reached (shows_screen ins review_credential_attribute
    (\<lambda>c. counters c = k \<and> noted I c \<and> cd_attributeListLength c = 1 \<and> cd_attributeValueLength c = 1))"
proof -
  note step = credential_step [OF _ _ h]
  note 1 = step [OF r demo_cred_key_count]
  note 2 = step [OF 1 demo_cred_key]
  note 3 = step [OF 2 demo_details [OF i]]
  note 4 = step [OF 3 demo_revoker]
  note 5 = step [OF 4 demo_dates]
  note 6 = step [OF 5 demo_tag]
  show ?thesis by (rule step [OF 6 demo_value]) (use i in \<open>simp_all add: index_noted_def\<close>)
qed

lemma credential_proved:
  assumes h: "credential_handler ins p2 k" and i: "index_noted ib I"
    and r: "reached (waits ins (\<lambda>c. counters c = k \<and> cd_state c = TX_CREDENTIAL_DEPLOYMENT_VERIFICATION_KEYS_LENGTH))"
  shows "reached (waits ins (\<lambda>c. counters c = k \<and> noted I c \<and> cd_proofLength c = 0 \<and> cd_state c = TX_CREDENTIAL_DEPLOYMENT_PROOFS))"
proof -
  have "reached (waits ins (\<lambda>c. counters c = k \<and> noted I c \<and> cd_state c = TX_CREDENTIAL_DEPLOYMENT_LENGTH_OF_PROOFS))"
    by (rule reached_approval [OF credential_reviewed [OF h i r]]) (use demo_approval in \<open>simp_all del: run_callback.simps\<close>)
  then show ?thesis by (rule credential_step [OF _ demo_proof_length h]) simp_all
qed

lemma demo_deployment_handler: "credential_handler INS_CREDENTIAL_DEPLOYMENT 0 (TX_UPDATE_CREDENTIAL_INITIAL, 0, 0)"
  by (auto simp: credential_handler_def demo_scope)

lemma demo_deployment_open:
  "reached (waits INS_CREDENTIAL_DEPLOYMENT (\<lambda>c. counters c = (TX_UPDATE_CREDENTIAL_INITIAL, 0, 0) \<and>
     cd_state c = TX_CREDENTIAL_DEPLOYMENT_VERIFICATION_KEYS_LENGTH))"
proof -
  let ?ins = INS_CREDENTIAL_DEPLOYMENT and ?k = "(TX_UPDATE_CREDENTIAL_INITIAL, 0, 0)"
  let ?c = "wiped_credential\<lparr> cd_state := TX_CREDENTIAL_DEPLOYMENT_VERIFICATION_KEYS_LENGTH, cd_showIntro := True \<rparr>"
  let ?b = "(claimed_app ?ins)\<lparr> global_derivation_path := demo_path \<rparr>"
  have wc: "wf_credential wiped_credential" using wf_wiped by (auto simp: wf_context_def wiped_def)
  have st: "handle_sign_credential_deployment demo_sdk (app_packet ?ins 0 0 [0]) True (claimed_app ?ins) =
      Ret () ((at_cred ?b [] ?c)\<lparr> replies := [([], SWO_SUCCESS)] \<rparr>)"
    by (simp add: handle_sign_credential_deployment_def cred_initial_packet_def demo_parse_path [of "[]", simplified] init_tx_hash_def
        claimed_app_def change_part_def at_part_def wiped_def send_success_no_idle_def send_success_result_no_idle_def io_send_response_def demo_final Let_def)
  have "session demo_sdk demo_rest [] ((at_cred ?b [] ?c)\<lparr> replies := [([], SWO_SUCCESS)] \<rparr>)"
    by (rule first_packet [where h = "handle_sign_credential_deployment demo_sdk", OF st]) (simp_all add: demo_scope)
  moreover have "waits ?ins (\<lambda>c. counters c = ?k \<and> cd_state c = TX_CREDENTIAL_DEPLOYMENT_VERIFICATION_KEYS_LENGTH)
      ((at_cred ?b [] ?c)\<lparr> replies := [([], SWO_SUCCESS)] \<rparr>)"
    by (rule waits_replied) (use wc in \<open>simp_all add: claimed_app_def awaiting_def wiped_credential_def wf_credential_def counters_def\<close>)
  ultimately show ?thesis unfolding reached_def by blast
qed

lemma demo_deployment_up:
  assumes "index_noted ib I"
  shows "reached (\<lambda>s. currentInstruction s = int (unat INS_CREDENTIAL_DEPLOYMENT) \<and>
    (\<exists>rv i. screen s = Some rv \<and> rv_callback rv = review_choice_sign \<and> I i \<and>
       (ascii ''Identity provider'', cstr (i @ upper_hex (zeros 4) @ [0])) \<in> set (rv_pairs rv)))"
proof -
  note h = demo_deployment_handler
  note 1 = credential_step [OF credential_proved [OF h assms demo_deployment_open] demo_proofs_alone h]
  show ?thesis by (rule credential_step [OF 1 demo_account h]) simp_all
qed

lemma index_noted_any: "index_noted (zeros 4) (\<lambda>_. True)"
  by (simp add: index_noted_def dec.simps [of 0])

lemma demo_deployment: "\<exists>log s. reaches_signing INS_CREDENTIAL_DEPLOYMENT log s"
  using demo_deployment_up [OF index_noted_any] by (auto simp: reached_def reaches_signing_def)

text \<open>An update that adds one credential and removes one.\<close>

lemma demo_creds_open:
  "reached (shows_screen INS_SIGN_UPDATE_CREDENTIAL sendSuccessNoIdleCallback
     (\<lambda>c. counters c = (TX_UPDATE_CREDENTIAL_CREDENTIAL_INDEX, 1, 0)))"
proof -
  let ?ins = INS_SIGN_UPDATE_CREDENTIAL and ?d = "0 # zeros 60 @ UPDATE_CREDENTIALS # [1]"
  let ?c = "wiped_credential\<lparr> cd_credentialDeploymentCount := 1, cd_updateCredentialState := TX_UPDATE_CREDENTIAL_CREDENTIAL_INDEX \<rparr>"
  let ?b = "(claimed_app ?ins)\<lparr> global_derivation_path := demo_path, global_account_sender := demo_sender \<rparr>"
  have wc: "wf_credential wiped_credential" using wf_wiped by (auto simp: wf_context_def wiped_def)
  let ?m = "zeros 60 @ [UPDATE_CREDENTIALS, 1]"
  have "\<exists>t. handle_sign_update_credential demo_sdk (app_packet ?ins 0 0 ?d) True (claimed_app ?ins) = Ret () t \<and>
      (\<exists>rv. screen t = Some rv \<and> rv_callback rv = sendSuccessNoIdleCallback) \<and>
      t = (at_cred ?b ?m ?c)\<lparr> screen := screen t, status_page := False, async_reply := True \<rparr>"
    by (simp add: handle_sign_update_credential_def creds_initial_packet_def demo_parse_path demo_header demo_defs
        change_part_def at_part_def wiped_def wiped_credential_def byte_at_def
        uiSignUpdateCredentialInitialDisplay_def demo_screen_defs)
  then obtain t rv where "handle_sign_update_credential demo_sdk (app_packet ?ins 0 0 ?d) True (claimed_app ?ins) = Ret () t"
    "screen t = Some rv" "t = (at_cred ?b ?m ?c)\<lparr> screen := screen t, status_page := False, async_reply := True \<rparr>"
    and rv: "rv_callback rv = sendSuccessNoIdleCallback" by blast
  then have st:
    "handle_sign_update_credential demo_sdk (app_packet ?ins 0 0 ?d) True (claimed_app ?ins) =
      Ret () ((at_cred ?b (zeros 60 @ [UPDATE_CREDENTIALS, 1]) ?c)\<lparr> screen := Some rv, status_page := False, async_reply := True \<rparr>)" by simp
  have "session demo_sdk demo_rest [] ((at_cred ?b (zeros 60 @ [UPDATE_CREDENTIALS, 1]) ?c)\<lparr> screen := Some rv, status_page := False, async_reply := True \<rparr>)"
    by (rule first_packet [where h = "handle_sign_update_credential demo_sdk", OF st]) (simp_all add: demo_scope)
  moreover have "shows_screen ?ins sendSuccessNoIdleCallback (\<lambda>c. counters c = (TX_UPDATE_CREDENTIAL_CREDENTIAL_INDEX, 1, 0))
      ((at_cred ?b (zeros 60 @ [UPDATE_CREDENTIALS, 1]) ?c)\<lparr> screen := Some rv, status_page := False, async_reply := True \<rparr>)"
    by (rule shows_screenI) (use wc rv in \<open>simp_all add: claimed_app_def wf_credential_def counters_def wiped_credential_def\<close>)
  ultimately show ?thesis unfolding reached_def by blast
qed

lemma demo_continue:
  assumes "shows_screen ins sendSuccessNoIdleCallback P s"
  shows "\<exists>t. run_callback demo_sdk sendSuccessNoIdleCallback True (s\<lparr> screen := None \<rparr>) = Ret () t \<and> waits ins P t"
proof -
  from assms obtain b m c where c: "s\<lparr> screen := None \<rparr> = at_cred b m c" "currentInstruction b = int (unat ins)" "\<not> awaiting b"
    "wf_credential c" "P c" unfolding shows_screen_def by (auto elim: waitsE)
  then show ?thesis unfolding c(1) using c(2-) by (simp add: choose_continue_def demo_packet_defs)
qed

lemma demo_creds_packet:
  assumes "reached (waits INS_SIGN_UPDATE_CREDENTIAL P)" "d \<noteq> []" "length d < 256"
    "\<And>b m c. currentInstruction b = int (unat INS_SIGN_UPDATE_CREDENTIAL) \<Longrightarrow> \<not> awaiting b \<Longrightarrow> wf_credential c \<Longrightarrow> P c \<Longrightarrow>
      \<exists>t. handle_sign_update_credential demo_sdk (app_packet INS_SIGN_UPDATE_CREDENTIAL 0 p2 d) False (at_cred b m c) = Ret () t \<and> Q t"
  shows "reached Q"
  by (rule reached_packet [where h = "handle_sign_update_credential demo_sdk", OF assms(1)])
    (use assms(2-4) in \<open>auto simp: demo_scope elim!: waitsE\<close>)

lemma demo_creds_index:
  "reached (waits INS_SIGN_UPDATE_CREDENTIAL (\<lambda>c. counters c = (TX_UPDATE_CREDENTIAL_CREDENTIAL, 1, 0) \<and>
     cd_state c = TX_CREDENTIAL_DEPLOYMENT_VERIFICATION_KEYS_LENGTH))"
proof -
  have "reached (waits INS_SIGN_UPDATE_CREDENTIAL (\<lambda>c. counters c = (TX_UPDATE_CREDENTIAL_CREDENTIAL_INDEX, 1, 0)))"
    by (rule reached_approval [OF demo_creds_open]) (use demo_continue in \<open>simp_all del: run_callback.simps\<close>)
  then show ?thesis
    by (rule demo_creds_packet [where d = "[0]" and ?p2.0 = 1])
      (auto simp: handle_sign_update_credential_def creds_index_packet_def demo_packet_defs wf_credential_def counters_def)
qed

lemma demo_added:
  "credential_packet ins 8 2 [0]
     (\<lambda>c. counters c = (TX_UPDATE_CREDENTIAL_CREDENTIAL, 1, 0) \<and> noted (\<lambda>_. True) c \<and> cd_proofLength c = 0 \<and> cd_state c = TX_CREDENTIAL_DEPLOYMENT_PROOFS)
     (shows_screen ins review_added_credential (\<lambda>c. counters c = (TX_UPDATE_CREDENTIAL_CREDENTIAL, 1, 0)))"
proof (rule credential_packetI, goal_cases)
  case (1 b m c)
  have i: "0 \<in> set (provider_text c)" using wf_cred [OF 1(3)] by (simp add: provider_text_def)
  have u: "cd_updateCredentialState c = TX_UPDATE_CREDENTIAL_CREDENTIAL" "cd_credentialDeploymentCount c = 1"
    using 1(4) by (simp_all add: counters_def)
  show ?case
    using 1 u i wf_cred [OF 1(3)] by (simp add: demo_packet_defs cred_proofs_packet_def uiSignUpdateCredentialAddedCredentialDisplay_def
        use_case_defs show_review_def request_async_reply_def lit_def drawn_def shows_screenI)
qed

lemma demo_creds: "\<exists>log s. reaches_signing INS_SIGN_UPDATE_CREDENTIAL log s"
proof -
  let ?ins = INS_SIGN_UPDATE_CREDENTIAL and ?k = "(TX_UPDATE_CREDENTIAL_CREDENTIAL, 1, 0)"
  have h: "credential_handler ?ins 2 ?k"
    by (auto simp: credential_handler_def demo_scope handle_sign_update_credential_def counters_def elim!: waitsE)
  note 1 = credential_step [OF credential_proved [OF h index_noted_any demo_creds_index] demo_added h]
  have 2: "reached (waits ?ins (\<lambda>c. counters c = (TX_UPDATE_CREDENTIAL_ID_COUNT, 0, 0)))"
  proof (rule reached_approval [OF 1])
    fix s assume "shows_screen ?ins review_added_credential (\<lambda>c. counters c = ?k) s"
    then obtain b m c where c: "s\<lparr> screen := None \<rparr> = at_cred b m c" "currentInstruction b = int (unat ?ins)" "\<not> awaiting b"
      "wf_credential c" "counters c = ?k" unfolding shows_screen_def by (auto elim: waitsE)
    have "wf_credential (c\<lparr> cd_credentialDeploymentCount := 0, cd_updateCredentialState := TX_UPDATE_CREDENTIAL_ID_COUNT,
        cd_state := CREDENTIAL_DEPLOYMENT_ZERO \<rparr>)" using c(4) by (simp add: wf_credential_def)
    then show "\<exists>t. run_callback demo_sdk review_added_credential True (s\<lparr> screen := None \<rparr>) = Ret () t \<and>
        waits ?ins (\<lambda>c. counters c = (TX_UPDATE_CREDENTIAL_ID_COUNT, 0, 0)) t"
      unfolding c(1) using c(2-)
      by (simp add: choose_added_credential_def ux_run_guarded_def confirmAddedCredential_def demo_packet_defs counters_def)
  qed simp_all
  have 3: "reached (waits ?ins (\<lambda>c. counters c = (TX_UPDATE_CREDENTIAL_ID, 0, 1)))"
    by (rule demo_creds_packet [OF 2, where d = "[1]" and ?p2.0 = 3])
      (auto simp: handle_sign_update_credential_def creds_id_count_packet_def demo_packet_defs wf_credential_def counters_def)
  have 4: "reached (shows_screen ?ins sendSuccessNoIdleCallback (\<lambda>c. counters c = (TX_UPDATE_CREDENTIAL_THRESHOLD, 0, 0)))"
  proof (rule demo_creds_packet [OF 3, where d = "zeros 48" and ?p2.0 = 4], goal_cases)
    case (3 b m c)
    have l: "length (hex_pages (zeros 48)) = 101"
      using length_hex_from [of "zeros 48" 0] by (simp add: hex_from_pages)
    let ?d = "hex_pages (zeros 48) @ 0 # drop (length (hex_pages (zeros 48)) + 1) (cd_credentialId c)"
    have tx: "to_paginated_hex (zeros 48) (cd_credentialId c) = Ok ?d"
      by (rule to_paginated_hex_Ok) (use wf_cred [OF 3(3)] in simp_all)
    have "wf_credential (c\<lparr> cd_credentialId := ?d, cd_credentialIdCount := 0, cd_updateCredentialState := TX_UPDATE_CREDENTIAL_THRESHOLD \<rparr>)"
      using 3(3) wf_cred [OF 3(3)] l by (simp add: wf_credential_def cbuf_def)
    then show ?case
      using 3 tx by (simp add: handle_sign_update_credential_def creds_id_packet_def demo_packet_defs counters_def slice_Ok
          uiSignUpdateCredentialIdDisplay_def use_case_defs show_review_def request_async_reply_def lit_def drawn_def shows_screenI)
  qed simp_all
  have 5: "reached (waits ?ins (\<lambda>c. counters c = (TX_UPDATE_CREDENTIAL_THRESHOLD, 0, 0)))"
    by (rule reached_approval [OF 4]) (use demo_continue in \<open>simp_all del: run_callback.simps\<close>)
  have "reached (\<lambda>s. currentInstruction s = int (unat ?ins) \<and> signing_up s)"
  proof (rule demo_creds_packet [OF 5, where d = "[0]" and ?p2.0 = 5], goal_cases)
    case (3 b m c)
    have bd: "bin_to_dec demo_sdk (cd_threshold c) 0 = Ok (48 # 0 # drop 2 (cd_threshold c), 2)"
      using bin_to_dec_wp [OF platformD(4) [OF demo_platform], of "cd_threshold c" 0] wf_cred(12) [OF 3(3)]
      by (cases "bin_to_dec demo_sdk (cd_threshold c) 0") (auto simp: dec.simps [of 0] digit_def numeral_2_eq_2)
    then show ?case
      using 3 by (simp add: handle_sign_update_credential_def creds_threshold_packet_def demo_packet_defs counters_def
          uiSignUpdateCredentialThresholdDisplay_def use_case_defs show_review_def request_async_reply_def lit_def drawn_def)
  qed simp_all
  then show ?thesis by (auto simp: reached_def reaches_signing_def)
qed

subsection \<open>Deployment of a credential\<close>

text \<open>C18: A credential is signed for deployment only after the user approved every key but the last and every
  attribute, each on its own screen; the screen that asks for the signature shows the last key, the
  thresholds, the registration id, the digest of the revokers and the account.  The identity provider
  is shown exactly if its index has at most eight digits.\<close>

theorem deployment_signs_what_it_showed:
  assumes "platform E" "session E R log s" "currentInstruction s = int (unat INS_CREDENTIAL_DEPLOYMENT)"
    "screen s = Some rv" "rv_callback rv = review_choice_sign"
  shows "\<exists>p provider acc. signing_path (global_derivation_path s) \<and> proving True p 0 \<and> account_ok E acc \<and>
    log = credential_screens p \<and> rv_pairs rv = deployment_rows E p provider acc \<and>
    (\<exists>tail. provider = dec (provider_index (p_details p)) @ tail \<and> (provider_index (p_details p) < 10 ^ 8 \<longrightarrow> tail = [])) \<and>
    signs_on_approval E R s (credential_bytes p @ account_bytes acc)"
proof -
  have "deployment_flow E log s" and aw: "awaiting s" using signing_session [OF assms] by (simp_all add: flow_of_def)
  moreover have "\<not> deployment_up E log s"
    using assms(4,5) cred_up_callback by (fastforce simp: deployment_up_def)
  ultimately obtain p provider acc where a: "deployment_asked E log s p provider acc"
    unfolding deployment_flow_def if_P [OF aw] by blast
  then have asks: "asks_to_sign s (credential_bytes p @ account_bytes acc) (deployment_rows E p provider acc)"
    by (simp add: deployment_asked_def)
  from a review_signs [OF assms(1) asks assms(4)] show ?thesis
    unfolding deployment_asked_def provider_alone
    by (intro exI [of _ p] exI [of _ provider] exI [of _ acc]) (simp add: provider_tail_def)
qed

lemma deployment_signs_what_it_showed_witness:
  "\<exists>log s rv p provider acc. screen s = Some rv \<and> proving True p 0 \<and> log = credential_screens p \<and>
    rv_pairs rv = deployment_rows demo_sdk p provider acc \<and>
    signs_on_approval demo_sdk demo_rest s (credential_bytes p @ account_bytes acc)"
proof -
  obtain log s where "reaches_signing INS_CREDENTIAL_DEPLOYMENT log s" using demo_deployment by blast
  then obtain rv where s: "session demo_sdk demo_rest log s" "currentInstruction s = int (unat INS_CREDENTIAL_DEPLOYMENT)"
    "screen s = Some rv" "rv_callback rv = review_choice_sign" by (rule reaches_signingE)
  from deployment_signs_what_it_showed [OF demo_platform s] s(3) show ?thesis by blast
qed

text \<open>C25: The screen of a revealed attribute does not park the context: a value that the host pushes past
  the user is absorbed behind the first one and takes its place on the screen, so that a single approval
  leaves two values in what is signed.\<close>

theorem attribute_review_takes_another_value:
  assumes "platform E" "session E R log s" "currentInstruction s = int (unat INS_CREDENTIAL_DEPLOYMENT)"
    "screen s = Some rv" "rv_callback rv = review_credential_attribute"
    "\<forall>m d. sdk_hash_update E m d" "length v = cd_attributeValueLength (cred s)" "v \<noteq> []"
    "\<forall>b \<in> set v. \<not> b < 0x20 \<and> b \<noteq> 0x7f"
  shows "\<exists>m t up. tx_hash s = Some m \<and>
    app_step E R (Apdu (Some (app_packet INS_CREDENTIAL_DEPLOYMENT 6 p2 v))) s = Ret () t \<and>
    replies t = replies s \<and> tx_hash t = Some (m @ v) \<and> screen t = Some up \<and>
    rv_callback up = review_credential_attribute \<and> map snd (rv_pairs up) = [v]"
proof -
  have aw: "awaiting s" using assms(4,5) by (simp add: awaiting_def)
  have "deployment_flow E log s" using session_flow [OF assms(1-3)] by (simp add: flow_of_def)
  then obtain p where p: "deploying s p" "cred_up E True (cred s) p rv"
    unfolding deployment_flow_def if_P [OF aw] using assms(4,5)
    by (auto simp: deployment_up_def deployment_asked_def asks_to_sign_def)
  then have up: "cd_state (cred s) = TX_CREDENTIAL_DEPLOYMENT_ATTRIBUTE_VALUE" "dated p (cd_attributeListLength (cred s) - 1)"
      "p_attributes p \<noteq> []" "cd_attributeValueLength (cred s) = length (drop 2 (last (p_attributes p)))"
    using assms(5) by (auto simp: cred_up_def key_on_screen_def attribute_on_screen_def)
  have w: "wf_app s" using session_holds [OF assms(1,2)] by (simp add: session_inv_def)
  have "is_attribute (last (p_attributes p))" using up(2,3) by (simp add: dated_def)
  then have n: "length v < 256" using assms(7) up(4) unat_bounds(1) by (simp add: is_attribute_def)
  let ?c = "cred s" and ?m = "credential_bytes p"
  have self: "at_cred s ?m ?c = s" using p(1) cred.self by (simp add: deploying_def)
  have clean: "\<not> (\<exists>b \<in> set (take (cd_attributeValueLength ?c) v). b < 0x20 \<or> b = 0x7f)" using assms(7,9) by auto
  have z: "0 \<notin> set v" using assms(9) by auto
  define buf where "buf = v @ 0 # zeros (255 - length v)"
  have l: "length (cd_attributeValue ?c) = 256" "0 \<in> set (cd_attributeName ?c)"
    using wf_cred [OF cred.wf_member [OF w]] by simp_all
  have pt: "rbind (put (zeros 256) 0 v) (\<lambda>d. put d (length v) [0]) = Ok buf"
    using n put_zeros [of v 256] put_append [of "[0]" "zeros (256 - length v)" v] by (simp add: drop_zeros buf_def del: rwp_put)
  have pt': "rwp (rbind (put (zeros 256) 0 v) (\<lambda>d. put d (length v) [0])) P X = P buf" for P X by (simp only: pt rwp.simps)
  have cs: "cstr buf = v" "0 \<in> set buf" unfolding buf_def by (rule cstr_NUL [OF z]) simp
  have "wp (handle_sign_credential_deployment E (app_packet INS_CREDENTIAL_DEPLOYMENT 6 p2 v) False (at_cred s ?m ?c))
    (\<lambda>_ t. replies t = replies s \<and> tx_hash t = Some (?m @ v) \<and>
      (\<exists>up. screen t = Some up \<and> rv_callback up = review_credential_attribute \<and> map snd (rv_pairs up) = [v])) (\<lambda>_ _. False)"
    using up(1) assms(6) l pt' cs clean
    by (simp add: handle_sign_credential_deployment_def Let_def cred_attribute_value_packet_def
        uiSignCredentialDeploymentAttributeDisplay_def use_case_defs request_async_reply_def assms(7) [symmetric] del: rwp_put rwp_bind)
  from wp_total [OF this, unfolded self] obtain t where t:
    "handle_sign_credential_deployment E (app_packet INS_CREDENTIAL_DEPLOYMENT 6 p2 v) False s = Ret () t"
    "replies t = replies s" "tx_hash t = Some (?m @ v)"
    "\<exists>up. screen t = Some up \<and> rv_callback up = review_credential_attribute \<and> map snd (rv_pairs up) = [v]" by auto
  have "app_step E R (Apdu (Some (app_packet INS_CREDENTIAL_DEPLOYMENT 6 p2 v))) s = Ret () t"
    using t(1) assms(3,8) by (simp add: app_main_step_def apdu_dispatcher_def dispatch_guarded_def data_handler_def)
  then show ?thesis using t(2-) p(1) by (auto simp: deploying_def)
qed

lemma attribute_review_takes_another_value_witness:
  "\<exists>log s rv m t up. session demo_sdk demo_rest log s \<and> screen s = Some rv \<and> rv_callback rv = review_credential_attribute \<and>
    tx_hash s = Some m \<and>
    app_step demo_sdk demo_rest (Apdu (Some (app_packet INS_CREDENTIAL_DEPLOYMENT 6 0 [66]))) s = Ret () t \<and>
    replies t = replies s \<and> tx_hash t = Some (m @ [66]) \<and> screen t = Some up \<and> map snd (rv_pairs up) = [[66]]"
proof -
  obtain log s where s: "session demo_sdk demo_rest log s" "shows_screen INS_CREDENTIAL_DEPLOYMENT review_credential_attribute
      (\<lambda>c. counters c = (TX_UPDATE_CREDENTIAL_INITIAL, 0, 0) \<and> noted (\<lambda>_. True) c \<and> cd_attributeListLength c = 1 \<and> cd_attributeValueLength c = 1) s"
    using credential_reviewed [OF demo_deployment_handler index_noted_any demo_deployment_open] by (auto simp: reached_def)
  then obtain rv where rv: "screen s = Some rv" "rv_callback rv = review_credential_attribute"
    and w: "waits INS_CREDENTIAL_DEPLOYMENT (\<lambda>c. cd_attributeValueLength c = 1) (s\<lparr> screen := None \<rparr>)"
    by (auto simp: shows_screen_def waits_def)
  have i: "currentInstruction s = int (unat INS_CREDENTIAL_DEPLOYMENT)" using w by (simp add: waits_def)
  obtain b m c where c: "s\<lparr> screen := None \<rparr> = at_cred b m c" "cd_attributeValueLength c = 1" using w by (rule waitsE)
  have "cred (s\<lparr> screen := None \<rparr>) = c" unfolding c(1) by simp
  then have "cd_attributeValueLength (cred s) = 1" using c(2) by simp
  then have l: "length [66 :: u8] = cd_attributeValueLength (cred s)" by simp
  have h: "\<forall>m d. sdk_hash_update demo_sdk m d" by simp
  have ok: "[66 :: u8] \<noteq> []" "\<forall>b \<in> set [66 :: u8]. \<not> b < 0x20 \<and> b \<noteq> 0x7f" by simp_all
  from attribute_review_takes_another_value [OF demo_platform s(1) i rv h l ok, of 0]
  obtain m t up where "tx_hash s = Some m" "app_step demo_sdk demo_rest (Apdu (Some (app_packet INS_CREDENTIAL_DEPLOYMENT 6 0 [66]))) s = Ret () t"
    "replies t = replies s" "tx_hash t = Some (m @ [66])" "screen t = Some up" "map snd (rv_pairs up) = [[66]]"
    by (elim exE conjE) (rule that; assumption)
  then show ?thesis using s(1) rv by metis
qed

subsection \<open>Update of the credentials of an account\<close>

text \<open>C19: An update is signed only after the user approved the header, for each added credential its keys
  and attributes and then its summary, and each id that is removed; the screen that asks for the signature
  shows the new threshold, and the signature is over all of these, in this order.\<close>

theorem creds_signs_what_it_showed:
  assumes "platform E" "session E R log s" "currentInstruction s = int (unat INS_SIGN_UPDATE_CREDENTIAL)"
    "screen s = Some rv" "rv_callback rv = review_choice_sign"
  shows "\<exists>hdr creds ids threshold. opened_under hdr (global_derivation_path s) \<and> (\<forall>x \<in> set creds. is_added E x) \<and>
    (\<forall>i \<in> set ids. length i = 48) \<and> length creds < 256 \<and> length ids < 256 \<and>
    log = creds_screens E s hdr creds @ map id_screen ids \<and>
    rv_pairs rv = [(ascii ''Threshold'', dec (unat threshold))] \<and>
    signs_on_approval E R s (creds_bytes hdr (length creds) creds @ [of_nat (length ids)] @ concat ids @ [threshold])"
proof -
  have "creds_flow E log s" and aw: "awaiting s" using signing_session [OF assms] by (simp_all add: flow_of_def)
  moreover have "\<not> creds_parsing E log s rv hdr n creds i p" for hdr n creds i p
    using assms(5) cred_up_callback [of E False "cred s" p rv] by (auto simp: creds_parsing_def added_on_screen_def)
  ultimately obtain hdr creds ids threshold where a: "creds_asked E log s hdr creds ids threshold"
    unfolding creds_flow_def if_P [OF aw] using assms(4,5) by auto
  then have asks: "asks_to_sign s (creds_bytes hdr (length creds) creds @ [of_nat (length ids)] @ concat ids @ [threshold])
      [(ascii ''Threshold'', dec (unat threshold))]" by (simp add: creds_asked_def)
  from a opened_under review_signs [OF assms(1) asks assms(4)] show ?thesis
    unfolding creds_asked_def by (intro exI [of _ hdr] exI [of _ creds] exI [of _ ids] exI [of _ threshold]) blast
qed

lemma creds_signs_what_it_showed_witness:
  "\<exists>log s rv hdr creds ids threshold. screen s = Some rv \<and> (\<forall>x \<in> set creds. is_added demo_sdk x) \<and>
    log = creds_screens demo_sdk s hdr creds @ map id_screen ids \<and> rv_pairs rv = [(ascii ''Threshold'', dec (unat threshold))] \<and>
    signs_on_approval demo_sdk demo_rest s (creds_bytes hdr (length creds) creds @ [of_nat (length ids)] @ concat ids @ [threshold])"
proof -
  obtain log s where "reaches_signing INS_SIGN_UPDATE_CREDENTIAL log s" using demo_creds by blast
  then obtain rv where s: "session demo_sdk demo_rest log s" "currentInstruction s = int (unat INS_SIGN_UPDATE_CREDENTIAL)"
    "screen s = Some rv" "rv_callback rv = review_choice_sign" by (rule reaches_signingE)
  from creds_signs_what_it_showed [OF demo_platform s] s(3) show ?thesis by blast
qed

text \<open>C26: The row of the identity provider on the review of a deployment is the index that is signed, and nothing
  else, only below one hundred million.  Nine digits fill their buffer, which is drawn as a string although
  nothing ends it: the row then runs on with the identity of the last revoker, and reads as another index.  An
  index of ten digits is never shown.\<close>

theorem provider_row_runs_on:
  assumes "platform E" "session E R log s" "currentInstruction s = int (unat INS_CREDENTIAL_DEPLOYMENT)"
    "screen s = Some rv" "rv_callback rv = review_choice_sign"
  shows "\<exists>p acc. (let i = provider_index (p_details p); revoker = take 4 (last (p_revokers p)) in
      i < 10 ^ 9 \<and> length revoker = 4 \<and>
      rv_pairs rv = deployment_rows E p (if i < 10 ^ 8 then dec i else dec i @ upper_hex revoker) acc) \<and>
    signs_on_approval E R s (credential_bytes p @ account_bytes acc)"
proof -
  have "deployment_flow E log s" and aw: "awaiting s" using signing_session [OF assms] by (simp_all add: flow_of_def)
  moreover have "\<not> deployment_up E log s"
    using assms(4,5) cred_up_callback by (fastforce simp: deployment_up_def)
  ultimately obtain p provider acc where a: "deployment_asked E log s p provider acc"
    unfolding deployment_flow_def if_P [OF aw] by blast
  then have asks: "asks_to_sign s (credential_bytes p @ account_bytes acc) (deployment_rows E p provider acc)"
    by (simp add: deployment_asked_def)
  have pr: "proving True p 0" "provider = dec (provider_index (p_details p)) @ provider_tail p" "provider_index (p_details p) < 10 ^ 9"
    using a unfolding deployment_asked_def provider_alone by blast+
  have "last (p_revokers p) \<in> set (p_revokers p)" "\<forall>r \<in> set (p_revokers p). length r = 100"
    using pr(1) by (auto simp: cred_shapes)
  then have "length (take 4 (last (p_revokers p))) = 4" by simp
  then show ?thesis
    using review_signs [OF assms(1) asks assms(4)] pr(2,3)
    by (intro exI [of _ p] exI [of _ acc]) (simp add: provider_tail_def)
qed

text \<open>A session in which provider 123456789 is signed, and what the row says instead.\<close>

lemma provider_row_runs_on_witness:
  "\<exists>log s rv p acc. session demo_sdk demo_rest log s \<and> screen s = Some rv \<and>
    (ascii ''Identity provider'', ascii ''12345678900000000'') \<in> set (rv_pairs rv) \<and>
    provider_index (p_details p) = 123456789 \<and>
    signs_on_approval demo_sdk demo_rest s (credential_bytes p @ account_bytes acc)"
proof -
  let ?d = "ascii ''123456789''" and ?row = "ascii ''12345678900000000''"
  have be: "be_nat [7, 91, 205, 21] = 123456789" by (simp add: be_nat_def)
  have dec: "dec 123456789 = ?d" by (simp add: dec.simps digit_def ascii_def)
  have "index_noted [7, 91, 205, 21] (\<lambda>i. i = ?d)" by (simp add: index_noted_def be dec ascii_def)
  from demo_deployment_up [OF this] obtain log s rv where s: "session demo_sdk demo_rest log s"
    "currentInstruction s = int (unat INS_CREDENTIAL_DEPLOYMENT)" "screen s = Some rv" "rv_callback rv = review_choice_sign"
    and row: "(ascii ''Identity provider'', cstr (?d @ upper_hex (zeros 4) @ [0])) \<in> set (rv_pairs rv)"
    by (auto simp: reached_def)
  have "cstr (?d @ upper_hex (zeros 4) @ [0]) = ?row" by code_simp
  note row = row [unfolded this]
  from provider_row_runs_on [OF demo_platform s] obtain p acc where p:
    "provider_index (p_details p) < 10 ^ 9" "rv_pairs rv = deployment_rows demo_sdk p (if provider_index (p_details p) < 10 ^ 8
       then dec (provider_index (p_details p)) else dec (provider_index (p_details p)) @ upper_hex (take 4 (last (p_revokers p)))) acc"
    "signs_on_approval demo_sdk demo_rest s (credential_bytes p @ account_bytes acc)" "length (take 4 (last (p_revokers p))) = 4"
    by (auto simp: Let_def)
  let ?i = "provider_index (p_details p)" and ?hex = "upper_hex (take 4 (last (p_revokers p)))"
  have shown: "?row = (if ?i < 10 ^ 8 then dec ?i else dec ?i @ ?hex)"
    using row unfolding p(2) by (cases acc) (auto simp: deployment_rows_def Let_def ascii_def)
  have l: "length ?row = 17" by (simp add: ascii_def)
  have big: "\<not> ?i < 10 ^ 8"
  proof
    assume "?i < 10 ^ 8"
    then show False using shown l length_dec_9 [of ?i] by simp
  qed
  then have eq: "?d @ ascii ''00000000'' = dec ?i @ ?hex" using shown by (simp add: ascii_def)
  have "length (ascii ''00000000'') = length ?hex" using p(4) by (simp add: ascii_def)
  with eq have "?d = dec ?i" by simp
  then have "?i = 123456789" unfolding dec [symmetric] by simp
  then show ?thesis using s row p(3) by blast
qed

end
