(* ===== verification/Spec2Isabelle.thy ===== *)
theory Spec2Isabelle
  imports Exports CredentialSigning
begin

text \<open>
  A model of the Concordium application for Ledger devices (src/src), and the theorems that make it
  safe to approve what its screens show.

  \<^bold>\<open>The program.\<close>  A host sends APDUs; \<open>app_main\<close> receives one at a time and hands it to the
  dispatcher, which calls the handler of the instruction.  A flow of several packets keeps its progress
  in one member of a union of contexts, absorbs the transaction into a running SHA-256, writes texts into
  fixed buffers and asks the user on one screen or several; a callback of the last screen signs the
  digest with the key of a derivation path, or exports a key.  Failures are long jumps (THROW of a status
  word) to one of two guards.

  \<^bold>\<open>How the code is read.\<close>  A buffer is a list of bytes of the buffer's length; every access is checked,
  and one that leaves the buffer is the outcome \<open>Oob\<close> (\<open>Fault\<close> in stateful code), which the theorems exclude.
  Integers keep their width (Prelude: \<open>u8\<close>, \<open>u16\<close>, \<open>u32\<close>, \<open>u64\<close>; \<open>sub8\<close> writes out the wrap-around
  of \<open>uint8_t\<close> subtraction).  A handler is a function from the state \<open>app\<close> to \<open>Ret\<close>, \<open>Throw\<close> or \<open>Fault\<close>.  The
  union is modelled as a record with all of its members; that no instruction reads what another wrote there
  is a theorem (the first packet of a flow meets a wiped union, and a packet of another instruction never
  reaches a handler), and it is what justifies the record.  Replies are the list \<open>replies\<close>, the screen is
  \<open>screen\<close>, and the running hash is the list of the bytes absorbed so far.

  \<^bold>\<open>Parameters.\<close>  The SDK and tinycbor are the record \<open>sdk\<close> (Sdk); \<open>platform\<close> (Flow) collects what the
  program relies on: the number and hex formatters are exact or refuse, the digest has 32 bytes, base58
  texts are injective and not too long, CBOR heads are decoded as RFC 8949 says, reduction modulo the
  group order reduces, and the sequence of candidates for a BLS key has one that is not zero.  The concrete
  \<open>demo_sdk\<close> meets all of it.  \<open>rest\<close> (Dispatcher) stands for the handlers that are
  not modelled; every callback of a modelled review is.

  \<^bold>\<open>The theories\<close>, in the order of the calls:
  \<^item> Prelude, Sdk: results, buffers, words, big-endian numbers, decimal texts; the platform.
  \<^item> NumberText (helpers/numberHelpers.c, display_text.c, fee_display.c), DerivationPath
    (helpers/derivation_path.c), Calendar (helpers/time.c), DataBlob (helpers/cbor_data_blob.c): the texts
    on screen, each with the theorem that the text fits its buffer and determines the value.
  \<^item> Context (instruction_context.h, tx_state.h), Machine (apdu_response.c, concordium_crypto.c,
    base58check.c, menu): the state and the operations on it; TxHash (helpers/tx_hash.c): header, kind and
    signature; Screens (ui/display_nbgl.c): which rows each review draws.
  \<^item> Flow: the two exception guards, the choices, and the contract of an instruction, the locale
    \<open>instruction\<close>: what a handler and its callbacks owe the receive loop, in terms of an invariant
    that relates the context and the log of the screens already approved.  \<open>sign_flow\<close> is the contract of a flow
    with one review, and gives \<open>instruction\<close> by a sublocale.
  \<^item> One theory per instruction: Transfers, Schedule, RegisterData, DeployModule, Contracts with InitContract
    and UpdateContract, ToPublic, Delegation, Baker, PublicInfo, PublicKey, ExportKeys, ExportNewPath,
    Credential and CredentialFlow (sign_credential_deployment.c, the part that both flows share) with
    DeployCredential (a credential of its own) and UpdateCredential (credentials added in an update).
    Each ends with the lemma that its handler and callbacks keep its invariant.  Payload and Parts
    hold what several of them share.
  \<^item> Dispatcher (app_main.c, apdu/dispatcher.c): every instruction interprets the locale on its own definitions;
    the table of flows.  Session: executions from start-up under any sequence of packets, choices and
    ends of the status page, as an inductive predicate; its invariant is proved by rule induction from
    the locale's laws alone.
  \<^item> Demo: sessions against \<open>demo_sdk\<close> that reach each review, for the witnesses.
    Guarantees, Signing, StagedSigning, CredentialSigning, Exports: the properties of whole sessions.

  \<^bold>\<open>What is shown.\<close>  No session faults, whatever the host sends (safety of every buffer access); every
  packet is answered exactly once or waits for the user; a declined review releases nothing; a packet alone
  never sends data other than name, version and a public key asked for without display.  For every signing
  instruction: the screens that were approved, and the one that asks for the signature, show the fields of a
  transaction, and the approval answers with the signature over exactly its bytes.  For the exports: what is
  sent is what the screen names, and a failure is reported only if a key cannot be made.  The validator
  configuration, whose transaction is spread over up to nine screens, is related to an abstract protocol
  (\<open>baker_trace\<close>) that it implements at every moment.  A credential is signed only after its keys, its
  identity and every revealed attribute were approved; two theorems record where the code falls short of that:
  the index of the identity provider is drawn from a buffer that no NUL ends and runs on with the identity of
  the last revoker (\<open>provider_row_runs_on\<close>), and the review of an attribute, unlike the review of a key, does
  not park the context (\<open>attribute_review_takes_another_value\<close>).

  \<^bold>\<open>Where the documentation differs.\<close>  The theorems state what the code does.  Against the files of doc/: the
  digest of a validator's keys is shown in uppercase, the bitmap of a validator configuration has nine bits and
  its packets are numbered one higher, and a key of the identity provider information arrives as type, index,
  key.

  \<^bold>\<open>Assumptions about the environment.\<close>  The SDK drops APDUs while a reply is pending, so no packet is handled
  while a review is up (\<open>enabled\<close>); the comment on parking in sign_configure_baker.c addresses a host that
  gets past this, \<open>baker_refuses_pushed_packets\<close> shows that parking does its work, and
  \<open>attribute_review_takes_another_value\<close> shows the one review of several packets that lacks it.  An APDU has at most
  255 bytes of data.

  \<^bold>\<open>Bounds and termination.\<close>  Loops over a packet are recursive on the data.  The search for a BLS key
  may run for ever in principle and is a \<open>partial_function\<close>; that it returns is a theorem under
  the hypothesis on the candidates.  Nothing uses fuel.

  \<^bold>\<open>Not modelled.\<close>  The display toolkit below a review and the second user interface for devices with two
  buttons (ui/display_bagl.c, menu_bagl.c), which draws the same pairs; the fuzzing stubs and the tests; the
  cryptographic primitives.  The handlers behind \<open>rest\<close>: verify_address.c (a scalar multiplication of the SDK
  and a name certified by it), set_trusted_name.c and get_challenge.c (TLV parsing, certificates and random
  numbers of the SDK), sign_plt.c (nested CBOR iterators of tinycbor).
\<close>

end
